(* ===== verification/Prelude.thy ===== *)
theory Prelude
  imports Main
begin

text \<open>
  What every theory of the development shares: Go's 64-bit signed arithmetic, the functions of
  the \<^verbatim>\<open>strings\<close> and \<^verbatim>\<open>strconv\<close> packages that the sources call, the representation of maps,
  times and durations, and the generic lemmas and theorem collections the component proofs use.

  Conventions.
  \<^item> A Go \<^verbatim>\<open>string\<close> or \<^verbatim>\<open>[]byte\<close> is a HOL \<open>string\<close>, a list of bytes.
  \<^item> \<^verbatim>\<open>int\<close>, \<^verbatim>\<open>int64\<close> and \<^verbatim>\<open>time.Duration\<close> (nanoseconds) are \<open>int\<close>; where a sum or a product may
    leave the 64-bit range the wrap-around is written out with \<open>i64\<close>.
  \<^item> A \<^verbatim>\<open>time.Time\<close> is the number of nanoseconds since Go's zero time, so \<^verbatim>\<open>IsZero\<close> is the test
    for 0 and \<^verbatim>\<open>UTC()\<close>, which does not change the instant, is the identity.  Every reading of the
    clock is an argument of the definition that makes it.
  \<^item> A possibly nil error is an \<open>option\<close>; a \<^verbatim>\<open>(value, error)\<close> pair is a sum with the error left.
\<close>

section \<open>Theorem collections\<close>

named_theorems go_strings \<open>evaluation of the string functions\<close>
named_theorems step_simps \<open>equations of the operations of the state machines\<close>

section \<open>64-bit signed integers\<close>

type_synonym duration = int
type_synonym gotime = int

definition i64 :: "int \<Rightarrow> int" where
  "i64 x = (x + 2 ^ 63) mod 2 ^ 64 - 2 ^ 63"

definition fits64 :: "int \<Rightarrow> bool" where
  "fits64 x \<longleftrightarrow> - (2 ^ 63) \<le> x \<and> x < 2 ^ 63"

lemma i64_id [simp]: "fits64 x \<Longrightarrow> i64 x = x"
  by (simp add: i64_def fits64_def)

lemma fits64_i64 [simp]: "fits64 (i64 x)"
proof -
  have "0 \<le> (x + 2 ^ 63) mod (2 ^ 64 :: int)" and "(x + 2 ^ 63) mod (2 ^ 64 :: int) < 2 ^ 64"
    by simp_all
  then show ?thesis
    unfolding i64_def fits64_def by simp
qed

text \<open>A sum that exceeds the range comes back as itself less \<open>2 ^ 64\<close>.\<close>

lemma i64_over: "2 ^ 63 \<le> x \<Longrightarrow> x < 2 ^ 64 + 2 ^ 63 \<Longrightarrow> i64 x = x - 2 ^ 64"
proof -
  assume "2 ^ 63 \<le> x" "x < 2 ^ 64 + 2 ^ 63"
  then have "i64 (x - 2 ^ 64) = x - 2 ^ 64" by (simp add: fits64_def)
  moreover have "i64 (x - 2 ^ 64) = i64 x"
    unfolding i64_def using mod_add_self2 [of "x - 2 ^ 64 + 2 ^ 63" "2 ^ 64 :: int"] by (simp add: algebra_simps)
  ultimately show ?thesis by simp
qed

lemma fits64_between: "fits64 b \<Longrightarrow> 0 \<le> x \<Longrightarrow> x \<le> b \<Longrightarrow> fits64 x"
  by (simp add: fits64_def)

text \<open>Go's \<^verbatim>\<open>/\<close> on signed integers truncates towards zero.\<close>

definition go_div :: "int \<Rightarrow> int \<Rightarrow> int" where
  "go_div a b = sgn a * sgn b * (\<bar>a\<bar> div \<bar>b\<bar>)"

lemma go_div_nonneg: "0 \<le> a \<Longrightarrow> 0 < b \<Longrightarrow> go_div a b = a div b"
  by (cases "a = 0") (simp_all add: go_div_def)

text \<open>Units of \<^verbatim>\<open>time.Duration\<close>.\<close>

definition millisecond :: duration where
  "millisecond = 1000000"

definition second :: duration where
  "second = 1000 * millisecond"

definition minute :: duration where
  "minute = 60 * second"

definition hour :: duration where
  "hour = 60 * minute"

text \<open>\<^verbatim>\<open>Time.Sub\<close>, and so \<^verbatim>\<open>time.Since\<close>, saturates at the ends of the 64-bit range.\<close>

definition time_sub :: "gotime \<Rightarrow> gotime \<Rightarrow> duration" where
  "time_sub t u = max (- (2 ^ 63)) (min (2 ^ 63 - 1) (t - u))"

lemmas duration_units = millisecond_def second_def minute_def hour_def

section \<open>White space: \<^verbatim>\<open>strings.TrimSpace\<close>\<close>

text \<open>
  \<open>space_rune w\<close>: the bytes \<open>w\<close> are the UTF-8 encoding of one code point for which
  \<^verbatim>\<open>unicode.IsSpace\<close> holds: tab to carriage return, space, U+0085, U+00A0, U+1680,
  U+2000 to U+200A, U+2028, U+2029, U+202F, U+205F and U+3000.
\<close>

abbreviation byte :: "char \<Rightarrow> nat" where
  "byte c \<equiv> of_char c"

definition ascii_space :: "char \<Rightarrow> bool" where
  "ascii_space c \<longleftrightarrow> byte c = 32 \<or> (9 \<le> byte c \<and> byte c \<le> 13)"

fun space_rune :: "string \<Rightarrow> bool" where
  "space_rune [a] = ascii_space a"
| "space_rune [a, b] = (byte a = 0xC2 \<and> (byte b = 0x85 \<or> byte b = 0xA0))"
| "space_rune [a, b, c] =
     ((byte a = 0xE1 \<and> byte b = 0x9A \<and> byte c = 0x80) \<or>
      (byte a = 0xE2 \<and> byte b = 0x80 \<and>
        (0x80 \<le> byte c \<and> byte c \<le> 0x8A \<or> byte c = 0xA8 \<or> byte c = 0xA9 \<or> byte c = 0xAF)) \<or>
      (byte a = 0xE2 \<and> byte b = 0x81 \<and> byte c = 0x9F) \<or>
      (byte a = 0xE3 \<and> byte b = 0x80 \<and> byte c = 0x80))"
| "space_rune _ = False"

text \<open>
  \<open>lead s\<close> and \<open>trail s\<close> are the numbers of bytes of the white space code point \<open>s\<close> starts and
  ends with, 0 when it has none there.
\<close>

definition lead :: "string \<Rightarrow> nat" where
  "lead s = (if space_rune (take 1 s) then 1
     else if 2 \<le> length s \<and> space_rune (take 2 s) then 2
     else if 3 \<le> length s \<and> space_rune (take 3 s) then 3 else 0)"

definition trail :: "string \<Rightarrow> nat" where
  "trail s = (if space_rune (drop (length s - 1) s) then 1
     else if 2 \<le> length s \<and> space_rune (drop (length s - 2) s) then 2
     else if 3 \<le> length s \<and> space_rune (drop (length s - 3) s) then 3 else 0)"

lemma lead_le [simp]: "lead s \<le> length s"
  by (cases s) (auto simp: lead_def)

lemma trail_le [simp]: "trail s \<le> length s"
  by (cases s) (auto simp: trail_def)

function trim_left :: "string \<Rightarrow> string" where
  "trim_left s = (if lead s = 0 then s else trim_left (drop (lead s) s))"
  by pat_completeness auto
termination
proof (relation "measure length")
  fix s :: string
  assume "lead s \<noteq> 0"
  moreover from this have "s \<noteq> []" by (auto simp: lead_def)
  ultimately show "(drop (lead s) s, s) \<in> measure length" by simp
qed simp

function trim_right :: "string \<Rightarrow> string" where
  "trim_right s = (if trail s = 0 then s else trim_right (take (length s - trail s) s))"
  by pat_completeness auto
termination
proof (relation "measure length")
  fix s :: string
  assume "trail s \<noteq> 0"
  moreover from this have "s \<noteq> []" by (auto simp: trail_def)
  ultimately show "(take (length s - trail s) s, s) \<in> measure length" by simp
qed simp

declare trim_left.simps [simp del] trim_right.simps [simp del]

definition trim_space :: "string \<Rightarrow> string" where
  "trim_space s = trim_right (trim_left s)"

definition blank :: "string \<Rightarrow> bool" where
  "blank s \<longleftrightarrow> trim_space s = []"

section \<open>Other functions of \<^verbatim>\<open>strings\<close>\<close>

text \<open>
  \<^verbatim>\<open>strings.ToLower\<close> and \<^verbatim>\<open>strings.ToUpper\<close> on ASCII letters; other bytes are kept, which is what
  Go does on ASCII strings, the only ones these functions are used to recognise.
\<close>

definition lower_char :: "char \<Rightarrow> char" where
  "lower_char c = (if 65 \<le> byte c \<and> byte c \<le> 90 then char_of (byte c + 32) else c)"

definition to_lower :: "string \<Rightarrow> string" where
  "to_lower s = map lower_char s"

definition upper_char :: "char \<Rightarrow> char" where
  "upper_char c = (if 97 \<le> byte c \<and> byte c \<le> 122 then char_of (byte c - 32) else c)"

definition to_upper :: "string \<Rightarrow> string" where
  "to_upper s = map upper_char s"

fun has_prefix :: "string \<Rightarrow> string \<Rightarrow> bool" where
  "has_prefix s [] = True"
| "has_prefix [] (p # ps) = False"
| "has_prefix (c # cs) (p # ps) = (c = p \<and> has_prefix cs ps)"

text \<open>\<^verbatim>\<open>strings.Split\<close> with a one-byte separator: always at least one piece.\<close>

fun split_on :: "char \<Rightarrow> string \<Rightarrow> string list" where
  "split_on d [] = [[]]"
| "split_on d (c # cs) =
     (if c = d then [] # split_on d cs
      else (case split_on d cs of [] \<Rightarrow> [[c]] | w # ws \<Rightarrow> (c # w) # ws))"

text \<open>
  \<^verbatim>\<open>strings.SplitN(s, sep, 2)\<close> for a one-byte separator that occurs in \<open>s\<close>: the part before its
  first occurrence and the rest.
\<close>

definition cut_at :: "char \<Rightarrow> string \<Rightarrow> string \<times> string" where
  "cut_at d s = (takeWhile (\<lambda>c. c \<noteq> d) s, tl (dropWhile (\<lambda>c. c \<noteq> d) s))"

text \<open>\<^verbatim>\<open>strings.Join\<close>.\<close>

fun join_with :: "string \<Rightarrow> string list \<Rightarrow> string" where
  "join_with d [] = []"
| "join_with d [w] = w"
| "join_with d (w # ws) = w @ d @ join_with d ws"

text \<open>\<^verbatim>\<open>strings.TrimRight(s, cutset)\<close> for a one-byte cut set.\<close>

definition trim_right_char :: "char \<Rightarrow> string \<Rightarrow> string" where
  "trim_right_char d s = rev (dropWhile (\<lambda>c. c = d) (rev s))"

text \<open>\<^verbatim>\<open>strings.EqualFold\<close> on ASCII text, and \<^verbatim>\<open>strings.Fields\<close>.\<close>

definition equal_fold :: "string \<Rightarrow> string \<Rightarrow> bool" where
  "equal_fold a b \<longleftrightarrow> to_lower a = to_lower b"

function fields_acc :: "string \<Rightarrow> string \<Rightarrow> string list" where
  "fields_acc [] w = (if w = [] then [] else [rev w])"
| "fields_acc (c # cs) w =
     (if lead (c # cs) = 0 then fields_acc cs (c # w)
      else (if w = [] then [] else [rev w]) @ fields_acc (drop (lead (c # cs) - 1) cs) [])"
  by pat_completeness auto
termination by (relation "measure (\<lambda>(s, w). length s)") auto

definition strings_Fields :: "string \<Rightarrow> string list" where
  "strings_Fields s = fields_acc s []"

text \<open>\<^verbatim>\<open>strings.LastIndex\<close> for a one-byte separator.\<close>

definition last_index :: "char \<Rightarrow> string \<Rightarrow> int" where
  "last_index d s = (if d \<in> set s then int (length s) - 1 - int (length (takeWhile (\<lambda>c. c \<noteq> d) (rev s))) else - 1)"

text \<open>The verb \<^verbatim>\<open>%q\<close> of \<^verbatim>\<open>fmt\<close>, on text that needs no escapes.\<close>

definition quoted :: "string \<Rightarrow> string" where
  "quoted s = [CHR 0x22] @ s @ [CHR 0x22]"

section \<open>Decimal numbers: \<^verbatim>\<open>strconv\<close>\<close>

definition digit_char :: "nat \<Rightarrow> char" where
  "digit_char d = char_of (48 + d)"

definition is_digit :: "char \<Rightarrow> bool" where
  "is_digit c \<longleftrightarrow> 48 \<le> byte c \<and> byte c \<le> 57"

fun show_nat :: "nat \<Rightarrow> string" where
  "show_nat n = (if n < 10 then [digit_char n] else show_nat (n div 10) @ [digit_char (n mod 10)])"

declare show_nat.simps [simp del]

text \<open>\<^verbatim>\<open>strconv.Itoa\<close> and the verb \<^verbatim>\<open>%d\<close>.\<close>

definition itoa :: "int \<Rightarrow> string" where
  "itoa n = (if n < 0 then ''-'' @ show_nat (nat (- n)) else show_nat (nat n))"

definition digits_value :: "string \<Rightarrow> nat" where
  "digits_value s = foldl (\<lambda>v c. 10 * v + (byte c - 48)) 0 s"

definition parse_digits :: "string \<Rightarrow> nat option" where
  "parse_digits s = (if s \<noteq> [] \<and> list_all is_digit s then Some (digits_value s) else None)"

text \<open>
  \<^verbatim>\<open>strconv.ParseInt(s, 10, 64)\<close> and \<^verbatim>\<open>strconv.Atoi\<close>: an optional sign, digits, and a value in
  range; \<open>None\<close> is the error.
\<close>

definition parse_int :: "string \<Rightarrow> int option" where
  "parse_int s =
     (let v = (case s of
            [] \<Rightarrow> None
          | c # cs \<Rightarrow>
              (if c = CHR ''-'' then map_option (\<lambda>n. - int n) (parse_digits cs)
               else if c = CHR ''+'' then map_option int (parse_digits cs)
               else map_option int (parse_digits s)))
      in case v of None \<Rightarrow> None | Some n \<Rightarrow> (if fits64 n then Some n else None))"

section \<open>Maps\<close>

text \<open>A Go map is a partial function; indexing a missing key gives the zero value, here \<open>[]\<close>.\<close>

type_synonym headers = "string \<rightharpoonup> string"

definition hget :: "headers \<Rightarrow> string \<Rightarrow> string" where
  "hget m k = (case m k of None \<Rightarrow> [] | Some v \<Rightarrow> v)"

text \<open>Replace a value that is not positive by a default, the idiom of every \<^verbatim>\<open>normalize\<close>.\<close>

definition pos_or :: "int \<Rightarrow> int \<Rightarrow> int" where
  "pos_or x d = (if x \<le> 0 then d else x)"

lemma pos_or_pos [simp]: "0 < d \<Longrightarrow> 0 < pos_or x d"
  by (simp add: pos_or_def)

lemma pos_or_fix [simp]: "0 < x \<Longrightarrow> pos_or x d = x"
  by (simp add: pos_or_def)

lemma pos_or_idem [simp]: "pos_or (pos_or x d) d = pos_or x d"
  by (simp add: pos_or_def)

section \<open>Lemmas on trimming\<close>

lemma lead_Nil [simp]: "lead [] = 0"
  by (simp add: lead_def)

lemma trail_Nil [simp]: "trail [] = 0"
  by (simp add: trail_def)

lemma trim_left_fix: "lead s = 0 \<Longrightarrow> trim_left s = s"
  by (subst trim_left.simps) simp

lemma trim_right_fix: "trail s = 0 \<Longrightarrow> trim_right s = s"
  by (subst trim_right.simps) simp

lemma lead_trim_left [simp]: "lead (trim_left s) = 0"
proof (induction s rule: trim_left.induct)
  case (1 s)
  then show ?case by (cases "lead s = 0") (simp_all add: trim_left.simps [of s])
qed

lemma trail_trim_right [simp]: "trail (trim_right s) = 0"
proof (induction s rule: trim_right.induct)
  case (1 s)
  then show ?case by (cases "trail s = 0") (simp_all add: trim_right.simps [of s])
qed

text \<open>A prefix of a string that starts with no white space starts with none.\<close>

lemma lead_take: "lead s = 0 \<Longrightarrow> lead (take n s) = 0"
proof (cases n)
  case (Suc m)
  then show "lead s = 0 \<Longrightarrow> lead (take n s) = 0"
    by (cases s) (auto simp: lead_def min_def not_less_eq_eq numeral_2_eq_2 split: if_splits)
qed simp

lemma lead_trim_right: "lead s = 0 \<Longrightarrow> lead (trim_right s) = 0"
proof (induction s rule: trim_right.induct)
  case (1 s)
  then show ?case
    by (cases "trail s = 0") (simp_all add: trim_right.simps [of s] lead_take)
qed

lemma trim_space_ends [simp]: "lead (trim_space s) = 0" "trail (trim_space s) = 0"
  by (simp_all add: trim_space_def lead_trim_right)

lemma trim_space_fix: "lead s = 0 \<Longrightarrow> trail s = 0 \<Longrightarrow> trim_space s = s"
  by (simp add: trim_space_def trim_left_fix trim_right_fix)

lemma trim_space_idem [simp]: "trim_space (trim_space s) = trim_space s"
  by (simp add: trim_space_fix)

lemma trim_space_Nil [simp]: "trim_space [] = []"
  by (simp add: trim_space_fix)

lemma blank_Nil [simp]: "blank []"
  by (simp add: blank_def)

lemma blank_trim_space [simp]: "blank (trim_space s) = blank s"
  by (simp add: blank_def)

lemmas trim_eval [go_strings] =
  trim_space_def trim_left.simps trim_right.simps lead_def trail_def ascii_space_def blank_def

section \<open>Lemmas on splitting and joining\<close>

lemma split_on_nonempty [simp]: "split_on d s \<noteq> []"
  by (induction s) (auto split: list.splits)

lemma split_on_no_sep: "d \<notin> set s \<Longrightarrow> split_on d s = [s]"
  by (induction s) auto

lemma split_on_append: "d \<notin> set w \<Longrightarrow> split_on d (w @ d # s) = w # split_on d s"
  by (induction w) auto

lemma join_split: "join_with [d] (split_on d s) = s"
proof (induction s)
  case (Cons c cs)
  then show ?case by (cases "split_on d cs" rule: list.exhaust; cases "tl (split_on d cs)") auto
qed simp

lemma split_join:
  assumes "ws \<noteq> []" and "\<forall>w \<in> set ws. d \<notin> set w"
  shows "split_on d (join_with [d] ws) = ws"
  using assms
proof (induction "[d]" ws rule: join_with.induct)
  case (3 w v vs)
  then show ?case by (simp add: split_on_append)
qed (simp_all add: split_on_no_sep)

lemma set_join_with: "set (join_with d ws) \<subseteq> set d \<union> (\<Union>w \<in> set ws. set w)"
  by (induction d ws rule: join_with.induct) auto

lemma cut_at_append: "d \<notin> set w \<Longrightarrow> cut_at d (w @ d # s) = (w, s)"
  by (induction w) (auto simp: cut_at_def)

lemma join_snoc: "xs \<noteq> [] \<Longrightarrow> join_with d (xs @ [y]) = join_with d xs @ d @ y"
  by (induction d xs rule: join_with.induct) auto

lemma has_prefix_append: "has_prefix (p @ s) p"
  by (induction p) auto

section \<open>Lemmas on decimal numbers\<close>

lemma byte_less: "byte c < 256"
  by (metis of_char_mod_256 mod_less_divisor zero_less_numeral)

lemma byte_digit_char [simp]: "d < 10 \<Longrightarrow> byte (digit_char d) = 48 + d"
  by (simp add: digit_char_def)

lemma is_digit_digit_char [simp]: "d < 10 \<Longrightarrow> is_digit (digit_char d)"
  by (simp add: is_digit_def)

lemma digits_value_snoc: "digits_value (s @ [c]) = 10 * digits_value s + (byte c - 48)"
  by (simp add: digits_value_def)

lemma show_nat_digits: "list_all is_digit (show_nat n)"
proof (induction n rule: show_nat.induct)
  case (1 n)
  then show ?case by (cases "n < 10") (simp_all add: show_nat.simps [of n])
qed

lemma digits_value_show_nat [simp]: "digits_value (show_nat n) = n"
proof (induction n rule: show_nat.induct)
  case (1 n)
  then show ?case
    by (cases "n < 10")
      (simp_all add: show_nat.simps [of n] digits_value_snoc, simp_all add: digits_value_def)
qed

lemma show_nat_nonempty [simp]: "show_nat n \<noteq> []"
  by (subst show_nat.simps) simp

lemma parse_digits_show_nat [simp]: "parse_digits (show_nat n) = Some n"
  by (simp add: parse_digits_def show_nat_digits)

lemma show_nat_Cons: "\<exists>c cs. show_nat n = c # cs \<and> is_digit c"
  using show_nat_digits [of n] by (cases "show_nat n") auto

lemma is_digit_signs [simp]: "\<not> is_digit CHR ''-''" "\<not> is_digit CHR ''+''"
  by (simp_all add: is_digit_def)

text \<open>\<^verbatim>\<open>Atoi(Itoa(n)) = n\<close> for every 64-bit number.\<close>

lemma parse_int_itoa [simp]:
  assumes "fits64 n"
  shows "parse_int (itoa n) = Some n"
proof (cases "n < 0")
  case True
  with assms show ?thesis by (simp add: parse_int_def itoa_def)
next
  case False
  obtain c cs where s: "show_nat (nat n) = c # cs" and "is_digit c"
    using show_nat_Cons by blast
  then have "c \<noteq> CHR ''-''" "c \<noteq> CHR ''+''" by auto
  with s False assms parse_digits_show_nat [of "nat n"] show ?thesis
    by (simp add: parse_int_def itoa_def)
qed

lemma parse_int_fits: "parse_int s = Some n \<Longrightarrow> fits64 n"
  by (auto simp: parse_int_def Let_def split: option.splits if_splits)

lemma itoa_nonempty [simp]: "itoa n \<noteq> []"
  by (simp add: itoa_def)

lemma itoa_chars: "\<forall>c \<in> set (itoa n). c = CHR ''-'' \<or> is_digit c"
  using show_nat_digits by (auto simp: itoa_def list_all_iff)

text \<open>A string of characters that are no white space and ASCII is left alone by trimming.\<close>

lemma trim_space_plain:
  assumes "\<forall>c \<in> set s. byte c < 128 \<and> \<not> ascii_space c"
  shows "trim_space s = s"
proof (rule trim_space_fix)
  show "lead s = 0"
    using assms by (cases s rule: space_rune.cases) (auto simp: lead_def split: if_splits)
  show "trail s = 0"
  proof (cases s rule: rev_cases)
    case (snoc r c)
    then have "byte c < 128" "\<not> ascii_space c" using assms by auto
    then show ?thesis using snoc
      by (cases r rule: rev_cases; cases "butlast r" rule: rev_cases) (auto simp: trail_def)
  qed simp
qed

text \<open>It is enough that the first and the last character are such.\<close>

lemma trim_space_plain_ends:
  assumes "byte c < 128" "\<not> ascii_space c" "byte d < 128" "\<not> ascii_space d"
  shows "trim_space (c # s @ [d]) = c # s @ [d]"
proof (rule trim_space_fix)
  show "lead (c # s @ [d]) = 0"
    using assms by (cases s; cases "tl s") (auto simp: lead_def split: if_splits)
  show "trail (c # s @ [d]) = 0"
    using assms by (cases s rule: rev_cases; cases "butlast s" rule: rev_cases) (auto simp: trail_def)
qed

text \<open>A line with white space at its end only.\<close>

lemma lead_plain: "byte c < 128 \<Longrightarrow> \<not> ascii_space c \<Longrightarrow> lead (c # s) = 0"
  by (cases s; cases "tl s") (auto simp: lead_def split: if_splits)

lemma trim_right_snoc: "ascii_space d \<Longrightarrow> trim_right (s @ [d]) = trim_right s"
  by (subst trim_right.simps) (simp add: trail_def)

lemma trim_space_line:
  assumes "byte c < 128" "\<not> ascii_space c" "byte d < 128" "\<not> ascii_space d"
  shows "trim_space ((c # s @ [d]) @ [CHR 0x0D, CHR 0x0A]) = c # s @ [d]"
proof -
  have l: "lead (c # r) = 0" for r by (rule lead_plain [OF assms(1,2)])
  have "trim_space ((c # s @ [d]) @ [CHR 0x0D, CHR 0x0A]) = trim_right ((c # s @ [d]) @ [CHR 0x0D, CHR 0x0A])"
    unfolding trim_space_def by (subst trim_left_fix) (simp_all add: l)
  also have "\<dots> = trim_right (((c # s @ [d]) @ [CHR 0x0D]) @ [CHR 0x0A])" by simp
  also have "\<dots> = trim_right ((c # s @ [d]) @ [CHR 0x0D])"
    by (rule trim_right_snoc) (simp add: ascii_space_def)
  also have "\<dots> = trim_right (c # s @ [d])"
    by (rule trim_right_snoc) (simp add: ascii_space_def)
  also have "\<dots> = trim_space (c # s @ [d])"
    unfolding trim_space_def by (simp add: trim_left_fix l)
  finally show ?thesis by (simp only: trim_space_plain_ends [OF assms])
qed

text \<open>The fields of words of such characters with single spaces between them.\<close>

lemma fields_acc_word:
  assumes "\<forall>c \<in> set w. byte c < 128 \<and> \<not> ascii_space c"
  shows "fields_acc (w @ s) acc = fields_acc s (rev w @ acc)"
  using assms by (induction w arbitrary: acc) (simp_all add: lead_plain)

lemma fields_acc_space: "fields_acc (CHR '' '' # s) acc = (if acc = [] then [] else [rev acc]) @ fields_acc s []"
  by (simp add: lead_def ascii_space_def)

lemma strings_Fields_words:
  assumes "\<forall>w \<in> set ws. w \<noteq> [] \<and> (\<forall>c \<in> set w. byte c < 128 \<and> \<not> ascii_space c)"
  shows "strings_Fields (join_with '' '' ws) = ws"
  unfolding strings_Fields_def using assms
proof (induction ws)
  case (Cons w ws)
  show ?case
  proof (cases ws)
    case Nil
    then show ?thesis using Cons fields_acc_word [of w "[]" "[]"] by simp
  next
    case (Cons v vs)
    then show ?thesis using Cons.prems Cons.IH fields_acc_word [of w "'' '' @ join_with '' '' (v # vs)" "[]"]
      by (simp add: fields_acc_space del: fields_acc.simps)
  qed
qed simp

lemma trim_space_itoa [simp]: "trim_space (itoa n) = itoa n"
proof (rule trim_space_plain, rule ballI)
  fix c assume "c \<in> set (itoa n)"
  then have "c = CHR ''-'' \<or> is_digit c" using itoa_chars by blast
  then show "byte c < 128 \<and> \<not> ascii_space c" by (auto simp: is_digit_def ascii_space_def)
qed

lemma show_nat_inj: "show_nat a = show_nat b \<Longrightarrow> a = b"
  by (metis digits_value_show_nat)

lemma show_nat_no_sign: "show_nat a \<noteq> CHR ''-'' # s"
  using show_nat_digits [of a] by auto

lemma itoa_inj [simp]: "itoa m = itoa n \<longleftrightarrow> m = n"
proof
  assume "itoa m = itoa n"
  then show "m = n"
    using show_nat_no_sign [of "nat m" "show_nat (nat (- n))"] show_nat_no_sign [of "nat n" "show_nat (nat (- m))"]
    by (cases "m < 0"; cases "n < 0") (auto simp: itoa_def eq_commute [of "CHR ''-'' # _"] dest!: show_nat_inj)
qed simp

lemma itoa_last: "\<exists>s c. itoa n = s @ [c] \<and> is_digit c"
proof -
  obtain s c where s: "show_nat (nat \<bar>n\<bar>) = s @ [c]" by (cases "show_nat (nat \<bar>n\<bar>)" rule: rev_cases) auto
  then have "is_digit c" using show_nat_digits [of "nat \<bar>n\<bar>"] by simp
  with s show ?thesis by (cases "n < 0") (auto simp: itoa_def)
qed

text \<open>The last occurrence of a separator splits a string in one way.\<close>

lemma last_index_last:
  assumes "d \<notin> set v"
  shows "last_index d (u @ d # v) = int (length u)"
proof -
  have "takeWhile (\<lambda>c. c \<noteq> d) (rev (u @ d # v)) = rev v" using assms by (auto simp: takeWhile_append)
  then show ?thesis by (simp add: last_index_def)
qed

lemma last_sep_inj:
  assumes "d \<notin> set v" and "d \<notin> set w"
  shows "u @ d # v = u' @ d # w \<longleftrightarrow> u = u' \<and> v = w"
  using assms by (auto simp: append_eq_append_conv2 append_eq_Cons_conv Cons_eq_append_conv)

text \<open>So does the first.\<close>

lemma first_sep_inj: "d \<notin> set u \<Longrightarrow> d \<notin> set u' \<Longrightarrow> u @ d # v = u' @ d # w \<longleftrightarrow> u = u' \<and> v = w"
  by (auto simp: append_eq_append_conv2 append_eq_Cons_conv Cons_eq_append_conv)

section \<open>Lemmas on tuples\<close>

lemma run_cases: obtains r s p evs where "x = (r, (s, p), evs)"
  by (metis prod.collapse)

section \<open>Lemmas on maps\<close>

lemma hget_upd [simp]: "hget (m(k \<mapsto> v)) k' = (if k' = k then v else hget m k')"
  by (simp add: hget_def)

lemma hget_empty [simp]: "hget Map.empty k = []"
  by (simp add: hget_def)

end
