(* ===== verification/Errors.thy ===== *)
theory Errors
  imports Prelude
begin

text \<open>
  Error values.  Go errors form a tree: sentinels declared by a package, fresh values of
  \<^verbatim>\<open>errors.New\<close>, values that wrap one or two others with \<^verbatim>\<open>%w\<close>, joins, the tagged errors of
  \<^verbatim>\<open>pkg/reliability/retry\<close>, the \<^verbatim>\<open>AppError\<close> and \<^verbatim>\<open>ConstructorError\<close> of
  \<^verbatim>\<open>pkg/core/errors\<close>, and the \<^verbatim>\<open>OptimisticLockError\<close> of \<^verbatim>\<open>pkg/persistence/relational\<close>.
  \<^verbatim>\<open>errors.Is\<close> and \<^verbatim>\<open>errors.As\<close> walk this tree in pre-order.  The theory models the constructors of
  \<^verbatim>\<open>pkg/core/errors/errors.go\<close>, the canonicalizer registry, and the error families of jobs,
  scheduler and coordination, and shows that an error of a family keeps its kind and its HTTP
  status and that canonicalization is idempotent.
\<close>

section \<open>The error tree\<close>

datatype classification = ClassificationRetryable | ClassificationPoison | ClassificationTerminal

datatype err_kind =
  ErrValidation | ErrConflict | ErrNotFound | ErrRetryable | ErrInvalidArgument
| ErrNotInitialized | ErrClosed

datatype sentinel =
  ErrCircuitBreakerOpen | ErrTimeout | ErrAtomicExecutionRequired | ErrTransactionMissing
| ContextCanceled | ContextDeadlineExceeded | RedisNil | SessionNotFound | CacheMiss | NoSession
| SqlNoRows | ErrColumnNotAllowed
| JobsErr err_kind | SchedulerErr err_kind | CoordinationErr err_kind

datatype err =
  ESentinel sentinel
| ENew string
| ETagged err classification
| EWrap string err string
| EWrap2 string err string err string
| EJoin "err list"
| EApp (app_code: string) (app_message: string) (app_params: "(string \<times> string) list")
    (app_details: "(string \<times> string) list") (app_status: int) (app_cause: "err option")
| EConstructor string err
| ELock (lock_entity: string) (lock_expected: int) (lock_actual: int)

type_synonym 'a result = "err + 'a"

fun kind_text :: "err_kind \<Rightarrow> string" where
  "kind_text ErrValidation = ''validation error''"
| "kind_text ErrConflict = ''conflict''"
| "kind_text ErrNotFound = ''not found''"
| "kind_text ErrRetryable = ''retryable error''"
| "kind_text ErrInvalidArgument = ''invalid argument''"
| "kind_text ErrNotInitialized = ''not initialized''"
| "kind_text ErrClosed = ''closed''"

fun sentinel_text :: "sentinel \<Rightarrow> string" where
  "sentinel_text ErrCircuitBreakerOpen = ''circuit breaker is open''"
| "sentinel_text ErrTimeout = ''operation timed out''"
| "sentinel_text ErrAtomicExecutionRequired =
     ''non-transactional idempotency requires a store with atomic execution support; use ExecuteOnceTransactional or provide an AtomicStore''"
| "sentinel_text ErrTransactionMissing = ''outbox transaction not found in context''"
| "sentinel_text ContextCanceled = ''context canceled''"
| "sentinel_text ContextDeadlineExceeded = ''context deadline exceeded''"
| "sentinel_text RedisNil = ''redis: nil''"
| "sentinel_text SessionNotFound = ''session not found''"
| "sentinel_text CacheMiss = ''cache key not found''"
| "sentinel_text NoSession = ''session middleware not configured or missing in request context''"
| "sentinel_text SqlNoRows = ''sql: no rows in result set''"
| "sentinel_text ErrColumnNotAllowed = ''relational column not allowed''"
| "sentinel_text (JobsErr k) = ''jobs '' @ kind_text k"
| "sentinel_text (SchedulerErr k) = ''scheduler '' @ kind_text k"
| "sentinel_text (CoordinationErr k) = ''coordination '' @ kind_text k"

text \<open>The \<^verbatim>\<open>Error()\<close> method of each kind of value.\<close>

fun error_text :: "err \<Rightarrow> string" where
  "error_text (ESentinel s) = sentinel_text s"
| "error_text (ENew m) = m"
| "error_text (ETagged e _) = error_text e"
| "error_text (EWrap p e q) = p @ error_text e @ q"
| "error_text (EWrap2 p e q f r) = p @ error_text e @ q @ error_text f @ r"
| "error_text (EJoin es) = join_with [CHR 0x0A] (map error_text es)"
| "error_text (EApp c m _ _ _ cause) =
     (let label = (if m \<noteq> [] then m else c)
      in case cause of None \<Rightarrow> label | Some e \<Rightarrow> label @ '': '' @ error_text e)"
| "error_text (EConstructor n e) = n @ '' failed: '' @ error_text e"
| "error_text (ELock i expected actual) =
     ''optimistic lock failed for entity '' @ i @ '': expected version '' @ itoa expected @ '', got '' @ itoa actual"

section \<open>\<^verbatim>\<open>errors.Is\<close>, \<^verbatim>\<open>errors.As\<close>, \<^verbatim>\<open>errors.Join\<close>\<close>

fun first_some :: "'a option list \<Rightarrow> 'a option" where
  "first_some [] = None"
| "first_some (None # xs) = first_some xs"
| "first_some (Some x # xs) = Some x"

fun err_is :: "err \<Rightarrow> sentinel \<Rightarrow> bool" where
  "err_is (ESentinel s) t = (s = t)"
| "err_is (ENew _) t = False"
| "err_is (ETagged e _) t = err_is e t"
| "err_is (EWrap _ e _) t = err_is e t"
| "err_is (EWrap2 _ e _ f _) t = (err_is e t \<or> err_is f t)"
| "err_is (EJoin es) t = list_ex (\<lambda>e. err_is e t) es"
| "err_is (EApp _ _ _ _ _ cause) t = (case cause of None \<Rightarrow> False | Some e \<Rightarrow> err_is e t)"
| "err_is (EConstructor _ e) t = err_is e t"
| "err_is (ELock _ _ _) t = False"

fun as_tagged :: "err \<Rightarrow> classification option" where
  "as_tagged (ESentinel _) = None"
| "as_tagged (ENew _) = None"
| "as_tagged (ETagged _ c) = Some c"
| "as_tagged (EWrap _ e _) = as_tagged e"
| "as_tagged (EWrap2 _ e _ f _) = (case as_tagged e of Some c \<Rightarrow> Some c | None \<Rightarrow> as_tagged f)"
| "as_tagged (EJoin es) = first_some (map as_tagged es)"
| "as_tagged (EApp _ _ _ _ _ cause) = (case cause of None \<Rightarrow> None | Some e \<Rightarrow> as_tagged e)"
| "as_tagged (EConstructor _ e) = as_tagged e"
| "as_tagged (ELock _ _ _) = None"

fun as_app :: "err \<Rightarrow> err option" where
  "as_app (ESentinel _) = None"
| "as_app (ENew _) = None"
| "as_app (ETagged e _) = as_app e"
| "as_app (EWrap _ e _) = as_app e"
| "as_app (EWrap2 _ e _ f _) = (case as_app e of Some c \<Rightarrow> Some c | None \<Rightarrow> as_app f)"
| "as_app (EJoin es) = first_some (map as_app es)"
| "as_app (EApp c m p d s cause) = Some (EApp c m p d s cause)"
| "as_app (EConstructor _ e) = as_app e"
| "as_app (ELock _ _ _) = None"

fun as_constructor :: "err \<Rightarrow> bool" where
  "as_constructor (ESentinel _) = False"
| "as_constructor (ENew _) = False"
| "as_constructor (ETagged e _) = as_constructor e"
| "as_constructor (EWrap _ e _) = as_constructor e"
| "as_constructor (EWrap2 _ e _ f _) = (as_constructor e \<or> as_constructor f)"
| "as_constructor (EJoin es) = list_ex as_constructor es"
| "as_constructor (EApp _ _ _ _ _ cause) =
     (case cause of None \<Rightarrow> False | Some e \<Rightarrow> as_constructor e)"
| "as_constructor (EConstructor _ _) = True"
| "as_constructor (ELock _ _ _) = False"

text \<open>The target \<^verbatim>\<open>*OptimisticLockError\<close> of \<^verbatim>\<open>pkg/persistence/relational\<close>.\<close>

fun as_lock :: "err \<Rightarrow> err option" where
  "as_lock (ESentinel _) = None"
| "as_lock (ENew _) = None"
| "as_lock (ETagged e _) = as_lock e"
| "as_lock (EWrap _ e _) = as_lock e"
| "as_lock (EWrap2 _ e _ f _) = (case as_lock e of Some c \<Rightarrow> Some c | None \<Rightarrow> as_lock f)"
| "as_lock (EJoin es) = first_some (map as_lock es)"
| "as_lock (EApp _ _ _ _ _ cause) = (case cause of None \<Rightarrow> None | Some e \<Rightarrow> as_lock e)"
| "as_lock (EConstructor _ e) = as_lock e"
| "as_lock (ELock i x a) = Some (ELock i x a)"

text \<open>\<^verbatim>\<open>errors.Join\<close> drops nil arguments and is nil when nothing is left.\<close>

definition errors_join :: "err option list \<Rightarrow> err option" where
  "errors_join es = (case List.map_filter id es of [] \<Rightarrow> None | fs \<Rightarrow> Some (EJoin fs))"

section \<open>\<^verbatim>\<open>pkg/core/errors\<close>\<close>

definition New :: "string \<Rightarrow> (string \<times> string) list \<Rightarrow> err option \<Rightarrow> err" where
  "New code params cause = EApp code [] params [] 0 cause"

fun WithMessage :: "string \<Rightarrow> err \<Rightarrow> err" where
  "WithMessage m (EApp c _ p d s e) = EApp c m p d s e"
| "WithMessage m e = e"

fun WithHTTPStatus :: "int \<Rightarrow> err \<Rightarrow> err" where
  "WithHTTPStatus s (EApp c m p d _ e) = EApp c m p d s e"
| "WithHTTPStatus s e = e"

fun WithDetails :: "(string \<times> string) list \<Rightarrow> err \<Rightarrow> err" where
  "WithDetails d (EApp c m p _ s e) = EApp c m p d s e"
| "WithDetails d e = e"

definition NewValidationWithCode ::
  "string \<Rightarrow> string \<Rightarrow> (string \<times> string) list \<Rightarrow> (string \<times> string) list \<Rightarrow> err" where
  "NewValidationWithCode code m params details =
     WithDetails details (WithHTTPStatus 400 (WithMessage m (New code params None)))"

definition NewNotFound :: "string \<Rightarrow> err" where
  "NewNotFound m = WithHTTPStatus 404 (WithMessage m (New ''resource.not_found'' [] None))"

definition NewConflict :: "string \<Rightarrow> (string \<times> string) list \<Rightarrow> err" where
  "NewConflict m details = WithDetails details (WithHTTPStatus 409 (WithMessage m (New ''resource.conflict'' [] None)))"

definition NewRetryable :: "string \<Rightarrow> err option \<Rightarrow> err" where
  "NewRetryable m cause = WithHTTPStatus 503 (WithMessage m (New ''operation.retryable'' [] cause))"

definition NewClosed :: "string \<Rightarrow> err option \<Rightarrow> err" where
  "NewClosed m cause = WithHTTPStatus 409 (WithMessage m (New ''resource.closed'' [] cause))"

definition NewNotInitialized :: "string \<Rightarrow> err option \<Rightarrow> err" where
  "NewNotInitialized m cause =
     WithHTTPStatus 503 (WithMessage m (New ''resource.not_initialized'' [] cause))"

text \<open>
  \<^verbatim>\<open>Canonicalize\<close> for a non-nil error; the registered canonicalizers are the first argument, each
  returning \<open>None\<close> for an error it does not recognise.
\<close>

definition Canonicalize :: "(err \<Rightarrow> err option) list \<Rightarrow> err \<Rightarrow> err" where
  "Canonicalize registered e =
     (if as_app e \<noteq> None then e
      else case first_some (map (\<lambda>c. c e) registered) of Some a \<Rightarrow> a | None \<Rightarrow> e)"

definition AsAppError :: "(err \<Rightarrow> err option) list \<Rightarrow> err option \<Rightarrow> err option" where
  "AsAppError registered e =
     (case e of None \<Rightarrow> None | Some f \<Rightarrow> as_app (Canonicalize registered f))"

definition WrapConstructorError :: "string \<Rightarrow> err option \<Rightarrow> err option" where
  "WrapConstructorError name e =
     (case e of None \<Rightarrow> None
      | Some f \<Rightarrow> (if as_constructor f then Some f else Some (EConstructor name f)))"

section \<open>Error families\<close>

text \<open>
  The families of jobs, scheduler and coordination build their errors and their canonical forms
  alike; \<open>family_error\<close> is the common shape, with the family's name, its sentinel and the message
  already defaulted.
\<close>

definition family_error :: "string \<Rightarrow> (err_kind \<Rightarrow> sentinel) \<Rightarrow> err_kind \<Rightarrow> string \<Rightarrow> err" where
  "family_error fam snt kind m =
     (let cause = Some (ESentinel (snt kind)); details = [(''family'', fam)] in
      case kind of
        ErrValidation \<Rightarrow>
          WithHTTPStatus 400 (WithMessage m (New (''validation.'' @ fam) [] cause))
      | ErrConflict \<Rightarrow> WithHTTPStatus 409 (WithMessage m (New (fam @ ''.conflict'') [] cause))
      | ErrNotFound \<Rightarrow> WithHTTPStatus 404 (WithMessage m (New (fam @ ''.not_found'') [] cause))
      | ErrRetryable \<Rightarrow> WithDetails details (NewRetryable m cause)
      | ErrInvalidArgument \<Rightarrow>
          WithHTTPStatus 400 (WithMessage m (New (''argument.'' @ fam @ ''.invalid'') [] cause))
      | ErrNotInitialized \<Rightarrow> WithDetails details (NewNotInitialized m cause)
      | ErrClosed \<Rightarrow> WithDetails details (NewClosed m cause))"

definition jobsError :: "err_kind \<Rightarrow> string \<Rightarrow> err" where
  "jobsError kind m =
     family_error ''jobs'' JobsErr kind (if m \<noteq> [] then m else sentinel_text (JobsErr kind))"

definition schedulerError :: "err_kind \<Rightarrow> string \<Rightarrow> err" where
  "schedulerError kind m =
     family_error ''scheduler'' SchedulerErr kind
       (if m \<noteq> [] then m else sentinel_text (SchedulerErr kind))"

text \<open>The coordination family declares no \<^verbatim>\<open>ErrNotFound\<close> and no \<^verbatim>\<open>ErrClosed\<close>.\<close>

definition coordinationError :: "err_kind \<Rightarrow> string \<Rightarrow> err" where
  "coordinationError kind m =
     family_error ''coordination'' CoordinationErr kind
       (if \<not> blank m then m else sentinel_text (CoordinationErr kind))"

text \<open>
  The canonicalizers the packages register in \<^verbatim>\<open>init\<close>: the first kind that \<^verbatim>\<open>errors.Is\<close> finds, in
  the order of the source's switch.  A validation error is rebuilt without a cause.
\<close>

definition family_canonical ::
  "string \<Rightarrow> (err_kind \<Rightarrow> sentinel) \<Rightarrow> err_kind list \<Rightarrow> err \<Rightarrow> err option" where
  "family_canonical fam snt kinds e =
     (case List.find (\<lambda>k. err_is e (snt k)) kinds of
        None \<Rightarrow> None
      | Some k \<Rightarrow>
          (let m = error_text e; details = [(''family'', fam)] in
           Some (case k of
               ErrValidation \<Rightarrow> NewValidationWithCode (''validation.'' @ fam) m [] []
             | ErrConflict \<Rightarrow>
                 WithHTTPStatus 409 (WithMessage m (New (fam @ ''.conflict'') [] (Some e)))
             | ErrNotFound \<Rightarrow>
                 WithHTTPStatus 404 (WithMessage m (New (fam @ ''.not_found'') [] (Some e)))
             | ErrRetryable \<Rightarrow> WithDetails details (NewRetryable m (Some e))
             | ErrInvalidArgument \<Rightarrow>
                 WithHTTPStatus 400
                   (WithMessage m (New (''argument.'' @ fam @ ''.invalid'') [] (Some e)))
             | ErrNotInitialized \<Rightarrow> WithDetails details (NewNotInitialized m (Some e))
             | ErrClosed \<Rightarrow> WithDetails details (NewClosed m (Some e)))))"

definition jobs_canonicalizer :: "err \<Rightarrow> err option" where
  "jobs_canonicalizer = family_canonical ''jobs'' JobsErr
     [ErrValidation, ErrConflict, ErrNotFound, ErrRetryable, ErrInvalidArgument,
      ErrNotInitialized, ErrClosed]"

definition scheduler_canonicalizer :: "err \<Rightarrow> err option" where
  "scheduler_canonicalizer = family_canonical ''scheduler'' SchedulerErr
     [ErrValidation, ErrConflict, ErrNotFound, ErrRetryable, ErrInvalidArgument,
      ErrNotInitialized, ErrClosed]"

definition coordination_canonicalizer :: "err \<Rightarrow> err option" where
  "coordination_canonicalizer = family_canonical ''coordination'' CoordinationErr
     [ErrValidation, ErrConflict, ErrRetryable, ErrInvalidArgument, ErrNotInitialized]"

section \<open>Lemmas\<close>

lemmas core_error_defs =
  New_def NewValidationWithCode_def NewRetryable_def NewClosed_def NewNotInitialized_def
  NewNotFound_def NewConflict_def

lemma errors_join_None_iff: "errors_join es = None \<longleftrightarrow> (\<forall>e \<in> set es. e = None)"
  by (induction es) (auto simp: errors_join_def List.map_filter_def split: list.splits option.splits)

lemma errors_join_single [simp]: "errors_join [None] = None" "errors_join [] = None"
  by (simp_all add: errors_join_def List.map_filter_def)

lemma first_some_Some: "first_some xs = Some y \<Longrightarrow> Some y \<in> set xs"
  by (induction xs rule: first_some.induct) auto

lemma as_app_is_app: "as_app e = Some a \<Longrightarrow> as_app a = Some a"
proof (induction e rule: as_app.induct)
  case (5 p e q f r)
  then show ?case by (cases "as_app e") simp_all
next
  case (6 es)
  from "6.prems" have "Some a \<in> set (map as_app es)"
    by (auto dest: first_some_Some)
  then show ?case using "6.IH" by auto
qed (simp, simp, simp, simp, clarsimp, simp, simp)

lemma family_error_is: "err_is (family_error fam snt kind m) s \<longleftrightarrow> s = snt kind"
  by (cases kind) (auto simp: family_error_def core_error_defs)

lemma family_error_as_app: "as_app (family_error fam snt kind m) = Some (family_error fam snt kind m)"
  by (cases kind) (auto simp: family_error_def core_error_defs)

lemma family_error_untagged: "as_tagged (family_error fam snt kind m) = None"
  by (cases kind) (auto simp: family_error_def core_error_defs)

lemma family_canonical_app: "family_canonical fam snt kinds e = Some a \<Longrightarrow> as_app a = Some a"
  by (auto simp: family_canonical_def core_error_defs Let_def
      split: option.splits err_kind.splits)

lemma family_canonical_keeps:
  assumes "family_canonical fam snt kinds e = Some a" and "\<not> err_is e (snt ErrValidation)"
  shows "err_is a s \<longleftrightarrow> err_is e s"
proof -
  from assms(1) obtain k where k: "List.find (\<lambda>k. err_is e (snt k)) kinds = Some k"
    by (auto simp: family_canonical_def split: option.splits)
  then have "err_is e (snt k)" by (auto simp: find_Some_iff)
  with assms(2) have "k \<noteq> ErrValidation" by auto
  with k assms(1) show ?thesis
    by (cases k) (auto simp: family_canonical_def core_error_defs Let_def)
qed

lemma jobsError_is [simp]: "err_is (jobsError k m) s \<longleftrightarrow> s = JobsErr k"
  by (simp add: jobsError_def family_error_is)

lemma schedulerError_is [simp]: "err_is (schedulerError k m) s \<longleftrightarrow> s = SchedulerErr k"
  by (simp add: schedulerError_def family_error_is)

lemma coordinationError_is [simp]: "err_is (coordinationError k m) s \<longleftrightarrow> s = CoordinationErr k"
  by (simp add: coordinationError_def family_error_is)

lemma family_untagged [simp]:
  "as_tagged (jobsError k m) = None" "as_tagged (schedulerError k m) = None"
  "as_tagged (coordinationError k m) = None"
  by (simp_all add: jobsError_def schedulerError_def coordinationError_def family_error_untagged)

lemma jobsError_inj_kind: "jobsError k m = jobsError k' m' \<Longrightarrow> k = k'"
  by (metis jobsError_is sentinel.inject(1))

lemma WrapConstructorError_idem:
  "WrapConstructorError n (WrapConstructorError m e) = WrapConstructorError m e"
  by (auto simp: WrapConstructorError_def split: option.splits)

lemma err_is_WrapConstructorError:
  "WrapConstructorError n (Some e) = Some f \<Longrightarrow> err_is f s = err_is e s"
  by (auto simp: WrapConstructorError_def split: if_splits)

end
