(* ===== verification/Retry.thy ===== *)
theory Retry
  imports Errors
begin

text \<open>
  \<^verbatim>\<open>pkg/reliability/retry/retry.go\<close>: the classification of failures, the retry budget, the decision
  that follows a failure and the capped exponential backoff.  The lemmas give the backoff in
  closed form, its bounds, its freedom from overflow and its monotonicity, and say exactly when a
  failure is retried.
\<close>

section \<open>Classification\<close>

definition Retryable :: "err option \<Rightarrow> err option" where
  "Retryable e = (case e of None \<Rightarrow> None | Some f \<Rightarrow> Some (ETagged f ClassificationRetryable))"

definition Poison :: "err option \<Rightarrow> err option" where
  "Poison e = (case e of None \<Rightarrow> None | Some f \<Rightarrow> Some (ETagged f ClassificationPoison))"

definition Terminal :: "err option \<Rightarrow> err option" where
  "Terminal e = (case e of None \<Rightarrow> None | Some f \<Rightarrow> Some (ETagged f ClassificationTerminal))"

definition Classify :: "err option \<Rightarrow> classification" where
  "Classify e =
     (case e of
        None \<Rightarrow> ClassificationRetryable
      | Some f \<Rightarrow> (case as_tagged f of Some c \<Rightarrow> c | None \<Rightarrow> ClassificationRetryable))"

section \<open>Budget and backoff\<close>

record budget =
  MaxAttempts :: int
  InitialBackoff :: duration
  MaxBackoff :: duration
  AttemptTimeout :: duration

definition Normalize :: "int \<Rightarrow> duration \<Rightarrow> duration \<Rightarrow> duration \<Rightarrow> budget \<Rightarrow> budget" where
  "Normalize maxAttempts initial maxBackoff timeout b =
     \<lparr>MaxAttempts = pos_or (MaxAttempts b) maxAttempts,
      InitialBackoff = pos_or (InitialBackoff b) initial,
      MaxBackoff = pos_or (MaxBackoff b) maxBackoff,
      AttemptTimeout = pos_or (AttemptTimeout b) timeout\<rparr>"

text \<open>\<open>backoff_loop n b m\<close> is the loop with \<open>n\<close> iterations left, followed by the final cap.\<close>

fun backoff_loop :: "nat \<Rightarrow> duration \<Rightarrow> duration \<Rightarrow> duration" where
  "backoff_loop 0 b m = (if b > m then m else b)"
| "backoff_loop (Suc n) b m = (if b \<ge> go_div m 2 then m else backoff_loop n (i64 (b * 2)) m)"

definition ExponentialBackoff :: "int \<Rightarrow> duration \<Rightarrow> duration \<Rightarrow> duration" where
  "ExponentialBackoff attempt initial maxBackoff =
     (if attempt \<le> 0 then initial else backoff_loop (nat (attempt - 1)) initial maxBackoff)"

section \<open>Decisions\<close>

record retry_policy =
  DeadLetterEnabled :: bool
  QuarantineEnabled :: bool

datatype disposition =
  DispositionImmediateRetry | DispositionDelayedRetry | DispositionDeadLetter
| DispositionQuarantine | DispositionDrop

record decision =
  Classification :: classification
  Disposition :: disposition
  Attempt :: int
  DecMaxAttempts :: int
  Delay :: duration

definition Decide :: "classification \<Rightarrow> int \<Rightarrow> int \<Rightarrow> budget \<Rightarrow> retry_policy \<Rightarrow> decision" where
  "Decide class attempt maxAttempts0 bud pol =
     (let maxAttempts = (if maxAttempts0 \<le> 0 then 1 else maxAttempts0);
          dec = (\<lambda>d delay. \<lparr>Classification = class, Disposition = d, Attempt = attempt,
                           DecMaxAttempts = maxAttempts, Delay = delay\<rparr>)
      in case class of
           ClassificationPoison \<Rightarrow>
             (if QuarantineEnabled pol then dec DispositionQuarantine 0
              else if DeadLetterEnabled pol then dec DispositionDeadLetter 0
              else dec DispositionDrop 0)
         | ClassificationTerminal \<Rightarrow>
             (if DeadLetterEnabled pol then dec DispositionDeadLetter 0
              else dec DispositionDrop 0)
         | ClassificationRetryable \<Rightarrow>
             (if attempt < maxAttempts
              then dec DispositionDelayedRetry
                     (ExponentialBackoff attempt (InitialBackoff bud) (MaxBackoff bud))
              else if QuarantineEnabled pol then dec DispositionQuarantine 0
              else if DeadLetterEnabled pol then dec DispositionDeadLetter 0
              else dec DispositionDrop 0))"

section \<open>Quarantine records\<close>

record quarantine_record =
  qr_Scope :: string
  qr_Key :: string
  qr_Classification :: classification
  qr_Reason :: string
  qr_Attempt :: int
  qr_MaxAttempts :: int
  qr_OccurredAt :: gotime
  qr_Metadata :: "(string \<times> string) list"

definition quarantine_Validate :: "quarantine_record option \<Rightarrow> err option" where
  "quarantine_Validate r =
     (case r of
        None \<Rightarrow> Some (ENew ''quarantine record is nil'')
      | Some q \<Rightarrow>
          (if qr_Scope q = [] then Some (ENew ''quarantine scope is required'')
           else if qr_Key q = [] then Some (ENew ''quarantine key is required'')
           else if qr_Reason q = [] then Some (ENew ''quarantine reason is required'')
           else if qr_OccurredAt q = 0 then Some (ENew ''quarantine occurred_at is required'')
           else None))"

section \<open>Lemmas on the backoff\<close>

text \<open>The doubling never leaves the 64-bit range: the guard bounds it by the cap.\<close>

lemma backoff_double_fits:
  "fits64 m \<Longrightarrow> 0 \<le> b \<Longrightarrow> \<not> b \<ge> go_div m 2 \<Longrightarrow> i64 (b * 2) = b * 2 \<and> b * 2 < m"
proof -
  assume m: "fits64 m" and b: "0 \<le> b" and lt: "\<not> b \<ge> go_div m 2"
  have "0 \<le> m"
  proof (rule ccontr)
    assume "\<not> 0 \<le> m"
    then have "go_div m 2 \<le> 0" by (simp add: go_div_def)
    with b lt show False by simp
  qed
  then have "b < m div 2" using lt by (simp add: go_div_nonneg)
  then have "b * 2 < m" by linarith
  moreover from this m b have "fits64 (b * 2)" by (simp add: fits64_def)
  ultimately show ?thesis by simp
qed

lemma backoff_loop_le: "fits64 m \<Longrightarrow> 0 \<le> b \<Longrightarrow> backoff_loop n b m \<le> m"
  by (induction n arbitrary: b) (auto simp: backoff_double_fits)

lemma backoff_loop_ge: "fits64 m \<Longrightarrow> 0 \<le> b \<Longrightarrow> min b m \<le> backoff_loop n b m"
proof (induction n arbitrary: b)
  case (Suc n)
  show ?case
  proof (cases "b \<ge> go_div m 2")
    case False
    with Suc.prems have d: "i64 (b * 2) = b * 2" "b * 2 < m" using backoff_double_fits by auto
    with Suc.prems have "min (b * 2) m \<le> backoff_loop n (b * 2) m" by (intro Suc.IH) auto
    with False d Suc.prems show ?thesis by simp
  qed simp
qed simp

text \<open>
  The loop in closed form: the cap is reached as soon as half of it is, and otherwise the value
  has been doubled once per iteration.
\<close>

lemma backoff_loop_closed:
  assumes "fits64 m" "0 \<le> m" "0 \<le> b"
  shows "backoff_loop n b m =
    (if 0 < n \<and> m div 2 \<le> b * 2 ^ (n - 1) then m else min m (b * 2 ^ n))"
  using assms(3)
proof (induction n arbitrary: b)
  case (Suc n)
  show ?case
  proof (cases "b \<ge> go_div m 2")
    case True
    have "b * 1 \<le> b * 2 ^ n" by (rule mult_left_mono) (use Suc.prems in auto)
    with True assms(2) show ?thesis by (simp add: go_div_nonneg)
  next
    case False
    then have d: "i64 (b * 2) = b * 2" using assms Suc.prems backoff_double_fits by blast
    have "backoff_loop (Suc n) b m = backoff_loop n (b * 2) m" using False d by simp
    also have "\<dots> = (if 0 < n \<and> m div 2 \<le> (b * 2) * 2 ^ (n - 1) then m
        else min m ((b * 2) * 2 ^ n))"
      using Suc.prems by (intro Suc.IH) simp
    also have "\<dots> = (if 0 < Suc n \<and> m div 2 \<le> b * 2 ^ (Suc n - 1) then m
        else min m (b * 2 ^ Suc n))"
      using False assms(2) by (cases n) (simp_all add: go_div_nonneg mult.assoc)
    finally show ?thesis .
  qed
qed (auto simp: min_def)

lemma ExponentialBackoff_le:
  "0 < a \<Longrightarrow> fits64 m \<Longrightarrow> 0 \<le> b \<Longrightarrow> ExponentialBackoff a b m \<le> m"
  by (simp add: ExponentialBackoff_def backoff_loop_le)

lemma ExponentialBackoff_pos:
  "0 < a \<Longrightarrow> fits64 m \<Longrightarrow> 0 < b \<Longrightarrow> 0 < m \<Longrightarrow> 0 < ExponentialBackoff a b m"
  using backoff_loop_ge [of m b "nat (a - 1)"] by (auto simp: ExponentialBackoff_def)

lemma backoff_loop_mono:
  assumes "fits64 m" "0 \<le> m" "0 \<le> b"
  shows "backoff_loop n b m \<le> backoff_loop (Suc n) b m"
proof (cases "m div 2 \<le> b * 2 ^ n")
  case True
  then have "backoff_loop (Suc n) b m = m"
    using backoff_loop_closed [OF assms, of "Suc n"] by simp
  then show ?thesis using backoff_loop_le [OF assms(1,3), of n] by simp
next
  case False
  have le: "b * 2 ^ (n - 1) \<le> b * 2 ^ n" by (rule mult_left_mono) (use assms in auto)
  have dbl: "b * 2 ^ n \<le> b * 2 ^ Suc n" by (rule mult_left_mono) (use assms in auto)
  show ?thesis
    using False le dbl backoff_loop_closed [OF assms, of n] backoff_loop_closed [OF assms, of "Suc n"]
    by (auto simp del: backoff_loop.simps)
qed

section \<open>Lemmas on decisions\<close>

lemma Decide_cases:
  "Disposition (Decide c a mx bud pol) \<in>
     {DispositionDelayedRetry, DispositionDeadLetter, DispositionQuarantine, DispositionDrop}"
  by (cases c) (auto simp: Decide_def Let_def)

lemma Decide_delayed:
  "Disposition (Decide c a mx bud pol) = DispositionDelayedRetry \<longleftrightarrow>
     c = ClassificationRetryable \<and> a < max 1 mx"
  by (cases c) (auto simp: Decide_def Let_def max_def)

lemma Decide_fields [simp]:
  "Classification (Decide c a mx bud pol) = c" "Attempt (Decide c a mx bud pol) = a"
  "DecMaxAttempts (Decide c a mx bud pol) = max 1 mx"
  by (cases c; simp add: Decide_def Let_def max_def)+

lemma Decide_quarantine:
  "Disposition (Decide c a mx bud pol) = DispositionQuarantine \<longleftrightarrow>
     QuarantineEnabled pol \<and>
     (c = ClassificationPoison \<or> c = ClassificationRetryable \<and> \<not> a < max 1 mx)"
  by (cases c) (auto simp: Decide_def Let_def max_def)

lemma Decide_no_drop:
  "DeadLetterEnabled pol \<Longrightarrow> Disposition (Decide c a mx bud pol) \<noteq> DispositionDrop"
  by (cases c) (auto simp: Decide_def Let_def)

lemma Decide_delay:
  "Disposition (Decide c a mx bud pol) = DispositionDelayedRetry \<Longrightarrow>
     Delay (Decide c a mx bud pol) = ExponentialBackoff a (InitialBackoff bud) (MaxBackoff bud)"
  by (cases c) (auto simp: Decide_def Let_def split: if_splits)

lemma Classify_tags [simp]:
  "Classify (Retryable (Some e)) = ClassificationRetryable"
  "Classify (Poison (Some e)) = ClassificationPoison"
  "Classify (Terminal (Some e)) = ClassificationTerminal"
  by (simp_all add: Classify_def Retryable_def Poison_def Terminal_def)

text \<open>A tag decides even when a caller wraps the tagged error again.\<close>

lemma Classify_wrapped: "Classify (Some (EWrap p (ETagged e c) q)) = c"
  by (simp add: Classify_def)

lemma Normalize_idem:
  "Normalize a b c d (Normalize a b c d x) = Normalize a b c d x"
  by (simp add: Normalize_def)

section \<open>Properties\<close>

text \<open>
  \<^verbatim>\<open>ExponentialBackoff\<close> in closed form: for a positive attempt and non-negative durations it
  is the initial backoff doubled once per earlier attempt and capped, jumping to the cap as soon
  as the previous value has reached half of it; no intermediate product overflows 64 bits.
\<close>

lemma ExponentialBackoff_closed_form:
  assumes "0 < attempt" and "0 \<le> initial" and "0 \<le> m" and "fits64 m"
  shows "ExponentialBackoff attempt initial m =
    (if 1 < attempt \<and> m div 2 \<le> initial * 2 ^ nat (attempt - 2) then m
     else min m (initial * 2 ^ nat (attempt - 1)))"
proof -
  have "nat (attempt - 1) - 1 = nat (attempt - 2)" by simp
  with assms show ?thesis
    by (simp add: ExponentialBackoff_def backoff_loop_closed)
qed

text \<open>
  The backoff of two consecutive attempts never decreases and stays between the smaller of the
  initial value and the cap, and the cap.
\<close>

lemma ExponentialBackoff_monotone_bounded:
  assumes "0 < attempt" and "0 \<le> initial" and "0 \<le> m" and "fits64 m"
  shows "ExponentialBackoff attempt initial m \<le> ExponentialBackoff (attempt + 1) initial m
    \<and> min initial m \<le> ExponentialBackoff attempt initial m
    \<and> ExponentialBackoff attempt initial m \<le> m"
proof -
  have "nat (attempt + 1 - 1) = Suc (nat (attempt - 1))" using assms(1) by simp
  then have "ExponentialBackoff attempt initial m \<le> ExponentialBackoff (attempt + 1) initial m"
    using assms backoff_loop_mono [of m initial "nat (attempt - 1)"]
    by (simp add: ExponentialBackoff_def del: backoff_loop.simps)
  then show ?thesis
    using assms by (simp add: ExponentialBackoff_def backoff_loop_le backoff_loop_ge)
qed

text \<open>
  A failure is retried, after the backoff of its attempt, exactly when it is classified
  retryable and its attempt is below the maximum (at least one); with a dead-letter sink enabled
  every other failure goes to quarantine or to the dead-letter queue and none is dropped.
\<close>

lemma Decide_exact:
  "(Disposition (Decide c a mx bud pol) = DispositionDelayedRetry \<longleftrightarrow>
      c = ClassificationRetryable \<and> a < max 1 mx)
   \<and> (Disposition (Decide c a mx bud pol) = DispositionDelayedRetry \<longrightarrow>
      Delay (Decide c a mx bud pol) = ExponentialBackoff a (InitialBackoff bud) (MaxBackoff bud))
   \<and> (DeadLetterEnabled pol \<longrightarrow>
      Disposition (Decide c a mx bud pol) \<in>
        {DispositionDelayedRetry, DispositionDeadLetter, DispositionQuarantine})"
  by (cases c) (auto simp: Decide_def Let_def max_def)

end
