(* ===== verification/Breaker.thy ===== *)
theory Breaker
  imports Retry
begin

text \<open>
  \<^verbatim>\<open>pkg/resilience\<close>: the circuit breaker and the timeout wrapper.  The breaker's methods hold its
  mutex only while they read and write the fields, so the calls of several goroutines interleave
  between \<^verbatim>\<open>canExecute\<close> and the recording of the outcome; \<open>breaker_step\<close> is the relation of these
  atomic sections, and the invariant is proved for every reachable state of it.
\<close>

section \<open>Circuit breaker\<close>

datatype state = StateClosed | StateOpen | StateHalfOpen

fun State_String :: "state \<Rightarrow> string" where
  "State_String StateClosed = ''closed''"
| "State_String StateOpen = ''open''"
| "State_String StateHalfOpen = ''half-open''"

record breaker =
  maxFailures :: int
  cb_timeout :: duration
  cb_state :: state
  failures :: int
  successes :: int
  lastFailTime :: gotime

definition NewCircuitBreaker :: "int \<Rightarrow> duration \<Rightarrow> breaker" where
  "NewCircuitBreaker mx tmo =
     \<lparr>maxFailures = mx, cb_timeout = tmo, cb_state = StateClosed, failures = 0, successes = 0,
      lastFailTime = 0\<rparr>"

definition canExecute :: "gotime \<Rightarrow> breaker \<Rightarrow> bool \<times> breaker" where
  "canExecute now cb =
     (case cb_state cb of
        StateClosed \<Rightarrow> (True, cb)
      | StateOpen \<Rightarrow>
          (if time_sub now (lastFailTime cb) > cb_timeout cb
           then (True, cb\<lparr>cb_state := StateHalfOpen, successes := 0\<rparr>)
           else (False, cb))
      | StateHalfOpen \<Rightarrow> (True, cb))"

definition recordFailure :: "gotime \<Rightarrow> breaker \<Rightarrow> breaker" where
  "recordFailure now cb0 =
     (let cb = cb0\<lparr>lastFailTime := now\<rparr> in
      if cb_state cb = StateHalfOpen
      then cb\<lparr>cb_state := StateOpen, failures := 0, successes := 0\<rparr>
      else let cb' = cb\<lparr>failures := i64 (failures cb + 1)\<rparr>
           in if failures cb' \<ge> maxFailures cb' then cb'\<lparr>cb_state := StateOpen\<rparr> else cb')"

definition recordSuccess :: "breaker \<Rightarrow> breaker" where
  "recordSuccess cb =
     (case cb_state cb of
        StateHalfOpen \<Rightarrow>
          (let cb' = cb\<lparr>successes := i64 (successes cb + 1)\<rparr>
           in cb'\<lparr>cb_state := StateClosed, failures := 0, successes := 0\<rparr>)
      | StateClosed \<Rightarrow> cb\<lparr>failures := 0\<rparr>
      | StateOpen \<Rightarrow> cb)"

definition GetState :: "breaker \<Rightarrow> state" where
  "GetState cb = cb_state cb"

definition GetFailures :: "breaker \<Rightarrow> int" where
  "GetFailures cb = failures cb"

definition Reset :: "breaker \<Rightarrow> breaker" where
  "Reset cb = cb\<lparr>cb_state := StateClosed, failures := 0, successes := 0\<rparr>"

text \<open>
  One call of \<^verbatim>\<open>Execute\<close> with no call interleaved: \<open>fn\<close> runs on the caller's state, \<open>t1\<close> is the
  clock reading of \<^verbatim>\<open>canExecute\<close> and \<open>t2\<close> that of \<^verbatim>\<open>recordFailure\<close>.
\<close>

definition Execute ::
  "gotime \<Rightarrow> gotime \<Rightarrow> ('s \<Rightarrow> err option \<times> 's) \<Rightarrow> breaker \<times> 's \<Rightarrow> err option \<times> breaker \<times> 's" where
  "Execute t1 t2 fn st =
     (let (cb, s) = st; (ok, cb1) = canExecute t1 cb in
      if \<not> ok then (Some (ESentinel ErrCircuitBreakerOpen), cb1, s)
      else let (e, s') = fn s in
           case e of
             Some f \<Rightarrow> (Some f, recordFailure t2 cb1, s')
           | None \<Rightarrow> (None, recordSuccess cb1, s'))"

section \<open>Timeouts\<close>

text \<open>
  \<^verbatim>\<open>WithTimeout\<close> starts \<open>fn\<close> in a goroutine and selects on its result and on the deadline; when both
  are ready the choice is Go's, so the branch taken is an argument.  \<open>ctxErr\<close> is \<^verbatim>\<open>timeoutCtx.Err()\<close>
  once that context is done.
\<close>

datatype select_branch = FnDone | CtxDone

definition WithTimeout :: "select_branch \<Rightarrow> err \<Rightarrow> err option \<Rightarrow> err option" where
  "WithTimeout branch ctxErr fnResult =
     (case branch of
        FnDone \<Rightarrow> fnResult
      | CtxDone \<Rightarrow>
          (if err_is ctxErr ContextDeadlineExceeded then Some (ESentinel ErrTimeout)
           else Some ctxErr))"

section \<open>Interleaved calls\<close>

text \<open>
  The state of the system: the breaker, the number of calls admitted whose outcome is not recorded
  yet, and the clock.
\<close>

type_synonym breaker_sys = "breaker \<times> nat \<times> gotime"

inductive breaker_step :: "breaker_sys \<Rightarrow> breaker_sys \<Rightarrow> bool" where
  admit: "canExecute now cb = (True, cb') \<Longrightarrow> t \<le> now \<Longrightarrow>
     breaker_step (cb, n, t) (cb', Suc n, now)"
| reject: "canExecute now cb = (False, cb') \<Longrightarrow> t \<le> now \<Longrightarrow>
     breaker_step (cb, n, t) (cb', n, now)"
| fail: "t \<le> now \<Longrightarrow> breaker_step (cb, Suc n, t) (recordFailure now cb, n, now)"
| succeed: "t \<le> now \<Longrightarrow> breaker_step (cb, Suc n, t) (recordSuccess cb, n, now)"
| reset: "t \<le> now \<Longrightarrow> breaker_step (cb, n, t) (Reset cb, n, now)"

inductive breaker_reachable :: "int \<Rightarrow> duration \<Rightarrow> breaker_sys \<Rightarrow> bool" for mx tmo where
  start: "breaker_reachable mx tmo (NewCircuitBreaker mx tmo, 0, t0)"
| step: "breaker_reachable mx tmo s \<Longrightarrow> breaker_step s s' \<Longrightarrow> breaker_reachable mx tmo s'"

inductive_cases breaker_stepE: "breaker_step (cb, n, t) s'"

text \<open>
  The invariant: the configuration never changes, the success counter is always back at 0, and a
  closed breaker has seen fewer failures in a row than its threshold.
\<close>

definition breaker_inv :: "int \<Rightarrow> duration \<Rightarrow> breaker \<Rightarrow> bool" where
  "breaker_inv mx tmo cb \<longleftrightarrow>
     maxFailures cb = mx \<and> cb_timeout cb = tmo \<and> successes cb = 0 \<and>
     (cb_state cb = StateClosed \<longrightarrow> 0 \<le> failures cb \<and> failures cb < mx)"

text \<open>A run of calls that all fail, one after the other, each with its pair of clock readings.\<close>

fun failing_run :: "err \<Rightarrow> (gotime \<times> gotime) list \<Rightarrow> breaker \<Rightarrow> err option list \<times> breaker" where
  "failing_run e [] cb = ([], cb)"
| "failing_run e ((t1, t2) # ts) cb =
     (let (r, cb', n) = Execute t1 t2 (\<lambda>n. (Some e, Suc n)) (cb, 0::nat);
          (rs, cb'') = failing_run e ts cb'
      in (r # rs, cb''))"

section \<open>Lemmas\<close>

lemmas breaker_defs =
  NewCircuitBreaker_def canExecute_def recordFailure_def recordSuccess_def Reset_def

lemma canExecute_False:
  "canExecute now cb = (False, cb') \<longleftrightarrow>
     cb' = cb \<and> cb_state cb = StateOpen \<and> time_sub now (lastFailTime cb) \<le> cb_timeout cb"
  by (auto simp: canExecute_def split: state.splits if_splits)

lemma breaker_inv_new: "0 < mx \<Longrightarrow> breaker_inv mx tmo (NewCircuitBreaker mx tmo)"
  by (simp add: breaker_inv_def NewCircuitBreaker_def)

lemma breaker_inv_canExecute:
  "breaker_inv mx tmo cb \<Longrightarrow> canExecute now cb = (b, cb') \<Longrightarrow> breaker_inv mx tmo cb'"
  by (auto simp: breaker_inv_def canExecute_def split: state.splits if_splits)

lemma breaker_inv_success:
  "0 < mx \<Longrightarrow> breaker_inv mx tmo cb \<Longrightarrow> breaker_inv mx tmo (recordSuccess cb)"
  by (cases "cb_state cb") (auto simp: breaker_inv_def recordSuccess_def Let_def)

lemma breaker_inv_reset: "0 < mx \<Longrightarrow> breaker_inv mx tmo cb \<Longrightarrow> breaker_inv mx tmo (Reset cb)"
  by (simp add: breaker_inv_def Reset_def)

lemma breaker_inv_failure:
  assumes "fits64 mx" and "breaker_inv mx tmo cb"
  shows "breaker_inv mx tmo (recordFailure now cb)"
proof (cases "cb_state cb")
  case StateClosed
  with assms(2) have "0 \<le> failures cb" "failures cb < mx" by (auto simp: breaker_inv_def)
  with assms(1) have "fits64 (failures cb + 1)" by (simp add: fits64_def)
  then have "i64 (failures cb + 1) = failures cb + 1" by simp
  with StateClosed assms(2) show ?thesis
    by (simp add: breaker_inv_def recordFailure_def Let_def)
qed (use assms(2) in \<open>simp_all add: breaker_inv_def recordFailure_def Let_def\<close>)

lemmas breaker_inv_ops =
  breaker_inv_canExecute breaker_inv_success breaker_inv_reset breaker_inv_failure

lemma breaker_step_inv:
  assumes "breaker_step s s'" "0 < mx" "fits64 mx" "breaker_inv mx tmo (fst s)"
  shows "breaker_inv mx tmo (fst s')"
  using assms by (cases rule: breaker_step.cases) (auto intro: breaker_inv_ops)

lemma breaker_reachable_inv:
  assumes "breaker_reachable mx tmo s" "0 < mx" "fits64 mx"
  shows "breaker_inv mx tmo (fst s)"
  using assms(1)
proof (induction rule: breaker_reachable.induct)
  case (step s s')
  then show ?case using breaker_step_inv assms(2,3) by blast
qed (simp add: breaker_inv_new assms)

lemma Execute_closed_failure:
  assumes "cb_state cb = StateClosed" "fn s = (Some e, s')"
  shows "Execute t1 t2 fn (cb, s) = (Some e, recordFailure t2 cb, s')"
  using assms by (simp add: Execute_def canExecute_def)

lemma Execute_open:
  assumes "cb_state cb = StateOpen" "time_sub t1 (lastFailTime cb) \<le> cb_timeout cb"
  shows "Execute t1 t2 fn (cb, s) = (Some (ESentinel ErrCircuitBreakerOpen), cb, s)"
  using assms by (simp add: Execute_def canExecute_def)

lemma recordFailure_closed:
  assumes "cb_state cb = StateClosed" "0 \<le> failures cb" "failures cb < maxFailures cb"
    "fits64 (maxFailures cb)"
  shows "recordFailure t cb =
    cb\<lparr>lastFailTime := t, failures := failures cb + 1,
       cb_state := (if failures cb + 1 < maxFailures cb then StateClosed else StateOpen)\<rparr>"
proof -
  have "i64 (failures cb + 1) = failures cb + 1" using assms by (simp add: fits64_def)
  with assms(1) show ?thesis by (simp add: recordFailure_def Let_def)
qed

lemma failing_run_closed:
  assumes "cb_state cb = StateClosed" "0 \<le> failures cb" "fits64 (maxFailures cb)"
    "failures cb + int (length ts) \<le> maxFailures cb" "ts \<noteq> []"
  shows "failing_run e ts cb =
    (replicate (length ts) (Some e),
     cb\<lparr>lastFailTime := snd (last ts), failures := failures cb + int (length ts),
        cb_state := (if failures cb + int (length ts) < maxFailures cb then StateClosed
                     else StateOpen)\<rparr>)"
  using assms
proof (induction ts arbitrary: cb)
  case (Cons p ts)
  obtain t1 t2 where p: "p = (t1, t2)" by (cases p)
  let ?cb = "recordFailure t2 cb"
  have rf: "?cb = cb\<lparr>lastFailTime := t2, failures := failures cb + 1,
      cb_state := (if failures cb + 1 < maxFailures cb then StateClosed else StateOpen)\<rparr>"
    using Cons.prems by (intro recordFailure_closed) auto
  have ex: "Execute t1 t2 (\<lambda>n. (Some e, Suc n)) (cb, 0) = (Some e, ?cb, 1)"
    using Cons.prems(1) by (simp add: Execute_closed_failure)
  show ?case
  proof (cases "ts = []")
    case True
    then show ?thesis using p ex rf by simp
  next
    case False
    then have "failures cb + 1 < maxFailures cb" using Cons.prems(4) by (cases ts) auto
    then have "failing_run e ts ?cb =
      (replicate (length ts) (Some e),
       ?cb\<lparr>lastFailTime := snd (last ts), failures := failures ?cb + int (length ts),
          cb_state := (if failures ?cb + int (length ts) < maxFailures ?cb then StateClosed
                       else StateOpen)\<rparr>)"
      using Cons.prems rf False by (intro Cons.IH) simp_all
    then show ?thesis using p ex rf False by (simp add: algebra_simps)
  qed
qed simp

section \<open>Properties\<close>

text \<open>
  C22. In every state that interleaved calls of \<^verbatim>\<open>Execute\<close> and \<^verbatim>\<open>Reset\<close> can reach, the breaker keeps
  its configuration, the success counter is 0, a closed breaker has recorded fewer failures since
  the last success than its threshold, and a call is rejected only while the breaker is open and
  its timeout has not passed.
\<close>

theorem breaker_safe:
  assumes "breaker_reachable mx tmo (cb, n, t)" and "0 < mx" and "fits64 mx"
  shows "breaker_inv mx tmo cb
    \<and> (fst (canExecute now cb) = False \<longleftrightarrow>
        cb_state cb = StateOpen \<and> time_sub now (lastFailTime cb) \<le> tmo)"
proof -
  have inv: "breaker_inv mx tmo cb" using breaker_reachable_inv [OF assms] by simp
  then show ?thesis
    by (cases "canExecute now cb"; cases "fst (canExecute now cb)")
      (auto simp: breaker_inv_def canExecute_def split: state.splits if_splits)
qed

theorem breaker_safe_witness:
  "breaker_reachable 1 30 (recordFailure 100 (NewCircuitBreaker 1 30), 0, 100)
   \<and> fst (canExecute 110 (recordFailure 100 (NewCircuitBreaker 1 30))) = False
   \<and> fst (canExecute 131 (recordFailure 100 (NewCircuitBreaker 1 30))) = True"
proof -
  let ?c = "NewCircuitBreaker 1 30"
  have "breaker_step (?c, 0, 90) (?c, Suc 0, 95)"
    by (rule breaker_step.admit) (simp_all add: canExecute_def NewCircuitBreaker_def)
  then have "breaker_reachable 1 30 (?c, Suc 0, 95)"
    by (rule breaker_reachable.step [OF breaker_reachable.start])
  moreover have "breaker_step (?c, Suc 0, 95) (recordFailure 100 ?c, 0, 100)"
    by (rule breaker_step.fail) simp
  ultimately have r: "breaker_reachable 1 30 (recordFailure 100 ?c, 0, 100)"
    by (rule breaker_reachable.step)
  show ?thesis
    using r breaker_safe [OF r, of 110] breaker_safe [OF r, of 131]
    by (simp add: fits64_def recordFailure_def NewCircuitBreaker_def time_sub_def)
qed

text \<open>
  A new breaker passes exactly \<^verbatim>\<open>maxFailures\<close> consecutive failing calls through: after them it is
  open, and the next call before the timeout returns \<^verbatim>\<open>ErrCircuitBreakerOpen\<close> and runs nothing; a
  call after the timeout runs, and its success closes the breaker again.
\<close>

lemma breaker_opens_at_threshold:
  assumes "0 < mx" and "fits64 mx" and "length ts = nat mx"
    and "failing_run e ts (NewCircuitBreaker mx tmo) = (rs, cb)"
  shows "rs = replicate (nat mx) (Some e) \<and> cb_state cb = StateOpen
    \<and> (time_sub t1 (snd (last ts)) \<le> tmo \<longrightarrow>
        Execute t1 t2 fn (cb, s) = (Some (ESentinel ErrCircuitBreakerOpen), cb, s))
    \<and> (\<not> time_sub t1 (snd (last ts)) \<le> tmo \<longrightarrow> fn s = (None, s') \<longrightarrow>
        (\<exists>cb'. Execute t1 t2 fn (cb, s) = (None, cb', s') \<and> cb_state cb' = StateClosed
           \<and> failures cb' = 0))"
proof -
  let ?n = "NewCircuitBreaker mx tmo"
  have "failing_run e ts ?n = (replicate (length ts) (Some e),
      ?n\<lparr>lastFailTime := snd (last ts), failures := mx, cb_state := StateOpen\<rparr>)"
    using assms(1-3) by (subst failing_run_closed) (auto simp: NewCircuitBreaker_def)
  with assms(3,4) have rs: "rs = replicate (nat mx) (Some e)"
    and cb: "cb = ?n\<lparr>lastFailTime := snd (last ts), failures := mx, cb_state := StateOpen\<rparr>"
    by auto
  have "\<not> time_sub t1 (snd (last ts)) \<le> tmo \<Longrightarrow> fn s = (None, s') \<Longrightarrow>
    Execute t1 t2 fn (cb, s) = (None, recordSuccess (snd (canExecute t1 cb)), s')
    \<and> cb_state (recordSuccess (snd (canExecute t1 cb))) = StateClosed
    \<and> failures (recordSuccess (snd (canExecute t1 cb))) = 0"
    by (simp add: cb Execute_def breaker_defs)
  with rs cb show ?thesis
    by (auto simp: Execute_open NewCircuitBreaker_def)
qed

end
