(* ===== verification/Message.thy ===== *)
theory Message
  imports Errors
begin

text \<open>
  The message of \<^verbatim>\<open>pkg/eventbus/eventbus.go\<close>, which the event bus, the jobs and their bridges
  exchange.
\<close>

record message =
  msg_ID :: string
  msg_Key :: string
  msg_Value :: string
  msg_Headers :: headers
  msg_ContentType :: string
  msg_Timestamp :: gotime

end
