(* ===== verification/EventBus.thy ===== *)
theory EventBus
  imports Breaker Message
begin

text \<open>
  \<^verbatim>\<open>pkg/eventbus\<close>: the retry loop with dead-letter fallback (\<^verbatim>\<open>retry_dlq.go\<close>), aggregate
  versioning (\<^verbatim>\<open>aggregate_versioning.go\<close>) and the event envelope (\<^verbatim>\<open>envelope.go\<close>).  The retry loop
  drives the circuit breaker of theory \<open>Breaker\<close> and the decisions of theory \<open>Retry\<close>; what it does
  to the outside (handler runs, metrics, quarantine, dead-letter publications) is the list of
  events it returns.
\<close>

section \<open>Consuming with retries\<close>

record retry_dlq_config =
  rc_MaxRetries :: int
  rc_InitialBackoff :: duration
  rc_MaxBackoff :: duration
  rc_AttemptTimeout :: duration
  rc_CircuitBreakerFailures :: int
  rc_CircuitBreakerReset :: duration
  rc_DLQTopicSuffix :: string

definition retry_dlq_normalize :: "retry_dlq_config \<Rightarrow> retry_dlq_config" where
  "retry_dlq_normalize c =
     (let r0 = (if rc_MaxRetries c < 0 then 0 else rc_MaxRetries c) in
      \<lparr>rc_MaxRetries = (if r0 = 0 then 5 else r0),
       rc_InitialBackoff = pos_or (rc_InitialBackoff c) second,
       rc_MaxBackoff = pos_or (rc_MaxBackoff c) (60 * second),
       rc_AttemptTimeout = pos_or (rc_AttemptTimeout c) (30 * second),
       rc_CircuitBreakerFailures = pos_or (rc_CircuitBreakerFailures c) 5,
       rc_CircuitBreakerReset = pos_or (rc_CircuitBreakerReset c) (30 * second),
       rc_DLQTopicSuffix = (if rc_DLQTopicSuffix c = [] then ''.dlq'' else rc_DLQTopicSuffix c)\<rparr>)"

record dlq_payload =
  dp_OriginalTopic :: string
  dp_OriginalID :: string
  dp_OriginalKey :: string
  dp_OriginalBody :: string
  dp_OriginalHeader :: headers
  dp_FailureReason :: string
  dp_StackTrace :: string
  dp_AttemptCount :: int
  dp_FailedAt :: gotime

datatype consume_event =
  HandlerRun int
| IncRetry string
| IncProcessed
| QuarantineCall quarantine_record
| PublishCall string message
| IncDLQ
| IncDLQFailure

text \<open>
  What one run of the loop meets: the result of \<^verbatim>\<open>WithTimeout\<close> around the handler in each attempt,
  the clock readings of the breaker, whether the context is done while the delay of an attempt is
  awaited, and the results of the quarantine sink, of \<^verbatim>\<open>json.Marshal\<close> and of the producer.
\<close>

record consume_env =
  handler_result :: "int \<Rightarrow> err option"
  t_check :: "int \<Rightarrow> gotime"
  t_fail :: "int \<Rightarrow> gotime"
  ctx_done :: "int \<Rightarrow> err option"
  quarantine_result :: "quarantine_record \<Rightarrow> err option"
  marshal_payload :: "dlq_payload \<Rightarrow> string result"
  publish_result :: "string \<Rightarrow> message \<Rightarrow> err option"
  t_final :: gotime
  stack_trace :: string

datatype loop_exit = LoopProcessed | LoopCancelled err | LoopEnd "err option" int

fun consume_loop ::
  "consume_env \<Rightarrow> budget \<Rightarrow> int \<Rightarrow> nat \<Rightarrow> int \<Rightarrow> err option \<Rightarrow> int \<Rightarrow> breaker
    \<Rightarrow> loop_exit \<times> consume_event list" where
  "consume_loop env bud attempts 0 attempt lastErr used cb = (LoopEnd lastErr used, [])"
| "consume_loop env bud attempts (Suc k) attempt lastErr used cb =
     (let (r, cb', ran) = Execute (t_check env attempt) (t_fail env attempt)
             (\<lambda>_. (handler_result env attempt, True)) (cb, False);
          evs = (if ran then [HandlerRun attempt] else [])
      in case r of
           None \<Rightarrow> (LoopProcessed, evs @ [IncProcessed])
         | Some e \<Rightarrow>
             (let evs' = evs @ [IncRetry (if error_text e = [] then ''unknown'' else error_text e)];
                  d = Decide (Classify (Some e)) attempt attempts bud
                        \<lparr>DeadLetterEnabled = True, QuarantineEnabled = False\<rparr>
              in if Disposition d \<noteq> DispositionDelayedRetry then (LoopEnd (Some e) attempt, evs')
                 else case ctx_done env attempt of
                        Some c \<Rightarrow> (LoopCancelled c, evs')
                      | None \<Rightarrow>
                          (let (x, rest) = consume_loop env bud attempts k (attempt + 1) (Some e)
                                             attempt cb'
                           in (x, evs' @ rest))))"

definition sendToDLQ ::
  "consume_env \<Rightarrow> string \<Rightarrow> string \<Rightarrow> message \<Rightarrow> err option \<Rightarrow> int
    \<Rightarrow> err option \<times> consume_event list" where
  "sendToDLQ env dlqTopic originalTopic m failure attempts =
     (let f = (case failure of None \<Rightarrow> ENew ''unknown failure'' | Some e \<Rightarrow> e);
          payload = \<lparr>dp_OriginalTopic = originalTopic, dp_OriginalID = msg_ID m,
            dp_OriginalKey = msg_Key m, dp_OriginalBody = msg_Value m,
            dp_OriginalHeader = msg_Headers m, dp_FailureReason = error_text f,
            dp_StackTrace = stack_trace env, dp_AttemptCount = attempts,
            dp_FailedAt = t_final env\<rparr>
      in case marshal_payload env payload of
           Inl e \<Rightarrow> (Some (EWrap ''marshal dlq payload failed: '' e []), [])
         | Inr encoded \<Rightarrow>
             (let dlq = \<lparr>msg_ID = msg_ID m, msg_Key = msg_Key m, msg_Value = encoded,
                    msg_Headers = [''dlq'' \<mapsto> ''true'', ''original_topic'' \<mapsto> originalTopic],
                    msg_ContentType = ''application/json'', msg_Timestamp = t_final env\<rparr>
              in case publish_result env dlqTopic dlq of
                   Some e \<Rightarrow> (Some (EWrap ''publish dlq message failed: '' e []),
                              [PublishCall dlqTopic dlq])
                 | None \<Rightarrow> (None, [PublishCall dlqTopic dlq])))"

text \<open>\<^verbatim>\<open>fmt.Errorf\<close> with a nil argument for \<^verbatim>\<open>%w\<close> prints a marker and wraps nothing.\<close>

definition wrap_last :: "string \<Rightarrow> err option \<Rightarrow> err" where
  "wrap_last p e = (case e of Some f \<Rightarrow> EWrap p f [] | None \<Rightarrow> ENew (p @ ''%!w(<nil>)''))"

definition wrap_last2 :: "string \<Rightarrow> err option \<Rightarrow> string \<Rightarrow> err \<Rightarrow> err" where
  "wrap_last2 p e q f =
     (case e of Some l \<Rightarrow> EWrap2 p l q f [] | None \<Rightarrow> EWrap (p @ ''%!w(<nil>)'' @ q) f [])"

text \<open>
  \<^verbatim>\<open>ConsumeWithRetry\<close>.  The arguments the source compares with nil are \<open>option\<close>s or, when only their
  presence matters, booleans.  \<open>last_text\<close> is \<^verbatim>\<open>lastErr.Error()\<close>, reached in the quarantine branch
  only after a failed attempt.
\<close>

definition ConsumeWithRetry ::
  "consume_env \<Rightarrow> bool \<Rightarrow> string \<Rightarrow> message option \<Rightarrow> bool \<Rightarrow> bool \<Rightarrow> bool \<Rightarrow> bool \<Rightarrow> retry_dlq_config
    \<Rightarrow> err option \<times> consume_event list" where
  "ConsumeWithRetry env hasCtx topic mo hasHandler hasProducer hasSink hasLog config0 =
     (if \<not> hasCtx then (Some (ENew ''context is nil''), [])
      else if topic = [] then (Some (ENew ''consumer topic is required''), [])
      else case mo of
        None \<Rightarrow> (Some (ENew ''message is nil''), [])
      | Some m \<Rightarrow>
     (if \<not> hasHandler then (Some (ENew ''handler is required''), [])
      else if \<not> hasProducer then (Some (ENew ''producer is required''), [])
      else if \<not> hasLog then (Some (ENew ''logger is required''), [])
      else
       let config = retry_dlq_normalize config0;
           bud = \<lparr>MaxAttempts = i64 (rc_MaxRetries config + 1),
                  InitialBackoff = rc_InitialBackoff config, MaxBackoff = rc_MaxBackoff config,
                  AttemptTimeout = rc_AttemptTimeout config\<rparr>;
           cb = NewCircuitBreaker (rc_CircuitBreakerFailures config) (rc_CircuitBreakerReset config);
           attempts = MaxAttempts bud;
           (x, evs) = consume_loop env bud attempts (nat attempts) 1 None 0 cb
       in case x of
            LoopProcessed \<Rightarrow> (None, evs)
          | LoopCancelled c \<Rightarrow> (Some c, evs)
          | LoopEnd lastErr used \<Rightarrow>
              (let final = Decide (Classify lastErr) used attempts bud
                     \<lparr>DeadLetterEnabled = True, QuarantineEnabled = hasSink\<rparr>;
                   last_text = (case lastErr of Some e \<Rightarrow> error_text e | None \<Rightarrow> [])
               in if Disposition final = DispositionQuarantine then
                    (let q = \<lparr>qr_Scope = ''eventbus'', qr_Key = topic @ '':'' @ msg_ID m,
                         qr_Classification = Classification final, qr_Reason = last_text,
                         qr_Attempt = Attempt final, qr_MaxAttempts = DecMaxAttempts final,
                         qr_OccurredAt = t_final env,
                         qr_Metadata = [(''topic'', topic), (''message_id'', msg_ID m)]\<rparr>
                     in case quarantine_result env q of
                          Some e \<Rightarrow> (Some (wrap_last2 ''handler failed after retries ('' lastErr
                                       '') and quarantine failed: '' e), evs @ [QuarantineCall q])
                        | None \<Rightarrow> (Some (wrap_last (''handler quarantined after '' @ itoa used
                                       @ '' attempts: '') lastErr), evs @ [QuarantineCall q]))
                  else
                    (case sendToDLQ env (topic @ rc_DLQTopicSuffix config) topic m lastErr used of
                       (Some e, pub) \<Rightarrow>
                         (Some (wrap_last2 ''handler failed after retries ('' lastErr
                            '') and dlq publish failed: '' e), evs @ pub @ [IncDLQFailure])
                     | (None, pub) \<Rightarrow>
                         (Some (wrap_last (''handler failed after '' @ itoa used @ '' attempts: '')
                            lastErr), evs @ pub @ [IncDLQ])))))"

section \<open>Aggregate versions\<close>

datatype version_status =
  VersionStatusOK | VersionStatusDuplicate | VersionStatusOutOfOrder | VersionStatusGap

record version_check =
  vc_Status :: version_status
  vc_Expected :: int
  vc_Received :: int
  vc_GapSize :: int

definition NextAggregateVersion :: "int \<Rightarrow> int result" where
  "NextAggregateVersion current =
     (if current < 0 then Inl (ENew ''current version cannot be negative'')
      else Inr (i64 (current + 1)))"

definition ValidateAggregateVersion :: "int \<Rightarrow> int \<Rightarrow> version_check" where
  "ValidateAggregateVersion lastSeen received =
     (let expected = i64 (lastSeen + 1);
          chk = (\<lambda>st gap. \<lparr>vc_Status = st, vc_Expected = expected, vc_Received = received,
                          vc_GapSize = gap\<rparr>)
      in if received = expected then chk VersionStatusOK 0
         else if received = lastSeen then chk VersionStatusDuplicate 0
         else if received < lastSeen then chk VersionStatusOutOfOrder 0
         else chk VersionStatusGap (i64 (received - expected)))"

text \<open>The store of last-seen versions is the caller's: a record of its two operations.\<close>

record 's version_store =
  GetLastSeenVersion :: "'s \<Rightarrow> string \<Rightarrow> string \<Rightarrow> int result"
  SetLastSeenVersion :: "'s \<Rightarrow> string \<Rightarrow> string \<Rightarrow> int \<Rightarrow> err option \<times> 's"

definition CheckAndAdvance ::
  "'s version_store \<Rightarrow> string \<Rightarrow> string \<Rightarrow> int \<Rightarrow> 's \<Rightarrow> version_check result \<times> 's" where
  "CheckAndAdvance S tenantID aggregateID received s =
     (if tenantID = [] then (Inl (ENew ''tenant id is required''), s)
      else if aggregateID = [] then (Inl (ENew ''aggregate id is required''), s)
      else if received < 1 then (Inl (ENew ''received version must be >= 1''), s)
      else case GetLastSeenVersion S s tenantID aggregateID of
             Inl e \<Rightarrow> (Inl (EWrap ''load last seen version failed: '' e []), s)
           | Inr lastSeen \<Rightarrow>
               (let check = ValidateAggregateVersion lastSeen received in
                if vc_Status check \<noteq> VersionStatusOK then (Inr check, s)
                else case SetLastSeenVersion S s tenantID aggregateID received of
                       (Some e, s') \<Rightarrow> (Inl (EWrap ''persist last seen version failed: '' e []), s')
                     | (None, s') \<Rightarrow> (Inr check, s')))"

text \<open>
  What the tracker relies on: the store has a table of versions, a read that succeeds gives the
  entry, a write that succeeds sets it and nothing else, and a write that fails changes nothing.
\<close>

definition version_store_ok :: "'s version_store \<Rightarrow> ('s \<Rightarrow> string \<times> string \<Rightarrow> int) \<Rightarrow> bool" where
  "version_store_ok S view \<longleftrightarrow>
     (\<forall>s t a v. GetLastSeenVersion S s t a = Inr v \<longrightarrow> v = view s (t, a)) \<and>
     (\<forall>s t a v s'. SetLastSeenVersion S s t a v = (None, s') \<longrightarrow> view s' = (view s)((t, a) := v)) \<and>
     (\<forall>s t a v e s'. SetLastSeenVersion S s t a v = (Some e, s') \<longrightarrow> view s' = view s)"

text \<open>The versions of one aggregate that a sequence of deliveries gets accepted, in order.\<close>

fun accepted ::
  "'s version_store \<Rightarrow> (string \<times> string) \<Rightarrow> ((string \<times> string) \<times> int) list \<Rightarrow> 's \<Rightarrow> int list \<times> 's" where
  "accepted S k [] s = ([], s)"
| "accepted S k ((key, v) # ds) s =
     (case CheckAndAdvance S (fst key) (snd key) v s of
        (r, s') \<Rightarrow>
          (let (vs, s'') = accepted S k ds s' in
           (if key = k \<and> (\<exists>c. r = Inr c \<and> vc_Status c = VersionStatusOK) then v # vs else vs, s'')))"

section \<open>The event envelope\<close>

record event_envelope =
  ee_ID :: string
  ee_Type :: string
  ee_Domain :: string
  ee_EventName :: string
  ee_Version :: string
  ee_TenantID :: string
  ee_AggregateID :: string
  ee_AggregateType :: string
  ee_AggregateVersion :: int
  ee_Producer :: string
  ee_PartitionKey :: string
  ee_CorrelationID :: string
  ee_CausationID :: "string option"
  ee_ActorID :: string
  ee_ActorType :: string
  ee_OccurredAt :: gotime
  ee_Payload :: string
  ee_SchemaID :: string
  ee_SchemaHash :: string
  ee_DataClass :: string
  ee_Metadata :: headers

definition PartitionKey :: "string \<Rightarrow> string \<Rightarrow> string" where
  "PartitionKey tenantID aggregateID = tenantID @ '':'' @ aggregateID"

definition EnsurePartitionKey :: "event_envelope \<Rightarrow> event_envelope" where
  "EnsurePartitionKey e =
     (if blank (ee_PartitionKey e)
      then e\<lparr>ee_PartitionKey := PartitionKey (ee_TenantID e) (ee_AggregateID e)\<rparr> else e)"

definition required_fields :: "event_envelope \<Rightarrow> (string \<times> string) list" where
  "required_fields e =
     [(''id'', ee_ID e), (''type'', ee_Type e), (''domain'', ee_Domain e),
      (''event_name'', ee_EventName e), (''version'', ee_Version e),
      (''tenant_id'', ee_TenantID e), (''aggregate_id'', ee_AggregateID e),
      (''aggregate_type'', ee_AggregateType e), (''producer'', ee_Producer e),
      (''partition_key'', ee_PartitionKey e), (''correlation_id'', ee_CorrelationID e),
      (''actor_id'', ee_ActorID e)]"

text \<open>
  \<^verbatim>\<open>Validate\<close> ranges over a map of the required fields, in an order Go does not fix; \<open>perm\<close> is the
  order of one run.
\<close>

definition envelope_Validate ::
  "((string \<times> string) list \<Rightarrow> (string \<times> string) list) \<Rightarrow> event_envelope \<Rightarrow> err option" where
  "envelope_Validate perm e =
     (case List.find (\<lambda>(f, v). blank v) (perm (required_fields e)) of
        Some (f, v) \<Rightarrow> Some (ENew (''missing required field: '' @ f))
      | None \<Rightarrow>
          (if ee_AggregateVersion e < 1 then Some (ENew ''aggregate_version must be >= 1'')
           else if ee_OccurredAt e = 0 then Some (ENew ''occurred_at is required'')
           else if ee_Payload e = [] then Some (ENew ''payload is required'')
           else if ee_ActorType e \<noteq> ''user'' \<and> ee_ActorType e \<noteq> ''service''
             then Some (ENew (''invalid actor_type: '' @ quoted (ee_ActorType e)))
           else if ee_DataClass e \<noteq> ''public'' \<and> ee_DataClass e \<noteq> ''internal'' \<and>
                   ee_DataClass e \<noteq> ''restricted''
             then Some (ENew (''invalid data_class: '' @ quoted (ee_DataClass e)))
           else if ee_PartitionKey e \<noteq> PartitionKey (ee_TenantID e) (ee_AggregateID e)
             then Some (ENew (''invalid partition_key: expected ''
                    @ quoted (PartitionKey (ee_TenantID e) (ee_AggregateID e)) @ '', got ''
                    @ quoted (ee_PartitionKey e)))
           else None))"

text \<open>\<^verbatim>\<open>encoding/json\<close> on envelopes is a pair of functions.\<close>

record json_codec =
  marshal_envelope :: "event_envelope \<Rightarrow> string result"
  unmarshal_envelope :: "string \<Rightarrow> event_envelope result"

definition Serialize ::
  "json_codec \<Rightarrow> ((string \<times> string) list \<Rightarrow> (string \<times> string) list) \<Rightarrow> event_envelope \<Rightarrow> string result" where
  "Serialize J perm e =
     (case envelope_Validate perm e of
        Some x \<Rightarrow> Inl x
      | None \<Rightarrow> (case marshal_envelope J e of
                 Inl x \<Rightarrow> Inl (EWrap ''failed to serialize event envelope: '' x [])
               | Inr d \<Rightarrow> Inr d))"

definition DeserializeEventEnvelope ::
  "json_codec \<Rightarrow> ((string \<times> string) list \<Rightarrow> (string \<times> string) list) \<Rightarrow> string \<Rightarrow> event_envelope result" where
  "DeserializeEventEnvelope J perm data =
     (if data = [] then Inl (ENew ''cannot deserialize empty envelope'')
      else case unmarshal_envelope J data of
             Inl x \<Rightarrow> Inl (EWrap ''failed to deserialize event envelope: '' x [])
           | Inr e \<Rightarrow>
               (let e' = EnsurePartitionKey e in
                case envelope_Validate perm e' of Some x \<Rightarrow> Inl x | None \<Rightarrow> Inr e'))"

definition ToMessage ::
  "json_codec \<Rightarrow> ((string \<times> string) list \<Rightarrow> (string \<times> string) list) \<Rightarrow> event_envelope \<Rightarrow> message result" where
  "ToMessage J perm e =
     (case Serialize J perm e of
        Inl x \<Rightarrow> Inl x
      | Inr payload \<Rightarrow>
          Inr \<lparr>msg_ID = ee_ID e, msg_Key = ee_PartitionKey e, msg_Value = payload,
               msg_Headers = [''type'' \<mapsto> ee_Type e, ''tenant_id'' \<mapsto> ee_TenantID e,
                 ''correlation_id'' \<mapsto> ee_CorrelationID e, ''data_class'' \<mapsto> ee_DataClass e],
               msg_ContentType = ''application/json'', msg_Timestamp = ee_OccurredAt e\<rparr>)"

definition EventEnvelopeFromMessage ::
  "json_codec \<Rightarrow> ((string \<times> string) list \<Rightarrow> (string \<times> string) list) \<Rightarrow> message option
    \<Rightarrow> event_envelope result" where
  "EventEnvelopeFromMessage J perm mo =
     (case mo of
        None \<Rightarrow> Inl (ENew ''message is nil'')
      | Some m \<Rightarrow>
          (if msg_Value m = [] then Inl (ENew ''message payload is empty'')
           else DeserializeEventEnvelope J perm (msg_Value m)))"

section \<open>Lemmas on the retry loop\<close>

definition handler_runs :: "consume_event list \<Rightarrow> int list" where
  "handler_runs evs = List.map_filter (\<lambda>x. case x of HandlerRun n \<Rightarrow> Some n | _ \<Rightarrow> None) evs"

definition terminal_events :: "consume_event list \<Rightarrow> consume_event list" where
  "terminal_events evs =
     filter (\<lambda>x. case x of IncProcessed \<Rightarrow> True | QuarantineCall _ \<Rightarrow> True | PublishCall _ _ \<Rightarrow> True
                  | _ \<Rightarrow> False) evs"

lemma handler_runs_simps [simp]:
  "handler_runs [] = []" "handler_runs (HandlerRun n # evs) = n # handler_runs evs"
  "handler_runs (IncRetry t # evs) = handler_runs evs"
  "handler_runs (IncProcessed # evs) = handler_runs evs"
  "handler_runs (QuarantineCall q # evs) = handler_runs evs"
  "handler_runs (PublishCall t m # evs) = handler_runs evs"
  "handler_runs (IncDLQ # evs) = handler_runs evs"
  "handler_runs (IncDLQFailure # evs) = handler_runs evs"
  "handler_runs (xs @ ys) = handler_runs xs @ handler_runs ys"
  by (simp_all add: handler_runs_def List.map_filter_def)

lemma terminal_events_simps [simp]:
  "terminal_events [] = []" "terminal_events (HandlerRun n # evs) = terminal_events evs"
  "terminal_events (IncRetry t # evs) = terminal_events evs"
  "terminal_events (IncProcessed # evs) = IncProcessed # terminal_events evs"
  "terminal_events (QuarantineCall q # evs) = QuarantineCall q # terminal_events evs"
  "terminal_events (PublishCall t m # evs) = PublishCall t m # terminal_events evs"
  "terminal_events (IncDLQ # evs) = terminal_events evs"
  "terminal_events (IncDLQFailure # evs) = terminal_events evs"
  "terminal_events (xs @ ys) = terminal_events xs @ terminal_events ys"
  by (simp_all add: terminal_events_def)

lemma consume_loop_events:
  assumes "consume_loop env bud attempts k a l u cb = (x, evs)"
  shows "length (handler_runs evs) \<le> k
    \<and> terminal_events evs = (if x = LoopProcessed then [IncProcessed] else [])
    \<and> (\<forall>c. x = LoopCancelled c \<longrightarrow> (\<exists>n. ctx_done env n = Some c))"
  using assms
proof (induction k arbitrary: a l u cb x evs)
  case (Suc k)
  obtain r cb' ran where ex: "Execute (t_check env a) (t_fail env a)
      (\<lambda>_. (handler_result env a, True)) (cb, False) = (r, cb', ran)"
    by (cases "Execute (t_check env a) (t_fail env a)
      (\<lambda>_. (handler_result env a, True)) (cb, False)")
  obtain y rest where rec: "consume_loop env bud attempts k (a + 1) r a cb' = (y, rest)"
    by (cases "consume_loop env bud attempts k (a + 1) r a cb'")
  note ih = Suc.IH [OF rec]
  show ?case
  proof (cases r)
    case None
    with Suc.prems ex show ?thesis by (auto split: if_splits)
  next
    case (Some e)
    let ?d = "Disposition (Decide (Classify (Some e)) a attempts bud
        \<lparr>DeadLetterEnabled = True, QuarantineEnabled = False\<rparr>) = DispositionDelayedRetry"
    consider (stop) "\<not> ?d" | (cancel) c where "?d" "ctx_done env a = Some c"
      | (again) "?d" "ctx_done env a = None" by (cases "ctx_done env a") auto
    then show ?thesis
    proof cases
      case stop
      with Some Suc.prems ex show ?thesis by (auto simp: Let_def split: if_splits)
    next
      case cancel
      with Some Suc.prems ex show ?thesis by (auto simp: Let_def split: if_splits)
    next
      case again
      with Some Suc.prems ex rec have x: "x = y" "evs = (if ran then [HandlerRun a] else [])
          @ [IncRetry (if error_text e = [] then ''unknown'' else error_text e)] @ rest"
        by (auto simp: Let_def)
      show ?thesis using ih by (simp add: x)
    qed
  qed
qed auto

lemma Classify_open [simp]: "Classify (Some (ESentinel s)) = ClassificationRetryable"
  by (simp add: Classify_def)

text \<open>With the breaker open for the rest of the run, the remaining attempts run no handler.\<close>

lemma consume_loop_open:
  assumes "cb_state cb = StateOpen"
    and "\<And>n. a \<le> n \<Longrightarrow> n \<le> attempts \<Longrightarrow> time_sub (t_check env n) (lastFailTime cb) \<le> cb_timeout cb"
    and "\<And>n. ctx_done env n = None" and "1 \<le> a" and "a + int k = attempts + 1"
  shows "\<exists>evs. consume_loop env bud attempts k a l u cb =
      (if k = 0 then LoopEnd l u else LoopEnd (Some (ESentinel ErrCircuitBreakerOpen)) attempts, evs)
    \<and> handler_runs evs = []"
  using assms(2,4,5)
proof (induction k arbitrary: a l u)
  case (Suc k)
  have ex: "Execute (t_check env a) (t_fail env a) (\<lambda>_. (handler_result env a, True)) (cb, False)
      = (Some (ESentinel ErrCircuitBreakerOpen), cb, False)"
    using Suc.prems assms(1) by (intro Execute_open) auto
  show ?case
  proof (cases k)
    case 0
    with Suc.prems ex show ?thesis
      by (simp add: Decide_delayed)
  next
    case (Suc j)
    have "\<exists>evs. consume_loop env bud attempts k (a + 1) (Some (ESentinel ErrCircuitBreakerOpen)) a cb =
        (if k = 0 then LoopEnd (Some (ESentinel ErrCircuitBreakerOpen)) a
         else LoopEnd (Some (ESentinel ErrCircuitBreakerOpen)) attempts, evs) \<and> handler_runs evs = []"
      using Suc.prems by (intro Suc.IH) auto
    with Suc.prems ex Suc assms(3) show ?thesis
      by (auto simp: Decide_delayed)
  qed
qed simp

text \<open>A handler that always fails is run until the breaker's threshold, and never again.\<close>

lemma consume_loop_breaker:
  assumes "\<And>n. handler_result env n = Some e" and "Classify (Some e) = ClassificationRetryable"
    and "\<And>n. ctx_done env n = None" and "fits64 F" and "F < attempts"
    and "\<And>n. F < n \<Longrightarrow> n \<le> attempts \<Longrightarrow> time_sub (t_check env n) (t_fail env F) \<le> R"
    and "cb_state cb = StateClosed" and "maxFailures cb = F" and "cb_timeout cb = R"
    and "0 \<le> failures cb" and "failures cb = F - 1 - int j" and "a = failures cb + 1"
    and "a + int k = attempts + 1"
  shows "\<exists>evs. consume_loop env bud attempts k a l u cb =
      (LoopEnd (Some (ESentinel ErrCircuitBreakerOpen)) attempts, evs)
    \<and> handler_runs evs = map int [nat a..<Suc (nat F)]"
  using assms(7-13)
proof (induction j arbitrary: a k l u cb)
  case 0
  let ?cb = "recordFailure (t_fail env a) cb"
  have aF: "a = F" and kpos: "k = Suc (k - 1)" and k1: "0 < k - 1"
    using "0.prems" assms(5) by auto
  have rf: "?cb = cb\<lparr>lastFailTime := t_fail env a, failures := F, cb_state := StateOpen\<rparr>"
    using recordFailure_closed [of cb "t_fail env a"] "0.prems" assms(4) by simp
  have ex: "Execute (t_check env a) (t_fail env a) (\<lambda>_. (handler_result env a, True)) (cb, False)
      = (Some e, ?cb, True)"
    using "0.prems" assms(1) by (intro Execute_closed_failure) auto
  obtain evs where rest: "consume_loop env bud attempts (k - 1) (a + 1) (Some e) a ?cb =
      (LoopEnd (Some (ESentinel ErrCircuitBreakerOpen)) attempts, evs)" "handler_runs evs = []"
    using consume_loop_open [of ?cb "a + 1" attempts env "k - 1" bud "Some e" a]
      rf "0.prems" assms(3,6) aF k1 by auto
  have d: "Disposition (Decide (Classify (Some e)) a attempts bud
      \<lparr>DeadLetterEnabled = True, QuarantineEnabled = False\<rparr>) = DispositionDelayedRetry"
    using assms(2,5) aF by (simp add: Decide_delayed)
  have "int (nat a) = a" "[nat a..<Suc (nat F)] = [nat a]" using "0.prems" aF by auto
  then show ?case
    using rest d ex assms(3) by (subst kpos) simp
next
  case (Suc j)
  let ?cb = "recordFailure (t_fail env a) cb"
  have kpos: "k = Suc (k - 1)" and aF: "a < F" using Suc.prems assms(5) by auto
  have rf: "?cb = cb\<lparr>lastFailTime := t_fail env a, failures := a, cb_state := StateClosed\<rparr>"
    using recordFailure_closed [of cb "t_fail env a"] Suc.prems assms(4) by simp
  have ex: "Execute (t_check env a) (t_fail env a) (\<lambda>_. (handler_result env a, True)) (cb, False)
      = (Some e, ?cb, True)"
    using Suc.prems assms(1) by (intro Execute_closed_failure) auto
  obtain evs where rest: "consume_loop env bud attempts (k - 1) (a + 1) (Some e) a ?cb =
      (LoopEnd (Some (ESentinel ErrCircuitBreakerOpen)) attempts, evs)"
    "handler_runs evs = map int [nat (a + 1)..<Suc (nat F)]"
    using Suc.IH [of ?cb "a + 1" "k - 1" "Some e" a] rf Suc.prems aF kpos by auto
  have d: "Disposition (Decide (Classify (Some e)) a attempts bud
      \<lparr>DeadLetterEnabled = True, QuarantineEnabled = False\<rparr>) = DispositionDelayedRetry"
    using assms(2,5) aF by (simp add: Decide_delayed)
  have n: "int (nat a) = a" "nat (a + 1) = Suc (nat a)" "nat a < Suc (nat F)"
    using Suc.prems aF by auto
  then have "map int [nat a..<Suc (nat F)] = a # map int [nat (a + 1)..<Suc (nat F)]"
    using upt_conv_Cons [OF n(3)] by (simp del: upt_Suc)
  then show ?case
    using rest d ex assms(3) by (subst kpos) simp
qed

section \<open>Lemmas on versions and envelopes\<close>

lemma version_store_okD:
  assumes "version_store_ok S view"
  shows "GetLastSeenVersion S s t a = Inr v \<Longrightarrow> v = view s (t, a)"
    and "SetLastSeenVersion S s t a v = (None, s') \<Longrightarrow> view s' = (view s)((t, a) := v)"
    and "SetLastSeenVersion S s t a v = (Some e, s') \<Longrightarrow> view s' = view s"
  using assms by (auto simp: version_store_ok_def)

lemma Validate_status_OK: "vc_Status (ValidateAggregateVersion l r) = VersionStatusOK \<longleftrightarrow> r = i64 (l + 1)"
  by (simp add: ValidateAggregateVersion_def Let_def)

text \<open>One delivery: accepted only as the successor of the last accepted version.\<close>

lemma CheckAndAdvance_step:
  assumes "version_store_ok S view" and "CheckAndAdvance S t a v s = (r, s')"
  shows "if \<exists>c. r = Inr c \<and> vc_Status c = VersionStatusOK
         then v = i64 (view s (t, a) + 1) \<and> view s' = (view s)((t, a) := v)
         else view s' = view s"
  using assms(2) version_store_okD [OF assms(1)]
  by (auto simp: CheckAndAdvance_def Let_def Validate_status_OK
      split: if_splits sum.splits option.splits prod.splits)

lemma accepted_run:
  assumes "version_store_ok S view" and "accepted S k ds s = (vs, s')"
    and "fits64 (view s k)" and "fits64 (view s k + int (length ds))"
  shows "length vs \<le> length ds \<and> vs = map (\<lambda>i. view s k + 1 + int i) [0..<length vs]
    \<and> view s' k = view s k + int (length vs)"
  using assms(2-4)
proof (induction ds arbitrary: s vs)
  case (Cons d ds)
  obtain t a v where d: "d = ((t, a), v)" by (metis surj_pair)
  obtain r s1 where c: "CheckAndAdvance S t a v s = (r, s1)" by fastforce
  obtain ws where rec: "accepted S k ds s1 = (ws, s')"
    using Cons.prems(1) by (auto simp: d c split: prod.splits)
  let ?ok = "\<exists>c. r = Inr c \<and> vc_Status c = VersionStatusOK"
  have vs: "vs = (if (t, a) = k \<and> ?ok then v # ws else ws)"
    using Cons.prems(1) rec by (auto simp: d c)
  note step = CheckAndAdvance_step [OF assms(1) c]
  show ?case
  proof (cases "(t, a) = k \<and> ?ok")
    case True
    then have v: "v = view s k + 1" and s1: "view s1 k = view s k + 1"
      using step Cons.prems by (auto simp: fits64_def split: if_splits)
    have ih: "length ws \<le> length ds \<and> ws = map (\<lambda>i. view s1 k + 1 + int i) [0..<length ws]
        \<and> view s' k = view s1 k + int (length ws)"
      by (rule Cons.IH [OF rec]) (use Cons.prems s1 in \<open>auto simp: fits64_def\<close>)
    have "map (\<lambda>i. view s k + 1 + int i) [0..<Suc (length ws)]
        = v # map (\<lambda>i. view s1 k + 1 + int i) [0..<length ws]"
      by (subst map_upt_Suc) (simp add: v s1 algebra_simps)
    with True ih vs s1 show ?thesis by (metis (no_types, lifting) Suc_le_mono add.assoc
          length_Cons of_nat_Suc)
  next
    case False
    then have "view s1 k = view s k" using step by (auto split: if_splits)
    then have "length ws \<le> length ds \<and> ws = map (\<lambda>i. view s1 k + 1 + int i) [0..<length ws]
        \<and> view s' k = view s1 k + int (length ws)"
      using Cons.prems by (intro Cons.IH [OF rec]) (auto simp: fits64_def)
    with False vs \<open>view s1 k = view s k\<close> show ?thesis by simp
  qed
qed simp

text \<open>Whether an envelope is valid does not depend on the order of the map iteration.\<close>

definition map_order :: "('a list \<Rightarrow> 'a list) \<Rightarrow> bool" where
  "map_order perm \<longleftrightarrow> (\<forall>xs. set (perm xs) = set xs)"

lemma envelope_Validate_order:
  assumes "map_order p" and "map_order q"
  shows "envelope_Validate p e = None \<longleftrightarrow> envelope_Validate q e = None"
proof -
  have "List.find (\<lambda>(f, v). blank v) (p (required_fields e)) = None \<longleftrightarrow>
      List.find (\<lambda>(f, v). blank v) (q (required_fields e)) = None"
    using assms by (simp add: find_None_iff map_order_def)
  then show ?thesis by (auto simp: envelope_Validate_def split: option.splits)
qed

lemma envelope_Validate_key:
  assumes "envelope_Validate p e = None" and "map_order p"
  shows "ee_PartitionKey e = PartitionKey (ee_TenantID e) (ee_AggregateID e)"
    and "\<not> blank (ee_PartitionKey e)"
proof -
  show "ee_PartitionKey e = PartitionKey (ee_TenantID e) (ee_AggregateID e)"
    using assms by (auto simp: envelope_Validate_def split: option.splits if_splits)
  have "List.find (\<lambda>(f, v). blank v) (p (required_fields e)) = None"
    using assms by (auto simp: envelope_Validate_def split: option.splits)
  then have "\<forall>x \<in> set (required_fields e). \<not> blank (snd x)"
    using assms(2) by (auto simp: find_None_iff map_order_def)
  then show "\<not> blank (ee_PartitionKey e)" by (simp add: required_fields_def)
qed

lemma PartitionKey_inj:
  assumes "PartitionKey t a = PartitionKey u b" and "CHR '':'' \<notin> set t" and "CHR '':'' \<notin> set u"
  shows "t = u \<and> a = b"
proof -
  have "takeWhile (\<lambda>c. c \<noteq> CHR '':'') (PartitionKey x y) = x" if "CHR '':'' \<notin> set x" for x y
    using that by (auto simp: PartitionKey_def takeWhile_tail)
  with assms have "t = u" by metis
  with assms(1) show ?thesis by (simp add: PartitionKey_def)
qed

section \<open>Concrete instances\<close>

text \<open>An environment whose handler fails with \<open>e\<close> until attempt \<open>n\<close>, and a store of versions.\<close>

definition sample_env :: "err \<Rightarrow> int \<Rightarrow> consume_env" where
  "sample_env e n =
     \<lparr>handler_result = (\<lambda>a. if a < n then Some e else None), t_check = (\<lambda>a. 1000 + 10 * a),
      t_fail = (\<lambda>a. 1005 + 10 * a), ctx_done = (\<lambda>_. None), quarantine_result = (\<lambda>_. None),
      marshal_payload = (\<lambda>p. Inr (dp_FailureReason p)), publish_result = (\<lambda>_ _. None),
      t_final = 9000, stack_trace = []\<rparr>"

definition default_config :: retry_dlq_config where
  "default_config = \<lparr>rc_MaxRetries = 0, rc_InitialBackoff = 0, rc_MaxBackoff = 0,
     rc_AttemptTimeout = 0, rc_CircuitBreakerFailures = 0, rc_CircuitBreakerReset = 0,
     rc_DLQTopicSuffix = []\<rparr>"

definition sample_message :: message where
  "sample_message = \<lparr>msg_ID = ''m1'', msg_Key = ''k'', msg_Value = ''{}'', msg_Headers = Map.empty,
     msg_ContentType = ''application/json'', msg_Timestamp = 1\<rparr>"

definition map_store :: "(string \<times> string \<Rightarrow> int) version_store" where
  "map_store = \<lparr>GetLastSeenVersion = (\<lambda>s t a. Inr (s (t, a))),
     SetLastSeenVersion = (\<lambda>s t a v. (None, s((t, a) := v)))\<rparr>"

lemma map_store_ok: "version_store_ok map_store (\<lambda>s. s)"
  by (simp add: version_store_ok_def map_store_def)

definition sample_envelope :: event_envelope where
  "sample_envelope = \<lparr>ee_ID = ''e1'', ee_Type = ''order.created'', ee_Domain = ''order'',
     ee_EventName = ''created'', ee_Version = ''v1'', ee_TenantID = ''t1'', ee_AggregateID = ''a1'',
     ee_AggregateType = ''order'', ee_AggregateVersion = 1, ee_Producer = ''svc'',
     ee_PartitionKey = ''t1:a1'', ee_CorrelationID = ''c1'', ee_CausationID = None,
     ee_ActorID = ''u1'', ee_ActorType = ''user'', ee_OccurredAt = 5, ee_Payload = ''{}'',
     ee_SchemaID = [], ee_SchemaHash = [], ee_DataClass = ''public'', ee_Metadata = Map.empty\<rparr>"

definition sample_codec :: json_codec where
  "sample_codec = \<lparr>marshal_envelope = (\<lambda>e. if e = sample_envelope then Inr ''{envelope}'' else Inl (ENew ''x'')),
     unmarshal_envelope = (\<lambda>d. Inr sample_envelope)\<rparr>"

section \<open>Properties\<close>



text \<open>
  When the breaker's threshold does not exceed the number of retries (as with the defaults, 5
  failures and 5 retries) and the delays stay within the breaker's reset time, a handler that
  keeps failing runs only as often as the threshold, and the failure reported after the last
  attempt is the breaker's and no longer the handler's.
\<close>

lemma ConsumeWithRetry_breaker_masks:
  assumes "\<And>n. handler_result env n = Some e" and "Classify (Some e) = ClassificationRetryable"
    and "\<And>n. ctx_done env n = None" and "topic \<noteq> []" and "c = retry_dlq_normalize cfg"
    and "fits64 (rc_MaxRetries c + 1)" and "rc_CircuitBreakerFailures c \<le> rc_MaxRetries c"
    and "\<And>n. rc_CircuitBreakerFailures c < n \<Longrightarrow> n \<le> rc_MaxRetries c + 1 \<Longrightarrow>
      time_sub (t_check env n) (t_fail env (rc_CircuitBreakerFailures c)) \<le> rc_CircuitBreakerReset c"
    and "\<And>p. marshal_payload env p = Inr enc" and "\<And>t d. publish_result env t d = None"
  shows "\<exists>evs. ConsumeWithRetry env True topic (Some m) True True False True cfg =
      (Some (EWrap (''handler failed after '' @ itoa (rc_MaxRetries c + 1) @ '' attempts: '')
         (ESentinel ErrCircuitBreakerOpen) []), evs)
    \<and> handler_runs evs = map int [1..<Suc (nat (rc_CircuitBreakerFailures c))]"
proof -
  let ?n = "rc_MaxRetries c + 1" and ?F = "rc_CircuitBreakerFailures c"
  let ?bud = "\<lparr>MaxAttempts = ?n, InitialBackoff = rc_InitialBackoff c,
      MaxBackoff = rc_MaxBackoff c, AttemptTimeout = rc_AttemptTimeout c\<rparr>"
  let ?cb = "NewCircuitBreaker ?F (rc_CircuitBreakerReset c)"
  have F: "0 < ?F" by (simp add: assms(5) retry_dlq_normalize_def Let_def)
  have "fits64 ?F" using assms(6,7) F by (auto simp: fits64_def)
  then have "\<exists>evs. consume_loop env ?bud ?n (nat ?n) 1 None 0 ?cb =
      (LoopEnd (Some (ESentinel ErrCircuitBreakerOpen)) ?n, evs)
    \<and> handler_runs evs = map int [nat 1..<Suc (nat ?F)]"
    using assms(1-3,7,8) F
    by (intro consume_loop_breaker [where j = "nat (?F - 1)" and R = "rc_CircuitBreakerReset c"])
      (auto simp: NewCircuitBreaker_def)
  then obtain evs where "consume_loop env ?bud ?n (nat ?n) 1 None 0 ?cb =
      (LoopEnd (Some (ESentinel ErrCircuitBreakerOpen)) ?n, evs)"
    "handler_runs evs = map int [1..<Suc (nat ?F)]" by auto
  with assms(4-6,9,10) show ?thesis
    by (simp add: ConsumeWithRetry_def Let_def sendToDLQ_def wrap_last_def Decide_quarantine del: upt_Suc)
qed

text \<open>
  C10. Whatever sequence of versions is delivered for all aggregates, duplicates, gaps and failures
  of the store included, the versions accepted for one aggregate are exactly the consecutive
  numbers after its last seen version, and the store ends at the last one accepted.
\<close>

theorem accepted_consecutive:
  assumes "version_store_ok S view" and "accepted S k ds s = (vs, s')"
    and "fits64 (view s k)" and "fits64 (view s k + int (length ds))"
  shows "vs = map (\<lambda>i. view s k + 1 + int i) [0..<length vs]
    \<and> view s' k = view s k + int (length vs)"
  using accepted_run [OF assms] by simp

theorem accepted_consecutive_witness:
  "fst (accepted map_store (''t'', ''a'') (map (Pair (''t'', ''a'')) [1, 1, 3, 2, 2, 3]) (\<lambda>_. 0)) = [1, 2, 3]"
proof -
  obtain vs s' where a: "accepted map_store (''t'', ''a'') (map (Pair (''t'', ''a'')) [1, 1, 3, 2, 2, 3])
      (\<lambda>_. 0) = (vs, s')" by fastforce
  have "length vs = 3"
    using a by (auto simp: map_store_def CheckAndAdvance_def ValidateAggregateVersion_def fits64_def)
  with accepted_consecutive [OF map_store_ok a] a show ?thesis
    by (simp add: fits64_def eval_nat_numeral)
qed

text \<open>
  Envelope round trip: an envelope \<^verbatim>\<open>ToMessage\<close> accepts travels under the partition key of its
  tenant and aggregate, and \<^verbatim>\<open>EventEnvelopeFromMessage\<close> gives it back unchanged, whatever the
  iteration orders of the two validations, when JSON decoding inverts the encoding of it.
\<close>

lemma envelope_roundtrip:
  assumes "ToMessage J p e = Inr m" and "map_order p" and "map_order q"
    and "\<And>d. marshal_envelope J e = Inr d \<Longrightarrow> d \<noteq> [] \<and> unmarshal_envelope J d = Inr e"
  shows "EventEnvelopeFromMessage J q (Some m) = Inr e
    \<and> msg_Key m = PartitionKey (ee_TenantID e) (ee_AggregateID e)"
proof -
  obtain d where v: "envelope_Validate p e = None" and d: "marshal_envelope J e = Inr d"
    and m: "msg_Value m = d" "msg_Key m = ee_PartitionKey e"
    using assms(1) by (auto simp: ToMessage_def Serialize_def split: sum.splits option.splits)
  have "envelope_Validate q e = None" using v envelope_Validate_order assms(2,3) by blast
  then show ?thesis
    using m assms(4) [OF d] envelope_Validate_key [OF v assms(2)]
    by (simp add: EventEnvelopeFromMessage_def DeserializeEventEnvelope_def EnsurePartitionKey_def)
qed

end
