(* ===== verification/Transactions.thy ===== *)
theory Transactions
  imports Errors
begin

text \<open>
  Transaction boundaries.  \<^verbatim>\<open>WithTransaction\<close> of the relational adapters
  (\<^verbatim>\<open>pkg/persistence/relational/postgres/adapter.go\<close>, \<^verbatim>\<open>.../mysql/adapter.go\<close>) drives a
  \<^verbatim>\<open>database/sql\<close> transaction; the inbox, outbox and idempotency packages rely on it through a
  \<^verbatim>\<open>TxExecutor\<close> interface.  That interface is the locale \<open>tx_executor\<close>: what a call that succeeds
  and what a call that fails leave behind.  Both adapters provide it over any engine that keeps
  the contract of \<^verbatim>\<open>database/sql\<close>, which is the locale \<open>sql_contract\<close>.
\<close>

section \<open>Callbacks\<close>

text \<open>How a callback ends: with a value, with an error, or with a panic.\<close>

datatype 'v outcome = Ok 'v | Err err | Panic string

text \<open>
  A callback runs on the state of the store and leaves a new one.  The variables of the enclosing
  function that the callbacks of the sources set are read only after a nil error, so they are the
  value of \<open>Ok\<close>.
\<close>

type_synonym ('v, 's) callback = "'s \<Rightarrow> 'v outcome \<times> 's"

section \<open>\<^verbatim>\<open>database/sql\<close>\<close>

text \<open>
  The engine: \<open>tx_begin\<close> is the error of \<^verbatim>\<open>BeginTx\<close>; \<open>tx_commit\<close> and \<open>tx_rollback\<close> take the state
  at the start and the one the transaction worked on, and give the error and the state that is
  visible afterwards.
\<close>

record 's sql_engine =
  tx_begin :: "'s \<Rightarrow> err option"
  tx_commit :: "'s \<Rightarrow> 's \<Rightarrow> err option \<times> 's"
  tx_rollback :: "'s \<Rightarrow> 's \<Rightarrow> err option \<times> 's"

definition sql_ok :: "'s sql_engine \<Rightarrow> bool" where
  "sql_ok E \<longleftrightarrow>
     (\<forall>b w s. tx_commit E b w = (None, s) \<longrightarrow> s = w) \<and>
     (\<forall>b w e s. tx_commit E b w = (Some e, s) \<longrightarrow> s = b) \<and>
     (\<forall>b w e s. tx_rollback E b w = (e, s) \<longrightarrow> s = b)"

section \<open>\<^verbatim>\<open>WithTransaction\<close> of the adapters\<close>

definition postgres_WithTransaction ::
  "'s sql_engine \<Rightarrow> ('v, 's) callback \<Rightarrow> ('v, 's) callback" where
  "postgres_WithTransaction E fn db =
     (case tx_begin E db of
        Some e \<Rightarrow> (Err (EWrap ''failed to begin transaction: '' e []), db)
      | None \<Rightarrow>
          (case fn db of
             (Panic p, w) \<Rightarrow> (Panic p, snd (tx_rollback E db w))
           | (Err e, w) \<Rightarrow>
               (case tx_rollback E db w of
                  (Some rb, db') \<Rightarrow>
                    (Err (EJoin [e, EWrap ''failed to rollback transaction: '' rb []]), db')
                | (None, db') \<Rightarrow> (Err e, db'))
           | (Ok v, w) \<Rightarrow>
               (case tx_commit E db w of
                  (Some c, db') \<Rightarrow> (Err (EWrap ''failed to commit transaction: '' c []), db')
                | (None, db') \<Rightarrow> (Ok v, db'))))"

text \<open>The MySQL adapter differs in what it logs only.\<close>

definition mysql_WithTransaction ::
  "'s sql_engine \<Rightarrow> ('v, 's) callback \<Rightarrow> ('v, 's) callback" where
  "mysql_WithTransaction E fn db =
     (case tx_begin E db of
        Some e \<Rightarrow> (Err (EWrap ''failed to begin transaction: '' e []), db)
      | None \<Rightarrow>
          (let (r, w) = fn db in
           case r of
             Panic p \<Rightarrow> (let (_, db') = tx_rollback E db w in (Panic p, db'))
           | Err e \<Rightarrow>
               (let (rb, db') = tx_rollback E db w in
                (Err (case rb of None \<Rightarrow> e
                      | Some f \<Rightarrow> EJoin [e, EWrap ''failed to rollback transaction: '' f []]), db'))
           | Ok v \<Rightarrow>
               (let (c, db') = tx_commit E db w in
                (case c of None \<Rightarrow> Ok v
                 | Some f \<Rightarrow> Err (EWrap ''failed to commit transaction: '' f []), db'))))"

section \<open>The interface\<close>

locale tx_executor =
  fixes run :: "('v, 's) callback \<Rightarrow> ('v, 's) callback"
  assumes committed: "run fn s = (Ok v, s') \<Longrightarrow> fn s = (Ok v, s')"
    and aborted: "run fn s = (r, s') \<Longrightarrow> (\<forall>v. r \<noteq> Ok v) \<Longrightarrow> s' = s"
begin

text \<open>A transaction is all or nothing.\<close>

lemma all_or_nothing: "snd (run fn s) = s \<or> (\<exists>v. fn s = (Ok v, snd (run fn s)) \<and> fst (run fn s) = Ok v)"
proof (cases "run fn s")
  case (Pair r s')
  show ?thesis
  proof (cases r)
    case (Ok v)
    with Pair committed [of fn s v s'] show ?thesis by simp
  qed (use Pair aborted in auto)
qed

lemma invariant:
  assumes "I s" and "\<And>v s'. fn s = (Ok v, s') \<Longrightarrow> I s'"
  shows "I (snd (run fn s))"
  using all_or_nothing [of fn s] assms by auto

end

locale sql_contract =
  fixes E :: "'s sql_engine"
  assumes ok: "sql_ok E"
begin

lemma commit_cases:
  "tx_commit E b w = (c, s) \<Longrightarrow> s = (if c = None then w else b)"
  using ok by (cases c) (auto simp: sql_ok_def)

lemma rollback_state: "tx_rollback E b w = (c, s) \<Longrightarrow> s = b" "snd (tx_rollback E b w) = b"
  using ok by (auto simp: sql_ok_def) (metis prod.collapse)

lemma postgres_executor: "tx_executor (postgres_WithTransaction E)"
proof
  show "postgres_WithTransaction E fn s = (Ok v, s') \<Longrightarrow> fn s = (Ok v, s')"
    for fn :: "('v, 's) callback" and s v s'
    by (auto simp: postgres_WithTransaction_def dest: commit_cases
        split: option.splits prod.splits outcome.splits)
  show "postgres_WithTransaction E fn s = (r, s') \<Longrightarrow> \<forall>v. r \<noteq> Ok v \<Longrightarrow> s' = s"
    for fn :: "('v, 's) callback" and s r s'
    by (auto simp: postgres_WithTransaction_def rollback_state(2)
        dest: commit_cases rollback_state(1)
        split: option.splits prod.splits outcome.splits)
qed

lemma mysql_executor: "tx_executor (mysql_WithTransaction E)"
proof
  show "mysql_WithTransaction E fn s = (Ok v, s') \<Longrightarrow> fn s = (Ok v, s')"
    for fn :: "('v, 's) callback" and s v s'
    by (auto simp: mysql_WithTransaction_def Let_def dest: commit_cases
        split: option.splits prod.splits outcome.splits)
  show "mysql_WithTransaction E fn s = (r, s') \<Longrightarrow> \<forall>v. r \<noteq> Ok v \<Longrightarrow> s' = s"
    for fn :: "('v, 's) callback" and s r s'
    by (auto simp: mysql_WithTransaction_def Let_def dest: commit_cases rollback_state(1)
        split: option.splits prod.splits outcome.splits)
qed

end

sublocale sql_contract \<subseteq> pg: tx_executor "postgres_WithTransaction E"
  by (rule postgres_executor)

sublocale sql_contract \<subseteq> my: tx_executor "mysql_WithTransaction E"
  by (rule mysql_executor)

lemma tx_executors:
  assumes "sql_ok E"
  shows "tx_executor (postgres_WithTransaction E)" and "tx_executor (mysql_WithTransaction E)"
  using assms by (simp_all add: sql_contract.postgres_executor sql_contract.mysql_executor
      sql_contract.intro)

text \<open>An engine that keeps the contract: every step succeeds.\<close>

definition snapshot_engine :: "'s sql_engine" where
  "snapshot_engine = \<lparr>tx_begin = (\<lambda>_. None), tx_commit = (\<lambda>b w. (None, w)),
     tx_rollback = (\<lambda>b w. (None, b))\<rparr>"

interpretation snapshot: sql_contract snapshot_engine
  by unfold_locales (simp add: sql_ok_def snapshot_engine_def)

end
