(* ===== verification/Once.thy ===== *)
theory Once
  imports Transactions
begin

text \<open>
  Executing once: \<^verbatim>\<open>pkg/reliability/idempotency\<close>, \<^verbatim>\<open>pkg/reliability/inbox\<close> and
  \<^verbatim>\<open>pkg/reliability/dedup\<close>.  The stores are the application's: a record of their operations, with
  what the packages rely on as a predicate over a view of the state, the set of keys marked.  The
  three packages give their callers one contract, the locale \<open>once_guard\<close>; that a key is acted on
  at most once over any sequence of calls is proved there and interpreted on each of them.
\<close>

section \<open>Idempotency keys\<close>

record 's idem_store =
  IsProcessed :: "string \<Rightarrow> string \<Rightarrow> 's \<Rightarrow> bool result"
  MarkProcessed :: "string \<Rightarrow> string \<Rightarrow> gotime \<Rightarrow> 's \<Rightarrow> err option \<times> 's"
  CleanupProcessedBefore :: "gotime \<Rightarrow> int \<Rightarrow> 's \<Rightarrow> int result \<times> 's"

type_synonym 's handler = "(unit, 's) callback"

text \<open>
  \<^verbatim>\<open>Guard.ExecuteOnce\<close>: \<open>g\<close> is the guard's store, \<open>None\<close> for a nil guard or store; a store that
  implements \<^verbatim>\<open>AtomicStore\<close> comes with its \<^verbatim>\<open>ExecuteAtomically\<close>.
\<close>

type_synonym 's atomic_exec = "string \<Rightarrow> string \<Rightarrow> 's handler \<Rightarrow> (bool, 's) callback"

definition ExecuteOnce ::
  "'s atomic_exec option option \<Rightarrow> string \<Rightarrow> string \<Rightarrow> 's handler option \<Rightarrow> (bool, 's) callback" where
  "ExecuteOnce g scope key handler s =
     (case g of
        None \<Rightarrow> (Err (ENew ''idempotency guard is not initialized''), s)
      | Some store \<Rightarrow>
          (if scope = [] then (Err (ENew ''scope is required''), s)
           else if key = [] then (Err (ENew ''key is required''), s)
           else case handler of
             None \<Rightarrow> (Err (ENew ''handler is required''), s)
           | Some h \<Rightarrow>
               (case store of
                  None \<Rightarrow> (Err (ESentinel ErrAtomicExecutionRequired), s)
                | Some execute \<Rightarrow> execute scope key h s)))"

definition once_body ::
  "'s idem_store \<Rightarrow> string \<Rightarrow> string \<Rightarrow> 's handler \<Rightarrow> gotime \<Rightarrow> (bool, 's) callback" where
  "once_body S scope key handler now s =
     (case IsProcessed S scope key s of
        Inl e \<Rightarrow> (Err (EWrap ''check processed key failed: '' e []), s)
      | Inr True \<Rightarrow> (Ok False, s)
      | Inr False \<Rightarrow>
          (case handler s of
             (Panic p, s') \<Rightarrow> (Panic p, s')
           | (Err e, s') \<Rightarrow> (Err e, s')
           | (Ok _, s') \<Rightarrow>
               (case MarkProcessed S scope key now s' of
                  (Some e, s'') \<Rightarrow> (Err (EWrap ''mark processed key failed: '' e []), s'')
                | (None, s'') \<Rightarrow> (Ok True, s''))))"

definition ExecuteOnceTransactional ::
  "((bool, 's) callback \<Rightarrow> (bool, 's) callback) option \<Rightarrow> 's idem_store \<Rightarrow> string \<Rightarrow> string
    \<Rightarrow> 's handler option \<Rightarrow> gotime \<Rightarrow> (bool, 's) callback" where
  "ExecuteOnceTransactional executor S scope key handler now s =
     (case executor of
        None \<Rightarrow> (Err (ENew ''transaction executor is required''), s)
      | Some run \<Rightarrow>
          (if scope = [] then (Err (ENew ''scope is required''), s)
           else if key = [] then (Err (ENew ''key is required''), s)
           else case handler of
             None \<Rightarrow> (Err (ENew ''handler is required''), s)
           | Some h \<Rightarrow> run (once_body S scope key h now) s))"

text \<open>The cleaner; a list of what its \<^verbatim>\<open>select\<close> receives, in order.\<close>

datatype wake = Tick gotime | Done err

record cleaner_config =
  cc_CleanupEvery :: duration
  cc_Retention :: duration
  cc_BatchSize :: int

definition cleaner_normalize :: "cleaner_config \<Rightarrow> cleaner_config" where
  "cleaner_normalize c =
     \<lparr>cc_CleanupEvery = pos_or (cc_CleanupEvery c) hour,
      cc_Retention = pos_or (cc_Retention c) (30 * 24 * hour),
      cc_BatchSize = pos_or (cc_BatchSize c) 1000\<rparr>"

fun cleaner_Run :: "'s idem_store \<Rightarrow> cleaner_config \<Rightarrow> wake list \<Rightarrow> 's \<Rightarrow> err option \<times> 's" where
  "cleaner_Run S c [] s = (None, s)"
| "cleaner_Run S c (Done e # ws) s = (Some e, s)"
| "cleaner_Run S c (Tick now # ws) s =
     (case CleanupProcessedBefore S (now - cc_Retention c) (cc_BatchSize c) s of
        (Inl e, s') \<Rightarrow> (Some (EWrap ''cleanup processed keys failed: '' e []), s')
      | (Inr _, s') \<Rightarrow> cleaner_Run S c ws s')"

section \<open>Inbox\<close>

record inbox_entry =
  ie_ConsumerName :: string
  ie_MessageID :: string
  ie_ReceivedAt :: gotime
  ie_HandledAt :: "gotime option"
  ie_Status :: string

definition inbox_Validate :: "inbox_entry option \<Rightarrow> err option" where
  "inbox_Validate eo =
     (case eo of
        None \<Rightarrow> Some (ENew ''inbox entry is nil'')
      | Some e \<Rightarrow>
          (if ie_ConsumerName e = [] then Some (ENew ''inbox consumer name is required'')
           else if ie_MessageID e = [] then Some (ENew ''inbox message id is required'')
           else if ie_Status e \<in> {[], ''received'', ''handled''} then None
           else Some (ENew (''unsupported inbox status '' @ quoted (ie_Status e)))))"

record 's inbox_writer =
  InsertReceived :: "inbox_entry \<Rightarrow> 's \<Rightarrow> err option \<times> 's"
  MarkHandled :: "string \<Rightarrow> string \<Rightarrow> gotime \<Rightarrow> 's \<Rightarrow> err option \<times> 's"
  IsHandled :: "string \<Rightarrow> string \<Rightarrow> 's \<Rightarrow> bool result"

definition inbox_body ::
  "'s inbox_writer \<Rightarrow> inbox_entry \<Rightarrow> 's handler \<Rightarrow> gotime \<Rightarrow> gotime \<Rightarrow> (bool, 's) callback" where
  "inbox_body W e handler t1 t2 s =
     (case IsHandled W (ie_ConsumerName e) (ie_MessageID e) s of
        Inl x \<Rightarrow> (Err (EWrap ''check inbox state failed: '' x []), s)
      | Inr True \<Rightarrow> (Ok False, s)
      | Inr False \<Rightarrow>
          (let c = (if ie_Status e = [] then e\<lparr>ie_Status := ''received''\<rparr> else e);
               c' = (if ie_ReceivedAt c = 0 then c\<lparr>ie_ReceivedAt := t1\<rparr> else c)
           in case InsertReceived W c' s of
                (Some x, s1) \<Rightarrow> (Err (EWrap ''record inbox receipt failed: '' x []), s1)
              | (None, s1) \<Rightarrow>
                  (case handler s1 of
                     (Panic p, s2) \<Rightarrow> (Panic p, s2)
                   | (Err x, s2) \<Rightarrow> (Err x, s2)
                   | (Ok _, s2) \<Rightarrow>
                       (case MarkHandled W (ie_ConsumerName e) (ie_MessageID e) t2 s2 of
                          (Some x, s3) \<Rightarrow> (Err (EWrap ''mark inbox handled failed: '' x []), s3)
                        | (None, s3) \<Rightarrow> (Ok True, s3)))))"

definition inbox_ExecuteTransactional ::
  "((bool, 's) callback \<Rightarrow> (bool, 's) callback) option \<Rightarrow> 's inbox_writer \<Rightarrow> inbox_entry option
    \<Rightarrow> 's handler option \<Rightarrow> gotime \<Rightarrow> gotime \<Rightarrow> (bool, 's) callback" where
  "inbox_ExecuteTransactional executor W eo handler t1 t2 s =
     (case executor of
        None \<Rightarrow> (Err (ENew ''transaction executor is required''), s)
      | Some run \<Rightarrow>
          (case eo of
             None \<Rightarrow> (Err (ENew ''inbox entry is required''), s)
           | Some e \<Rightarrow>
               (case inbox_Validate (Some e) of
                  Some x \<Rightarrow> (Err x, s)
                | None \<Rightarrow>
                    (case handler of
                       None \<Rightarrow> (Err (ENew ''handler is required''), s)
                     | Some h \<Rightarrow> run (inbox_body W e h t1 t2) s))))"

section \<open>Deduplication\<close>

record 's dedup_store =
  IsDuplicate :: "string \<Rightarrow> string \<Rightarrow> 's \<Rightarrow> bool result"
  MarkSeen :: "string \<Rightarrow> string \<Rightarrow> gotime \<Rightarrow> gotime \<Rightarrow> 's \<Rightarrow> err option \<times> 's"
  CleanupExpiredBefore :: "gotime \<Rightarrow> int \<Rightarrow> 's \<Rightarrow> int result \<times> 's"

definition CheckAndMark ::
  "'s dedup_store option \<Rightarrow> string \<Rightarrow> string \<Rightarrow> duration \<Rightarrow> gotime \<Rightarrow> 's \<Rightarrow> bool result \<times> 's" where
  "CheckAndMark d scope key retention0 now s =
     (case d of
        None \<Rightarrow> (Inl (ENew ''deduplicator is not initialized''), s)
      | Some S \<Rightarrow>
          (if scope = [] then (Inl (ENew ''scope is required''), s)
           else if key = [] then (Inl (ENew ''key is required''), s)
           else
             (let retention = pos_or retention0 (24 * hour) in
              case IsDuplicate S scope key s of
                Inl e \<Rightarrow> (Inl (EWrap ''check duplicate failed: '' e []), s)
              | Inr True \<Rightarrow> (Inr True, s)
              | Inr False \<Rightarrow>
                  (case MarkSeen S scope key now (now + retention) s of
                     (Some e, s') \<Rightarrow> (Inl (EWrap ''mark seen failed: '' e []), s')
                   | (None, s') \<Rightarrow> (Inr False, s')))))"

fun dedup_cleaner_Run :: "'s dedup_store \<Rightarrow> int \<Rightarrow> wake list \<Rightarrow> 's \<Rightarrow> err option \<times> 's" where
  "dedup_cleaner_Run S batch [] s = (None, s)"
| "dedup_cleaner_Run S batch (Done e # ws) s = (Some e, s)"
| "dedup_cleaner_Run S batch (Tick now # ws) s =
     (case CleanupExpiredBefore S now batch s of
        (Inl e, s') \<Rightarrow> (Some (EWrap ''cleanup expired dedup markers failed: '' e []), s')
      | (Inr _, s') \<Rightarrow> dedup_cleaner_Run S batch ws s')"

section \<open>What the stores promise\<close>

definition idem_store_ok :: "'s idem_store \<Rightarrow> ('s \<Rightarrow> (string \<times> string) set) \<Rightarrow> bool" where
  "idem_store_ok S view \<longleftrightarrow>
     (\<forall>sc k s b. IsProcessed S sc k s = Inr b \<longrightarrow> b = ((sc, k) \<in> view s)) \<and>
     (\<forall>sc k t s s'. MarkProcessed S sc k t s = (None, s') \<longrightarrow> view s' = insert (sc, k) (view s))"

definition inbox_writer_ok :: "'s inbox_writer \<Rightarrow> ('s \<Rightarrow> (string \<times> string) set) \<Rightarrow> bool" where
  "inbox_writer_ok W view \<longleftrightarrow>
     (\<forall>c m s b. IsHandled W c m s = Inr b \<longrightarrow> b = ((c, m) \<in> view s)) \<and>
     (\<forall>e s s'. InsertReceived W e s = (None, s') \<longrightarrow> view s' = view s) \<and>
     (\<forall>c m t s s'. MarkHandled W c m t s = (None, s') \<longrightarrow> view s' = insert (c, m) (view s))"

definition dedup_store_ok :: "'s dedup_store \<Rightarrow> ('s \<Rightarrow> (string \<times> string) set) \<Rightarrow> bool" where
  "dedup_store_ok S view \<longleftrightarrow>
     (\<forall>sc k s b. IsDuplicate S sc k s = Inr b \<longrightarrow> b = ((sc, k) \<in> view s)) \<and>
     (\<forall>sc k t u s s'. MarkSeen S sc k t u s = (None, s') \<longrightarrow> view s' = insert (sc, k) (view s)) \<and>
     (\<forall>sc k t u s e s'. MarkSeen S sc k t u s = (Some e, s') \<longrightarrow> view s' = view s)"

text \<open>A handler works on the application's tables and leaves the marks alone.\<close>

definition keeps_marks :: "('s \<Rightarrow> 'k set) \<Rightarrow> 's handler \<Rightarrow> bool" where
  "keeps_marks view h \<longleftrightarrow> (\<forall>s r s'. h s = (r, s') \<longrightarrow> view s' = view s)"

section \<open>Sequences of calls\<close>

fun calls :: "('d \<Rightarrow> 's \<Rightarrow> 'r \<times> 's) \<Rightarrow> 'd list \<Rightarrow> 's \<Rightarrow> 'r list \<times> 's" where
  "calls exec [] s = ([], s)"
| "calls exec (d # ds) s =
     (let (r, s1) = exec d s; (rs, s2) = calls exec ds s1 in (r # rs, s2))"

text \<open>The keys of the calls that acted, in order.\<close>

definition acted_keys :: "('r \<Rightarrow> bool) \<Rightarrow> ('d \<Rightarrow> 'k) \<Rightarrow> 'd list \<Rightarrow> 'r list \<Rightarrow> 'k list" where
  "acted_keys acted key ds rs = map (\<lambda>(d, r). key d) (filter (\<lambda>(d, r). acted r) (zip ds rs))"

lemma acted_keys_simps [simp]:
  "acted_keys acted key [] rs = []"
  "acted_keys acted key (d # ds) (r # rs) =
     (if acted r then key d # acted_keys acted key ds rs else acted_keys acted key ds rs)"
  by (simp_all add: acted_keys_def)

section \<open>The contract\<close>

locale once_guard =
  fixes exec :: "'d \<Rightarrow> 's \<Rightarrow> 'r \<times> 's" and acted :: "'r \<Rightarrow> bool" and key :: "'d \<Rightarrow> 'k"
    and view :: "'s \<Rightarrow> 'k set" and ok :: "'d \<Rightarrow> bool"
  assumes acts: "ok d \<Longrightarrow> exec d s = (r, s') \<Longrightarrow> acted r \<Longrightarrow>
      key d \<notin> view s \<and> view s' = insert (key d) (view s)"
    and idle: "ok d \<Longrightarrow> exec d s = (r, s') \<Longrightarrow> \<not> acted r \<Longrightarrow> view s' = view s"
begin

lemma at_most_once:
  assumes "calls exec ds s = (rs, s')" and "\<forall>d \<in> set ds. ok d"
  shows "distinct (acted_keys acted key ds rs)
    \<and> set (acted_keys acted key ds rs) \<inter> view s = {}
    \<and> view s' = view s \<union> set (acted_keys acted key ds rs)"
  using assms
proof (induction ds arbitrary: s rs)
  case (Cons d ds)
  obtain r s1 where d: "exec d s = (r, s1)" by fastforce
  obtain qs where rec: "calls exec ds s1 = (qs, s')" and rs: "rs = r # qs"
    using Cons.prems(1) d by (auto simp: Let_def split: prod.splits)
  have ih: "distinct (acted_keys acted key ds qs) \<and> set (acted_keys acted key ds qs) \<inter> view s1 = {}
      \<and> view s' = view s1 \<union> set (acted_keys acted key ds qs)"
    using Cons.IH [OF rec] Cons.prems(2) by simp
  show ?case
  proof (cases "acted r")
    case True
    with acts [OF _ d] Cons.prems(2) have "key d \<notin> view s" "view s1 = insert (key d) (view s)"
      by auto
    with True ih rs show ?thesis by auto
  next
    case False
    with idle [OF _ d] Cons.prems(2) have "view s1 = view s" by auto
    with False ih rs show ?thesis by simp
  qed
qed simp

end

section \<open>The three guards\<close>

type_synonym 's delivery = "(string \<times> string) \<times> 's handler \<times> gotime \<times> gotime"

definition idem_exec ::
  "((bool, 's) callback \<Rightarrow> (bool, 's) callback) \<Rightarrow> 's idem_store \<Rightarrow> 's delivery \<Rightarrow> (bool, 's) callback" where
  "idem_exec run S d = (case d of ((scope, k), h, t1, t2) \<Rightarrow>
     ExecuteOnceTransactional (Some run) S scope k (Some h) t1)"

definition inbox_exec ::
  "((bool, 's) callback \<Rightarrow> (bool, 's) callback) \<Rightarrow> 's inbox_writer \<Rightarrow> 's delivery \<Rightarrow> (bool, 's) callback" where
  "inbox_exec run W d = (case d of ((c, m), h, t1, t2) \<Rightarrow>
     inbox_ExecuteTransactional (Some run) W
       (Some \<lparr>ie_ConsumerName = c, ie_MessageID = m, ie_ReceivedAt = 0, ie_HandledAt = None,
         ie_Status = []\<rparr>) (Some h) t1 t2)"

abbreviation delivery_ok :: "('s \<Rightarrow> (string \<times> string) set) \<Rightarrow> 's delivery \<Rightarrow> bool" where
  "delivery_ok view d \<equiv> keeps_marks view (fst (snd d))"

lemma once_body_Ok:
  assumes "idem_store_ok S view" and "keeps_marks view h" and "once_body S sc k h t s = (Ok b, s')"
  shows "(b = True \<longrightarrow> (sc, k) \<notin> view s \<and> view s' = insert (sc, k) (view s)) \<and> (b \<noteq> True \<longrightarrow> s' = s)"
  using assms
  by (auto simp: once_body_def idem_store_ok_def keeps_marks_def
      split: sum.splits bool.splits prod.splits outcome.splits option.splits)

lemma inbox_body_Ok:
  assumes "inbox_writer_ok W view" and "keeps_marks view h" and "inbox_body W e h t1 t2 s = (Ok b, s')"
  shows "(b = True \<longrightarrow> (ie_ConsumerName e, ie_MessageID e) \<notin> view s
      \<and> view s' = insert (ie_ConsumerName e, ie_MessageID e) (view s)) \<and> (b \<noteq> True \<longrightarrow> s' = s)"
proof -
  have m: "view s'' = view s'" if "h s' = (r, s'')" for r s' s''
    using assms(2) that by (auto simp: keeps_marks_def)
  show ?thesis
    using assms(1,3)
    by (auto simp: inbox_body_def Let_def inbox_writer_ok_def dest!: m
        split: sum.splits bool.splits prod.splits outcome.splits option.splits if_splits)
qed

context tx_executor
begin

text \<open>A body that marks the key exactly when it acts gives, in a transaction, a guard.\<close>

lemma tx_guard:
  assumes "run fn s = (r, s')" and "\<And>b s'. fn s = (Ok b, s') \<Longrightarrow>
      (b = t \<longrightarrow> k \<notin> view s \<and> view s' = insert k (view s)) \<and> (b \<noteq> t \<longrightarrow> s' = s)"
  shows "if r = Ok t then k \<notin> view s \<and> view s' = insert k (view s) else s' = s"
proof (cases r)
  case (Ok v)
  with assms(1) committed have "fn s = (Ok v, s')" by simp
  from assms(2) [OF this] Ok show ?thesis by simp
qed (use assms(1) aborted in auto)

end

lemma idem_exec_step:
  assumes "tx_executor run" and "idem_store_ok S view" and "delivery_ok view d"
    and "idem_exec run S d s = (r, s')"
  shows "if r = Ok True then fst d \<notin> view s \<and> view s' = insert (fst d) (view s) else s' = s"
proof -
  obtain sc k h t1 t2 where d: "d = ((sc, k), h, t1, t2)" by (metis surj_pair)
  show ?thesis
  proof (cases "sc = [] \<or> k = []")
    case True
    with assms(4) d show ?thesis
      by (auto simp: idem_exec_def ExecuteOnceTransactional_def split: if_splits)
  next
    case False
    with assms(4) d have "run (once_body S sc k h t1) s = (r, s')"
      by (simp add: idem_exec_def ExecuteOnceTransactional_def)
    then show ?thesis
      using tx_executor.tx_guard [OF assms(1) _ once_body_Ok [OF assms(2)]]
        assms(3) d by fastforce
  qed
qed

lemma inbox_exec_step:
  assumes "tx_executor run" and "inbox_writer_ok W view" and "delivery_ok view d"
    and "inbox_exec run W d s = (r, s')"
  shows "if r = Ok True then fst d \<notin> view s \<and> view s' = insert (fst d) (view s) else s' = s"
proof -
  obtain c m h t1 t2 where d: "d = ((c, m), h, t1, t2)" by (metis surj_pair)
  let ?e = "\<lparr>ie_ConsumerName = c, ie_MessageID = m, ie_ReceivedAt = 0, ie_HandledAt = None,
      ie_Status = []\<rparr>"
  show ?thesis
  proof (cases "inbox_Validate (Some ?e)")
    case (Some x)
    with assms(4) d show ?thesis
      by (auto simp: inbox_exec_def inbox_ExecuteTransactional_def)
  next
    case None
    with assms(4) d have "run (inbox_body W ?e h t1 t2) s = (r, s')"
      by (simp add: inbox_exec_def inbox_ExecuteTransactional_def)
    then show ?thesis
      using tx_executor.tx_guard [OF assms(1) _ inbox_body_Ok [OF assms(2), of h ?e t1 t2]]
        assms(3) d by fastforce
  qed
qed

definition dedup_exec ::
  "'s dedup_store \<Rightarrow> (string \<times> string) \<times> duration \<times> gotime \<Rightarrow> 's \<Rightarrow> bool result \<times> 's" where
  "dedup_exec S d = (case d of ((scope, k), retention, now) \<Rightarrow> CheckAndMark (Some S) scope k retention now)"

lemma dedup_exec_step:
  assumes "dedup_store_ok S view" and "dedup_exec S d s = (r, s')"
  shows "if r = Inr False then fst d \<notin> view s \<and> view s' = insert (fst d) (view s)
         else view s' = view s"
  using assms
  by (auto simp: dedup_exec_def CheckAndMark_def dedup_store_ok_def Let_def
      split: prod.splits if_splits sum.splits bool.splits option.splits)

lemma idem_guard:
  assumes "tx_executor run" and "idem_store_ok S view"
  shows "once_guard (idem_exec run S) (\<lambda>r. r = Ok True) fst view (delivery_ok view)"
  by unfold_locales (use idem_exec_step [OF assms] in \<open>fastforce+\<close>)

lemma inbox_guard:
  assumes "tx_executor run" and "inbox_writer_ok W view"
  shows "once_guard (inbox_exec run W) (\<lambda>r. r = Ok True) fst view (delivery_ok view)"
  by unfold_locales (use inbox_exec_step [OF assms] in \<open>fastforce+\<close>)

lemma dedup_guard:
  assumes "dedup_store_ok S view"
  shows "once_guard (dedup_exec S) (\<lambda>r. r = Inr False) fst view (\<lambda>_. True)"
  by unfold_locales (use dedup_exec_step [OF assms] in \<open>fastforce+\<close>)

section \<open>Interpretation on tables\<close>

text \<open>
  Stores whose state is the set of marked keys beside the application's data, and a handler that
  works on that data only.
\<close>

definition table_idem_store :: "((string \<times> string) set \<times> 'b) idem_store" where
  "table_idem_store =
     \<lparr>IsProcessed = (\<lambda>sc k s. Inr ((sc, k) \<in> fst s)),
      MarkProcessed = (\<lambda>sc k t s. (None, (insert (sc, k) (fst s), snd s))),
      CleanupProcessedBefore = (\<lambda>t n s. (Inr 0, s))\<rparr>"

definition table_inbox_writer :: "((string \<times> string) set \<times> 'b) inbox_writer" where
  "table_inbox_writer =
     \<lparr>InsertReceived = (\<lambda>e s. (None, s)),
      MarkHandled = (\<lambda>c m t s. (None, (insert (c, m) (fst s), snd s))),
      IsHandled = (\<lambda>c m s. Inr ((c, m) \<in> fst s))\<rparr>"

definition table_dedup_store :: "((string \<times> string) set) dedup_store" where
  "table_dedup_store =
     \<lparr>IsDuplicate = (\<lambda>sc k s. Inr ((sc, k) \<in> s)),
      MarkSeen = (\<lambda>sc k t u s. (None, insert (sc, k) s)),
      CleanupExpiredBefore = (\<lambda>t n s. (Inr 0, s))\<rparr>"

definition data_handler :: "('b \<Rightarrow> unit outcome \<times> 'b) \<Rightarrow> ('k set \<times> 'b) handler" where
  "data_handler f s = (case f (snd s) of (r, b) \<Rightarrow> (r, (fst s, b)))"

lemma data_handler_keeps [simp]: "keeps_marks fst (data_handler f)"
  by (auto simp: keeps_marks_def data_handler_def split: prod.splits)

lemma table_stores_ok:
  "idem_store_ok table_idem_store fst" "inbox_writer_ok table_inbox_writer fst"
  "dedup_store_ok table_dedup_store id"
  by (simp_all add: idem_store_ok_def inbox_writer_ok_def dedup_store_ok_def table_idem_store_def
      table_inbox_writer_def table_dedup_store_def)

interpretation idem_table: once_guard
  "idem_exec (postgres_WithTransaction snapshot_engine) table_idem_store" "\<lambda>r. r = Ok True" fst fst
  "delivery_ok fst"
  by (intro idem_guard snapshot.postgres_executor table_stores_ok)

interpretation inbox_table: once_guard
  "inbox_exec (postgres_WithTransaction snapshot_engine) table_inbox_writer" "\<lambda>r. r = Ok True" fst fst
  "delivery_ok fst"
  by (intro inbox_guard snapshot.postgres_executor table_stores_ok)

interpretation dedup_table: once_guard
  "dedup_exec table_dedup_store" "\<lambda>r. r = Inr False" fst id "\<lambda>_. True"
  by (intro dedup_guard table_stores_ok)

section \<open>Properties\<close>

text \<open>
  C5. Over any sequence of calls of \<^verbatim>\<open>ExecuteOnceTransactional\<close> in transactions of the PostgreSQL or
  MySQL adapter, failures and panics of handlers, of the store and of the database included, each
  scope and key is executed and committed at most once, never when it was processed before, and
  the keys processed at the end are those at the start and the executed ones; a call that does not
  report an execution leaves the database as it was.
\<close>

theorem ExecuteOnceTransactional_at_most_once:
  assumes "sql_ok E" and "run = postgres_WithTransaction E \<or> run = mysql_WithTransaction E"
    and "idem_store_ok S view" and "\<forall>d \<in> set ds. delivery_ok view d"
    and "calls (idem_exec run S) ds s = (rs, s')" and "ks = acted_keys (\<lambda>r. r = Ok True) fst ds rs"
  shows "distinct ks \<and> set ks \<inter> view s = {} \<and> view s' = view s \<union> set ks
    \<and> (\<forall>d r t t'. delivery_ok view d \<longrightarrow> idem_exec run S d t = (r, t') \<longrightarrow> r \<noteq> Ok True \<longrightarrow> t' = t)"
proof -
  have run: "tx_executor run" using tx_executors [OF assms(1)] assms(2) by auto
  show ?thesis
    using once_guard.at_most_once [OF idem_guard [OF run assms(3)] assms(5,4)] assms(6)
      idem_exec_step [OF run assms(3)] by fastforce
qed

theorem ExecuteOnceTransactional_at_most_once_witness:
  "let d = ((''orders'', ''k1''), data_handler (\<lambda>n. (Ok (), n + 1)), 7, 8)
   in calls (idem_exec (postgres_WithTransaction snapshot_engine) table_idem_store) [d, d] ({}, 0::nat)
        = ([Ok True, Ok False], ({(''orders'', ''k1'')}, 1))
      \<and> distinct (acted_keys (\<lambda>r. r = Ok True) fst [d, d] [Ok True, Ok False])"
proof -
  let ?d = "((''orders'', ''k1''), data_handler (\<lambda>n::nat. (Ok (), n + 1)), 7, 8)"
  have c: "calls (idem_exec (postgres_WithTransaction snapshot_engine) table_idem_store) [?d, ?d] ({}, 0)
      = ([Ok True, Ok False], ({(''orders'', ''k1'')}, 1))"
    by (simp add: idem_exec_def ExecuteOnceTransactional_def postgres_WithTransaction_def
        snapshot_engine_def once_body_def table_idem_store_def data_handler_def)
  show ?thesis
    using ExecuteOnceTransactional_at_most_once [OF snapshot.ok disjI1 [OF refl] table_stores_ok(1) _ c refl] c
    by simp
qed

text \<open>
  C6. The inbox: over any sequence of deliveries handled by \<^verbatim>\<open>ExecuteTransactional\<close> each message of
  a consumer is handled and committed at most once; a delivery that fails or is a duplicate leaves
  the database, the handler's writes and the receipt included, as it was.
\<close>

theorem inbox_at_most_once:
  assumes "sql_ok E" and "run = postgres_WithTransaction E \<or> run = mysql_WithTransaction E"
    and "inbox_writer_ok W view" and "\<forall>d \<in> set ds. delivery_ok view d"
    and "calls (inbox_exec run W) ds s = (rs, s')" and "ks = acted_keys (\<lambda>r. r = Ok True) fst ds rs"
  shows "distinct ks \<and> set ks \<inter> view s = {} \<and> view s' = view s \<union> set ks
    \<and> (\<forall>d r t t'. delivery_ok view d \<longrightarrow> inbox_exec run W d t = (r, t') \<longrightarrow> r \<noteq> Ok True \<longrightarrow> t' = t)"
proof -
  have run: "tx_executor run" using tx_executors [OF assms(1)] assms(2) by auto
  show ?thesis
    using once_guard.at_most_once [OF inbox_guard [OF run assms(3)] assms(5,4)] assms(6)
      inbox_exec_step [OF run assms(3)] by fastforce
qed

theorem inbox_at_most_once_witness:
  "let bad = ((''c'', ''m1''), data_handler (\<lambda>n. (Err (ENew ''boom''), n + 5)), 7, 8);
       d = ((''c'', ''m1''), data_handler (\<lambda>n. (Ok (), n + 1)), 7, 8)
   in calls (inbox_exec (postgres_WithTransaction snapshot_engine) table_inbox_writer) [bad, d, d] ({}, 0::nat)
        = ([Err (ENew ''boom''), Ok True, Ok False], ({(''c'', ''m1'')}, 1))
      \<and> distinct (acted_keys (\<lambda>r. r = Ok True) fst [bad, d, d] [Err (ENew ''boom''), Ok True, Ok False])"
proof -
  let ?b = "((''c'', ''m1''), data_handler (\<lambda>n::nat. (Err (ENew ''boom''), n + 5)), 7, 8)"
  let ?d = "((''c'', ''m1''), data_handler (\<lambda>n::nat. (Ok (), n + 1)), 7, 8)"
  have c: "calls (inbox_exec (postgres_WithTransaction snapshot_engine) table_inbox_writer) [?b, ?d, ?d] ({}, 0)
      = ([Err (ENew ''boom''), Ok True, Ok False], ({(''c'', ''m1'')}, 1))"
    by (simp add: inbox_exec_def inbox_ExecuteTransactional_def postgres_WithTransaction_def
        snapshot_engine_def inbox_body_def inbox_Validate_def table_inbox_writer_def data_handler_def)
  show ?thesis
    using inbox_at_most_once [OF snapshot.ok disjI1 [OF refl] table_stores_ok(2) _ c refl] c
    by simp
qed

text \<open>
  \<^verbatim>\<open>CheckAndMark\<close>, one call after the other: each scope and key is reported new at most once,
  and never when the store held it at the start.
\<close>

lemma CheckAndMark_new_once:
  assumes "dedup_store_ok S view" and "calls (dedup_exec S) ds s = (rs, s')"
    and "ks = acted_keys (\<lambda>r. r = Inr False) fst ds rs"
  shows "distinct ks \<and> set ks \<inter> view s = {} \<and> view s' = view s \<union> set ks"
  using once_guard.at_most_once [OF dedup_guard [OF assms(1)] assms(2)] assms(3) by simp

end
