(* ===== verification/Outbox.thy ===== *)
theory Outbox
  imports Transactions Retry
begin

text \<open>
  \<^verbatim>\<open>pkg/reliability/outbox\<close>: writing an outbox entry with the business change in one transaction,
  and the relay that publishes pending entries.  The store and the broker are parameters: records
  of their operations, with the contract of the \<^verbatim>\<open>outbox\<close> table as the predicate \<open>outbox_store_ok\<close>
  over a view of its rows.  The lemmas show that a committed entry is kept until a publication of
  it has succeeded, whatever fails in between, and compare the relay's backoff with the one of
  theory \<open>Retry\<close>.
\<close>

section \<open>Entries\<close>

record outbox_record =
  or_ID :: string
  or_Key :: string
  or_Payload :: string
  or_Headers :: headers
  or_ContentType :: string

record outbox_entry =
  oe_ID :: string
  oe_Topic :: string
  oe_Record :: "outbox_record option"
  oe_CreatedAt :: gotime
  oe_AvailableAt :: gotime
  oe_Published :: bool
  oe_PublishedAt :: "gotime option"
  oe_RetryCount :: int
  oe_LastError :: string

definition outbox_Validate :: "outbox_entry option \<Rightarrow> err option" where
  "outbox_Validate eo =
     (case eo of
        None \<Rightarrow> Some (ENew ''outbox entry is nil'')
      | Some e \<Rightarrow>
          (if oe_ID e = [] then Some (ENew ''outbox entry id is required'')
           else if oe_Topic e = [] then Some (ENew ''outbox entry topic is required'')
           else case oe_Record e of
             None \<Rightarrow> Some (ENew ''outbox entry record is required'')
           | Some r \<Rightarrow>
               (if or_Payload r = [] then Some (ENew ''outbox entry record payload is required'')
                else None)))"

section \<open>Writing in a transaction\<close>

text \<open>\<^verbatim>\<open>ExecuteTransactional\<close>: \<open>ins\<close> is the \<^verbatim>\<open>Insert\<close> of the writer the executor passes in.\<close>

definition outbox_ExecuteTransactional ::
  "((unit, 's) callback \<Rightarrow> (unit, 's) callback) option \<Rightarrow> (outbox_entry \<Rightarrow> 's \<Rightarrow> err option \<times> 's)
    \<Rightarrow> outbox_entry option \<Rightarrow> (unit, 's) callback option \<Rightarrow> (unit, 's) callback" where
  "outbox_ExecuteTransactional executor ins eo businessFn s =
     (case executor of
        None \<Rightarrow> (Err (ENew ''transaction executor is required''), s)
      | Some run \<Rightarrow>
          (case businessFn of
             None \<Rightarrow> (Err (ENew ''business function is required''), s)
           | Some business \<Rightarrow>
               (case eo of
                  None \<Rightarrow> (Err (ENew ''outbox entry is required''), s)
                | Some e \<Rightarrow>
                    (case outbox_Validate (Some e) of
                       Some x \<Rightarrow> (Err x, s)
                     | None \<Rightarrow>
                         run (\<lambda>s. case business s of
                                (Ok _, s1) \<Rightarrow>
                                  (case ins e s1 of (Some x, s2) \<Rightarrow> (Err x, s2)
                                                     | (None, s2) \<Rightarrow> (Ok (), s2))
                              | (r, s1) \<Rightarrow> (r, s1)) s))))"

text \<open>
  The PostgreSQL bridge.  \<open>getTx\<close> is whether the context carries a transaction; the \<^verbatim>\<open>INSERT\<close>
  statement and the encoding of the headers are parameters.  An entry that validates has a record.
\<close>

definition PostgresTxExecutor_WithTransaction ::
  "((unit, 's) callback \<Rightarrow> (unit, 's) callback) option \<Rightarrow> bool \<Rightarrow> (unit, 's) callback option
    \<Rightarrow> (unit, 's) callback" where
  "PostgresTxExecutor_WithTransaction manager getTx fn s =
     (case manager of
        None \<Rightarrow> (Err (ENew ''postgres transaction manager is required''), s)
      | Some run \<Rightarrow>
          (case fn of
             None \<Rightarrow> (Err (ENew ''transaction callback is required''), s)
           | Some f \<Rightarrow>
               run (\<lambda>s. if \<not> getTx then (Err (ESentinel ErrTransactionMissing), s) else f s) s))"

definition postgresTxWriter_Insert ::
  "(headers \<Rightarrow> string result) \<Rightarrow> (outbox_entry \<Rightarrow> outbox_record \<Rightarrow> string \<Rightarrow> 's \<Rightarrow> err option \<times> 's)
    \<Rightarrow> bool \<Rightarrow> outbox_entry option \<Rightarrow> 's \<Rightarrow> err option \<times> 's" where
  "postgresTxWriter_Insert marshal exec_insert hasTx eo s =
     (if \<not> hasTx then (Some (ENew ''postgres transaction is required''), s)
      else case eo of
        None \<Rightarrow> (Some (ENew ''outbox entry is required''), s)
      | Some e \<Rightarrow>
          (case outbox_Validate (Some e) of
             Some x \<Rightarrow> (Some x, s)
           | None \<Rightarrow>
               (case oe_Record e of
                  None \<Rightarrow> (None, s)
                | Some r \<Rightarrow>
                    (case marshal (or_Headers r) of
                       Inl x \<Rightarrow> (Some (EWrap ''marshal outbox headers: '' x []), s)
                     | Inr h \<Rightarrow>
                         (case exec_insert e r h s of
                            (Some x, s') \<Rightarrow> (Some (EWrap ''insert outbox entry: '' x []), s')
                          | (None, s') \<Rightarrow> (None, s'))))))"

section \<open>The relay\<close>

record 's outbox_store =
  FetchPending :: "int \<Rightarrow> gotime \<Rightarrow> 's \<Rightarrow> outbox_entry list result"
  MarkPublished :: "string \<Rightarrow> gotime \<Rightarrow> 's \<Rightarrow> err option \<times> 's"
  MarkFailed :: "string \<Rightarrow> int \<Rightarrow> gotime \<Rightarrow> string \<Rightarrow> 's \<Rightarrow> err option \<times> 's"
  CleanupPublishedBefore :: "gotime \<Rightarrow> int \<Rightarrow> 's \<Rightarrow> int result \<times> 's"

record publisher_config =
  pc_PollInterval :: duration
  pc_BatchSize :: int
  pc_CleanupEvery :: duration
  pc_CleanupRetention :: duration
  pc_InitialBackoff :: duration
  pc_MaxBackoff :: duration

definition publisher_normalize :: "publisher_config \<Rightarrow> publisher_config" where
  "publisher_normalize c =
     \<lparr>pc_PollInterval = pos_or (pc_PollInterval c) second,
      pc_BatchSize = pos_or (pc_BatchSize c) 100,
      pc_CleanupEvery = pos_or (pc_CleanupEvery c) minute,
      pc_CleanupRetention = pos_or (pc_CleanupRetention c) (7 * 24 * hour),
      pc_InitialBackoff = pos_or (pc_InitialBackoff c) second,
      pc_MaxBackoff = pos_or (pc_MaxBackoff c) minute\<rparr>"

fun outbox_backoff_loop :: "nat \<Rightarrow> duration \<Rightarrow> duration \<Rightarrow> duration" where
  "outbox_backoff_loop 0 b m = (if b > m then m else b)"
| "outbox_backoff_loop (Suc n) b m =
     (let b' = i64 (b * 2) in if b' \<ge> m then m else outbox_backoff_loop n b' m)"

definition exponentialBackoff :: "int \<Rightarrow> duration \<Rightarrow> duration \<Rightarrow> duration" where
  "exponentialBackoff attempt initial maxBackoff =
     (if attempt \<le> 0 then initial else outbox_backoff_loop (nat (attempt - 1)) initial maxBackoff)"

text \<open>
  The broker's \<^verbatim>\<open>Publish\<close> works on a state of its own; what a run does with it and with the
  counters is the list of events.
\<close>

datatype relay_event =
  PublishAttempt string "outbox_record option" "err option"
| IncFailed
| IncPublished

type_synonym 'p publisher = "string \<Rightarrow> outbox_record option \<Rightarrow> 'p \<Rightarrow> err option \<times> 'p"

definition publishEntry ::
  "'s outbox_store \<Rightarrow> 'p publisher \<Rightarrow> publisher_config \<Rightarrow> outbox_entry \<Rightarrow> gotime \<Rightarrow> 's \<times> 'p
    \<Rightarrow> err option \<times> ('s \<times> 'p) \<times> relay_event list" where
  "publishEntry S P cfg e now w =
     (case outbox_Validate (Some e) of
        Some x \<Rightarrow> (Some (EWrap ''invalid outbox entry: '' x []), w, [])
      | None \<Rightarrow>
          (case P (oe_Topic e) (oe_Record e) (snd w) of
             (Some x, p) \<Rightarrow>
               (let ev = PublishAttempt (oe_Topic e) (oe_Record e) (Some x);
                    retryCount = i64 (oe_RetryCount e + 1);
                    nextAttempt = now + exponentialBackoff retryCount (pc_InitialBackoff cfg)
                                          (pc_MaxBackoff cfg)
                in case MarkFailed S (oe_ID e) retryCount nextAttempt (error_text x) (fst w) of
                     (Some y, s) \<Rightarrow>
                       (Some (EWrap2 ''mark failed error after publish error ('' x ''): '' y []),
                        (s, p), [ev])
                   | (None, s) \<Rightarrow> (Some x, (s, p), [ev, IncFailed]))
           | (None, p) \<Rightarrow>
               (let ev = PublishAttempt (oe_Topic e) (oe_Record e) None in
                case MarkPublished S (oe_ID e) now (fst w) of
                  (Some y, s) \<Rightarrow> (Some (EWrap ''mark published failed: '' y []), (s, p), [ev])
                | (None, s) \<Rightarrow> (None, (s, p), [ev, IncPublished]))))"

fun publish_all ::
  "'s outbox_store \<Rightarrow> 'p publisher \<Rightarrow> publisher_config \<Rightarrow> outbox_entry list \<Rightarrow> gotime \<Rightarrow> 's \<times> 'p
    \<Rightarrow> ('s \<times> 'p) \<times> relay_event list" where
  "publish_all S P cfg [] now w = (w, [])"
| "publish_all S P cfg (e # es) now w =
     (let (_, w1, ev1) = publishEntry S P cfg e now w; (w2, ev2) = publish_all S P cfg es now w1
      in (w2, ev1 @ ev2))"

definition tick ::
  "'s outbox_store \<Rightarrow> 'p publisher \<Rightarrow> publisher_config \<Rightarrow> gotime \<Rightarrow> 's \<times> 'p
    \<Rightarrow> err option \<times> ('s \<times> 'p) \<times> relay_event list" where
  "tick S P cfg now w =
     (case FetchPending S (pc_BatchSize cfg) now (fst w) of
        Inl x \<Rightarrow> (Some (EWrap ''fetch pending outbox entries failed: '' x []), w, [])
      | Inr es \<Rightarrow> (let (w', evs) = publish_all S P cfg es now w in (None, w', evs)))"

definition cleanup ::
  "'s outbox_store \<Rightarrow> publisher_config \<Rightarrow> gotime \<Rightarrow> 's \<times> 'p \<Rightarrow> err option \<times> 's \<times> 'p" where
  "cleanup S cfg now w =
     (case CleanupPublishedBefore S (now - pc_CleanupRetention cfg) (pc_BatchSize cfg) (fst w) of
        (Inl x, s) \<Rightarrow> (Some (EWrap ''cleanup published entries failed: '' x []), s, snd w)
      | (Inr _, s) \<Rightarrow> (None, s, snd w))"

text \<open>\<^verbatim>\<open>Run\<close>: what its \<^verbatim>\<open>select\<close> receives, in order; errors of a tick are logged and dropped.\<close>

datatype relay_wake = PollTick gotime | CleanupTick gotime | RelayDone err

fun relay_loop ::
  "'s outbox_store \<Rightarrow> 'p publisher \<Rightarrow> publisher_config \<Rightarrow> relay_wake list \<Rightarrow> 's \<times> 'p
    \<Rightarrow> err option \<times> ('s \<times> 'p) \<times> relay_event list" where
  "relay_loop S P cfg [] w = (None, w, [])"
| "relay_loop S P cfg (RelayDone e # ws) w = (Some e, w, [])"
| "relay_loop S P cfg (PollTick now # ws) w =
     (let (_, w1, ev1) = tick S P cfg now w; (r, w2, ev2) = relay_loop S P cfg ws w1
      in (r, w2, ev1 @ ev2))"
| "relay_loop S P cfg (CleanupTick now # ws) w =
     (let (_, w1) = cleanup S cfg now w in relay_loop S P cfg ws w1)"

definition relay_Run ::
  "'s outbox_store \<Rightarrow> 'p publisher \<Rightarrow> publisher_config \<Rightarrow> bool \<Rightarrow> bool \<Rightarrow> gotime \<Rightarrow> relay_wake list
    \<Rightarrow> 's \<times> 'p \<Rightarrow> err option \<times> ('s \<times> 'p) \<times> relay_event list" where
  "relay_Run S P cfg hasCtx running now ws w =
     (if \<not> hasCtx then (Some (ENew ''context is nil''), w, [])
      else if running then (Some (ENew ''outbox relay already running''), w, [])
      else let (_, w1, ev1) = tick S P cfg now w; (r, w2, ev2) = relay_loop S P cfg ws w1
           in (r, w2, ev1 @ ev2))"

section \<open>The contract of the table\<close>

text \<open>
  \<open>rows s\<close> is the table by entry id.  A fetch returns pending rows; the two marks change the
  row they name, or nothing when they fail; the cleanup removes published rows only.
\<close>

type_synonym outbox_rows = "string \<rightharpoonup> outbox_entry"

definition marked_published :: "gotime \<Rightarrow> outbox_entry \<Rightarrow> outbox_entry" where
  "marked_published t e = e\<lparr>oe_Published := True, oe_PublishedAt := Some t\<rparr>"

definition marked_failed :: "int \<Rightarrow> gotime \<Rightarrow> string \<Rightarrow> outbox_entry \<Rightarrow> outbox_entry" where
  "marked_failed n t why e = e\<lparr>oe_RetryCount := n, oe_AvailableAt := t, oe_LastError := why\<rparr>"

definition outbox_store_ok :: "'s outbox_store \<Rightarrow> ('s \<Rightarrow> outbox_rows) \<Rightarrow> bool" where
  "outbox_store_ok S rows \<longleftrightarrow>
     (\<forall>n t s es. FetchPending S n t s = Inr es \<longrightarrow>
        distinct (map oe_ID es) \<and> (\<forall>e \<in> set es. rows s (oe_ID e) = Some e \<and> \<not> oe_Published e)) \<and>
     (\<forall>i t s s'. MarkPublished S i t s = (None, s') \<longrightarrow>
        rows s' = (rows s)(i := map_option (marked_published t) (rows s i))) \<and>
     (\<forall>i t s x s'. MarkPublished S i t s = (Some x, s') \<longrightarrow> rows s' = rows s) \<and>
     (\<forall>i n t why s s'. MarkFailed S i n t why s = (None, s') \<longrightarrow>
        rows s' = (rows s)(i := map_option (marked_failed n t why) (rows s i))) \<and>
     (\<forall>i n t why s x s'. MarkFailed S i n t why s = (Some x, s') \<longrightarrow> rows s' = rows s) \<and>
     (\<forall>t n s r s'. CleanupPublishedBefore S t n s = (r, s') \<longrightarrow>
        (\<forall>i e. rows s i = Some e \<longrightarrow> oe_Published e \<or> rows s' i = Some e) \<and>
        (\<forall>i e. rows s' i = Some e \<longrightarrow> rows s i = Some e))"

section \<open>Lemmas on the backoff\<close>

lemma outbox_backoff_loop_closed:
  assumes "0 \<le> b" and "b \<le> 2 ^ 62 - 1" and "0 \<le> m" and "m \<le> 2 ^ 62"
  shows "outbox_backoff_loop n b m = min m (b * 2 ^ n)"
  using assms(1,2)
proof (induction n arbitrary: b)
  case (Suc n)
  have d: "i64 (b * 2) = b * 2" using Suc.prems by (simp add: fits64_def)
  have ge: "b * 2 \<le> b * 2 ^ Suc n"
    using Suc.prems mult_left_mono [of 1 "2 ^ n" "b * 2"] by (simp add: mult.assoc)
  show ?case
  proof (cases "b * 2 \<ge> m")
    case True
    with d ge show ?thesis by simp
  next
    case False
    then have "outbox_backoff_loop n (b * 2) m = min m ((b * 2) * 2 ^ n)"
      using Suc.prems assms(4) by (intro Suc.IH) simp_all
    with False d show ?thesis by (simp add: mult.assoc)
  qed
qed (auto simp: min_def)

text \<open>The product is doubled before it is compared: with a cap above 2^62 it wraps around.\<close>

lemma exponentialBackoff_overflow: "exponentialBackoff 35 second (2 ^ 63 - 1) < 0"
  by (simp add: exponentialBackoff_def second_def millisecond_def i64_def eval_nat_numeral Let_def)

section \<open>Lemmas on the relay\<close>

text \<open>
  How the table may change: rows keep topic and record and stay published once they are, a pending
  row stays pending unless its publication has succeeded, and what is published comes from a
  pending row.
\<close>

definition same_payload :: "outbox_entry \<Rightarrow> outbox_entry \<Rightarrow> bool" where
  "same_payload x y \<longleftrightarrow> oe_Topic x = oe_Topic y \<and> oe_Record x = oe_Record y"

definition evolves :: "outbox_rows \<Rightarrow> outbox_rows \<Rightarrow> bool" where
  "evolves R R' \<longleftrightarrow> (\<forall>i y. R' i = Some y \<longrightarrow>
     (\<exists>x. R i = Some x \<and> same_payload x y \<and> (oe_Published x \<longrightarrow> oe_Published y)))"

definition retains :: "outbox_rows \<Rightarrow> outbox_rows \<Rightarrow> relay_event list \<Rightarrow> bool" where
  "retains R R' evs \<longleftrightarrow> (\<forall>i x. R i = Some x \<longrightarrow> \<not> oe_Published x \<longrightarrow>
     (\<exists>y. R' i = Some y \<and> \<not> oe_Published y \<and> same_payload x y) \<or>
     PublishAttempt (oe_Topic x) (oe_Record x) None \<in> set evs)"

definition genuine :: "outbox_rows \<Rightarrow> relay_event list \<Rightarrow> bool" where
  "genuine R evs \<longleftrightarrow> (\<forall>t r e. PublishAttempt t r e \<in> set evs \<longrightarrow>
     (\<exists>i x. R i = Some x \<and> \<not> oe_Published x \<and> oe_Topic x = t \<and> oe_Record x = r))"

definition relay_ok :: "outbox_rows \<Rightarrow> outbox_rows \<Rightarrow> relay_event list \<Rightarrow> bool" where
  "relay_ok R R' evs \<longleftrightarrow> evolves R R' \<and> retains R R' evs \<and> genuine R evs"

lemma relay_ok_refl [simp]: "relay_ok R R []"
  by (simp add: relay_ok_def evolves_def retains_def genuine_def same_payload_def)

lemma relay_ok_trans:
  assumes "relay_ok R R1 ev1" and "relay_ok R1 R2 ev2"
  shows "relay_ok R R2 (ev1 @ ev2)"
proof -
  have "evolves R R2"
    using assms by (simp add: relay_ok_def evolves_def same_payload_def) metis
  moreover have "retains R R2 (ev1 @ ev2)"
    using assms by (simp add: relay_ok_def retains_def same_payload_def) metis
  moreover have "genuine R (ev1 @ ev2)"
    using assms by (simp add: relay_ok_def genuine_def evolves_def same_payload_def) metis
  ultimately show ?thesis by (simp add: relay_ok_def)
qed

lemma outbox_storeD:
  assumes "outbox_store_ok S rows"
  shows "FetchPending S n t s = Inr es \<Longrightarrow>
      distinct (map oe_ID es) \<and> (\<forall>e \<in> set es. rows s (oe_ID e) = Some e \<and> \<not> oe_Published e)"
    and "MarkPublished S i t s = (x, s') \<Longrightarrow>
      rows s' = (if x = None then (rows s)(i := map_option (marked_published t) (rows s i)) else rows s)"
    and "MarkFailed S i k t why s = (x, s') \<Longrightarrow>
      rows s' = (if x = None then (rows s)(i := map_option (marked_failed k t why) (rows s i)) else rows s)"
    and "CleanupPublishedBefore S t n s = (c, s') \<Longrightarrow> relay_ok (rows s) (rows s') []"
proof -
  show "FetchPending S n t s = Inr es \<Longrightarrow>
      distinct (map oe_ID es) \<and> (\<forall>e \<in> set es. rows s (oe_ID e) = Some e \<and> \<not> oe_Published e)"
    using assms by (simp add: outbox_store_ok_def)
  show "MarkPublished S i t s = (x, s') \<Longrightarrow>
      rows s' = (if x = None then (rows s)(i := map_option (marked_published t) (rows s i)) else rows s)"
    using assms unfolding outbox_store_ok_def by (cases x) (auto simp del: fun_upd_apply)
  show "MarkFailed S i k t why s = (x, s') \<Longrightarrow>
      rows s' = (if x = None then (rows s)(i := map_option (marked_failed k t why) (rows s i)) else rows s)"
    using assms unfolding outbox_store_ok_def by (cases x) (auto simp del: fun_upd_apply)
  show "CleanupPublishedBefore S t n s = (c, s') \<Longrightarrow> relay_ok (rows s) (rows s') []"
  proof -
    assume "CleanupPublishedBefore S t n s = (c, s')"
    with assms have "\<forall>i e. rows s i = Some e \<longrightarrow> oe_Published e \<or> rows s' i = Some e"
      and "\<forall>i e. rows s' i = Some e \<longrightarrow> rows s i = Some e"
      unfolding outbox_store_ok_def by blast+
    then show ?thesis
      by (fastforce simp: relay_ok_def evolves_def retains_def genuine_def same_payload_def)
  qed
qed

lemma relay_ok_published:
  assumes "R i = Some e" "\<not> oe_Published e"
    "R' = R \<or> R' = R(i := Some (marked_published t e))"
    "set evs \<subseteq> {PublishAttempt (oe_Topic e) (oe_Record e) None, IncPublished}"
    "PublishAttempt (oe_Topic e) (oe_Record e) None \<in> set evs"
  shows "relay_ok R R' evs"
  using assms
  by (auto simp: relay_ok_def evolves_def retains_def genuine_def same_payload_def marked_published_def
      split: if_splits)

lemma relay_ok_failed:
  assumes "R i = Some e" "\<not> oe_Published e"
    "R' = R \<or> R' = R(i := Some (marked_failed n t why e))"
    "set evs \<subseteq> {PublishAttempt (oe_Topic e) (oe_Record e) (Some x), IncFailed}"
  shows "relay_ok R R' evs"
  using assms
  by (auto simp: relay_ok_def evolves_def retains_def genuine_def same_payload_def marked_failed_def
      split: if_splits)

lemma publishEntry_ok:
  assumes "outbox_store_ok S rows" and "publishEntry S P cfg e now (s, p) = (r, (s', p'), evs)"
    and "rows s (oe_ID e) = Some e" and "\<not> oe_Published e"
  shows "relay_ok (rows s) (rows s') evs \<and> (\<forall>j. j \<noteq> oe_ID e \<longrightarrow> rows s' j = rows s j)"
proof (cases "outbox_Validate (Some e)")
  case None
  obtain x q where pub: "P (oe_Topic e) (oe_Record e) p = (x, q)" by fastforce
  show ?thesis
  proof (cases x)
    case (Some y)
    let ?n = "i64 (oe_RetryCount e + 1)"
    let ?t = "now + exponentialBackoff ?n (pc_InitialBackoff cfg) (pc_MaxBackoff cfg)"
    obtain z u where m: "MarkFailed S (oe_ID e) ?n ?t (error_text y) s = (z, u)" by fastforce
    have u: "s' = u" "set evs \<subseteq> {PublishAttempt (oe_Topic e) (oe_Record e) (Some y), IncFailed}"
      using assms(2) None pub Some m by (auto simp: publishEntry_def Let_def split: option.splits)
    then have "rows s' = rows s \<or> rows s' = (rows s)(oe_ID e := Some (marked_failed ?n ?t (error_text y) e))"
      using outbox_storeD(3) [OF assms(1) m] assms(3) by (auto split: if_splits)
    then show ?thesis using u(2) assms(3,4)
      by (auto intro: relay_ok_failed [of "rows s" "oe_ID e" e])
  next
    case n: None
    obtain z u where m: "MarkPublished S (oe_ID e) now s = (z, u)" by fastforce
    have u: "s' = u" "set evs \<subseteq> {PublishAttempt (oe_Topic e) (oe_Record e) None, IncPublished}"
      "PublishAttempt (oe_Topic e) (oe_Record e) None \<in> set evs"
      using assms(2) None pub n m by (auto simp: publishEntry_def Let_def split: option.splits)
    then have "rows s' = rows s \<or> rows s' = (rows s)(oe_ID e := Some (marked_published now e))"
      using outbox_storeD(2) [OF assms(1) m] assms(3) by (auto split: if_splits)
    then show ?thesis using u(2,3) assms(3,4)
      by (auto intro: relay_ok_published [of "rows s" "oe_ID e" e])
  qed
qed (use assms(2) in \<open>auto simp: publishEntry_def\<close>)

lemma publish_all_ok:
  assumes "outbox_store_ok S rows" and "publish_all S P cfg es now (s, p) = ((s', p'), evs)"
    and "distinct (map oe_ID es)" and "\<forall>e \<in> set es. rows s (oe_ID e) = Some e \<and> \<not> oe_Published e"
  shows "relay_ok (rows s) (rows s') evs"
  using assms(2-4)
proof (induction es arbitrary: s p evs)
  case (Cons e es)
  obtain r s1 p1 ev1 where e: "publishEntry S P cfg e now (s, p) = (r, (s1, p1), ev1)"
    by (metis prod.collapse)
  obtain ev2 where es: "publish_all S P cfg es now (s1, p1) = ((s', p'), ev2)" and evs: "evs = ev1 @ ev2"
    using Cons.prems(1) e by (auto simp: Let_def split: prod.splits)
  have step: "relay_ok (rows s) (rows s1) ev1 \<and> (\<forall>j. j \<noteq> oe_ID e \<longrightarrow> rows s1 j = rows s j)"
    using publishEntry_ok [OF assms(1) e] Cons.prems by simp
  moreover from step Cons.prems
  have "\<forall>x \<in> set es. rows s1 (oe_ID x) = Some x \<and> \<not> oe_Published x"
    by (metis distinct.simps(2) image_eqI list.set_intros(2) list.set_map list.simps(9))
  then have "relay_ok (rows s1) (rows s') ev2" using Cons.IH [OF es] Cons.prems by simp
  ultimately show ?case unfolding evs by (blast intro: relay_ok_trans)
qed simp

lemma tick_ok:
  assumes "outbox_store_ok S rows" and "tick S P cfg now (s, p) = (r, (s', p'), evs)"
  shows "relay_ok (rows s) (rows s') evs"
proof (cases "FetchPending S (pc_BatchSize cfg) now s")
  case (Inr es)
  with assms(2) have "publish_all S P cfg es now (s, p) = ((s', p'), evs)"
    by (auto simp: tick_def split: prod.splits)
  from publish_all_ok [OF assms(1) this] outbox_storeD(1) [OF assms(1) Inr] show ?thesis by simp
qed (use assms(2) in \<open>simp add: tick_def\<close>)

lemma relay_loop_ok:
  assumes "outbox_store_ok S rows" and "relay_loop S P cfg ws (s, p) = (r, (s', p'), evs)"
  shows "relay_ok (rows s) (rows s') evs"
  using assms(2)
proof (induction ws arbitrary: s p r evs)
  case (Cons w ws)
  show ?case
  proof (cases w)
    case (PollTick now)
    obtain x s1 p1 ev1 where t: "tick S P cfg now (s, p) = (x, (s1, p1), ev1)"
      by (metis prod.collapse)
    obtain ev2 where l: "relay_loop S P cfg ws (s1, p1) = (r, (s', p'), ev2)" "evs = ev1 @ ev2"
      using Cons.prems PollTick t by (auto simp: Let_def split: prod.splits)
    then show ?thesis using tick_ok [OF assms(1) t] Cons.IH [OF l(1)] relay_ok_trans by simp
  next
    case (CleanupTick now)
    obtain c s1 where t: "CleanupPublishedBefore S (now - pc_CleanupRetention cfg) (pc_BatchSize cfg) s = (c, s1)"
      by fastforce
    then have "relay_loop S P cfg ws (s1, p) = (r, (s', p'), evs)"
      using Cons.prems CleanupTick by (auto simp: cleanup_def split: sum.splits)
    from Cons.IH [OF this] outbox_storeD(4) [OF assms(1) t] show ?thesis
      using relay_ok_trans by fastforce
  qed (use Cons.prems in auto)
qed simp

lemma relay_Run_ok:
  assumes "outbox_store_ok S rows" and "relay_Run S P cfg hasCtx running now ws (s, p) = (r, (s', p'), evs)"
  shows "relay_ok (rows s) (rows s') evs"
proof -
  obtain x s1 p1 ev1 where t: "tick S P cfg now (s, p) = (x, (s1, p1), ev1)" by (metis prod.collapse)
  obtain y s2 p2 ev2 where l: "relay_loop S P cfg ws (s1, p1) = (y, (s2, p2), ev2)"
    by (metis prod.collapse)
  have "relay_ok (rows s) (rows s2) (ev1 @ ev2)"
    using tick_ok [OF assms(1) t] relay_loop_ok [OF assms(1) l] by (rule relay_ok_trans)
  with assms(2) t l show ?thesis by (auto simp: relay_Run_def split: if_splits)
qed

section \<open>A table\<close>

definition list_rows :: "outbox_entry list \<Rightarrow> outbox_rows" where
  "list_rows es = map_of (map (\<lambda>e. (oe_ID e, e)) es)"

definition update_row :: "string \<Rightarrow> (outbox_entry \<Rightarrow> outbox_entry) \<Rightarrow> outbox_entry list \<Rightarrow> outbox_entry list" where
  "update_row i f es = map (\<lambda>e. if oe_ID e = i then f e else e) es"

definition list_outbox_store :: "outbox_entry list outbox_store" where
  "list_outbox_store =
     \<lparr>FetchPending = (\<lambda>n t es. Inr (filter (\<lambda>e. \<not> oe_Published e \<and> oe_AvailableAt e \<le> t)
          (List.map_filter (list_rows es) (remdups (map oe_ID es))))),
      MarkPublished = (\<lambda>i t es. (None, update_row i (marked_published t) es)),
      MarkFailed = (\<lambda>i n t why es. (None, update_row i (marked_failed n t why) es)),
      CleanupPublishedBefore = (\<lambda>t n es. (Inr 0, es))\<rparr>"

lemma update_row_rows:
  assumes "\<And>e. oe_ID (f e) = oe_ID e"
  shows "list_rows (update_row i f es) = (list_rows es)(i := map_option f (list_rows es i))"
  using assms by (induction es) (auto simp: list_rows_def update_row_def fun_eq_iff)

lemma list_rows_ID: "list_rows es i = Some e \<Longrightarrow> oe_ID e = i"
  by (induction es) (auto simp: list_rows_def split: if_splits)

lemma list_rows_self: "list_rows es i = Some e \<Longrightarrow> list_rows es (oe_ID e) = Some e"
  using list_rows_ID by blast

lemma map_filter_rows_IDs:
  "distinct is \<Longrightarrow> distinct (map oe_ID (List.map_filter (list_rows es) is))
    \<and> set (map oe_ID (List.map_filter (list_rows es) is)) \<subseteq> set is"
proof (induction "is")
  case (Cons i "is")
  then show ?case
    by (cases "list_rows es i") (auto simp: List.map_filter_def dest: list_rows_ID)
qed (simp add: List.map_filter_def)

lemma list_outbox_store_ok: "outbox_store_ok list_outbox_store list_rows"
proof -
  have "distinct (map oe_ID (filter P (List.map_filter (list_rows es) (remdups (map oe_ID es)))))" for P es
    using map_filter_rows_IDs [of "remdups (map oe_ID es)" es] by (auto intro: distinct_map_filter)
  then show ?thesis
    by (auto simp: outbox_store_ok_def list_outbox_store_def update_row_rows marked_published_def
        marked_failed_def List.map_filter_def intro: list_rows_self)
qed

definition sample_entry :: outbox_entry where
  "sample_entry = \<lparr>oe_ID = ''e1'', oe_Topic = ''orders'',
     oe_Record = Some \<lparr>or_ID = ''e1'', or_Key = ''k'', or_Payload = ''{}'', or_Headers = Map.empty,
       or_ContentType = ''application/json''\<rparr>,
     oe_CreatedAt = 1, oe_AvailableAt = 1, oe_Published = False, oe_PublishedAt = None,
     oe_RetryCount = 0, oe_LastError = []\<rparr>"

section \<open>Properties\<close>

text \<open>
  C4. The relay loses nothing and invents nothing: over any run of ticks and cleanups, whatever the
  broker and the store fail at, an entry that was pending at the start is still pending with the
  same topic and record, or a publication of that topic and record has succeeded; and everything
  the relay tries to publish is the topic and record of an entry that was pending at the start.
\<close>

theorem relay_no_loss:
  assumes "outbox_store_ok S rows"
    and "relay_Run S P cfg hasCtx running now ws (s, p) = (r, (s', p'), evs)"
    and "rows s i = Some e" and "\<not> oe_Published e"
  shows "((\<exists>e'. rows s' i = Some e' \<and> \<not> oe_Published e' \<and> oe_Topic e' = oe_Topic e
            \<and> oe_Record e' = oe_Record e)
          \<or> PublishAttempt (oe_Topic e) (oe_Record e) None \<in> set evs)
    \<and> (\<forall>t rec x. PublishAttempt t rec x \<in> set evs \<longrightarrow>
        (\<exists>j y. rows s j = Some y \<and> \<not> oe_Published y \<and> oe_Topic y = t \<and> oe_Record y = rec))"
proof -
  have "relay_ok (rows s) (rows s') evs" by (rule relay_Run_ok [OF assms(1,2)])
  with assms(3,4) show ?thesis
    unfolding relay_ok_def retains_def genuine_def same_payload_def by metis
qed

theorem relay_no_loss_witness:
  "\<exists>s' p' evs. relay_Run list_outbox_store (\<lambda>t r n. (if n = 0 then Some (ENew ''down'') else None, n + 1))
      (publisher_normalize \<lparr>pc_PollInterval = 0, pc_BatchSize = 0, pc_CleanupEvery = 0,
         pc_CleanupRetention = 0, pc_InitialBackoff = 0, pc_MaxBackoff = 0\<rparr>)
      True False 10 [] ([sample_entry], 0::nat) = (None, (s', p'), evs)
    \<and> (\<exists>e'. list_rows s' ''e1'' = Some e' \<and> \<not> oe_Published e' \<and> oe_Record e' = oe_Record sample_entry)"
proof -
  let ?P = "\<lambda>t r n. (if n = 0 then Some (ENew ''down'') else None, n + 1)"
  let ?c = "publisher_normalize \<lparr>pc_PollInterval = 0, pc_BatchSize = 0, pc_CleanupEvery = 0,
         pc_CleanupRetention = 0, pc_InitialBackoff = 0, pc_MaxBackoff = 0\<rparr>"
  obtain r s' p' evs where run: "relay_Run list_outbox_store ?P ?c True False 10 [] ([sample_entry], 0::nat)
      = (r, (s', p'), evs)" by (rule run_cases)
  have e: "PublishAttempt (oe_Topic sample_entry) (oe_Record sample_entry) None \<notin> set evs" "r = None"
    using run
    by (auto simp: relay_Run_def tick_def list_outbox_store_def list_rows_def sample_entry_def
        List.map_filter_def publishEntry_def outbox_Validate_def Let_def)
  show ?thesis
    using relay_no_loss [OF list_outbox_store_ok run, of "''e1''" sample_entry] run e
    by (auto simp: list_rows_def sample_entry_def)
qed

text \<open>
  \<^verbatim>\<open>ExecuteTransactional\<close> through the PostgreSQL bridge is atomic: on success the business function
  and the insertion of the entry both ran and are committed; on an error or a panic of either, or
  of the database, nothing of them is left; an entry that does not validate is never written.
\<close>

lemma outbox_write_atomic:
  assumes "sql_ok E" and "run = (\<lambda>fn. PostgresTxExecutor_WithTransaction (Some (postgres_WithTransaction E)) getTx (Some fn))"
    and "outbox_ExecuteTransactional (Some run) ins (Some e) (Some business) s = (r, s')"
  shows "if r = Ok () then outbox_Validate (Some e) = None \<and>
           (\<exists>s1. business s = (Ok (), s1) \<and> ins e s1 = (None, s')) else s' = s"
proof (cases "outbox_Validate (Some e)")
  case None
  let ?f = "\<lambda>s. if \<not> getTx then (Err (ESentinel ErrTransactionMissing), s)
      else case business s of
        (Ok _, s1) \<Rightarrow> (case ins e s1 of (Some x, s2) \<Rightarrow> (Err x, s2) | (None, s2) \<Rightarrow> (Ok (), s2))
      | (r, s1) \<Rightarrow> (r, s1)"
  have run: "postgres_WithTransaction E ?f s = (r, s')"
    using assms(2,3) None
    by (simp add: outbox_ExecuteTransactional_def PostgresTxExecutor_WithTransaction_def)
  show ?thesis
  proof (cases "r = Ok ()")
    case True
    with run have "postgres_WithTransaction E ?f s = (Ok (), s')" by simp
    then have "?f s = (Ok (), s')" by (rule tx_executor.committed [OF tx_executors(1) [OF assms(1)]])
    then show ?thesis using True None by (auto split: if_splits prod.splits outcome.splits option.splits)
  next
    case False
    then show ?thesis using tx_executor.aborted [OF tx_executors(1) [OF assms(1)] run] by simp
  qed
qed (use assms(3) in \<open>auto simp: outbox_ExecuteTransactional_def\<close>)

text \<open>
  The relay's own \<^verbatim>\<open>exponentialBackoff\<close>, for a cap of at most 2^62 nanoseconds (146 years), is
  the initial backoff doubled once per earlier attempt and capped; for an even cap it is the
  backoff of the retry package.
\<close>

lemma outbox_backoff_exact:
  assumes "0 < attempt" and "0 \<le> initial" and "initial < 2 ^ 62" and "0 \<le> m" and "m \<le> 2 ^ 62"
  shows "exponentialBackoff attempt initial m = min m (initial * 2 ^ nat (attempt - 1))
    \<and> (even m \<longrightarrow> exponentialBackoff attempt initial m = ExponentialBackoff attempt initial m)"
proof -
  have c: "exponentialBackoff attempt initial m = min m (initial * 2 ^ nat (attempt - 1))"
    using assms by (simp add: exponentialBackoff_def outbox_backoff_loop_closed)
  have "fits64 m" using assms(4,5) by (simp add: fits64_def)
  then have r: "ExponentialBackoff attempt initial m =
      (if 0 < nat (attempt - 1) \<and> m div 2 \<le> initial * 2 ^ (nat (attempt - 1) - 1) then m
       else min m (initial * 2 ^ nat (attempt - 1)))"
    using assms by (simp add: ExponentialBackoff_def backoff_loop_closed)
  have "m \<le> initial * 2 ^ n" if "even m" "0 < n" "m div 2 \<le> initial * 2 ^ (n - 1)" for n :: nat
  proof -
    have "initial * 2 ^ n = 2 * (initial * 2 ^ (n - 1))" using that(2) by (cases n) simp_all
    with that(1,3) show ?thesis by (auto elim: evenE)
  qed
  then show ?thesis using c r by (auto simp: min_def)
qed

end
