(* ===== verification/Saga.thy ===== *)
theory Saga
  imports Errors
begin

text \<open>
  \<^verbatim>\<open>pkg/reliability/saga/saga.go\<close>: definitions, their validation, and the runner that executes the
  steps in order and compensates the completed ones in reverse when a step fails.  The steps work
  on a state of the application.  The lemmas give the exact order of actions of every run, and show
  that a saga whose compensations undo their steps is atomic.
\<close>

section \<open>Definitions and validation\<close>

text \<open>\<open>StatusUnset\<close> is the zero value of the type, the status of an empty \<^verbatim>\<open>Result\<close>.\<close>

datatype status =
  StatusUnset | StatusPending | StatusRunning | StatusCompleted | StatusCompensating | StatusCompensated
| StatusFailed

type_synonym 's action = "'s \<Rightarrow> err option \<times> 's"

text \<open>The function fields of a step are \<open>None\<close> when nil.\<close>

record 's step =
  st_Name :: string
  st_Execute :: "'s action option"
  st_Compensate :: "'s action option"

definition step_Validate :: "'s step \<Rightarrow> err option" where
  "step_Validate st =
     (if st_Name st = [] then Some (ENew ''saga step name is required'')
      else if st_Execute st = None then Some (ENew ''saga step execute is required'')
      else None)"

record 's saga_def =
  sd_Name :: string
  sd_Steps :: "'s step list"

fun validate_steps :: "nat \<Rightarrow> string set \<Rightarrow> 's step list \<Rightarrow> err option" where
  "validate_steps idx seen [] = None"
| "validate_steps idx seen (st # sts) =
     (case step_Validate st of
        Some e \<Rightarrow> Some (EWrap (''saga step '' @ show_nat idx @ '': '') e [])
      | None \<Rightarrow>
          (if st_Name st \<in> seen then Some (ENew (''duplicate saga step '' @ quoted (st_Name st)))
           else validate_steps (Suc idx) (insert (st_Name st) seen) sts))"

definition saga_Validate :: "'s saga_def option \<Rightarrow> err option" where
  "saga_Validate d =
     (case d of
        None \<Rightarrow> Some (ENew ''saga definition is nil'')
      | Some s \<Rightarrow>
          (if sd_Name s = [] then Some (ENew ''saga name is required'')
           else if sd_Steps s = [] then Some (ENew ''saga must have at least one step'')
           else validate_steps 0 {} (sd_Steps s)))"

definition NewRunner :: "'s saga_def \<Rightarrow> 's saga_def result" where
  "NewRunner d = (case saga_Validate (Some d) of Some e \<Rightarrow> Inl e | None \<Rightarrow> Inr d)"

section \<open>Running\<close>

text \<open>
  What the observer is told, without the time of the notification; a nil observer is told nothing
  and its errors are ignored.
\<close>

record saga_event =
  sev_SagaName :: string
  sev_StepName :: string
  sev_Status :: status
  sev_Error :: string

record saga_result =
  sr_Status :: status
  sr_CompletedSteps :: "string list"
  sr_Compensated :: "string list"

definition emit :: "bool \<Rightarrow> string \<Rightarrow> string \<Rightarrow> status \<Rightarrow> err option \<Rightarrow> saga_event list" where
  "emit observed saga stepName st e =
     (if \<not> observed then []
      else [\<lparr>sev_SagaName = saga, sev_StepName = stepName, sev_Status = st,
             sev_Error = (case e of None \<Rightarrow> [] | Some x \<Rightarrow> error_text x)\<rparr>])"

text \<open>Running a possibly nil function field; validated steps have an \<^verbatim>\<open>Execute\<close>.\<close>

definition perform :: "'s action option \<Rightarrow> 's action" where
  "perform a s = (case a of None \<Rightarrow> (None, s) | Some f \<Rightarrow> f s)"

text \<open>
  The compensation loop over the completed steps, the last completed first: the names compensated,
  the step whose compensation failed with its error, and the state.
\<close>

fun compensate :: "'s step list \<Rightarrow> 's \<Rightarrow> string list \<times> (string \<times> err) option \<times> 's" where
  "compensate [] s = ([], None, s)"
| "compensate (st # sts) s =
     (case st_Compensate st of
        None \<Rightarrow> compensate sts s
      | Some c \<Rightarrow>
          (case c s of
             (Some e, s') \<Rightarrow> ([], Some (st_Name st, e), s')
           | (None, s') \<Rightarrow>
               (let (ns, r, s'') = compensate sts s' in (st_Name st # ns, r, s''))))"

text \<open>The forward loop; \<open>done\<close> are the completed steps, the last one first.\<close>

fun saga_loop ::
  "(string \<Rightarrow> status \<Rightarrow> err option \<Rightarrow> saga_event list) \<Rightarrow> 's step list \<Rightarrow> 's step list \<Rightarrow> 's
    \<Rightarrow> saga_result \<times> err option \<times> 's \<times> saga_event list" where
  "saga_loop em dn [] s =
     (\<lparr>sr_Status = StatusCompleted, sr_CompletedSteps = rev (map st_Name dn), sr_Compensated = []\<rparr>,
      None, s, em [] StatusCompleted None)"
| "saga_loop em dn (st # sts) s =
     (case perform (st_Execute st) s of
        (Some e, s') \<Rightarrow>
          (let evs = em (st_Name st) StatusFailed (Some e) @ em (st_Name st) StatusCompensating (Some e);
               (ns, failed, s'') = compensate dn s'
           in case failed of
                Some (n, ce) \<Rightarrow>
                  (\<lparr>sr_Status = StatusCompensating, sr_CompletedSteps = rev (map st_Name dn),
                     sr_Compensated = ns\<rparr>,
                   errors_join [Some e, Some ce], s'', evs @ em n StatusFailed (Some ce))
              | None \<Rightarrow>
                  (\<lparr>sr_Status = StatusCompensated, sr_CompletedSteps = rev (map st_Name dn),
                     sr_Compensated = ns\<rparr>,
                   Some e, s'', evs @ em (st_Name st) StatusCompensated (Some e)))
      | (None, s') \<Rightarrow>
          (let (r, e, s'', evs) = saga_loop em (st # dn) sts s'
           in (r, e, s'', em (st_Name st) StatusRunning None @ evs)))"

definition saga_Run ::
  "bool \<Rightarrow> bool \<Rightarrow> 's saga_def \<Rightarrow> 's \<Rightarrow> saga_result \<times> err option \<times> 's \<times> saga_event list" where
  "saga_Run observed hasCtx d s =
     (if \<not> hasCtx
      then (\<lparr>sr_Status = StatusUnset, sr_CompletedSteps = [], sr_Compensated = []\<rparr>,
            Some (ENew ''context is required''), s, [])
      else let (r, e, s', evs) = saga_loop (emit observed (sd_Name d)) [] (sd_Steps d) s
           in (r, e, s', emit observed (sd_Name d) [] StatusRunning None @ evs))"

section \<open>Lemmas\<close>

text \<open>The run of the forward steps: the steps that succeed, and the first failure.\<close>

fun forward :: "'s step list \<Rightarrow> 's \<Rightarrow> 's step list \<times> ('s step \<times> err) option \<times> 's" where
  "forward [] s = ([], None, s)"
| "forward (st # sts) s =
     (case perform (st_Execute st) s of
        (Some e, s') \<Rightarrow> ([], Some (st, e), s')
      | (None, s') \<Rightarrow> (let (ds, r, s'') = forward sts s' in (st # ds, r, s'')))"

lemma saga_loop_forward:
  assumes "forward sts s = (ds, r, s1)"
  shows "\<exists>evs. saga_loop em dn sts s =
     (case r of
        None \<Rightarrow> (\<lparr>sr_Status = StatusCompleted, sr_CompletedSteps = map st_Name (rev dn @ ds),
                    sr_Compensated = []\<rparr>, None, s1, evs)
      | Some (st, e) \<Rightarrow>
          (case compensate (rev ds @ dn) s1 of
             (ns, Some (n, ce), s2) \<Rightarrow>
               (\<lparr>sr_Status = StatusCompensating, sr_CompletedSteps = map st_Name (rev dn @ ds),
                  sr_Compensated = ns\<rparr>, Some (EJoin [e, ce]), s2, evs)
           | (ns, None, s2) \<Rightarrow>
               (\<lparr>sr_Status = StatusCompensated, sr_CompletedSteps = map st_Name (rev dn @ ds),
                  sr_Compensated = ns\<rparr>, Some e, s2, evs)))"
  using assms
proof (induction sts arbitrary: dn s ds)
  case (Cons st sts)
  obtain x s' where x: "perform (st_Execute st) s = (x, s')" by (rule prod.exhaust)
  show ?case
  proof (cases x)
    case None
    obtain es where f: "forward sts s' = (es, r, s1)" and ds: "ds = st # es"
      using Cons.prems x None by (auto simp: Let_def split: prod.splits)
    from Cons.IH [OF f, of "st # dn"] show ?thesis
      using x None ds by (auto split: option.splits prod.splits)
  next
    case (Some e)
    with Cons.prems x show ?thesis
      by (auto simp: Let_def errors_join_def List.map_filter_def rev_map
          split: option.splits prod.splits)
  qed
qed (auto simp: rev_map)

lemma forward_prefix:
  "forward sts s = (ds, r, s') \<Longrightarrow>
     (case r of None \<Rightarrow> ds = sts | Some (st, e) \<Rightarrow> \<exists>rest. sts = ds @ st # rest)"
proof (induction sts arbitrary: s ds)
  case (Cons st sts)
  obtain x s1 where x: "perform (st_Execute st) s = (x, s1)" by (rule prod.exhaust)
  show ?case
  proof (cases x)
    case None
    obtain es where f: "forward sts s1 = (es, r, s')" and ds: "ds = st # es"
      using Cons.prems x None by (auto simp: Let_def split: prod.splits)
    from Cons.IH [OF f] ds show ?thesis by (auto split: option.splits)
  qed (use Cons.prems x in auto)
qed auto

text \<open>Steps that also write what they do to a log: \<open>True\<close> for executing, \<open>False\<close> for compensating.\<close>

type_synonym action_log = "(bool \<times> string) list"

definition logged_action :: "bool \<Rightarrow> string \<Rightarrow> 's action \<Rightarrow> ('s \<times> action_log) action" where
  "logged_action b n f w = (case f (fst w) of (r, s') \<Rightarrow> (r, (s', snd w @ [(b, n)])))"

definition logged :: "'s step \<Rightarrow> ('s \<times> action_log) step" where
  "logged st = \<lparr>st_Name = st_Name st,
     st_Execute = map_option (logged_action True (st_Name st)) (st_Execute st),
     st_Compensate = map_option (logged_action False (st_Name st)) (st_Compensate st)\<rparr>"

definition logged_def :: "'s saga_def \<Rightarrow> ('s \<times> action_log) saga_def" where
  "logged_def d = \<lparr>sd_Name = sd_Name d, sd_Steps = map logged (sd_Steps d)\<rparr>"

definition compensable :: "'s step list \<Rightarrow> string list" where
  "compensable sts = map st_Name (filter (\<lambda>st. st_Compensate st \<noteq> None) sts)"

lemma logged_simps [simp]:
  "st_Name (logged st) = st_Name st"
  "st_Execute (logged st) = map_option (logged_action True (st_Name st)) (st_Execute st)"
  "st_Compensate (logged st) = map_option (logged_action False (st_Name st)) (st_Compensate st)"
  by (simp_all add: logged_def)

lemma compensable_Cons [simp]:
  "compensable [] = []"
  "compensable (st # sts) = (if st_Compensate st = None then compensable sts
     else st_Name st # compensable sts)"
  by (simp_all add: compensable_def)

lemma compensate_logged:
  assumes "compensate (map logged sts) (s, l) = (ns, r, (s', l'))"
  shows "case r of
      None \<Rightarrow> ns = compensable sts \<and> l' = l @ map (Pair False) ns
    | Some (n, e) \<Rightarrow> (\<exists>rest. compensable sts = ns @ n # rest) \<and> l' = l @ map (Pair False) (ns @ [n])"
  using assms
proof (induction sts arbitrary: s l ns)
  case (Cons st sts)
  show ?case
  proof (cases "st_Compensate st")
    case None
    then show ?thesis
      using Cons.IH [of s l ns] Cons.prems by (cases r) auto
  next
    case (Some c)
    obtain x s1 where x: "c s = (x, s1)" by (rule prod.exhaust)
    show ?thesis
    proof (cases x)
      case None
      obtain ms where c: "compensate (map logged sts) (s1, l @ [(False, st_Name st)]) = (ms, r, (s', l'))"
        and ns: "ns = st_Name st # ms"
        using Cons.prems x None Some
        by (auto simp: logged_action_def split: prod.splits)
      from Cons.IH [OF c] ns Some show ?thesis
        by (auto split: option.splits)
    qed (use Cons.prems x Some in \<open>auto simp: logged_action_def\<close>)
  qed
qed auto

lemma forward_logged:
  assumes "forward (map logged sts) (s, l) = (ds, r, (s', l'))" and "\<forall>st \<in> set sts. st_Execute st \<noteq> None"
  shows "\<exists>es. ds = map logged es \<and>
    (case r of
       None \<Rightarrow> es = sts \<and> l' = l @ map (Pair True) (map st_Name es)
     | Some (st, e) \<Rightarrow> (\<exists>x rest. sts = es @ x # rest
         \<and> l' = l @ map (Pair True) (map st_Name (es @ [x]))))"
  using assms
proof (induction sts arbitrary: s l ds)
  case (Cons st sts)
  from Cons.prems(2) obtain f where f: "st_Execute st = Some f" by auto
  obtain x s1 where x: "f s = (x, s1)" by (rule prod.exhaust)
  show ?case
  proof (cases x)
    case None
    obtain cs where c: "forward (map logged sts) (s1, l @ [(True, st_Name st)]) = (cs, r, (s', l'))"
      and ds: "ds = logged st # cs"
      using Cons.prems(1) x None f
      by (auto simp: perform_def logged_action_def split: prod.splits)
    from Cons.IH [OF c] Cons.prems(2) obtain es where es: "cs = map logged es"
      "case r of
         None \<Rightarrow> es = sts \<and> l' = (l @ [(True, st_Name st)]) @ map (Pair True) (map st_Name es)
       | Some (t, e) \<Rightarrow> (\<exists>x rest. sts = es @ x # rest
           \<and> l' = (l @ [(True, st_Name st)]) @ map (Pair True) (map st_Name (es @ [x])))"
      by auto
    then show ?thesis using ds by (intro exI [of _ "st # es"]) (cases r; force)
  next
    case (Some e)
    then show ?thesis using Cons.prems(1) x f
      by (intro exI [of _ "[]"]) (auto simp: perform_def logged_action_def)
  qed
qed auto

lemma validate_steps_Execute:
  "validate_steps i seen sts = None \<Longrightarrow> \<forall>st \<in> set sts. st_Execute st \<noteq> None"
proof (induction sts arbitrary: i seen)
  case (Cons st sts)
  from Cons.prems have "step_Validate st = None"
    and "validate_steps (Suc i) (insert (st_Name st) seen) sts = None"
    by (auto split: option.splits if_splits)
  with Cons.IH show ?case by (auto simp: step_Validate_def split: if_splits)
qed simp

lemma saga_Validate_Execute:
  "saga_Validate (Some d) = None \<Longrightarrow> \<forall>st \<in> set (sd_Steps d). st_Execute st \<noteq> None"
  by (auto simp: saga_Validate_def split: if_splits dest: validate_steps_Execute)

text \<open>Compensations that undo their steps, in reverse order, restore the state.\<close>

definition undoes :: "'s step \<Rightarrow> bool" where
  "undoes st \<longleftrightarrow>
     (\<forall>s s'. perform (st_Execute st) s = (None, s') \<longrightarrow> (\<exists>c. st_Compensate st = Some c \<and> c s' = (None, s))) \<and>
     (\<forall>s s' e. perform (st_Execute st) s = (Some e, s') \<longrightarrow> s' = s)"

lemma compensate_append:
  "compensate xs s = (ns, None, s1) \<Longrightarrow>
   compensate (xs @ ys) s = (let (ms, r, s2) = compensate ys s1 in (ns @ ms, r, s2))"
proof (induction xs arbitrary: s ns)
  case (Cons x xs)
  then show ?case
    by (fastforce simp: Let_def split: option.splits prod.splits)
qed simp

lemma compensate_undoes:
  assumes "forward sts s = (ds, r, s1)" and "\<forall>st \<in> set sts. undoes st" and "r \<noteq> None \<or> sts = ds"
  shows "compensate (rev ds) s1 = (map st_Name (rev ds), None, s)"
  using assms
proof (induction sts arbitrary: s ds)
  case (Cons st sts)
  obtain x s' where x: "perform (st_Execute st) s = (x, s')" by (rule prod.exhaust)
  show ?case
  proof (cases x)
    case None
    obtain es where f: "forward sts s' = (es, r, s1)" and ds: "ds = st # es"
      using Cons.prems(1) x None by (auto simp: Let_def split: prod.splits)
    obtain c where "st_Compensate st = Some c" "c s' = (None, s)"
      using Cons.prems(2) x None unfolding undoes_def by (metis list.set_intros(1))
    moreover have "compensate (rev es) s1 = (map st_Name (rev es), None, s')"
      using Cons.IH [OF f] Cons.prems ds by auto
    ultimately show ?thesis using ds by (simp add: compensate_append)
  next
    case (Some e)
    then show ?thesis using Cons.prems x by (auto simp: undoes_def)
  qed
qed auto

section \<open>Properties\<close>

text \<open>
  The exact order of the actions of a valid saga, read off a log its steps write: the steps are
  executed in order up to the end or to the first that fails; in the second case the completed
  steps that have a compensation are compensated in reverse order, up to the end (status
  compensated) or to the first compensation that fails (status compensating), and the result names
  the completed and the compensated steps.  No run ends with the status failed.
\<close>

lemma saga_Run_order:
  assumes "saga_Validate (Some d) = None"
    and "saga_Run observed True (logged_def d) (s, []) = (r, e, (s', l), evs)"
  shows "(e = None \<and> sr_Status r = StatusCompleted \<and> sr_CompletedSteps r = map st_Name (sd_Steps d)
           \<and> l = map (Pair True) (map st_Name (sd_Steps d)))
    \<or> (\<exists>done x rest. e \<noteq> None \<and> sd_Steps d = done @ x # rest \<and> sr_CompletedSteps r = map st_Name done
         \<and> ((sr_Status r = StatusCompensated \<and> sr_Compensated r = compensable (rev done)
              \<and> l = map (Pair True) (map st_Name (done @ [x])) @ map (Pair False) (sr_Compensated r))
          \<or> (\<exists>n more. sr_Status r = StatusCompensating
              \<and> compensable (rev done) = sr_Compensated r @ n # more
              \<and> l = map (Pair True) (map st_Name (done @ [x]))
                    @ map (Pair False) (sr_Compensated r @ [n]))))"
proof -
  obtain ds f s1 l1 where fw: "forward (map logged (sd_Steps d)) (s, []) = (ds, f, (s1, l1))"
    by (metis prod.collapse)
  obtain es where es: "ds = map logged es"
    "case f of None \<Rightarrow> es = sd_Steps d \<and> l1 = [] @ map (Pair True) (map st_Name es)
     | Some (st, e) \<Rightarrow> (\<exists>x rest. sd_Steps d = es @ x # rest
         \<and> l1 = [] @ map (Pair True) (map st_Name (es @ [x])))"
    using forward_logged [OF fw saga_Validate_Execute [OF assms(1)]] by blast
  note loop = saga_loop_forward [OF fw, of "emit observed (sd_Name d)" "[]"]
  show ?thesis
  proof (cases f)
    case None
    with es loop assms(2) show ?thesis by (auto simp: saga_Run_def logged_def_def o_def)
  next
    case (Some p)
    obtain st fe where p: "p = (st, fe)" by (rule prod.exhaust)
    obtain ns c s2 l2 where c: "compensate (map logged (rev es)) (s1, l1) = (ns, c, (s2, l2))"
      by (metis prod.collapse)
    note log = compensate_logged [OF c]
    from es(2) Some p obtain x rest where x: "sd_Steps d = es @ x # rest"
      "l1 = map (Pair True) (map st_Name (es @ [x]))" by auto
    have run: "l = l2 \<and> sr_CompletedSteps r = map st_Name es \<and> sr_Compensated r = ns \<and> e \<noteq> None
        \<and> sr_Status r = (if c = None then StatusCompensated else StatusCompensating)"
      using loop assms(2) c Some p es(1)
      by (cases c) (auto simp: saga_Run_def logged_def_def rev_map o_def)
    show ?thesis
      by (rule disjI2, rule exI [of _ es], rule exI [of _ x], rule exI [of _ rest])
        (use run log x in \<open>cases c; force\<close>)
  qed
qed

text \<open>Three steps on a counter; the second has no compensation and the third fails.\<close>

definition sample_saga :: "int saga_def" where
  "sample_saga = \<lparr>sd_Name = ''order'', sd_Steps =
     [\<lparr>st_Name = ''reserve'', st_Execute = Some (\<lambda>n. (None, n + 1)),
        st_Compensate = Some (\<lambda>n. (None, n - 1))\<rparr>,
      \<lparr>st_Name = ''notify'', st_Execute = Some (\<lambda>n. (None, n)), st_Compensate = None\<rparr>,
      \<lparr>st_Name = ''pay'', st_Execute = Some (\<lambda>n. (Some (ENew ''declined''), n)),
        st_Compensate = None\<rparr>]\<rparr>"

text \<open>
  C12. Atomicity: when every compensation undoes its step and a failing step leaves the state as it
  was, a saga either completes all its steps and returns nil, or returns the failing step's error
  with the status compensated, the state it started from, and exactly the completed steps
  compensated in reverse order.
\<close>

theorem saga_atomic:
  assumes "\<forall>st \<in> set (sd_Steps d). undoes st" and "saga_Run observed True d s = (r, e, s', evs)"
  shows "(e = None \<and> sr_Status r = StatusCompleted \<and> sr_CompletedSteps r = map st_Name (sd_Steps d)
           \<and> forward (sd_Steps d) s = (sd_Steps d, None, s'))
    \<or> (\<exists>ds st x s1. e = Some x \<and> forward (sd_Steps d) s = (ds, Some (st, x), s1) \<and> s' = s
         \<and> sr_Status r = StatusCompensated \<and> sr_Compensated r = rev (sr_CompletedSteps r))"
proof -
  obtain ds f s1 where fw: "forward (sd_Steps d) s = (ds, f, s1)" by (metis prod.collapse)
  note loop = saga_loop_forward [OF fw, of "emit observed (sd_Name d)" "[]"]
  show ?thesis
  proof (cases f)
    case None
    with fw loop assms(2) forward_prefix [OF fw] show ?thesis by (auto simp: saga_Run_def)
  next
    case (Some p)
    obtain st x where p: "p = (st, x)" by (rule prod.exhaust)
    from fw Some assms(1) have "compensate (rev ds) s1 = (map st_Name (rev ds), None, s)"
      by (intro compensate_undoes) auto
    with fw loop assms(2) Some p show ?thesis by (auto simp: saga_Run_def rev_map)
  qed
qed

definition undo_saga :: "int saga_def" where
  "undo_saga = \<lparr>sd_Name = ''order'', sd_Steps =
     [\<lparr>st_Name = ''reserve'', st_Execute = Some (\<lambda>n. (None, n + 1)),
        st_Compensate = Some (\<lambda>n. (None, n - 1))\<rparr>,
      \<lparr>st_Name = ''double'', st_Execute = Some (\<lambda>n. (None, n + 5)),
        st_Compensate = Some (\<lambda>n. (None, n - 5))\<rparr>,
      \<lparr>st_Name = ''pay'', st_Execute = Some (\<lambda>n. (Some (ENew ''declined''), n)),
        st_Compensate = None\<rparr>]\<rparr>"

theorem saga_atomic_witness:
  "\<exists>r evs. saga_Run False True undo_saga 10 = (r, Some (ENew ''declined''), 10, evs)
     \<and> sr_Compensated r = rev (sr_CompletedSteps r)"
proof -
  have u: "\<forall>st \<in> set (sd_Steps undo_saga). undoes st"
    by (simp add: undo_saga_def undoes_def perform_def)
  obtain r e s' evs where run: "saga_Run False True undo_saga 10 = (r, e, s', evs)"
    by (metis prod.collapse)
  have "e = Some (ENew ''declined'')"
    using run by (auto simp: saga_Run_def undo_saga_def perform_def)
  with saga_atomic [OF u run] run show ?thesis by auto
qed

end
