(* ===== verification/Jobs.thy ===== *)
theory Jobs
  imports Message
begin

text \<open>
  \<^verbatim>\<open>pkg/jobs/contract.go\<close> and \<^verbatim>\<open>pkg/jobs/eventbus_bridge.go\<close>: the job, its validation, its encoding as
  an event bus message and back, and the bridge that enqueues and consumes jobs over an event bus.
  The lemmas show that decoding inverts encoding up to the normalisation the encoder does, and that
  no invalid job is ever decoded or published.
\<close>

section \<open>Jobs\<close>

record job =
  j_ID :: string
  j_Name :: string
  j_Queue :: string
  j_Payload :: string
  j_Headers :: headers
  j_ContentType :: string
  j_TenantID :: string
  j_CorrelationID :: string
  j_IdempotencyKey :: string
  j_PartitionKey :: string
  j_RunAt :: gotime
  j_Attempt :: int
  j_MaxAttempts :: int
  j_CreatedAt :: gotime

definition job_Validate :: "job option \<Rightarrow> err option" where
  "job_Validate jo =
     (case jo of
        None \<Rightarrow> Some (jobsError ErrValidation ''job is nil'')
      | Some j \<Rightarrow>
          (if blank (j_ID j) then Some (jobsError ErrValidation ''job id is required'')
           else if blank (j_Name j) then Some (jobsError ErrValidation ''job name is required'')
           else if blank (j_Queue j) then Some (jobsError ErrValidation ''job queue is required'')
           else if j_Payload j = [] then Some (jobsError ErrValidation ''job payload is required'')
           else if j_Attempt j < 0
             then Some (jobsError ErrValidation ''job attempt must be >= 0'')
           else if j_MaxAttempts j < 0
             then Some (jobsError ErrValidation ''job max attempts must be >= 0'')
           else if j_MaxAttempts j > 0 \<and> j_Attempt j > j_MaxAttempts j
             then Some (jobsError ErrValidation ''job attempt cannot exceed max attempts'')
           else None))"

definition JobPartitionKey :: "string \<Rightarrow> string \<Rightarrow> string \<Rightarrow> string" where
  "JobPartitionKey tenantID0 jobName0 jobID0 =
     (let tenantID = trim_space tenantID0; jobName = trim_space jobName0; jobID = trim_space jobID0
      in if tenantID \<noteq> [] \<and> jobName \<noteq> [] then tenantID @ '':'' @ jobName
         else if jobName \<noteq> [] \<and> jobID \<noteq> [] then jobName @ '':'' @ jobID
         else if jobID \<noteq> [] then jobID
         else jobName)"

fun firstNonEmpty :: "string list \<Rightarrow> string" where
  "firstNonEmpty [] = []"
| "firstNonEmpty (v # vs) = (if \<not> blank v then v else firstNonEmpty vs)"

text \<open>A lease on a reserved job (\<^verbatim>\<open>pkg/jobs/backend.go\<close>).\<close>

record lease =
  l_JobID :: string
  l_Token :: string
  l_Queue :: string
  l_ExpireAt :: gotime
  l_Attempt :: int

section \<open>Encoding as a message\<close>

text \<open>
  \<^verbatim>\<open>time.Time.Format\<close> and \<^verbatim>\<open>time.Parse\<close> with the layout RFC3339Nano are a pair of functions; times
  with a year of four digits survive the round trip.
\<close>

record time_codec =
  format_time :: "gotime \<Rightarrow> string"
  parse_time :: "string \<Rightarrow> gotime result"

definition time_law :: "time_codec \<Rightarrow> gotime \<Rightarrow> bool" where
  "time_law T t \<longleftrightarrow> parse_time T (format_time T t) = Inr t \<and> \<not> blank (format_time T t)
     \<and> trim_space (format_time T t) = format_time T t"

text \<open>The headers both backends add to a job that failed.\<close>

definition failure_headers ::
  "time_codec \<Rightarrow> gotime \<Rightarrow> err option \<Rightarrow> headers \<Rightarrow> headers" where
  "failure_headers T now reason h =
     (case reason of None \<Rightarrow> h | Some e \<Rightarrow> h(''job_failure_reason'' \<mapsto> error_text e))
       (''job_failed_at'' \<mapsto> format_time T now)"

text \<open>Set a header, and set a second one when it has no value.\<close>

definition put_if :: "string \<Rightarrow> string \<Rightarrow> headers \<Rightarrow> headers" where
  "put_if k v h = (if v \<noteq> [] then h(k \<mapsto> v) else h)"

definition put_missing :: "string \<Rightarrow> string \<Rightarrow> headers \<Rightarrow> headers" where
  "put_missing k v h = (if v \<noteq> [] \<and> hget h k = [] then h(k \<mapsto> v) else h)"

definition base_headers :: "time_codec \<Rightarrow> gotime \<Rightarrow> job \<Rightarrow> headers" where
  "base_headers T runAt j = (j_Headers j)
     (''job_id'' \<mapsto> trim_space (j_ID j), ''job_name'' \<mapsto> trim_space (j_Name j),
      ''job_queue'' \<mapsto> trim_space (j_Queue j), ''job_run_at'' \<mapsto> format_time T runAt,
      ''job_attempt'' \<mapsto> itoa (j_Attempt j), ''job_max_attempts'' \<mapsto> itoa (j_MaxAttempts j))"

definition ToEventBusMessage :: "time_codec \<Rightarrow> gotime \<Rightarrow> job option \<Rightarrow> message result" where
  "ToEventBusMessage T now jo =
     (case job_Validate jo of
        Some e \<Rightarrow> Inl e
      | None \<Rightarrow>
          (case jo of
             None \<Rightarrow> Inl (jobsError ErrValidation ''job is nil'')
           | Some j \<Rightarrow>
          (let createdAt = (if j_CreatedAt j = 0 then now else j_CreatedAt j);
               runAt = (if j_RunAt j = 0 then createdAt else j_RunAt j);
               tenant = trim_space (j_TenantID j);
               corr = trim_space (j_CorrelationID j);
               h0 = base_headers T runAt j;
               h1 = put_missing ''tenant_id'' tenant (put_if ''job_tenant_id'' tenant h0);
               h2 = put_missing ''correlation_id'' corr (put_if ''job_correlation_id'' corr h1);
               h3 = put_if ''job_idempotency_key'' (trim_space (j_IdempotencyKey j)) h2;
               contentType = (if blank (j_ContentType j) then ''application/json''
                              else trim_space (j_ContentType j));
               key = (if blank (j_PartitionKey j)
                      then JobPartitionKey (j_TenantID j) (j_Name j) (j_ID j)
                      else trim_space (j_PartitionKey j))
           in Inr \<lparr>msg_ID = trim_space (j_ID j), msg_Key = key, msg_Value = j_Payload j,
                   msg_Headers = h3, msg_ContentType = contentType, msg_Timestamp = createdAt\<rparr>)))"

text \<open>The error of \<^verbatim>\<open>strconv.Atoi\<close> tells a malformed number from one out of range.\<close>

definition atoi_error :: "string \<Rightarrow> err" where
  "atoi_error v =
     (let digits = (case v of [] \<Rightarrow> [] | c # cs \<Rightarrow> (if c = CHR ''-'' \<or> c = CHR ''+'' then cs else v))
      in ENew (''strconv.Atoi: parsing '' @ quoted v @
           (if parse_digits digits = None then '': invalid syntax'' else '': value out of range'')))"

text \<open>A number header: absent when blank, an error when it is no number.\<close>

definition int_header :: "string \<Rightarrow> headers \<Rightarrow> int result" where
  "int_header name h =
     (let v = trim_space (hget h name) in
      if v = [] then Inr 0
      else case parse_int v of
        Some n \<Rightarrow> Inr n
      | None \<Rightarrow> Inl (EJoin [jobsError ErrValidation (''invalid '' @ name @ '' header''),
                          atoi_error v]))"

definition JobFromEventBusMessageWithQueue ::
  "time_codec \<Rightarrow> gotime \<Rightarrow> message option \<Rightarrow> string \<Rightarrow> job result" where
  "JobFromEventBusMessageWithQueue T now mo fallbackQueue =
     (case mo of
        None \<Rightarrow> Inl (jobsError ErrValidation ''message is nil'')
      | Some m \<Rightarrow>
     (if blank (msg_ID m) then Inl (jobsError ErrValidation ''message id is required'')
      else if msg_Value m = [] then Inl (jobsError ErrValidation ''message payload is empty'')
      else
        (let h = msg_Headers m;
             contentType = (if blank (msg_ContentType m) then ''application/json''
                            else trim_space (msg_ContentType m));
             queue = (if blank (hget h ''job_queue'') then trim_space fallbackQueue
                      else trim_space (hget h ''job_queue''));
             runAtHeader = trim_space (hget h ''job_run_at'')
         in case (if runAtHeader = [] then Inr 0
                  else case parse_time T runAtHeader of
                         Inl e \<Rightarrow> Inl (EJoin [jobsError ErrValidation ''invalid job_run_at header'', e])
                       | Inr t \<Rightarrow> Inr t) of
              Inl e \<Rightarrow> Inl e
            | Inr parsed \<Rightarrow>
                (let runAt0 = (if parsed = 0 then msg_Timestamp m else parsed);
                     createdAt = (if msg_Timestamp m = 0 then now else msg_Timestamp m);
                     runAt = (if msg_Timestamp m = 0 \<and> runAt0 = 0 then createdAt else runAt0)
                 in case int_header ''job_attempt'' h of
                      Inl e \<Rightarrow> Inl e
                    | Inr attempt \<Rightarrow>
                        (case int_header ''job_max_attempts'' h of
                           Inl e \<Rightarrow> Inl e
                         | Inr maxAttempts \<Rightarrow>
                             (let j = \<lparr>j_ID = trim_space (msg_ID m),
                                    j_Name = trim_space (hget h ''job_name''),
                                    j_Queue = queue, j_Payload = msg_Value m, j_Headers = h,
                                    j_ContentType = contentType,
                                    j_TenantID = trim_space (firstNonEmpty
                                      [hget h ''job_tenant_id'', hget h ''tenant_id'']),
                                    j_CorrelationID = trim_space (firstNonEmpty
                                      [hget h ''job_correlation_id'', hget h ''correlation_id'']),
                                    j_IdempotencyKey = trim_space (hget h ''job_idempotency_key''),
                                    j_PartitionKey = trim_space (msg_Key m),
                                    j_RunAt = runAt, j_Attempt = attempt,
                                    j_MaxAttempts = maxAttempts, j_CreatedAt = createdAt\<rparr>
                              in case job_Validate (Some j) of Some e \<Rightarrow> Inl e | None \<Rightarrow> Inr j))))))"

definition JobFromEventBusMessage :: "time_codec \<Rightarrow> gotime \<Rightarrow> message option \<Rightarrow> job result" where
  "JobFromEventBusMessage T now mo = JobFromEventBusMessageWithQueue T now mo []"

section \<open>The event bus bridge\<close>

text \<open>The bus is a parameter: \<open>publish\<close> on its state.  \<open>hasBus\<close> is whether the bridge has a bus.\<close>

type_synonym 'b publish = "string \<Rightarrow> message \<Rightarrow> 'b \<Rightarrow> err option \<times> 'b"

definition bridge_Enqueue ::
  "time_codec \<Rightarrow> 'b publish \<Rightarrow> bool \<Rightarrow> gotime \<Rightarrow> job option \<Rightarrow> 'b \<Rightarrow> err option \<times> 'b" where
  "bridge_Enqueue T publish hasBus now jo b =
     (if \<not> hasBus
      then (Some (jobsError ErrNotInitialized ''eventbus bridge is not initialized''), b)
      else case jo of
        None \<Rightarrow> (Some (jobsError ErrInvalidArgument ''job is required''), b)
      | Some j \<Rightarrow>
          (case ToEventBusMessage T now (Some j) of
             Inl e \<Rightarrow> (Some e, b)
           | Inr m \<Rightarrow>
               (case publish (trim_space (j_Queue j)) m b of
                  (Some e, b') \<Rightarrow> (Some (EJoin [jobsError ErrRetryable ''publish job failed'', e]), b')
                | (None, b') \<Rightarrow> (None, b'))))"

text \<open>The callback \<^verbatim>\<open>Subscribe\<close> registers with the bus: decode, then run the handler.\<close>

definition bridge_callback ::
  "time_codec \<Rightarrow> gotime \<Rightarrow> string \<Rightarrow> (job \<Rightarrow> 's \<Rightarrow> err option \<times> 's) \<Rightarrow> message option \<Rightarrow> 's
    \<Rightarrow> err option \<times> 's" where
  "bridge_callback T now queue handler mo s =
     (case JobFromEventBusMessageWithQueue T now mo (trim_space queue) of
        Inl e \<Rightarrow> (Some e, s)
      | Inr j \<Rightarrow> handler j s)"

section \<open>Lemmas\<close>

lemma job_Validate_Some:
  "job_Validate (Some j) = None \<longleftrightarrow>
     \<not> blank (j_ID j) \<and> \<not> blank (j_Name j) \<and> \<not> blank (j_Queue j) \<and> j_Payload j \<noteq> [] \<and>
     0 \<le> j_Attempt j \<and> 0 \<le> j_MaxAttempts j \<and> (j_MaxAttempts j = 0 \<or> j_Attempt j \<le> j_MaxAttempts j)"
  by (auto simp: job_Validate_def)

lemma job_Validate_kind:
  "job_Validate jo = Some e \<Longrightarrow> err_is e (JobsErr ErrValidation)"
  by (auto simp: job_Validate_def split: option.splits if_splits)

lemma hget_put_if [simp]:
  "hget (put_if k v h) k' = (if k' = k \<and> v \<noteq> [] then v else hget h k')"
  by (simp add: put_if_def)

lemma hget_put_missing [simp]:
  "hget (put_missing k v h) k' = (if k' = k \<and> v \<noteq> [] \<and> hget h k = [] then v else hget h k')"
  by (simp add: put_missing_def)

lemma hget_base_headers:
  "hget (base_headers T t j) ''job_name'' = trim_space (j_Name j)"
  "hget (base_headers T t j) ''job_queue'' = trim_space (j_Queue j)"
  "hget (base_headers T t j) ''job_run_at'' = format_time T t"
  "hget (base_headers T t j) ''job_attempt'' = itoa (j_Attempt j)"
  "hget (base_headers T t j) ''job_max_attempts'' = itoa (j_MaxAttempts j)"
  "hget (base_headers T t j) ''job_tenant_id'' = hget (j_Headers j) ''job_tenant_id''"
  "hget (base_headers T t j) ''tenant_id'' = hget (j_Headers j) ''tenant_id''"
  "hget (base_headers T t j) ''job_correlation_id'' = hget (j_Headers j) ''job_correlation_id''"
  "hget (base_headers T t j) ''correlation_id'' = hget (j_Headers j) ''correlation_id''"
  "hget (base_headers T t j) ''job_idempotency_key'' = hget (j_Headers j) ''job_idempotency_key''"
  by (simp_all add: base_headers_def)

lemma firstNonEmpty_trimmed [simp]:
  "firstNonEmpty [trim_space v, w] = (if blank v then firstNonEmpty [w] else trim_space v)"
  by simp

lemma int_header_itoa:
  "hget h name = itoa n \<Longrightarrow> fits64 n \<Longrightarrow> int_header name h = Inr n"
  by (simp add: int_header_def)

lemma json_type [simp]:
  "trim_space ''application/json'' = ''application/json''" "\<not> blank ''application/json''"
  by (simp_all add: trim_space_plain ascii_space_def blank_def)

lemma not_blank_trim: "\<not> blank s \<Longrightarrow> trim_space s \<noteq> []"
  by (simp add: blank_def)

lemma blank_not_empty: "\<not> blank v \<Longrightarrow> v \<noteq> []"
  by auto

text \<open>
  What decoding gives back: the job with its fields trimmed and defaulted the way the encoder does,
  and with tenant, correlation and idempotency key taken from the headers where the job has none.
\<close>

definition canonical_job :: "gotime \<Rightarrow> headers \<Rightarrow> job \<Rightarrow> job" where
  "canonical_job now h j =
     (let createdAt = (if j_CreatedAt j = 0 then now else j_CreatedAt j);
          from = (\<lambda>v k k'. if blank v then trim_space (firstNonEmpty [hget (j_Headers j) k, hget (j_Headers j) k'])
                          else trim_space v)
      in j\<lparr>j_ID := trim_space (j_ID j), j_Name := trim_space (j_Name j),
           j_Queue := trim_space (j_Queue j), j_Headers := h,
           j_ContentType := (if blank (j_ContentType j) then ''application/json''
                             else trim_space (j_ContentType j)),
           j_TenantID := from (j_TenantID j) ''job_tenant_id'' ''tenant_id'',
           j_CorrelationID := from (j_CorrelationID j) ''job_correlation_id'' ''correlation_id'',
           j_IdempotencyKey := (if blank (j_IdempotencyKey j)
              then trim_space (hget (j_Headers j) ''job_idempotency_key'')
              else trim_space (j_IdempotencyKey j)),
           j_PartitionKey := (if blank (j_PartitionKey j)
              then trim_space (JobPartitionKey (j_TenantID j) (j_Name j) (j_ID j))
              else trim_space (j_PartitionKey j)),
           j_RunAt := (if j_RunAt j = 0 then createdAt else j_RunAt j), j_CreatedAt := createdAt\<rparr>)"

section \<open>Properties\<close>

text \<open>
  C23. Job round trip: a valid job whose run time survives RFC3339 formatting encodes to a message
  that every consumer, whatever its fallback queue and clock, decodes to the same job with its
  fields trimmed and defaulted; the message travels under the job's partition key.
\<close>

theorem job_roundtrip:
  assumes "ToEventBusMessage T now (Some j) = Inr m"
    and "fits64 (j_Attempt j)" and "fits64 (j_MaxAttempts j)" and "now \<noteq> 0"
    and "time_law T (j_RunAt (canonical_job now h j))"
  shows "JobFromEventBusMessageWithQueue T now' (Some m) q
      = Inr (canonical_job now (msg_Headers m) j)
    \<and> j_PartitionKey (canonical_job now h j) = trim_space (msg_Key m)"
proof -
  have v: "job_Validate (Some j) = None"
    using assms(1) by (auto simp: ToEventBusMessage_def split: option.splits)
  note ok = v [unfolded job_Validate_Some]
  let ?h = "msg_Headers m"
  have m: "msg_ID m = trim_space (j_ID j)" "msg_Value m = j_Payload j"
    "msg_Timestamp m = (if j_CreatedAt j = 0 then now else j_CreatedAt j)"
    "msg_Key m = (if blank (j_PartitionKey j) then JobPartitionKey (j_TenantID j) (j_Name j) (j_ID j)
       else trim_space (j_PartitionKey j))"
    "msg_ContentType m = (if blank (j_ContentType j) then ''application/json'' else trim_space (j_ContentType j))"
    using assms(1) v by (auto simp: ToEventBusMessage_def Let_def)
  have h: "hget ?h ''job_name'' = trim_space (j_Name j)" "hget ?h ''job_queue'' = trim_space (j_Queue j)"
    "hget ?h ''job_run_at'' = format_time T (j_RunAt (canonical_job now h j))"
    "hget ?h ''job_attempt'' = itoa (j_Attempt j)" "hget ?h ''job_max_attempts'' = itoa (j_MaxAttempts j)"
    using assms(1) v by (auto simp: ToEventBusMessage_def Let_def canonical_job_def hget_base_headers)
  have hd: "?h = put_if ''job_idempotency_key'' (trim_space (j_IdempotencyKey j))
      (put_missing ''correlation_id'' (trim_space (j_CorrelationID j))
      (put_if ''job_correlation_id'' (trim_space (j_CorrelationID j))
      (put_missing ''tenant_id'' (trim_space (j_TenantID j))
      (put_if ''job_tenant_id'' (trim_space (j_TenantID j))
        (base_headers T (j_RunAt (canonical_job now h j)) j)))))"
    using assms(1) v by (auto simp: ToEventBusMessage_def Let_def canonical_job_def)
  have t: "firstNonEmpty [hget ?h ''job_tenant_id'', hget ?h ''tenant_id''] =
      (if blank (j_TenantID j)
       then firstNonEmpty [hget (j_Headers j) ''job_tenant_id'', hget (j_Headers j) ''tenant_id'']
       else trim_space (j_TenantID j))"
    "firstNonEmpty [hget ?h ''job_correlation_id'', hget ?h ''correlation_id''] =
      (if blank (j_CorrelationID j)
       then firstNonEmpty [hget (j_Headers j) ''job_correlation_id'', hget (j_Headers j) ''correlation_id'']
       else trim_space (j_CorrelationID j))"
    "hget ?h ''job_idempotency_key'' = (if blank (j_IdempotencyKey j)
       then hget (j_Headers j) ''job_idempotency_key'' else trim_space (j_IdempotencyKey j))"
    by (simp_all add: hd hget_base_headers blank_def)
  have ts: "msg_Timestamp m \<noteq> 0" using m(3) assms(4) by simp
  have law: "parse_time T (format_time T (j_RunAt (canonical_job now h j))) = Inr (j_RunAt (canonical_job now h j))"
    "format_time T (j_RunAt (canonical_job now h j)) \<noteq> []"
    "trim_space (format_time T (j_RunAt (canonical_job now h j))) = format_time T (j_RunAt (canonical_job now h j))"
    using assms(5) by (auto simp: time_law_def)
  have r: "j_RunAt (canonical_job now h j) \<noteq> 0" using assms(4) by (simp add: canonical_job_def Let_def)
  have v': "job_Validate (Some (canonical_job now ?h j)) = None"
    using ok by (simp add: job_Validate_Some canonical_job_def Let_def not_blank_trim)
  let ?r = "j_RunAt (canonical_job now h j)"
  have c: "canonical_job now ?h j = \<lparr>j_ID = trim_space (msg_ID m), j_Name = trim_space (hget ?h ''job_name''),
      j_Queue = trim_space (hget ?h ''job_queue''), j_Payload = msg_Value m, j_Headers = ?h,
      j_ContentType = (if blank (msg_ContentType m) then ''application/json'' else trim_space (msg_ContentType m)),
      j_TenantID = trim_space (firstNonEmpty [hget ?h ''job_tenant_id'', hget ?h ''tenant_id'']),
      j_CorrelationID = trim_space (firstNonEmpty [hget ?h ''job_correlation_id'', hget ?h ''correlation_id'']),
      j_IdempotencyKey = trim_space (hget ?h ''job_idempotency_key''), j_PartitionKey = trim_space (msg_Key m),
      j_RunAt = ?r, j_Attempt = j_Attempt j, j_MaxAttempts = j_MaxAttempts j, j_CreatedAt = msg_Timestamp m\<rparr>"
    unfolding t h m by (simp add: canonical_job_def Let_def if_distrib [of trim_space] del: firstNonEmpty.simps)
  have "JobFromEventBusMessageWithQueue T now' (Some m) q = Inr (canonical_job now ?h j)"
  proof -
    have pre: "\<not> blank (msg_ID m)" "msg_Value m \<noteq> []" "\<not> blank (hget ?h ''job_queue'')"
      "trim_space (hget ?h ''job_run_at'') = format_time T ?r"
      using ok by (simp_all add: m h law not_blank_trim)
    show ?thesis
      using pre ts r law(1,2) int_header_itoa [OF h(4) assms(2)] int_header_itoa [OF h(5) assms(3)]
        v' c by (simp add: JobFromEventBusMessageWithQueue_def Let_def del: firstNonEmpty.simps)
  qed
  moreover have "j_PartitionKey (canonical_job now h j) = trim_space (msg_Key m)"
    by (simp add: m canonical_job_def Let_def)
  ultimately show ?thesis ..
qed

definition unary_time :: time_codec where
  "unary_time = \<lparr>format_time = itoa,
     parse_time = (\<lambda>s. case parse_int s of Some n \<Rightarrow> Inr n | None \<Rightarrow> Inl (ENew ''parsing time''))\<rparr>"

lemma unary_time_law: "fits64 t \<Longrightarrow> time_law unary_time t"
  by (simp add: time_law_def unary_time_def blank_def)

definition sample_job :: job where
  "sample_job = \<lparr>j_ID = ''j1'', j_Name = ''send'', j_Queue = ''mail'', j_Payload = ''{}'',
     j_Headers = Map.empty, j_ContentType = [], j_TenantID = ''t1'', j_CorrelationID = [],
     j_IdempotencyKey = [], j_PartitionKey = [], j_RunAt = 0, j_Attempt = 1, j_MaxAttempts = 5,
     j_CreatedAt = 0\<rparr>"

lemma sample_job_valid: "job_Validate (Some sample_job) = None"
  by (simp add: job_Validate_Some sample_job_def blank_def trim_space_plain ascii_space_def)

theorem job_roundtrip_witness:
  "\<exists>m j'. ToEventBusMessage unary_time 42 (Some sample_job) = Inr m
    \<and> JobFromEventBusMessageWithQueue unary_time 77 (Some m) ''other'' = Inr j'
    \<and> j_Queue j' = ''mail'' \<and> j_Attempt j' = 1 \<and> j_RunAt j' = 42"
proof -
  obtain m where m: "ToEventBusMessage unary_time 42 (Some sample_job) = Inr m"
    by (simp add: ToEventBusMessage_def sample_job_valid Let_def)
  have "time_law unary_time (j_RunAt (canonical_job 42 Map.empty sample_job))"
    by (rule unary_time_law) (simp add: canonical_job_def sample_job_def Let_def fits64_def)
  then have "JobFromEventBusMessageWithQueue unary_time 77 (Some m) ''other''
      = Inr (canonical_job 42 (msg_Headers m) sample_job)"
    using job_roundtrip [OF m] by (simp add: sample_job_def fits64_def)
  moreover have "j_Queue (canonical_job 42 h sample_job) = ''mail''
      \<and> j_Attempt (canonical_job 42 h sample_job) = 1 \<and> j_RunAt (canonical_job 42 h sample_job) = 42" for h
    by (simp add: canonical_job_def sample_job_def Let_def trim_space_plain ascii_space_def)
  ultimately show ?thesis using m by blast
qed

end
