(* ===== verification/Redis.thy ===== *)
theory Redis
  imports Errors
begin

text \<open>
  The Redis server as the sources use it.  The server is a service outside the repository, so its
  commands are a record of functions on a state; the locale \<open>redis_server\<close> states what Redis
  documents of them over a view of the state: its lists, its sorted sets and its string values with
  their deadlines.  Times and time-outs are in milliseconds of the server's clock.  The theories
  \<open>JobsRedis\<close>, \<open>Locks\<close> and \<open>Stores\<close> are its clients; \<open>memory_redis\<close> is a server that keeps the laws.
\<close>

record 'r redis_ops =
  r_RPUSH :: "string \<Rightarrow> string \<Rightarrow> 'r \<Rightarrow> 'r"
  r_LPOP :: "string \<Rightarrow> 'r \<Rightarrow> string option \<times> 'r"
  r_ZADD :: "string \<Rightarrow> int \<Rightarrow> string \<Rightarrow> 'r \<Rightarrow> 'r"
  r_ZREM :: "string \<Rightarrow> string \<Rightarrow> 'r \<Rightarrow> 'r"
  r_ZRANGEBYSCORE :: "string \<Rightarrow> int \<Rightarrow> int \<Rightarrow> 'r \<Rightarrow> string list"
  r_ZREVRANGE :: "string \<Rightarrow> int \<Rightarrow> 'r \<Rightarrow> string list"
  r_GET :: "int \<Rightarrow> string \<Rightarrow> 'r \<Rightarrow> string option"
  r_SET :: "string \<Rightarrow> string \<Rightarrow> 'r \<Rightarrow> 'r"
  r_SETKEEPTTL :: "int \<Rightarrow> string \<Rightarrow> string \<Rightarrow> 'r \<Rightarrow> 'r"
  r_SETPX :: "int \<Rightarrow> string \<Rightarrow> string \<Rightarrow> int \<Rightarrow> 'r \<Rightarrow> 'r"
  r_SETNXPX :: "int \<Rightarrow> string \<Rightarrow> string \<Rightarrow> int \<Rightarrow> 'r \<Rightarrow> bool \<times> 'r"
  r_DEL :: "int \<Rightarrow> string \<Rightarrow> 'r \<Rightarrow> bool \<times> 'r"
  r_PEXPIRE :: "int \<Rightarrow> string \<Rightarrow> int \<Rightarrow> 'r \<Rightarrow> bool \<times> 'r"

text \<open>A string value and its deadline, \<open>None\<close> when it does not expire.\<close>

type_synonym redis_value = "string \<times> int option"

record 'r redis_view =
  v_list :: "'r \<Rightarrow> string \<Rightarrow> string list"
  v_zset :: "'r \<Rightarrow> string \<Rightarrow> (string \<rightharpoonup> int)"
  v_str :: "'r \<Rightarrow> string \<rightharpoonup> redis_value"

definition live :: "int \<Rightarrow> redis_value option \<Rightarrow> string option" where
  "live t x = (case x of None \<Rightarrow> None | Some (v, d) \<Rightarrow>
     (case d of None \<Rightarrow> Some v | Some e \<Rightarrow> (if t < e then Some v else None)))"

lemma live_simps [simp]:
  "live t None = None" "live t (Some (v, None)) = Some v"
  "live t (Some (v, Some e)) = (if t < e then Some v else None)"
  by (simp_all add: live_def)

text \<open>The client sends a time-out in whole milliseconds, at least one.\<close>

definition set_ms :: "duration \<Rightarrow> int" where
  "set_ms ttl = (let ms = go_div ttl millisecond in if ms \<le> 0 then 1 else ms)"

locale redis_server =
  fixes R :: "'r redis_ops" and V :: "'r redis_view"
  assumes rpush [simp]: "v_list V (r_RPUSH R k x s) = (v_list V s)(k := v_list V s k @ [x])"
      "v_zset V (r_RPUSH R k x s) = v_zset V s" "v_str V (r_RPUSH R k x s) = v_str V s"
    and lpop [simp]: "fst (r_LPOP R k s) = (case v_list V s k of [] \<Rightarrow> None | x # _ \<Rightarrow> Some x)"
      "v_list V (snd (r_LPOP R k s)) = (v_list V s)(k := tl (v_list V s k))"
      "v_zset V (snd (r_LPOP R k s)) = v_zset V s" "v_str V (snd (r_LPOP R k s)) = v_str V s"
    and zadd [simp]: "v_zset V (r_ZADD R k sc x s) = (v_zset V s)(k := (v_zset V s k)(x \<mapsto> sc))"
      "v_list V (r_ZADD R k sc x s) = v_list V s" "v_str V (r_ZADD R k sc x s) = v_str V s"
    and zrem [simp]: "v_zset V (r_ZREM R k x s) = (v_zset V s)(k := (v_zset V s k)(x := None))"
      "v_list V (r_ZREM R k x s) = v_list V s" "v_str V (r_ZREM R k x s) = v_str V s"
    and zrange: "distinct (r_ZRANGEBYSCORE R k mx n s)"
      "length (r_ZRANGEBYSCORE R k mx n s) \<le> nat n"
      "x \<in> set (r_ZRANGEBYSCORE R k mx n s) \<Longrightarrow> \<exists>sc. v_zset V s k x = Some sc \<and> sc \<le> mx"
      "length (r_ZRANGEBYSCORE R k mx n s) < nat n \<Longrightarrow> v_zset V s k x = Some sc \<Longrightarrow> sc \<le> mx \<Longrightarrow>
        x \<in> set (r_ZRANGEBYSCORE R k mx n s)"
    and zrevrange: "x \<in> set (r_ZREVRANGE R k n s) \<Longrightarrow> v_zset V s k x \<noteq> None"
    and get [simp]: "r_GET R t k s = live t (v_str V s k)"
    and set_ [simp]: "v_str V (r_SET R k x s) = (v_str V s)(k \<mapsto> (x, None))"
      "v_list V (r_SET R k x s) = v_list V s" "v_zset V (r_SET R k x s) = v_zset V s"
    and setkeepttl [simp]: "v_str V (r_SETKEEPTTL R t k x s) = (v_str V s)(k \<mapsto>
         (x, if live t (v_str V s k) = None then None else snd (the (v_str V s k))))"
      "v_list V (r_SETKEEPTTL R t k x s) = v_list V s" "v_zset V (r_SETKEEPTTL R t k x s) = v_zset V s"
    and setpx [simp]: "v_str V (r_SETPX R t k x ms s) = (v_str V s)(k \<mapsto> (x, Some (t + ms)))"
      "v_list V (r_SETPX R t k x ms s) = v_list V s" "v_zset V (r_SETPX R t k x ms s) = v_zset V s"
    and setnx [simp]: "fst (r_SETNXPX R t k x ms s) \<longleftrightarrow> live t (v_str V s k) = None"
      "v_str V (snd (r_SETNXPX R t k x ms s)) = (if live t (v_str V s k) = None
         then (v_str V s)(k \<mapsto> (x, Some (t + ms))) else v_str V s)"
      "v_list V (snd (r_SETNXPX R t k x ms s)) = v_list V s"
      "v_zset V (snd (r_SETNXPX R t k x ms s)) = v_zset V s"
    and del [simp]: "fst (r_DEL R t k s) \<longleftrightarrow> live t (v_str V s k) \<noteq> None"
      "v_str V (snd (r_DEL R t k s)) = (v_str V s)(k := None)"
      "v_list V (snd (r_DEL R t k s)) = v_list V s" "v_zset V (snd (r_DEL R t k s)) = v_zset V s"
    and pexpire [simp]: "fst (r_PEXPIRE R t k ms s) \<longleftrightarrow> live t (v_str V s k) \<noteq> None"
      "v_str V (snd (r_PEXPIRE R t k ms s)) = (if live t (v_str V s k) = None then v_str V s
         else (v_str V s)(k := map_option (\<lambda>(v, _). (v, Some (t + ms))) (v_str V s k)))"
      "v_list V (snd (r_PEXPIRE R t k ms s)) = v_list V s"
      "v_zset V (snd (r_PEXPIRE R t k ms s)) = v_zset V s"
begin

lemma get_Some: "r_GET R t k s = Some v \<longleftrightarrow>
    (\<exists>d. v_str V s k = Some (v, d) \<and> (\<forall>e. d = Some e \<longrightarrow> t < e))"
  by (cases "v_str V s k") (auto simp: live_def split: option.splits if_splits)

end

section \<open>A server in memory\<close>

record memory =
  m_list :: "string \<Rightarrow> string list"
  m_zset :: "string \<Rightarrow> (string \<times> int) list"
  m_str :: "string \<rightharpoonup> redis_value"

definition empty_memory :: memory where
  "empty_memory = \<lparr>m_list = (\<lambda>_. []), m_zset = (\<lambda>_. []), m_str = Map.empty\<rparr>"

definition due_members :: "(string \<times> int) list \<Rightarrow> int \<Rightarrow> string list" where
  "due_members z mx = filter (\<lambda>x. the (map_of z x) \<le> mx) (remdups (map fst z))"

definition memory_redis :: "memory redis_ops" where
  "memory_redis =
     \<lparr>r_RPUSH = (\<lambda>k x s. s\<lparr>m_list := (m_list s)(k := m_list s k @ [x])\<rparr>),
      r_LPOP = (\<lambda>k s. (case m_list s k of [] \<Rightarrow> None | x # _ \<Rightarrow> Some x,
                      s\<lparr>m_list := (m_list s)(k := tl (m_list s k))\<rparr>)),
      r_ZADD = (\<lambda>k sc x s. s\<lparr>m_zset := (m_zset s)(k := (x, sc) # m_zset s k)\<rparr>),
      r_ZREM = (\<lambda>k x s. s\<lparr>m_zset := (m_zset s)(k := filter (\<lambda>p. fst p \<noteq> x) (m_zset s k))\<rparr>),
      r_ZRANGEBYSCORE = (\<lambda>k mx n s. take (nat n)
         (sort_key (\<lambda>x. the (map_of (m_zset s k) x)) (due_members (m_zset s k) mx))),
      r_ZREVRANGE = (\<lambda>k n s. take (nat n) (rev (sort_key (\<lambda>x. the (map_of (m_zset s k) x))
         (remdups (map fst (m_zset s k)))))),
      r_GET = (\<lambda>t k s. live t (m_str s k)),
      r_SET = (\<lambda>k x s. s\<lparr>m_str := (m_str s)(k \<mapsto> (x, None))\<rparr>),
      r_SETKEEPTTL = (\<lambda>t k x s. s\<lparr>m_str := (m_str s)(k \<mapsto>
         (x, if live t (m_str s k) = None then None else snd (the (m_str s k))))\<rparr>),
      r_SETPX = (\<lambda>t k x ms s. s\<lparr>m_str := (m_str s)(k \<mapsto> (x, Some (t + ms)))\<rparr>),
      r_SETNXPX = (\<lambda>t k x ms s. if live t (m_str s k) = None
         then (True, s\<lparr>m_str := (m_str s)(k \<mapsto> (x, Some (t + ms)))\<rparr>) else (False, s)),
      r_DEL = (\<lambda>t k s. (live t (m_str s k) \<noteq> None, s\<lparr>m_str := (m_str s)(k := None)\<rparr>)),
      r_PEXPIRE = (\<lambda>t k ms s. if live t (m_str s k) = None then (False, s)
         else (True, s\<lparr>m_str := (m_str s)(k := map_option (\<lambda>(v, _). (v, Some (t + ms))) (m_str s k))\<rparr>))\<rparr>"

definition memory_view :: "memory redis_view" where
  "memory_view = \<lparr>v_list = m_list, v_zset = (\<lambda>s k. map_of (m_zset s k)), v_str = m_str\<rparr>"

lemma map_of_filter_ne: "map_of (filter (\<lambda>p. fst p \<noteq> x) z) = (map_of z)(x := None)"
  by (induction z) (auto simp: fun_eq_iff)

lemma due_members_iff:
  "x \<in> set (due_members z mx) \<longleftrightarrow> (\<exists>sc. map_of z x = Some sc \<and> sc \<le> mx)"
proof -
  have "x \<in> fst ` set z \<longleftrightarrow> (\<exists>sc. map_of z x = Some sc)"
    by (metis map_of_eq_None_iff not_None_eq)
  then show ?thesis by (auto simp: due_members_def)
qed

interpretation mem: redis_server memory_redis memory_view
proof
  fix k x :: string and mx n sc :: int and s :: memory
  let ?z = "m_zset s k" and ?l = "r_ZRANGEBYSCORE memory_redis k mx n s"
  have l: "?l = take (nat n) (sort_key (\<lambda>x. the (map_of ?z x)) (due_members ?z mx))"
    by (simp add: memory_redis_def)
  show "distinct ?l" by (simp add: l due_members_def)
  show "length ?l \<le> nat n" by (simp add: l)
  show "\<exists>sc. v_zset memory_view s k x = Some sc \<and> sc \<le> mx" if "x \<in> set ?l"
    using that in_set_takeD [of x "nat n"] by (fastforce simp: l memory_view_def due_members_iff)
  show "x \<in> set ?l" if "length ?l < nat n" "v_zset memory_view s k x = Some sc" "sc \<le> mx"
    using that due_members_iff [of x ?z mx] by (auto simp: l memory_view_def)
  show "v_zset memory_view s k x \<noteq> None" if "x \<in> set (r_ZREVRANGE memory_redis k n s)"
    using that by (auto simp: memory_redis_def memory_view_def map_of_eq_None_iff dest!: in_set_takeD)
qed (auto simp: memory_redis_def memory_view_def map_of_filter_ne split: list.splits)

end
