(* ===== verification/JobsRedis.thy ===== *)
theory JobsRedis
  imports Jobs Redis
begin

text \<open>
  \<^verbatim>\<open>pkg/jobs/redis_backend.go\<close>: the jobs backend over Redis lists, sorted sets and lease keys, with its
  three Lua scripts.  The server is the parameter of theory \<open>Redis\<close>; the JSON encodings and the
  time format are parameters too.  A call that does not reach the server is an argument \<open>net\<close>, the
  error it returns.  The lemmas show that the reserve script moves exactly one payload from the
  queue to a lease, in order, that a lease is given up by one party only, and what happens to a job
  whose lease expires.
\<close>

section \<open>Configuration and keys\<close>

record redis_config =
  rb_Prefix :: string
  rb_OperationTimeout :: duration
  rb_PollInterval :: duration
  rb_DLQSuffix :: string
  rb_TransferBatch :: int

definition redis_config_normalize :: "redis_config \<Rightarrow> redis_config" where
  "redis_config_normalize c =
     \<lparr>rb_Prefix = (if blank (rb_Prefix c) then ''nimburion:jobs'' else rb_Prefix c),
      rb_OperationTimeout = pos_or (rb_OperationTimeout c) (5 * second),
      rb_PollInterval = pos_or (rb_PollInterval c) (100 * millisecond),
      rb_DLQSuffix = (if blank (rb_DLQSuffix c) then ''.dlq'' else rb_DLQSuffix c),
      rb_TransferBatch = pos_or (rb_TransferBatch c) 100\<rparr>"

record redis_backend =
  rb_hasClient :: bool
  rb_closed :: bool
  rb_config :: redis_config

definition ensureOpen :: "redis_backend option \<Rightarrow> err option" where
  "ensureOpen bo =
     (case bo of
        None \<Rightarrow> Some (jobsError ErrNotInitialized ''redis backend is not initialized'')
      | Some b \<Rightarrow>
          (if \<not> rb_hasClient b
           then Some (jobsError ErrNotInitialized ''redis backend is not initialized'')
           else if rb_closed b then Some (jobsError ErrClosed ''redis backend is closed'')
           else None))"

text \<open>\<^verbatim>\<open>Close\<close>: the flag, and whether the client's \<^verbatim>\<open>Close\<close> is called.\<close>

definition redis_Close :: "redis_backend option \<Rightarrow> redis_backend option \<times> bool" where
  "redis_Close bo =
     (case bo of None \<Rightarrow> (None, False)
      | Some b \<Rightarrow> (if rb_closed b then (Some b, False) else (Some (b\<lparr>rb_closed := True\<rparr>), True)))"

definition redis_prefix :: "redis_config \<Rightarrow> string" where
  "redis_prefix c = trim_right_char CHR '':'' (trim_space (rb_Prefix c))"

definition readyKey :: "redis_config \<Rightarrow> string \<Rightarrow> string" where
  "readyKey c queue = redis_prefix c @ '':queue:'' @ trim_space queue @ '':ready''"

definition delayedKey :: "redis_config \<Rightarrow> string \<Rightarrow> string" where
  "delayedKey c queue = redis_prefix c @ '':queue:'' @ trim_space queue @ '':delayed''"

definition leaseKeyPrefix :: "redis_config \<Rightarrow> string" where
  "leaseKeyPrefix c = redis_prefix c @ '':lease:''"

definition leaseKey :: "redis_config \<Rightarrow> string \<Rightarrow> string" where
  "leaseKey c token = redis_prefix c @ '':lease:'' @ trim_space token"

definition dlqIndexKey :: "redis_config \<Rightarrow> string \<Rightarrow> string" where
  "dlqIndexKey c queue = redis_prefix c @ '':dlq:index:'' @ trim_space queue"

definition dlqEntryKey :: "redis_config \<Rightarrow> string \<Rightarrow> string \<Rightarrow> string" where
  "dlqEntryKey c queue i = redis_prefix c @ '':dlq:entry:'' @ trim_space queue @ '':'' @ trim_space i"

text \<open>\<^verbatim>\<open>Time.UnixMilli\<close>: whole milliseconds since 1970.\<close>

definition unix_milli :: "gotime \<Rightarrow> int" where
  "unix_milli t = (t - 62135596800 * 10 ^ 9) div 10 ^ 6"

section \<open>The scripts\<close>

definition reserve_script ::
  "'r redis_ops \<Rightarrow> int \<Rightarrow> string \<Rightarrow> string \<Rightarrow> string \<Rightarrow> int \<Rightarrow> int \<Rightarrow> int \<Rightarrow> string \<Rightarrow> 'r
    \<Rightarrow> string option \<times> 'r" where
  "reserve_script R t delayed ready leasePrefix nowMs transferBatch leaseMs token s =
     (let due = r_ZRANGEBYSCORE R delayed nowMs transferBatch s;
          s1 = fold (\<lambda>payload s. r_ZREM R delayed payload (r_RPUSH R ready payload s)) due s;
          (popped, s2) = r_LPOP R ready s1
      in case popped of
           None \<Rightarrow> (None, s2)
         | Some payload \<Rightarrow> (Some payload, r_SETPX R t (leasePrefix @ token) payload leaseMs s2))"

definition get_and_delete_script ::
  "'r redis_ops \<Rightarrow> int \<Rightarrow> string \<Rightarrow> 'r \<Rightarrow> string option \<times> 'r" where
  "get_and_delete_script R t key s =
     (case r_GET R t key s of
        None \<Rightarrow> (None, s)
      | Some value \<Rightarrow> (Some value, snd (r_DEL R t key s)))"

definition transition_script ::
  "'r redis_ops \<Rightarrow> int \<Rightarrow> string \<Rightarrow> string \<Rightarrow> string \<Rightarrow> string \<Rightarrow> string \<Rightarrow> int \<Rightarrow> int \<Rightarrow> 'r \<Rightarrow> int \<times> 'r" where
  "transition_script R t lease ready delayed expected encoded runAtMs nowMs s =
     (case r_GET R t lease s of
        None \<Rightarrow> (0, s)
      | Some current \<Rightarrow>
          (if current \<noteq> expected then (-1, s)
           else let s1 = snd (r_DEL R t lease s)
                in (1, if runAtMs \<le> nowMs then r_RPUSH R ready encoded s1
                       else r_ZADD R delayed runAtMs encoded s1)))"

section \<open>Operations\<close>

text \<open>
  \<^verbatim>\<open>encoding/json\<close> on the job envelope (whose job may be null) and on dead-letter records.
\<close>

record dlq_entry =
  de_ID :: string
  de_Queue :: string
  de_OriginalQueue :: string
  de_Job :: job
  de_Reason :: string
  de_FailedAt :: gotime

record job_codec =
  enc_job :: "job \<Rightarrow> string result"
  dec_job :: "string \<Rightarrow> job option result"
  enc_dlq :: "dlq_entry \<Rightarrow> string result"
  dec_dlq :: "string \<Rightarrow> dlq_entry result"

definition redis_Enqueue ::
  "'r redis_ops \<Rightarrow> job_codec \<Rightarrow> redis_backend option \<Rightarrow> bool \<Rightarrow> job option \<Rightarrow> gotime \<Rightarrow> gotime
    \<Rightarrow> err option \<Rightarrow> 'r \<Rightarrow> err option \<times> 'r" where
  "redis_Enqueue R J bo hasCtx jo t1 t2 net s =
     (case ensureOpen bo of
        Some e \<Rightarrow> (Some e, s)
      | None \<Rightarrow>
     (if \<not> hasCtx then (Some (jobsError ErrInvalidArgument ''context is required''), s)
      else case jo of
        None \<Rightarrow> (Some (jobsError ErrInvalidArgument ''job is required''), s)
      | Some j0 \<Rightarrow>
          (case job_Validate (Some j0) of
             Some e \<Rightarrow> (Some e, s)
           | None \<Rightarrow>
               (let c = rb_config (the bo);
                    j1 = (if j_CreatedAt j0 = 0 then j0\<lparr>j_CreatedAt := t1\<rparr> else j0);
                    j = (if j_RunAt j1 = 0 then j1\<lparr>j_RunAt := j_CreatedAt j1\<rparr> else j1)
                in case enc_job J j of
                     Inl e \<Rightarrow> (Some (EJoin [jobsError ErrValidation ''marshal job envelope failed'', e]), s)
                   | Inr encoded \<Rightarrow>
                       (case net of
                          Some e \<Rightarrow> (Some e, s)
                        | None \<Rightarrow>
                            (None, if j_RunAt j \<le> t2 then r_RPUSH R (readyKey c (j_Queue j)) encoded s
                                   else r_ZADD R (delayedKey c (j_Queue j)) (unix_milli (j_RunAt j))
                                          encoded s))))))"

definition redis_Ack ::
  "'r redis_ops \<Rightarrow> redis_backend option \<Rightarrow> lease option \<Rightarrow> int \<Rightarrow> err option \<Rightarrow> 'r \<Rightarrow> err option \<times> 'r" where
  "redis_Ack R bo lo t net s =
     (case ensureOpen bo of
        Some e \<Rightarrow> (Some e, s)
      | None \<Rightarrow>
          (case lo of
             None \<Rightarrow> (Some (jobsError ErrInvalidArgument ''lease token is required''), s)
           | Some l \<Rightarrow>
               (if blank (l_Token l)
                then (Some (jobsError ErrInvalidArgument ''lease token is required''), s)
                else case net of
                  Some e \<Rightarrow> (Some e, s)
                | None \<Rightarrow>
                    (None, snd (get_and_delete_script R t
                       (leaseKey (rb_config (the bo)) (trim_space (l_Token l))) s)))))"

text \<open>
  What one iteration of the loop of \<^verbatim>\<open>Reserve\<close> meets: the context's error at its start, the random
  token, the two clocks, the error of the script call and of the \<^verbatim>\<open>Ack\<close> of a discarded payload, and
  whether the context is done while it waits.
\<close>

record reserve_round =
  rr_ctxErr :: "err option"
  rr_token :: string
  rr_now :: gotime
  rr_server :: int
  rr_net :: "err option"
  rr_ackNet :: "err option"
  rr_done :: "err option"

definition lease_ms :: "duration \<Rightarrow> int" where
  "lease_ms leaseFor = (let ms = go_div leaseFor millisecond in if ms \<le> 0 then 1 else ms)"

fun reserve_loop ::
  "'r redis_ops \<Rightarrow> job_codec \<Rightarrow> redis_backend \<Rightarrow> string \<Rightarrow> duration \<Rightarrow> reserve_round list \<Rightarrow> 'r
    \<Rightarrow> (job \<times> lease) result option \<times> 'r" where
  "reserve_loop R J b queue leaseFor [] s = (None, s)"
| "reserve_loop R J b queue leaseFor (rr # rs) s =
     (case rr_ctxErr rr of
        Some e \<Rightarrow> (Some (Inl e), s)
      | None \<Rightarrow>
     (case rr_net rr of
        Some e \<Rightarrow> (Some (Inl e), s)
      | None \<Rightarrow>
     (case reserve_script R (rr_server rr) (delayedKey (rb_config b) queue)
             (readyKey (rb_config b) queue) (leaseKeyPrefix (rb_config b)) (unix_milli (rr_now rr))
             (rb_TransferBatch (rb_config b)) (lease_ms leaseFor) (rr_token rr) s of
        (None, s1) \<Rightarrow>
          (case rr_done rr of Some e \<Rightarrow> (Some (Inl e), s1)
           | None \<Rightarrow> reserve_loop R J b queue leaseFor rs s1)
      | (Some raw, s1) \<Rightarrow>
          (if blank raw then
             (case rr_done rr of Some e \<Rightarrow> (Some (Inl e), s1)
              | None \<Rightarrow> reserve_loop R J b queue leaseFor rs s1)
           else
             (let discard = (\<lambda>s. snd (redis_Ack R (Some b)
                    (Some \<lparr>l_JobID = [], l_Token = rr_token rr, l_Queue = [], l_ExpireAt = 0, l_Attempt = 0\<rparr>)
                    (rr_server rr) (rr_ackNet rr) s))
              in case dec_job J raw of
                   Inl _ \<Rightarrow> reserve_loop R J b queue leaseFor rs (discard s1)
                 | Inr None \<Rightarrow> reserve_loop R J b queue leaseFor rs (discard s1)
                 | Inr (Some j0) \<Rightarrow>
                     (let j = (if blank (j_Queue j0) then j0\<lparr>j_Queue := queue\<rparr> else j0)
                      in case job_Validate (Some j) of
                           Some _ \<Rightarrow> reserve_loop R J b queue leaseFor rs (discard s1)
                         | None \<Rightarrow>
                             (Some (Inr (j, \<lparr>l_JobID = trim_space (j_ID j), l_Token = rr_token rr,
                                l_Queue = queue, l_ExpireAt = rr_now rr + leaseFor,
                                l_Attempt = j_Attempt j\<rparr>)), s1)))))))"

definition redis_Reserve ::
  "'r redis_ops \<Rightarrow> job_codec \<Rightarrow> redis_backend option \<Rightarrow> bool \<Rightarrow> string \<Rightarrow> duration \<Rightarrow> reserve_round list \<Rightarrow> 'r
    \<Rightarrow> (job \<times> lease) result option \<times> 'r" where
  "redis_Reserve R J bo hasCtx queue0 leaseFor0 rounds s =
     (case ensureOpen bo of
        Some e \<Rightarrow> (Some (Inl e), s)
      | None \<Rightarrow>
          (if \<not> hasCtx then (Some (Inl (jobsError ErrInvalidArgument ''context is required'')), s)
           else if blank queue0 then (Some (Inl (jobsError ErrInvalidArgument ''queue is required'')), s)
           else reserve_loop R J (the bo) (trim_space queue0) (pos_or leaseFor0 (30 * second)) rounds s))"

definition redis_Renew ::
  "'r redis_ops \<Rightarrow> redis_backend option \<Rightarrow> lease option \<Rightarrow> duration \<Rightarrow> int \<Rightarrow> err option \<Rightarrow> 'r
    \<Rightarrow> err option \<times> 'r" where
  "redis_Renew R bo lo leaseFor0 t net s =
     (case ensureOpen bo of
        Some e \<Rightarrow> (Some e, s)
      | None \<Rightarrow>
          (case lo of
             None \<Rightarrow> (Some (jobsError ErrInvalidArgument ''lease token is required''), s)
           | Some l \<Rightarrow>
               (if blank (l_Token l)
                then (Some (jobsError ErrInvalidArgument ''lease token is required''), s)
                else case net of
                  Some e \<Rightarrow> (Some e, s)
                | None \<Rightarrow>
                    (let leaseFor = pos_or leaseFor0 (30 * second);
                         (found, s') = r_PEXPIRE R t (leaseKey (rb_config (the bo)) (trim_space (l_Token l)))
                                         (lease_ms leaseFor) s
                     in if \<not> found then (Some (jobsError ErrNotFound ''lease not found''), s')
                        else (None, s')))))"

definition readLeasedJob ::
  "'r redis_ops \<Rightarrow> job_codec \<Rightarrow> redis_backend option \<Rightarrow> lease option \<Rightarrow> int \<Rightarrow> err option \<Rightarrow> 'r
    \<Rightarrow> (string \<times> job) result" where
  "readLeasedJob R J bo lo t net s =
     (case ensureOpen bo of
        Some e \<Rightarrow> Inl e
      | None \<Rightarrow>
          (case lo of
             None \<Rightarrow> Inl (jobsError ErrInvalidArgument ''lease token is required'')
           | Some l \<Rightarrow>
               (if blank (l_Token l) then Inl (jobsError ErrInvalidArgument ''lease token is required'')
                else case net of
                  Some e \<Rightarrow> Inl e
                | None \<Rightarrow>
                    (case r_GET R t (leaseKey (rb_config (the bo)) (trim_space (l_Token l))) s of
                       None \<Rightarrow> Inl (jobsError ErrNotFound ''lease not found'')
                     | Some raw \<Rightarrow>
                         (case dec_job J raw of
                            Inl e \<Rightarrow> Inl (EJoin [jobsError ErrValidation ''decode lease payload failed'', e])
                          | Inr None \<Rightarrow>
                              Inl (jobsError ErrValidation ''lease payload does not contain a job'')
                          | Inr (Some j0) \<Rightarrow>
                              (let j = (if blank (j_Queue j0) then j0\<lparr>j_Queue := trim_space (l_Queue l)\<rparr>
                                        else j0)
                               in case job_Validate (Some j) of Some e \<Rightarrow> Inl e
                                  | None \<Rightarrow> Inr (raw, j)))))))"

definition transitionLeaseToQueue ::
  "'r redis_ops \<Rightarrow> redis_backend option \<Rightarrow> lease option \<Rightarrow> string \<Rightarrow> string \<Rightarrow> string \<Rightarrow> gotime
    \<Rightarrow> gotime \<Rightarrow> gotime \<Rightarrow> int \<Rightarrow> err option \<Rightarrow> 'r \<Rightarrow> err option \<times> 'r" where
  "transitionLeaseToQueue R bo lo expected nextPayload queue runAt t1 t2 t net s =
     (case ensureOpen bo of
        Some e \<Rightarrow> (Some e, s)
      | None \<Rightarrow>
          (case lo of
             None \<Rightarrow> (Some (jobsError ErrInvalidArgument ''lease token is required''), s)
           | Some l \<Rightarrow>
               (if blank (l_Token l)
                then (Some (jobsError ErrInvalidArgument ''lease token is required''), s)
                else if blank queue then (Some (jobsError ErrInvalidArgument ''queue is required''), s)
                else if blank nextPayload
                  then (Some (jobsError ErrInvalidArgument ''next payload is required''), s)
                else if blank expected
                  then (Some (jobsError ErrInvalidArgument ''expected lease payload is required''), s)
                else case net of
                  Some e \<Rightarrow> (Some e, s)
                | None \<Rightarrow>
                    (let c = rb_config (the bo); at = (if runAt = 0 then t1 else runAt);
                         (r, s') = transition_script R t (leaseKey c (trim_space (l_Token l)))
                                     (readyKey c (trim_space queue)) (delayedKey c (trim_space queue))
                                     expected nextPayload (unix_milli at) (unix_milli t2) s
                     in if r = 1 then (None, s')
                        else if r = 0 then (Some (jobsError ErrNotFound ''lease not found''), s')
                        else if r = -1 then (Some (jobsError ErrConflict
                               ''lease payload changed while transitioning''), s')
                        else (Some (jobsError ErrValidation
                               (''invalid lease transition result: '' @ itoa r)), s')))))"

text \<open>
  The clock readings of \<^verbatim>\<open>Nack\<close> and \<^verbatim>\<open>MoveToDLQ\<close> are one argument \<open>now\<close>, the server's \<open>t\<close>; \<open>net1\<close>, \<open>net2\<close>
  and \<open>net3\<close> are the errors of their calls.
\<close>

definition redis_Nack ::
  "'r redis_ops \<Rightarrow> job_codec \<Rightarrow> time_codec \<Rightarrow> redis_backend option \<Rightarrow> lease option \<Rightarrow> gotime \<Rightarrow> err option
    \<Rightarrow> gotime \<Rightarrow> int \<Rightarrow> err option \<Rightarrow> err option \<Rightarrow> 'r \<Rightarrow> err option \<times> 'r" where
  "redis_Nack R J T bo lo nextRunAt reason now t net1 net2 s =
     (case readLeasedJob R J bo lo t net1 s of
        Inl e \<Rightarrow> (Some e, s)
      | Inr (raw, j0) \<Rightarrow>
          (let j = j0\<lparr>j_Attempt := i64 (j_Attempt j0 + 1),
                      j_Headers := failure_headers T now reason (j_Headers j0),
                      j_RunAt := (if nextRunAt = 0 then now else nextRunAt)\<rparr>
           in case enc_job J j of
                Inl e \<Rightarrow> (Some (EJoin [jobsError ErrValidation ''marshal retry job failed'', e]), s)
              | Inr encoded \<Rightarrow>
                  transitionLeaseToQueue R bo lo raw encoded (trim_space (j_Queue j)) (j_RunAt j)
                    now now t net2 s))"

definition saveDLQEntry ::
  "'r redis_ops \<Rightarrow> job_codec \<Rightarrow> redis_config \<Rightarrow> dlq_entry \<Rightarrow> err option \<Rightarrow> 'r \<Rightarrow> err option \<times> 'r" where
  "saveDLQEntry R J c e net s =
     (let queue = trim_space (de_OriginalQueue e) in
      if queue = [] then (Some (jobsError ErrInvalidArgument ''dlq original queue is required''), s)
      else case enc_dlq J (e\<lparr>de_OriginalQueue := queue\<rparr>) of
        Inl x \<Rightarrow> (Some x, s)
      | Inr encoded \<Rightarrow>
          (case net of
             Some x \<Rightarrow> (Some x, s)
           | None \<Rightarrow> (None, r_ZADD R (dlqIndexKey c queue) (unix_milli (de_FailedAt e)) (de_ID e)
                           (r_SET R (dlqEntryKey c queue (de_ID e)) encoded s))))"

definition redis_MoveToDLQ ::
  "'r redis_ops \<Rightarrow> job_codec \<Rightarrow> time_codec \<Rightarrow> redis_backend option \<Rightarrow> lease option \<Rightarrow> err option
    \<Rightarrow> string \<Rightarrow> gotime \<Rightarrow> int \<Rightarrow> err option \<Rightarrow> err option \<Rightarrow> err option \<Rightarrow> 'r \<Rightarrow> err option \<times> 'r" where
  "redis_MoveToDLQ R J T bo lo reason entryID now t net1 net2 net3 s =
     (case readLeasedJob R J bo lo t net1 s of
        Inl e \<Rightarrow> (Some e, s)
      | Inr (raw, j0) \<Rightarrow>
          (let c = rb_config (the bo);
               originalQueue = (if blank (j_Queue j0) then (case lo of None \<Rightarrow> [] | Some l \<Rightarrow> trim_space (l_Queue l))
                                else trim_space (j_Queue j0));
               j = j0\<lparr>j_Queue := originalQueue @ rb_DLQSuffix c,
                      j_Headers := failure_headers T now reason
                        ((j_Headers j0)(''job_original_queue'' \<mapsto> originalQueue))\<rparr>
           in case enc_job J j of
                Inl e \<Rightarrow> (Some (EJoin [jobsError ErrValidation ''marshal dlq job failed'', e]), s)
              | Inr encoded \<Rightarrow>
                  (case transitionLeaseToQueue R bo lo raw encoded (trim_space (j_Queue j)) now now now t net2 s of
                     (Some e, s1) \<Rightarrow> (Some e, s1)
                   | (None, s1) \<Rightarrow>
                       saveDLQEntry R J c
                         \<lparr>de_ID = entryID, de_Queue = j_Queue j, de_OriginalQueue = originalQueue,
                          de_Job = j, de_Reason = trim_space (hget (j_Headers j) ''job_failure_reason''),
                          de_FailedAt = now\<rparr> net3 s1)))"

fun list_entries ::
  "'r redis_ops \<Rightarrow> job_codec \<Rightarrow> redis_config \<Rightarrow> string \<Rightarrow> int \<Rightarrow> string list \<Rightarrow> 'r \<Rightarrow> dlq_entry list" where
  "list_entries R J c queue t [] s = []"
| "list_entries R J c queue t (i # is) s =
     (case r_GET R t (dlqEntryKey c queue i) s of
        None \<Rightarrow> list_entries R J c queue t is s
      | Some raw \<Rightarrow>
          (case dec_dlq J raw of
             Inl _ \<Rightarrow> list_entries R J c queue t is s
           | Inr e \<Rightarrow> e # list_entries R J c queue t is s))"

definition redis_ListDLQ ::
  "'r redis_ops \<Rightarrow> job_codec \<Rightarrow> redis_backend option \<Rightarrow> string \<Rightarrow> int \<Rightarrow> int \<Rightarrow> err option \<Rightarrow> 'r
    \<Rightarrow> dlq_entry list result" where
  "redis_ListDLQ R J bo queue0 limit0 t net s =
     (case ensureOpen bo of
        Some e \<Rightarrow> Inl e
      | None \<Rightarrow>
          (if blank queue0 then Inl (jobsError ErrInvalidArgument ''queue is required'')
           else case net of
             Some e \<Rightarrow> Inl e
           | None \<Rightarrow>
               (let c = rb_config (the bo); queue = trim_space queue0
                in Inr (list_entries R J c queue t
                     (r_ZREVRANGE R (dlqIndexKey c queue) (pos_or limit0 50) s) s))))"

fun replay_loop ::
  "'r redis_ops \<Rightarrow> job_codec \<Rightarrow> redis_backend \<Rightarrow> string \<Rightarrow> gotime \<Rightarrow> int \<Rightarrow> string list \<Rightarrow> int \<Rightarrow> 'r
    \<Rightarrow> (int \<times> err option) \<times> 'r" where
  "replay_loop R J b queue now t [] n s = ((n, None), s)"
| "replay_loop R J b queue now t (i0 # is) n s =
     (let i = trim_space i0; c = rb_config b in
      if i = [] then replay_loop R J b queue now t is n s
      else case r_GET R t (dlqEntryKey c queue i) s of
        None \<Rightarrow> replay_loop R J b queue now t is n s
      | Some raw \<Rightarrow>
          (case dec_dlq J raw of
             Inl _ \<Rightarrow> replay_loop R J b queue now t is n s
           | Inr e \<Rightarrow>
               (let j = (de_Job e)\<lparr>j_Queue := de_OriginalQueue e,
                          j_Headers := (j_Headers (de_Job e))(''dlq_replay'' \<mapsto> ''true''),
                          j_Attempt := 0, j_RunAt := now\<rparr>
                in case redis_Enqueue R J (Some b) True (Some j) now now None s of
                     (Some x, s1) \<Rightarrow> ((n, Some x), s1)
                   | (None, s1) \<Rightarrow>
                       replay_loop R J b queue now t is (n + 1)
                         (snd (r_DEL R t (dlqEntryKey c queue i)
                           (r_ZREM R (dlqIndexKey c queue) i s1))))))"

text \<open>\<^verbatim>\<open>ReplayDLQ\<close> with a connection that holds for the whole call.\<close>

definition redis_ReplayDLQ ::
  "'r redis_ops \<Rightarrow> job_codec \<Rightarrow> redis_backend option \<Rightarrow> string \<Rightarrow> string list \<Rightarrow> gotime \<Rightarrow> int \<Rightarrow> 'r
    \<Rightarrow> (int \<times> err option) \<times> 'r" where
  "redis_ReplayDLQ R J bo queue0 ids now t s =
     (case ensureOpen bo of
        Some e \<Rightarrow> ((0, Some e), s)
      | None \<Rightarrow>
          (if blank queue0 then ((0, Some (jobsError ErrInvalidArgument ''queue is required'')), s)
           else if ids = [] then ((0, None), s)
           else replay_loop R J (the bo) (trim_space queue0) now t ids 0 s))"

section \<open>Lemmas on the scripts\<close>

text \<open>
  A sequence of reserve calls on one queue: for each the server's and the caller's clock, the lease
  time and the token; the payloads handed out, in order.
\<close>

type_synonym reserve_call = "int \<times> int \<times> int \<times> string"

fun reserves ::
  "'r redis_ops \<Rightarrow> string \<Rightarrow> string \<Rightarrow> string \<Rightarrow> int \<Rightarrow> reserve_call list \<Rightarrow> 'r \<Rightarrow> string list \<times> 'r" where
  "reserves R delayed ready prefix batch [] s = ([], s)"
| "reserves R delayed ready prefix batch ((t, nowMs, leaseMs, token) # cs) s =
     (let (r, s1) = reserve_script R t delayed ready prefix nowMs batch leaseMs token s;
          (ps, s2) = reserves R delayed ready prefix batch cs s1
      in ((case r of None \<Rightarrow> [] | Some p \<Rightarrow> [p]) @ ps, s2))"

text \<open>Whether a payload is anywhere in the server at time \<open>t\<close>.\<close>

definition held :: "'r redis_view \<Rightarrow> int \<Rightarrow> 'r \<Rightarrow> string \<Rightarrow> bool" where
  "held V t s p \<longleftrightarrow> (\<exists>k. p \<in> set (v_list V s k)) \<or> (\<exists>k. v_zset V s k p \<noteq> None)
     \<or> (\<exists>k. live t (v_str V s k) = Some p)"

text \<open>The server gained one payload, in the ready list or the delayed set of queue \<open>q\<close>.\<close>

definition requeued :: "'r redis_view \<Rightarrow> redis_config \<Rightarrow> string \<Rightarrow> string \<Rightarrow> 'r \<Rightarrow> 'r \<Rightarrow> bool" where
  "requeued V c q enc s s' \<longleftrightarrow>
     (v_list V s' = (v_list V s)(readyKey c q := v_list V s (readyKey c q) @ [enc])
        \<and> v_zset V s' = v_zset V s)
     \<or> (v_list V s' = v_list V s \<and> (\<exists>at. v_zset V s' =
          (v_zset V s)(delayedKey c q := (v_zset V s (delayedKey c q))(enc \<mapsto> at))))"

context redis_server
begin

lemma move_due:
  "v_list V (fold (\<lambda>p s. r_ZREM R d p (r_RPUSH R r p s)) due s) = (v_list V s)(r := v_list V s r @ due)"
  "v_zset V (fold (\<lambda>p s. r_ZREM R d p (r_RPUSH R r p s)) due s)
     = (v_zset V s)(d := (v_zset V s d) |` (- set due))"
  "v_str V (fold (\<lambda>p s. r_ZREM R d p (r_RPUSH R r p s)) due s) = v_str V s"
  by (induction due arbitrary: s) (auto simp: restrict_map_def fun_eq_iff)

lemma reserve_script_view:
  assumes "reserve_script R t d r prefix nowMs batch leaseMs token s = (x, s')"
    and "due = r_ZRANGEBYSCORE R d nowMs batch s"
  shows "v_zset V s' = (v_zset V s)(d := (v_zset V s d) |` (- set due))
    \<and> (case x of
         None \<Rightarrow> v_list V s r @ due = [] \<and> v_list V s' = v_list V s \<and> v_str V s' = v_str V s
       | Some p \<Rightarrow> v_list V s r @ due = p # v_list V s' r
           \<and> (\<forall>k. k \<noteq> r \<longrightarrow> v_list V s' k = v_list V s k)
           \<and> v_str V s' = (v_str V s)(prefix @ token \<mapsto> (p, Some (t + leaseMs))))"
proof -
  let ?s1 = "fold (\<lambda>p s. r_ZREM R d p (r_RPUSH R r p s)) due s"
  note m = move_due [of d r due s]
  obtain q s2 where q: "r_LPOP R r ?s1 = (q, s2)" by (rule prod.exhaust)
  have f: "q = (case v_list V s r @ due of [] \<Rightarrow> None | y # _ \<Rightarrow> Some y)"
    "v_list V s2 = (v_list V s)(r := tl (v_list V s r @ due))"
    "v_zset V s2 = v_zset V ?s1" "v_str V s2 = v_str V s"
    using lpop [of r ?s1] q m by auto
  show ?thesis
  proof (cases "v_list V s r @ due")
    case Nil
    with assms f q m show ?thesis by (auto simp: reserve_script_def Let_def)
  next
    case (Cons y ys)
    with assms f q m show ?thesis by (auto simp: reserve_script_def Let_def)
  qed
qed

lemma reserves_view:
  assumes "reserves R d r prefix batch cs s = (ps, s')"
  shows "\<exists>ds. v_list V s r @ ds = ps @ v_list V s' r \<and> distinct ds
    \<and> set ds \<subseteq> dom (v_zset V s d) \<and> v_zset V s' d = (v_zset V s d) |` (- set ds)"
  using assms
proof (induction cs arbitrary: s ps)
  case Nil
  then show ?case by (intro exI [of _ "[]"]) simp
next
  case (Cons c cs)
  obtain t nowMs leaseMs token where c: "c = (t, nowMs, leaseMs, token)" by (metis surj_pair)
  obtain x s1 where x: "reserve_script R t d r prefix nowMs batch leaseMs token s = (x, s1)"
    by (rule prod.exhaust)
  obtain qs where qs: "reserves R d r prefix batch cs s1 = (qs, s')"
    and ps: "ps = (case x of None \<Rightarrow> [] | Some p \<Rightarrow> [p]) @ qs"
    using Cons.prems c x by (auto simp: Let_def split: prod.splits)
  let ?due = "r_ZRANGEBYSCORE R d nowMs batch s"
  note step = reserve_script_view [OF x refl]
  obtain ds where ds: "v_list V s1 r @ ds = qs @ v_list V s' r" "distinct ds"
    "set ds \<subseteq> dom (v_zset V s1 d)" "v_zset V s' d = (v_zset V s1 d) |` (- set ds)"
    using Cons.IH [OF qs] by blast
  have z: "v_zset V s1 d = (v_zset V s d) |` (- set ?due)" using step by simp
  have "set ?due \<subseteq> dom (v_zset V s d)" using zrange(3) by fastforce
  moreover have "(v_list V s r @ ?due) @ ds = ps @ v_list V s' r"
  proof (cases x)
    case None
    then have "v_list V s r @ ?due = []" "v_list V s1 = v_list V s" using step by simp_all
    then show ?thesis using ds(1) ps None by simp
  next
    case (Some p)
    then have "v_list V s r @ ?due = p # v_list V s1 r" using step by auto
    then have "(v_list V s r @ ?due) @ ds = p # (v_list V s1 r @ ds)" by (simp only: append_Cons)
    then show ?thesis unfolding ds(1) ps Some by simp
  qed
  moreover have "distinct (?due @ ds)" using ds(2,3) z zrange(1) by auto
  moreover have "set ds \<subseteq> dom (v_zset V s d)" using ds(3) z by auto
  ultimately show ?case
    using ds(4) z by (intro exI [of _ "?due @ ds"]) (auto simp: restrict_map_def fun_eq_iff simp flip: append_assoc)
qed

lemma get_and_delete_view:
  assumes "get_and_delete_script R t k s = (x, s')"
  shows "x = live t (v_str V s k) \<and> live t' (v_str V s' k) = (if x = None then live t' (v_str V s k) else None)"
  using assms by (auto simp: get_and_delete_script_def split: option.splits)

lemma transition_view:
  assumes "transition_script R t lease ready delayed expected encoded runAtMs nowMs s = (x, s')"
  shows "if live t (v_str V s lease) = Some expected
    then x = 1 \<and> v_str V s' = (v_str V s)(lease := None)
      \<and> (if runAtMs \<le> nowMs
         then v_list V s' = (v_list V s)(ready := v_list V s ready @ [encoded]) \<and> v_zset V s' = v_zset V s
         else v_list V s' = v_list V s
           \<and> v_zset V s' = (v_zset V s)(delayed := (v_zset V s delayed)(encoded \<mapsto> runAtMs)))
    else s' = s \<and> x = (if live t (v_str V s lease) = None then 0 else - 1)"
proof (cases "live t (v_str V s lease)")
  case None
  with assms show ?thesis by (simp add: transition_script_def)
next
  case (Some current)
  show ?thesis
  proof (cases "current = expected")
    case True
    with assms Some have x: "x = 1" "s' = (if runAtMs \<le> nowMs
        then r_RPUSH R ready encoded (snd (r_DEL R t lease s))
        else r_ZADD R delayed runAtMs encoded (snd (r_DEL R t lease s)))"
      by (simp_all add: transition_script_def Let_def)
    show ?thesis unfolding x using Some True by simp
  next
    case False
    with assms Some show ?thesis by (simp add: transition_script_def)
  qed
qed

lemma transitionLease_view:
  assumes "transitionLeaseToQueue R (Some b) (Some l) raw enc queue runAt t1 t2 t net s = (x, s')"
    and "k = leaseKey (rb_config b) (trim_space (l_Token l))"
  shows "if x = None
    then live t (v_str V s k) = Some raw \<and> v_str V s' = (v_str V s)(k := None)
      \<and> requeued V (rb_config b) (trim_space queue) enc s s'
    else s' = s"
proof (cases "ensureOpen (Some b) = None \<and> \<not> blank (l_Token l) \<and> \<not> blank queue \<and> \<not> blank enc
    \<and> \<not> blank raw \<and> net = None")
  case True
  let ?c = "rb_config b"
  obtain r u where r: "transition_script R t k (readyKey ?c (trim_space queue)) (delayedKey ?c (trim_space queue))
      raw enc (unix_milli (if runAt = 0 then t1 else runAt)) (unix_milli t2) s = (r, u)"
    by (rule prod.exhaust)
  have x: "s' = u" "x = None \<longleftrightarrow> r = 1"
    using assms True r by (auto simp: transitionLeaseToQueue_def Let_def split: if_splits)
  show ?thesis
  proof (cases "live t (v_str V s k) = Some raw")
    case live: True
    with transition_view [OF r] have "r = 1" by simp
    then show ?thesis using transition_view [OF r] live x by (auto simp: requeued_def split: if_splits)
  next
    case False
    with transition_view [OF r] have "u = s" "r \<noteq> 1" by auto
    then show ?thesis using x by auto
  qed
next
  case False
  then have "x \<noteq> None \<and> s' = s"
  proof (cases "ensureOpen (Some b)")
    case (Some e)
    with assms(1) have "(Some e, s) = (x, s')" by (simp add: transitionLeaseToQueue_def)
    then show ?thesis by auto
  qed (use False assms(1) in
      \<open>auto simp: transitionLeaseToQueue_def Let_def split: option.splits if_splits\<close>)
  then show ?thesis by auto
qed

lemma gone_lease:
  assumes "v_str V s (leaseKey (rb_config b) (trim_space (l_Token l))) = None"
  shows "fst (redis_Renew R (Some b) (Some l) e t None s) \<noteq> None"
    and "snd (redis_Ack R (Some b) (Some l) t net s) = s"
proof -
  obtain f u where p: "r_PEXPIRE R t (leaseKey (rb_config b) (trim_space (l_Token l)))
      (lease_ms (pos_or e (30 * second))) s = (f, u)" by (rule prod.exhaust)
  have "\<not> f" using pexpire(1) [of t _ _ s] p assms by (metis fst_conv live_simps(1))
  then show "fst (redis_Renew R (Some b) (Some l) e t None s) \<noteq> None"
    using p by (auto simp: redis_Renew_def Let_def split: option.splits)
  show "snd (redis_Ack R (Some b) (Some l) t net s) = s"
    using assms by (auto simp: redis_Ack_def get_and_delete_script_def split: option.splits)
qed

lemma readLeasedJob_live:
  assumes "readLeasedJob R J (Some b) (Some l) t net s = Inr (raw, j)"
  shows "live t (v_str V s (leaseKey (rb_config b) (trim_space (l_Token l)))) = Some raw"
    and "readLeasedJob R J (Some b) (Some l) t None s = Inr (raw, j)"
  using assms by (auto simp: readLeasedJob_def Let_def split: option.splits if_splits sum.splits)

end

section \<open>Properties\<close>



text \<open>
  A lease is given up by one party only: \<^verbatim>\<open>Nack\<close> succeeds only while the lease is live, and then
  the lease is gone and exactly one payload, the job with its attempt counter one higher, is in
  the ready list or the delayed set of its queue; when it fails the server is unchanged; and any
  later acknowledgement, rejection or renewal of that lease finds nothing.
\<close>

lemma redis_Nack_requeues_once:
  assumes "redis_server R V" and "redis_Nack R J T (Some b) (Some l) runAt reason now t net1 net2 s = (x, s')"
    and "k = leaseKey (rb_config b) (trim_space (l_Token l))"
  shows "if x = None
    then \<exists>raw j q enc. live t (v_str V s k) = Some raw \<and> readLeasedJob R J (Some b) (Some l) t None s = Inr (raw, j)
      \<and> q = trim_space (j_Queue j)
      \<and> v_str V s' = (v_str V s)(k := None)
      \<and> (\<exists>j'. enc_job J j' = Inr enc \<and> j_ID j' = j_ID j \<and> j_Payload j' = j_Payload j
            \<and> j_Attempt j' = i64 (j_Attempt j + 1))
      \<and> requeued V (rb_config b) q enc s s'
      \<and> (\<forall>t' e. fst (redis_Renew R (Some b) (Some l) e t' None s') \<noteq> None)
      \<and> (\<forall>t' net. snd (redis_Ack R (Some b) (Some l) t' net s') = s')
    else s' = s"
proof (cases "readLeasedJob R J (Some b) (Some l) t net1 s")
  case (Inr p)
  obtain raw j where p: "p = (raw, j)" by (rule prod.exhaust)
  let ?j = "j\<lparr>j_Attempt := i64 (j_Attempt j + 1),
      j_Headers := failure_headers T now reason (j_Headers j), j_RunAt := (if runAt = 0 then now else runAt)\<rparr>"
  show ?thesis
  proof (cases "enc_job J ?j")
    case (Inl e)
    with assms(2) Inr p show ?thesis by (auto simp: redis_Nack_def Let_def)
  next
    case enc: (Inr enc)
    have tr: "transitionLeaseToQueue R (Some b) (Some l) raw enc (trim_space (j_Queue j)) (j_RunAt ?j)
        now now t net2 s = (x, s')"
      using assms(2) Inr p enc by (simp add: redis_Nack_def Let_def)
    note view = redis_server.transitionLease_view [OF assms(1) tr assms(3)]
    show ?thesis
    proof (cases "x = None")
      case True
      with view have v: "v_str V s' = (v_str V s)(k := None)"
        "requeued V (rb_config b) (trim_space (j_Queue j)) enc s s'" by simp_all
      have gone: "v_str V s' (leaseKey (rb_config b) (trim_space (l_Token l))) = None"
        using v(1) assms(3) by simp
      have "\<exists>j'. enc_job J j' = Inr enc \<and> j_ID j' = j_ID j \<and> j_Payload j' = j_Payload j
          \<and> j_Attempt j' = i64 (j_Attempt j + 1)" by (rule exI [of _ ?j]) (simp add: enc)
      then show ?thesis
        using True v redis_server.readLeasedJob_live [OF assms(1) Inr [unfolded p]]
          redis_server.gone_lease [OF assms(1) gone] assms(3) by auto
    qed (use view in auto)
  qed
qed (use assms(2) in \<open>auto simp: redis_Nack_def\<close>)

definition sample_backend :: redis_backend where
  "sample_backend = \<lparr>rb_hasClient = True, rb_closed = False, rb_config = \<lparr>rb_Prefix = ''p'',
     rb_OperationTimeout = 1, rb_PollInterval = 1, rb_DLQSuffix = ''.dlq'', rb_TransferBatch = 10\<rparr>\<rparr>"

definition sample_job_codec :: job_codec where
  "sample_job_codec = \<lparr>enc_job = (\<lambda>j. Inr (''job'' @ itoa (j_Attempt j))),
     dec_job = (\<lambda>s. Inr (Some sample_job)), enc_dlq = (\<lambda>e. Inr (de_ID e)),
     dec_dlq = (\<lambda>s. Inl (ENew ''bad''))\<rparr>"

definition sample_lease :: lease where
  "sample_lease = \<lparr>l_JobID = ''j1'', l_Token = ''tok'', l_Queue = ''mail'', l_ExpireAt = 0, l_Attempt = 1\<rparr>"

lemma sample_key: "leaseKey (rb_config sample_backend) (trim_space (l_Token sample_lease)) = ''p:lease:tok''"
  by (simp add: leaseKey_def sample_backend_def sample_lease_def redis_prefix_def trim_right_char_def
      trim_space_plain ascii_space_def)

text \<open>
  C40. A reserved job lives in its lease only.  When a payload that is nowhere else in the server is
  reserved, it is found there exactly until the lease's deadline: a worker that neither finishes
  nor renews in time does not give the job back to the queue, and no later reserve can return it.
\<close>

theorem redis_expired_lease_loses_job:
  assumes "redis_server R V" and "reserve_script R t d r prefix nowMs batch leaseMs token s = (Some p, s')"
    and "v_list V s r = p # rest" and "p \<notin> set rest" and "\<forall>k. k \<noteq> r \<longrightarrow> p \<notin> set (v_list V s k)"
    and "\<forall>k. v_zset V s k p = None" and "\<forall>k t. k \<noteq> prefix @ token \<longrightarrow> live t (v_str V s k) \<noteq> Some p"
  shows "held V t' s' p \<longleftrightarrow> t' < t + leaseMs"
proof -
  let ?due = "r_ZRANGEBYSCORE R d nowMs batch s"
  note view = redis_server.reserve_script_view [OF assms(1,2) refl, simplified]
  have due: "p \<notin> set ?due" using redis_server.zrange(3) [OF assms(1)] assms(6) by fastforce
  have l: "v_list V s' r = rest @ ?due" using view assms(3) by simp
  have "p \<notin> set (v_list V s' k)" for k
    using l due assms(4,5) view by (cases "k = r") auto
  moreover have "v_zset V s' k p = None" for k
    using view assms(6) by (simp add: restrict_map_def)
  moreover have "live t' (v_str V s' k) = Some p \<longleftrightarrow> k = prefix @ token \<and> t' < t + leaseMs" for k
    using view assms(7) by auto
  ultimately show ?thesis by (auto simp: held_def)
qed

theorem redis_expired_lease_loses_job_witness:
  "\<exists>s'. reserve_script memory_redis 100 ''d'' ''r'' ''l:'' 0 10 30 ''tok''
      (empty_memory\<lparr>m_list := (\<lambda>_. [])(''r'' := [''job''])\<rparr>) = (Some ''job'', s')
    \<and> held memory_view 129 s' ''job'' \<and> \<not> held memory_view 130 s' ''job''"
proof -
  let ?s = "empty_memory\<lparr>m_list := (\<lambda>_. [])(''r'' := [''job''])\<rparr>"
  obtain x s' where r: "reserve_script memory_redis 100 ''d'' ''r'' ''l:'' 0 10 30 ''tok'' ?s = (x, s')"
    by (rule prod.exhaust)
  have x: "x = Some ''job''"
    using r by (auto simp: reserve_script_def memory_redis_def empty_memory_def due_members_def)
  have "held memory_view u s' ''job'' \<longleftrightarrow> u < 100 + 30" for u
    by (rule redis_expired_lease_loses_job [OF mem.redis_server_axioms r [unfolded x], of "[]"])
      (simp_all add: memory_view_def empty_memory_def)
  with r x show ?thesis by auto
qed

end
