(* ===== verification/JobsRuntime.thy ===== *)
theory JobsRuntime
  imports Jobs
begin

text \<open>
  \<^verbatim>\<open>pkg/jobs/runtime_backend.go\<close>: leases, acknowledgement and retry on top of a runtime that only calls
  a subscription callback per job.  The callback hands the job over as a delivery and blocks until
  the delivery is completed; what it returns is what the transport sees.  Deliveries are numbered;
  the operations are functions on the backend's state, and the calls of any number of
  goroutines are the step relation \<open>rk_step\<close>, one step per section under the mutex.  What an
  operation does after it has taken a lease off the table concerns only that lease's delivery, which
  nobody else can reach any more, so it is part of the same step.  A completed delivery stays so: the
  state keeps the first completion, as \<^verbatim>\<open>sync.Once\<close> does.

  The lemmas show that a delivery is settled at most once, and that the transport is told a job is
  done only after it was acknowledged or its successor was enqueued.
\<close>

section \<open>State\<close>

record runtime_backend_config =
  rk_BufferSize :: int
  rk_DLQSuffix :: string
  rk_CloseRuntime :: bool

definition runtime_backend_normalize :: "runtime_backend_config \<Rightarrow> runtime_backend_config" where
  "runtime_backend_normalize c =
     c\<lparr>rk_BufferSize := pos_or (rk_BufferSize c) 128,
       rk_DLQSuffix := (if blank (rk_DLQSuffix c) then ''.dlq'' else rk_DLQSuffix c)\<rparr>"

text \<open>What the operations did to a delivery: acknowledged it, or enqueued a successor, with the error.\<close>

datatype rk_event = AckEv nat | SuccessorEv nat job "err option"

text \<open>
  \<open>rk_chan\<close> holds the deliveries waiting per queue, \<open>rk_leases\<close> the lease and the delivery per token,
  \<open>rk_done\<close> the completions, \<open>rk_returned\<close> what the callback of a delivery returned.
\<close>

record runtime_backend =
  rk_config :: runtime_backend_config
  rk_closed :: bool
  rk_subs :: "string set"
  rk_chan :: "string \<Rightarrow> nat list"
  rk_job :: "nat \<rightharpoonup> job"
  rk_leases :: "string \<rightharpoonup> lease \<times> nat"
  rk_done :: "nat \<rightharpoonup> err option"
  rk_returned :: "nat \<rightharpoonup> err option"
  rk_log :: "rk_event list"

definition NewRuntimeBackend :: "bool \<Rightarrow> bool \<Rightarrow> runtime_backend_config \<Rightarrow> runtime_backend result" where
  "NewRuntimeBackend hasRuntime hasLog cfg =
     (if \<not> hasRuntime then Inl (jobsError ErrInvalidArgument ''runtime is required'')
      else if \<not> hasLog then Inl (jobsError ErrInvalidArgument ''logger is required'')
      else Inr \<lparr>rk_config = runtime_backend_normalize cfg, rk_closed = False, rk_subs = {},
                rk_chan = (\<lambda>_. []), rk_job = Map.empty, rk_leases = Map.empty, rk_done = Map.empty,
                rk_returned = Map.empty, rk_log = []\<rparr>)"

definition complete :: "nat \<Rightarrow> err option \<Rightarrow> runtime_backend \<Rightarrow> runtime_backend" where
  "complete d r b = (if rk_done b d = None then b\<lparr>rk_done := (rk_done b)(d \<mapsto> r)\<rparr> else b)"

section \<open>Operations\<close>

text \<open>
  The flag \<open>ready\<close> of an operation: the receiver, and where the code asks for it its runtime, is not nil.
\<close>

definition not_ready :: err where
  "not_ready = jobsError ErrNotInitialized ''runtime backend is not initialized''"

definition rk_Enqueue :: "bool \<Rightarrow> err option \<Rightarrow> err option" where
  "rk_Enqueue ready enqErr = (if \<not> ready then Some not_ready else enqErr)"

text \<open>\<open>subErr\<close> is the error of the runtime's \<^verbatim>\<open>Subscribe\<close>.\<close>

definition ensureSubscription ::
  "string \<Rightarrow> err option \<Rightarrow> runtime_backend \<Rightarrow> err option \<times> runtime_backend" where
  "ensureSubscription queue subErr b =
     (if rk_closed b then (Some (jobsError ErrClosed ''runtime backend is closed''), b)
      else if queue \<in> rk_subs b then (None, b)
      else case subErr of
        Some e \<Rightarrow> (Some (EJoin [jobsError ErrRetryable (''subscribe queue '' @ quoted queue @ '' failed''), e]), b)
      | None \<Rightarrow> (None, b\<lparr>rk_subs := insert queue (rk_subs b)\<rparr>))"

text \<open>The first half of the subscription callback: hand the job over.\<close>

definition rk_deliver :: "string \<Rightarrow> nat \<Rightarrow> job \<Rightarrow> runtime_backend \<Rightarrow> runtime_backend" where
  "rk_deliver queue d j b =
     b\<lparr>rk_job := (rk_job b)(d \<mapsto> j), rk_chan := (rk_chan b)(queue := rk_chan b queue @ [d])\<rparr>"

text \<open>
  \<^verbatim>\<open>Reserve\<close>.  \<open>ctxErr\<close> is the error of the context when it ends before a delivery is there; \<open>None\<close> as a
  result: the call is still waiting.
\<close>

definition rk_Reserve ::
  "bool \<Rightarrow> bool \<Rightarrow> string \<Rightarrow> duration \<Rightarrow> err option \<Rightarrow> err option \<Rightarrow> gotime \<Rightarrow> string \<Rightarrow> runtime_backend
    \<Rightarrow> (job \<times> lease) result option \<times> runtime_backend" where
  "rk_Reserve ready hasCtx queue0 leaseFor0 subErr ctxErr now token b =
     (if \<not> ready then (Some (Inl not_ready), b)
      else if \<not> hasCtx then (Some (Inl (jobsError ErrInvalidArgument ''context is required'')), b)
      else let queue = trim_space queue0; leaseFor = pos_or leaseFor0 (30 * second) in
      if queue = [] then (Some (Inl (jobsError ErrInvalidArgument ''queue is required'')), b)
      else case ensureSubscription queue subErr b of
        (Some e, b1) \<Rightarrow> (Some (Inl e), b1)
      | (None, b1) \<Rightarrow>
          (case ctxErr of
             Some e \<Rightarrow> (Some (Inl e), b1)
           | None \<Rightarrow>
               (case rk_chan b1 queue of
                  [] \<Rightarrow> (None, b1)
                | d # ds \<Rightarrow>
                    (let b2 = b1\<lparr>rk_chan := (rk_chan b1)(queue := ds)\<rparr> in
                     case rk_job b2 d of
                       None \<Rightarrow> (Some (Inl (jobsError ErrRetryable ''received empty delivery'')), b2)
                     | Some j \<Rightarrow>
                         (let l = \<lparr>l_JobID = trim_space (j_ID j), l_Token = token, l_Queue = queue,
                                   l_ExpireAt = now + leaseFor, l_Attempt = j_Attempt j\<rparr>
                          in (Some (Inr (j, l)), b2\<lparr>rk_leases := (rk_leases b2)(token \<mapsto> (l, d))\<rparr>))))))"

text \<open>
  A \<^verbatim>\<open>Reserve\<close> that was already waiting for a delivery when the backend was closed gives it back with
  an error.
\<close>

definition rk_reserve_closed :: "string \<Rightarrow> runtime_backend \<Rightarrow> err option \<times> runtime_backend" where
  "rk_reserve_closed queue b =
     (case rk_chan b queue of
        [] \<Rightarrow> (None, b)
      | d # ds \<Rightarrow> (Some (jobsError ErrClosed ''runtime backend is closed''),
          complete d (Some (jobsError ErrClosed ''runtime backend is closed''))
            (b\<lparr>rk_chan := (rk_chan b)(queue := ds)\<rparr>)))"

definition popLease :: "bool \<Rightarrow> lease option \<Rightarrow> runtime_backend \<Rightarrow> (lease \<times> nat) result \<times> runtime_backend" where
  "popLease ready lo b =
     (if \<not> ready then (Inl not_ready, b) else case lo of
        None \<Rightarrow> (Inl (jobsError ErrInvalidArgument ''lease is required''), b)
      | Some l \<Rightarrow>
          (let token = trim_space (l_Token l) in
           if token = [] then (Inl (jobsError ErrInvalidArgument ''lease token is required''), b)
           else case rk_leases b token of
             None \<Rightarrow> (Inl (jobsError ErrNotFound ''lease not found''), b)
           | Some st \<Rightarrow> (Inr st, b\<lparr>rk_leases := (rk_leases b)(token := None)\<rparr>)))"

definition rk_record :: "rk_event \<Rightarrow> runtime_backend \<Rightarrow> runtime_backend" where
  "rk_record ev b = b\<lparr>rk_log := rk_log b @ [ev]\<rparr>"

definition rk_Ack :: "bool \<Rightarrow> lease option \<Rightarrow> runtime_backend \<Rightarrow> err option \<times> runtime_backend" where
  "rk_Ack ready lo b =
     (case popLease ready lo b of
        (Inl e, b1) \<Rightarrow> (Some e, b1)
      | (Inr (_, d), b1) \<Rightarrow> (None, complete d None (rk_record (AckEv d) b1)))"

definition rk_retry_job :: "time_codec \<Rightarrow> gotime \<Rightarrow> err option \<Rightarrow> gotime \<Rightarrow> job \<Rightarrow> job" where
  "rk_retry_job T now reason nextRunAt j =
     j\<lparr>j_Attempt := i64 (j_Attempt j + 1), j_Headers := failure_headers T now reason (j_Headers j),
       j_RunAt := (if nextRunAt = 0 then now else nextRunAt)\<rparr>"

text \<open>
  Enqueue the successor of a delivery and complete it with the outcome; \<open>wait\<close> is the error of the
  context when it ends during the wait for the run time, \<open>enqErr\<close> the error of the runtime's
  \<^verbatim>\<open>Enqueue\<close>.
\<close>

definition rk_succeed ::
  "string \<Rightarrow> err option \<Rightarrow> nat \<Rightarrow> job \<Rightarrow> runtime_backend \<Rightarrow> err option \<times> runtime_backend" where
  "rk_succeed what enqErr d j b =
     (case enqErr of
        Some e \<Rightarrow> (Some (EJoin [jobsError ErrRetryable what, e]),
                   complete d (Some e) (rk_record (SuccessorEv d j (Some e)) b))
      | None \<Rightarrow> (None, complete d None (rk_record (SuccessorEv d j None) b)))"

definition rk_Nack ::
  "bool \<Rightarrow> time_codec \<Rightarrow> lease option \<Rightarrow> gotime \<Rightarrow> err option \<Rightarrow> gotime \<Rightarrow> err option \<Rightarrow> err option \<Rightarrow> runtime_backend
    \<Rightarrow> err option \<times> runtime_backend" where
  "rk_Nack ready T lo nextRunAt reason now wait enqErr b =
     (case popLease ready lo b of
        (Inl e, b1) \<Rightarrow> (Some e, b1)
      | (Inr (_, d), b1) \<Rightarrow>
          (case rk_job b1 d of
             None \<Rightarrow> (None, b1)
           | Some j \<Rightarrow>
               (let r = rk_retry_job T now reason nextRunAt j in
                if now < j_RunAt r \<and> wait \<noteq> None then (wait, complete d wait b1)
                else rk_succeed ''enqueue retry job failed'' enqErr d r b1)))"

definition rk_Renew :: "bool \<Rightarrow> lease option \<Rightarrow> duration \<Rightarrow> gotime \<Rightarrow> runtime_backend \<Rightarrow> err option \<times> runtime_backend" where
  "rk_Renew ready lo leaseFor0 now b =
     (if \<not> ready then (Some not_ready, b)
      else if lo = None \<or> blank (l_Token (the lo))
      then (Some (jobsError ErrInvalidArgument ''lease token is required''), b)
      else let leaseFor = pos_or leaseFor0 (30 * second); token = trim_space (l_Token (the lo)) in
      case rk_leases b token of
        None \<Rightarrow> (Some (jobsError ErrNotFound ''lease not found''), b)
      | Some (l, d) \<Rightarrow>
          (None, b\<lparr>rk_leases := (rk_leases b)(token \<mapsto> (l\<lparr>l_ExpireAt := now + leaseFor\<rparr>, d))\<rparr>))"

definition rk_dlq_job :: "runtime_backend_config \<Rightarrow> time_codec \<Rightarrow> gotime \<Rightarrow> err option \<Rightarrow> lease option \<Rightarrow> job \<Rightarrow> job" where
  "rk_dlq_job c T now reason lo j =
     (let sourceQueue = (if blank (j_Queue j) then (case lo of None \<Rightarrow> [] | Some l \<Rightarrow> trim_space (l_Queue l))
                         else trim_space (j_Queue j))
      in j\<lparr>j_Queue := trim_space sourceQueue @ rk_DLQSuffix c,
           j_Headers := failure_headers T now reason ((j_Headers j)(''job_original_queue'' \<mapsto> sourceQueue))\<rparr>)"

definition rk_MoveToDLQ ::
  "bool \<Rightarrow> time_codec \<Rightarrow> lease option \<Rightarrow> err option \<Rightarrow> gotime \<Rightarrow> err option \<Rightarrow> runtime_backend \<Rightarrow> err option \<times> runtime_backend" where
  "rk_MoveToDLQ ready T lo reason now enqErr b =
     (case popLease ready lo b of
        (Inl e, b1) \<Rightarrow> (Some e, b1)
      | (Inr (_, d), b1) \<Rightarrow>
          (case rk_job b1 d of
             None \<Rightarrow> (None, b1)
           | Some j \<Rightarrow> rk_succeed ''enqueue dlq job failed'' enqErr d
               (rk_dlq_job (rk_config b1) T now reason lo j) b1))"

definition expireLease :: "string \<Rightarrow> runtime_backend \<Rightarrow> runtime_backend" where
  "expireLease token b =
     (case rk_leases b token of
        None \<Rightarrow> b
      | Some (_, d) \<Rightarrow> complete d (Some (jobsError ErrConflict ''lease expired''))
                        (b\<lparr>rk_leases := (rk_leases b)(token := None)\<rparr>))"

text \<open>
  \<^verbatim>\<open>Close\<close>: \<open>tokens\<close> and \<open>subs\<close> are the keys of the two maps in the order of their iteration, \<open>unsubErr\<close> and
  \<open>closeErr\<close> the errors of the runtime.
\<close>

definition rk_close_leases :: "string list \<Rightarrow> runtime_backend \<Rightarrow> runtime_backend" where
  "rk_close_leases tokens b =
     fold (\<lambda>t b'. case rk_leases b t of
              None \<Rightarrow> b'
            | Some (_, d) \<Rightarrow> complete d (Some (jobsError ErrClosed ''runtime backend closed'')) b')
       tokens (b\<lparr>rk_closed := True, rk_subs := {}, rk_leases := Map.empty\<rparr>)"

definition rk_Close ::
  "bool \<Rightarrow> string list \<Rightarrow> string list \<Rightarrow> (string \<Rightarrow> err option) \<Rightarrow> err option \<Rightarrow> runtime_backend
    \<Rightarrow> err option \<times> runtime_backend" where
  "rk_Close ready tokens subs unsubErr closeErr b =
     (if \<not> ready \<or> rk_closed b then (None, b)
      else (errors_join
              (map (\<lambda>q. map_option (\<lambda>e. EJoin [jobsError ErrRetryable (''unsubscribe '' @ quoted q @ '' failed''), e])
                     (unsubErr q)) subs
               @ (if rk_CloseRuntime (rk_config b)
                  then [map_option (\<lambda>e. EJoin [jobsError ErrRetryable ''close runtime failed'', e]) closeErr] else [])),
            rk_close_leases tokens b))"

section \<open>The step relation\<close>

text \<open>
  The tokens of new leases are fresh, as random 128-bit numbers are.  A lease may expire at any time;
  the callback of a delivery returns with its completion or, when a context ends, with an error.
\<close>

inductive rk_step :: "runtime_backend \<Rightarrow> runtime_backend \<Rightarrow> bool" where
  deliver: "rk_job b d = None \<Longrightarrow> int (length (rk_chan b q)) < rk_BufferSize (rk_config b) \<Longrightarrow>
     rk_step b (rk_deliver q d j b)"
| reserve: "rk_leases b token = None \<Longrightarrow> rk_Reserve ready hasCtx q leaseFor subErr ctxErr now token b = (r, b') \<Longrightarrow>
     rk_step b b'"
| reserve_closed: "rk_closed b \<Longrightarrow> rk_reserve_closed q b = (r, b') \<Longrightarrow> rk_step b b'"
| ack: "rk_Ack ready lo b = (r, b') \<Longrightarrow> rk_step b b'"
| nack: "rk_Nack ready T lo nextRunAt reason now wait enqErr b = (r, b') \<Longrightarrow> rk_step b b'"
| renew: "rk_Renew ready lo leaseFor now b = (r, b') \<Longrightarrow> rk_step b b'"
| dead: "rk_MoveToDLQ ready T lo reason now enqErr b = (r, b') \<Longrightarrow> rk_step b b'"
| expire: "rk_step b (expireLease token b)"
| close: "set tokens = dom (rk_leases b) \<Longrightarrow> rk_Close ready tokens subs unsubErr closeErr b = (r, b') \<Longrightarrow> rk_step b b'"
| return: "rk_done b d = Some r \<Longrightarrow> rk_returned b d = None \<Longrightarrow>
     rk_step b (b\<lparr>rk_returned := (rk_returned b)(d \<mapsto> r)\<rparr>)"
| return_cancelled: "rk_job b d \<noteq> None \<Longrightarrow> rk_returned b d = None \<Longrightarrow>
     rk_step b (b\<lparr>rk_returned := (rk_returned b)(d \<mapsto> Some e)\<rparr>)"

inductive rk_reachable :: "runtime_backend_config \<Rightarrow> runtime_backend \<Rightarrow> bool" for cfg where
  start: "NewRuntimeBackend True True cfg = Inr b \<Longrightarrow> rk_reachable cfg b"
| step: "rk_reachable cfg b \<Longrightarrow> rk_step b b' \<Longrightarrow> rk_reachable cfg b'"

section \<open>Lemmas\<close>

fun settles :: "nat \<Rightarrow> rk_event \<Rightarrow> bool" where
  "settles d (AckEv d') = (d = d')"
| "settles d (SuccessorEv d' j e) = (d = d' \<and> e = None)"

definition settlements :: "runtime_backend \<Rightarrow> nat \<Rightarrow> rk_event list" where
  "settlements b d = filter (settles d) (rk_log b)"

text \<open>A delivery that nothing has happened to yet, and one that nobody holds.\<close>

definition untouched :: "nat \<Rightarrow> runtime_backend \<Rightarrow> bool" where
  "untouched d b \<longleftrightarrow> rk_job b d \<noteq> None \<and> rk_done b d = None \<and> settlements b d = []"

definition unheld :: "nat \<Rightarrow> runtime_backend \<Rightarrow> bool" where
  "unheld d b \<longleftrightarrow> (\<forall>t l. rk_leases b t \<noteq> Some (l, d)) \<and> (\<forall>q. d \<notin> set (rk_chan b q))"

text \<open>
  The invariant: waiting and leased deliveries are untouched and held in one place, a delivery is
  settled at most once, completion with nil and a nil return of the callback come only with a
  settlement, and nothing is known of deliveries that never were.
\<close>

definition rk_inv :: "runtime_backend \<Rightarrow> bool" where
  "rk_inv b \<longleftrightarrow>
     (\<forall>t l d. rk_leases b t = Some (l, d) \<longrightarrow> untouched d b \<and> (\<forall>q. d \<notin> set (rk_chan b q))
        \<and> (\<forall>t' l'. rk_leases b t' = Some (l', d) \<longrightarrow> t' = t))
   \<and> (\<forall>q d. d \<in> set (rk_chan b q) \<longrightarrow> untouched d b \<and> (\<forall>q'. d \<in> set (rk_chan b q') \<longrightarrow> q' = q))
   \<and> (\<forall>q. distinct (rk_chan b q))
   \<and> (\<forall>d. length (settlements b d) \<le> 1)
   \<and> (\<forall>d. rk_done b d = Some None \<longrightarrow> settlements b d \<noteq> [])
   \<and> (\<forall>d. rk_returned b d = Some None \<longrightarrow> rk_done b d = Some None)
   \<and> (\<forall>d. rk_job b d = None \<longrightarrow> rk_done b d = None \<and> settlements b d = [] \<and> rk_returned b d = None)"

lemma rk_inv_start: "NewRuntimeBackend True True cfg = Inr b \<Longrightarrow> rk_inv b"
  by (auto simp: NewRuntimeBackend_def rk_inv_def settlements_def)

lemma rk_inv_pop:
  assumes "rk_inv b" and "rk_leases b t = Some (l, d)"
  shows "rk_inv (b\<lparr>rk_leases := (rk_leases b)(t := None)\<rparr>)
    \<and> untouched d (b\<lparr>rk_leases := (rk_leases b)(t := None)\<rparr>)
    \<and> unheld d (b\<lparr>rk_leases := (rk_leases b)(t := None)\<rparr>)"
  using assms unfolding rk_inv_def untouched_def unheld_def settlements_def
  by (auto split: if_splits)

lemma rk_inv_fail:
  assumes "rk_inv b" and "rk_job b d \<noteq> None" and "unheld d b"
  shows "rk_inv (complete d (Some e) b)"
  using assms unfolding rk_inv_def untouched_def unheld_def settlements_def complete_def
  by auto

lemma rk_inv_settle:
  assumes "rk_inv b" and "untouched d b" and "unheld d b" and "\<forall>d'. settles d' ev \<longleftrightarrow> d' = d"
  shows "rk_inv (complete d None (rk_record ev b))"
  using assms unfolding rk_inv_def untouched_def unheld_def settlements_def complete_def rk_record_def
  by auto

lemma rk_inv_note:
  assumes "rk_inv b" and "\<forall>d'. \<not> settles d' ev"
  shows "rk_inv (rk_record ev b)"
  using assms unfolding rk_inv_def untouched_def settlements_def rk_record_def by auto

lemma note_keeps:
  "\<forall>d'. \<not> settles d' ev \<Longrightarrow> untouched d (rk_record ev b) \<longleftrightarrow> untouched d b"
  "unheld d (rk_record ev b) \<longleftrightarrow> unheld d b"
  by (auto simp: untouched_def unheld_def settlements_def rk_record_def)

lemma untouched_job: "untouched d b \<Longrightarrow> rk_job b d \<noteq> None"
  by (simp add: untouched_def)

lemma rk_inv_expel: "rk_inv b \<Longrightarrow> untouched d b \<Longrightarrow> unheld d b \<Longrightarrow> rk_inv (complete d (Some e) b)"
  using rk_inv_fail untouched_job by blast

lemma popLease_cases:
  assumes "rk_inv b" and "popLease ready lo b = (r, b1)"
  shows "(\<exists>e. r = Inl e \<and> b1 = b) \<or> (\<exists>l d. r = Inr (l, d) \<and> rk_inv b1 \<and> untouched d b1 \<and> unheld d b1)"
  using assms rk_inv_pop [OF assms(1)]
  by (auto simp: popLease_def Let_def split: if_splits option.splits)

lemma rk_inv_succeed:
  assumes "rk_inv b" and "untouched d b" and "unheld d b" and "rk_succeed what enqErr d j b = (r, b')"
  shows "rk_inv b'"
proof (cases enqErr)
  case None
  then show ?thesis using assms rk_inv_settle [OF assms(1-3), of "SuccessorEv d j None"]
    by (simp add: rk_succeed_def)
next
  case (Some e)
  let ?b = "rk_record (SuccessorEv d j (Some e)) b"
  have "rk_inv ?b" by (rule rk_inv_note [OF assms(1)]) simp
  moreover have "rk_job ?b d \<noteq> None" using assms(2) by (simp add: untouched_def rk_record_def)
  moreover have "unheld d ?b" using assms(3) by (simp add: note_keeps)
  ultimately show ?thesis using assms(4) Some rk_inv_fail by (auto simp: rk_succeed_def)
qed

lemma rk_inv_Ack:
  assumes "rk_inv b" and "rk_Ack ready lo b = (r, b')"
  shows "rk_inv b'"
proof -
  obtain x b1 where x: "popLease ready lo b = (x, b1)" by (rule prod.exhaust)
  from popLease_cases [OF assms(1) x] show ?thesis
    using assms x rk_inv_settle by (auto simp: rk_Ack_def)
qed

lemma rk_inv_Nack:
  assumes "rk_inv b" and "rk_Nack ready T lo nextRunAt reason now wait enqErr b = (r, b')"
  shows "rk_inv b'"
proof -
  obtain x b1 where x: "popLease ready lo b = (x, b1)" by (rule prod.exhaust)
  from popLease_cases [OF assms(1) x] show ?thesis
    using assms x rk_inv_succeed rk_inv_expel
    by (auto simp: rk_Nack_def Let_def dest: untouched_job split: option.splits if_splits)
qed

lemma rk_inv_MoveToDLQ:
  assumes "rk_inv b" and "rk_MoveToDLQ ready T lo reason now enqErr b = (r, b')"
  shows "rk_inv b'"
proof -
  obtain x b1 where x: "popLease ready lo b = (x, b1)" by (rule prod.exhaust)
  from popLease_cases [OF assms(1) x] show ?thesis
    using assms x rk_inv_succeed by (auto simp: rk_MoveToDLQ_def dest: untouched_job split: option.splits)
qed

lemma rk_inv_expire: "rk_inv b \<Longrightarrow> rk_inv (expireLease token b)"
  using rk_inv_pop [of b token] rk_inv_expel by (auto simp: expireLease_def split: option.splits)

lemma rk_inv_unknown: "rk_inv b \<Longrightarrow> rk_job b d = None \<Longrightarrow> unheld d b"
  unfolding rk_inv_def untouched_def unheld_def by (metis prod.collapse)

lemma rk_inv_deliver: "rk_inv b \<Longrightarrow> rk_job b d = None \<Longrightarrow> rk_inv (rk_deliver q d j b)"
  using rk_inv_unknown [of b d]
  unfolding rk_inv_def untouched_def unheld_def settlements_def rk_deliver_def by simp blast

lemma rk_inv_Renew: "rk_inv b \<Longrightarrow> rk_Renew ready lo leaseFor now b = (r, b') \<Longrightarrow> rk_inv b'"
  unfolding rk_inv_def untouched_def settlements_def rk_Renew_def
  by (auto simp: Let_def split: if_splits option.splits)

lemma rk_inv_take:
  assumes "rk_inv b" and "rk_chan b q = d # ds"
  shows "rk_inv (b\<lparr>rk_chan := (rk_chan b)(q := ds)\<rparr>)
    \<and> untouched d (b\<lparr>rk_chan := (rk_chan b)(q := ds)\<rparr>)
    \<and> unheld d (b\<lparr>rk_chan := (rk_chan b)(q := ds)\<rparr>)"
proof -
  have "d \<in> set (rk_chan b q)" "distinct (d # ds)" using assms unfolding rk_inv_def by (simp, metis)
  moreover have "\<forall>x \<in> set ds. x \<in> set (rk_chan b q)" using assms(2) by simp
  ultimately show ?thesis
    using assms(1) unfolding rk_inv_def untouched_def unheld_def settlements_def
    by (auto split: if_splits)
qed

lemma rk_inv_lease:
  assumes "rk_inv b" and "untouched d b" and "unheld d b" and "rk_leases b t = None"
  shows "rk_inv (b\<lparr>rk_leases := (rk_leases b)(t \<mapsto> (l, d))\<rparr>)"
  using assms unfolding rk_inv_def untouched_def unheld_def settlements_def by auto

lemma rk_inv_subscribe:
  "rk_inv b \<Longrightarrow> ensureSubscription q subErr b = (r, b') \<Longrightarrow>
    rk_inv b' \<and> rk_leases b' = rk_leases b \<and> rk_chan b' = rk_chan b"
  by (auto simp: ensureSubscription_def rk_inv_def untouched_def settlements_def split: if_splits option.splits)

lemma rk_inv_Reserve:
  assumes "rk_inv b" and "rk_leases b token = None"
    and "rk_Reserve ready hasCtx q leaseFor subErr ctxErr now token b = (r, b')"
  shows "rk_inv b'"
proof -
  let ?q = "trim_space q"
  obtain x b1 where x: "ensureSubscription ?q subErr b = (x, b1)" by (rule prod.exhaust)
  note i = rk_inv_subscribe [OF assms(1) x]
  show ?thesis
  proof (cases "rk_chan b1 ?q")
    case Nil
    then show ?thesis using assms(1,3) x i
      by (auto simp: rk_Reserve_def Let_def split: if_splits option.splits)
  next
    case (Cons d ds)
    let ?b = "b1\<lparr>rk_chan := (rk_chan b1)(?q := ds)\<rparr>"
    have t: "rk_inv ?b" "untouched d ?b" "unheld d ?b" using rk_inv_take [of b1 ?q d ds] i Cons by simp_all
    have "rk_inv (?b\<lparr>rk_leases := (rk_leases ?b)(token \<mapsto> (l, d))\<rparr>)" for l
      by (rule rk_inv_lease [OF t]) (simp add: i assms(2))
    with t Cons assms(1,3) x i show ?thesis
      by (auto simp: rk_Reserve_def Let_def split: if_splits option.splits)
  qed
qed

lemma rk_inv_reserve_closed:
  assumes "rk_inv b" and "rk_reserve_closed q b = (r, b')"
  shows "rk_inv b'"
proof (cases "rk_chan b q")
  case (Cons d ds)
  then show ?thesis
    using assms rk_inv_take [OF assms(1) Cons] rk_inv_expel
    by (auto simp: rk_reserve_closed_def)
qed (use assms in \<open>simp add: rk_reserve_closed_def\<close>)

lemma rk_inv_complete_all:
  assumes "rk_inv b" and "\<forall>d \<in> set ds. rk_job b d \<noteq> None \<and> unheld d b"
  shows "rk_inv (fold (\<lambda>d. complete d (Some e)) ds b)"
  using assms
proof (induction ds arbitrary: b)
  case (Cons d ds)
  have "rk_job (complete d (Some e) b) = rk_job b" "unheld x (complete d (Some e) b) = unheld x b" for x
    by (simp_all add: complete_def unheld_def)
  with Cons rk_inv_fail show ?case by simp
qed simp

lemma fold_leases:
  "fold (\<lambda>t b'. case m t of None \<Rightarrow> b' | Some (_, d) \<Rightarrow> f d b') tokens b
    = fold f (List.map_filter (\<lambda>t. map_option snd (m t)) tokens) b"
  by (induction tokens arbitrary: b) (auto simp: List.map_filter_def split: option.splits)

lemma rk_inv_Close:
  assumes "rk_inv b" and "rk_Close ready tokens subs unsubErr closeErr b = (r, b')"
  shows "rk_inv b'"
proof (cases "\<not> ready \<or> rk_closed b")
  case False
  let ?b = "b\<lparr>rk_closed := True, rk_subs := {}, rk_leases := Map.empty\<rparr>"
  let ?ds = "List.map_filter (\<lambda>t. map_option snd (rk_leases b t)) tokens"
  have "rk_inv ?b" using assms(1) by (simp add: rk_inv_def untouched_def settlements_def)
  moreover have "\<forall>d \<in> set ?ds. rk_job ?b d \<noteq> None \<and> unheld d ?b"
  proof
    fix d assume "d \<in> set ?ds"
    then obtain t l where "rk_leases b t = Some (l, d)"
      by (auto simp: List.map_filter_def split: option.splits)
    with assms(1) show "rk_job ?b d \<noteq> None \<and> unheld d ?b"
      unfolding rk_inv_def untouched_def unheld_def by auto
  qed
  ultimately have "rk_inv (fold (\<lambda>d. complete d (Some e)) ?ds ?b)" for e by (rule rk_inv_complete_all)
  then show ?thesis using assms(2) False by (auto simp: rk_Close_def rk_close_leases_def fold_leases)
qed (use assms in \<open>auto simp: rk_Close_def\<close>)

lemma rk_inv_return:
  assumes "rk_inv b" and "rk_returned b d = None" and "r = None \<longrightarrow> rk_done b d = Some None" and "rk_job b d \<noteq> None"
  shows "rk_inv (b\<lparr>rk_returned := (rk_returned b)(d \<mapsto> r)\<rparr>)"
  using assms unfolding rk_inv_def untouched_def settlements_def by auto

lemma rk_inv_done_job: "rk_inv b \<Longrightarrow> rk_done b d = Some r \<Longrightarrow> rk_job b d \<noteq> None"
  unfolding rk_inv_def by auto

lemma rk_inv_step: "rk_step b b' \<Longrightarrow> rk_inv b \<Longrightarrow> rk_inv b'"
proof (induction rule: rk_step.induct)
  case (deliver b d q j)
  then show ?case by (simp add: rk_inv_deliver)
next
  case (reserve b token ready hasCtx q leaseFor subErr ctxErr now r b')
  then show ?case by (metis rk_inv_Reserve)
next
  case (reserve_closed b q r b')
  then show ?case by (metis rk_inv_reserve_closed)
next
  case (ack ready lo b r b')
  then show ?case by (metis rk_inv_Ack)
next
  case (nack ready T lo nextRunAt reason now wait enqErr b r b')
  then show ?case by (metis rk_inv_Nack)
next
  case (renew ready lo leaseFor now b r b')
  then show ?case by (metis rk_inv_Renew)
next
  case (dead ready T lo reason now enqErr b r b')
  then show ?case by (metis rk_inv_MoveToDLQ)
next
  case (expire b token)
  then show ?case by (rule rk_inv_expire)
next
  case (close tokens b ready subs unsubErr closeErr r b')
  then show ?case by (metis rk_inv_Close)
next
  case (return b d r)
  then show ?case using rk_inv_return rk_inv_done_job by auto
next
  case (return_cancelled b d e)
  then show ?case using rk_inv_return by auto
qed

lemma rk_inv_reachable: "rk_reachable cfg b \<Longrightarrow> rk_inv b"
  by (induction rule: rk_reachable.induct) (auto intro: rk_inv_start rk_inv_step)

section \<open>Properties\<close>

text \<open>
  C15. The event bus backend settles a delivery at most once and never tells the transport that a job
  is done before it is: in every reachable state a delivery has at most one settlement (it was
  acknowledged, or one successor, a retry or a dead letter, was enqueued); its callback has returned
  nil only if it has one; and while it is leased or waiting it has none and its callback has not
  been released.
\<close>

theorem runtime_settles_once:
  assumes "rk_reachable cfg b"
  shows "length (settlements b d) \<le> 1
    \<and> (rk_returned b d = Some None \<longrightarrow> length (settlements b d) = 1)
    \<and> ((\<exists>t l. rk_leases b t = Some (l, d)) \<or> (\<exists>q. d \<in> set (rk_chan b q))
        \<longrightarrow> settlements b d = [] \<and> rk_done b d = None)"
proof -
  have i: "rk_inv b" by (rule rk_inv_reachable [OF assms])
  then have "length (settlements b d) \<le> 1" by (simp add: rk_inv_def)
  moreover from i have "rk_returned b d = Some None \<Longrightarrow> settlements b d \<noteq> []" by (simp add: rk_inv_def)
  moreover from i have "untouched d b"
    if "(\<exists>t l. rk_leases b t = Some (l, d)) \<or> (\<exists>q. d \<in> set (rk_chan b q))"
    using that unfolding rk_inv_def by blast
  ultimately show ?thesis by (cases "settlements b d") (auto simp: untouched_def)
qed

text \<open>A job delivered, reserved, given back for a retry, and the late acknowledgement that is refused.\<close>

definition demo_job :: job where
  "demo_job = \<lparr>j_ID = ''j1'', j_Name = ''build'', j_Queue = ''q'', j_Payload = ''x'', j_Headers = Map.empty,
     j_ContentType = [], j_TenantID = [], j_CorrelationID = [], j_IdempotencyKey = [], j_PartitionKey = [],
     j_RunAt = 1, j_Attempt = 0, j_MaxAttempts = 3, j_CreatedAt = 1\<rparr>"

definition demo_lease :: lease where
  "demo_lease = \<lparr>l_JobID = ''j1'', l_Token = ''t'', l_Queue = ''q'', l_ExpireAt = 30 * second, l_Attempt = 0\<rparr>"

definition demo_start :: runtime_backend where
  "demo_start = \<lparr>rk_config = \<lparr>rk_BufferSize = 128, rk_DLQSuffix = ''.dlq'', rk_CloseRuntime = False\<rparr>, rk_closed = False,
     rk_subs = {}, rk_chan = (\<lambda>_. []), rk_job = Map.empty, rk_leases = Map.empty, rk_done = Map.empty,
     rk_returned = Map.empty, rk_log = []\<rparr>"

definition demo_codec :: time_codec where
  "demo_codec = \<lparr>format_time = (\<lambda>_. ''now''), parse_time = (\<lambda>_. Inr 0)\<rparr>"

definition demo_nacked :: runtime_backend where
  "demo_nacked =
     (let b1 = rk_deliver ''q'' 0 demo_job demo_start;
          b2 = snd (rk_Reserve True True ''q'' 0 None None 0 ''t'' b1)
      in snd (rk_Nack True demo_codec (Some demo_lease) 0 None 5 None None b2))"

lemma demo_reachable:
  "rk_reachable \<lparr>rk_BufferSize = 0, rk_DLQSuffix = [], rk_CloseRuntime = False\<rparr> demo_nacked"
proof -
  let ?c = "\<lparr>rk_BufferSize = 0, rk_DLQSuffix = [], rk_CloseRuntime = False\<rparr>"
  let ?b1 = "rk_deliver ''q'' 0 demo_job demo_start"
  let ?b2 = "snd (rk_Reserve True True ''q'' 0 None None 0 ''t'' ?b1)"
  have "rk_reachable ?c demo_start"
    by (rule rk_reachable.start)
      (simp add: NewRuntimeBackend_def runtime_backend_normalize_def demo_start_def pos_or_def)
  moreover have "rk_step demo_start ?b1" by (rule rk_step.deliver) (simp_all add: demo_start_def)
  moreover have "rk_step ?b1 ?b2"
    by (rule rk_step.reserve [OF _ prod.collapse [symmetric]]) (simp add: rk_deliver_def demo_start_def)
  moreover have "rk_step ?b2 demo_nacked"
    unfolding demo_nacked_def Let_def by (rule rk_step.nack) (rule prod.collapse [symmetric])
  ultimately show ?thesis by (blast intro: rk_reachable.step)
qed

theorem runtime_settles_once_witness:
  "length (settlements demo_nacked 0) = 1 \<and> length (settlements demo_nacked 0) \<le> 1
    \<and> rk_Ack True (Some demo_lease) demo_nacked
        = (Some (jobsError ErrNotFound ''lease not found''), demo_nacked)"
proof -
  have "length (settlements demo_nacked 0) = 1" by code_simp
  moreover have "trim_space ''t'' = ''t''" by code_simp
  moreover have "rk_leases demo_nacked ''t'' = None" by code_simp
  moreover note runtime_settles_once [OF demo_reachable, of 0]
  ultimately show ?thesis by (simp add: rk_Ack_def popLease_def demo_lease_def)
qed

end
