(* ===== verification/Worker.thy ===== *)
theory Worker
  imports Jobs Breaker
begin

text \<open>
  \<^verbatim>\<open>pkg/jobs/worker.go\<close>: the configuration, the registration of handlers, and what the worker does with
  one reserved job: run its handler under a timeout, then acknowledge it, reject it for a later
  attempt, quarantine it, move it to the dead-letter queue or drop it.  The backend is the
  interface of \<^verbatim>\<open>pkg/jobs/backend.go\<close>: a record of its operations on a state; the lemmas say which of
  its calls are made for a job and how often a failing job is run over its life.
\<close>

section \<open>Configuration\<close>

record worker_config =
  wc_Queues :: "string list"
  wc_Concurrency :: int
  wc_LeaseTTL :: duration
  wc_ReserveTimeout :: duration
  wc_StopTimeout :: duration
  wc_Retry :: budget
  wc_DLQEnabled :: bool
  wc_DLQSuffix :: string
  wc_Quarantine :: bool

definition retry_policy_normalize :: "budget \<Rightarrow> budget" where
  "retry_policy_normalize b = Normalize 5 second (60 * second) (30 * second) b"

definition worker_normalize :: "worker_config \<Rightarrow> worker_config" where
  "worker_normalize c =
     c\<lparr>wc_Concurrency := pos_or (wc_Concurrency c) 1,
       wc_LeaseTTL := pos_or (wc_LeaseTTL c) (30 * second),
       wc_ReserveTimeout := pos_or (wc_ReserveTimeout c) second,
       wc_StopTimeout := pos_or (wc_StopTimeout c) (10 * second),
       wc_Retry := retry_policy_normalize (wc_Retry c),
       wc_DLQSuffix := (if blank (wc_DLQSuffix c) then ''.dlq'' else wc_DLQSuffix c)\<rparr>"

definition NewWorker :: "bool \<Rightarrow> bool \<Rightarrow> worker_config \<Rightarrow> worker_config result" where
  "NewWorker hasBackend hasLog c0 =
     (if \<not> hasBackend then Inl (jobsError ErrInvalidArgument ''backend is required'')
      else if \<not> hasLog then Inl (jobsError ErrInvalidArgument ''logger is required'')
      else
        (let c = worker_normalize c0;
             queues = filter (\<lambda>q. q \<noteq> []) (map trim_space (wc_Queues c))
         in if wc_Queues c = [] then Inl (jobsError ErrValidation ''at least one queue is required'')
            else if queues = []
              then Inl (jobsError ErrValidation ''at least one non-empty queue is required'')
            else Inr (c\<lparr>wc_Queues := queues\<rparr>)))"

section \<open>Handlers\<close>

text \<open>
  How a run of a handler ends, from the worker's point of view.  The handler runs in the goroutine
  that \<^verbatim>\<open>WithTimeout\<close> starts, so the deferred \<^verbatim>\<open>recover\<close> of \<^verbatim>\<open>executeHandler\<close>, which only sees panics of its
  own goroutine, does not see the handler's: an unrecovered panic ends the process.
\<close>

datatype handler_run = Returned "err option" | CtxEnded err | Panicked string

datatype execution = Executed "err option" | Crashed string

definition executeHandler :: "handler_run \<Rightarrow> execution" where
  "executeHandler r =
     (case r of
        Returned e \<Rightarrow> Executed (WithTimeout FnDone (ENew []) e)
      | CtxEnded c \<Rightarrow> Executed (WithTimeout CtxDone c None)
      | Panicked p \<Rightarrow> Crashed p)"

type_synonym 'h handlers = "string \<rightharpoonup> 'h"

definition Register :: "bool \<Rightarrow> string \<Rightarrow> 'h option \<Rightarrow> 'h handlers \<Rightarrow> err option \<times> 'h handlers" where
  "Register hasWorker jobName0 handler hs =
     (if \<not> hasWorker then (Some (jobsError ErrNotInitialized ''worker is not initialized''), hs)
      else let jobName = trim_space jobName0 in
        if jobName = [] then (Some (jobsError ErrInvalidArgument ''job name is required''), hs)
        else case handler of
          None \<Rightarrow> (Some (jobsError ErrInvalidArgument ''handler is required''), hs)
        | Some h \<Rightarrow> (None, hs(jobName \<mapsto> h)))"

definition lookupHandler :: "'h handlers \<Rightarrow> string \<Rightarrow> 'h option" where
  "lookupHandler hs jobName = hs (trim_space jobName)"

section \<open>Settling a job\<close>

text \<open>The operations of the backend that settle a lease, the quarantine sink, and the calls made.\<close>

datatype settle = AckCall | NackCall gotime err | DLQCall err | QuarantineSink quarantine_record

record 'b backend =
  bk_Ack :: "lease option \<Rightarrow> 'b \<Rightarrow> err option \<times> 'b"
  bk_Nack :: "lease option \<Rightarrow> gotime \<Rightarrow> err option \<Rightarrow> 'b \<Rightarrow> err option \<times> 'b"
  bk_MoveToDLQ :: "lease option \<Rightarrow> err option \<Rightarrow> 'b \<Rightarrow> err option \<times> 'b"
  bk_Quarantine :: "quarantine_record \<Rightarrow> 'b \<Rightarrow> err option \<times> 'b"

definition effective_max :: "worker_config \<Rightarrow> job \<Rightarrow> int" where
  "effective_max c j =
     (let m = (if j_MaxAttempts j > 0 then j_MaxAttempts j else MaxAttempts (wc_Retry c))
      in if m \<le> 0 then 1 else m)"

definition failure_decision :: "worker_config \<Rightarrow> job \<Rightarrow> err \<Rightarrow> decision" where
  "failure_decision c j failure =
     (let maxAttempts = effective_max c j
      in Decide (Classify (Some failure)) (i64 (j_Attempt j + 1)) maxAttempts
           \<lparr>MaxAttempts = maxAttempts, InitialBackoff = InitialBackoff (wc_Retry c),
            MaxBackoff = MaxBackoff (wc_Retry c), AttemptTimeout = AttemptTimeout (wc_Retry c)\<rparr>
           \<lparr>DeadLetterEnabled = wc_DLQEnabled c, QuarantineEnabled = wc_Quarantine c\<rparr>)"

definition handleFailure ::
  "'b backend \<Rightarrow> worker_config \<Rightarrow> gotime \<Rightarrow> job \<Rightarrow> lease option \<Rightarrow> err \<Rightarrow> 'b
    \<Rightarrow> err option \<times> settle list \<times> 'b" where
  "handleFailure B c now j l failure b =
     (let d = failure_decision c j failure in
      if Disposition d = DispositionDelayedRetry then
        (let nextRun = now + Delay d in
         case bk_Nack B l nextRun (Some failure) b of
           (Some e, b') \<Rightarrow> (Some (EJoin [jobsError ErrRetryable ''nack failed'', e]),
                            [NackCall nextRun failure], b')
         | (None, b') \<Rightarrow> (None, [NackCall nextRun failure], b'))
      else if Disposition d = DispositionDeadLetter \<or> Disposition d = DispositionQuarantine then
        (if Disposition d = DispositionQuarantine \<and> wc_Quarantine c then
           (let q = \<lparr>qr_Scope = ''jobs'', qr_Key = j_Queue j @ '':'' @ j_ID j,
                qr_Classification = Classification d, qr_Reason = error_text failure,
                qr_Attempt = Attempt d, qr_MaxAttempts = DecMaxAttempts d, qr_OccurredAt = now,
                qr_Metadata = [(''queue'', j_Queue j), (''job_id'', j_ID j), (''job_name'', j_Name j)]\<rparr>
            in case bk_Quarantine B q b of
                 (Some e, b') \<Rightarrow> (Some (EJoin [jobsError ErrRetryable ''quarantine failed'', e]),
                                 [QuarantineSink q], b')
               | (None, b') \<Rightarrow>
                   (case bk_Ack B l b' of
                      (Some e, b'') \<Rightarrow>
                        (Some (EJoin [jobsError ErrRetryable ''ack failed after quarantine'', e]),
                         [QuarantineSink q, AckCall], b'')
                    | (None, b'') \<Rightarrow> (None, [QuarantineSink q, AckCall], b'')))
         else
           (case bk_MoveToDLQ B l (Some failure) b of
              (Some e, b') \<Rightarrow> (Some (EJoin [jobsError ErrRetryable ''dlq move failed'', e]),
                              [DLQCall failure], b')
            | (None, b') \<Rightarrow> (None, [DLQCall failure], b')))
      else
        (case bk_Ack B l b of
           (Some e, b') \<Rightarrow>
             (Some (EJoin [jobsError ErrRetryable ''ack failed while dropping job'', e]), [AckCall], b')
         | (None, b') \<Rightarrow>
             (Some (EJoin [jobsError ErrConflict (''job dropped after '' @ itoa (effective_max c j)
                @ '' attempts''), failure]), [AckCall], b')))"

text \<open>
  \<^verbatim>\<open>process\<close>: \<open>run\<close> is how the handler ended, \<open>renewErr\<close> the error of the renewal goroutine, \<open>None\<close> when
  every renewal succeeded.  A crash settles nothing.
\<close>

definition join_renewal :: "err option \<Rightarrow> err option \<Rightarrow> err option" where
  "join_renewal execErr renewErr =
     (case renewErr of
        None \<Rightarrow> execErr
      | Some r \<Rightarrow> (case execErr of None \<Rightarrow> Some r | Some e \<Rightarrow> Some (EJoin [e, r])))"

definition process ::
  "'b backend \<Rightarrow> worker_config \<Rightarrow> 'h handlers \<Rightarrow> ('h \<Rightarrow> job \<Rightarrow> handler_run) \<Rightarrow> err option \<Rightarrow> gotime
    \<Rightarrow> job \<Rightarrow> lease option \<Rightarrow> 'b \<Rightarrow> (execution \<times> settle list) \<times> 'b" where
  "process B c hs run renewErr now j l b =
     (case lookupHandler hs (j_Name j) of
        None \<Rightarrow>
          (case handleFailure B c now j l
                  (ETagged (jobsError ErrNotFound (''handler not registered for job '' @ quoted (j_Name j)))
                     ClassificationPoison) b of
             (e, calls, b') \<Rightarrow> ((Executed e, calls), b'))
      | Some h \<Rightarrow>
          (case executeHandler (run h j) of
             Crashed p \<Rightarrow> ((Crashed p, []), b)
           | Executed execErr0 \<Rightarrow>
               (case join_renewal execErr0 renewErr of
                  Some f \<Rightarrow>
                    (case handleFailure B c now j l f b of
                       (e, calls, b') \<Rightarrow> ((Executed e, calls), b'))
                | None \<Rightarrow>
                    (case bk_Ack B l b of
                       (Some e, b') \<Rightarrow>
                         ((Executed (Some (EJoin [jobsError ErrRetryable ''ack failed'', e])), [AckCall]), b')
                     | (None, b') \<Rightarrow> ((Executed None, [AckCall]), b')))))"

text \<open>\<^verbatim>\<open>startLeaseRenewal\<close>: the interval of its ticker.\<close>

definition renew_interval :: "worker_config \<Rightarrow> duration" where
  "renew_interval c =
     (let half = go_div (wc_LeaseTTL c) 2; i = (if half \<le> 0 then wc_LeaseTTL c else half)
      in if i < 100 * millisecond then 100 * millisecond else i)"

section \<open>The life of a failing job\<close>

text \<open>
  The runs of a job whose handler keeps failing with the same error: after a rejection the backend
  hands it out again with its attempt counter one higher.  The result is the number of runs and
  the last disposition; the first argument bounds the number of rejections followed.
\<close>

fun failing_life :: "nat \<Rightarrow> worker_config \<Rightarrow> err \<Rightarrow> job \<Rightarrow> nat \<times> disposition" where
  "failing_life 0 c e j = (1, Disposition (failure_decision c j e))"
| "failing_life (Suc n) c e j =
     (let d = Disposition (failure_decision c j e) in
      if d = DispositionDelayedRetry
      then (let (k, d') = failing_life n c e (j\<lparr>j_Attempt := i64 (j_Attempt j + 1)\<rparr>) in (Suc k, d'))
      else (1, d))"

section \<open>Lemmas\<close>

definition lease_calls :: "settle list \<Rightarrow> settle list" where
  "lease_calls cs = filter (\<lambda>c. case c of QuarantineSink _ \<Rightarrow> False | _ \<Rightarrow> True) cs"

lemma lease_calls_simps [simp]:
  "lease_calls [] = []" "lease_calls (AckCall # cs) = AckCall # lease_calls cs"
  "lease_calls (NackCall t e # cs) = NackCall t e # lease_calls cs"
  "lease_calls (DLQCall e # cs) = DLQCall e # lease_calls cs"
  "lease_calls (QuarantineSink q # cs) = lease_calls cs"
  by (simp_all add: lease_calls_def)

lemma effective_max_pos [simp]: "0 < effective_max c j"
  by (simp add: effective_max_def Let_def)

lemma effective_max_attempt [simp]: "effective_max c (j\<lparr>j_Attempt := n\<rparr>) = effective_max c j"
  by (simp add: effective_max_def)

lemma failure_decision_retry:
  "Disposition (failure_decision c j e) = DispositionDelayedRetry \<longleftrightarrow>
     Classify (Some e) = ClassificationRetryable \<and> i64 (j_Attempt j + 1) < effective_max c j"
proof -
  have "1 \<le> effective_max c j" using effective_max_pos [of c j] by linarith
  then have "max 1 (effective_max c j) = effective_max c j" by simp
  then show ?thesis by (simp add: failure_decision_def Let_def Decide_delayed)
qed

lemma failure_decision_fits:
  assumes "job_Validate (Some j) = None" and "fits64 (effective_max c j)"
    and "j_Attempt j < effective_max c j"
  shows "i64 (j_Attempt j + 1) = j_Attempt j + 1"
  using assms by (simp add: job_Validate_Some fits64_def)

lemma handleFailure_calls:
  assumes "handleFailure B c now j l f b = (e, calls, b')"
  shows "length (lease_calls calls) \<le> 1
    \<and> (lease_calls calls = [] \<longrightarrow> wc_Quarantine c \<and> e \<noteq> None)
    \<and> (\<forall>t x. NackCall t x \<in> set calls \<longleftrightarrow> x = f \<and> t = now + Delay (failure_decision c j f)
         \<and> Disposition (failure_decision c j f) = DispositionDelayedRetry)"
  using assms
  by (auto simp: handleFailure_def Let_def split: if_splits prod.splits option.splits)

lemma failing_life_runs:
  assumes "Classify (Some e) = ClassificationRetryable" and "0 \<le> j_Attempt j"
    and "fits64 (effective_max c j)" and "j_Attempt j < effective_max c j"
    and "effective_max c j \<le> j_Attempt j + 1 + int n"
  shows "fst (failing_life n c e j) = nat (effective_max c j - j_Attempt j)
    \<and> snd (failing_life n c e j) \<noteq> DispositionDelayedRetry"
  using assms
proof (induction n arbitrary: j)
  case 0
  then have "i64 (j_Attempt j + 1) = j_Attempt j + 1" by (simp add: fits64_def)
  with 0 show ?case by (simp add: failure_decision_retry)
next
  case (Suc n)
  have i: "i64 (j_Attempt j + 1) = j_Attempt j + 1" using Suc.prems by (simp add: fits64_def)
  show ?case
  proof (cases "j_Attempt j + 1 < effective_max c j")
    case True
    let ?j = "j\<lparr>j_Attempt := j_Attempt j + 1\<rparr>"
    have "fst (failing_life n c e ?j) = nat (effective_max c ?j - j_Attempt ?j)
        \<and> snd (failing_life n c e ?j) \<noteq> DispositionDelayedRetry"
      using Suc.prems True by (intro Suc.IH) auto
    with True Suc.prems i show ?thesis
      by (auto simp: Let_def failure_decision_retry split: prod.splits)
  next
    case False
    then have "effective_max c j = j_Attempt j + 1" using Suc.prems by simp
    with Suc.prems i show ?thesis by (simp add: Let_def failure_decision_retry)
  qed
qed

text \<open>
  A handler that panics takes the whole process down: the panic happens in the goroutine of
  \<^verbatim>\<open>WithTimeout\<close>, where the worker's \<^verbatim>\<open>recover\<close> does not reach, so the lease is not settled.
\<close>

lemma process_panic_crashes:
  assumes "lookupHandler hs (j_Name j) = Some h" and "run h j = Panicked p"
  shows "process B c hs run renewErr now j l b = ((Crashed p, []), b)"
  using assms by (simp add: process_def executeHandler_def)

section \<open>Properties\<close>

text \<open>
  C13. Every processed job that does not crash the process settles its lease by exactly one call of
  the backend, an acknowledgement, a rejection or a move to the dead-letter queue; by none only
  when a quarantine sink is configured and failed, and then the error is reported.  A handler that
  succeeds while its lease is renewed leads to an acknowledgement.
\<close>

theorem process_settles_once:
  assumes "process B c hs run renewErr now j l b = ((Executed e, calls), b')"
  shows "length (lease_calls calls) \<le> 1
    \<and> (lease_calls calls = [] \<longrightarrow> wc_Quarantine c \<and> e \<noteq> None)
    \<and> (lookupHandler hs (j_Name j) = Some h \<and> run h j = Returned None \<and> renewErr = None \<longrightarrow> calls = [AckCall])"
proof -
  have ok: "length (lease_calls cs) \<le> 1 \<and> (lease_calls cs = [] \<longrightarrow> wc_Quarantine c \<and> x \<noteq> None)"
    if "handleFailure B c now j l f b = (x, cs, u)" for f x cs u
    using handleFailure_calls [OF that] by blast
  show ?thesis
    using assms
    by (auto simp: process_def executeHandler_def WithTimeout_def join_renewal_def
        split: option.splits prod.splits execution.splits handler_run.splits if_splits dest!: ok)
qed

definition sample_worker :: worker_config where
  "sample_worker = worker_normalize \<lparr>wc_Queues = [''mail''], wc_Concurrency = 1, wc_LeaseTTL = 0,
     wc_ReserveTimeout = 0, wc_StopTimeout = 0,
     wc_Retry = \<lparr>MaxAttempts = 0, InitialBackoff = 0, MaxBackoff = 0, AttemptTimeout = 0\<rparr>,
     wc_DLQEnabled = True, wc_DLQSuffix = [], wc_Quarantine = False\<rparr>"

definition counting_backend :: "nat backend" where
  "counting_backend = \<lparr>bk_Ack = (\<lambda>l n. (None, Suc n)), bk_Nack = (\<lambda>l t e n. (None, n)),
     bk_MoveToDLQ = (\<lambda>l e n. (None, n)), bk_Quarantine = (\<lambda>q n. (None, n))\<rparr>"

theorem process_settles_once_witness:
  "process counting_backend sample_worker [''send'' \<mapsto> ()] (\<lambda>_ _. Returned None) None 9 sample_job None 0
     = ((Executed None, [AckCall]), 1)
   \<and> length (lease_calls [AckCall]) \<le> 1"
proof -
  have h: "lookupHandler [''send'' \<mapsto> ()] (j_Name sample_job) = Some ()"
    by (simp add: lookupHandler_def sample_job_def trim_space_plain ascii_space_def)
  obtain e calls b' where p: "process counting_backend sample_worker [''send'' \<mapsto> ()] (\<lambda>_ _. Returned None) None 9
      sample_job None 0 = ((Executed e, calls), b')"
    using h by (auto simp: process_def executeHandler_def WithTimeout_def join_renewal_def counting_backend_def)
  have "calls = [AckCall]" using process_settles_once [OF p, of "()"] h by simp
  with p h show ?thesis
    by (auto simp: process_def executeHandler_def WithTimeout_def join_renewal_def counting_backend_def)
qed

text \<open>
  C14. A job whose handler keeps failing with a retryable error is run until its attempt counter
  reaches the job's own maximum, or the worker's when it has none: exactly the difference many
  times in all; then it is not retried any more.  A job that is given back for another attempt is
  still valid, so that the backend does not discard it when it is reserved again.
\<close>

theorem failing_job_bounded:
  assumes "job_Validate (Some j) = None" and "Classify (Some e) = ClassificationRetryable"
    and "fits64 (effective_max c j)" and "j_Attempt j < effective_max c j" and "effective_max c j \<le> int n"
  shows "fst (failing_life n c e j) = nat (effective_max c j - j_Attempt j)
    \<and> snd (failing_life n c e j) \<noteq> DispositionDelayedRetry
    \<and> (Disposition (failure_decision c j e) = DispositionDelayedRetry \<longrightarrow>
        job_Validate (Some (j\<lparr>j_Attempt := i64 (j_Attempt j + 1)\<rparr>)) = None)"
proof -
  have a: "0 \<le> j_Attempt j" using assms(1) by (simp add: job_Validate_Some)
  have "job_Validate (Some (j\<lparr>j_Attempt := i64 (j_Attempt j + 1)\<rparr>)) = None"
    if "Disposition (failure_decision c j e) = DispositionDelayedRetry"
    using that assms(1) failure_decision_fits [OF assms(1,3,4)]
    by (auto simp: failure_decision_retry job_Validate_Some effective_max_def Let_def split: if_splits)
  with failing_life_runs [OF assms(2) a assms(3,4), of n] assms(5) a show ?thesis by simp
qed

theorem failing_job_bounded_witness:
  "fst (failing_life 9 sample_worker (ENew ''boom'') sample_job) = 4
   \<and> snd (failing_life 9 sample_worker (ENew ''boom'') sample_job) \<noteq> DispositionDelayedRetry"
proof -
  have m: "effective_max sample_worker sample_job = 5" "j_Attempt sample_job = 1"
    by (simp_all add: effective_max_def sample_job_def Let_def)
  from failing_job_bounded [OF sample_job_valid, of "ENew ''boom''" sample_worker 9] m show ?thesis
    by (simp add: Classify_def fits64_def)
qed

end
