(* ===== verification/Cron.thy ===== *)
theory Cron
  imports Errors
begin

text \<open>
  \<^verbatim>\<open>pkg/scheduler/task.go\<close>: scheduled tasks, the five-field cron syntax and the search for the next
  run.  The theory shows what a field means, that the search finds the earliest matching minute
  and nothing else, and how the weekday field treats Sunday.

  A \<^verbatim>\<open>time.Location\<close> is the function from an instant to its offset from UTC;
  \<^verbatim>\<open>time.LoadLocation\<close>, which reads the time zone database, and \<^verbatim>\<open>time.ParseDuration\<close> are
  parameters.
\<close>

section \<open>The calendar of \<^verbatim>\<open>time.Time\<close>\<close>

type_synonym zone = "gotime \<Rightarrow> duration"

definition UTC :: zone where
  "UTC t = 0"

text \<open>Days since 1 January of year 1, a Monday, and the time of the day.\<close>

definition day_number :: "zone \<Rightarrow> gotime \<Rightarrow> int" where
  "day_number loc t = (t + loc t) div (24 * hour)"

definition time_Minute :: "zone \<Rightarrow> gotime \<Rightarrow> int" where
  "time_Minute loc t = (t + loc t) mod hour div minute"

definition time_Hour :: "zone \<Rightarrow> gotime \<Rightarrow> int" where
  "time_Hour loc t = (t + loc t) mod (24 * hour) div hour"

text \<open>0 is Sunday.\<close>

definition time_Weekday :: "zone \<Rightarrow> gotime \<Rightarrow> int" where
  "time_Weekday loc t = (day_number loc t + 1) mod 7"

text \<open>The year (from 0) and the day in it, by cycles of 400, 100, 4 and 1 years.\<close>

definition year_day :: "int \<Rightarrow> int \<times> int" where
  "year_day d =
     (let n400 = d div 146097; d1 = d mod 146097;
          n100 = min 3 (d1 div 36524); d2 = d1 - 36524 * n100;
          n4 = d2 div 1461; d3 = d2 mod 1461;
          n1 = min 3 (d3 div 365); d4 = d3 - 365 * n1
      in (400 * n400 + 100 * n100 + 4 * n4 + n1, d4))"

text \<open>Year \<open>y\<close> counted from 0 is the calendar's year \<open>y + 1\<close>.\<close>

definition leap :: "int \<Rightarrow> bool" where
  "leap y \<longleftrightarrow> (y + 1) mod 4 = 0 \<and> ((y + 1) mod 100 \<noteq> 0 \<or> (y + 1) mod 400 = 0)"

definition month_lengths :: "bool \<Rightarrow> int list" where
  "month_lengths l = [31, if l then 29 else 28, 31, 30, 31, 30, 31, 31, 30, 31, 30, 31]"

fun month_day :: "int list \<Rightarrow> int \<Rightarrow> int \<Rightarrow> int \<times> int" where
  "month_day [] m d = (m, d + 1)"
| "month_day (l # ls) m d = (if d < l then (m, d + 1) else month_day ls (m + 1) (d - l))"

definition time_Date :: "zone \<Rightarrow> gotime \<Rightarrow> int \<times> int" where
  "time_Date loc t = (let (y, d) = year_day (day_number loc t) in month_day (month_lengths (leap y)) 1 d)"

definition time_Month :: "zone \<Rightarrow> gotime \<Rightarrow> int" where
  "time_Month loc t = fst (time_Date loc t)"

definition time_Day :: "zone \<Rightarrow> gotime \<Rightarrow> int" where
  "time_Day loc t = snd (time_Date loc t)"

section \<open>Cron fields\<close>

record cronFieldMatcher =
  m_any :: bool
  m_values :: "int set"

definition contains :: "cronFieldMatcher \<Rightarrow> int \<Rightarrow> bool" where
  "contains m v \<longleftrightarrow> m_any m \<or> v \<in> m_values m"

definition normalizeCronValue :: "int \<Rightarrow> bool \<Rightarrow> int" where
  "normalizeCronValue v sunday = (if sunday \<and> v = 7 then 0 else v)"

text \<open>The base of a segment and its step.\<close>

definition segment_step :: "string \<Rightarrow> (string \<times> int) result" where
  "segment_step segment =
     (if CHR ''/'' \<in> set segment then
        (let (base, stepRaw0) = cut_at CHR ''/'' segment; stepRaw = trim_space stepRaw0
         in case parse_int stepRaw of
              Some n \<Rightarrow> (if n \<le> 0
                then Inl (schedulerError ErrValidation (''invalid step value '' @ quoted stepRaw))
                else Inr (trim_space base, n))
            | None \<Rightarrow> Inl (schedulerError ErrValidation (''invalid step value '' @ quoted stepRaw)))
      else Inr (segment, 1))"

text \<open>The start and the end of a segment before the range checks.\<close>

definition segment_range :: "string \<Rightarrow> int \<Rightarrow> int \<Rightarrow> int \<Rightarrow> bool \<Rightarrow> (int \<times> int) result" where
  "segment_range base0 step minValue maxValue sunday =
     (let base = (if blank base0 then ''*'' else trim_space base0) in
      if base = ''*'' then Inr (minValue, maxValue)
      else if CHR ''-'' \<in> set base then
        (let (a, b) = cut_at CHR ''-'' base
         in case parse_int (trim_space a) of
              None \<Rightarrow> Inl (schedulerError ErrValidation (''invalid range start '' @ quoted a))
            | Some rangeStart \<Rightarrow>
                (case parse_int (trim_space b) of
                   None \<Rightarrow> Inl (schedulerError ErrValidation (''invalid range end '' @ quoted b))
                 | Some rangeEnd \<Rightarrow>
                     Inr (normalizeCronValue rangeStart sunday, normalizeCronValue rangeEnd sunday)))
      else
        (case parse_int base of
           None \<Rightarrow> Inl (schedulerError ErrValidation (''invalid value '' @ quoted base))
         | Some single \<Rightarrow>
             (let start = normalizeCronValue single sunday
              in Inr (start, if step > 1 then maxValue else start))))"

definition out_of_range :: "int \<Rightarrow> int \<Rightarrow> int \<Rightarrow> err" where
  "out_of_range v lo hi = schedulerError ErrValidation
     (''value '' @ itoa v @ '' out of range ['' @ itoa lo @ '','' @ itoa hi @ '']'')"

text \<open>
  The loop that collects the values, at the width of Go's \<^verbatim>\<open>int\<close>.  The first argument bounds the
  iterations: \<open>None\<close> when it is used up.
\<close>

fun cron_values :: "nat \<Rightarrow> bool \<Rightarrow> int \<Rightarrow> int \<Rightarrow> int \<Rightarrow> int \<Rightarrow> int \<Rightarrow> int set \<Rightarrow> int set option" where
  "cron_values 0 sunday lo hi step stop v vals = None"
| "cron_values (Suc n) sunday lo hi step stop v vals =
     (if v \<le> stop
      then let x = normalizeCronValue v sunday
           in cron_values n sunday lo hi step stop (i64 (v + step))
                (if x < lo \<or> hi < x then vals else insert x vals)
      else Some vals)"

definition appendCronSegmentValues ::
  "int set \<Rightarrow> string \<Rightarrow> int \<Rightarrow> int \<Rightarrow> bool \<Rightarrow> int set result" where
  "appendCronSegmentValues vals segment lo hi sunday =
     (case segment_step segment of
        Inl e \<Rightarrow> Inl e
      | Inr (base, step) \<Rightarrow>
          (case segment_range base step lo hi sunday of
             Inl e \<Rightarrow> Inl e
           | Inr (start, stop) \<Rightarrow>
               (if start < lo \<or> hi < start then Inl (out_of_range start lo hi)
                else if stop < lo \<or> hi < stop then Inl (out_of_range stop lo hi)
                else if stop < start
                  then Inl (schedulerError ErrValidation (''invalid range '' @ itoa start @ ''-'' @ itoa stop))
                else case cron_values 200 sunday lo hi step stop start vals of
                       Some vals' \<Rightarrow> Inr vals'
                     | None \<Rightarrow> Inl (ENew ''more than 200 iterations''))))"

fun append_segments :: "string list \<Rightarrow> int \<Rightarrow> int \<Rightarrow> bool \<Rightarrow> int set \<Rightarrow> int set result" where
  "append_segments [] lo hi sunday vals = Inr vals"
| "append_segments (seg # segs) lo hi sunday vals =
     (if blank seg then Inl (schedulerError ErrValidation ''empty segment'')
      else case appendCronSegmentValues vals (trim_space seg) lo hi sunday of
             Inl e \<Rightarrow> Inl e
           | Inr vals' \<Rightarrow> append_segments segs lo hi sunday vals')"

definition parseCronField :: "string \<Rightarrow> int \<Rightarrow> int \<Rightarrow> bool \<Rightarrow> cronFieldMatcher result" where
  "parseCronField raw lo hi sunday =
     (let field = trim_space raw in
      if field = [] then Inl (schedulerError ErrValidation ''empty field'')
      else if field = ''*'' then Inr \<lparr>m_any = True, m_values = {}\<rparr>
      else case append_segments (split_on CHR '','' field) lo hi sunday {} of
             Inl e \<Rightarrow> Inl e
           | Inr vals \<Rightarrow> (if vals = {} then Inl (schedulerError ErrValidation ''no values parsed'')
                         else Inr \<lparr>m_any = False, m_values = vals\<rparr>))"

record cronExpression =
  ce_minute :: cronFieldMatcher
  ce_hour :: cronFieldMatcher
  ce_dayOfMonth :: cronFieldMatcher
  ce_month :: cronFieldMatcher
  ce_dayOfWeek :: cronFieldMatcher

definition invalid_field :: "string \<Rightarrow> string \<Rightarrow> err \<Rightarrow> err" where
  "invalid_field name raw e =
     EJoin [schedulerError ErrValidation (''invalid '' @ name @ '' field '' @ quoted raw), e]"

fun parseCronExpression :: "string list \<Rightarrow> cronExpression result" where
  "parseCronExpression [f0, f1, f2, f3, f4] =
     (case parseCronField f0 0 59 False of
        Inl e \<Rightarrow> Inl (invalid_field ''minute'' f0 e)
      | Inr mi \<Rightarrow>
     (case parseCronField f1 0 23 False of
        Inl e \<Rightarrow> Inl (invalid_field ''hour'' f1 e)
      | Inr ho \<Rightarrow>
     (case parseCronField f2 1 31 False of
        Inl e \<Rightarrow> Inl (invalid_field ''day-of-month'' f2 e)
      | Inr dm \<Rightarrow>
     (case parseCronField f3 1 12 False of
        Inl e \<Rightarrow> Inl (invalid_field ''month'' f3 e)
      | Inr mo \<Rightarrow>
     (case parseCronField f4 0 7 True of
        Inl e \<Rightarrow> Inl (invalid_field ''day-of-week'' f4 e)
      | Inr dw \<Rightarrow> Inr \<lparr>ce_minute = mi, ce_hour = ho, ce_dayOfMonth = dm, ce_month = mo, ce_dayOfWeek = dw\<rparr>)))))"
| "parseCronExpression _ = Inl (ENew ''index out of range'')"

definition matches :: "cronExpression \<Rightarrow> zone \<Rightarrow> gotime \<Rightarrow> bool" where
  "matches e loc t =
     (if \<not> contains (ce_minute e) (time_Minute loc t) then False
      else if \<not> contains (ce_hour e) (time_Hour loc t) then False
      else if \<not> contains (ce_month e) (time_Month loc t) then False
      else let dayOfMonthMatch = contains (ce_dayOfMonth e) (time_Day loc t);
               dayOfWeekMatch = contains (ce_dayOfWeek e) (time_Weekday loc t)
           in if m_any (ce_dayOfMonth e) \<and> m_any (ce_dayOfWeek e) then True
              else if m_any (ce_dayOfMonth e) then dayOfWeekMatch
              else if m_any (ce_dayOfWeek e) then dayOfMonthMatch
              else dayOfMonthMatch \<or> dayOfWeekMatch)"

section \<open>The next run\<close>

definition maxCronSearchIterations :: nat where
  "maxCronSearchIterations = 5 * 366 * 24 * 60"

fun cron_search :: "nat \<Rightarrow> cronExpression \<Rightarrow> zone \<Rightarrow> gotime \<Rightarrow> gotime option" where
  "cron_search 0 e loc candidate = None"
| "cron_search (Suc n) e loc candidate =
     (if matches e loc candidate then Some candidate else cron_search n e loc (candidate + minute))"

text \<open>\<^verbatim>\<open>Time.Truncate(time.Minute)\<close>.\<close>

definition truncate_minute :: "gotime \<Rightarrow> gotime" where
  "truncate_minute t = t - t mod minute"

definition nextRunForSchedule ::
  "(string \<Rightarrow> duration result) \<Rightarrow> string \<Rightarrow> gotime \<Rightarrow> zone \<Rightarrow> gotime result" where
  "nextRunForSchedule parse_duration schedule now loc =
     (if has_prefix schedule ''@every '' then
        (case parse_duration (trim_space (drop 7 schedule)) of
           Inl e \<Rightarrow> Inl (EJoin [schedulerError ErrValidation ''invalid @every duration'', e])
         | Inr interval \<Rightarrow>
             (if interval \<le> 0 then Inl (schedulerError ErrValidation ''@every duration must be > 0'')
              else Inr (now + interval)))
      else let fields = strings_Fields schedule in
        if length fields \<noteq> 5
        then Inl (schedulerError ErrValidation (''unsupported schedule format '' @ quoted schedule))
        else case parseCronExpression fields of
          Inl e \<Rightarrow> Inl e
        | Inr e \<Rightarrow>
            (case cron_search maxCronSearchIterations e loc (truncate_minute now + minute) of
               Some t \<Rightarrow> Inr t
             | None \<Rightarrow> Inl (schedulerError ErrValidation
                            (''unable to find next run for schedule '' @ quoted schedule))))"

section \<open>Tasks\<close>

record task =
  t_Name :: string
  t_Schedule :: string
  t_Queue :: string
  t_JobName :: string
  t_Payload :: string
  t_Headers :: headers
  t_TenantID :: string
  t_IdempotencyKey :: string
  t_Timezone :: string
  t_LockTTL :: duration
  t_MisfirePolicy :: string

text \<open>\<^verbatim>\<open>time.LoadLocation\<close> and \<^verbatim>\<open>time.ParseDuration\<close>.\<close>

record time_env =
  LoadLocation :: "string \<Rightarrow> zone result"
  ParseDuration :: "string \<Rightarrow> duration result"

definition task_normalize :: "task \<Rightarrow> task" where
  "task_normalize t = (if blank (t_MisfirePolicy t) then t\<lparr>t_MisfirePolicy := ''skip''\<rparr> else t)"

definition location :: "time_env \<Rightarrow> task \<Rightarrow> zone result" where
  "location E t =
     (if blank (t_Timezone t) then Inr UTC
      else case LoadLocation E (trim_space (t_Timezone t)) of
             Inl e \<Rightarrow> Inl (EJoin [schedulerError ErrValidation ''invalid task timezone'', e])
           | Inr loc \<Rightarrow> Inr loc)"

definition nextRun :: "time_env \<Rightarrow> task \<Rightarrow> gotime \<Rightarrow> gotime result" where
  "nextRun E t now =
     (case location E t of
        Inl e \<Rightarrow> Inl e
      | Inr loc \<Rightarrow> nextRunForSchedule (ParseDuration E) (trim_space (t_Schedule t)) now loc)"

text \<open>\<^verbatim>\<open>Validate\<close> normalises the task it is called on, so the result is the error and that task.\<close>

definition task_Validate :: "time_env \<Rightarrow> gotime \<Rightarrow> task option \<Rightarrow> err option \<times> task option" where
  "task_Validate E now t0 =
     (case map_option task_normalize t0 of
        None \<Rightarrow> (Some (schedulerError ErrValidation ''task is nil''), None)
      | Some t \<Rightarrow>
      (if blank (t_Name t) then (Some (schedulerError ErrValidation ''task name is required''), Some t)
       else if blank (t_Schedule t) then (Some (schedulerError ErrValidation ''task schedule is required''), Some t)
       else if blank (t_Queue t) then (Some (schedulerError ErrValidation ''task queue is required''), Some t)
       else if blank (t_JobName t) then (Some (schedulerError ErrValidation ''task job_name is required''), Some t)
       else if t_MisfirePolicy t \<noteq> ''skip'' \<and> t_MisfirePolicy t \<noteq> ''fire_once''
         then (Some (schedulerError ErrValidation
                 (''invalid task misfire policy '' @ quoted (t_MisfirePolicy t))), Some t)
       else case nextRun E t now of Inl e \<Rightarrow> (Some e, Some t) | Inr _ \<Rightarrow> (None, Some t)))"

section \<open>Lemmas on the calendar\<close>

text \<open>The days before year \<open>y\<close>, and that \<open>year_day\<close> inverts the count of days of the Gregorian calendar.\<close>

definition days_before :: "int \<Rightarrow> int" where
  "days_before y = 365 * y + y div 4 - y div 100 + y div 400"

lemma days_before_cycles:
  assumes "0 \<le> b" "b \<le> 3" "0 \<le> c" "c \<le> 24" "0 \<le> e" "e \<le> 3"
  shows "days_before (400 * a + 100 * b + 4 * c + e) = 146097 * a + 36524 * b + 1461 * c + 365 * e"
proof -
  let ?y = "400 * a + 100 * b + 4 * c + e"
  have "?y div 4 = 100 * a + 25 * b + c" by (rule int_div_pos_eq [of _ _ _ e]) (use assms in simp_all)
  moreover have "?y div 100 = 4 * a + b" by (rule int_div_pos_eq [of _ _ _ "4 * c + e"]) (use assms in simp_all)
  moreover have "?y div 400 = a" by (rule int_div_pos_eq [of _ _ _ "100 * b + 4 * c + e"]) (use assms in simp_all)
  ultimately show ?thesis by (simp add: days_before_def)
qed

lemma leap_cycles:
  assumes "0 \<le> b" "b \<le> 3" "0 \<le> c" "c \<le> 24" "0 \<le> e" "e \<le> 3"
  shows "leap (400 * a + 100 * b + 4 * c + e) \<longleftrightarrow> e = 3 \<and> (c \<noteq> 24 \<or> b = 3)"
proof -
  let ?y = "400 * a + 100 * b + 4 * c + e + 1"
  show ?thesis
  proof (cases "e = 3")
    case False
    then have "?y mod 4 = e + 1"
      by (intro int_mod_pos_eq [of _ _ "100 * a + 25 * b + c"]) (use assms in simp_all)
    with False assms show ?thesis by (simp add: leap_def)
  next
    case e: True
    have 4: "?y mod 4 = 0"
      by (rule int_mod_pos_eq [of _ _ "100 * a + 25 * b + c + 1"]) (use e in simp_all)
    show ?thesis
    proof (cases "c = 24")
      case False
      then have "?y mod 100 = 4 * c + 4"
        by (intro int_mod_pos_eq [of _ _ "4 * a + b"]) (use assms e in simp_all)
      with 4 e False assms show ?thesis by (simp add: leap_def)
    next
      case c: True
      have 100: "?y mod 100 = 0"
        by (rule int_mod_pos_eq [of _ _ "4 * a + b + 1"]) (use e c in simp_all)
      have "?y mod 400 = (if b = 3 then 0 else 100 * b + 100)"
        by (rule int_mod_pos_eq [of _ _ "if b = 3 then a + 1 else a"]) (use assms e c in auto)
      with 4 100 e c assms show ?thesis by (simp add: leap_def)
    qed
  qed
qed

lemma year_day_correct:
  assumes "year_day n = (y, d)"
  shows "n = days_before y + d \<and> 0 \<le> d \<and> d < (if leap y then 366 else 365)"
proof -
  define a r where "a = n div 146097" and "r = n mod 146097"
  define b r2 where "b = min 3 (r div 36524)" and "r2 = r - 36524 * b"
  define c r3 where "c = r2 div 1461" and "r3 = r2 mod 1461"
  define e where "e = min 3 (r3 div 365)"
  have y: "y = 400 * a + 100 * b + 4 * c + e" and d: "d = r3 - 365 * e"
    using assms by (simp_all add: year_day_def Let_def a_def r_def b_def r2_def c_def r3_def e_def)
  have n: "n = 146097 * a + r" and r: "0 \<le> r" "r < 146097"
    by (simp_all add: a_def r_def)
  have b: "0 \<le> b" "b \<le> 3" and r2: "0 \<le> r2" "r2 \<le> 36524" "r2 < 36524 \<or> b = 3"
    using r by (auto simp: b_def r2_def min_def) 
  have c: "0 \<le> c" "c \<le> 24" and r3: "0 \<le> r3" "r3 < 1461" "r2 = 1461 * c + r3"
    using r2 by (auto simp: c_def r3_def)
  have e: "0 \<le> e" "e \<le> 3" and dd: "0 \<le> d" "d \<le> 365" "d < 365 \<or> e = 3"
    using r3 d by (auto simp: e_def min_def)
  have "d < 365" if "c = 24" "b \<noteq> 3" using that r2 r3 d e dd by auto
  with dd have "d < (if leap y then 366 else 365)"
    unfolding y leap_cycles [OF b c e] by auto
  moreover have "n = days_before y + d"
    unfolding y days_before_cycles [OF b c e] using n r3(3) d by (simp add: r2_def)
  ultimately show ?thesis using dd(1) by simp
qed

lemma month_day_bounds:
  "0 \<le> d \<Longrightarrow> d < sum_list ls \<Longrightarrow> month_day ls m d = (m', d') \<Longrightarrow>
    m \<le> m' \<and> m' < m + int (length ls) \<and> 1 \<le> d' \<and> d' \<le> ls ! nat (m' - m)"
proof (induction ls arbitrary: m d)
  case (Cons l ls)
  show ?case
  proof (cases "d < l")
    case False
    then have "m + 1 \<le> m' \<and> m' < m + 1 + int (length ls) \<and> 1 \<le> d' \<and> d' \<le> ls ! nat (m' - (m + 1))"
      using Cons.IH [of "d - l" "m + 1"] Cons.prems by simp
    moreover from this have "nat (m' - m) = Suc (nat (m' - (m + 1)))" by linarith
    ultimately show ?thesis by simp
  qed (use Cons.prems in auto)
qed simp

text \<open>The month is one of the twelve and the day one of its days.\<close>

lemma time_Date_bounds:
  assumes "year_day (day_number loc t) = (y, d)"
  shows "1 \<le> time_Month loc t \<and> time_Month loc t \<le> 12 \<and> 1 \<le> time_Day loc t
    \<and> time_Day loc t \<le> month_lengths (leap y) ! nat (time_Month loc t - 1)"
proof -
  have "0 \<le> d" "d < sum_list (month_lengths (leap y))"
    using year_day_correct [OF assms] by (auto simp: month_lengths_def split: if_splits)
  moreover have "length (month_lengths (leap y)) = 12" by (simp add: month_lengths_def)
  ultimately show ?thesis
    using month_day_bounds [of d "month_lengths (leap y)" 1] assms
    by (cases "month_day (month_lengths (leap y)) 1 d") (auto simp: time_Month_def time_Day_def time_Date_def)
qed

section \<open>Lemmas on the value loop\<close>

text \<open>The numbers \<open>v\<close>, \<open>v + step\<close>, ... up to \<open>stop\<close>, and the values of a field they stand for.\<close>

definition progression :: "int \<Rightarrow> int \<Rightarrow> int \<Rightarrow> int set" where
  "progression v step stop = {u. u \<le> stop \<and> (\<exists>k::nat. u = v + int k * step)}"

definition field_values :: "bool \<Rightarrow> int \<Rightarrow> int \<Rightarrow> int set \<Rightarrow> int set" where
  "field_values sunday lo hi us = {x \<in> (\<lambda>u. normalizeCronValue u sunday) ` us. lo \<le> x \<and> x \<le> hi}"

lemma progression_past: "0 < step \<Longrightarrow> stop < v \<Longrightarrow> progression v step stop = {}"
  unfolding progression_def
  by (auto simp: not_le intro: order.strict_trans2 [of stop v])

lemma progression_unfold:
  assumes "v \<le> stop"
  shows "progression v step stop = insert v (progression (v + step) step stop)"
proof (rule set_eqI, rule iffI)
  fix u assume "u \<in> progression v step stop"
  then obtain k :: nat where k: "u \<le> stop" "u = v + int k * step" by (auto simp: progression_def)
  then show "u \<in> insert v (progression (v + step) step stop)"
  proof (cases k)
    case (Suc j)
    with k have "u = v + step + int j * step" by (simp add: algebra_simps)
    with k(1) show ?thesis unfolding progression_def by blast
  qed simp
next
  fix u assume "u \<in> insert v (progression (v + step) step stop)"
  then consider "u = v + int 0 * step" | k where "u \<le> stop" "u = v + step + int k * step"
    by (auto simp: progression_def)
  then show "u \<in> progression v step stop"
  proof cases
    case (2 k)
    then have "u = v + int (Suc k) * step" by (simp add: algebra_simps)
    with 2 show ?thesis unfolding progression_def by blast
  qed (use assms in \<open>auto simp: progression_def intro: exI [of _ "0::nat"]\<close>)
qed

lemma field_values_simps:
  "field_values sunday lo hi {} = {}"
  "field_values sunday lo hi (insert u us) =
     (let x = normalizeCronValue u sunday
      in if x < lo \<or> hi < x then field_values sunday lo hi us else insert x (field_values sunday lo hi us))"
  by (auto simp: field_values_def Let_def)

lemma cron_values_small:
  assumes "0 < step" and "step < 2 ^ 63 - 59" and "0 \<le> v" and "stop \<le> 59" and "nat (stop - v + 2) \<le> n" and "0 < n"
  shows "cron_values n sunday lo hi step stop v vals =
    Some (vals \<union> field_values sunday lo hi (progression v step stop))"
  using assms(3,5,6)
proof (induction n arbitrary: v vals)
  case (Suc n)
  show ?case
  proof (cases "v \<le> stop")
    case True
    have "i64 (v + step) = v + step"
      using True assms(1,2,4) Suc.prems(1) by (simp add: fits64_def)
    moreover have "0 < n" using Suc.prems(2) True by linarith
    moreover have "nat (stop - (v + step) + 2) \<le> n" using Suc.prems(2) assms(1) True by linarith
    moreover have "0 \<le> v + step" using Suc.prems(1) assms(1) by simp
    ultimately show ?thesis
      using Suc.IH [of "v + step"] True progression_unfold [OF True, of step]
      by (auto simp: Let_def field_values_simps)
  qed (simp add: progression_past assms(1) field_values_simps)
qed simp

text \<open>With a step so large that the sum wraps around, the loop still ends.\<close>

lemma cron_values_wrap:
  assumes "2 ^ 63 - 59 \<le> step" and "step < 2 ^ 63" and "-118 \<le> v" and "v \<le> stop" and "stop \<le> 59"
    and "nat (v + 121) \<le> n"
  shows "\<exists>r. cron_values n sunday lo hi step stop v vals = Some r"
  using assms(3,4,6)
proof (induction n arbitrary: v vals rule: less_induct)
  case (less n)
  obtain m where m: "n = Suc (Suc m)" using less.prems by (cases n; cases "n - 1") auto
  show ?case
  proof (cases "v + step < 2 ^ 63")
    case True
    then have "i64 (v + step) = v + step" using assms(1) less.prems(1) by (simp add: fits64_def)
    with True m assms(1,5) less.prems show ?thesis by (simp add: Let_def)
  next
    case False
    have a: "i64 (v + step) = v + step - 2 ^ 64"
      using i64_over [of "v + step"] False assms(2,5) less.prems(2) by simp
    have b: "i64 (v + step - 2 ^ 64 + step) = v + 2 * step - 2 ^ 64"
      using False assms less.prems by (simp add: fits64_def)
    have "\<exists>r. cron_values m sunday lo hi step stop (v + 2 * step - 2 ^ 64) w = Some r" for w
    proof (rule less.IH)
      show "-118 \<le> v + 2 * step - 2 ^ 64" using False assms(1,2) by simp
      show "nat (v + 2 * step - 2 ^ 64 + 121) \<le> m" using less.prems(3) assms(2) m by simp
    qed (use m assms(2) less.prems(2) in simp_all)
    moreover have "v + step - 2 ^ 64 \<le> stop" using assms(2) less.prems(2) by simp
    ultimately show ?thesis using m a b less.prems(2) by (simp add: Let_def)
  qed
qed

section \<open>Lemmas on segments and fields\<close>

lemma segment_step_pos:
  "segment_step seg = Inr (base, step) \<Longrightarrow> 0 < step \<and> step < 2 ^ 63"
  by (auto simp: segment_step_def Let_def fits64_def dest!: parse_int_fits split: if_splits option.splits prod.splits)

lemma cron_values_total:
  assumes "0 < step" and "step < 2 ^ 63" and "0 \<le> start" and "start \<le> stop" and "stop \<le> 59"
  shows "\<exists>r. cron_values 200 sunday lo hi step stop start vals = Some r"
proof (cases "step < 2 ^ 63 - 59")
  case True
  then show ?thesis using cron_values_small [of step start stop 200] assms by auto
next
  case False
  then show ?thesis using cron_values_wrap [of step start stop 200] assms by auto
qed

lemma cron_values_bounds:
  "cron_values n sunday lo hi step stop v vals = Some r \<Longrightarrow> vals \<subseteq> {lo..hi} - (if sunday then {7} else {})
    \<Longrightarrow> vals \<subseteq> r \<and> r \<subseteq> {lo..hi} - (if sunday then {7} else {})"
proof (induction n arbitrary: v vals)
  case (Suc n)
  show ?case
  proof (cases "v \<le> stop")
    case True
    let ?x = "normalizeCronValue v sunday"
    let ?w = "if ?x < lo \<or> hi < ?x then vals else insert ?x vals"
    have "cron_values n sunday lo hi step stop (i64 (v + step)) ?w = Some r"
      using Suc.prems(1) True by (simp add: Let_def)
    moreover have "?w \<subseteq> {lo..hi} - (if sunday then {7} else {})"
      using Suc.prems(2) by (auto simp: normalizeCronValue_def)
    ultimately have "?w \<subseteq> r \<and> r \<subseteq> {lo..hi} - (if sunday then {7} else {})"
      by (rule Suc.IH)
    then show ?thesis by (auto split: if_splits)
  qed (use Suc.prems in auto)
qed simp

lemma append_segment_bounds:
  assumes "appendCronSegmentValues vals seg lo hi sunday = Inr r"
    and "vals \<subseteq> {lo..hi} - (if sunday then {7} else {})"
  shows "r \<subseteq> {lo..hi} - (if sunday then {7} else {})"
  using assms
  by (auto simp: appendCronSegmentValues_def split: sum.splits prod.splits if_splits option.splits
      dest!: cron_values_bounds)

lemma append_segments_bounds:
  "append_segments segs lo hi sunday vals = Inr r \<Longrightarrow> vals \<subseteq> {lo..hi} - (if sunday then {7} else {})
    \<Longrightarrow> r \<subseteq> {lo..hi} - (if sunday then {7} else {})"
proof (induction segs arbitrary: vals)
  case (Cons seg segs)
  then obtain w where "appendCronSegmentValues vals (trim_space seg) lo hi sunday = Inr w"
    and "append_segments segs lo hi sunday w = Inr r"
    by (auto split: if_splits sum.splits)
  with Cons.IH Cons.prems(2) append_segment_bounds show ?case by blast
qed simp

text \<open>The value of a segment in terms of its parsed bounds, and that the iteration bound is no restriction.\<close>

lemma append_segment_eq:
  assumes "segment_step seg = Inr (base, step)" and "segment_range base step lo hi sunday = Inr (start, stop)"
    and "lo \<le> start" and "start \<le> stop" and "stop \<le> hi" and "0 \<le> lo" and "hi \<le> 59" and "step < 2 ^ 63 - 59"
  shows "appendCronSegmentValues vals seg lo hi sunday =
    Inr (vals \<union> field_values sunday lo hi (progression start step stop))"
  using cron_values_small [of step start stop 200 sunday lo hi vals] segment_step_pos [OF assms(1)] assms
  by (simp add: appendCronSegmentValues_def)

lemma append_segment_error:
  assumes "appendCronSegmentValues vals seg lo hi sunday = Inl x" and "0 \<le> lo" and "hi \<le> 59"
  shows "err_is x (SchedulerErr ErrValidation)"
proof (cases "segment_step seg")
  case (Inr bs)
  obtain base step where bs: "bs = (base, step)" by (cases bs)
  show ?thesis
  proof (cases "segment_range base step lo hi sunday")
    case (Inl y)
    with assms(1) Inr bs show ?thesis
      by (auto simp: appendCronSegmentValues_def segment_range_def Let_def split: if_splits option.splits prod.splits)
  next
    case (Inr ss)
    then show ?thesis
      using assms \<open>segment_step seg = Inr bs\<close> bs segment_step_pos [of seg base step]
        cron_values_total [of step "fst ss" "snd ss" sunday lo hi vals]
      by (auto simp: appendCronSegmentValues_def out_of_range_def split: prod.splits if_splits)
  qed
qed (use assms(1) in \<open>auto simp: appendCronSegmentValues_def segment_step_def Let_def
  split: if_splits option.splits prod.splits\<close>)

section \<open>Lemmas on printed ranges\<close>

definition print_range :: "int \<times> int \<times> int \<Rightarrow> string" where
  "print_range r = (let (a, b, s) = r in itoa a @ ''-'' @ itoa b @ ''/'' @ itoa s)"

lemma itoa_nonneg_digits: "0 \<le> n \<Longrightarrow> c \<in> set (itoa n) \<Longrightarrow> is_digit c"
  using show_nat_digits by (auto simp: itoa_def list_all_iff)

lemma itoa_free: "0 \<le> n \<Longrightarrow> \<not> is_digit c \<Longrightarrow> c \<notin> set (itoa n)"
  using itoa_nonneg_digits by blast

lemma separators [simp]: "\<not> is_digit CHR ''/''" "\<not> is_digit CHR '',''" "\<not> is_digit CHR ''*''"
  by (simp_all add: is_digit_def)

lemma plain_range:
  assumes "0 \<le> a" and "0 \<le> b" and "c \<in> set (itoa a @ ''-'' @ itoa b)"
  shows "byte c < 128 \<and> \<not> ascii_space c"
proof -
  have "is_digit c \<or> c = CHR ''-''" using assms itoa_nonneg_digits by auto
  then show ?thesis by (auto simp: is_digit_def ascii_space_def)
qed

lemma plain_print_range:
  assumes "0 \<le> a" and "0 \<le> b" and "0 \<le> s" and "c \<in> set (print_range (a, b, s))"
  shows "byte c < 128 \<and> \<not> ascii_space c \<and> c \<noteq> CHR '',''"
proof -
  have "is_digit c \<or> c = CHR ''-'' \<or> c = CHR ''/''"
    using assms itoa_nonneg_digits by (auto simp: print_range_def)
  then show ?thesis by (auto simp: is_digit_def ascii_space_def)
qed

lemma segment_step_print:
  assumes "0 \<le> a" and "0 \<le> b" and "0 < s" and "s < 2 ^ 63"
  shows "segment_step (print_range (a, b, s)) = Inr (itoa a @ ''-'' @ itoa b, s)"
proof -
  have "cut_at CHR ''/'' (print_range (a, b, s)) = (itoa a @ ''-'' @ itoa b, itoa s)"
    using cut_at_append [of "CHR ''/''" "itoa a @ ''-'' @ itoa b" "itoa s"] assms
    by (simp add: print_range_def itoa_free)
  moreover have "trim_space (itoa a @ ''-'' @ itoa b) = itoa a @ ''-'' @ itoa b"
    using trim_space_plain plain_range [OF assms(1,2)] by blast
  moreover have "CHR ''/'' \<in> set (print_range (a, b, s))" by (simp add: print_range_def)
  ultimately show ?thesis using assms(3,4) by (simp add: segment_step_def fits64_def)
qed

lemma segment_range_print:
  assumes "0 \<le> a" and "0 \<le> b" and "a < 2 ^ 63" and "b < 2 ^ 63"
  shows "segment_range (itoa a @ ''-'' @ itoa b) s lo hi False = Inr (a, b)"
proof -
  let ?r = "itoa a @ ''-'' @ itoa b"
  have t: "trim_space ?r = ?r" using trim_space_plain plain_range [OF assms(1,2)] by blast
  have "cut_at CHR ''-'' ?r = (itoa a, itoa b)"
    using cut_at_append [of "CHR ''-''" "itoa a" "itoa b"] assms by (simp add: itoa_free)
  moreover have "?r \<noteq> ''*''" by (cases "itoa a") auto
  moreover have "\<not> blank ?r" using t by (simp add: blank_def)
  ultimately show ?thesis using t assms by (simp add: segment_range_def fits64_def normalizeCronValue_def)
qed

lemma append_segments_print:
  assumes "\<forall>(a, b, s) \<in> set rs. lo \<le> a \<and> a \<le> b \<and> b \<le> hi \<and> 0 < s \<and> s < 2 ^ 63 - 59"
    and "0 \<le> lo" and "hi \<le> 59"
  shows "append_segments (map print_range rs) lo hi False vals =
    Inr (vals \<union> (\<Union>(a, b, s) \<in> set rs. progression a s b))"
  using assms(1)
proof (induction rs arbitrary: vals)
  case (Cons r rs)
  obtain a b s where r: "r = (a, b, s)" by (cases r)
  with Cons.prems have o: "lo \<le> a" "a \<le> b" "b \<le> hi" "0 < s" "s < 2 ^ 63 - 59" by auto
  have t: "trim_space (print_range r) = print_range r"
    using trim_space_plain plain_print_range [of a b s] o assms(2) r by auto
  have "print_range r \<noteq> []" by (simp add: print_range_def r)
  then have nb: "\<not> blank (print_range r)" using t by (simp add: blank_def)
  have "lo \<le> u \<and> u \<le> hi" if "u \<in> progression a s b" for u
    using that o by (auto simp: progression_def intro: order_trans [of lo a])
  then have "field_values False lo hi (progression a s b) = progression a s b"
    by (auto simp: field_values_def normalizeCronValue_def)
  then have "appendCronSegmentValues vals (print_range r) lo hi False = Inr (vals \<union> progression a s b)"
    using append_segment_eq [OF segment_step_print segment_range_print] o assms(2,3) r by simp
  with Cons.IH Cons.prems r t nb show ?case by (simp add: Un_assoc)
qed simp

section \<open>Lemmas on the search\<close>

lemma cron_search_None: "cron_search n e loc c = None \<longleftrightarrow> (\<forall>k<n. \<not> matches e loc (c + int k * minute))"
proof (induction n arbitrary: c)
  case (Suc n)
  have "(\<forall>k<Suc n. \<not> matches e loc (c + int k * minute)) \<longleftrightarrow>
      \<not> matches e loc c \<and> (\<forall>k<n. \<not> matches e loc (c + minute + int k * minute))"
    by (auto simp: less_Suc_eq_0_disj algebra_simps)
  with Suc show ?case by simp
qed simp

lemma cron_search_Some:
  "cron_search n e loc c = Some t \<Longrightarrow> \<exists>k<n. t = c + int k * minute \<and> matches e loc t
    \<and> (\<forall>j<k. \<not> matches e loc (c + int j * minute))"
proof (induction n arbitrary: c)
  case (Suc n)
  show ?case
  proof (cases "matches e loc c")
    case False
    with Suc.prems have "cron_search n e loc (c + minute) = Some t" by simp
    then obtain k where k: "k < n" "t = c + minute + int k * minute" "matches e loc t"
      "\<forall>j<k. \<not> matches e loc (c + minute + int j * minute)"
      using Suc.IH by blast
    then have "\<forall>j<Suc k. \<not> matches e loc (c + int j * minute)"
      using False by (auto simp: less_Suc_eq_0_disj algebra_simps)
    moreover have "t = c + int (Suc k) * minute" using k(2) by (simp add: algebra_simps)
    ultimately show ?thesis using k(1,3) by blast
  qed (use Suc.prems in \<open>auto intro: exI [of _ "0::nat"]\<close>)
qed simp

lemma cron_search_numeral:
  "cron_search (numeral n) e loc c =
     (if matches e loc c then Some c else cron_search (pred_numeral n) e loc (c + minute))"
  by (simp add: numeral_eq_Suc)

text \<open>The minutes after an instant, as the search enumerates them.\<close>

lemma minute_pos [simp]: "0 < minute"
  by (simp add: duration_units)

lemma later_minute:
  assumes "now < u" and "u mod minute = 0"
  shows "\<exists>k::nat. u = truncate_minute now + minute + int k * minute"
proof -
  have m: "truncate_minute now = minute * (now div minute)" "u = minute * (u div minute)"
    using assms(2) by (auto simp: truncate_minute_def minus_mod_eq_mult_div)
  have "now div minute < u div minute"
  proof (rule ccontr)
    assume "\<not> now div minute < u div minute"
    then have "u \<le> minute * (now div minute)" using m(2) minute_pos by (smt (verit) mult_left_mono)
    also have "\<dots> \<le> now" unfolding m(1) [symmetric] by (simp add: truncate_minute_def)
    finally show False using assms(1) by simp
  qed
  then have "u = truncate_minute now + minute + int (nat (u div minute - now div minute - 1)) * minute"
    using m by (simp add: algebra_simps)
  then show ?thesis by blast
qed

lemma search_minute:
  "now < truncate_minute now + minute + int k * minute"
  "(truncate_minute now + minute + int k * minute) mod minute = 0"
proof -
  have "now mod minute < minute" by (rule pos_mod_bound) simp
  moreover have "0 \<le> int k * minute" by (simp add: duration_units)
  ultimately show "now < truncate_minute now + minute + int k * minute"
    unfolding truncate_minute_def by linarith
  show "(truncate_minute now + minute + int k * minute) mod minute = 0"
    unfolding truncate_minute_def by (simp add: minus_mod_eq_mult_div)
qed

section \<open>Properties\<close>

text \<open>
  C11. The next run of a cron schedule is the earliest minute that matches: it lies strictly after
  the given instant, at the start of a minute, no earlier minute after the instant matches, and
  it is within the search window of five leap years; when the search reports an error, no minute
  of that window matches.
\<close>

theorem nextRun_earliest:
  assumes "\<not> has_prefix schedule ''@every ''" and "length (strings_Fields schedule) = 5"
    and "parseCronExpression (strings_Fields schedule) = Inr e"
  shows "case nextRunForSchedule pd schedule now loc of
      Inr t \<Rightarrow> now < t \<and> t mod minute = 0 \<and> matches e loc t
        \<and> t \<le> truncate_minute now + int maxCronSearchIterations * minute
        \<and> (\<forall>u. now < u \<and> u < t \<and> u mod minute = 0 \<longrightarrow> \<not> matches e loc u)
    | Inl _ \<Rightarrow> \<forall>u. now < u \<and> u \<le> truncate_minute now + int maxCronSearchIterations * minute
        \<and> u mod minute = 0 \<longrightarrow> \<not> matches e loc u"
proof -
  let ?c = "truncate_minute now + minute" and ?N = "maxCronSearchIterations"
  have within: "k < ?N" if "?c + int k * minute \<le> truncate_minute now + int ?N * minute" for k
  proof -
    have "int (Suc k) * minute \<le> int ?N * minute" using that by (simp add: algebra_simps)
    then show ?thesis by (simp add: duration_units)
  qed
  show ?thesis
  proof (cases "cron_search ?N e loc ?c")
    case None
    then have "\<not> matches e loc u"
      if "now < u" "u \<le> truncate_minute now + int ?N * minute" "u mod minute = 0" for u
      using later_minute [OF that(1,3)] that(2) within by (auto simp: cron_search_None)
    with None assms show ?thesis by (auto simp: nextRunForSchedule_def)
  next
    case (Some t)
    then obtain k where k: "k < ?N" "t = ?c + int k * minute" "matches e loc t"
      "\<forall>j<k. \<not> matches e loc (?c + int j * minute)"
      using cron_search_Some by blast
    have "\<not> matches e loc u" if u: "now < u" "u < t" "u mod minute = 0" for u
    proof -
      obtain j :: nat where j: "u = ?c + int j * minute" using later_minute [OF u(1,3)] by blast
      with u(2) k(2) have "j < k" by (simp add: duration_units)
      with k(4) j show ?thesis by blast
    qed
    moreover have "t \<le> truncate_minute now + int ?N * minute"
    proof -
      have "int (Suc k) * minute \<le> int ?N * minute" using k(1) by (simp add: duration_units)
      then show ?thesis using k(2) by (simp add: algebra_simps)
    qed
    ultimately show ?thesis
      using Some assms k(2,3) search_minute [of now k] by (simp add: nextRunForSchedule_def)
  qed
qed

definition five_past_midnight :: cronExpression where
  "five_past_midnight = \<lparr>ce_minute = \<lparr>m_any = False, m_values = {5}\<rparr>,
     ce_hour = \<lparr>m_any = False, m_values = {0}\<rparr>, ce_dayOfMonth = \<lparr>m_any = True, m_values = {}\<rparr>,
     ce_month = \<lparr>m_any = True, m_values = {}\<rparr>, ce_dayOfWeek = \<lparr>m_any = True, m_values = {}\<rparr>\<rparr>"

lemma five_past_midnight_run:
  "nextRunForSchedule pd ''5 0 * * *'' 0 UTC = Inr (5 * minute)"
proof -
  have f: "strings_Fields ''5 0 * * *'' = [''5'', ''0'', ''*'', ''*'', ''*'']" by code_simp
  have "parseCronExpression [''5'', ''0'', ''*'', ''*'', ''*''] = Inr five_past_midnight" by code_simp
  moreover have "cron_search maxCronSearchIterations five_past_midnight UTC (truncate_minute 0 + minute)
      = Some (5 * minute)"
    by (simp add: maxCronSearchIterations_def truncate_minute_def duration_units matches_def contains_def
        five_past_midnight_def time_Minute_def UTC_def time_Hour_def cron_search_numeral)
  ultimately show ?thesis by (simp add: nextRunForSchedule_def f)
qed

theorem nextRun_earliest_witness:
  "nextRunForSchedule (\<lambda>s. Inl (ENew s)) ''5 0 * * *'' 0 UTC = Inr (5 * minute)
    \<and> matches five_past_midnight UTC (5 * minute) \<and> \<not> matches five_past_midnight UTC (3 * minute)"
proof -
  have f: "length (strings_Fields ''5 0 * * *'') = 5" by code_simp
  have p: "parseCronExpression (strings_Fields ''5 0 * * *'') = Inr five_past_midnight" by code_simp
  have "\<not> has_prefix ''5 0 * * *'' ''@every ''" by simp
  from nextRun_earliest [OF this f p, where pd = "\<lambda>s. Inl (ENew s)" and now = 0 and loc = UTC] show ?thesis
    by (auto simp: five_past_midnight_run duration_units)
qed

text \<open>
  A cron field that lists ranges \<^verbatim>\<open>a-b/s\<close> within the bounds of the field parses to exactly the
  values \<open>a\<close>, \<open>a + s\<close>, ... up to \<open>b\<close> of each range.
\<close>

lemma cron_field_meaning:
  assumes "\<forall>(a, b, s) \<in> set rs. lo \<le> a \<and> a \<le> b \<and> b \<le> hi \<and> 0 < s \<and> s < 2 ^ 63 - 59"
    and "rs \<noteq> []" and "0 \<le> lo" and "hi \<le> 59"
  shows "parseCronField (join_with '','' (map print_range rs)) lo hi False =
    Inr \<lparr>m_any = False, m_values = (\<Union>(a, b, s) \<in> set rs. progression a s b)\<rparr>"
proof -
  let ?f = "join_with '','' (map print_range rs)"
  have plain: "\<forall>w \<in> set (map print_range rs). \<forall>c \<in> set w. byte c < 128 \<and> \<not> ascii_space c \<and> c \<noteq> CHR '',''"
  proof (intro ballI)
    fix w c assume "w \<in> set (map print_range rs)" and c: "c \<in> set w"
    then obtain a b s where r: "(a, b, s) \<in> set rs" and w: "w = print_range (a, b, s)" by auto
    have "lo \<le> a \<and> a \<le> b \<and> 0 < s" using assms(1) r by auto
    with assms(3) show "byte c < 128 \<and> \<not> ascii_space c \<and> c \<noteq> CHR '',''"
      using plain_print_range [of a b s c] c w by simp
  qed
  have "\<forall>w \<in> set (map print_range rs). CHR '','' \<notin> set w" using plain by blast
  then have split: "split_on CHR '','' ?f = map print_range rs"
    using split_join assms(2) by blast
  have "\<forall>c \<in> set ?f. byte c < 128 \<and> \<not> ascii_space c"
    using plain set_join_with [of "'',''" "map print_range rs"] by (fastforce simp: ascii_space_def)
  then have trim: "trim_space ?f = ?f" by (rule trim_space_plain)
  obtain a b s rest where rs: "rs = (a, b, s) # rest" using assms(2) by (cases rs) auto
  have "a \<in> (\<Union>(a, b, s) \<in> set rs. progression a s b)"
    using assms(1) rs by (auto simp: progression_def intro: exI [of _ "0::nat"])
  moreover have "?f \<noteq> []" "?f \<noteq> ''*''"
    using split by (auto simp: rs print_range_def)
  ultimately show ?thesis
    using append_segments_print [OF assms(1,3,4)] trim split by (auto simp: parseCronField_def)
qed

text \<open>
  Every accepted cron field is the wildcard or a non-empty set of values within the bounds of
  the field, with Sunday only as 0 in the weekday field; and whatever the text, a refusal is a
  validation error.
\<close>

lemma cron_field_sound:
  assumes "0 \<le> lo" and "hi \<le> 59"
  shows "case parseCronField raw lo hi sunday of
      Inr m \<Rightarrow> m_any m \<or> (m_values m \<noteq> {} \<and> m_values m \<subseteq> {lo..hi} - (if sunday then {7} else {}))
    | Inl x \<Rightarrow> err_is x (SchedulerErr ErrValidation)"
proof -
  have err: "err_is x (SchedulerErr ErrValidation)" if "append_segments segs lo hi sunday vals = Inl x" for segs vals x
    using that assms by (induction segs arbitrary: vals) (auto split: if_splits sum.splits dest: append_segment_error)
  show ?thesis
  proof (cases "append_segments (split_on CHR '','' (trim_space raw)) lo hi sunday {}")
    case (Inl x)
    with err [OF Inl] show ?thesis by (cases sunday) (simp_all add: parseCronField_def Let_def)
  next
    case (Inr vals)
    moreover from this have "vals \<subseteq> {lo..hi} - (if sunday then {7} else {})"
      using append_segments_bounds by blast
    ultimately show ?thesis by (cases sunday) (simp_all add: parseCronField_def Let_def)
  qed
qed

text \<open>Sunday as 7 ends no range: it is normalised before the bounds are compared.\<close>

lemma weekday_ranges_to_seven:
  "parseCronField ''7'' 0 7 True = Inr \<lparr>m_any = False, m_values = {0}\<rparr>"
  "parseCronField ''0-7'' 0 7 True = Inr \<lparr>m_any = False, m_values = {0}\<rparr>"
  "parseCronField ''5-7'' 0 7 True = Inl (schedulerError ErrValidation ''invalid range 5-0'')"
  by code_simp+

end
