(* ===== verification/Locks.thy ===== *)
theory Locks
  imports Redis
begin

text \<open>
  \<^verbatim>\<open>pkg/coordination\<close>: the distributed lock providers over Redis (\<^verbatim>\<open>redis/lock.go\<close>) and PostgreSQL
  (\<^verbatim>\<open>postgres/lock.go\<close>).  The interface \<^verbatim>\<open>LockProvider\<close> is the locale \<open>lock_provider\<close> over a view of the
  lock rows, the token and the deadline by the server's clock; mutual exclusion is proved there
  once and both providers are interpreted in it.
\<close>

record lock_lease =
  ll_Key :: string
  ll_Token :: string
  ll_ExpireAt :: gotime

section \<open>Redis\<close>

record redis_lock_config =
  rl_Prefix :: string
  rl_OperationTimeout :: duration

definition redis_lock_normalize :: "redis_lock_config \<Rightarrow> redis_lock_config" where
  "redis_lock_normalize c =
     \<lparr>rl_Prefix = (if blank (rl_Prefix c) then ''nimburion:coordination:lock'' else rl_Prefix c),
      rl_OperationTimeout = pos_or (rl_OperationTimeout c) (3 * second)\<rparr>"

definition fullKey :: "redis_lock_config \<Rightarrow> string \<Rightarrow> string" where
  "fullKey c key = trim_right_char CHR '':'' (rl_Prefix c) @ '':'' @ trim_space key"

text \<open>
  \<open>p\<close> is the provider's configuration, \<open>None\<close> when it is not initialised; \<open>t\<close> is the server's clock,
  \<open>now\<close> the caller's, \<open>net\<close> the error of a call that does not reach the server.
\<close>

definition redis_Acquire ::
  "'r redis_ops \<Rightarrow> redis_lock_config option \<Rightarrow> err option \<Rightarrow> int \<Rightarrow> gotime \<Rightarrow> string \<Rightarrow> duration \<Rightarrow> string \<Rightarrow> 'r
    \<Rightarrow> lock_lease option result \<times> 'r" where
  "redis_Acquire R p net t now key0 ttl token s =
     (case p of
        None \<Rightarrow> (Inl (coordinationError ErrNotInitialized ''redis lock provider is not initialized''), s)
      | Some c \<Rightarrow>
          (let key = trim_space key0 in
           if key = [] then (Inl (coordinationError ErrInvalidArgument ''lock key is required''), s)
           else if ttl \<le> 0 then (Inl (coordinationError ErrInvalidArgument ''ttl must be > 0''), s)
           else case net of
             Some e \<Rightarrow> (Inl (EJoin [coordinationError ErrRetryable ''acquire lock failed'', e]), s)
           | None \<Rightarrow>
               (let (set, s') = r_SETNXPX R t (fullKey c key) token (set_ms ttl) s
                in if \<not> set then (Inr None, s')
                   else (Inr (Some \<lparr>ll_Key = key, ll_Token = token, ll_ExpireAt = now + ttl\<rparr>), s'))))"

definition renew_script :: "'r redis_ops \<Rightarrow> int \<Rightarrow> string \<Rightarrow> string \<Rightarrow> int \<Rightarrow> 'r \<Rightarrow> bool \<times> 'r" where
  "renew_script R t key token ms s =
     (if r_GET R t key s = Some token then r_PEXPIRE R t key ms s else (False, s))"

definition release_script :: "'r redis_ops \<Rightarrow> int \<Rightarrow> string \<Rightarrow> string \<Rightarrow> 'r \<Rightarrow> bool \<times> 'r" where
  "release_script R t key token s =
     (if r_GET R t key s = Some token then r_DEL R t key s else (False, s))"

text \<open>\<^verbatim>\<open>Renew\<close> updates the caller's lease; the result is the lease or the error.\<close>

definition redis_lock_Renew ::
  "'r redis_ops \<Rightarrow> redis_lock_config option \<Rightarrow> err option \<Rightarrow> int \<Rightarrow> gotime \<Rightarrow> lock_lease option \<Rightarrow> duration \<Rightarrow> 'r
    \<Rightarrow> lock_lease result \<times> 'r" where
  "redis_lock_Renew R p net t now lo ttl s =
     (case p of
        None \<Rightarrow> (Inl (coordinationError ErrNotInitialized ''redis lock provider is not initialized''), s)
      | Some c \<Rightarrow>
          (case lo of
             None \<Rightarrow> (Inl (coordinationError ErrInvalidArgument ''lease is required''), s)
           | Some l \<Rightarrow>
               (if ttl \<le> 0 then (Inl (coordinationError ErrInvalidArgument ''ttl must be > 0''), s)
                else if blank (ll_Key l) \<or> blank (ll_Token l)
                  then (Inl (coordinationError ErrInvalidArgument ''lease key and token are required''), s)
                else case net of
                  Some e \<Rightarrow> (Inl (EJoin [coordinationError ErrRetryable ''renew lock failed'', e]), s)
                | None \<Rightarrow>
                    (let (done, s') = renew_script R t (fullKey c (trim_space (ll_Key l)))
                                        (trim_space (ll_Token l)) (go_div ttl millisecond) s
                     in if \<not> done then (Inl (coordinationError ErrConflict ''lock renew rejected''), s')
                        else (Inr (l\<lparr>ll_ExpireAt := now + ttl\<rparr>), s')))))"

definition redis_Release ::
  "'r redis_ops \<Rightarrow> redis_lock_config option \<Rightarrow> err option \<Rightarrow> int \<Rightarrow> lock_lease option \<Rightarrow> 'r
    \<Rightarrow> err option \<times> 'r" where
  "redis_Release R p net t lo s =
     (case p of
        None \<Rightarrow> (Some (coordinationError ErrNotInitialized ''redis lock provider is not initialized''), s)
      | Some c \<Rightarrow>
          (case lo of
             None \<Rightarrow> (Some (coordinationError ErrInvalidArgument ''lease is required''), s)
           | Some l \<Rightarrow>
               (if blank (ll_Key l) \<or> blank (ll_Token l)
                then (Some (coordinationError ErrInvalidArgument ''lease key and token are required''), s)
                else case net of
                  Some e \<Rightarrow> (Some (EJoin [coordinationError ErrRetryable ''release lock failed'', e]), s)
                | None \<Rightarrow>
                    (let (done, s') = release_script R t (fullKey c (trim_space (ll_Key l)))
                                        (trim_space (ll_Token l)) s
                     in if \<not> done then (Some (coordinationError ErrConflict ''lock release rejected''), s')
                        else (None, s')))))"

section \<open>PostgreSQL\<close>

text \<open>
  The three statements of the provider on its table, at the server's \<^verbatim>\<open>NOW()\<close>: the conditional
  upsert, the conditional update and the delete, each with whether it touched a row.
\<close>

record 's lock_table =
  upsert_lock :: "gotime \<Rightarrow> string \<Rightarrow> string \<Rightarrow> gotime \<Rightarrow> 's \<Rightarrow> bool \<times> 's"
  update_lock :: "gotime \<Rightarrow> string \<Rightarrow> string \<Rightarrow> gotime \<Rightarrow> 's \<Rightarrow> bool \<times> 's"
  delete_lock :: "string \<Rightarrow> string \<Rightarrow> 's \<Rightarrow> bool \<times> 's"

fun valid_table_name :: "string \<Rightarrow> bool" where
  "valid_table_name [] = False"
| "valid_table_name (c # cs) =
     (let letter = (\<lambda>c. 97 \<le> byte c \<and> byte c \<le> 122 \<or> 65 \<le> byte c \<and> byte c \<le> 90 \<or> c = CHR ''_'')
      in letter c \<and> list_all (\<lambda>c. letter c \<or> is_digit c) cs)"

definition validatedTableName :: "string \<Rightarrow> string result" where
  "validatedTableName table =
     (if \<not> valid_table_name table
      then Inl (coordinationError ErrValidation (''invalid postgres lock table name '' @ quoted table))
      else Inr table)"

definition postgres_Acquire ::
  "'s lock_table \<Rightarrow> string option \<Rightarrow> err option \<Rightarrow> gotime \<Rightarrow> gotime \<Rightarrow> string \<Rightarrow> duration \<Rightarrow> string \<Rightarrow> 's
    \<Rightarrow> lock_lease option result \<times> 's" where
  "postgres_Acquire P p net t now key0 ttl token s =
     (case p of
        None \<Rightarrow> (Inl (coordinationError ErrNotInitialized ''postgres lock provider is not initialized''), s)
      | Some table \<Rightarrow>
          (let key = trim_space key0 in
           if key = [] then (Inl (coordinationError ErrInvalidArgument ''lock key is required''), s)
           else if ttl \<le> 0 then (Inl (coordinationError ErrInvalidArgument ''ttl must be > 0''), s)
           else let expiresAt = now + ttl in
           case validatedTableName table of
             Inl e \<Rightarrow> (Inl e, s)
           | Inr _ \<Rightarrow>
               (case net of
                  Some e \<Rightarrow> (Inl (EJoin [coordinationError ErrRetryable ''acquire lock failed'', e]), s)
                | None \<Rightarrow>
                    (let (acquired, s') = upsert_lock P t key token expiresAt s
                     in if \<not> acquired then (Inr None, s')
                        else (Inr (Some \<lparr>ll_Key = key, ll_Token = token, ll_ExpireAt = expiresAt\<rparr>), s')))))"

definition postgres_Renew ::
  "'s lock_table \<Rightarrow> string option \<Rightarrow> err option \<Rightarrow> gotime \<Rightarrow> gotime \<Rightarrow> lock_lease option \<Rightarrow> duration \<Rightarrow> 's
    \<Rightarrow> lock_lease result \<times> 's" where
  "postgres_Renew P p net t now lo ttl s =
     (case p of
        None \<Rightarrow> (Inl (coordinationError ErrNotInitialized ''postgres lock provider is not initialized''), s)
      | Some table \<Rightarrow>
          (case lo of
             None \<Rightarrow> (Inl (coordinationError ErrInvalidArgument ''lease is required''), s)
           | Some l \<Rightarrow>
               (if ttl \<le> 0 then (Inl (coordinationError ErrInvalidArgument ''ttl must be > 0''), s)
                else if blank (ll_Key l) \<or> blank (ll_Token l)
                  then (Inl (coordinationError ErrInvalidArgument ''lease key and token are required''), s)
                else case validatedTableName table of
                  Inl e \<Rightarrow> (Inl e, s)
                | Inr _ \<Rightarrow>
                    (case net of
                       Some e \<Rightarrow> (Inl (EJoin [coordinationError ErrRetryable ''renew lock failed'', e]), s)
                     | None \<Rightarrow>
                         (let (affected, s') = update_lock P t (trim_space (ll_Key l))
                                (trim_space (ll_Token l)) (now + ttl) s
                          in if \<not> affected
                             then (Inl (coordinationError ErrConflict ''lock renew rejected''), s')
                             else (Inr (l\<lparr>ll_ExpireAt := now + ttl\<rparr>), s'))))))"

definition postgres_Release ::
  "'s lock_table \<Rightarrow> string option \<Rightarrow> err option \<Rightarrow> gotime \<Rightarrow> lock_lease option \<Rightarrow> 's \<Rightarrow> err option \<times> 's" where
  "postgres_Release P p net t lo s =
     (case p of
        None \<Rightarrow> (Some (coordinationError ErrNotInitialized ''postgres lock provider is not initialized''), s)
      | Some table \<Rightarrow>
          (case lo of
             None \<Rightarrow> (Some (coordinationError ErrInvalidArgument ''lease is required''), s)
           | Some l \<Rightarrow>
               (if blank (ll_Key l) \<or> blank (ll_Token l)
                then (Some (coordinationError ErrInvalidArgument ''lease key and token are required''), s)
                else case validatedTableName table of
                  Inl e \<Rightarrow> (Some e, s)
                | Inr _ \<Rightarrow>
                    (case net of
                       Some e \<Rightarrow> (Some (EJoin [coordinationError ErrRetryable ''release lock failed'', e]), s)
                     | None \<Rightarrow>
                         (let (affected, s') = delete_lock P (trim_space (ll_Key l))
                                (trim_space (ll_Token l)) s
                          in if \<not> affected
                             then (Some (coordinationError ErrConflict ''lock release rejected''), s')
                             else (None, s'))))))"

section \<open>Sequences of calls\<close>

text \<open>
  Calls of any number of processes on one provider, in the order the server performs them; each
  carries the server's and the caller's clock.
\<close>

datatype lock_call =
  AcquireCall int gotime string duration string
| RenewCall int gotime lock_lease duration
| ReleaseCall int lock_lease

fun call_time :: "lock_call \<Rightarrow> int" where
  "call_time (AcquireCall t _ _ _ _) = t"
| "call_time (RenewCall t _ _ _) = t"
| "call_time (ReleaseCall t _) = t"

text \<open>Whether a call presents the lease of token \<open>a\<close> for key \<open>k\<close>.\<close>

fun presents :: "string \<Rightarrow> string \<Rightarrow> lock_call \<Rightarrow> bool" where
  "presents k a (AcquireCall _ _ _ _ _) = False"
| "presents k a (RenewCall _ _ l _) = (trim_space (ll_Key l) = k \<and> trim_space (ll_Token l) = a)"
| "presents k a (ReleaseCall _ l) = (trim_space (ll_Key l) = k \<and> trim_space (ll_Token l) = a)"

type_synonym 's acquire_op =
  "int \<Rightarrow> gotime \<Rightarrow> string \<Rightarrow> duration \<Rightarrow> string \<Rightarrow> 's \<Rightarrow> lock_lease option result \<times> 's"
type_synonym 's renew_op = "int \<Rightarrow> gotime \<Rightarrow> lock_lease option \<Rightarrow> duration \<Rightarrow> 's \<Rightarrow> lock_lease result \<times> 's"
type_synonym 's release_op = "int \<Rightarrow> lock_lease option \<Rightarrow> 's \<Rightarrow> err option \<times> 's"

text \<open>The leases granted by the acquire calls of a sequence, and the final state.\<close>

fun lock_calls ::
  "'s acquire_op \<Rightarrow> 's renew_op \<Rightarrow> 's release_op \<Rightarrow> lock_call list \<Rightarrow> 's \<Rightarrow> lock_lease list \<times> 's" where
  "lock_calls acq ren rel [] s = ([], s)"
| "lock_calls acq ren rel (c # cs) s =
     (case c of
        AcquireCall t now k ttl tok \<Rightarrow>
          (let (r, s1) = acq t now k ttl tok s; (ls, s2) = lock_calls acq ren rel cs s1
           in (case r of Inr (Some l) \<Rightarrow> (l # ls, s2) | _ \<Rightarrow> (ls, s2)))
      | RenewCall t now l ttl \<Rightarrow> lock_calls acq ren rel cs (snd (ren t now (Some l) ttl s))
      | ReleaseCall t l \<Rightarrow> lock_calls acq ren rel cs (snd (rel t (Some l) s)))"

section \<open>The interface\<close>

text \<open>\<open>row s k\<close> is the token and the deadline stored for lock \<open>k\<close>; it is held until the deadline.\<close>

locale lock_provider =
  fixes acquire :: "'s acquire_op" and renew :: "'s renew_op" and release :: "'s release_op"
    and row :: "'s \<Rightarrow> string \<Rightarrow> (string \<times> int) option"
  assumes acquire_granted: "acquire t now k ttl tok s = (Inr (Some l), s') \<Longrightarrow>
      ll_Key l = trim_space k \<and> ll_Token l = tok
      \<and> (\<forall>a d. row s (trim_space k) = Some (a, d) \<longrightarrow> d \<le> t)
      \<and> (\<exists>d. row s' (trim_space k) = Some (tok, d))"
    and acquire_held: "acquire t now k ttl tok s = (r, s') \<Longrightarrow> trim_space j = j \<Longrightarrow>
      row s j = Some (a, d) \<Longrightarrow> t < d \<Longrightarrow> row s' j = Some (a, d)"
    and renew_other: "renew t now (Some l) ttl s = (x, s') \<Longrightarrow> trim_space j = j \<Longrightarrow> row s j = Some (a, d) \<Longrightarrow>
      \<not> (trim_space (ll_Key l) = j \<and> trim_space (ll_Token l) = a) \<Longrightarrow> row s' j = Some (a, d)"
    and release_other: "release t (Some l) s = (y, s') \<Longrightarrow> trim_space j = j \<Longrightarrow> row s j = Some (a, d) \<Longrightarrow>
      \<not> (trim_space (ll_Key l) = j \<and> trim_space (ll_Token l) = a) \<Longrightarrow> row s' j = Some (a, d)"
begin

lemma exclusive:
  assumes "lock_calls acquire renew release cs s = (ls, s')" and "row s k = Some (a, d)"
    and "trim_space k = k" and "\<forall>c \<in> set cs. call_time c < d \<and> \<not> presents k a c"
  shows "row s' k = Some (a, d) \<and> (\<forall>l \<in> set ls. ll_Key l \<noteq> k)"
  using assms(1,2,4)
proof (induction cs arbitrary: s ls)
  case (Cons c cs)
  show ?case
  proof (cases c)
    case (AcquireCall t now q ttl tok)
    obtain r s1 where r: "acquire t now q ttl tok s = (r, s1)" by (rule prod.exhaust)
    have t: "t < d" using Cons.prems(3) AcquireCall by auto
    have row: "row s1 k = Some (a, d)" using acquire_held [OF r assms(3)] Cons.prems(2) t by simp
    obtain ms where ms: "lock_calls acquire renew release cs s1 = (ms, s')"
      and ls: "ls = (case r of Inr (Some l) \<Rightarrow> l # ms | _ \<Rightarrow> ms)"
      using Cons.prems(1) AcquireCall r by (auto split: sum.splits option.splits prod.splits)
    have "ll_Key l \<noteq> k" if "r = Inr (Some l)" for l
      using acquire_granted [OF r [unfolded that]] Cons.prems(2) t by fastforce
    moreover have "row s' k = Some (a, d) \<and> (\<forall>l \<in> set ms. ll_Key l \<noteq> k)"
      using Cons.IH [OF ms row] Cons.prems(3) by simp
    ultimately show ?thesis using ls by (auto split: sum.splits option.splits)
  next
    case (RenewCall t now l ttl)
    have "row (snd (renew t now (Some l) ttl s)) k = Some (a, d)"
      using renew_other [of t now l ttl s _ _ k a d] Cons.prems(2,3) RenewCall assms(3)
      by (cases "renew t now (Some l) ttl s") auto
    then show ?thesis using Cons.IH [of "snd (renew t now (Some l) ttl s)" ls] Cons.prems RenewCall by simp
  next
    case (ReleaseCall t l)
    have "row (snd (release t (Some l) s)) k = Some (a, d)"
      using release_other [of t l s _ _ k a d] Cons.prems(2,3) ReleaseCall assms(3)
      by (cases "release t (Some l) s") auto
    then show ?thesis using Cons.IH [of "snd (release t (Some l) s)" ls] Cons.prems ReleaseCall by simp
  qed
qed simp

end

section \<open>The Redis provider\<close>

definition redis_row :: "'r redis_view \<Rightarrow> redis_lock_config \<Rightarrow> 'r \<Rightarrow> string \<Rightarrow> (string \<times> int) option" where
  "redis_row V c s k =
     (case v_str V s (fullKey c k) of Some (a, Some d) \<Rightarrow> Some (a, d) | _ \<Rightarrow> None)"

lemma fullKey_eq: "fullKey c j = fullKey c k \<longleftrightarrow> trim_space j = trim_space k"
  by (simp add: fullKey_def)

lemma fullKey_trim [simp]: "fullKey c (trim_space k) = fullKey c k"
  by (simp add: fullKey_def)

lemma redis_row_Some: "redis_row V c s k = Some (a, d) \<longleftrightarrow> v_str V s (fullKey c k) = Some (a, Some d)"
  by (auto simp: redis_row_def split: option.splits)

context redis_server
begin

lemma renew_script_view:
  assumes "renew_script R t k tok ms s = (b, s')"
  shows "(b \<longleftrightarrow> live t (v_str V s k) = Some tok)
    \<and> v_str V s' = (if b then (v_str V s)(k \<mapsto> (tok, Some (t + ms))) else v_str V s)"
proof (cases "live t (v_str V s k) = Some tok")
  case True
  then obtain d where d: "v_str V s k = Some (tok, d)"
    by (auto simp: live_def split: option.splits if_splits)
  from True assms have "r_PEXPIRE R t k ms s = (b, s')" by (simp add: renew_script_def)
  with pexpire(1,2) [of t k ms s] True d show ?thesis by auto
qed (use assms in \<open>auto simp: renew_script_def\<close>)

lemma release_script_view:
  assumes "release_script R t k tok s = (b, s')"
  shows "(b \<longleftrightarrow> live t (v_str V s k) = Some tok)
    \<and> v_str V s' = (if b then (v_str V s)(k := None) else v_str V s)"
proof (cases "live t (v_str V s k) = Some tok")
  case True
  with assms have "r_DEL R t k s = (b, s')" by (simp add: release_script_def)
  with del(1,2) [of t k s] True show ?thesis by auto
qed (use assms in \<open>auto simp: release_script_def\<close>)

lemma Acquire_cases:
  assumes "redis_Acquire R (Some c) net t now k ttl tok s = (r, s')"
  shows "(\<exists>l. r = Inr (Some l) \<and> ll_Key l = trim_space k \<and> ll_Token l = tok
      \<and> live t (v_str V s (fullKey c k)) = None
      \<and> v_str V s' = (v_str V s)(fullKey c k \<mapsto> (tok, Some (t + set_ms ttl))))
    \<or> ((\<forall>l. r \<noteq> Inr (Some l)) \<and> v_str V s' = v_str V s)"
proof (cases "trim_space k \<noteq> [] \<and> 0 < ttl \<and> net = None")
  case True
  obtain b u where b: "r_SETNXPX R t (fullKey c k) tok (set_ms ttl) s = (b, u)" by (rule prod.exhaust)
  note nx = setnx(1,2) [of t "fullKey c k" tok "set_ms ttl" s, unfolded b fst_conv snd_conv]
  show ?thesis using assms True b nx by (cases b) (auto simp: redis_Acquire_def)
qed (use assms in \<open>auto simp: redis_Acquire_def Let_def split: if_splits option.splits\<close>)

lemma Renew_str:
  assumes "redis_lock_Renew R (Some c) net t now (Some l) ttl s = (x, s')"
  shows "v_str V s' = v_str V s \<or> (live t (v_str V s (fullKey c (ll_Key l))) = Some (trim_space (ll_Token l))
    \<and> (\<exists>d. v_str V s' = (v_str V s)(fullKey c (ll_Key l) \<mapsto> (trim_space (ll_Token l), d))))"
proof -
  obtain b u where b: "renew_script R t (fullKey c (trim_space (ll_Key l))) (trim_space (ll_Token l))
      (go_div ttl millisecond) s = (b, u)" by (rule prod.exhaust)
  then show ?thesis
    using assms renew_script_view [OF b]
    by (auto simp: redis_lock_Renew_def Let_def split: if_splits option.splits)
qed

lemma Release_str:
  assumes "redis_Release R (Some c) net t (Some l) s = (x, s')"
  shows "v_str V s' = v_str V s \<or> (live t (v_str V s (fullKey c (ll_Key l))) = Some (trim_space (ll_Token l))
    \<and> v_str V s' = (v_str V s)(fullKey c (ll_Key l) := None))"
proof -
  obtain b u where b: "release_script R t (fullKey c (trim_space (ll_Key l))) (trim_space (ll_Token l)) s
      = (b, u)" by (rule prod.exhaust)
  then show ?thesis
    using assms release_script_view [OF b]
    by (auto simp: redis_Release_def Let_def split: if_splits option.splits)
qed

lemma redis_lock_provider:
  "lock_provider (redis_Acquire R (Some c) net) (redis_lock_Renew R (Some c) net) (redis_Release R (Some c) net)
     (redis_row V c)"
proof
  fix t now k ttl tok s l s'
  assume "redis_Acquire R (Some c) net t now k ttl tok s = (Inr (Some l), s')"
  then show "ll_Key l = trim_space k \<and> ll_Token l = tok
      \<and> (\<forall>a d. redis_row V c s (trim_space k) = Some (a, d) \<longrightarrow> d \<le> t)
      \<and> (\<exists>d. redis_row V c s' (trim_space k) = Some (tok, d))"
    using Acquire_cases by (fastforce simp: redis_row_Some split: if_splits)
next
  fix t now k ttl tok s r s' j a d
  assume r: "redis_Acquire R (Some c) net t now k ttl tok s = (r, s')" and "trim_space j = j"
    and row: "redis_row V c s j = Some (a, d)" and "t < d"
  then have "fullKey c j \<noteq> fullKey c k" if "live t (v_str V s (fullKey c k)) = None"
    using that by (auto simp: redis_row_Some)
  then show "redis_row V c s' j = Some (a, d)"
    using Acquire_cases [OF r] row by (auto simp: redis_row_Some)
next
  fix t now l ttl s x s' j a d
  assume r: "redis_lock_Renew R (Some c) net t now (Some l) ttl s = (x, s')" and j: "trim_space j = j"
    and row: "redis_row V c s j = Some (a, d)"
    and ne: "\<not> (trim_space (ll_Key l) = j \<and> trim_space (ll_Token l) = a)"
  then have "fullKey c j \<noteq> fullKey c (ll_Key l)"
    if "live t (v_str V s (fullKey c (ll_Key l))) = Some (trim_space (ll_Token l))"
    using that by (auto simp: fullKey_eq redis_row_Some split: if_splits)
  then show "redis_row V c s' j = Some (a, d)"
    using Renew_str [OF r] row by (auto simp: redis_row_Some)
next
  fix t l s y s' j a d
  assume r: "redis_Release R (Some c) net t (Some l) s = (y, s')" and j: "trim_space j = j"
    and row: "redis_row V c s j = Some (a, d)"
    and ne: "\<not> (trim_space (ll_Key l) = j \<and> trim_space (ll_Token l) = a)"
  then have "fullKey c j \<noteq> fullKey c (ll_Key l)"
    if "live t (v_str V s (fullKey c (ll_Key l))) = Some (trim_space (ll_Token l))"
    using that by (auto simp: fullKey_eq redis_row_Some split: if_splits)
  then show "redis_row V c s' j = Some (a, d)"
    using Release_str [OF r] row by (auto simp: redis_row_Some)
qed

text \<open>A renewal for less than a millisecond succeeds and leaves the lock free.\<close>

lemma renew_submillisecond:
  assumes "redis_lock_Renew R (Some c) None t now (Some l) ttl s = (Inr l', s')" and "ttl < millisecond"
  shows "live t (v_str V s' (fullKey c (ll_Key l))) = None"
proof -
  have pos: "0 < ttl" using assms(1) by (auto simp: redis_lock_Renew_def split: if_splits)
  then have ms: "go_div ttl millisecond = 0" using assms(2) by (simp add: go_div_nonneg duration_units)
  obtain b u where b: "renew_script R t (fullKey c (trim_space (ll_Key l))) (trim_space (ll_Token l)) 0 s = (b, u)"
    by (rule prod.exhaust)
  then have "b \<and> s' = u"
    using assms(1) ms by (auto simp: redis_lock_Renew_def Let_def split: if_splits)
  with renew_script_view [OF b] show ?thesis by simp
qed

end

section \<open>The PostgreSQL provider\<close>

locale lock_table_server =
  fixes P :: "'s lock_table" and prow :: "'s \<Rightarrow> string \<Rightarrow> (string \<times> gotime) option"
  assumes upsert: "upsert_lock P t k tok e s = (b, s') \<Longrightarrow>
      (b \<longleftrightarrow> (\<forall>a d. prow s k = Some (a, d) \<longrightarrow> d \<le> t))
      \<and> prow s' = (if b then (prow s)(k \<mapsto> (tok, e)) else prow s)"
    and update: "update_lock P t k tok e s = (b, s') \<Longrightarrow>
      (b \<longleftrightarrow> (\<exists>d. prow s k = Some (tok, d) \<and> t < d))
      \<and> prow s' = (if b then (prow s)(k \<mapsto> (tok, e)) else prow s)"
    and delete: "delete_lock P k tok s = (b, s') \<Longrightarrow>
      (b \<longleftrightarrow> (\<exists>d. prow s k = Some (tok, d))) \<and> prow s' = (if b then (prow s)(k := None) else prow s)"
begin

lemma postgres_lock_provider:
  "lock_provider (postgres_Acquire P (Some table) net) (postgres_Renew P (Some table) net)
     (postgres_Release P (Some table) net) prow"
proof
  fix t now k ttl tok s l s'
  assume a: "postgres_Acquire P (Some table) net t now k ttl tok s = (Inr (Some l), s')"
  obtain b u where b: "upsert_lock P t (trim_space k) tok (now + ttl) s = (b, u)" by (rule prod.exhaust)
  show "ll_Key l = trim_space k \<and> ll_Token l = tok
      \<and> (\<forall>a d. prow s (trim_space k) = Some (a, d) \<longrightarrow> d \<le> t)
      \<and> (\<exists>d. prow s' (trim_space k) = Some (tok, d))"
    using a upsert [OF b] b
    by (auto simp: postgres_Acquire_def Let_def split: if_splits option.splits sum.splits)
next
  fix t now k ttl tok s r s' j a d
  assume r: "postgres_Acquire P (Some table) net t now k ttl tok s = (r, s')"
    and row: "prow s j = Some (a, d)" and "t < d"
  obtain b u where b: "upsert_lock P t (trim_space k) tok (now + ttl) s = (b, u)" by (rule prod.exhaust)
  show "prow s' j = Some (a, d)"
    using r upsert [OF b] b row \<open>t < d\<close>
    by (auto simp: postgres_Acquire_def Let_def split: if_splits option.splits sum.splits)
next
  fix t now l ttl s x s' j a d
  assume r: "postgres_Renew P (Some table) net t now (Some l) ttl s = (x, s')"
    and row: "prow s j = Some (a, d)"
    and ne: "\<not> (trim_space (ll_Key l) = j \<and> trim_space (ll_Token l) = a)"
  obtain b u where b: "update_lock P t (trim_space (ll_Key l)) (trim_space (ll_Token l)) (now + ttl) s = (b, u)"
    by (rule prod.exhaust)
  show "prow s' j = Some (a, d)"
    using r update [OF b] b row ne
    by (auto simp: postgres_Renew_def Let_def split: if_splits option.splits sum.splits)
next
  fix t l s y s' j a d
  assume r: "postgres_Release P (Some table) net t (Some l) s = (y, s')"
    and row: "prow s j = Some (a, d)"
    and ne: "\<not> (trim_space (ll_Key l) = j \<and> trim_space (ll_Token l) = a)"
  obtain b u where b: "delete_lock P (trim_space (ll_Key l)) (trim_space (ll_Token l)) s = (b, u)"
    by (rule prod.exhaust)
  show "prow s' j = Some (a, d)"
    using r delete [OF b] b row ne
    by (auto simp: postgres_Release_def Let_def split: if_splits option.splits sum.splits)
qed

end

section \<open>Interpretations\<close>

sublocale redis_server \<subseteq> redis_lock: lock_provider "redis_Acquire R (Some c) net"
  "redis_lock_Renew R (Some c) net" "redis_Release R (Some c) net" "redis_row V c" for c net
  by (rule redis_lock_provider)

sublocale lock_table_server \<subseteq> postgres_lock: lock_provider "postgres_Acquire P (Some table) net"
  "postgres_Renew P (Some table) net" "postgres_Release P (Some table) net" prow for table net
  by (rule postgres_lock_provider)

text \<open>A table of rows as a map.\<close>

type_synonym lock_rows = "string \<rightharpoonup> string \<times> gotime"

definition map_lock_table :: "lock_rows lock_table" where
  "map_lock_table =
     \<lparr>upsert_lock = (\<lambda>t k tok e s.
        if (case s k of None \<Rightarrow> True | Some (a, d) \<Rightarrow> d \<le> t) then (True, s(k \<mapsto> (tok, e))) else (False, s)),
      update_lock = (\<lambda>t k tok e s.
        if (case s k of None \<Rightarrow> False | Some (a, d) \<Rightarrow> a = tok \<and> t < d) then (True, s(k \<mapsto> (tok, e))) else (False, s)),
      delete_lock = (\<lambda>k tok s.
        if (case s k of None \<Rightarrow> False | Some (a, d) \<Rightarrow> a = tok) then (True, s(k := None)) else (False, s))\<rparr>"

interpretation map_table: lock_table_server map_lock_table "\<lambda>s. s"
  by unfold_locales (auto simp: map_lock_table_def split: if_splits option.splits)

section \<open>Properties\<close>

text \<open>
  C3. Mutual exclusion with Redis: once a lease of a lock is stored with a deadline, then through
  any sequence of calls of any processes before that deadline, none of which presents that lease,
  the lock stays with its holder and no acquire call for it is granted.
\<close>

theorem redis_lock_exclusive:
  assumes "redis_server R V" and "redis_row V c s k = Some (a, d)" and "trim_space k = k"
    and "lock_calls (redis_Acquire R (Some c) net) (redis_lock_Renew R (Some c) net)
      (redis_Release R (Some c) net) cs s = (ls, s')"
    and "\<forall>x \<in> set cs. call_time x < d \<and> \<not> presents k a x"
  shows "redis_row V c s' k = Some (a, d) \<and> (\<forall>l \<in> set ls. ll_Key l \<noteq> k)"
  by (rule lock_provider.exclusive [OF redis_server.redis_lock_provider [OF assms(1)] assms(4,2,3,5)])

theorem redis_lock_exclusive_witness:
  "\<exists>l s1. redis_Acquire memory_redis (Some \<lparr>rl_Prefix = ''p'', rl_OperationTimeout = 1\<rparr>) None 100 7 ''job'' second ''a''
      empty_memory = (Inr (Some l), s1)
    \<and> fst (lock_calls (redis_Acquire memory_redis (Some \<lparr>rl_Prefix = ''p'', rl_OperationTimeout = 1\<rparr>) None)
        (redis_lock_Renew memory_redis (Some \<lparr>rl_Prefix = ''p'', rl_OperationTimeout = 1\<rparr>) None)
        (redis_Release memory_redis (Some \<lparr>rl_Prefix = ''p'', rl_OperationTimeout = 1\<rparr>) None)
        [AcquireCall 200 8 ''job'' second ''b'', ReleaseCall 300 \<lparr>ll_Key = ''job'', ll_Token = ''b'', ll_ExpireAt = 7 + second\<rparr>] s1) = []"
proof -
  let ?c = "\<lparr>rl_Prefix = ''p'', rl_OperationTimeout = 1\<rparr>"
  have k: "trim_space ''job'' = ''job''" "trim_space ''b'' = ''b''"
    by (simp_all add: trim_space_plain ascii_space_def)
  obtain r s1 where r: "redis_Acquire memory_redis (Some ?c) None 100 7 ''job'' second ''a'' empty_memory = (r, s1)"
    by (rule prod.exhaust)
  have l: "r = Inr (Some \<lparr>ll_Key = ''job'', ll_Token = ''a'', ll_ExpireAt = 7 + second\<rparr>)"
    "redis_row memory_view ?c s1 ''job'' = Some (''a'', 1100)"
    using r by (auto simp: redis_Acquire_def Let_def k memory_redis_def empty_memory_def redis_row_Some
        memory_view_def set_ms_def go_div_def duration_units)
  obtain ls s2 where c: "lock_calls (redis_Acquire memory_redis (Some ?c) None) (redis_lock_Renew memory_redis (Some ?c) None)
      (redis_Release memory_redis (Some ?c) None) [AcquireCall 200 8 ''job'' second ''b'',
        ReleaseCall 300 \<lparr>ll_Key = ''job'', ll_Token = ''b'', ll_ExpireAt = 7 + second\<rparr>] s1 = (ls, s2)"
    by (rule prod.exhaust)
  have no: "\<forall>l \<in> set ls. ll_Key l \<noteq> ''job''"
    using redis_lock_exclusive [OF mem.redis_server_axioms l(2) k(1) c] by (simp add: k)
  obtain x u where x: "redis_Acquire memory_redis (Some ?c) None 200 8 ''job'' second ''b'' s1 = (x, u)"
    by (rule prod.exhaust)
  have "ls = []"
    using c no x mem.Acquire_cases [OF x] k by (auto split: sum.splits option.splits)
  with r l(1) c show ?thesis by (metis fst_conv)
qed

text \<open>
  Mutual exclusion with PostgreSQL, under the same conditions.  The deadline is the caller's clock
  plus the time to live and is compared with the server's clock.
\<close>

lemma postgres_lock_exclusive:
  assumes "lock_table_server P prow" and "prow s k = Some (a, d)" and "trim_space k = k"
    and "lock_calls (postgres_Acquire P (Some table) net) (postgres_Renew P (Some table) net)
      (postgres_Release P (Some table) net) cs s = (ls, s')"
    and "\<forall>x \<in> set cs. call_time x < d \<and> \<not> presents k a x"
  shows "prow s' k = Some (a, d) \<and> (\<forall>l \<in> set ls. ll_Key l \<noteq> k)"
  by (rule lock_provider.exclusive [OF lock_table_server.postgres_lock_provider [OF assms(1)] assms(4,2,3,5)])

end
