(* ===== verification/Scheduler.thy ===== *)
theory Scheduler
  imports Cron Jobs Locks
begin

text \<open>
  \<^verbatim>\<open>pkg/scheduler/runtime.go\<close>: the registry of tasks, the loop that waits for the next run of a task
  with its misfire policies, and the dispatch of a run as a job under a distributed lock.  The
  dispatch is a client of the interface \<open>lock_provider\<close>; what it gains from the lock is proved in
  that locale and holds for both providers.
\<close>

section \<open>Configuration and registry\<close>

record scheduler_config =
  sc_DispatchTimeout :: duration
  sc_DefaultLockTTL :: duration

definition scheduler_normalize :: "scheduler_config \<Rightarrow> scheduler_config" where
  "scheduler_normalize c =
     \<lparr>sc_DispatchTimeout = pos_or (sc_DispatchTimeout c) (10 * second),
      sc_DefaultLockTTL = pos_or (sc_DefaultLockTTL c) (30 * second)\<rparr>"

text \<open>\<open>rt_cancel\<close>: a cancel function is stored.\<close>

record runtime =
  rt_config :: scheduler_config
  rt_tasks :: "string \<rightharpoonup> task"
  rt_running :: bool
  rt_cancel :: bool

definition NewRuntime :: "bool \<Rightarrow> bool \<Rightarrow> bool \<Rightarrow> scheduler_config \<Rightarrow> runtime result" where
  "NewRuntime hasJobs hasLock hasLog cfg =
     (if \<not> hasJobs then Inl (schedulerError ErrInvalidArgument ''jobs runtime is required'')
      else if \<not> hasLock then Inl (schedulerError ErrInvalidArgument ''lock provider is required'')
      else if \<not> hasLog then Inl (schedulerError ErrInvalidArgument ''logger is required'')
      else Inr \<lparr>rt_config = scheduler_normalize cfg, rt_tasks = Map.empty, rt_running = False,
                rt_cancel = False\<rparr>)"

definition scheduler_Register :: "time_env \<Rightarrow> gotime \<Rightarrow> task \<Rightarrow> runtime \<Rightarrow> err option \<times> runtime" where
  "scheduler_Register E now t0 r =
     (case task_Validate E now (Some t0) of
        (Some e, _) \<Rightarrow> (Some e, r)
      | (None, t') \<Rightarrow>
          (case t' of
             None \<Rightarrow> (None, r)
           | Some t \<Rightarrow>
               (if rt_tasks r (t_Name t) \<noteq> None
                then (Some (schedulerError ErrConflict
                        (''task '' @ quoted (t_Name t) @ '' is already registered'')), r)
                else (None, r\<lparr>rt_tasks := (rt_tasks r)(t_Name t \<mapsto> t)\<rparr>))))"

text \<open>
  \<^verbatim>\<open>Start\<close> up to the launch of the loops: the error, or the set of tasks whose loops run.  When the
  context ends, \<^verbatim>\<open>Start\<close> calls \<^verbatim>\<open>Stop\<close>.
\<close>

definition Start :: "bool \<Rightarrow> runtime option \<Rightarrow> task set result \<times> runtime option" where
  "Start hasCtx ro =
     (case ro of
        None \<Rightarrow> (Inl (schedulerError ErrNotInitialized ''scheduler runtime is not initialized''), None)
      | Some r \<Rightarrow>
          (if \<not> hasCtx then (Inl (schedulerError ErrInvalidArgument ''context is required''), Some r)
           else if rt_running r then (Inl (schedulerError ErrConflict ''scheduler already running''), Some r)
           else let r' = r\<lparr>rt_cancel := True, rt_running := True\<rparr> in
           if rt_tasks r' = Map.empty
           then (Inl (schedulerError ErrValidation ''no scheduler tasks registered''), Some r')
           else (Inr (ran (rt_tasks r')), Some r')))"

text \<open>
  \<^verbatim>\<open>Stop\<close>: whether the loops were cancelled, the error and the state; \<open>ctxErr\<close> is the error of the
  context when it ends before the loops have.
\<close>

definition Stop :: "err option \<Rightarrow> runtime option \<Rightarrow> bool \<times> err option \<times> runtime option" where
  "Stop ctxErr ro =
     (case ro of
        None \<Rightarrow> (False, None, None)
      | Some r \<Rightarrow>
          (if \<not> rt_running r then (False, None, Some r)
           else (rt_cancel r, ctxErr, Some (r\<lparr>rt_cancel := False, rt_running := False\<rparr>))))"

section \<open>Dispatch\<close>

text \<open>
  The lock provider and the jobs runtime a dispatch calls, on a state of their own.  \<^verbatim>\<open>Acquire\<close> gives
  the lease, possibly nil, and whether the lock was acquired; a renewal is made at the time of
  a tick.
\<close>

record 'w scheduler_env =
  se_Acquire :: "string \<Rightarrow> duration \<Rightarrow> 'w \<Rightarrow> (lock_lease option \<times> bool) result \<times> 'w"
  se_Renew :: "int \<Rightarrow> lock_lease option \<Rightarrow> duration \<Rightarrow> 'w \<Rightarrow> lock_lease result \<times> 'w"
  se_Release :: "lock_lease option \<Rightarrow> 'w \<Rightarrow> err option \<times> 'w"
  se_Enqueue :: "job \<Rightarrow> 'w \<Rightarrow> err option \<times> 'w"

datatype dispatch_event =
  EnqueueEv job "err option"
| ReleaseEv lock_lease "err option"
| Recorded string

text \<open>\<^verbatim>\<open>Time.Unix\<close>: whole seconds since 1970.\<close>

definition unix_seconds :: "gotime \<Rightarrow> int" where
  "unix_seconds t = t div second - 62135596800"

definition lockKey :: "string \<Rightarrow> gotime \<Rightarrow> string" where
  "lockKey name runAt = ''scheduler:'' @ name @ '':'' @ itoa (unix_seconds runAt)"

definition taskNameFromLockKey :: "string \<Rightarrow> string" where
  "taskNameFromLockKey key =
     (let trimmed = trim_space key in
      if trimmed = [] then ''unknown''
      else if \<not> has_prefix trimmed ''scheduler:'' then trimmed
      else let payload = drop 10 trimmed; lastSeparator = last_index CHR '':'' payload
           in if lastSeparator \<le> 0 then payload else take (nat lastSeparator) payload)"

definition dispatch_job :: "time_codec \<Rightarrow> string \<Rightarrow> gotime \<Rightarrow> task \<Rightarrow> gotime \<Rightarrow> job" where
  "dispatch_job T jobID now t runAt =
     \<lparr>j_ID = jobID, j_Name = trim_space (t_JobName t), j_Queue = trim_space (t_Queue t),
      j_Payload = (if t_Payload t = [] then ''{}'' else t_Payload t),
      j_Headers = (t_Headers t)(''scheduler_task'' \<mapsto> t_Name t, ''scheduler_run_at'' \<mapsto> format_time T runAt),
      j_ContentType = [], j_TenantID = trim_space (t_TenantID t), j_CorrelationID = [],
      j_IdempotencyKey = (if blank (t_IdempotencyKey t)
         then t_Name t @ '':'' @ itoa (unix_seconds runAt) else trim_space (t_IdempotencyKey t)),
      j_PartitionKey = [], j_RunAt = runAt, j_Attempt = 0, j_MaxAttempts = 0, j_CreatedAt = now\<rparr>"

text \<open>
  The renewal goroutine, at the ticks that fall into the dispatch: it ends with the first failed
  renewal.  Without a lease it does nothing.
\<close>

fun renew_ticks ::
  "'w scheduler_env \<Rightarrow> duration \<Rightarrow> int list \<Rightarrow> lock_lease option \<Rightarrow> 'w \<Rightarrow> err option \<times> lock_lease option \<times> 'w" where
  "renew_ticks env ttl ticks None w = (None, None, w)"
| "renew_ticks env ttl [] (Some l) w = (None, Some l, w)"
| "renew_ticks env ttl (tick # ticks) (Some l) w =
     (case se_Renew env tick (Some l) ttl w of
        (Inl e, w') \<Rightarrow> (Some (EJoin [schedulerError ErrRetryable ''renew lock failed'', e]), Some l, w')
      | (Inr l', w') \<Rightarrow> renew_ticks env ttl ticks (Some l') w')"

definition scheduler_renew_interval :: "duration \<Rightarrow> duration" where
  "scheduler_renew_interval ttl =
     (let i = go_div ttl 2; i' = (if i \<le> 0 then ttl else i)
      in if i' < 100 * millisecond then 100 * millisecond else i')"

definition release_lease :: "'w scheduler_env \<Rightarrow> lock_lease option \<Rightarrow> 'w \<Rightarrow> err option \<times> 'w" where
  "release_lease env lo w = (case lo of None \<Rightarrow> (None, w) | Some l \<Rightarrow> se_Release env (Some l) w)"

text \<open>\<open>before\<close> and \<open>after\<close> are the ticks before and after the enqueue takes effect.\<close>

definition dispatchTask ::
  "'w scheduler_env \<Rightarrow> scheduler_config \<Rightarrow> time_codec \<Rightarrow> string \<Rightarrow> gotime \<Rightarrow> int list \<Rightarrow> int list \<Rightarrow> task \<Rightarrow> gotime \<Rightarrow> 'w
    \<Rightarrow> err option \<times> dispatch_event list \<times> 'w" where
  "dispatchTask env cfg T jobID now before after t runAt w =
     (let lockTTL = (if t_LockTTL t \<le> 0 then sc_DefaultLockTTL cfg else t_LockTTL t) in
      case se_Acquire env (lockKey (t_Name t) runAt) lockTTL w of
        (Inl e, w1) \<Rightarrow> (Some (EJoin [schedulerError ErrRetryable ''acquire lock failed'', e]),
                       [Recorded ''lock_error''], w1)
      | (Inr (lease, acquired), w1) \<Rightarrow>
          (if \<not> acquired then (None, [Recorded ''lock_miss''], w1)
           else
             let j = dispatch_job T jobID now t runAt;
                 (renewErr1, lease1, w2) = renew_ticks env lockTTL before lease w1;
                 (enqueueErr, w3) = se_Enqueue env j w2;
                 (renewErr, lease2, w4) = (if renewErr1 \<noteq> None then (renewErr1, lease1, w3)
                                           else renew_ticks env lockTTL after lease1 w3);
                 (releaseErr, w5) = release_lease env lease2 w4;
                 dispatchErr = errors_join [enqueueErr, renewErr, releaseErr]
             in (dispatchErr,
                 [EnqueueEv j enqueueErr]
                 @ (case lease2 of None \<Rightarrow> [] | Some l \<Rightarrow> [ReleaseEv l releaseErr])
                 @ (if enqueueErr \<noteq> None then [Recorded ''enqueue_error''] else [])
                 @ [Recorded (if dispatchErr = None then ''success'' else ''error'')], w5)))"

definition Trigger ::
  "'w scheduler_env \<Rightarrow> time_codec \<Rightarrow> string \<Rightarrow> gotime \<Rightarrow> int list \<Rightarrow> int list \<Rightarrow> bool \<Rightarrow> string \<Rightarrow> runtime option \<Rightarrow> 'w
    \<Rightarrow> err option \<times> dispatch_event list \<times> 'w" where
  "Trigger env T jobID now before after hasCtx taskName ro w =
     (case ro of
        None \<Rightarrow> (Some (schedulerError ErrNotInitialized ''scheduler runtime is not initialized''), [], w)
      | Some r \<Rightarrow>
          (if \<not> hasCtx then (Some (schedulerError ErrInvalidArgument ''context is required''), [], w)
           else if blank taskName then (Some (schedulerError ErrInvalidArgument ''task name is required''), [], w)
           else case rt_tasks r (trim_space taskName) of
             None \<Rightarrow> (Some (schedulerError ErrNotFound
                             (''task '' @ quoted (trim_space taskName) @ '' is not registered'')), [], w)
           | Some t \<Rightarrow> dispatchTask env (rt_config r) T jobID now before after t now w))"

section \<open>The loop of a task\<close>

text \<open>
  One round of the loop: the clock when it computes the next run, whether the context ends before
  the timer fires, and the clock after it has.
\<close>

record loop_round =
  lr_now :: gotime
  lr_cancelled :: bool
  lr_actual :: gotime

definition misfireGraceWindow :: duration where
  "misfireGraceWindow = 500 * millisecond"

text \<open>The run times the loop dispatches; errors of a dispatch are logged and change nothing.\<close>

fun runTaskLoop :: "time_env \<Rightarrow> task \<Rightarrow> loop_round list \<Rightarrow> gotime list" where
  "runTaskLoop E t [] = []"
| "runTaskLoop E t (r # rs) =
     (case nextRun E t (lr_now r) of
        Inl e \<Rightarrow> []
      | Inr next \<Rightarrow>
          (if lr_cancelled r then []
           else if next + misfireGraceWindow < lr_actual r \<and> t_MisfirePolicy t = ''skip''
             then runTaskLoop E t rs
           else (if next < lr_actual r \<and> t_MisfirePolicy t = ''fire_once'' then lr_actual r else next)
                # runTaskLoop E t rs))"

section \<open>Lemmas on keys\<close>

lemma itoa_no_colon: "CHR '':'' \<notin> set (itoa n)"
proof
  assume "CHR '':'' \<in> set (itoa n)"
  then have "CHR '':'' = CHR ''-'' \<or> is_digit CHR '':''" using itoa_chars by blast
  then show False by (simp add: is_digit_def)
qed

lemma run_key_inj:
  "m @ '':'' @ itoa x = n @ '':'' @ itoa y \<longleftrightarrow> m = n \<and> x = y"
  using last_sep_inj [OF itoa_no_colon itoa_no_colon, of m x n y] by simp

lemma trim_lockKey [simp]: "trim_space (lockKey n t) = lockKey n t"
proof -
  obtain s c where s: "itoa (unix_seconds t) = s @ [c]" and c: "is_digit c" using itoa_last by blast
  have "lockKey n t = CHR ''s'' # (''cheduler:'' @ n @ '':'' @ s) @ [c]" by (simp add: lockKey_def s)
  moreover have "byte c < 128" "\<not> ascii_space c" using c by (auto simp: is_digit_def ascii_space_def)
  moreover have "byte CHR ''s'' < 128" "\<not> ascii_space CHR ''s''" by (simp_all add: ascii_space_def)
  ultimately show ?thesis using trim_space_plain_ends by metis
qed

lemma taskName_lockKey: "n \<noteq> [] \<Longrightarrow> taskNameFromLockKey (lockKey n t) = n"
proof -
  assume "n \<noteq> []"
  moreover have "drop 10 (lockKey n t) = n @ CHR '':'' # itoa (unix_seconds t)" "lockKey n t \<noteq> []"
    "has_prefix (lockKey n t) ''scheduler:''"
    by (simp_all add: lockKey_def)
  ultimately show ?thesis
    by (simp add: taskNameFromLockKey_def last_index_last [OF itoa_no_colon])
qed

section \<open>Lemmas on dispatch\<close>

text \<open>The calls of a dispatch that change something outside it.\<close>

fun is_enqueue :: "dispatch_event \<Rightarrow> bool" where
  "is_enqueue (EnqueueEv _ _) = True"
| "is_enqueue _ = False"

fun is_effect :: "dispatch_event \<Rightarrow> bool" where
  "is_effect (Recorded _) = False"
| "is_effect _ = True"

lemma renew_ticks_lease:
  "renew_ticks env ttl ticks lo w = (e, lo', w') \<Longrightarrow> (lo' = None \<longleftrightarrow> lo = None)"
  by (induction env ttl ticks lo w rule: renew_ticks.induct) (auto split: prod.splits sum.splits)

text \<open>The runtime wired to a lock provider: the times and the token of its calls, and a queue beside it.\<close>

definition lock_env ::
  "'s acquire_op \<Rightarrow> 's renew_op \<Rightarrow> 's release_op \<Rightarrow> (job \<Rightarrow> 'q \<Rightarrow> err option \<times> 'q)
    \<Rightarrow> int \<Rightarrow> gotime \<Rightarrow> string \<Rightarrow> int \<Rightarrow> ('s \<times> 'q) scheduler_env" where
  "lock_env acq ren rel enq t now tok trel =
     \<lparr>se_Acquire = (\<lambda>k ttl w. case acq t now k ttl tok (fst w) of
          (Inl e, s) \<Rightarrow> (Inl e, (s, snd w))
        | (Inr None, s) \<Rightarrow> (Inr (None, False), (s, snd w))
        | (Inr (Some l), s) \<Rightarrow> (Inr (Some l, True), (s, snd w))),
      se_Renew = (\<lambda>tick lo ttl w. case ren tick now lo ttl (fst w) of (x, s) \<Rightarrow> (x, (s, snd w))),
      se_Release = (\<lambda>lo w. case rel trel lo (fst w) of (x, s) \<Rightarrow> (x, (s, snd w))),
      se_Enqueue = (\<lambda>j w. case enq j (snd w) of (x, q) \<Rightarrow> (x, (fst w, q)))\<rparr>"

context lock_provider
begin

lemma dispatch_excluded:
  assumes "row s (lockKey (t_Name t) runAt) = Some (a, d)" and "ta < d"
    and "dispatchTask (lock_env acquire renew release enq ta now tok trel) cfg T i now' b c t runAt (s, q)
      = (r, evs, (s', q'))"
  shows "\<not> list_ex is_enqueue evs \<and> q' = q \<and> row s' (lockKey (t_Name t) runAt) = Some (a, d)"
proof -
  let ?k = "lockKey (t_Name t) runAt"
  let ?ttl = "if t_LockTTL t \<le> 0 then sc_DefaultLockTTL cfg else t_LockTTL t"
  obtain x s1 where x: "acquire ta now ?k ?ttl tok s = (x, s1)" by (rule prod.exhaust)
  have "x \<noteq> Inr (Some l)" for l
    using acquire_granted [of ta now ?k ?ttl tok s l s1] x assms(1,2) by fastforce
  moreover have "row s1 ?k = Some (a, d)" using acquire_held [OF x _ assms(1,2)] by simp
  ultimately show ?thesis
    using assms(3) x
    by (cases x) (auto simp: dispatchTask_def lock_env_def Let_def split: option.splits)
qed

end

section \<open>Lemmas on the loop\<close>

lemma nextRun_later: "nextRun E t now = Inr n \<Longrightarrow> now < n"
proof -
  assume n: "nextRun E t now = Inr n"
  then obtain loc where l: "nextRunForSchedule (ParseDuration E) (trim_space (t_Schedule t)) now loc = Inr n"
    by (auto simp: nextRun_def split: sum.splits)
  show "now < n"
  proof (cases "has_prefix (trim_space (t_Schedule t)) ''@every ''")
    case False
    then obtain e where "cron_search maxCronSearchIterations e loc (truncate_minute now + minute) = Some n"
      using l by (auto simp: nextRunForSchedule_def Let_def split: if_splits sum.splits option.splits)
    then show ?thesis using cron_search_Some search_minute(1) by blast
  qed (use l in \<open>auto simp: nextRunForSchedule_def split: sum.splits if_splits\<close>)
qed

text \<open>
  The clock does not go back between the readings of the loop, and the timer does not fire before
  the next run.
\<close>

fun clock_ok :: "time_env \<Rightarrow> task \<Rightarrow> gotime \<Rightarrow> loop_round list \<Rightarrow> bool" where
  "clock_ok E t since [] = True"
| "clock_ok E t since (r # rs) =
     (since \<le> lr_now r
      \<and> (case nextRun E t (lr_now r) of Inl _ \<Rightarrow> True | Inr n \<Rightarrow> lr_cancelled r \<or> n \<le> lr_actual r)
      \<and> clock_ok E t (lr_actual r) rs)"

lemma loop_times:
  "clock_ok E t since rs \<Longrightarrow> sorted_wrt (<) (runTaskLoop E t rs) \<and> (\<forall>d \<in> set (runTaskLoop E t rs). since < d)"
proof (induction rs arbitrary: since)
  case (Cons r rs)
  show ?case
  proof (cases "nextRun E t (lr_now r)")
    case (Inr n)
    have n: "since < n" using nextRun_later [OF Inr] Cons.prems by simp
    show ?thesis
    proof (cases "lr_cancelled r")
      case False
      with Cons.prems Inr have a: "n \<le> lr_actual r" and "clock_ok E t (lr_actual r) rs" by simp_all
      with Cons.IH have rest: "sorted_wrt (<) (runTaskLoop E t rs)"
        "\<forall>d \<in> set (runTaskLoop E t rs). lr_actual r < d" by blast+
      then have "\<forall>d \<in> set (runTaskLoop E t rs). n < d \<and> since < d" using a n by auto
      with rest n a Inr False show ?thesis by auto
    qed (simp add: Inr)
  qed simp
qed simp

lemma skip_on_time:
  assumes "t_MisfirePolicy t = ''skip''" and "d \<in> set (runTaskLoop E t rs)"
  shows "\<exists>r \<in> set rs. nextRun E t (lr_now r) = Inr d \<and> lr_actual r \<le> d + misfireGraceWindow"
  using assms(2)
proof (induction rs)
  case (Cons r rs)
  show ?case
  proof (cases "nextRun E t (lr_now r)")
    case (Inr n)
    with Cons assms(1) show ?thesis by (auto split: if_splits)
  qed (use Cons in simp)
qed simp

section \<open>A sample task\<close>

definition report_task :: task where
  "report_task = \<lparr>t_Name = ''report'', t_Schedule = ''@every 1m'', t_Queue = ''q'', t_JobName = ''build'',
     t_Payload = [], t_Headers = Map.empty, t_TenantID = [], t_IdempotencyKey = [], t_Timezone = [],
     t_LockTTL = 0, t_MisfirePolicy = ''skip''\<rparr>"

definition report_env :: time_env where
  "report_env = \<lparr>LoadLocation = (\<lambda>_. Inr UTC), ParseDuration = (\<lambda>_. Inr minute)\<rparr>"

definition report_codec :: time_codec where
  "report_codec = \<lparr>format_time = (\<lambda>_. ''run''), parse_time = (\<lambda>_. Inr 0)\<rparr>"

definition report_config :: scheduler_config where
  "report_config = scheduler_normalize \<lparr>sc_DispatchTimeout = 0, sc_DefaultLockTTL = 0\<rparr>"

definition report_lock :: redis_lock_config where
  "report_lock = \<lparr>rl_Prefix = ''p'', rl_OperationTimeout = second\<rparr>"

text \<open>A queue as the list of its jobs, and an instance on a Redis server.\<close>

definition push_job :: "job \<Rightarrow> job list \<Rightarrow> err option \<times> job list" where
  "push_job j q = (None, q @ [j])"

definition report_instance :: "int \<Rightarrow> string \<Rightarrow> (memory \<times> job list) scheduler_env" where
  "report_instance t tok = lock_env (redis_Acquire memory_redis (Some report_lock) None)
     (redis_lock_Renew memory_redis (Some report_lock) None)
     (redis_Release memory_redis (Some report_lock) None) push_job t 0 tok (t + 1)"

lemma report_nextRun: "nextRun report_env report_task now = Inr (now + minute)"
proof -
  have "trim_space ''@every 1m'' = ''@every 1m''" "blank []" by code_simp+
  then show ?thesis
    by (simp add: nextRun_def location_def report_env_def report_task_def nextRunForSchedule_def
        duration_units)
qed

section \<open>Properties\<close>

text \<open>
  While one instance holds the Redis lock of a run, no other instance that dispatches the same
  run enqueues anything: from the moment the lock is granted until its deadline, a dispatch of the
  same task and run time by any other instance leaves the queue and the lock as they are.
\<close>

lemma redis_dispatch_exclusive:
  assumes "redis_server R V"
    and "redis_Acquire R (Some c) net t1 now1 (lockKey (t_Name tk) runAt) ttl tok s = (Inr (Some l), s1)"
    and "t2 < t1 + set_ms ttl"
    and "dispatchTask (lock_env (redis_Acquire R (Some c) net') (redis_lock_Renew R (Some c) net')
        (redis_Release R (Some c) net') enq t2 now2 tok2 t3) cfg T i now3 before after tk runAt (s1, q)
      = (r, evs, (s2, q2))"
  shows "\<not> list_ex is_enqueue evs \<and> q2 = q
    \<and> redis_row V c s2 (lockKey (t_Name tk) runAt) = Some (tok, t1 + set_ms ttl)"
proof -
  let ?k = "lockKey (t_Name tk) runAt"
  have "redis_row V c s1 ?k = Some (tok, t1 + set_ms ttl)"
    using redis_server.Acquire_cases [OF assms(1,2)] by (auto simp: redis_row_Some)
  from lock_provider.dispatch_excluded [OF redis_server.redis_lock_provider [OF assms(1)] this assms(3,4)]
  show ?thesis .
qed

text \<open>
  A dispatch settles everything it starts: without the lock nothing is enqueued and a lock held
  by another is no error; with it exactly one job is enqueued, the one made from the task, and then
  the lease is released whether or not the enqueue succeeded; the dispatch reports success only when
  both did.
\<close>

lemma dispatch_settles:
  assumes "dispatchTask env cfg T i now before after t runAt w = (r, evs, w')"
    and "se_Acquire env (lockKey (t_Name t) runAt) (if t_LockTTL t \<le> 0 then sc_DefaultLockTTL cfg else t_LockTTL t) w
      = (x, w1)"
  shows "case x of
      Inl e \<Rightarrow> filter is_effect evs = [] \<and> w' = w1
        \<and> r = Some (EJoin [schedulerError ErrRetryable ''acquire lock failed'', e])
    | Inr (lo, acquired) \<Rightarrow>
        (if \<not> acquired then filter is_effect evs = [] \<and> w' = w1 \<and> r = None
         else \<exists>er rr l. filter is_effect evs = EnqueueEv (dispatch_job T i now t runAt) er
             # (if lo = None then [] else [ReleaseEv l rr])
           \<and> (r = None \<longrightarrow> er = None \<and> (lo = None \<or> rr = None)))"
proof (cases x)
  case (Inr y)
  obtain lo acq where y: "y = (lo, acq)" by (cases y)
  let ?ttl = "if t_LockTTL t \<le> 0 then sc_DefaultLockTTL cfg else t_LockTTL t"
  show ?thesis
  proof (cases acq)
    case True
    obtain e1 l1 w2 where 1: "renew_ticks env ?ttl before lo w1 = (e1, l1, w2)" by (rule prod_cases3)
    obtain er w3 where 2: "se_Enqueue env (dispatch_job T i now t runAt) w2 = (er, w3)" by (rule prod.exhaust)
    obtain e2 l2 w4 where 3: "(if e1 \<noteq> None then (e1, l1, w3) else renew_ticks env ?ttl after l1 w3) = (e2, l2, w4)"
      by (rule prod_cases3)
    obtain rr w5 where 4: "release_lease env l2 w4 = (rr, w5)" by (rule prod.exhaust)
    have l: "l2 = None \<longleftrightarrow> lo = None"
      using renew_ticks_lease [OF 1] 3 renew_ticks_lease [of env ?ttl after l1 w3] by (auto split: if_splits)
    have r: "r = errors_join [er, e2, rr]"
      and evs: "filter is_effect evs = EnqueueEv (dispatch_job T i now t runAt) er
        # (case l2 of None \<Rightarrow> [] | Some l \<Rightarrow> [ReleaseEv l rr])"
      using assms Inr y True 1 2 3 4
      by (auto simp: dispatchTask_def Let_def split: option.splits)
    show ?thesis
      using Inr y True evs l r by (cases l2) (auto simp: errors_join_None_iff)
  qed (use assms Inr y in \<open>auto simp: dispatchTask_def\<close>)
qed (use assms in \<open>auto simp: dispatchTask_def\<close>)

text \<open>
  A run is identified by its lock key and by the idempotency key of its job: two runs share
  a lock key, and two jobs of tasks without keys of their own share an idempotency key, exactly when
  task name and second are the same; and the task name is read back from the lock key.
\<close>

lemma run_identity:
  "(lockKey m a = lockKey n b \<longleftrightarrow> m = n \<and> unix_seconds a = unix_seconds b)
    \<and> (blank (t_IdempotencyKey t) \<and> blank (t_IdempotencyKey u) \<longrightarrow>
        (j_IdempotencyKey (dispatch_job T i now t a) = j_IdempotencyKey (dispatch_job T' i' now' u b)
          \<longleftrightarrow> t_Name t = t_Name u \<and> unix_seconds a = unix_seconds b))
    \<and> (n \<noteq> [] \<longrightarrow> taskNameFromLockKey (lockKey n b) = n)"
  using run_key_inj by (simp add: lockKey_def [of m] lockKey_def [of n a] dispatch_job_def taskName_lockKey)
    (simp add: lockKey_def)

text \<open>
  One loop never dispatches a run twice and never one of the past: under a clock that does not go
  back, the run times it dispatches increase strictly and lie after its start; with the policy
  \<^verbatim>\<open>skip\<close> each is a scheduled time that was met within the grace window.
\<close>

lemma task_loop_runs:
  assumes "clock_ok E t since rs"
  shows "sorted_wrt (<) (runTaskLoop E t rs) \<and> (\<forall>d \<in> set (runTaskLoop E t rs). since < d
    \<and> (t_MisfirePolicy t = ''skip'' \<longrightarrow>
        (\<exists>r \<in> set rs. nextRun E t (lr_now r) = Inr d \<and> lr_actual r \<le> d + misfireGraceWindow)))"
  using loop_times [OF assms] skip_on_time by blast

text \<open>
  A scheduler started before any task is registered reports an error but stays marked as running:
  every later start is refused as a conflict, also after tasks have been registered, until it is stopped.
\<close>

lemma start_without_tasks_sticks:
  assumes "Start True (Some r) = (Inl e, Some r1)" and "\<not> rt_running r"
    and "scheduler_Register E now t r1 = (None, r2)"
  shows "err_is e (SchedulerErr ErrValidation) \<and> rt_tasks r2 \<noteq> Map.empty
    \<and> Start True (Some r2) = (Inl (schedulerError ErrConflict ''scheduler already running''), Some r2)
    \<and> (\<exists>ts r3. Start True (snd (snd (Stop None (Some r2)))) = (Inr ts, Some r3))"
proof -
  have r1: "r1 = r\<lparr>rt_cancel := True, rt_running := True\<rparr>" "err_is e (SchedulerErr ErrValidation)"
    using assms(1,2) by (auto simp: Start_def Let_def split: if_splits)
  obtain t' where "r2 = r1\<lparr>rt_tasks := (rt_tasks r1)(t_Name t' \<mapsto> t')\<rparr>"
    using assms(3) by (auto simp: scheduler_Register_def task_Validate_def
        split: prod.splits option.splits if_splits sum.splits)
  with r1 show ?thesis by (auto simp: Start_def Stop_def Let_def)
qed

text \<open>Registration keeps the spelling of a task's name, \<^verbatim>\<open>Trigger\<close> looks up the trimmed one.\<close>

lemma trigger_untrimmed:
  assumes "rt_tasks r = [n \<mapsto> t]" and "trim_space n \<noteq> n" and "\<not> blank name"
  shows "Trigger env T i now b a True name (Some r) w =
    (Some (schedulerError ErrNotFound (''task '' @ quoted (trim_space name) @ '' is not registered'')), [], w)"
proof -
  have "trim_space name \<noteq> n" using assms(2) trim_space_idem by metis
  with assms show ?thesis by (simp add: Trigger_def)
qed

text \<open>A lock released with the dispatch does not keep a slower instance from repeating the run.\<close>

definition two_dispatches :: "(memory \<times> job list)" where
  "two_dispatches =
     (let dispatch = (\<lambda>t tok w. snd (snd (dispatchTask (report_instance t tok) report_config report_codec
            tok 0 [] [] report_task (62135596807 * second) w)))
      in dispatch 300 ''b'' (dispatch 200 ''a'' (empty_memory, [])))"

lemma dispatch_repeats:
  "map (\<lambda>j. (j_ID j, j_IdempotencyKey j)) (snd two_dispatches) =
    [(''a'', ''report:7''), (''b'', ''report:7'')]"
  by code_simp

end
