(* ===== verification/Stores.thy ===== *)
theory Stores
  imports Redis
begin

text \<open>
  \<^verbatim>\<open>pkg/session\<close> and \<^verbatim>\<open>pkg/cache\<close>: the stores of entries with a time to live, in memory and over
  Redis.  What they promise is the abstract store of this theory, a map from keys to
  values with deadlines; the locales \<open>expiring_store\<close> and \<open>touch_store\<close> state that the operations of
  a store simulate it, and prove once that any sequence of calls gives the results of the abstract
  store.  Clock readings are in the unit of the store: nanoseconds in memory, milliseconds on a
  server.  The JSON encoding of session data is a parameter.
\<close>

section \<open>The abstract store\<close>

type_synonym 'd entries = "string \<rightharpoonup> 'd \<times> int option"

definition lives :: "int \<Rightarrow> int option \<Rightarrow> bool" where
  "lives t d \<longleftrightarrow> (case d of None \<Rightarrow> True | Some e \<Rightarrow> t < e)"

text \<open>The entries that have not expired.\<close>

definition alive :: "int \<Rightarrow> 'd entries \<Rightarrow> 'd entries" where
  "alive t m k = (case m k of None \<Rightarrow> None | Some (d, e) \<Rightarrow> (if lives t e then Some (d, e) else None))"

definition spec_load :: "err \<Rightarrow> int \<Rightarrow> string \<Rightarrow> 'd entries \<Rightarrow> 'd result" where
  "spec_load miss t k m = (case alive t m k of None \<Rightarrow> Inl miss | Some (d, _) \<Rightarrow> Inr d)"

definition spec_save :: "(duration \<Rightarrow> int option) \<Rightarrow> int \<Rightarrow> string \<Rightarrow> 'd \<Rightarrow> duration \<Rightarrow> 'd entries \<Rightarrow> 'd entries" where
  "spec_save span t k d ttl m = m(k \<mapsto> (d, map_option (\<lambda>n. t + n) (span ttl)))"

definition spec_touch :: "(duration \<Rightarrow> int) \<Rightarrow> int \<Rightarrow> string \<Rightarrow> duration \<Rightarrow> 'd entries \<Rightarrow> 'd entries" where
  "spec_touch tspan t k ttl m =
     (case alive t m k of None \<Rightarrow> m | Some (d, _) \<Rightarrow> m(k \<mapsto> (d, Some (t + tspan ttl))))"

text \<open>Sequences of calls, each at a clock reading, and their results.\<close>

datatype 'd store_call =
  LoadAt int string
| SaveAt int string 'd duration
| DeleteAt int string
| TouchAt int string duration

datatype 'd store_reply = Loaded "'d result" | Done "err option"

fun at :: "'d store_call \<Rightarrow> int" where
  "at (LoadAt t _) = t" | "at (SaveAt t _ _ _) = t" | "at (DeleteAt t _) = t" | "at (TouchAt t _ _) = t"

fun spec_calls ::
  "err \<Rightarrow> (duration \<Rightarrow> int option) \<Rightarrow> (duration \<Rightarrow> int) \<Rightarrow> 'd store_call list \<Rightarrow> 'd entries \<Rightarrow> 'd store_reply list" where
  "spec_calls miss span tspan [] m = []"
| "spec_calls miss span tspan (c # cs) m =
     (case c of
        LoadAt t k \<Rightarrow> Loaded (spec_load miss t k m) # spec_calls miss span tspan cs m
      | SaveAt t k d ttl \<Rightarrow> Done None # spec_calls miss span tspan cs (spec_save span t k d ttl m)
      | DeleteAt t k \<Rightarrow> Done None # spec_calls miss span tspan cs (m(k := None))
      | TouchAt t k ttl \<Rightarrow> Done (if alive t m k = None then Some miss else None)
          # spec_calls miss span tspan cs (spec_touch tspan t k ttl m))"

type_synonym ('d, 's) load_op = "int \<Rightarrow> string \<Rightarrow> 's \<Rightarrow> 'd result \<times> 's"
type_synonym ('d, 's) save_op = "int \<Rightarrow> string \<Rightarrow> 'd \<Rightarrow> duration \<Rightarrow> 's \<Rightarrow> err option \<times> 's"
type_synonym 's delete_op = "int \<Rightarrow> string \<Rightarrow> 's \<Rightarrow> err option \<times> 's"
type_synonym 's touch_op = "int \<Rightarrow> string \<Rightarrow> duration \<Rightarrow> 's \<Rightarrow> err option \<times> 's"

fun store_calls ::
  "('d, 's) load_op \<Rightarrow> ('d, 's) save_op \<Rightarrow> 's delete_op \<Rightarrow> 's touch_op \<Rightarrow> 'd store_call list \<Rightarrow> 's
    \<Rightarrow> 'd store_reply list" where
  "store_calls load save delete touch [] s = []"
| "store_calls load save delete touch (c # cs) s =
     (case c of
        LoadAt t k \<Rightarrow> (case load t k s of (r, s') \<Rightarrow> Loaded r # store_calls load save delete touch cs s')
      | SaveAt t k d ttl \<Rightarrow> (case save t k d ttl s of (r, s') \<Rightarrow> Done r # store_calls load save delete touch cs s')
      | DeleteAt t k \<Rightarrow> (case delete t k s of (r, s') \<Rightarrow> Done r # store_calls load save delete touch cs s')
      | TouchAt t k ttl \<Rightarrow> (case touch t k ttl s of (r, s') \<Rightarrow> Done r # store_calls load save delete touch cs s'))"

fun storable_call :: "('d \<Rightarrow> duration \<Rightarrow> bool) \<Rightarrow> 'd store_call \<Rightarrow> bool" where
  "storable_call P (SaveAt t k d ttl) = P d ttl"
| "storable_call P _ = True"

fun is_touch :: "'d store_call \<Rightarrow> bool" where
  "is_touch (TouchAt _ _ _) = True"
| "is_touch _ = False"

fun ordered_from :: "int \<Rightarrow> 'd store_call list \<Rightarrow> bool" where
  "ordered_from t [] = True"
| "ordered_from t (c # cs) = (t \<le> at c \<and> ordered_from (at c) cs)"

lemma storable_call_True [simp]: "storable_call (\<lambda>_ _. True) c"
  by (cases c) simp_all

section \<open>Lemmas on live entries\<close>

lemma alive_upd [simp]: "alive t (m(k \<mapsto> (d, e))) = (alive t m)(k := if lives t e then Some (d, e) else None)"
  by (auto simp: alive_def fun_eq_iff)

lemma alive_del [simp]: "alive t (m(k := None)) = (alive t m)(k := None)"
  by (auto simp: alive_def fun_eq_iff)

lemma lives_mono: "t \<le> u \<Longrightarrow> lives u e \<Longrightarrow> lives t e"
  by (auto simp: lives_def split: option.splits)

lemma alive_later: "t \<le> u \<Longrightarrow> alive u (alive t m) = alive u m"
  by (auto simp: alive_def fun_eq_iff lives_mono split: option.splits)

lemma alive_cong: "alive t m = alive t n \<Longrightarrow> t \<le> u \<Longrightarrow> alive u m = alive u n"
  by (metis alive_later)

lemma alive_save: "alive t m = alive t n \<Longrightarrow> alive t (spec_save span t k d ttl m) = alive t (spec_save span t k d ttl n)"
  by (simp add: spec_save_def)

section \<open>The contract of a store\<close>

text \<open>
  \<open>view s\<close> are the entries of a state, \<open>span\<close> the life of an entry saved with a time to live (\<open>None\<close>:
  it does not expire), \<open>storable\<close> the values and times to live it can keep, \<open>miss\<close> the error for an absent key, \<open>ok\<close> the
  invariant of its states: what is stored can be decoded.
\<close>

text \<open>
  One call on a store and on the abstract store: the same reply, and states that agree on what lives.
\<close>

definition one_step ::
  "('d, 's) load_op \<Rightarrow> ('d, 's) save_op \<Rightarrow> 's delete_op \<Rightarrow> 's touch_op \<Rightarrow> err \<Rightarrow> (duration \<Rightarrow> int option)
    \<Rightarrow> (duration \<Rightarrow> int) \<Rightarrow> ('s \<Rightarrow> bool) \<Rightarrow> ('s \<Rightarrow> 'd entries) \<Rightarrow> 'd store_call \<Rightarrow> 's \<Rightarrow> 'd entries \<Rightarrow> bool" where
  "one_step load save delete touch miss span tspan ok view c s m \<longleftrightarrow>
     (\<exists>r s' m'. (\<forall>cs. store_calls load save delete touch (c # cs) s = r # store_calls load save delete touch cs s')
        \<and> (\<forall>cs. spec_calls miss span tspan (c # cs) m = r # spec_calls miss span tspan cs m')
        \<and> ok s' \<and> alive (at c) (view s') = alive (at c) m')"

lemma calls_simulate:
  assumes step: "\<And>c s m. P c \<Longrightarrow> ok s \<Longrightarrow> alive (at c) (view s) = alive (at c) m \<Longrightarrow>
      one_step load save delete touch miss span tspan ok view c s m"
    and "ordered_from t cs" and "\<forall>c \<in> set cs. P c" and "ok s"
    and "alive t (view s) = alive t m"
  shows "store_calls load save delete touch cs s = spec_calls miss span tspan cs m"
  using assms(2-5)
proof (induction cs arbitrary: t s m)
  case (Cons c cs)
  have a: "alive (at c) (view s) = alive (at c) m" using alive_cong [OF Cons.prems(4)] Cons.prems(1) by simp
  have "P c" using Cons.prems(2) by simp
  from step [OF this Cons.prems(3) a] obtain r s' m' where
    "\<forall>cs. store_calls load save delete touch (c # cs) s = r # store_calls load save delete touch cs s'"
    "\<forall>cs. spec_calls miss span tspan (c # cs) m = r # spec_calls miss span tspan cs m'"
    "ok s'" "alive (at c) (view s') = alive (at c) m'"
    unfolding one_step_def by blast
  then show ?case using Cons.IH [of "at c" s' m'] Cons.prems(1,2) by simp
qed simp

locale expiring_store =
  fixes load :: "('d, 's) load_op" and save :: "('d, 's) save_op" and delete :: "'s delete_op"
    and view :: "'s \<Rightarrow> 'd entries" and span :: "duration \<Rightarrow> int option"
    and storable :: "'d \<Rightarrow> duration \<Rightarrow> bool" and miss :: err and ok :: "'s \<Rightarrow> bool"
  assumes load_spec: "ok s \<Longrightarrow> load t k s = (r, s') \<Longrightarrow>
      r = spec_load miss t k (view s) \<and> alive t (view s') = alive t (view s)
      \<and> ok s'"
    and save_spec: "ok s \<Longrightarrow> storable d ttl \<Longrightarrow> save t k d ttl s = (x, s') \<Longrightarrow>
      x = None \<and> view s' = spec_save span t k d ttl (view s) \<and> ok s'"
    and delete_spec: "ok s \<Longrightarrow> delete t k s = (x, s') \<Longrightarrow> x = None \<and> view s' = (view s)(k := None) \<and> ok s'"

text \<open>A store whose entries can be prolonged.\<close>

locale touch_store = expiring_store load save delete view span storable miss ok
  for load :: "('d, 's) load_op" and save :: "('d, 's) save_op" and delete :: "'s delete_op"
    and view :: "'s \<Rightarrow> 'd entries" and span :: "duration \<Rightarrow> int option"
    and storable :: "'d \<Rightarrow> duration \<Rightarrow> bool" and miss :: err and ok :: "'s \<Rightarrow> bool" +
  fixes touch :: "'s touch_op" and tspan :: "duration \<Rightarrow> int"
  assumes touch_spec: "ok s \<Longrightarrow> touch t k ttl s = (r, s') \<Longrightarrow>
      r = (if alive t (view s) k = None then Some miss else None)
      \<and> alive t (view s') = alive t (spec_touch tspan t k ttl (view s))
      \<and> ok s'"

context expiring_store
begin

text \<open>What a client may rely on, call by call.\<close>

lemma load_after_save:
  assumes "ok s" "storable d ttl" "save t k d ttl s = (x, s1)" "load u k s1 = (r, s2)"
    and "lives u (map_option (\<lambda>n. t + n) (span ttl))"
  shows "r = Inr d"
  using save_spec [OF assms(1-3)] load_spec [OF _ assms(4)] assms(5)
  by (simp add: spec_load_def spec_save_def)

lemma load_after_delete:
  assumes "ok s" "delete t k s = (x, s1)" "load u k s1 = (r, s2)"
  shows "r = Inl miss"
  using delete_spec [OF assms(1,2)] load_spec [OF _ assms(3)]
  by (simp add: spec_load_def)

lemma step_refines:
  assumes "storable_call storable c" and "\<not> is_touch c" and "ok s"
    and "alive (at c) (view s) = alive (at c) m"
  shows "one_step load save delete touch miss span tspan ok view c s m"
proof (cases c)
  case (LoadAt v k)
  obtain r s' where r: "load v k s = (r, s')" by (rule prod.exhaust)
  with load_spec [OF assms(3) r] assms(4) LoadAt show ?thesis
    unfolding one_step_def by (intro exI [of _ "Loaded r"] exI [of _ s'] exI [of _ m]) (simp add: spec_load_def)
next
  case (SaveAt v k d ttl)
  obtain r s' where r: "save v k d ttl s = (r, s')" by (rule prod.exhaust)
  have d: "storable d ttl" using assms(1) SaveAt by simp
  have "alive v (spec_save span v k d ttl (view s)) = alive v (spec_save span v k d ttl m)"
    by (rule alive_save) (use assms(4) SaveAt in simp)
  with save_spec [OF assms(3) d r] SaveAt r show ?thesis
    unfolding one_step_def
    by (intro exI [of _ "Done None"] exI [of _ s'] exI [of _ "spec_save span v k d ttl m"]) simp
next
  case (DeleteAt v k)
  obtain r s' where r: "delete v k s = (r, s')" by (rule prod.exhaust)
  from delete_spec [OF assms(3) r] assms(4) DeleteAt r show ?thesis
    unfolding one_step_def by (intro exI [of _ "Done None"] exI [of _ s'] exI [of _ "m(k := None)"]) simp
qed (use assms(2) in simp)

lemma trace_refines:
  assumes "ordered_from t cs" and "\<forall>c \<in> set cs. storable_call storable c \<and> \<not> is_touch c"
    and "ok s" and "alive t (view s) = alive t m"
  shows "store_calls load save delete touch cs s = spec_calls miss span tspan cs m"
proof (rule calls_simulate [where view = view and ok = ok, OF _ assms(1) _ assms(3,4)])
  show "\<forall>c \<in> set cs. storable_call storable c \<and> \<not> is_touch c" by (rule assms(2))
qed (simp add: step_refines)

end

context touch_store
begin

lemma touch_refines:
  assumes "storable_call storable c" and "ok s"
    and "alive (at c) (view s) = alive (at c) m"
  shows "one_step load save delete touch miss span tspan ok view c s m"
proof (cases "is_touch c")
  case True
  then obtain v k ttl where c: "c = TouchAt v k ttl" by (cases c) auto
  obtain r s' where r: "touch v k ttl s = (r, s')" by (rule prod.exhaust)
  have "alive v (spec_touch tspan v k ttl (view s)) = alive v (spec_touch tspan v k ttl m)"
    using assms(3) c by (auto simp: spec_touch_def split: option.splits)
  with touch_spec [OF assms(2) r] assms(3) c r show ?thesis
    unfolding one_step_def by (intro exI [of _ "Done r"] exI [of _ s'] exI [of _ "spec_touch tspan v k ttl m"]) simp
qed (use step_refines assms in simp)

lemma touch_trace_refines:
  assumes "ordered_from t cs" and "\<forall>c \<in> set cs. storable_call storable c"
    and "ok s" and "alive t (view s) = alive t m"
  shows "store_calls load save delete touch cs s = spec_calls miss span tspan cs m"
proof (rule calls_simulate [where view = view and ok = ok, OF _ assms(1) _ assms(3,4)])
  show "\<forall>c \<in> set cs. storable_call storable c" by (rule assms(2))
qed (simp add: touch_refines)

end

section \<open>Sessions in memory\<close>

record 'd memory_entry =
  me_data :: 'd
  me_expiresAt :: gotime

type_synonym 'd sessions = "string \<rightharpoonup> 'd memory_entry"

text \<open>
  \<^verbatim>\<open>Load\<close> reads the entry under the read lock and removes an expired one under the write lock: two
  steps, \<open>memory_read\<close> and \<open>memory_evict\<close>, between which another call may run.
\<close>

datatype 'd memory_found = Absent | Expired | Present 'd

definition memory_read :: "gotime \<Rightarrow> string \<Rightarrow> 'd sessions \<Rightarrow> 'd memory_found" where
  "memory_read now sid s =
     (case s sid of
        None \<Rightarrow> Absent
      | Some entry \<Rightarrow> (if me_expiresAt entry < now then Expired else Present (me_data entry)))"

definition memory_evict :: "string \<Rightarrow> 'd sessions \<Rightarrow> 'd sessions" where
  "memory_evict sid s = s(sid := None)"

definition memory_Load :: "err \<Rightarrow> ('d, 'd sessions) load_op" where
  "memory_Load miss now sid s =
     (case memory_read now sid s of
        Absent \<Rightarrow> (Inl miss, s)
      | Expired \<Rightarrow> (Inl miss, memory_evict sid s)
      | Present d \<Rightarrow> (Inr d, s))"

definition session_memory_Load :: "('d, 'd sessions) load_op" where
  "session_memory_Load = memory_Load (ESentinel SessionNotFound)"

definition session_memory_Save :: "('d, 'd sessions) save_op" where
  "session_memory_Save now sid data ttl s =
     (None, s(sid \<mapsto> \<lparr>me_data = data, me_expiresAt = now + ttl\<rparr>))"

definition session_memory_Delete :: "'d sessions delete_op" where
  "session_memory_Delete now sid s = (None, s(sid := None))"

definition session_memory_Touch :: "'d sessions touch_op" where
  "session_memory_Touch now sid ttl s =
     (case s sid of
        None \<Rightarrow> (Some (ESentinel SessionNotFound), s)
      | Some entry \<Rightarrow> (None, s(sid \<mapsto> entry\<lparr>me_expiresAt := now + ttl\<rparr>)))"

section \<open>The cache in memory\<close>

definition cache_memory_Get :: "(string, string sessions) load_op" where
  "cache_memory_Get = memory_Load (ESentinel CacheMiss)"

definition cache_memory_Set :: "(string, string sessions) save_op" where
  "cache_memory_Set now key v ttl0 s =
     (let ttl = (if ttl0 \<le> 0 then second else ttl0)
      in (None, s(key \<mapsto> \<lparr>me_data = v, me_expiresAt = now + ttl\<rparr>)))"

definition cache_memory_Delete :: "string sessions delete_op" where
  "cache_memory_Delete now key s = (None, s(key := None))"

section \<open>Over Redis\<close>

text \<open>The JSON codec of session data, and the identity for the byte slices of the cache.\<close>

record 'd codec =
  c_Marshal :: "'d \<Rightarrow> string result"
  c_Unmarshal :: "string \<Rightarrow> 'd result"

definition store_prefix :: "string \<Rightarrow> string \<Rightarrow> string" where
  "store_prefix dflt p = (let q = trim_space p in if q = [] then dflt else q)"

definition store_key :: "string \<Rightarrow> string \<Rightarrow> string" where
  "store_key prefix sid = prefix @ '':'' @ sid"

text \<open>
  The client's \<^verbatim>\<open>Set\<close>: a positive expiration is sent in milliseconds, 0 stands for none and -1 is
  the constant \<^verbatim>\<open>KeepTTL\<close>.  Its \<^verbatim>\<open>Expire\<close> sends whole seconds, at least one for a positive duration.
\<close>

definition client_Set :: "'r redis_ops \<Rightarrow> int \<Rightarrow> string \<Rightarrow> string \<Rightarrow> duration \<Rightarrow> 'r \<Rightarrow> 'r" where
  "client_Set R t k raw ttl s =
     (if 0 < ttl then r_SETPX R t k raw (set_ms ttl) s
      else if ttl = -1 then r_SETKEEPTTL R t k raw s
      else r_SET R k raw s)"

definition expire_ms :: "duration \<Rightarrow> int" where
  "expire_ms ttl = 1000 * (if 0 < ttl \<and> ttl < second then 1 else go_div ttl second)"

text \<open>\<open>net\<close> is the error of a call that does not reach the server.\<close>

definition session_redis_Load ::
  "'r redis_ops \<Rightarrow> 'd codec \<Rightarrow> string \<Rightarrow> err option \<Rightarrow> ('d, 'r) load_op" where
  "session_redis_Load R C prefix net t sid s =
     (case net of
        Some e \<Rightarrow> (Inl e, s)
      | None \<Rightarrow>
          (case r_GET R t (store_key prefix sid) s of
             None \<Rightarrow> (Inl (ESentinel SessionNotFound), s)
           | Some raw \<Rightarrow>
               (case c_Unmarshal C raw of
                  Inl e \<Rightarrow> (Inl (EWrap ''decode session payload: '' e []), s)
                | Inr payload \<Rightarrow> (Inr payload, s))))"

definition session_redis_Save ::
  "'r redis_ops \<Rightarrow> 'd codec \<Rightarrow> string \<Rightarrow> err option \<Rightarrow> ('d, 'r) save_op" where
  "session_redis_Save R C prefix net t sid data ttl s =
     (case c_Marshal C data of
        Inl e \<Rightarrow> (Some (EWrap ''encode session payload: '' e []), s)
      | Inr raw \<Rightarrow>
          (case net of
             Some e \<Rightarrow> (Some e, s)
           | None \<Rightarrow> (None, client_Set R t (store_key prefix sid) raw ttl s)))"

definition session_redis_Delete :: "'r redis_ops \<Rightarrow> string \<Rightarrow> err option \<Rightarrow> 'r delete_op" where
  "session_redis_Delete R prefix net t sid s =
     (case net of Some e \<Rightarrow> (Some e, s) | None \<Rightarrow> (None, snd (r_DEL R t (store_key prefix sid) s)))"

definition session_redis_Touch :: "'r redis_ops \<Rightarrow> string \<Rightarrow> err option \<Rightarrow> 'r touch_op" where
  "session_redis_Touch R prefix net t sid ttl s =
     (case net of
        Some e \<Rightarrow> (Some e, s)
      | None \<Rightarrow>
          (let (done, s') = r_PEXPIRE R t (store_key prefix sid) (expire_ms ttl) s
           in if \<not> done then (Some (ESentinel SessionNotFound), s') else (None, s')))"

definition cache_redis_Get :: "'r redis_ops \<Rightarrow> string \<Rightarrow> err option \<Rightarrow> (string, 'r) load_op" where
  "cache_redis_Get R prefix net t key s =
     (case net of
        Some e \<Rightarrow> (Inl e, s)
      | None \<Rightarrow>
          (case r_GET R t (store_key prefix key) s of
             None \<Rightarrow> (Inl (ESentinel CacheMiss), s)
           | Some raw \<Rightarrow> (Inr raw, s)))"

definition cache_redis_Set :: "'r redis_ops \<Rightarrow> string \<Rightarrow> err option \<Rightarrow> (string, 'r) save_op" where
  "cache_redis_Set R prefix net t key v ttl s =
     (case net of Some e \<Rightarrow> (Some e, s) | None \<Rightarrow> (None, client_Set R t (store_key prefix key) v ttl s))"

definition cache_redis_Delete :: "'r redis_ops \<Rightarrow> string \<Rightarrow> err option \<Rightarrow> 'r delete_op" where
  "cache_redis_Delete R prefix net t key s =
     (case net of Some e \<Rightarrow> (Some e, s) | None \<Rightarrow> (None, snd (r_DEL R t (store_key prefix key) s)))"

section \<open>The stores in memory keep the contract\<close>

text \<open>An entry is served at \<open>expiresAt\<close> itself, so it lives one nanosecond longer than its time to live.\<close>

definition memory_entries :: "'d sessions \<Rightarrow> 'd entries" where
  "memory_entries s = (\<lambda>k. map_option (\<lambda>e. (me_data e, Some (me_expiresAt e + 1))) (s k))"

lemma memory_entries_upd [simp]:
  "memory_entries (s(k \<mapsto> \<lparr>me_data = d, me_expiresAt = e\<rparr>)) = (memory_entries s)(k \<mapsto> (d, Some (e + 1)))"
  "memory_entries (s(k := None)) = (memory_entries s)(k := None)"
  by (auto simp: memory_entries_def fun_eq_iff)

lemma memory_Load_spec:
  assumes "memory_Load miss t k s = (r, s')"
  shows "r = spec_load miss t k (memory_entries s) \<and> alive t (memory_entries s') = alive t (memory_entries s)"
proof -
  have k: "alive t (memory_entries s) k = (case s k of None \<Rightarrow> None | Some e \<Rightarrow>
      if me_expiresAt e < t then None else Some (me_data e, Some (me_expiresAt e + 1)))"
    by (auto simp: alive_def memory_entries_def lives_def split: option.splits)
  show ?thesis
    using assms k
    by (auto simp: memory_Load_def memory_read_def memory_evict_def spec_load_def fun_upd_idem
        split: option.splits if_splits)
qed

interpretation sm: expiring_store session_memory_Load session_memory_Save session_memory_Delete memory_entries
  "\<lambda>ttl. Some (ttl + 1)" "\<lambda>_ _. True" "ESentinel SessionNotFound" "\<lambda>_. True"
  by unfold_locales (auto simp: session_memory_Load_def session_memory_Save_def session_memory_Delete_def
      spec_save_def add.assoc dest: memory_Load_spec)

interpretation cm: expiring_store cache_memory_Get cache_memory_Set cache_memory_Delete memory_entries
  "\<lambda>ttl. Some ((if ttl \<le> 0 then second else ttl) + 1)" "\<lambda>_ _. True" "ESentinel CacheMiss" "\<lambda>_. True"
  by unfold_locales (auto simp: cache_memory_Get_def cache_memory_Set_def cache_memory_Delete_def
      spec_save_def add.assoc dest: memory_Load_spec)

section \<open>The stores over Redis keep the contract\<close>

definition redis_span :: "duration \<Rightarrow> int option" where
  "redis_span ttl = (if 0 < ttl then Some (set_ms ttl) else None)"

definition redis_entries :: "'r redis_view \<Rightarrow> 'd codec \<Rightarrow> string \<Rightarrow> 'r \<Rightarrow> 'd entries" where
  "redis_entries V C prefix s sid =
     (case v_str V s (store_key prefix sid) of
        None \<Rightarrow> None
      | Some (raw, e) \<Rightarrow> (case c_Unmarshal C raw of Inl _ \<Rightarrow> None | Inr d \<Rightarrow> Some (d, e)))"

text \<open>Whatever is stored under the prefix was written by \<^verbatim>\<open>Save\<close>: it can be decoded.\<close>

definition decodable :: "'r redis_view \<Rightarrow> 'd codec \<Rightarrow> string \<Rightarrow> 'r \<Rightarrow> bool" where
  "decodable V C prefix s \<longleftrightarrow>
     (\<forall>sid raw e. v_str V s (store_key prefix sid) = Some (raw, e) \<longrightarrow> (\<exists>d. c_Unmarshal C raw = Inr d))"

definition encodes :: "'d codec \<Rightarrow> 'd \<Rightarrow> duration \<Rightarrow> bool" where
  "encodes C d ttl \<longleftrightarrow> (\<exists>raw. c_Marshal C d = Inr raw \<and> c_Unmarshal C raw = Inr d) \<and> ttl \<noteq> -1"

definition raw_codec :: "string codec" where
  "raw_codec = \<lparr>c_Marshal = Inr, c_Unmarshal = Inr\<rparr>"

lemma store_key_inj [simp]: "store_key p i = store_key p j \<longleftrightarrow> i = j"
  by (simp add: store_key_def)

text \<open>The commands of the stores, as seen in the entries under the prefix.\<close>

context redis_server
begin

lemma decodableE:
  assumes "decodable V C prefix s" and "v_str V s (store_key prefix sid) = Some a"
  obtains raw e d where "a = (raw, e)" and "c_Unmarshal C raw = Inr d"
proof -
  obtain raw e where a: "a = (raw, e)" by (cases a)
  with assms have "\<exists>d. c_Unmarshal C raw = Inr d" unfolding decodable_def by blast
  with a that show thesis by blast
qed

lemma entries_get:
  assumes "decodable V C prefix s"
  shows "session_redis_Load R C prefix None t sid s
    = (spec_load (ESentinel SessionNotFound) t sid (redis_entries V C prefix s), s)"
proof (cases "v_str V s (store_key prefix sid)")
  case (Some a)
  obtain raw e d where "a = (raw, e)" "c_Unmarshal C raw = Inr d"
    by (rule decodableE [OF assms Some])
  then show ?thesis
    using Some
    by (cases e) (simp_all add: session_redis_Load_def spec_load_def alive_def lives_def redis_entries_def)
qed (simp add: session_redis_Load_def spec_load_def alive_def redis_entries_def)

lemma entries_set:
  assumes "c_Unmarshal C raw = Inr d" and "ttl \<noteq> -1"
  shows "redis_entries V C prefix (client_Set R t (store_key prefix sid) raw ttl s)
      = spec_save redis_span t sid d ttl (redis_entries V C prefix s)"
    and "decodable V C prefix s \<Longrightarrow> decodable V C prefix (client_Set R t (store_key prefix sid) raw ttl s)"
  using assms
  by (auto simp: client_Set_def redis_entries_def spec_save_def redis_span_def decodable_def fun_eq_iff)

lemma entries_del:
  "redis_entries V C prefix (snd (r_DEL R t (store_key prefix sid) s)) = (redis_entries V C prefix s)(sid := None)"
  "decodable V C prefix s \<Longrightarrow> decodable V C prefix (snd (r_DEL R t (store_key prefix sid) s))"
  by (auto simp: redis_entries_def decodable_def fun_eq_iff)

lemma alive_iff_live:
  assumes "decodable V C prefix s"
  shows "alive t (redis_entries V C prefix s) sid = None \<longleftrightarrow> live t (v_str V s (store_key prefix sid)) = None"
proof (cases "v_str V s (store_key prefix sid)")
  case (Some a)
  obtain raw e d where "a = (raw, e)" "c_Unmarshal C raw = Inr d"
    by (rule decodableE [OF assms Some])
  then show ?thesis using Some by (cases e) (simp_all add: alive_def redis_entries_def lives_def)
qed (simp add: alive_def redis_entries_def)

lemma entries_expire:
  assumes "decodable V C prefix s"
  shows "redis_entries V C prefix (snd (r_PEXPIRE R t (store_key prefix sid) (expire_ms ttl) s))
      = spec_touch expire_ms t sid ttl (redis_entries V C prefix s)"
    and "decodable V C prefix (snd (r_PEXPIRE R t (store_key prefix sid) n s))"
proof -
  let ?k = "store_key prefix sid"
  show "redis_entries V C prefix (snd (r_PEXPIRE R t ?k (expire_ms ttl) s))
      = spec_touch expire_ms t sid ttl (redis_entries V C prefix s)"
  proof (cases "live t (v_str V s ?k)")
    case None
    with alive_iff_live [OF assms, of t sid] show ?thesis
      by (simp add: spec_touch_def redis_entries_def fun_eq_iff)
  next
    case (Some x)
    then obtain a where v0: "v_str V s ?k = Some a" by (cases "v_str V s ?k") auto
    obtain raw e d where a: "a = (raw, e)" and d: "c_Unmarshal C raw = Inr d"
      by (rule decodableE [OF assms v0])
    have v: "v_str V s ?k = Some (raw, e)" using v0 a by simp
    from v Some have "lives t e" by (cases e) (auto simp: lives_def split: if_splits)
    with v d Some show ?thesis by (auto simp: spec_touch_def alive_def redis_entries_def fun_eq_iff)
  qed
  show "decodable V C prefix (snd (r_PEXPIRE R t ?k n s))"
    unfolding decodable_def
  proof (intro allI impI)
    fix i raw e assume "v_str V (snd (r_PEXPIRE R t ?k n s)) (store_key prefix i) = Some (raw, e)"
    then obtain e' where "v_str V s (store_key prefix i) = Some (raw, e')"
      by (auto split: if_splits)
    with assms show "\<exists>d. c_Unmarshal C raw = Inr d" unfolding decodable_def by blast
  qed
qed

lemma redis_Touch_eq:
  assumes "decodable V C prefix s"
  shows "session_redis_Touch R prefix None t sid ttl s =
    (if alive t (redis_entries V C prefix s) sid = None then Some (ESentinel SessionNotFound) else None,
     snd (r_PEXPIRE R t (store_key prefix sid) (expire_ms ttl) s))"
  by (simp add: session_redis_Touch_def split_beta alive_iff_live [OF assms])

end

locale redis_sessions = redis_server R V
  for R :: "'r redis_ops" and V :: "'r redis_view" +
  fixes C :: "'d codec" and prefix :: string

sublocale redis_sessions \<subseteq> ses: touch_store "session_redis_Load R C prefix None" "session_redis_Save R C prefix None"
  "session_redis_Delete R prefix None" "redis_entries V C prefix" redis_span "encodes C"
  "ESentinel SessionNotFound" "decodable V C prefix" "session_redis_Touch R prefix None" expire_ms
proof
  fix s s' t sid ttl r d and x :: "err option"
  assume ok: "decodable V C prefix s"
  show "r = spec_load (ESentinel SessionNotFound) t sid (redis_entries V C prefix s) \<and>
      alive t (redis_entries V C prefix s') = alive t (redis_entries V C prefix s) \<and> decodable V C prefix s'"
    if "session_redis_Load R C prefix None t sid s = (r, s')"
    using that ok by (auto simp: entries_get [OF ok])
  show "x = None \<and> redis_entries V C prefix s' = spec_save redis_span t sid d ttl (redis_entries V C prefix s)
      \<and> decodable V C prefix s'"
    if "encodes C d ttl" "session_redis_Save R C prefix None t sid d ttl s = (x, s')"
    using that ok by (auto simp: session_redis_Save_def encodes_def entries_set)
  show "x = None \<and> redis_entries V C prefix s' = (redis_entries V C prefix s)(sid := None) \<and> decodable V C prefix s'"
    if "session_redis_Delete R prefix None t sid s = (x, s')"
    using that ok entries_del by (auto simp: session_redis_Delete_def)
  show "x = (if alive t (redis_entries V C prefix s) sid = None then Some (ESentinel SessionNotFound) else None) \<and>
      alive t (redis_entries V C prefix s') = alive t (spec_touch expire_ms t sid ttl (redis_entries V C prefix s)) \<and>
      decodable V C prefix s'"
    if "session_redis_Touch R prefix None t sid ttl s = (x, s')"
    using that by (auto simp: redis_Touch_eq [OF ok] entries_expire [OF ok])
qed

context redis_sessions
begin

lemma session_trace:
  assumes "ordered_from t cs" and "\<forall>c \<in> set cs. storable_call (encodes C) c" and "decodable V C prefix s"
  shows "store_calls (session_redis_Load R C prefix None) (session_redis_Save R C prefix None)
      (session_redis_Delete R prefix None) (session_redis_Touch R prefix None) cs s
    = spec_calls (ESentinel SessionNotFound) redis_span expire_ms cs (redis_entries V C prefix s)"
  by (rule ses.touch_trace_refines [OF assms refl])

end

text \<open>The cache over Redis is the session store with the identity as its codec, less \<^verbatim>\<open>Touch\<close>.\<close>

lemma codec_raw: "c_Unmarshal raw_codec d = Inr d"
  by (simp add: raw_codec_def)

lemma decodable_raw [simp]: "decodable V raw_codec prefix s"
  by (simp add: decodable_def raw_codec_def)

lemma encodes_raw [simp]: "encodes raw_codec d ttl \<longleftrightarrow> ttl \<noteq> -1"
  by (simp add: encodes_def raw_codec_def)

locale redis_cache = redis_server R V
  for R :: "'r redis_ops" and V :: "'r redis_view" +
  fixes prefix :: string

sublocale redis_cache \<subseteq> cac: expiring_store "cache_redis_Get R prefix None" "cache_redis_Set R prefix None"
  "cache_redis_Delete R prefix None" "redis_entries V raw_codec prefix" redis_span "encodes raw_codec"
  "ESentinel CacheMiss" "\<lambda>_. True"
proof
  fix s s' t key ttl r x d
  show "r = spec_load (ESentinel CacheMiss) t key (redis_entries V raw_codec prefix s) \<and>
      alive t (redis_entries V raw_codec prefix s') = alive t (redis_entries V raw_codec prefix s) \<and> True"
    if "cache_redis_Get R prefix None t key s = (r, s')"
    using that by (cases "v_str V s (store_key prefix key)"; cases "snd (the (v_str V s (store_key prefix key)))")
      (auto simp: cache_redis_Get_def spec_load_def alive_def lives_def redis_entries_def raw_codec_def split: if_splits)
  show "x = None \<and> redis_entries V raw_codec prefix s' = spec_save redis_span t key d ttl (redis_entries V raw_codec prefix s)
      \<and> True"
    if "encodes raw_codec d ttl" "cache_redis_Set R prefix None t key d ttl s = (x, s')"
    using that entries_set(1) [of raw_codec d d] by (auto simp: cache_redis_Set_def codec_raw)
  show "x = None \<and> redis_entries V raw_codec prefix s' = (redis_entries V raw_codec prefix s)(key := None) \<and> True"
    if "cache_redis_Delete R prefix None t key s = (x, s')"
    using that entries_del by (auto simp: cache_redis_Delete_def)
qed

context redis_cache
begin

lemma cache_trace:
  assumes "ordered_from t cs" and "\<forall>c \<in> set cs. storable_call (encodes raw_codec) c \<and> \<not> is_touch c"
  shows "store_calls (cache_redis_Get R prefix None) (cache_redis_Set R prefix None) (cache_redis_Delete R prefix None)
      touch cs s = spec_calls (ESentinel CacheMiss) redis_span tspan cs (redis_entries V raw_codec prefix s)"
  by (rule cac.trace_refines [OF assms TrueI refl])

end

text \<open>Both on the server in memory.\<close>

interpretation mses: redis_sessions memory_redis memory_view raw_codec "''session''" ..

interpretation mcac: redis_cache memory_redis memory_view "''http-cache''" ..

section \<open>What the clients may rely on\<close>

text \<open>
  C21. The Redis session store is a map of sessions with deadlines: through any sequence of \<^verbatim>\<open>Load\<close>,
  \<^verbatim>\<open>Save\<close>, \<^verbatim>\<open>Delete\<close> and \<^verbatim>\<open>Touch\<close> calls whose clock readings do not go back, from any state whose payloads
  under the prefix decode, every call returns what the abstract store returns: the data last saved
  until its deadline, which \<^verbatim>\<open>Touch\<close> moves, and \<^verbatim>\<open>ErrNotFound\<close> for what was never saved, deleted or has
  expired.  Other keys of the server play no part.
\<close>

theorem session_redis_refines:
  assumes "redis_server R V" and "decodable V C prefix s"
    and "ordered_from t cs" and "\<forall>c \<in> set cs. storable_call (encodes C) c"
  shows "store_calls (session_redis_Load R C prefix None) (session_redis_Save R C prefix None)
      (session_redis_Delete R prefix None) (session_redis_Touch R prefix None) cs s
    = spec_calls (ESentinel SessionNotFound) redis_span expire_ms cs (redis_entries V C prefix s)"
  by (rule redis_sessions.session_trace [OF redis_sessions.intro [OF assms(1)] assms(3,4,2)])

theorem session_redis_refines_witness:
  "store_calls (session_redis_Load memory_redis raw_codec ''session'' None)
      (session_redis_Save memory_redis raw_codec ''session'' None)
      (session_redis_Delete memory_redis ''session'' None) (session_redis_Touch memory_redis ''session'' None)
      [SaveAt 0 ''a'' ''x'' second, LoadAt 999 ''a'', TouchAt 999 ''a'' (2 * second + 5), LoadAt 2998 ''a'',
       LoadAt 2999 ''a'', TouchAt 3000 ''a'' second] empty_memory
    = [Done None, Loaded (Inr ''x''), Done None, Loaded (Inr ''x''), Loaded (Inl (ESentinel SessionNotFound)),
       Done (Some (ESentinel SessionNotFound))]"
proof -
  have e: "redis_entries memory_view raw_codec ''session'' empty_memory = Map.empty"
    by (auto simp: redis_entries_def memory_view_def empty_memory_def)
  show ?thesis
    by (subst session_redis_refines [OF mem.redis_server_axioms, where t = 0])
      (simp_all add: e spec_load_def spec_save_def spec_touch_def alive_def lives_def redis_span_def expire_ms_def
        set_ms_def go_div_def duration_units)
qed

text \<open>
  The in-memory session store is the same abstract store over \<^verbatim>\<open>Load\<close>, \<^verbatim>\<open>Save\<close> and \<^verbatim>\<open>Delete\<close>, each atomic: a
  session is served up to and including its expiry instant and never after, in every sequence of
  calls in the order of the clock, whatever entries the store starts with.  (\<^verbatim>\<open>Touch\<close> is excluded because
  it prolongs an expired session that no \<^verbatim>\<open>Load\<close> has removed yet: lemma \<open>memory_Touch_revives\<close>.)
\<close>

lemma session_memory_refines:
  assumes "ordered_from t cs" and "\<forall>c \<in> set cs. \<not> is_touch c"
  shows "store_calls session_memory_Load session_memory_Save session_memory_Delete session_memory_Touch cs s
    = spec_calls (ESentinel SessionNotFound) (\<lambda>ttl. Some (ttl + 1)) (\<lambda>ttl. ttl + 1) cs (memory_entries s)"
proof (rule sm.trace_refines [OF assms(1)])
  show "\<forall>c \<in> set cs. storable_call (\<lambda>_ _. True) c \<and> \<not> is_touch c"
    using assms(2) by simp
qed simp_all

text \<open>The cache stores, by the same contract.\<close>

lemma cache_memory_refines:
  assumes "ordered_from t cs" and "\<forall>c \<in> set cs. \<not> is_touch c"
  shows "store_calls cache_memory_Get cache_memory_Set cache_memory_Delete touch cs s
    = spec_calls (ESentinel CacheMiss) (\<lambda>ttl. Some ((if ttl \<le> 0 then second else ttl) + 1)) tspan cs (memory_entries s)"
proof (rule cm.trace_refines [OF assms(1)])
  show "\<forall>c \<in> set cs. storable_call (\<lambda>_ _. True) c \<and> \<not> is_touch c"
    using assms(2) by simp
qed simp_all

lemma cache_redis_refines:
  assumes "redis_server R V" and "ordered_from t cs"
    and "\<forall>c \<in> set cs. storable_call (encodes raw_codec) c \<and> \<not> is_touch c"
  shows "store_calls (cache_redis_Get R prefix None) (cache_redis_Set R prefix None) (cache_redis_Delete R prefix None)
      touch cs s
    = spec_calls (ESentinel CacheMiss) redis_span tspan cs (redis_entries V raw_codec prefix s)"
  by (rule redis_cache.cache_trace [OF redis_cache.intro [OF assms(1)] assms(2,3)])

text \<open>
  Where the stores differ.  A time to live of 0 is over at once in memory and never on Redis; \<^verbatim>\<open>Touch\<close>
  in memory revives what \<^verbatim>\<open>Load\<close> would refuse, on Redis it cuts a time to live to whole seconds.
\<close>

lemma zero_ttl_differs:
  assumes "redis_server R V" and "encodes C d 0" and "decodable V C prefix s" and "t < u"
  shows "fst (session_memory_Load u sid (snd (session_memory_Save t sid d 0 m))) = Inl (ESentinel SessionNotFound)"
    and "fst (session_redis_Load R C prefix None u sid (snd (session_redis_Save R C prefix None t sid d 0 s))) = Inr d"
proof -
  show "fst (session_memory_Load u sid (snd (session_memory_Save t sid d 0 m))) = Inl (ESentinel SessionNotFound)"
    using assms(4) by (simp add: session_memory_Load_def memory_Load_def memory_read_def session_memory_Save_def)
  obtain raw where "c_Marshal C d = Inr raw" "c_Unmarshal C raw = Inr d" using assms(2) by (auto simp: encodes_def)
  then show "fst (session_redis_Load R C prefix None u sid (snd (session_redis_Save R C prefix None t sid d 0 s))) = Inr d"
    using redis_server.get [OF assms(1)] redis_server.set_ [OF assms(1)]
    by (simp add: session_redis_Load_def session_redis_Save_def client_Set_def)
qed

lemma memory_Touch_revives:
  assumes "session_memory_Save t sid d ttl m = (x, s1)" and "t + ttl < u" and "session_memory_Touch u sid n s1 = (y, s2)"
    and "0 \<le> n"
  shows "y = None \<and> fst (session_memory_Load u sid s2) = Inr d"
  using assms by (auto simp: session_memory_Save_def session_memory_Touch_def session_memory_Load_def memory_Load_def
      memory_read_def)

text \<open>
  \<^verbatim>\<open>Load\<close> decides under the read lock and evicts under the write lock without looking again: a session
  saved in between is removed though its \<^verbatim>\<open>Save\<close> has succeeded and its time has not passed.
\<close>

lemma memory_Load_race:
  assumes "memory_read now sid s = Expired" and "session_memory_Save now sid d ttl s = (x, s1)"
  shows "x = None \<and> fst (session_memory_Load now sid (memory_evict sid s1)) = Inl (ESentinel SessionNotFound)"
  using assms by (simp add: session_memory_Save_def memory_evict_def session_memory_Load_def memory_Load_def
      memory_read_def)

end
