(* ===== verification/HttpSession.thy ===== *)
theory HttpSession
  imports Stores
begin

text \<open>
  \<^verbatim>\<open>pkg/http/session\<close>: the middleware that binds a session of a store to each request, the operations a
  handler has on it, and the OAuth token helpers.  A request is a function of the cookie it carries
  and of the store; a handler is a function of the session it is given to the operations it calls.
  The results of the random source, the clock of the store and the clock of the process are
  arguments.  The locale \<open>session_backend\<close> is what the middleware needs of a store.
\<close>

section \<open>Session identifiers\<close>

text \<open>\<^verbatim>\<open>base64.RawURLEncoding\<close>: six bits per character, no padding.\<close>

definition b64_alphabet :: string where
  "b64_alphabet = ''ABCDEFGHIJKLMNOPQRSTUVWXYZabcdefghijklmnopqrstuvwxyz0123456789-_''"

definition b64_char :: "nat \<Rightarrow> char" where
  "b64_char n = b64_alphabet ! (n mod 64)"

fun b64_encode :: "string \<Rightarrow> string" where
  "b64_encode [] = []"
| "b64_encode [a] = [b64_char (byte a div 4), b64_char (byte a mod 4 * 16)]"
| "b64_encode [a, b] =
     [b64_char (byte a div 4), b64_char (byte a mod 4 * 16 + byte b div 16), b64_char (byte b mod 16 * 4)]"
| "b64_encode (a # b # c # cs) =
     [b64_char (byte a div 4), b64_char (byte a mod 4 * 16 + byte b div 16),
      b64_char (byte b mod 16 * 4 + byte c div 64), b64_char (byte c mod 64)] @ b64_encode cs"

text \<open>\<open>rand n\<close> is the result of the n-th call of \<^verbatim>\<open>rand.Read\<close> on the 32-byte buffer.\<close>

definition generateSessionID :: "(nat \<Rightarrow> string result) \<Rightarrow> nat \<Rightarrow> string result" where
  "generateSessionID rand n = (case rand n of Inl e \<Rightarrow> Inl e | Inr buf \<Rightarrow> Inr (b64_encode buf))"

section \<open>Configuration\<close>

record session_config =
  sc_Enabled :: bool
  sc_CookieName :: string
  sc_CookiePath :: string
  sc_CookieDomain :: string
  sc_CookieSecure :: bool
  sc_CookieHTTPOnly :: bool
  sc_CookieSameSite :: string
  sc_TTL :: duration
  sc_IdleTimeout :: duration
  sc_AutoCreate :: bool

definition session_DefaultConfig :: session_config where
  "session_DefaultConfig =
     \<lparr>sc_Enabled = False, sc_CookieName = ''sid'', sc_CookiePath = ''/'', sc_CookieDomain = [],
      sc_CookieSecure = True, sc_CookieHTTPOnly = True, sc_CookieSameSite = ''lax'',
      sc_TTL = 12 * hour, sc_IdleTimeout = 30 * minute, sc_AutoCreate = True\<rparr>"

definition normalizeConfig :: "session_config \<Rightarrow> session_config" where
  "normalizeConfig cfg =
     (let dflt = session_DefaultConfig in
      cfg\<lparr>sc_CookieName := (if blank (sc_CookieName cfg) then sc_CookieName dflt else sc_CookieName cfg),
          sc_CookiePath := (if blank (sc_CookiePath cfg) then sc_CookiePath dflt else sc_CookiePath cfg),
          sc_CookieSameSite := (if blank (sc_CookieSameSite cfg) then sc_CookieSameSite dflt else sc_CookieSameSite cfg),
          sc_TTL := pos_or (sc_TTL cfg) (sc_TTL dflt),
          sc_IdleTimeout := pos_or (sc_IdleTimeout cfg) (sc_IdleTimeout dflt)\<rparr>)"

section \<open>Cookies and responses\<close>

datatype same_site = SameSiteLaxMode | SameSiteStrictMode | SameSiteNoneMode

definition parseSameSite :: "string \<Rightarrow> same_site" where
  "parseSameSite v =
     (let w = to_lower (trim_space v)
      in if w = ''strict'' then SameSiteStrictMode else if w = ''none'' then SameSiteNoneMode else SameSiteLaxMode)"

record cookie =
  ck_Name :: string
  ck_Value :: string
  ck_Path :: string
  ck_Domain :: string
  ck_Secure :: bool
  ck_HttpOnly :: bool
  ck_SameSite :: same_site
  ck_MaxAge :: int
  ck_Expires :: gotime

text \<open>
  A response: whether its header has been sent, and the \<^verbatim>\<open>Set-Cookie\<close> lines sent with it.  A cookie set
  after the header has been sent does not reach the client.
\<close>

record response =
  rp_written :: bool
  rp_cookies :: "cookie list"

definition SetCookie :: "cookie \<Rightarrow> response \<Rightarrow> response" where
  "SetCookie ck r = (if rp_written r then r else r\<lparr>rp_cookies := rp_cookies r @ [ck]\<rparr>)"

text \<open>\<open>unix_epoch\<close> is \<^verbatim>\<open>time.Unix(0, 0)\<close> in nanoseconds since Go's zero time.\<close>

definition unix_epoch :: gotime where
  "unix_epoch = 62135596800 * second"

definition writeSessionCookie :: "session_config \<Rightarrow> gotime \<Rightarrow> string \<Rightarrow> response \<Rightarrow> response" where
  "writeSessionCookie cfg now sid =
     SetCookie \<lparr>ck_Name = sc_CookieName cfg, ck_Value = sid, ck_Path = sc_CookiePath cfg,
       ck_Domain = sc_CookieDomain cfg, ck_Secure = sc_CookieSecure cfg, ck_HttpOnly = sc_CookieHTTPOnly cfg,
       ck_SameSite = parseSameSite (sc_CookieSameSite cfg), ck_MaxAge = go_div (sc_TTL cfg) second,
       ck_Expires = now + sc_TTL cfg\<rparr>"

definition clearSessionCookie :: "session_config \<Rightarrow> response \<Rightarrow> response" where
  "clearSessionCookie cfg =
     SetCookie \<lparr>ck_Name = sc_CookieName cfg, ck_Value = [], ck_Path = sc_CookiePath cfg,
       ck_Domain = sc_CookieDomain cfg, ck_Secure = sc_CookieSecure cfg, ck_HttpOnly = sc_CookieHTTPOnly cfg,
       ck_SameSite = parseSameSite (sc_CookieSameSite cfg), ck_MaxAge = -1, ck_Expires = unix_epoch\<rparr>"

section \<open>The session of a request\<close>

record session =
  se_id :: string
  se_data :: headers
  se_dirty :: bool
  se_destroyed :: bool
  se_renewed :: bool
  se_createErr :: "err option"

text \<open>What a request changes: the session, the response, and how many random buffers it has drawn.\<close>

record request =
  rq_session :: session
  rq_response :: response
  rq_drawn :: nat

text \<open>The points of a request at which a clock is read.\<close>

datatype phase = AtLoad | AtTouch | AtOpen | AtHandler | AtSave | AtDelete | AtCommit

definition ensureID ::
  "session_config \<Rightarrow> (phase \<Rightarrow> gotime) \<Rightarrow> (nat \<Rightarrow> string result) \<Rightarrow> request \<Rightarrow> request" where
  "ensureID cfg now rand q =
     (let s = rq_session q in
      if se_id s \<noteq> [] \<or> se_createErr s \<noteq> None then q
      else case generateSessionID rand (rq_drawn q) of
        Inl e \<Rightarrow> q\<lparr>rq_session := s\<lparr>se_createErr := Some e\<rparr>, rq_drawn := Suc (rq_drawn q)\<rparr>
      | Inr newID \<Rightarrow>
          q\<lparr>rq_session := s\<lparr>se_id := newID\<rparr>, rq_drawn := Suc (rq_drawn q),
            rq_response := (if newID = [] \<or> rp_written (rq_response q) then rq_response q
                            else writeSessionCookie cfg (now AtHandler) newID (rq_response q))\<rparr>)"

definition session_Set ::
  "session_config \<Rightarrow> (phase \<Rightarrow> gotime) \<Rightarrow> (nat \<Rightarrow> string result) \<Rightarrow> string \<Rightarrow> string \<Rightarrow> request \<Rightarrow> request" where
  "session_Set cfg now rand key v q =
     (if blank key then q
      else let q' = ensureID cfg now rand q; s = rq_session q'
           in if se_createErr s \<noteq> None then q'
              else q'\<lparr>rq_session := s\<lparr>se_data := (se_data s)(key \<mapsto> v), se_dirty := True\<rparr>\<rparr>)"

definition session_Delete :: "string \<Rightarrow> request \<Rightarrow> request" where
  "session_Delete key q =
     (let s = rq_session q in
      case se_data s key of
        None \<Rightarrow> q
      | Some _ \<Rightarrow> q\<lparr>rq_session := s\<lparr>se_data := (se_data s)(key := None), se_dirty := True\<rparr>\<rparr>)"

definition session_Renew ::
  "session_config \<Rightarrow> (phase \<Rightarrow> gotime) \<Rightarrow> (nat \<Rightarrow> string result) \<Rightarrow> request \<Rightarrow> request" where
  "session_Renew cfg now rand q =
     (let q' = ensureID cfg now rand q; s = rq_session q'
      in if se_createErr s \<noteq> None then q'
         else q'\<lparr>rq_session := s\<lparr>se_renewed := True, se_dirty := True\<rparr>\<rparr>)"

definition session_Destroy :: "request \<Rightarrow> request" where
  "session_Destroy q =
     q\<lparr>rq_session := (rq_session q)\<lparr>se_destroyed := True, se_dirty := True, se_data := Map.empty\<rparr>\<rparr>"

text \<open>What a handler may do, in order; \<open>WriteResponse\<close> stands for anything that sends the header.\<close>

datatype handler_op =
  SetValue string string
| DeleteValue string
| RenewSession
| DestroySession
| WriteResponse

fun do_op ::
  "session_config \<Rightarrow> (phase \<Rightarrow> gotime) \<Rightarrow> (nat \<Rightarrow> string result) \<Rightarrow> handler_op \<Rightarrow> request \<Rightarrow> request" where
  "do_op cfg now rand (SetValue k v) q = session_Set cfg now rand k v q"
| "do_op cfg now rand (DeleteValue k) q = session_Delete k q"
| "do_op cfg now rand RenewSession q = session_Renew cfg now rand q"
| "do_op cfg now rand DestroySession q = session_Destroy q"
| "do_op cfg now rand WriteResponse q = q\<lparr>rq_response := (rq_response q)\<lparr>rp_written := True\<rparr>\<rparr>"

definition do_ops ::
  "session_config \<Rightarrow> (phase \<Rightarrow> gotime) \<Rightarrow> (nat \<Rightarrow> string result) \<Rightarrow> handler_op list \<Rightarrow> request \<Rightarrow> request" where
  "do_ops cfg now rand ops q = fold (do_op cfg now rand) ops q"

section \<open>The middleware\<close>

record 's session_store =
  st_Load :: "(headers, 's) load_op"
  st_Save :: "(headers, 's) save_op"
  st_Delete :: "'s delete_op"
  st_Touch :: "'s touch_op"

text \<open>\<^verbatim>\<open>readSessionID\<close>: the value of the cookie, if the request has one.\<close>

definition readSessionID :: "string option \<Rightarrow> string" where
  "readSessionID ck = (case ck of None \<Rightarrow> [] | Some v \<Rightarrow> trim_space v)"

text \<open>The part of \<^verbatim>\<open>Middleware\<close> before the handler: the request the handler sees, or an error.\<close>

definition open_session ::
  "session_config \<Rightarrow> 's session_store \<Rightarrow> (phase \<Rightarrow> int) \<Rightarrow> (phase \<Rightarrow> gotime) \<Rightarrow> (nat \<Rightarrow> string result) \<Rightarrow> string \<Rightarrow> 's
    \<Rightarrow> request result \<times> 's" where
  "open_session cfg st clk now rand sessionID w =
     (let (loaded, w1) = (if sessionID = [] then (Inr Map.empty, w)
            else case st_Load st (clk AtLoad) sessionID w of
                (Inr d, w') \<Rightarrow> (Inr d, w')
              | (Inl e, w') \<Rightarrow> (if err_is e SessionNotFound then Inr Map.empty else Inl e, w'))
      in case loaded of
           Inl e \<Rightarrow> (Inl e, w1)
         | Inr d \<Rightarrow>
             (let s0 = \<lparr>se_id = sessionID, se_data = d, se_dirty = False, se_destroyed = False, se_renewed = False,
                        se_createErr = None\<rparr>;
                  created = (if sessionID = [] \<and> sc_AutoCreate cfg
                    then (case generateSessionID rand 0 of
                            Inl e \<Rightarrow> Inl e
                          | Inr newID \<Rightarrow> Inr (s0\<lparr>se_id := newID, se_dirty := True\<rparr>, 1))
                    else Inr (s0, 0))
              in case created of
                   Inl e \<Rightarrow> (Inl e, w1)
                 | Inr (s, n) \<Rightarrow>
                     (let w2 = (if se_id s \<noteq> [] \<and> 0 < sc_IdleTimeout cfg
                            then snd (st_Touch st (clk AtTouch) (se_id s) (sc_IdleTimeout cfg) w1) else w1);
                          r0 = \<lparr>rp_written = False, rp_cookies = []\<rparr>;
                          r = (if se_id s \<noteq> [] then writeSessionCookie cfg (now AtOpen) (se_id s) r0 else r0)
                      in (Inr \<lparr>rq_session = s, rq_response = r, rq_drawn = n\<rparr>, w2))))"

text \<open>The identifier \<^verbatim>\<open>commit\<close> saves under, and the buffers drawn for it.\<close>

definition commit_target :: "(nat \<Rightarrow> string result) \<Rightarrow> session \<Rightarrow> nat \<Rightarrow> string result \<times> nat" where
  "commit_target rand s n =
     (let (target0, n0) = (if se_id s = [] then (generateSessionID rand n, Suc n) else (Inr (se_id s), n))
      in case target0 of
           Inl e \<Rightarrow> (Inl e, n0)
         | Inr t0 \<Rightarrow> (if se_renewed s then (generateSessionID rand n0, Suc n0) else (Inr t0, n0)))"

definition commit ::
  "session_config \<Rightarrow> 's session_store \<Rightarrow> (phase \<Rightarrow> int) \<Rightarrow> (phase \<Rightarrow> gotime) \<Rightarrow> (nat \<Rightarrow> string result) \<Rightarrow> string
    \<Rightarrow> request \<Rightarrow> 's \<Rightarrow> err option \<times> request \<times> 's" where
  "commit cfg st clk now rand previousID q w =
     (let s = rq_session q; r = rq_response q in
      case se_createErr s of
        Some e \<Rightarrow> (Some e, q, w)
      | None \<Rightarrow>
          (if se_destroyed s
           then (None, q\<lparr>rq_response := (if rp_written r then r else clearSessionCookie cfg r)\<rparr>,
                 if previousID \<noteq> [] then snd (st_Delete st (clk AtDelete) previousID w) else w)
           else if se_id s = [] \<and> \<not> se_dirty s \<and> \<not> se_renewed s then (None, q, w)
           else case commit_target rand s (rq_drawn q) of
             (Inl e, n) \<Rightarrow> (Some e, q\<lparr>rq_drawn := n\<rparr>, w)
           | (Inr targetID, n) \<Rightarrow>
               (let (saveErr, w1) = (if se_dirty s \<or> se_renewed s
                      then st_Save st (clk AtSave) targetID (se_data s) (sc_TTL cfg) w else (None, w))
                in case saveErr of
                     Some e \<Rightarrow> (Some e, q\<lparr>rq_drawn := n\<rparr>, w1)
                   | None \<Rightarrow>
                       (None,
                        q\<lparr>rq_session := s\<lparr>se_id := targetID\<rparr>, rq_drawn := n,
                          rq_response := (if rp_written r then r
                            else writeSessionCookie cfg (now AtCommit) targetID r)\<rparr>,
                        if se_renewed s \<and> previousID \<noteq> [] \<and> previousID \<noteq> targetID
                        then snd (st_Delete st (clk AtDelete) previousID w1) else w1))))"

text \<open>
  A handler: from the session it is given (\<open>None\<close> without one) to its operations and its error.  Without
  a session only the response can be touched.
\<close>

type_synonym handler = "session option \<Rightarrow> handler_op list \<times> err option"

definition no_session_response :: "handler_op list \<Rightarrow> response" where
  "no_session_response ops = \<lparr>rp_written = (WriteResponse \<in> set ops), rp_cookies = []\<rparr>"

definition session_Middleware ::
  "session_config \<Rightarrow> 's session_store option \<Rightarrow> (phase \<Rightarrow> int) \<Rightarrow> (phase \<Rightarrow> gotime) \<Rightarrow> (nat \<Rightarrow> string result)
    \<Rightarrow> handler \<Rightarrow> string option \<Rightarrow> 's \<Rightarrow> err option \<times> response \<times> 's" where
  "session_Middleware cfg0 sto clk now rand h ck w =
     (let cfg = normalizeConfig cfg0 in
      case (if sc_Enabled cfg then sto else None) of
        None \<Rightarrow> (let (ops, herr) = h None in (herr, no_session_response ops, w))
      | Some st \<Rightarrow>
          (let sessionID = readSessionID ck in
           case open_session cfg st clk now rand sessionID w of
             (Inl e, w1) \<Rightarrow> (Some e, \<lparr>rp_written = False, rp_cookies = []\<rparr>, w1)
           | (Inr q, w1) \<Rightarrow>
               (let (ops, herr) = h (Some (rq_session q));
                    (cerr, q2, w2) = commit cfg st clk now rand sessionID (do_ops cfg now rand ops q) w1
                in (if herr \<noteq> None then herr else cerr, rq_response q2, w2))))"

section \<open>OAuth tokens in the session\<close>

definition noSessionError :: err where
  "noSessionError = WithDetails [(''family'', ''http_session'')]
     (NewNotInitialized (sentinel_text NoSession) (Some (ESentinel NoSession)))"

definition SetOAuthTokens :: "bool \<Rightarrow> string \<Rightarrow> string \<Rightarrow> handler_op list result" where
  "SetOAuthTokens has_session access refresh =
     (if \<not> has_session then Inl noSessionError
      else Inr ((if access \<noteq> [] then [SetValue ''oauth_access_token'' access] else [])
                @ (if refresh \<noteq> [] then [SetValue ''oauth_refresh_token'' refresh] else [])))"

definition GetOAuthTokens :: "session option \<Rightarrow> (string \<times> string) option" where
  "GetOAuthTokens so =
     (case so of None \<Rightarrow> None
      | Some s \<Rightarrow> Some (hget (se_data s) ''oauth_access_token'', hget (se_data s) ''oauth_refresh_token''))"

definition ClearOAuthTokens :: "bool \<Rightarrow> handler_op list result" where
  "ClearOAuthTokens has_session =
     (if \<not> has_session then Inl noSessionError
      else Inr [DeleteValue ''oauth_access_token'', DeleteValue ''oauth_refresh_token''])"

text \<open>The Authorization header of the request that \<^verbatim>\<open>BearerFromSession\<close> passes on.\<close>

definition BearerFromSession :: "session option \<Rightarrow> string \<Rightarrow> string" where
  "BearerFromSession so authorization =
     (if \<not> blank authorization then authorization
      else case GetOAuthTokens so of
        None \<Rightarrow> authorization
      | Some (access, _) \<Rightarrow> (if blank access then authorization else ''Bearer '' @ access))"

section \<open>Identifiers survive the cookie\<close>

definition clean :: "string \<Rightarrow> bool" where
  "clean i \<longleftrightarrow> i \<noteq> [] \<and> trim_space i = i"

lemma b64_alphabet_plain: "\<forall>c \<in> set b64_alphabet. byte c < 128 \<and> \<not> ascii_space c"
  by (simp add: b64_alphabet_def ascii_space_def)

lemma b64_char_plain: "byte (b64_char n) < 128" "\<not> ascii_space (b64_char n)"
proof -
  have "b64_char n \<in> set b64_alphabet"
    unfolding b64_char_def by (rule nth_mem) (simp add: b64_alphabet_def)
  with b64_alphabet_plain show "byte (b64_char n) < 128" "\<not> ascii_space (b64_char n)" by auto
qed

lemma b64_encode_plain: "list_all (\<lambda>c. byte c < 128 \<and> \<not> ascii_space c) (b64_encode s)"
  by (induction s rule: b64_encode.induct) (simp_all add: b64_char_plain)

lemma length_b64_encode: "length (b64_encode s) = (4 * length s + 2) div 3"
  by (induction s rule: b64_encode.induct) simp_all

text \<open>\<^verbatim>\<open>rand.Read\<close> fills the whole buffer when it does not fail.\<close>

definition full_buffers :: "(nat \<Rightarrow> string result) \<Rightarrow> bool" where
  "full_buffers rand \<longleftrightarrow> (\<forall>n buf. rand n = Inr buf \<longrightarrow> length buf = 32)"

lemma generated_clean:
  assumes "generateSessionID rand n = Inr i" and "full_buffers rand"
  shows "clean i \<and> length i = 43"
proof -
  obtain buf where b: "rand n = Inr buf" "i = b64_encode buf"
    using assms(1) by (auto simp: generateSessionID_def split: sum.splits)
  then have l: "length i = 43" using assms(2) by (simp add: length_b64_encode full_buffers_def)
  have "trim_space i = i" using b64_encode_plain [of buf] b by (intro trim_space_plain) (simp add: list_all_iff)
  with l show ?thesis by (auto simp: clean_def)
qed

lemma readSessionID_clean: "readSessionID ck \<noteq> [] \<Longrightarrow> clean (readSessionID ck)"
  by (auto simp: clean_def readSessionID_def split: option.splits)

lemma readSessionID_of_clean: "clean i \<Longrightarrow> readSessionID (Some i) = i"
  by (simp add: clean_def readSessionID_def)

section \<open>What the operations of a handler keep\<close>

lemma ensureID_id [simp]: "se_id (rq_session q) \<noteq> [] \<Longrightarrow> ensureID cfg now rand q = q"
  by (simp add: ensureID_def)

lemma SetCookie_written [simp]: "rp_written (SetCookie ck r) = rp_written r"
  by (simp add: SetCookie_def)

text \<open>A request opened with an identifier keeps it and its cookies, whatever the handler does.\<close>

lemma do_op_id:
  assumes "se_id (rq_session q) \<noteq> []"
  shows "se_id (rq_session (do_op cfg now rand x q)) = se_id (rq_session q)
    \<and> rp_cookies (rq_response (do_op cfg now rand x q)) = rp_cookies (rq_response q)"
  using assms by (cases x)
    (simp_all add: session_Set_def session_Delete_def session_Renew_def session_Destroy_def Let_def split: option.split)

lemma do_ops_id:
  assumes "se_id (rq_session q) \<noteq> []"
  shows "se_id (rq_session (do_ops cfg now rand ops q)) = se_id (rq_session q)
    \<and> rp_cookies (rq_response (do_ops cfg now rand ops q)) = rp_cookies (rq_response q)"
  using assms unfolding do_ops_def
  by (induction ops arbitrary: q) (simp_all add: do_op_id)

text \<open>Every identifier a session gets is clean.\<close>

definition clean_or_none :: "request \<Rightarrow> bool" where
  "clean_or_none q \<longleftrightarrow> se_id (rq_session q) = [] \<or> clean (se_id (rq_session q))"

lemma ensureID_clean: "full_buffers rand \<Longrightarrow> clean_or_none q \<Longrightarrow> clean_or_none (ensureID cfg now rand q)"
  using generated_clean by (auto simp: clean_or_none_def ensureID_def Let_def split: sum.splits)

lemma do_op_clean: "full_buffers rand \<Longrightarrow> clean_or_none q \<Longrightarrow> clean_or_none (do_op cfg now rand x q)"
  using ensureID_clean [of rand q cfg now]
  by (cases x) (auto simp: session_Set_def session_Delete_def session_Renew_def session_Destroy_def Let_def
      clean_or_none_def split: option.splits)

lemma do_ops_clean: "full_buffers rand \<Longrightarrow> clean_or_none q \<Longrightarrow> clean_or_none (do_ops cfg now rand ops q)"
  unfolding do_ops_def by (induction ops arbitrary: q) (simp_all add: do_op_clean)

section \<open>The middleware over a store that keeps the contract\<close>

text \<open>
  The middleware needs of a store that it loads what was saved until it expires or is deleted, and
  that \<^verbatim>\<open>Touch\<close> does not spoil it.
\<close>

locale session_backend = expiring_store load save delete view span storable "ESentinel SessionNotFound" ok
  for load :: "(headers, 's) load_op" and save :: "(headers, 's) save_op" and delete :: "'s delete_op"
    and view :: "'s \<Rightarrow> headers entries" and span :: "duration \<Rightarrow> int option"
    and storable :: "headers \<Rightarrow> duration \<Rightarrow> bool" and ok :: "'s \<Rightarrow> bool" +
  fixes touch :: "'s touch_op"
  assumes touch_ok: "ok s \<Longrightarrow> ok (snd (touch t k ttl s))"

definition store_of ::
  "(headers, 's) load_op \<Rightarrow> (headers, 's) save_op \<Rightarrow> 's delete_op \<Rightarrow> 's touch_op \<Rightarrow> 's session_store" where
  "store_of load save delete touch = \<lparr>st_Load = load, st_Save = save, st_Delete = delete, st_Touch = touch\<rparr>"

lemma store_of_simps [simp]:
  "st_Load (store_of load save delete touch) = load" "st_Save (store_of load save delete touch) = save"
  "st_Delete (store_of load save delete touch) = delete" "st_Touch (store_of load save delete touch) = touch"
  by (simp_all add: store_of_def)

text \<open>The cookie a client holds after a response: the last one set, or the one it had.\<close>

definition client_cookie :: "string option \<Rightarrow> response \<Rightarrow> string option" where
  "client_cookie ck r = (if rp_cookies r = [] then ck else Some (ck_Value (last (rp_cookies r))))"

lemma client_cookie_cong: "rp_cookies r = rp_cookies r' \<Longrightarrow> client_cookie ck r = client_cookie ck r'"
  by (simp add: client_cookie_def)

lemma client_cookie_write [simp]:
  "\<not> rp_written r \<Longrightarrow> client_cookie ck (writeSessionCookie cfg now sid r) = Some sid"
  by (simp add: client_cookie_def writeSessionCookie_def SetCookie_def)

text \<open>What is known of a request when the handler gets it.\<close>

lemma open_sessionE:
  assumes "open_session cfg st clk now rand (readSessionID ck) w = (Inr q, w1)" and "full_buffers rand"
  shows "clean_or_none q"
    and "se_id (rq_session q) \<noteq> [] \<Longrightarrow> client_cookie ck (rq_response q) = Some (se_id (rq_session q))"
    and "se_id (rq_session q) = [] \<Longrightarrow> readSessionID ck = []"
    and "readSessionID ck \<noteq> [] \<Longrightarrow> se_id (rq_session q) = readSessionID ck"
  using assms generated_clean [OF _ assms(2), of 0] readSessionID_clean [of ck]
  by (auto simp: open_session_def clean_or_none_def Let_def split: if_splits sum.splits prod.splits)

text \<open>A request without a cookie gets a new session when the middleware creates them.\<close>

lemma open_new:
  assumes "sc_AutoCreate cfg" and "generateSessionID rand 0 = Inr i" and "i \<noteq> []"
  shows "\<exists>q w1. open_session cfg st clk now rand [] w = (Inr q, w1)
    \<and> rq_session q = \<lparr>se_id = i, se_data = Map.empty, se_dirty = True, se_destroyed = False, se_renewed = False,
        se_createErr = None\<rparr>"
  using assms by (simp add: open_session_def Let_def)

text \<open>What a successful commit of a changed session has done, for any store.\<close>

lemma commit_target_cases:
  assumes "commit_target rand s n = (Inr target, m)"
  shows "if se_renewed s \<or> se_id s = [] then \<exists>n. generateSessionID rand n = Inr target else target = se_id s"
  using assms by (auto simp: commit_target_def split: if_splits sum.splits)

lemma commit_shape:
  assumes "commit cfg st clk now rand prev q w = (None, q', w')" and "s = rq_session q"
    and "\<not> se_destroyed s" and "se_dirty s"
  shows "\<exists>target m w1. commit_target rand s (rq_drawn q) = (Inr target, m)
    \<and> st_Save st (clk AtSave) target (se_data s) (sc_TTL cfg) w = (None, w1)
    \<and> w' = (if se_renewed s \<and> prev \<noteq> [] \<and> prev \<noteq> target then snd (st_Delete st (clk AtDelete) prev w1) else w1)
    \<and> rq_response q' = (if rp_written (rq_response q) then rq_response q
       else writeSessionCookie cfg (now AtCommit) target (rq_response q))"
proof (cases "commit_target rand s (rq_drawn q)")
  case (Pair x m)
  with assms obtain target where x: "x = Inr target"
    by (cases x) (auto simp: commit_def Let_def split: option.splits)
  obtain e w1 where "st_Save st (clk AtSave) target (se_data s) (sc_TTL cfg) w = (e, w1)" by (rule prod.exhaust)
  with assms Pair x show ?thesis
    by (cases e) (auto simp: commit_def Let_def split: option.splits)
qed

context session_backend
begin

abbreviation "st \<equiv> store_of load save delete touch"

lemma load_ok: "ok w \<Longrightarrow> ok (snd (load t k w))"
  using load_spec [of w t k] by (metis prod.collapse)

lemma delete_ok: "ok w \<Longrightarrow> ok (snd (delete t k w)) \<and> view (snd (delete t k w)) = (view w)(k := None)"
  using delete_spec [of w t k] by (metis prod.collapse)

lemma open_ok:
  assumes "ok w" and "open_session cfg st clk now rand sid w = (r, w')"
  shows "ok w'"
  using assms load_ok [OF assms(1), of "clk AtLoad" sid] touch_ok
  by (auto simp: open_session_def Let_def split: if_splits sum.splits prod.splits)

text \<open>A live session is handed to the next request that carries its identifier.\<close>

lemma open_live:
  assumes "ok w" and "view w i = Some (d, e)" and "lives (clk AtLoad) e" and "clean i"
  shows "\<exists>q w'. open_session cfg st clk now rand (readSessionID (Some i)) w = (Inr q, w')
    \<and> se_id (rq_session q) = i \<and> se_data (rq_session q) = d"
proof -
  have "fst (load (clk AtLoad) i w) = Inr d"
    using load_spec [OF assms(1), of "clk AtLoad" i] assms(2,3)
    by (cases "load (clk AtLoad) i w") (simp add: spec_load_def alive_def)
  moreover have "i \<noteq> []" using assms(4) by (simp add: clean_def)
  ultimately show ?thesis
    by (cases "load (clk AtLoad) i w") (simp add: open_session_def readSessionID_of_clean [OF assms(4)] Let_def)
qed

text \<open>A deleted or expired one is not: the next request starts empty, under the identifier it carries.\<close>

lemma open_dead:
  assumes "ok w" and "view w i = None" and "clean i"
  shows "\<exists>q w'. open_session cfg st clk now rand (readSessionID (Some i)) w = (Inr q, w')
    \<and> se_id (rq_session q) = i \<and> se_data (rq_session q) = Map.empty"
proof -
  have "fst (load (clk AtLoad) i w) = Inl (ESentinel SessionNotFound)"
    using load_spec [OF assms(1), of "clk AtLoad" i] assms(2)
    by (cases "load (clk AtLoad) i w") (simp add: spec_load_def alive_def)
  moreover have "i \<noteq> []" using assms(3) by (simp add: clean_def)
  ultimately show ?thesis
    by (cases "load (clk AtLoad) i w") (simp add: open_session_def readSessionID_of_clean [OF assms(3)] Let_def)
qed

text \<open>The session a request ends with is the one the client's next request begins with.\<close>

lemma continuity:
  assumes "ok w" and "full_buffers rand"
    and op: "open_session cfg st clk now rand (readSessionID ck) w = (Inr q, w1)"
    and co: "commit cfg st clk now rand (readSessionID ck) (do_ops cfg now rand ops q) w1 = (None, q2, w2)"
    and f: "f = rq_session (do_ops cfg now rand ops q)" "\<not> se_destroyed f" "se_dirty f" "storable (se_data f) (sc_TTL cfg)"
    and sent: "rp_written (rq_response (do_ops cfg now rand ops q)) \<Longrightarrow> \<not> se_renewed f \<and> se_id (rq_session q) \<noteq> []"
    and live: "lives (clk' AtLoad) (map_option (\<lambda>n. clk AtSave + n) (span (sc_TTL cfg)))"
  shows "\<exists>q' w3. open_session cfg st clk' now' rand' (readSessionID (client_cookie ck (rq_response q2))) w2 = (Inr q', w3)
    \<and> se_data (rq_session q') = se_data f"
proof -
  let ?e = "do_ops cfg now rand ops q"
  have c: "se_id f = [] \<or> clean (se_id f)"
    using do_ops_clean [OF assms(2) open_sessionE(1) [OF op assms(2)]] f(1) by (auto simp: clean_or_none_def)
  obtain target m w1' where m: "commit_target rand f (rq_drawn ?e) = (Inr target, m)"
    and t: "save (clk AtSave) target (se_data f) (sc_TTL cfg) w1 = (None, w1')"
      "w2 = (if se_renewed f \<and> readSessionID ck \<noteq> [] \<and> readSessionID ck \<noteq> target
         then snd (delete (clk AtDelete) (readSessionID ck) w1') else w1')"
      "rq_response q2 = (if rp_written (rq_response ?e) then rq_response ?e
         else writeSessionCookie cfg (now AtCommit) target (rq_response ?e))"
    using commit_shape [OF co f(1-3)] unfolding store_of_simps by blast
  have t4: "clean target"
    using commit_target_cases [OF m] c generated_clean [OF _ assms(2)] by (auto split: if_splits)
  have s: "ok w1'" "view w1' target = Some (se_data f, map_option (\<lambda>n. clk AtSave + n) (span (sc_TTL cfg)))"
    using save_spec [OF open_ok [OF assms(1) op] f(4) t(1)] by (simp_all add: spec_save_def)
  then have w2: "ok w2" "view w2 target = Some (se_data f, map_option (\<lambda>n. clk AtSave + n) (span (sc_TTL cfg)))"
    using delete_ok [OF s(1)] t(2) by auto
  have "client_cookie ck (rq_response q2) = Some target"
  proof (cases "rp_written (rq_response ?e)")
    case True
    then have "\<not> se_renewed f" and i: "se_id (rq_session q) \<noteq> []" using sent by simp_all
    with do_ops_id [OF i] have "target = se_id (rq_session q)" "rp_cookies (rq_response ?e) = rp_cookies (rq_response q)"
      using commit_target_cases [OF m] f(1) by auto
    with open_sessionE(2) [OF op assms(2) i] t(3) True show ?thesis
      using client_cookie_cong [of "rq_response ?e" "rq_response q" ck] by simp
  qed (simp add: t(3))
  with open_live [where clk = clk' and cfg = cfg and now = now' and rand = rand', OF w2 live t4] show ?thesis by auto
qed

text \<open>
  \<^verbatim>\<open>Renew\<close> followed by a write: the client keeps the old identifier, which is gone from the store.
\<close>

lemma renew_written_loses:
  assumes "ok w" and "full_buffers rand" and "readSessionID ck \<noteq> []"
    and op: "open_session cfg st clk now rand (readSessionID ck) w = (Inr q, w1)"
    and co: "commit cfg st clk now rand (readSessionID ck) (do_ops cfg now rand ops q) w1 = (None, q2, w2)"
    and f: "f = rq_session (do_ops cfg now rand ops q)" "\<not> se_destroyed f" "se_dirty f" "storable (se_data f) (sc_TTL cfg)"
    and written: "rp_written (rq_response (do_ops cfg now rand ops q))" and "se_renewed f"
    and fresh: "\<And>n. generateSessionID rand n \<noteq> Inr (readSessionID ck)"
  shows "\<exists>q' w3. open_session cfg st clk' now' rand' (readSessionID (client_cookie ck (rq_response q2))) w2 = (Inr q', w3)
    \<and> se_id (rq_session q') = readSessionID ck \<and> se_data (rq_session q') = Map.empty"
proof -
  let ?e = "do_ops cfg now rand ops q" and ?i = "readSessionID ck"
  obtain target m w1' where m: "commit_target rand f (rq_drawn ?e) = (Inr target, m)"
    and t: "save (clk AtSave) target (se_data f) (sc_TTL cfg) w1 = (None, w1')"
      "w2 = (if ?i \<noteq> target then snd (delete (clk AtDelete) ?i w1') else w1')"
      "rq_response q2 = rq_response ?e"
    using commit_shape [OF co f(1-3)] written assms(3) \<open>se_renewed f\<close> unfolding store_of_simps by (auto split: if_splits)
  have "ok w1'" using save_spec [OF open_ok [OF assms(1) op] f(4) t(1)] by simp
  moreover have "?i \<noteq> target" using fresh commit_target_cases [OF m] \<open>se_renewed f\<close> by auto
  ultimately have w2: "ok w2" "view w2 ?i = None" using delete_ok t(2) by auto
  have i: "se_id (rq_session q) = ?i" by (rule open_sessionE(4) [OF op assms(2,3)])
  then have "client_cookie ck (rq_response q2) = Some ?i"
    using open_sessionE(2) [OF op assms(2)] do_ops_id [of q cfg now rand ops] assms(3) t(3)
      client_cookie_cong [of "rq_response ?e" "rq_response q" ck] by simp
  with open_dead [OF w2 readSessionID_clean [OF assms(3)]] show ?thesis by simp
qed

end

section \<open>The stores of \<^verbatim>\<open>pkg/session\<close> behind the middleware\<close>

interpretation hm: session_backend session_memory_Load session_memory_Save session_memory_Delete memory_entries
  "\<lambda>ttl. Some (ttl + 1)" "\<lambda>_ _. True" "\<lambda>_. True" session_memory_Touch
  by unfold_locales simp

locale redis_http = redis_sessions R V C prefix
  for R :: "'r redis_ops" and V :: "'r redis_view" and C :: "headers codec" and prefix :: string

sublocale redis_http \<subseteq> hr: session_backend "session_redis_Load R C prefix None" "session_redis_Save R C prefix None"
  "session_redis_Delete R prefix None" "redis_entries V C prefix" redis_span "encodes C" "decodable V C prefix"
  "session_redis_Touch R prefix None"
  by unfold_locales (simp add: redis_Touch_eq entries_expire)

definition redis_store :: "'r redis_ops \<Rightarrow> headers codec \<Rightarrow> string \<Rightarrow> 'r session_store" where
  "redis_store R C prefix = store_of (session_redis_Load R C prefix None) (session_redis_Save R C prefix None)
     (session_redis_Delete R prefix None) (session_redis_Touch R prefix None)"

context redis_http
begin

lemmas redis_continuity = hr.continuity [folded redis_store_def]
lemmas redis_renew_written_loses = hr.renew_written_loses [folded redis_store_def]

end

text \<open>A codec for data with at most the value of one key, enough for concrete sessions.\<close>

definition one_codec :: "headers codec" where
  "one_codec = \<lparr>c_Marshal = (\<lambda>m. Inr (case m ''user'' of None \<Rightarrow> [] | Some v \<Rightarrow> CHR ''='' # v)),
     c_Unmarshal = (\<lambda>raw. Inr (case raw of [] \<Rightarrow> Map.empty | _ # v \<Rightarrow> [''user'' \<mapsto> v]))\<rparr>"

interpretation hmr: redis_http memory_redis memory_view one_codec "''session''" ..

section \<open>Adopted identifiers, OAuth tokens\<close>

text \<open>
  An identifier the store does not know is not replaced: the session a handler fills is saved under
  whatever the client sent.
\<close>

lemma unknown_id_adopted:
  assumes "clean i" and "m i = None"
  shows "\<exists>q w1. open_session cfg (store_of session_memory_Load session_memory_Save session_memory_Delete
      session_memory_Touch) clk now rand (readSessionID (Some i)) m = (Inr q, w1)
    \<and> commit_target rand (rq_session (do_op cfg now rand (SetValue k v) q)) n = (Inr i, n)"
proof -
  obtain q w1 where q: "open_session cfg (store_of session_memory_Load session_memory_Save session_memory_Delete
      session_memory_Touch) clk now rand (readSessionID (Some i)) m = (Inr q, w1)" "se_id (rq_session q) = i"
    using hm.open_dead [of m i cfg clk now rand] assms by (auto simp: memory_entries_def)
  have "i \<noteq> []" "\<not> se_renewed (rq_session q)"
    using assms(1) q(1) by (auto simp: clean_def open_session_def Let_def split: if_splits prod.splits sum.splits)
  then have "commit_target rand (rq_session (do_op cfg now rand (SetValue k v) q)) n = (Inr i, n)"
    using q(2) by (simp add: commit_target_def session_Set_def Let_def)
  with q(1) show ?thesis by blast
qed

text \<open>A stored access token is the bearer token of a later request without one of its own.\<close>

lemma bearer_after_SetOAuthTokens:
  assumes "SetOAuthTokens True access refresh = Inr ops" and "\<not> blank access"
    and "se_id (rq_session q) \<noteq> []" and "se_createErr (rq_session q) = None"
  shows "BearerFromSession (Some (rq_session (do_ops cfg now rand ops q))) [] = ''Bearer '' @ access"
proof -
  have b: "\<not> blank ''oauth_access_token''" "\<not> blank ''oauth_refresh_token''" "access \<noteq> []"
    using assms(2) by (auto simp: blank_def trim_space_plain ascii_space_def)
  have "hget (se_data (rq_session (do_ops cfg now rand ops q))) ''oauth_access_token'' = access"
    using assms(1,3,4) b by (auto simp: SetOAuthTokens_def do_ops_def session_Set_def Let_def hget_def)
  then show ?thesis using assms(2) by (simp add: BearerFromSession_def GetOAuthTokens_def)
qed

section \<open>What a client sees\<close>

text \<open>
  C19. Continuity of sessions over Redis: let a request be opened with any cookie or none, its handler do
  any operations, and the commit succeed with the session changed and not destroyed.  If the
  response was not sent before the commit, or the session was neither renewed nor created by the
  handler, then the client's next request within the time to live, with the cookie it then holds,
  hands its handler exactly the data the first one ended with.  This covers new sessions, changed
  ones and those moved to a new identifier by \<^verbatim>\<open>Renew\<close>.
\<close>

theorem session_continuity:
  assumes "redis_server R V" and "decodable V C prefix w" and "full_buffers rand"
    and "open_session cfg (redis_store R C prefix) clk now rand (readSessionID ck) w = (Inr q, w1)"
    and "e = do_ops cfg now rand ops q"
    and "commit cfg (redis_store R C prefix) clk now rand (readSessionID ck) e w1 = (None, q2, w2)"
    and "\<not> se_destroyed (rq_session e)" and "se_dirty (rq_session e)" and "encodes C (se_data (rq_session e)) (sc_TTL cfg)"
    and "rp_written (rq_response e) \<Longrightarrow> \<not> se_renewed (rq_session e) \<and> se_id (rq_session q) \<noteq> []"
    and "lives (clk' AtLoad) (map_option (\<lambda>n. clk AtSave + n) (redis_span (sc_TTL cfg)))"
  shows "\<exists>q' w3. open_session cfg (redis_store R C prefix) clk' now' rand'
      (readSessionID (client_cookie ck (rq_response q2))) w2 = (Inr q', w3)
    \<and> se_data (rq_session q') = se_data (rq_session e)"
  using redis_http.redis_continuity [OF redis_http.intro [OF redis_sessions.intro [OF assms(1)]], of C prefix w rand]
    assms by simp

theorem session_continuity_witness:
  "case open_session session_DefaultConfig (redis_store memory_redis one_codec ''session'') (\<lambda>_. 0) (\<lambda>_. 0)
      (\<lambda>_. Inr (replicate 32 CHR ''x'')) [] empty_memory of
     (Inl _, _) \<Rightarrow> False
   | (Inr q, w1) \<Rightarrow>
       (case commit session_DefaultConfig (redis_store memory_redis one_codec ''session'') (\<lambda>_. 0) (\<lambda>_. 0)
            (\<lambda>_. Inr (replicate 32 CHR ''x'')) []
            (do_ops session_DefaultConfig (\<lambda>_. 0) (\<lambda>_. Inr (replicate 32 CHR ''x''))
               [SetValue ''user'' ''bob'', WriteResponse] q) w1 of
          (e, q2, w2) \<Rightarrow> e = None \<and> (\<exists>q' w3.
            open_session session_DefaultConfig (redis_store memory_redis one_codec ''session'') (\<lambda>_. 1000) (\<lambda>_. 0)
              (\<lambda>_. Inr (replicate 32 CHR ''x'')) (readSessionID (client_cookie None (rq_response q2))) w2 = (Inr q', w3)
            \<and> se_data (rq_session q') = [''user'' \<mapsto> ''bob'']))"
proof -
  let ?st = "redis_store memory_redis one_codec ''session''" and ?r = "\<lambda>_::nat. Inr (replicate 32 CHR ''x'') :: string result"
    and ?t = "\<lambda>_::phase. 0::int" and ?c = session_DefaultConfig
  have full: "full_buffers ?r" by (auto simp: full_buffers_def)
  obtain i where gen: "generateSessionID ?r 0 = Inr i" "clean i"
    using generated_clean [OF _ full] by (simp add: generateSessionID_def)
  obtain q w1 where op: "open_session ?c ?st ?t ?t ?r [] empty_memory = (Inr q, w1)"
    and q: "se_id (rq_session q) \<noteq> []" "se_data (rq_session q) = Map.empty" "\<not> se_destroyed (rq_session q)"
      "\<not> se_renewed (rq_session q)" "se_createErr (rq_session q) = None"
    using open_new [of ?c ?r _ ?st ?t ?t empty_memory] gen by (auto simp: session_DefaultConfig_def clean_def)
  let ?e = "do_ops ?c ?t ?r [SetValue ''user'' ''bob'', WriteResponse] q"
  have nb: "\<not> blank ''user''" by (simp add: blank_def trim_space_plain ascii_space_def)
  have e: "\<not> se_destroyed (rq_session ?e)" "se_dirty (rq_session ?e)" "\<not> se_renewed (rq_session ?e)"
      "se_data (rq_session ?e) = [''user'' \<mapsto> ''bob'']" "se_id (rq_session ?e) = se_id (rq_session q)"
      "se_createErr (rq_session ?e) = None"
    using q nb by (simp_all add: do_ops_def session_Set_def Let_def)
  have enc: "encodes one_codec [''user'' \<mapsto> ''bob''] (sc_TTL ?c)"
    by (simp add: encodes_def one_codec_def session_DefaultConfig_def duration_units)
  obtain q2 w2 where co: "commit ?c ?st ?t ?t ?r [] ?e w1 = (None, q2, w2)"
    using e q(1) by (auto simp: commit_def Let_def commit_target_def redis_store_def session_redis_Save_def one_codec_def)
  have "\<exists>q' w3. open_session ?c ?st (\<lambda>_. 1000) ?t ?r (readSessionID (client_cookie None (rq_response q2))) w2 = (Inr q', w3)
      \<and> se_data (rq_session q') = se_data (rq_session ?e)"
    by (rule session_continuity [OF mem.redis_server_axioms _ full _ refl, of one_codec "''session''" empty_memory _ ?t ?t None q w1])
      (use op co e q(1) enc in \<open>simp_all add: readSessionID_def decodable_def one_codec_def lives_def redis_span_def
        session_DefaultConfig_def set_ms_def go_div_def duration_units\<close>)
  with op co e(4) show ?thesis by simp
qed

text \<open>
  C20. What goes wrong when the handler renews the session and sends its response, as a login handler
  does: the commit saves the data under the new identifier and deletes the old one, but can no longer
  tell the client.  Its next request, at any later time, carries the old identifier and gets an empty
  session, although every call of the store has succeeded.
\<close>

theorem renew_after_write_loses_session:
  assumes "redis_server R V" and "decodable V C prefix w" and "full_buffers rand" and "readSessionID ck \<noteq> []"
    and "open_session cfg (redis_store R C prefix) clk now rand (readSessionID ck) w = (Inr q, w1)"
    and "e = do_ops cfg now rand ops q"
    and "commit cfg (redis_store R C prefix) clk now rand (readSessionID ck) e w1 = (None, q2, w2)"
    and "\<not> se_destroyed (rq_session e)" and "se_dirty (rq_session e)" and "encodes C (se_data (rq_session e)) (sc_TTL cfg)"
    and "rp_written (rq_response e)" and "se_renewed (rq_session e)"
    and "\<And>n. generateSessionID rand n \<noteq> Inr (readSessionID ck)"
  shows "\<exists>q' w3. open_session cfg (redis_store R C prefix) clk' now' rand'
      (readSessionID (client_cookie ck (rq_response q2))) w2 = (Inr q', w3)
    \<and> se_id (rq_session q') = readSessionID ck \<and> se_data (rq_session q') = Map.empty"
  by (rule redis_http.redis_renew_written_loses [OF redis_http.intro [OF redis_sessions.intro [OF assms(1)]] assms(2-5)
        assms(7) [unfolded assms(6)] refl assms(8-12) [unfolded assms(6)] assms(13)])

theorem renew_after_write_loses_session_witness:
  "case open_session session_DefaultConfig (redis_store memory_redis one_codec ''session'') (\<lambda>_. 0) (\<lambda>_. 0)
      (\<lambda>_. Inr (replicate 32 CHR ''x'')) ''old'' empty_memory of
     (Inl _, _) \<Rightarrow> False
   | (Inr q, w1) \<Rightarrow>
       (case commit session_DefaultConfig (redis_store memory_redis one_codec ''session'') (\<lambda>_. 0) (\<lambda>_. 0)
            (\<lambda>_. Inr (replicate 32 CHR ''x'')) ''old''
            (do_ops session_DefaultConfig (\<lambda>_. 0) (\<lambda>_. Inr (replicate 32 CHR ''x''))
               [SetValue ''user'' ''bob'', RenewSession, WriteResponse] q) w1 of
          (e, q2, w2) \<Rightarrow> e = None \<and> (\<exists>q' w3.
            open_session session_DefaultConfig (redis_store memory_redis one_codec ''session'') (\<lambda>_. 1) (\<lambda>_. 0)
              (\<lambda>_. Inr (replicate 32 CHR ''x'')) (readSessionID (client_cookie (Some ''old'') (rq_response q2))) w2 = (Inr q', w3)
            \<and> se_id (rq_session q') = ''old'' \<and> se_data (rq_session q') = Map.empty))"
proof -
  let ?st = "redis_store memory_redis one_codec ''session''" and ?r = "\<lambda>_::nat. Inr (replicate 32 CHR ''x'') :: string result"
    and ?t = "\<lambda>_::phase. 0::int" and ?c = session_DefaultConfig
  have full: "full_buffers ?r" by (auto simp: full_buffers_def)
  have rd: "readSessionID (Some ''old'') = ''old''"
    by (simp add: readSessionID_def trim_space_plain ascii_space_def)
  obtain i where gen: "generateSessionID ?r n = Inr i" "length i = 43" for n
    using generated_clean [OF _ full] by (simp add: generateSessionID_def)
  obtain q w1 where op: "open_session ?c ?st ?t ?t ?r ''old'' empty_memory = (Inr q, w1)"
    and q: "rq_session q = \<lparr>se_id = ''old'', se_data = Map.empty, se_dirty = False, se_destroyed = False,
        se_renewed = False, se_createErr = None\<rparr>"
    by (simp add: open_session_def Let_def redis_store_def session_redis_Load_def memory_redis_def empty_memory_def)
  let ?e = "do_ops ?c ?t ?r [SetValue ''user'' ''bob'', RenewSession, WriteResponse] q"
  have nb: "\<not> blank ''user''" by (simp add: blank_def trim_space_plain ascii_space_def)
  have e: "rq_session ?e = \<lparr>se_id = ''old'', se_data = [''user'' \<mapsto> ''bob''], se_dirty = True, se_destroyed = False,
        se_renewed = True, se_createErr = None\<rparr>" "rp_written (rq_response ?e)"
    using q nb by (simp_all add: do_ops_def session_Set_def session_Renew_def Let_def)
  have enc: "encodes one_codec [''user'' \<mapsto> ''bob''] (sc_TTL ?c)"
    by (simp add: encodes_def one_codec_def session_DefaultConfig_def duration_units)
  obtain q2 w2 where co: "commit ?c ?st ?t ?t ?r ''old'' ?e w1 = (None, q2, w2)"
    using e gen(1) by (auto simp: commit_def Let_def commit_target_def redis_store_def session_redis_Save_def one_codec_def)
  have "\<exists>q' w3. open_session ?c ?st (\<lambda>_. 1) ?t ?r (readSessionID (client_cookie (Some ''old'') (rq_response q2))) w2 = (Inr q', w3)
      \<and> se_id (rq_session q') = readSessionID (Some ''old'') \<and> se_data (rq_session q') = Map.empty"
    by (rule renew_after_write_loses_session [OF mem.redis_server_axioms _ full _ _ refl,
          of one_codec "''session''" empty_memory "Some ''old''" ?c ?t ?t q w1])
      (use op co e gen enc rd in \<open>auto simp: decodable_def one_codec_def\<close>)
  with op co rd show ?thesis by simp
qed

end
