(* ===== verification/SemVer.thy ===== *)
theory SemVer
  imports Errors "HOL-Library.Char_ord" "HOL-Library.List_Lexorder" "HOL-Library.Product_Lexorder"
begin

text \<open>
  \<^verbatim>\<open>pkg/version/semver.go\<close>: parsing, printing and comparing semantic versions.  The regular expression
  is a function that cuts the text where the expression can only cut it.  The reference order is
  the precedence of the SemVer specification, given by a key in a linear order; the theory shows
  where the code agrees with it and where not.
\<close>

section \<open>Parsing and printing\<close>

record semver =
  sv_Major :: int
  sv_Minor :: int
  sv_Patch :: int
  sv_PreRelease :: string
  sv_Build :: string

text \<open>\<^verbatim>\<open>0|[1-9]\d*\<close> and \<^verbatim>\<open>[0-9A-Za-z-]+(?:\.[0-9A-Za-z-]+)*\<close>.\<close>

definition is_number :: "string \<Rightarrow> bool" where
  "is_number s \<longleftrightarrow> s \<noteq> [] \<and> list_all is_digit s \<and> (hd s = CHR ''0'' \<longrightarrow> s = ''0'')"

definition ident_char :: "char \<Rightarrow> bool" where
  "ident_char c \<longleftrightarrow> is_digit c \<or> (65 \<le> byte c \<and> byte c \<le> 90) \<or> (97 \<le> byte c \<and> byte c \<le> 122) \<or> c = CHR ''-''"

definition is_idents :: "string \<Rightarrow> bool" where
  "is_idents s \<longleftrightarrow> list_all (\<lambda>w. w \<noteq> [] \<and> list_all ident_char w) (split_on CHR ''.'' s)"

text \<open>
  The submatches of \<^verbatim>\<open>semVerPattern\<close>: the core ends at the first \<open>-\<close> or \<open>+\<close>, a pre-release at the first \<open>+\<close>.
\<close>

definition match_build :: "string \<Rightarrow> string option" where
  "match_build s = (case s of [] \<Rightarrow> Some [] | c # b \<Rightarrow> (if c = CHR ''+'' \<and> is_idents b then Some b else None))"

definition match_tail :: "string \<Rightarrow> (string \<times> string) option" where
  "match_tail s =
     (case s of
        c # r \<Rightarrow>
          (if c = CHR ''-''
           then let pre = takeWhile (\<lambda>c. c \<noteq> CHR ''+'') r
                in if is_idents pre then map_option (Pair pre) (match_build (dropWhile (\<lambda>c. c \<noteq> CHR ''+'') r)) else None
           else map_option (Pair []) (match_build s))
      | [] \<Rightarrow> Some ([], []))"

definition in_core :: "char \<Rightarrow> bool" where
  "in_core c \<longleftrightarrow> c \<noteq> CHR ''-'' \<and> c \<noteq> CHR ''+''"

definition semVerPattern :: "string \<Rightarrow> (string \<times> string \<times> string \<times> string \<times> string) option" where
  "semVerPattern raw =
     (let s = (case raw of c # cs \<Rightarrow> (if c = CHR ''v'' then cs else raw) | [] \<Rightarrow> []) in
      case split_on CHR ''.'' (takeWhile in_core s) of
        [a, b, c] \<Rightarrow>
          (if is_number a \<and> is_number b \<and> is_number c
           then map_option (\<lambda>(pre, build). (a, b, c, pre, build)) (match_tail (dropWhile in_core s))
           else None)
      | _ \<Rightarrow> None)"

fun validate_ids :: "string list \<Rightarrow> err option" where
  "validate_ids [] = None"
| "validate_ids (w # ws) =
     (if w = [] then Some (ENew ''invalid prerelease identifier: empty'')
      else if parse_int w \<noteq> None \<and> 1 < length w \<and> hd w = CHR ''0''
        then Some (ENew (''invalid prerelease numeric identifier '' @ quoted w @ '': leading zero''))
      else validate_ids ws)"

definition validatePreRelease :: "string \<Rightarrow> err option" where
  "validatePreRelease pr = (if pr = [] then None else validate_ids (split_on CHR ''.'' pr))"

text \<open>The error of \<^verbatim>\<open>strconv.ParseInt\<close> is \<open>range_error\<close>: the digits are checked already.\<close>

definition range_error :: "string \<Rightarrow> err" where
  "range_error s = ENew (''strconv.ParseInt: parsing '' @ quoted s @ '': value out of range'')"

definition Parse :: "string \<Rightarrow> semver result" where
  "Parse raw0 =
     (let raw = trim_space raw0 in
      if raw = [] then Inl (ENew ''version cannot be empty'')
      else case semVerPattern raw of
        None \<Rightarrow> Inl (ENew (''invalid semantic version: '' @ quoted raw))
      | Some (a, b, c, pre, build) \<Rightarrow>
          (case parse_int a of
             None \<Rightarrow> Inl (EWrap ''invalid major version: '' (range_error a) [])
           | Some major \<Rightarrow>
               (case parse_int b of
                  None \<Rightarrow> Inl (EWrap ''invalid minor version: '' (range_error b) [])
                | Some minor \<Rightarrow>
                    (case parse_int c of
                       None \<Rightarrow> Inl (EWrap ''invalid patch version: '' (range_error c) [])
                     | Some patch \<Rightarrow>
                         (case validatePreRelease pre of
                            Some e \<Rightarrow> Inl e
                          | None \<Rightarrow> Inr \<lparr>sv_Major = major, sv_Minor = minor, sv_Patch = patch,
                              sv_PreRelease = pre, sv_Build = build\<rparr>)))))"

definition IsValid :: "string \<Rightarrow> bool" where
  "IsValid raw = (case Parse raw of Inl _ \<Rightarrow> False | Inr _ \<Rightarrow> True)"

definition semver_String :: "semver \<Rightarrow> string" where
  "semver_String v =
     itoa (sv_Major v) @ ''.'' @ itoa (sv_Minor v) @ ''.'' @ itoa (sv_Patch v)
       @ (if sv_PreRelease v \<noteq> [] then ''-'' @ sv_PreRelease v else [])
       @ (if sv_Build v \<noteq> [] then ''+'' @ sv_Build v else [])"

definition NextMajor :: "semver \<Rightarrow> semver" where
  "NextMajor v = \<lparr>sv_Major = i64 (sv_Major v + 1), sv_Minor = 0, sv_Patch = 0, sv_PreRelease = [], sv_Build = []\<rparr>"

definition NextMinor :: "semver \<Rightarrow> semver" where
  "NextMinor v =
     \<lparr>sv_Major = sv_Major v, sv_Minor = i64 (sv_Minor v + 1), sv_Patch = 0, sv_PreRelease = [], sv_Build = []\<rparr>"

definition NextPatch :: "semver \<Rightarrow> semver" where
  "NextPatch v =
     \<lparr>sv_Major = sv_Major v, sv_Minor = sv_Minor v, sv_Patch = i64 (sv_Patch v + 1), sv_PreRelease = [], sv_Build = []\<rparr>"

section \<open>Comparing\<close>

definition compareInt :: "int \<Rightarrow> int \<Rightarrow> int" where
  "compareInt a b = (if a < b then -1 else if b < a then 1 else 0)"

fun compare_parts :: "string list \<Rightarrow> string list \<Rightarrow> int" where
  "compare_parts (a # as) (b # bs) =
     (if a = b then compare_parts as bs
      else case (parse_int a, parse_int b) of
          (Some m, Some n) \<Rightarrow> compareInt m n
        | (Some _, None) \<Rightarrow> -1
        | (None, Some _) \<Rightarrow> 1
        | (None, None) \<Rightarrow> (if a < b then -1 else 1))"
| "compare_parts as bs = (if length as < length bs then -1 else 1)"

definition comparePreRelease :: "string \<Rightarrow> string \<Rightarrow> int" where
  "comparePreRelease a b =
     (if a = b then 0 else if a = [] then 1 else if b = [] then -1
      else compare_parts (split_on CHR ''.'' a) (split_on CHR ''.'' b))"

definition Compare :: "semver \<Rightarrow> semver \<Rightarrow> int" where
  "Compare v other =
     (let c = compareInt (sv_Major v) (sv_Major other) in if c \<noteq> 0 then c
      else let c = compareInt (sv_Minor v) (sv_Minor other) in if c \<noteq> 0 then c
      else let c = compareInt (sv_Patch v) (sv_Patch other) in if c \<noteq> 0 then c
      else comparePreRelease (sv_PreRelease v) (sv_PreRelease other))"

section \<open>Build information\<close>

record info =
  in_Service :: string
  in_Version :: string
  in_Commit :: string
  in_BuildTime :: string

definition normalizeOrDefault :: "string \<Rightarrow> string \<Rightarrow> string" where
  "normalizeOrDefault v fallback = (let norm = trim_space v in if norm = [] then fallback else norm)"

text \<open>The three variables set by the linker are arguments.\<close>

definition Current :: "string \<Rightarrow> string \<Rightarrow> string \<Rightarrow> string \<Rightarrow> info" where
  "Current AppVersion GitCommit BuildTime serviceName =
     \<lparr>in_Service = normalizeOrDefault serviceName ''unknown'',
      in_Version = normalizeOrDefault AppVersion ''dev'',
      in_Commit = normalizeOrDefault GitCommit ''unknown'',
      in_BuildTime = normalizeOrDefault BuildTime ''unknown''\<rparr>"

text \<open>\<open>rfc3339\<close> is \<^verbatim>\<open>time.Parse(time.RFC3339, _)\<close>.\<close>

definition ParseBuildTime :: "(string \<Rightarrow> gotime option) \<Rightarrow> info \<Rightarrow> gotime option" where
  "ParseBuildTime rfc3339 i =
     (if in_BuildTime i = [] \<or> in_BuildTime i = ''unknown'' then None else rfc3339 (in_BuildTime i))"

definition info_SemVer :: "info \<Rightarrow> semver option" where
  "info_SemVer i = (case Parse (in_Version i) of Inl _ \<Rightarrow> None | Inr v \<Rightarrow> Some v)"

section \<open>Lemmas on numbers and identifiers\<close>

lemma show_nat_leading: "hd (show_nat n) = CHR ''0'' \<Longrightarrow> show_nat n = ''0''"
proof (induction n rule: show_nat.induct)
  case (1 n)
  show ?case
  proof (cases "n < 10")
    case True
    with 1(2) have "digit_char n = CHR ''0''" by (simp add: show_nat.simps [of n])
    with True show ?thesis by (simp add: show_nat.simps [of n])
  next
    case False
    then have n: "show_nat n = show_nat (n div 10) @ [digit_char (n mod 10)]" by (simp add: show_nat.simps [of n])
    with 1(2) have "hd (show_nat (n div 10)) = CHR ''0''" by (simp add: hd_append)
    with 1(1) False have "show_nat (n div 10) = ''0''" by simp
    moreover have "digits_value ''0'' = 0" by (simp add: digits_value_def)
    ultimately have "n div 10 = 0" using digits_value_show_nat [of "n div 10"] by simp
    with False show ?thesis by simp
  qed
qed

lemma is_number_itoa: "0 \<le> n \<Longrightarrow> is_number (itoa n)"
  by (simp add: is_number_def itoa_def show_nat_digits show_nat_leading)

lemma parse_int_number:
  assumes "is_number s" and "parse_int s = Some n"
  shows "0 \<le> n \<and> fits64 n"
proof -
  have "s \<noteq> []" "is_digit (hd s)" using assms(1) by (auto simp: is_number_def neq_Nil_conv)
  then have "\<exists>m. n = int m" "fits64 n" using assms(2)
    by (auto simp: parse_int_def Let_def neq_Nil_conv split: if_splits option.splits)
  then show ?thesis by auto
qed

lemma is_idents_chars: "is_idents s \<Longrightarrow> c \<in> set s \<Longrightarrow> ident_char c \<or> c = CHR ''.''"
  using set_join_with [of "''.''" "split_on CHR ''.'' s"] join_split [of "CHR ''.''" s]
  by (auto simp: is_idents_def list_all_iff)

lemma ident_char_plain: "ident_char c \<or> c = CHR ''.'' \<Longrightarrow> c \<noteq> CHR ''+'' \<and> byte c < 128 \<and> \<not> ascii_space c"
  by (auto simp: ident_char_def is_digit_def ascii_space_def)

lemma is_idents_nonempty: "is_idents s \<Longrightarrow> s \<noteq> []"
  by (auto simp: is_idents_def)

section \<open>Printing and parsing again\<close>

definition parsed :: "semver \<Rightarrow> bool" where
  "parsed v \<longleftrightarrow> list_all (\<lambda>n. 0 \<le> n \<and> fits64 n) [sv_Major v, sv_Minor v, sv_Patch v]
     \<and> (sv_PreRelease v = [] \<or> is_idents (sv_PreRelease v)) \<and> validatePreRelease (sv_PreRelease v) = None
     \<and> (sv_Build v = [] \<or> is_idents (sv_Build v))"

lemma match_tail_idents:
  "match_tail s = Some (pre, build) \<Longrightarrow> (pre = [] \<or> is_idents pre) \<and> (build = [] \<or> is_idents build)"
  by (auto simp: match_tail_def match_build_def Let_def split: list.splits if_splits)

lemma Parse_parsed:
  assumes "Parse raw = Inr v"
  shows "parsed v"
proof -
  obtain a b c pre build where m: "semVerPattern (trim_space raw) = Some (a, b, c, pre, build)"
    and p: "parse_int a = Some (sv_Major v)" "parse_int b = Some (sv_Minor v)" "parse_int c = Some (sv_Patch v)"
      "validatePreRelease pre = None" "sv_PreRelease v = pre" "sv_Build v = build"
    using assms by (auto simp: Parse_def Let_def split: if_splits option.splits)
  from m have n: "is_number a" "is_number b" "is_number c" and t: "(pre = [] \<or> is_idents pre) \<and> (build = [] \<or> is_idents build)"
    by (auto simp: semVerPattern_def Let_def split: list.splits if_splits dest: match_tail_idents)
  show ?thesis
    using parse_int_number [OF n(1) p(1)] parse_int_number [OF n(2) p(2)] parse_int_number [OF n(3) p(3)] t p(4-6)
    by (simp add: parsed_def)
qed

text \<open>The parts of a printed version.\<close>

definition core_text :: "semver \<Rightarrow> string" where
  "core_text v = itoa (sv_Major v) @ ''.'' @ itoa (sv_Minor v) @ ''.'' @ itoa (sv_Patch v)"

definition build_text :: "semver \<Rightarrow> string" where
  "build_text v = (if sv_Build v \<noteq> [] then ''+'' @ sv_Build v else [])"

definition tail_text :: "semver \<Rightarrow> string" where
  "tail_text v = (if sv_PreRelease v \<noteq> [] then ''-'' @ sv_PreRelease v else []) @ build_text v"

lemma String_parts: "semver_String v = core_text v @ tail_text v"
  by (simp add: semver_String_def core_text_def tail_text_def build_text_def)

lemma itoa_digits: "0 \<le> n \<Longrightarrow> c \<in> set (itoa n) \<Longrightarrow> is_digit c"
  using show_nat_digits [of "nat n"] by (simp add: itoa_def list_all_iff)

lemma core_text_chars:
  assumes "parsed v" and "c \<in> set (core_text v)"
  shows "is_digit c \<or> c = CHR ''.''"
  using assms itoa_digits [of "sv_Major v"] itoa_digits [of "sv_Minor v"] itoa_digits [of "sv_Patch v"]
  by (auto simp: core_text_def parsed_def)

lemma core_text_in_core: "parsed v \<Longrightarrow> c \<in> set (core_text v) \<Longrightarrow> in_core c"
  using core_text_chars [of v c] by (auto simp: in_core_def)

lemma tail_text_head: "tail_text v = [] \<or> \<not> in_core (hd (tail_text v))"
  by (simp add: tail_text_def build_text_def in_core_def)

lemma core_cut:
  assumes "parsed v"
  shows "takeWhile in_core (semver_String v) = core_text v" "dropWhile in_core (semver_String v) = tail_text v"
proof -
  have t: "takeWhile in_core (tail_text v) = []" "dropWhile in_core (tail_text v) = tail_text v"
    using tail_text_head [of v] by (cases "tail_text v"; simp)+
  show "takeWhile in_core (semver_String v) = core_text v" "dropWhile in_core (semver_String v) = tail_text v"
    using core_text_in_core [OF assms] t by (simp_all add: String_parts)
qed

lemma core_split: 
  assumes "parsed v"
  shows "split_on CHR ''.'' (core_text v) = [itoa (sv_Major v), itoa (sv_Minor v), itoa (sv_Patch v)]"
proof -
  have "CHR ''.'' \<notin> set (itoa n)" if "0 \<le> n" for n
    using itoa_digits [OF that, of "CHR ''.''"] by (auto simp: is_digit_def)
  then show ?thesis using assms by (simp add: core_text_def parsed_def split_on_append split_on_no_sep)
qed

lemma match_tail_text:
  assumes "parsed v"
  shows "match_tail (tail_text v) = Some (sv_PreRelease v, sv_Build v)"
proof -
  have b: "match_build (build_text v) = Some (sv_Build v)"
    using assms by (auto simp: match_build_def build_text_def parsed_def)
  have n: "c \<noteq> CHR ''+''" if "sv_PreRelease v \<noteq> []" "c \<in> set (sv_PreRelease v)" for c
    using assms that is_idents_chars [of "sv_PreRelease v" c] ident_char_plain [of c] by (auto simp: parsed_def)
  have t: "takeWhile (\<lambda>c. c \<noteq> CHR ''+'') (build_text v) = []" "dropWhile (\<lambda>c. c \<noteq> CHR ''+'') (build_text v) = build_text v"
    by (simp_all add: build_text_def)
  show ?thesis
  proof (cases "sv_PreRelease v = []")
    case True
    then show ?thesis using b by (auto simp: match_tail_def tail_text_def build_text_def)
  next
    case False
    then show ?thesis using n t b assms by (simp add: match_tail_def tail_text_def parsed_def)
  qed
qed

lemma String_plain:
  assumes "parsed v" and "c \<in> set (semver_String v)"
  shows "byte c < 128 \<and> \<not> ascii_space c"
proof -
  have "ident_char c \<or> c = CHR ''.'' \<or> c = CHR ''+''"
    using assms core_text_chars [OF assms(1), of c] is_idents_chars [of _ c]
    by (auto simp: String_parts tail_text_def build_text_def ident_char_def parsed_def split: if_splits)
  then show ?thesis using ident_char_plain [of c] by (auto simp: ascii_space_def)
qed

lemma Parse_String:
  assumes "parsed v"
  shows "Parse (semver_String v) = Inr v"
proof -
  have t: "trim_space (semver_String v) = semver_String v"
    using String_plain [OF assms] by (intro trim_space_plain) blast
  obtain c cs where h: "semver_String v = c # cs" "is_digit c"
    using show_nat_Cons [of "nat (sv_Major v)"] assms
    by (auto simp: String_parts core_text_def itoa_def parsed_def)
  have "c \<noteq> CHR ''v''" using h(2) by (auto simp: is_digit_def)
  then have "semVerPattern (semver_String v)
      = Some (itoa (sv_Major v), itoa (sv_Minor v), itoa (sv_Patch v), sv_PreRelease v, sv_Build v)"
    using core_cut [OF assms] core_split [OF assms] match_tail_text [OF assms] assms h
    by (simp add: semVerPattern_def is_number_itoa parsed_def)
  then show ?thesis using t h assms by (simp add: Parse_def parsed_def)
qed

text \<open>
  A version that parses is printed in a form that parses to the same version, all five parts kept,
  so the printed form is canonical: surrounding white space and a leading \<open>v\<close> are all that is lost.
\<close>

lemma semver_roundtrip:
  assumes "Parse raw = Inr v"
  shows "Parse (semver_String v) = Inr v \<and> 0 \<le> sv_Major v \<and> 0 \<le> sv_Minor v \<and> 0 \<le> sv_Patch v"
  using Parse_parsed [OF assms] Parse_String by (simp add: parsed_def)

section \<open>The precedence of the specification\<close>

text \<open>
  An identifier of digits is a number; numbers come before other identifiers, which are ordered by
  their bytes.  A version with pre-release identifiers comes before the same one without.
\<close>

datatype ident = Num int | Alpha string

instantiation ident :: linorder
begin

fun less_eq_ident :: "ident \<Rightarrow> ident \<Rightarrow> bool" where
  "less_eq_ident (Num m) (Num n) = (m \<le> n)"
| "less_eq_ident (Num m) (Alpha b) = True"
| "less_eq_ident (Alpha a) (Num n) = False"
| "less_eq_ident (Alpha a) (Alpha b) = (a \<le> b)"

definition less_ident :: "ident \<Rightarrow> ident \<Rightarrow> bool" where
  "less_ident x y \<longleftrightarrow> x \<le> y \<and> \<not> y \<le> x"

instance
proof
  fix x y z :: ident
  show "(x < y) = (x \<le> y \<and> \<not> y \<le> x)" by (rule less_ident_def)
  show "x \<le> x" by (cases x) simp_all
  show "x \<le> y \<Longrightarrow> y \<le> z \<Longrightarrow> x \<le> z" by (cases x; cases y; cases z) simp_all
  show "x \<le> y \<Longrightarrow> y \<le> x \<Longrightarrow> x = y" by (cases x; cases y) simp_all
  show "x \<le> y \<or> y \<le> x" by (cases x; cases y) auto
qed

end

definition ident_of :: "string \<Rightarrow> ident" where
  "ident_of w = (if list_all is_digit w then Num (int (digits_value w)) else Alpha w)"

type_synonym precedence = "int \<times> int \<times> int \<times> bool \<times> ident list"

definition precedence :: "semver \<Rightarrow> precedence" where
  "precedence v = (sv_Major v, sv_Minor v, sv_Patch v, sv_PreRelease v = [],
     if sv_PreRelease v = [] then [] else map ident_of (split_on CHR ''.'' (sv_PreRelease v)))"

definition compare_by :: "'a :: linorder \<Rightarrow> 'a \<Rightarrow> int" where
  "compare_by x y = (if x < y then -1 else if y < x then 1 else 0)"

text \<open>The identifiers the code reads as the specification does: digits in the 64-bit range, or neither digits nor a signed number.\<close>

definition plain_ident :: "string \<Rightarrow> bool" where
  "plain_ident w \<longleftrightarrow> (list_all is_digit w \<longleftrightarrow> parse_int w \<noteq> None)"

definition plain_version :: "semver \<Rightarrow> bool" where
  "plain_version v \<longleftrightarrow> list_all plain_ident (split_on CHR ''.'' (sv_PreRelease v))"

lemma show_digits_value:
  assumes "is_number s"
  shows "show_nat (digits_value s) = s"
  using assms
proof (induction s rule: rev_induct)
  case (snoc c r)
  have d: "is_digit c" using snoc.prems by (simp add: is_number_def)
  then have c: "digit_char (byte c - 48) = c" "byte c - 48 < 10"
    by (auto simp: is_digit_def digit_char_def)
  show ?case
  proof (cases "r = []")
    case True
    then show ?thesis using c by (simp add: digits_value_def show_nat.simps)
  next
    case False
    then have r: "is_number r" "hd r \<noteq> CHR ''0''"
      using snoc.prems by (auto simp: is_number_def hd_append)
    then have s: "show_nat (digits_value r) = r" using snoc.IH by simp
    have "digits_value r \<noteq> 0"
    proof
      assume "digits_value r = 0"
      with s have "r = [digit_char 0]" by (simp add: show_nat.simps)
      moreover have "digit_char 0 = CHR ''0''" by code_simp
      ultimately show False using r(2) by simp
    qed
    then show ?thesis using s c by (simp add: digits_value_snoc show_nat.simps [of "10 * digits_value r + (byte c - 48)"])
  qed
qed (simp add: is_number_def)

lemma digits_value_inj: "is_number a \<Longrightarrow> is_number b \<Longrightarrow> digits_value a = digits_value b \<Longrightarrow> a = b"
  by (metis show_digits_value)

text \<open>What the validation leaves: no empty identifier, no leading zero.\<close>

definition canonical :: "string \<Rightarrow> bool" where
  "canonical w \<longleftrightarrow> w \<noteq> [] \<and> (parse_int w \<noteq> None \<longrightarrow> 1 < length w \<longrightarrow> hd w \<noteq> CHR ''0'')"

lemma validate_ids_canonical: "validate_ids ws = None \<longleftrightarrow> list_all canonical ws"
  by (induction ws) (auto simp: canonical_def)

lemma parse_int_digits: "list_all is_digit w \<Longrightarrow> parse_int w = Some n \<Longrightarrow> n = int (digits_value w)"
  by (auto simp: parse_int_def parse_digits_def Let_def split: list.splits if_splits option.splits)

lemma plain_number: "plain_ident w \<Longrightarrow> canonical w \<Longrightarrow> list_all is_digit w \<Longrightarrow> is_number w"
  by (cases w; cases "tl w") (auto simp: plain_ident_def canonical_def is_number_def)

lemma ident_of_plain:
  assumes "plain_ident w"
  shows "ident_of w = (case parse_int w of None \<Rightarrow> Alpha w | Some n \<Rightarrow> Num n)"
  using assms parse_int_digits [of w] by (auto simp: plain_ident_def ident_of_def split: option.splits)

lemma ident_of_inj:
  assumes "plain_ident a" "canonical a" "plain_ident b" "canonical b" and "ident_of a = ident_of b"
  shows "a = b"
  using assms plain_number [of a] plain_number [of b] digits_value_inj [of a b]
  by (auto simp: ident_of_def split: if_splits)

lemma compare_by_Cons:
  "compare_by (x # xs) (y # ys) = (if x = y then compare_by xs ys else compare_by x y)"
  by (auto simp: compare_by_def)

lemma Nil_less_map: "[] < map ident_of ws \<longleftrightarrow> ws \<noteq> []"
  by (cases ws) simp_all

lemma compare_parts_spec:
  assumes "list_all (\<lambda>w. plain_ident w \<and> canonical w) as" "list_all (\<lambda>w. plain_ident w \<and> canonical w) bs" "as \<noteq> bs"
  shows "compare_parts as bs = compare_by (map ident_of as) (map ident_of bs)"
  using assms
proof (induction as bs rule: compare_parts.induct)
  case (1 a as b bs)
  show ?case
  proof (cases "a = b")
    case True
    then show ?thesis using 1 by (simp add: compare_by_Cons)
  next
    case False
    have p: "plain_ident a" "plain_ident b" "canonical a" "canonical b" using 1 by simp_all
    then have "ident_of a \<noteq> ident_of b" using False ident_of_inj [of a b] by blast
    then have "compare_by (map ident_of (a # as)) (map ident_of (b # bs)) = compare_by (ident_of a) (ident_of b)"
      by (simp add: compare_by_Cons)
    also have "\<dots> = compare_parts (a # as) (b # bs)"
      using False p ident_of_plain [of a] ident_of_plain [of b]
      by (cases "parse_int a"; cases "parse_int b") (auto simp: compareInt_def compare_by_def less_ident_def)
    finally show ?thesis by simp
  qed
qed (auto simp: compare_by_def Nil_less_map)

lemma comparePreRelease_spec:
  assumes "validatePreRelease a = None" "validatePreRelease b = None"
    and "list_all plain_ident (split_on CHR ''.'' a)" "list_all plain_ident (split_on CHR ''.'' b)"
  shows "comparePreRelease a b = compare_by (a = [], if a = [] then [] else map ident_of (split_on CHR ''.'' a))
    (b = [], if b = [] then [] else map ident_of (split_on CHR ''.'' b))"
proof (cases "a = b \<or> a = [] \<or> b = []")
  case True
  then show ?thesis by (auto simp: comparePreRelease_def compare_by_def)
next
  case False
  have "split_on CHR ''.'' a \<noteq> split_on CHR ''.'' b" using False join_split by metis
  moreover have "list_all (\<lambda>w. plain_ident w \<and> canonical w) (split_on CHR ''.'' a)"
    "list_all (\<lambda>w. plain_ident w \<and> canonical w) (split_on CHR ''.'' b)"
    using assms False by (auto simp: validatePreRelease_def validate_ids_canonical list_all_iff split: if_splits)
  ultimately show ?thesis
    using False compare_parts_spec [of "split_on CHR ''.'' a" "split_on CHR ''.'' b"]
    by (simp add: comparePreRelease_def compare_by_def)
qed



text \<open>
  Outside that domain.  The identifiers \<open>-0\<close> and \<open>0\<close> are read as the same number, after which the rest is
  not looked at: versions compare as equal that differ, and the comparison is not transitive.  The
  specification orders \<open>-1\<close> after every number, the code before \<open>0\<close>.
\<close>

lemma Compare_not_transitive:
  "case (Parse ''1.0.0-0.1'', Parse ''1.0.0--0'', Parse ''1.0.0-0.2'') of
     (Inr a, Inr b, Inr c) \<Rightarrow> Compare a b = 0 \<and> Compare b c = 0 \<and> Compare a c = -1
   | _ \<Rightarrow> False"
  by code_simp

lemma Compare_signed:
  "case (Parse ''1.0.0--1'', Parse ''1.0.0-0'') of
     (Inr a, Inr b) \<Rightarrow> Compare a b = -1 \<and> precedence b < precedence a
   | _ \<Rightarrow> False"
  by code_simp

text \<open>The next versions come after the one they follow, unless the number was the largest one.\<close>

lemma Next_above:
  assumes "Parse x = Inr v" and "sv_Major v < 2 ^ 63 - 1" "sv_Minor v < 2 ^ 63 - 1" "sv_Patch v < 2 ^ 63 - 1"
  shows "Compare v (NextMajor v) = -1" "Compare v (NextMinor v) = -1" "Compare v (NextPatch v) = -1"
  using assms(2-4) Parse_parsed [OF assms(1)]
  by (simp_all add: parsed_def Compare_def compareInt_def NextMajor_def NextMinor_def NextPatch_def fits64_def)

end
