(* ===== verification/Http.thy ===== *)
theory Http
  imports Errors
begin

text \<open>
  What the middleware theories share of \<^verbatim>\<open>net/http\<close>: header fields under canonical names, requests,
  and the outcome of a middleware, which either answers itself or passes a request on.
\<close>

section \<open>Header fields\<close>

text \<open>
  \<^verbatim>\<open>textproto.CanonicalMIMEHeaderKey\<close>: the first letter and every letter after a hyphen in upper case,
  the others in lower case; a name with a byte that is not allowed in a field name is kept.
\<close>

definition token_char :: "char \<Rightarrow> bool" where
  "token_char c \<longleftrightarrow> is_digit c \<or> (65 \<le> byte c \<and> byte c \<le> 90) \<or> (97 \<le> byte c \<and> byte c \<le> 122)
     \<or> c \<in> set ''!#$%&*+-.^_|~`'' \<or> c = CHR 0x27"

fun canon_from :: "bool \<Rightarrow> string \<Rightarrow> string" where
  "canon_from up [] = []"
| "canon_from up (c # cs) = (if up then upper_char c else lower_char c) # canon_from (c = CHR ''-'') cs"

definition header_name :: "string \<Rightarrow> string" where
  "header_name s = (if list_all token_char s then canon_from True s else s)"

text \<open>The first value of each field, \<open>[]\<close> when there is none: what \<^verbatim>\<open>Header.Get\<close> returns.\<close>

type_synonym header = "string \<Rightarrow> string"

definition header_get :: "header \<Rightarrow> string \<Rightarrow> string" where
  "header_get h k = h (header_name k)"

definition header_set :: "string \<Rightarrow> string \<Rightarrow> header \<Rightarrow> header" where
  "header_set k v h = h(header_name k := v)"

lemma header_get_set [simp]: "header_get (header_set k v h) k' = (if header_name k' = header_name k then v else header_get h k')"
  by (simp add: header_get_def header_set_def)

text \<open>\<^verbatim>\<open>appendVary\<close>, which \<^verbatim>\<open>http/cors\<close> and \<^verbatim>\<open>http/middleware/compression\<close> have each.\<close>

definition appendVary :: "string \<Rightarrow> header \<Rightarrow> header" where
  "appendVary v h =
     (let current = header_get h ''Vary'' in
      if current = [] then header_set ''Vary'' v h
      else if list_ex (\<lambda>p. equal_fold (trim_space p) v) (split_on CHR '','' current) then h
      else header_set ''Vary'' (current @ '', '' @ v) h)"

text \<open>\<^verbatim>\<open>strings.HasSuffix\<close>.\<close>

definition has_suffix :: "string \<Rightarrow> string \<Rightarrow> bool" where
  "has_suffix s p \<longleftrightarrow> has_prefix (rev s) (rev p)"

lemma has_prefix_iff: "has_prefix s p \<longleftrightarrow> (\<exists>r. s = p @ r)"
  by (induction s p rule: has_prefix.induct) auto

lemma has_suffix_iff: "has_suffix s p \<longleftrightarrow> (\<exists>r. s = r @ p)"
proof -
  have "has_suffix s p \<longleftrightarrow> (\<exists>r. rev s = rev p @ r)" by (simp add: has_suffix_def has_prefix_iff)
  also have "\<dots> \<longleftrightarrow> (\<exists>r. s = r @ p)" by (metis rev_append rev_rev_ident)
  finally show ?thesis .
qed

text \<open>\<^verbatim>\<open>hex.EncodeToString\<close>.\<close>

definition hex_lower :: "nat \<Rightarrow> char" where
  "hex_lower d = (if d < 10 then char_of (48 + d) else char_of (87 + d))"

definition hex :: "string \<Rightarrow> string" where
  "hex s = concat (map (\<lambda>c. [hex_lower (byte c div 16), hex_lower (byte c mod 16)]) s)"

section \<open>Requests\<close>

record http_request =
  hr_Method :: string
  hr_Path :: string
  hr_Header :: header
  hr_Param :: "string \<Rightarrow> string"
  hr_Query :: "string \<Rightarrow> string"

text \<open>A middleware answers with a status and a text, or calls the next handler with a request.\<close>

datatype 'r outcome = Answer int string | Proceed 'r

definition and_then :: "('a \<Rightarrow> 'b outcome) \<Rightarrow> ('b \<Rightarrow> 'c outcome) \<Rightarrow> 'a \<Rightarrow> 'c outcome" where
  "and_then f g r = (case f r of Answer s m \<Rightarrow> Answer s m | Proceed r' \<Rightarrow> g r')"

lemma and_then_Proceed: "and_then f g r = Proceed r'' \<longleftrightarrow> (\<exists>r'. f r = Proceed r' \<and> g r' = Proceed r'')"
  by (auto simp: and_then_def split: outcome.splits)

end
