(* ===== verification/Access.thy ===== *)
theory Access
  imports Http
begin

text \<open>
  Authentication and authorization: the claims of a verified token (\<^verbatim>\<open>pkg/auth/jwt.go\<close>), the policy
  evaluators (\<^verbatim>\<open>pkg/policy/policy.go\<close>) and the middlewares over them (\<^verbatim>\<open>pkg/http/authentication\<close>,
  \<^verbatim>\<open>pkg/http/authorization\<close>).  The verification of a token's signature and times by the JWT library is a
  parameter, as are regular expressions; the times of the claims, which only that library looks at,
  are left out.  A Go map whose iteration order matters is the list of its
  entries in that order.
\<close>

section \<open>Claims\<close>

text \<open>JSON values as far as the code tells them apart; \<open>ClScalar\<close> carries the text of \<^verbatim>\<open>%v\<close>.\<close>

datatype claim_value =
  ClString string
| ClStringer string
| ClScalar string
| ClList "claim_value list"
| ClOther

type_synonym map_claims = "(string \<times> claim_value) list"
type_synonym mappings = "(string \<times> string list) list"

record claims =
  cl_Subject :: string
  cl_Issuer :: string
  cl_Audience :: "string list"
  cl_TenantID :: string
  cl_Scopes :: "string list"
  cl_Roles :: "string list"
  cl_Custom :: "string \<rightharpoonup> claim_value"

text \<open>\<^verbatim>\<open>dedupeStrings\<close>: trimmed, without blanks, without repetitions up to case.\<close>

fun dedupe_from :: "string list \<Rightarrow> string list \<Rightarrow> string list" where
  "dedupe_from seen [] = []"
| "dedupe_from seen (v # vs) =
     (let t = trim_space v; k = to_lower t
      in if t = [] \<or> k \<in> set seen then dedupe_from seen vs else t # dedupe_from (k # seen) vs)"

definition dedupeStrings :: "string list \<Rightarrow> string list" where
  "dedupeStrings vs = dedupe_from [] vs"

definition claimCandidates :: "string \<Rightarrow> string list \<Rightarrow> string list" where
  "claimCandidates name aliases = dedupeStrings (name # filter (\<lambda>a. a \<noteq> []) (map trim_space aliases))"

text \<open>The part after the last slash, when something follows it.\<close>

definition last_segment :: "string \<Rightarrow> string" where
  "last_segment s = (let t = rev (takeWhile (\<lambda>c. c \<noteq> CHR ''/'') (rev s)) in if t = [] then s else t)"

text \<open>\<^verbatim>\<open>claimSuffixes\<close>; the code sorts them, which only fixes the order in which equal matches are tried.\<close>

definition claimSuffixes :: "string \<Rightarrow> string list \<Rightarrow> string list" where
  "claimSuffixes name aliases =
     remdups (map (\<lambda>n. ''/'' @ last_segment n)
       (filter (\<lambda>n. n \<noteq> [] \<and> \<not> blank (last_segment n)) (map (\<lambda>n. to_lower (trim_space n)) (name # aliases))))"

definition matches_suffix :: "string list \<Rightarrow> string \<Rightarrow> bool" where
  "matches_suffix suffixes key \<longleftrightarrow> list_ex (has_suffix (to_lower (trim_space key))) suffixes"

definition mapping_of :: "mappings \<Rightarrow> string \<Rightarrow> string list" where
  "mapping_of ms n = (case map_of ms n of None \<Rightarrow> [] | Some as \<Rightarrow> as)"

definition nonblank_string :: "claim_value \<Rightarrow> string option" where
  "nonblank_string v = (case v of ClString s \<Rightarrow> (let t = trim_space s in if t = [] then None else Some t) | _ \<Rightarrow> None)"

definition extractClaimByMapping :: "map_claims \<Rightarrow> string \<Rightarrow> mappings \<Rightarrow> string" where
  "extractClaimByMapping mc claimName ms =
     (let n = to_lower (trim_space claimName) in
      if n = [] then []
      else let aliases = mapping_of ms n;
               direct = List.map_filter (\<lambda>c. Option.bind (map_of mc (trim_space c)) nonblank_string)
                          (filter (\<lambda>c. \<not> blank c) (n # aliases));
               suffixed = List.map_filter (\<lambda>(k, v). if matches_suffix (claimSuffixes n aliases) k then nonblank_string v else None) mc
           in case direct @ suffixed of [] \<Rightarrow> [] | v # _ \<Rightarrow> v)"

text \<open>\<^verbatim>\<open>parseScopes\<close>: the words between spaces.\<close>

definition parseScopes :: "string \<Rightarrow> string list" where
  "parseScopes s = filter (\<lambda>w. w \<noteq> []) (split_on CHR '' '' s)"

definition slice_values :: "bool \<Rightarrow> claim_value \<Rightarrow> string list" where
  "slice_values splitOnSpaces v =
     (case v of
        ClString s \<Rightarrow> (if splitOnSpaces then parseScopes s else let t = trim_space s in if t = [] then [] else [t])
      | ClList vs \<Rightarrow> List.map_filter nonblank_string vs
      | _ \<Rightarrow> [])"

definition extractStringSliceByMapping :: "map_claims \<Rightarrow> string \<Rightarrow> mappings \<Rightarrow> bool \<Rightarrow> string list" where
  "extractStringSliceByMapping mc claimName ms splitOnSpaces =
     (let n = to_lower (trim_space claimName) in
      if n = [] then []
      else let aliases = mapping_of ms n;
               direct = concat (map (\<lambda>c. case map_of mc c of None \<Rightarrow> [] | Some v \<Rightarrow> slice_values splitOnSpaces v)
                          (claimCandidates n aliases));
               suffixed = concat (map (\<lambda>(k, v). if matches_suffix (claimSuffixes n aliases) k
                            then slice_values splitOnSpaces v else []) mc)
           in dedupeStrings (direct @ suffixed))"

definition addScope :: "string \<Rightarrow> string list \<Rightarrow> string list" where
  "addScope v scopes = (let t = trim_space v in if t = [] \<or> t \<in> set scopes then scopes else scopes @ [t])"

fun permission_items :: "claim_value \<Rightarrow> string list" where
  "permission_items (ClList vs) = List.map_filter (\<lambda>v. case v of ClString s \<Rightarrow> Some s | _ \<Rightarrow> None) vs"
| "permission_items (ClString s) = parseScopes s"
| "permission_items _ = []"

definition appendPermissionsAsScopes :: "string list \<Rightarrow> map_claims \<Rightarrow> string list" where
  "appendPermissionsAsScopes scopes mc =
     (let direct = (case map_of mc ''permissions'' of None \<Rightarrow> [] | Some v \<Rightarrow> permission_items v);
          suffixed = concat (map (\<lambda>(k, v). if has_suffix (to_lower (trim_space k)) ''/permissions''
                       then permission_items v else []) mc)
      in fold addScope (direct @ suffixed) scopes)"

definition isNamespacedMappedClaimKey :: "string \<Rightarrow> mappings \<Rightarrow> bool" where
  "isNamespacedMappedClaimKey key ms \<longleftrightarrow> \<not> blank key
     \<and> list_ex (\<lambda>(n, as). matches_suffix (claimSuffixes (to_lower (trim_space n)) as) key) ms"

text \<open>The keys that are not custom claims: the times, and every mapped name and alias.\<close>

definition standard_claims :: "mappings \<Rightarrow> string list" where
  "standard_claims ms = [''exp'', ''iat'', ''nbf'', ''jti''] @
     concat (map (\<lambda>(n, as). filter (\<lambda>w. w \<noteq> []) (to_lower (trim_space n) # map trim_space as)) ms)"

definition extractClaims :: "mappings \<Rightarrow> map_claims \<Rightarrow> claims" where
  "extractClaims ms mc =
     \<lparr>cl_Subject = extractClaimByMapping mc ''subject'' ms,
      cl_Issuer = extractClaimByMapping mc ''issuer'' ms,
      cl_Audience = extractStringSliceByMapping mc ''audience'' ms False,
      cl_TenantID = extractClaimByMapping mc ''tenant_id'' ms,
      cl_Scopes = appendPermissionsAsScopes (extractStringSliceByMapping mc ''scopes'' ms True) mc,
      cl_Roles = extractStringSliceByMapping mc ''roles'' ms True,
      cl_Custom = map_of (filter (\<lambda>(k, v). k \<notin> set (standard_claims ms) \<and> \<not> isNamespacedMappedClaimKey k ms) mc)\<rparr>"

definition default_mappings :: mappings where
  "default_mappings = [(''subject'', [''sub'']), (''issuer'', [''iss'']), (''audience'', [''aud'']),
     (''scopes'', [''scope'', ''scopes'']), (''roles'', [''role'', ''roles'']), (''tenant_id'', [''tenant_id'', ''tenantId''])]"

definition containsAudience :: "string list \<Rightarrow> string \<Rightarrow> bool" where
  "containsAudience audiences expected \<longleftrightarrow> list_ex (\<lambda>a. a = expected) audiences"

record jwt_validator =
  jv_issuer :: string
  jv_audience :: string
  jv_mappings :: mappings

text \<open>
  \<open>verify\<close> is \<^verbatim>\<open>jwt.Parse\<close> with the key function of the validator: the claims of a token whose signature and
  times are good.
\<close>

definition jwks_Validate :: "(string \<Rightarrow> map_claims result) \<Rightarrow> jwt_validator \<Rightarrow> string \<Rightarrow> claims result" where
  "jwks_Validate verify v token =
     (case verify token of
        Inl e \<Rightarrow> Inl (EWrap ''token validation failed: '' e [])
      | Inr mc \<Rightarrow>
          (let cl = extractClaims (jv_mappings v) mc in
           if cl_Issuer cl \<noteq> jv_issuer v
           then Inl (ENew (''invalid issuer: expected '' @ jv_issuer v @ '', got '' @ cl_Issuer cl))
           else if \<not> containsAudience (cl_Audience cl) (jv_audience v)
           then Inl (ENew (''invalid audience: token not intended for '' @ jv_audience v))
           else Inr cl))"

section \<open>Policies\<close>

record subject =
  su_ID :: string
  su_TenantID :: string
  su_Scopes :: "string list"
  su_Roles :: "string list"
  su_Attrs :: "string \<rightharpoonup> string"

datatype scope_logic = ScopeLogicAND | ScopeLogicOR

fun normalize_from :: "string list \<Rightarrow> string list \<Rightarrow> string list" where
  "normalize_from seen [] = []"
| "normalize_from seen (v # vs) =
     (let t = trim_space v
      in if t = [] \<or> t \<in> set seen then normalize_from seen vs else t # normalize_from (t # seen) vs)"

definition normalizeStrings :: "string list \<Rightarrow> string list" where
  "normalizeStrings vs = normalize_from [] vs"

definition EvaluateScopes :: "subject \<Rightarrow> string list \<Rightarrow> scope_logic \<Rightarrow> bool" where
  "EvaluateScopes s scopes logic =
     (let required = normalizeStrings scopes; have = normalizeStrings (su_Scopes s) in
      if required = [] then True
      else case logic of
          ScopeLogicOR \<Rightarrow> list_ex (\<lambda>r. r \<in> set have) required
        | ScopeLogicAND \<Rightarrow> list_all (\<lambda>r. r \<in> set have) required)"

text \<open>The value of one candidate name, \<open>[]\<close> when it has none.\<close>

definition candidate_value :: "subject \<Rightarrow> string \<Rightarrow> string" where
  "candidate_value s candidate =
     (let c = to_lower (trim_space candidate) in
      if c = ''tenant_id'' then su_TenantID s
      else if c = ''subject'' then su_ID s
      else if c = ''roles'' then join_with '','' (su_Roles s)
      else if c = ''scopes'' then join_with '' '' (su_Scopes s)
      else trim_space (hget (su_Attrs s) (trim_space candidate)))"

text \<open>
  Whether the loop stops at the candidate: roles and scopes are returned when the list is not empty,
  whatever their text.
\<close>

definition candidate_found :: "subject \<Rightarrow> string \<Rightarrow> bool" where
  "candidate_found s candidate \<longleftrightarrow>
     (let c = to_lower (trim_space candidate) in
      if c = ''roles'' then su_Roles s \<noteq> []
      else if c = ''scopes'' then su_Scopes s \<noteq> []
      else candidate_value s candidate \<noteq> [])"

definition ResolveSubjectValue :: "subject \<Rightarrow> string \<Rightarrow> string list \<Rightarrow> string" where
  "ResolveSubjectValue s name aliases =
     (case filter (candidate_found s) (name # aliases) of [] \<Rightarrow> [] | c # _ \<Rightarrow> candidate_value s c)"

record claim_rule =
  cr_Claim :: string
  cr_Aliases :: "string list"
  cr_Source :: string
  cr_Key :: string
  cr_Operator :: string
  cr_Values :: "string list"
  cr_Optional :: bool

text \<open>
  \<open>resolver\<close> is the value resolver, \<open>None\<close> when nil; \<open>regex\<close> is \<^verbatim>\<open>regexp.MatchString\<close> on a pattern and a text.
\<close>

definition EvaluateClaimRule ::
  "(string \<Rightarrow> string \<Rightarrow> string result) option \<Rightarrow> (string \<Rightarrow> string \<Rightarrow> bool result) \<Rightarrow> subject \<Rightarrow> claim_rule \<Rightarrow> bool result" where
  "EvaluateClaimRule resolver regex s rule =
     (let claimValue = ResolveSubjectValue s (cr_Claim rule) (cr_Aliases rule);
          op0 = to_lower (trim_space (cr_Operator rule));
          operator = (if op0 = [] then ''required'' else op0) in
      if operator = ''required'' then Inr (claimValue \<noteq> [])
      else if operator = ''equals'' then
        (case resolver of
           None \<Rightarrow> Inl (ENew ''value resolver is required'')
         | Some resolve \<Rightarrow>
             (case resolve (cr_Source rule) (cr_Key rule) of
                Inl e \<Rightarrow> Inl e
              | Inr expected \<Rightarrow> Inr (claimValue \<noteq> [] \<and> claimValue = expected)))
      else if operator = ''one_of'' then
        (if claimValue = [] then Inr False else Inr (list_ex (\<lambda>v. claimValue = trim_space v) (cr_Values rule)))
      else if operator = ''regex'' then
        (if claimValue = [] then Inr False
         else case cr_Values rule of
             [] \<Rightarrow> Inl (ENew ''regex operator requires one pattern in values'')
           | p # _ \<Rightarrow> (if blank p then Inl (ENew ''regex operator requires one pattern in values'')
                      else regex (trim_space p) claimValue))
      else Inl (ENew ''unsupported claim operator''))"

section \<open>The middlewares\<close>

record auth_request = http_request +
  ar_Claims :: "claims option"
  ar_Tenant :: "(string \<times> string) option"

definition SetClaims :: "claims \<Rightarrow> auth_request \<Rightarrow> auth_request" where
  "SetClaims cl r =
     r\<lparr>ar_Claims := Some cl,
       ar_Tenant := (if \<not> blank (cl_TenantID cl) then Some (cl_TenantID cl, cl_Subject cl) else ar_Tenant r)\<rparr>"

definition Authenticate :: "(string \<Rightarrow> claims result) \<Rightarrow> auth_request \<Rightarrow> auth_request outcome" where
  "Authenticate validate r =
     (let authHeader = header_get (hr_Header r) ''Authorization'' in
      if authHeader = [] then Answer 401 ''missing authorization header''
      else case split_on CHR '' '' authHeader of
          [scheme, token] \<Rightarrow>
            (if scheme \<noteq> ''Bearer'' then Answer 401 ''invalid authorization header format''
             else case validate token of
                 Inl _ \<Rightarrow> Answer 401 ''invalid token''
               | Inr cl \<Rightarrow> Proceed (SetClaims cl r))
        | _ \<Rightarrow> Answer 401 ''invalid authorization header format'')"

record identity_headers =
  ih_Tenant :: string
  ih_Subject :: string
  ih_Scopes :: string
  ih_Roles :: string

definition identity_normalize :: "identity_headers \<Rightarrow> identity_headers" where
  "identity_normalize c =
     \<lparr>ih_Tenant = (if blank (ih_Tenant c) then ''X-Tenant-ID'' else ih_Tenant c),
      ih_Subject = (if blank (ih_Subject c) then ''X-Subject-ID'' else ih_Subject c),
      ih_Scopes = (if blank (ih_Scopes c) then ''X-Scopes'' else ih_Scopes c),
      ih_Roles = (if blank (ih_Roles c) then ''X-Roles'' else ih_Roles c)\<rparr>"

definition ForwardIdentityHeaders :: "identity_headers \<Rightarrow> auth_request \<Rightarrow> auth_request outcome" where
  "ForwardIdentityHeaders cfg0 r =
     (let cfg = identity_normalize cfg0 in
      case ar_Claims r of
        None \<Rightarrow> Answer 401 ''missing authentication''
      | Some cl \<Rightarrow>
          (let h0 = hr_Header r;
               h1 = (if \<not> blank (cl_TenantID cl) then header_set (ih_Tenant cfg) (cl_TenantID cl) h0 else h0);
               h2 = (if \<not> blank (cl_Subject cl) then header_set (ih_Subject cfg) (cl_Subject cl) h1 else h1);
               h3 = (if cl_Scopes cl \<noteq> [] then header_set (ih_Scopes cfg) (join_with '' '' (cl_Scopes cl)) h2 else h2);
               h4 = (if cl_Roles cl \<noteq> [] then header_set (ih_Roles cfg) (join_with '','' (cl_Roles cl)) h3 else h3)
           in Proceed (r\<lparr>hr_Header := h4\<rparr>)))"

definition claimToString :: "claim_value \<Rightarrow> string option" where
  "claimToString v =
     (case v of
        ClString s \<Rightarrow> (let t = trim_space s in if t = [] then None else Some t)
      | ClStringer s \<Rightarrow> (let t = trim_space s in if t = [] then None else Some t)
      | ClScalar s \<Rightarrow> Some s
      | _ \<Rightarrow> None)"

definition apply_mapping :: "string \<times> string list \<Rightarrow> (string \<rightharpoonup> string) \<Rightarrow> (string \<rightharpoonup> string)" where
  "apply_mapping m attrs =
     (case filter (\<lambda>a. hget attrs a \<noteq> []) (snd m) of
        [] \<Rightarrow> attrs
      | a # _ \<Rightarrow> attrs(fst m \<mapsto> hget attrs a))"

definition subjectFromClaims :: "mappings \<Rightarrow> claims \<Rightarrow> subject" where
  "subjectFromClaims ms cl =
     \<lparr>su_ID = trim_space (cl_Subject cl), su_TenantID = trim_space (cl_TenantID cl),
      su_Scopes = cl_Scopes cl, su_Roles = cl_Roles cl,
      su_Attrs = fold apply_mapping ms (\<lambda>k. Option.bind (cl_Custom cl k) claimToString)\<rparr>"

definition RequireScopesWithLogic :: "scope_logic \<Rightarrow> string list \<Rightarrow> auth_request \<Rightarrow> auth_request outcome" where
  "RequireScopesWithLogic logic required r =
     (case ar_Claims r of
        None \<Rightarrow> Answer 401 ''missing authentication''
      | Some cl \<Rightarrow>
          (if \<not> EvaluateScopes (subjectFromClaims [] cl) required logic then Answer 403 ''insufficient permissions''
           else Proceed r))"

definition valueFromSource :: "auth_request \<Rightarrow> string \<Rightarrow> string \<Rightarrow> string result" where
  "valueFromSource r source key =
     (let k = trim_space key; src = to_lower (trim_space source) in
      if k = [] then Inl (ENew ''rule key is required'')
      else if src = ''route'' then Inr (trim_space (hr_Param r k))
      else if src = ''header'' then Inr (trim_space (header_get (hr_Header r) k))
      else if src = ''query'' then Inr (trim_space (hr_Query r k))
      else Inl (ENew (''unsupported claim source '' @ quoted source)))"

fun guard_loop ::
  "(string \<Rightarrow> string \<Rightarrow> bool result) \<Rightarrow> subject \<Rightarrow> claim_rule list \<Rightarrow> auth_request \<Rightarrow> auth_request outcome" where
  "guard_loop regex s [] r = Proceed r"
| "guard_loop regex s (rule # rules) r =
     (if blank (cr_Claim rule) then guard_loop regex s rules r
      else case EvaluateClaimRule (Some (valueFromSource r)) regex s rule of
          Inl _ \<Rightarrow> Answer 403 ''claim evaluation failed''
        | Inr ok \<Rightarrow>
            (if ok \<or> cr_Optional rule then guard_loop regex s rules r
             else Answer 403 (''claim guard failed for '' @ trim_space (cr_Claim rule) @ '' with operator ''
                    @ trim_space (cr_Operator rule))))"

definition claimsGuard ::
  "(string \<Rightarrow> string \<Rightarrow> bool result) \<Rightarrow> mappings \<Rightarrow> claim_rule list \<Rightarrow> auth_request \<Rightarrow> auth_request outcome" where
  "claimsGuard regex ms rules r =
     (case ar_Claims r of
        None \<Rightarrow> Answer 401 ''missing authentication''
      | Some cl \<Rightarrow> guard_loop regex (subjectFromClaims ms cl) rules r)"

definition ClaimRulesFromConfig :: "claim_rule list \<Rightarrow> claim_rule list" where
  "ClaimRulesFromConfig rules =
     map (\<lambda>r. r\<lparr>cr_Claim := trim_space (cr_Claim r),
                cr_Operator := (let op = to_lower (trim_space (cr_Operator r)) in if op = [] then ''required'' else op),
                cr_Source := to_lower (trim_space (cr_Source r))\<rparr>)
       (filter (\<lambda>r. \<not> blank (cr_Claim r)) rules)"

section \<open>What the evaluators decide\<close>

lemma set_normalize_from: "set (normalize_from seen vs) = {t \<in> trim_space ` set vs. t \<noteq> [] \<and> t \<notin> set seen}"
  by (induction seen vs rule: normalize_from.induct) (auto simp: Let_def)

lemma set_normalizeStrings: "set (normalizeStrings vs) = trim_space ` set vs - {[]}"
  by (auto simp: normalizeStrings_def set_normalize_from)

lemma normalizeStrings_Nil: "normalizeStrings vs = [] \<longleftrightarrow> (\<forall>v \<in> set vs. blank v)"
  unfolding set_empty [symmetric] set_normalizeStrings by (auto simp: blank_def)

definition holds_scope :: "string list \<Rightarrow> string \<Rightarrow> bool" where
  "holds_scope have s \<longleftrightarrow> (\<exists>h \<in> set have. trim_space h = trim_space s)"

lemma in_normalizeStrings: "trim_space r \<in> set (normalizeStrings have) \<longleftrightarrow> \<not> blank r \<and> holds_scope have r"
proof -
  have "trim_space r \<in> trim_space ` set have \<longleftrightarrow> holds_scope have r"
    unfolding holds_scope_def image_iff by (simp add: eq_commute)
  then show ?thesis by (simp add: set_normalizeStrings blank_def conj_commute)
qed

lemma EvaluateScopes_iff:
  "EvaluateScopes s required logic \<longleftrightarrow>
     (case logic of
        ScopeLogicAND \<Rightarrow> {r \<in> set required. \<not> blank r \<and> \<not> holds_scope (su_Scopes s) r} = {}
      | ScopeLogicOR \<Rightarrow> {r \<in> set required. \<not> blank r} = {} \<or> (\<exists>r \<in> set required. \<not> blank r \<and> holds_scope (su_Scopes s) r))"
proof -
  let ?have = "set (normalizeStrings (su_Scopes s))"
  have all: "list_all (\<lambda>r. r \<in> ?have) (normalizeStrings required) \<longleftrightarrow> (\<forall>r \<in> set required. \<not> blank r \<longrightarrow> holds_scope (su_Scopes s) r)"
    unfolding list_all_iff set_normalizeStrings [of required] using in_normalizeStrings [of _ "su_Scopes s"] by (auto simp: blank_def)
  have ex: "list_ex (\<lambda>r. r \<in> ?have) (normalizeStrings required) \<longleftrightarrow> (\<exists>r \<in> set required. \<not> blank r \<and> holds_scope (su_Scopes s) r)"
    unfolding list_ex_iff set_normalizeStrings [of required] using in_normalizeStrings [of _ "su_Scopes s"] by (auto simp: blank_def)
  show ?thesis
    by (cases logic) (auto simp: EvaluateScopes_def Let_def all ex normalizeStrings_Nil)
qed

definition rule_passes :: "(string \<Rightarrow> string \<Rightarrow> bool result) \<Rightarrow> subject \<Rightarrow> auth_request \<Rightarrow> claim_rule \<Rightarrow> bool" where
  "rule_passes regex s r rule \<longleftrightarrow> blank (cr_Claim rule)
     \<or> (case EvaluateClaimRule (Some (valueFromSource r)) regex s rule of Inl _ \<Rightarrow> False | Inr ok \<Rightarrow> ok \<or> cr_Optional rule)"

lemma guard_loop_iff:
  "guard_loop regex s rules r = Proceed r' \<longleftrightarrow> r' = r \<and> list_all (rule_passes regex s r) rules"
  by (induction rules) (auto simp: rule_passes_def split: sum.splits)

lemma Authenticate_iff:
  "Authenticate validate r = Proceed r' \<longleftrightarrow>
     (\<exists>token cl. split_on CHR '' '' (header_get (hr_Header r) ''Authorization'') = [''Bearer'', token]
        \<and> validate token = Inr cl \<and> r' = SetClaims cl r)"
proof (cases "header_get (hr_Header r) ''Authorization'' = []")
  case False
  then show ?thesis
    by (auto simp: Authenticate_def Let_def split: list.splits sum.splits)
qed (auto simp: Authenticate_def)

lemma jwks_Validate_iff:
  "jwks_Validate verify v token = Inr cl \<longleftrightarrow>
     (\<exists>mc. verify token = Inr mc \<and> cl = extractClaims (jv_mappings v) mc \<and> cl_Issuer cl = jv_issuer v
        \<and> jv_audience v \<in> set (cl_Audience cl))"
  by (auto simp: jwks_Validate_def containsAudience_def list_ex_iff Let_def split: sum.splits)

lemma SetClaims_claims [simp]: "ar_Claims (SetClaims cl r) = Some cl"
  by (simp add: SetClaims_def)

lemma subjectFromClaims_scopes [simp]: "su_Scopes (subjectFromClaims ms cl) = cl_Scopes cl"
  by (simp add: subjectFromClaims_def)

lemma RequireScopes_iff:
  "RequireScopesWithLogic logic scopes r = Proceed r' \<longleftrightarrow>
     (\<exists>cl. ar_Claims r = Some cl \<and> EvaluateScopes (subjectFromClaims [] cl) scopes logic \<and> r' = r)"
  by (auto simp: RequireScopesWithLogic_def split: option.splits)

lemma claimsGuard_iff:
  "claimsGuard regex ms rules r = Proceed r' \<longleftrightarrow>
     (\<exists>cl. ar_Claims r = Some cl \<and> list_all (rule_passes regex (subjectFromClaims ms cl) r) rules \<and> r' = r)"
  by (auto simp: claimsGuard_def guard_loop_iff split: option.splits)

section \<open>The chain of authentication, scopes and claims\<close>

definition protected_chain ::
  "(string \<Rightarrow> map_claims result) \<Rightarrow> jwt_validator \<Rightarrow> scope_logic \<Rightarrow> string list \<Rightarrow> (string \<Rightarrow> string \<Rightarrow> bool result)
    \<Rightarrow> mappings \<Rightarrow> claim_rule list \<Rightarrow> auth_request \<Rightarrow> auth_request outcome" where
  "protected_chain verify v logic scopes regex ms rules =
     and_then (Authenticate (jwks_Validate verify v))
       (and_then (RequireScopesWithLogic logic scopes) (claimsGuard regex ms rules))"

text \<open>
  C16. A handler behind \<^verbatim>\<open>Authenticate\<close>, a scope requirement and a claim guard is reached exactly when the
  Authorization header is \<open>Bearer\<close>, one space and a token that verifies, the issuer and the audience of the
  token are the validator's, the token has all (or, for OR, one) of the scopes that are not blank,
  and every rule with a claim name evaluates without error to true or is optional.  The handler then
  gets the claims of that token and the request otherwise as it was.
\<close>

theorem access_granted_iff:
  "protected_chain verify v logic scopes regex ms rules r = Proceed r' \<longleftrightarrow>
     (\<exists>token mc cl. split_on CHR '' '' (header_get (hr_Header r) ''Authorization'') = [''Bearer'', token]
        \<and> verify token = Inr mc \<and> cl = extractClaims (jv_mappings v) mc
        \<and> cl_Issuer cl = jv_issuer v \<and> jv_audience v \<in> set (cl_Audience cl)
        \<and> (case logic of
             ScopeLogicAND \<Rightarrow> {s \<in> set scopes. \<not> blank s \<and> \<not> holds_scope (cl_Scopes cl) s} = {}
           | ScopeLogicOR \<Rightarrow> {s \<in> set scopes. \<not> blank s} = {} \<or> (\<exists>s \<in> set scopes. \<not> blank s \<and> holds_scope (cl_Scopes cl) s))
        \<and> list_all (rule_passes regex (subjectFromClaims ms cl) (SetClaims cl r)) rules
        \<and> r' = SetClaims cl r)"
proof -
  have "protected_chain verify v logic scopes regex ms rules r = Proceed r' \<longleftrightarrow>
     (\<exists>token cl. split_on CHR '' '' (header_get (hr_Header r) ''Authorization'') = [''Bearer'', token]
        \<and> jwks_Validate verify v token = Inr cl \<and> EvaluateScopes (subjectFromClaims [] cl) scopes logic
        \<and> list_all (rule_passes regex (subjectFromClaims ms cl) (SetClaims cl r)) rules \<and> r' = SetClaims cl r)"
    unfolding protected_chain_def and_then_Proceed Authenticate_iff RequireScopes_iff claimsGuard_iff
    using SetClaims_claims by (metis option.inject)
  then show ?thesis
    unfolding jwks_Validate_iff EvaluateScopes_iff subjectFromClaims_scopes by blast
qed

text \<open>
  A claim rule marked optional is passed whatever the claim says, also when the claim is present
  and differs from the value it is compared with.
\<close>

lemma optional_rule_not_enforced:
  assumes "EvaluateClaimRule (Some (valueFromSource r)) regex s rule = Inr False" and "cr_Optional rule"
  shows "guard_loop regex s [rule] r = Proceed r"
  using assms by simp

text \<open>
  \<^verbatim>\<open>ForwardIdentityHeaders\<close> does not remove what the client sent: without a tenant in the token the tenant
  header of the request is passed on as it came.
\<close>

lemma identity_header_spoofed:
  assumes "ar_Claims r = Some cl" and "blank (cl_TenantID cl)"
  shows "\<exists>r'. ForwardIdentityHeaders \<lparr>ih_Tenant = [], ih_Subject = [], ih_Scopes = [], ih_Roles = []\<rparr> r = Proceed r'
    \<and> header_get (hr_Header r') ''X-Tenant-ID'' = header_get (hr_Header r) ''X-Tenant-ID''"
proof -
  have n: "header_name ''X-Tenant-ID'' \<noteq> header_name ''X-Subject-ID''" "header_name ''X-Tenant-ID'' \<noteq> header_name ''X-Scopes''"
    "header_name ''X-Tenant-ID'' \<noteq> header_name ''X-Roles''" by code_simp+
  show ?thesis using assms n by (simp add: ForwardIdentityHeaders_def identity_normalize_def Let_def)
qed

text \<open>Scopes that differ in case only are one scope to the extraction and two to the check.\<close>

lemma scopes_case_collapse:
  "dedupeStrings [''Read'', ''read''] = [''Read''] \<and> \<not> holds_scope [''Read''] ''read''"
proof -
  have t: "trim_space ''Read'' = ''Read''" "trim_space ''read'' = ''read''"
    by (simp_all add: trim_space_plain ascii_space_def)
  have l: "to_lower ''Read'' = to_lower ''read''" by code_simp
  show ?thesis by (simp add: dedupeStrings_def t l holds_scope_def Let_def)
qed

end
