(* ===== verification/Csrf.thy ===== *)
theory Csrf
  imports HttpSession Http
begin

text \<open>
  \<^verbatim>\<open>pkg/http/csrf\<close>: the double-submit check over the token kept in the session, a client of the session
  operations of theory \<open>HttpSession\<close>.
\<close>

record csrf_config =
  cs_Enabled :: bool
  cs_HeaderName :: string
  cs_CookieName :: string
  cs_CookiePath :: string
  cs_CookieDomain :: string
  cs_CookieSecure :: bool
  cs_CookieSameSite :: string
  cs_CookieTTL :: duration
  cs_ExemptMethods :: "string list"
  cs_ExemptPaths :: "string list"

definition csrf_DefaultConfig :: csrf_config where
  "csrf_DefaultConfig =
     \<lparr>cs_Enabled = False, cs_HeaderName = ''X-CSRF-Token'', cs_CookieName = ''XSRF-TOKEN'', cs_CookiePath = ''/'',
      cs_CookieDomain = [], cs_CookieSecure = True, cs_CookieSameSite = ''lax'', cs_CookieTTL = 12 * hour,
      cs_ExemptMethods = [''GET'', ''HEAD'', ''OPTIONS'', ''TRACE''], cs_ExemptPaths = []\<rparr>"

definition csrf_normalizeConfig :: "csrf_config \<Rightarrow> csrf_config" where
  "csrf_normalizeConfig cfg =
     (let dflt = csrf_DefaultConfig in
      cfg\<lparr>cs_HeaderName := (if blank (cs_HeaderName cfg) then cs_HeaderName dflt else cs_HeaderName cfg),
          cs_CookieName := (if blank (cs_CookieName cfg) then cs_CookieName dflt else cs_CookieName cfg),
          cs_CookiePath := (if blank (cs_CookiePath cfg) then cs_CookiePath dflt else cs_CookiePath cfg),
          cs_CookieSameSite := (if blank (cs_CookieSameSite cfg) then cs_CookieSameSite dflt else cs_CookieSameSite cfg),
          cs_CookieTTL := pos_or (cs_CookieTTL cfg) (cs_CookieTTL dflt),
          cs_ExemptMethods := (if cs_ExemptMethods cfg = [] then cs_ExemptMethods dflt else cs_ExemptMethods cfg)\<rparr>)"

definition isExempt :: "http_request \<Rightarrow> csrf_config \<Rightarrow> bool" where
  "isExempt req cfg \<longleftrightarrow>
     list_ex (\<lambda>m. to_upper (trim_space (hr_Method req)) = to_upper (trim_space m)) (cs_ExemptMethods cfg)
     \<or> list_ex (\<lambda>p. trim_space p \<noteq> [] \<and> has_prefix (hr_Path req) (trim_space p)) (cs_ExemptPaths cfg)"

definition writeCSRFCookie :: "csrf_config \<Rightarrow> gotime \<Rightarrow> string \<Rightarrow> response \<Rightarrow> response" where
  "writeCSRFCookie cfg now token =
     SetCookie \<lparr>ck_Name = cs_CookieName cfg, ck_Value = token, ck_Path = cs_CookiePath cfg,
       ck_Domain = cs_CookieDomain cfg, ck_Secure = cs_CookieSecure cfg, ck_HttpOnly = False,
       ck_SameSite = parseSameSite (cs_CookieSameSite cfg), ck_MaxAge = go_div (cs_CookieTTL cfg) second,
       ck_Expires = now + cs_CookieTTL cfg\<rparr>"

text \<open>\<^verbatim>\<open>generateToken\<close> draws a buffer as \<^verbatim>\<open>generateSessionID\<close> does, from the same source.\<close>

definition generateToken :: "(nat \<Rightarrow> string result) \<Rightarrow> nat \<Rightarrow> string result" where
  "generateToken rand n = (case rand n of Inl e \<Rightarrow> Inl e | Inr buf \<Rightarrow> Inr (b64_encode buf))"

text \<open>The token of the session, generated and stored when there is none.\<close>

definition csrf_token ::
  "session_config \<Rightarrow> (phase \<Rightarrow> gotime) \<Rightarrow> (nat \<Rightarrow> string result) \<Rightarrow> request \<Rightarrow> string result \<times> request" where
  "csrf_token scfg now rand q =
     (let token = hget (se_data (rq_session q)) ''csrf_token'' in
      if blank token
      then case generateToken rand (rq_drawn q) of
          Inl e \<Rightarrow> (Inl e, q\<lparr>rq_drawn := Suc (rq_drawn q)\<rparr>)
        | Inr generated \<Rightarrow>
            (Inr generated, session_Set scfg now rand ''csrf_token'' generated (q\<lparr>rq_drawn := Suc (rq_drawn q)\<rparr>))
      else (Inr token, q))"

text \<open>\<open>None\<close> is a request without a session.  The answer is written, so that the response is sent.\<close>

definition csrf_Middleware ::
  "csrf_config \<Rightarrow> session_config \<Rightarrow> (phase \<Rightarrow> gotime) \<Rightarrow> (nat \<Rightarrow> string result) \<Rightarrow> http_request \<Rightarrow> request option
    \<Rightarrow> unit outcome result \<times> request option" where
  "csrf_Middleware cfg0 scfg now rand req qo =
     (let cfg = csrf_normalizeConfig cfg0 in
      if \<not> cs_Enabled cfg then (Inr (Proceed ()), qo)
      else case qo of
        None \<Rightarrow> (Inl (ENew ''csrf middleware requires session middleware''), None)
      | Some q \<Rightarrow>
          (case csrf_token scfg now rand q of
             (Inl e, q1) \<Rightarrow> (Inl e, Some q1)
           | (Inr token, q1) \<Rightarrow>
               (let q2 = q1\<lparr>rq_response := writeCSRFCookie cfg (now AtHandler) token (rq_response q1)\<rparr> in
                if isExempt req cfg then (Inr (Proceed ()), Some q2)
                else let sent0 = trim_space (header_get (hr_Header req) (cs_HeaderName cfg));
                         sent = (if sent0 = [] then trim_space (header_get (hr_Header req) ''X-XSRF-Token'') else sent0)
                     in if sent = [] \<or> sent \<noteq> token
                        then (Inr (Answer 403 ''invalid csrf token''),
                              Some (q2\<lparr>rq_response := (rq_response q2)\<lparr>rp_written := True\<rparr>\<rparr>))
                        else (Inr (Proceed ()), Some q2))))"

section \<open>What the check lets through\<close>

definition sent_token :: "csrf_config \<Rightarrow> http_request \<Rightarrow> string" where
  "sent_token cfg0 req =
     (let cfg = csrf_normalizeConfig cfg0; sent = trim_space (header_get (hr_Header req) (cs_HeaderName cfg))
      in if sent = [] then trim_space (header_get (hr_Header req) ''X-XSRF-Token'') else sent)"

lemma csrf_token_stored:
  assumes "csrf_token scfg now rand q = (Inr token, q1)" and "se_id (rq_session q) \<noteq> []" and "se_createErr (rq_session q) = None"
  shows "se_data (rq_session q1) ''csrf_token'' = Some token"
proof -
  have b: "\<not> blank ''csrf_token''" by (simp add: blank_def trim_space_plain ascii_space_def)
  show ?thesis
    using assms b by (auto simp: csrf_token_def Let_def session_Set_def hget_def split: if_splits sum.splits option.splits)
qed



text \<open>
  An exempt path is a prefix of the text of the path, not of its segments: an entry for one part of
  a site exempts every path that begins with the same letters.
\<close>

lemma exempt_prefix_not_segment:
  "isExempt \<lparr>hr_Method = ''POST'', hr_Path = ''/hooks-admin/delete'', hr_Header = (\<lambda>_. []), hr_Param = (\<lambda>_. []),
      hr_Query = (\<lambda>_. [])\<rparr> (csrf_DefaultConfig\<lparr>cs_ExemptPaths := [''/hooks'']\<rparr>)"
  by code_simp

end
