(* ===== verification/Cors.thy ===== *)
theory Cors
  imports Http
begin

text \<open>
  \<^verbatim>\<open>pkg/http/cors\<close>: which origins are allowed and which header fields a response gets.  A nil slice or
  function of the configuration is \<open>None\<close>; \<open>url_ok\<close> tells whether \<^verbatim>\<open>url.Parse\<close> accepts a text.
\<close>

record cors_config =
  co_Enabled :: bool
  co_AllowAllOrigins :: bool
  co_AllowOrigins :: "string list option"
  co_AllowOriginFunc :: "(string \<Rightarrow> bool) option"
  co_AllowOriginWithContextFunc :: "(http_request \<Rightarrow> string \<Rightarrow> bool) option"
  co_AllowMethods :: "string list option"
  co_AllowPrivateNetwork :: bool
  co_AllowHeaders :: "string list option"
  co_AllowCredentials :: bool
  co_ExposeHeaders :: "string list option"
  co_MaxAge :: duration
  co_AllowWildcard :: bool
  co_AllowBrowserExtensions :: bool
  co_CustomSchemas :: "string list option"
  co_AllowWebSockets :: bool
  co_AllowFiles :: bool
  co_OptionsResponseStatusCode :: int

definition cors_DefaultConfig :: cors_config where
  "cors_DefaultConfig =
     \<lparr>co_Enabled = False, co_AllowAllOrigins = False, co_AllowOrigins = Some [], co_AllowOriginFunc = None,
      co_AllowOriginWithContextFunc = None,
      co_AllowMethods = Some [''GET'', ''POST'', ''PUT'', ''PATCH'', ''DELETE'', ''HEAD'', ''OPTIONS''],
      co_AllowPrivateNetwork = False, co_AllowHeaders = Some [], co_AllowCredentials = False, co_ExposeHeaders = Some [],
      co_MaxAge = 12 * hour, co_AllowWildcard = False, co_AllowBrowserExtensions = False, co_CustomSchemas = Some [],
      co_AllowWebSockets = False, co_AllowFiles = False, co_OptionsResponseStatusCode = 204\<rparr>"

definition elems :: "string list option \<Rightarrow> string list" where
  "elems x = (case x of None \<Rightarrow> [] | Some xs \<Rightarrow> xs)"

definition or_default :: "(string \<Rightarrow> string) \<Rightarrow> string list option \<Rightarrow> string list option \<Rightarrow> string list option" where
  "or_default f x dflt = Some (map f (elems (case x of None \<Rightarrow> dflt | Some _ \<Rightarrow> x)))"

definition cors_normalize :: "cors_config \<Rightarrow> cors_config" where
  "cors_normalize cfg =
     (let dflt = cors_DefaultConfig in
      cfg\<lparr>co_AllowOrigins := or_default trim_space (co_AllowOrigins cfg) (co_AllowOrigins dflt),
          co_AllowMethods := or_default (\<lambda>s. to_upper (trim_space s)) (co_AllowMethods cfg) (co_AllowMethods dflt),
          co_AllowHeaders := or_default trim_space (co_AllowHeaders cfg) (co_AllowHeaders dflt),
          co_ExposeHeaders := or_default trim_space (co_ExposeHeaders cfg) (co_ExposeHeaders dflt),
          co_CustomSchemas := or_default (\<lambda>s. to_lower (trim_space s)) (co_CustomSchemas cfg) (co_CustomSchemas dflt),
          co_OptionsResponseStatusCode := (if co_OptionsResponseStatusCode cfg = 0 then co_OptionsResponseStatusCode dflt
                                           else co_OptionsResponseStatusCode cfg),
          co_MaxAge := (if co_MaxAge cfg = 0 then co_MaxAge dflt else co_MaxAge cfg),
          co_AllowCredentials := (if co_AllowAllOrigins cfg then False else co_AllowCredentials cfg)\<rparr>)"

definition isPreflight :: "http_request \<Rightarrow> bool" where
  "isPreflight req \<longleftrightarrow> hr_Method req = ''OPTIONS'' \<and> header_get (hr_Header req) ''Access-Control-Request-Method'' \<noteq> []"

text \<open>
  The scheme \<^verbatim>\<open>url.Parse\<close> finds: letters, then also digits and \<open>+-.\<close>, up to a colon; \<open>[]\<close> when another
  byte comes first.  A colon in front is an error of \<^verbatim>\<open>url.Parse\<close>.
\<close>

definition scheme_char :: "char \<Rightarrow> bool" where
  "scheme_char c \<longleftrightarrow> is_digit c \<or> (65 \<le> byte c \<and> byte c \<le> 90) \<or> (97 \<le> byte c \<and> byte c \<le> 122) \<or> c \<in> set ''+-.''"

definition url_scheme :: "string \<Rightarrow> string" where
  "url_scheme s =
     (let p = takeWhile scheme_char s; r = dropWhile scheme_char s in
      if p \<noteq> [] \<and> \<not> is_digit (hd p) \<and> hd p \<notin> set ''+-.'' \<and> r \<noteq> [] \<and> hd r = CHR '':'' then to_lower p else [])"

definition isSchemaAllowed :: "(string \<Rightarrow> bool) \<Rightarrow> cors_config \<Rightarrow> string \<Rightarrow> bool" where
  "isSchemaAllowed url_ok cfg origin =
     (let scheme = to_lower (trim_space (url_scheme origin)) in
      if \<not> url_ok origin \<or> scheme = [] then False
      else scheme \<in> set ([''http'', ''https'']
             @ (if co_AllowWebSockets cfg then [''ws'', ''wss''] else [])
             @ (if co_AllowFiles cfg then [''file''] else [])
             @ (if co_AllowBrowserExtensions cfg
                then [''chrome-extension'', ''moz-extension'', ''safari-web-extension'', ''ms-browser-extension''] else [])
             @ filter (\<lambda>s. s \<noteq> []) (elems (co_CustomSchemas cfg))))"

definition wildcardMatch :: "string \<Rightarrow> string \<Rightarrow> bool" where
  "wildcardMatch pattern v =
     (case split_on CHR ''*'' pattern of [pre, suf] \<Rightarrow> has_prefix v pre \<and> has_suffix v suf | _ \<Rightarrow> False)"

definition isOriginAllowed :: "(string \<Rightarrow> bool) \<Rightarrow> cors_config \<Rightarrow> http_request option \<Rightarrow> string \<Rightarrow> bool" where
  "isOriginAllowed url_ok cfg c origin =
     (case (co_AllowOriginWithContextFunc cfg, c) of
        (Some f, Some req) \<Rightarrow> f req origin
      | _ \<Rightarrow>
          (case co_AllowOriginFunc cfg of
             Some f \<Rightarrow> f origin
           | None \<Rightarrow>
               (if co_AllowAllOrigins cfg then isSchemaAllowed url_ok cfg origin
                else if elems (co_AllowOrigins cfg) = [] then False
                else if \<not> isSchemaAllowed url_ok cfg origin then False
                else list_ex (\<lambda>allowed. allowed = ''*'' \<or> equal_fold allowed origin
                       \<or> (co_AllowWildcard cfg \<and> wildcardMatch allowed origin)) (elems (co_AllowOrigins cfg)))))"

text \<open>\<^verbatim>\<open>AllowsOrigin\<close>: without a request the context function cannot be asked.\<close>

definition AllowsOrigin :: "(string \<Rightarrow> bool) \<Rightarrow> cors_config \<Rightarrow> string \<Rightarrow> bool" where
  "AllowsOrigin url_ok cfg0 origin =
     (let cfg = cors_normalize cfg0 in
      case co_AllowOriginWithContextFunc cfg of
        Some _ \<Rightarrow> (case co_AllowOriginFunc cfg of Some f \<Rightarrow> f origin | None \<Rightarrow> False)
      | None \<Rightarrow> isOriginAllowed url_ok cfg None origin)"

definition isAllowAllOriginsList :: "cors_config \<Rightarrow> bool" where
  "isAllowAllOriginsList cfg \<longleftrightarrow> list_ex (\<lambda>a. trim_space a = ''*'') (elems (co_AllowOrigins cfg))"

definition setOriginHeaders :: "cors_config \<Rightarrow> string \<Rightarrow> header \<Rightarrow> header" where
  "setOriginHeaders cfg origin h =
     (if co_AllowCredentials cfg
      then header_set ''Access-Control-Allow-Credentials'' ''true'' (header_set ''Access-Control-Allow-Origin'' origin h)
      else if co_AllowAllOrigins cfg \<or> isAllowAllOriginsList cfg then header_set ''Access-Control-Allow-Origin'' ''*'' h
      else header_set ''Access-Control-Allow-Origin'' origin h)"

definition applyVary :: "header \<Rightarrow> header" where
  "applyVary h = appendVary ''Access-Control-Request-Headers'' (appendVary ''Access-Control-Request-Method'' (appendVary ''Origin'' h))"

definition formatMaxAge :: "duration \<Rightarrow> string" where
  "formatMaxAge d = (let s = go_div d second in if s < 0 then ''0'' else itoa s)"

definition preflight_headers :: "cors_config \<Rightarrow> http_request \<Rightarrow> header \<Rightarrow> header" where
  "preflight_headers cfg req h0 =
     (let h1 = header_set ''Access-Control-Allow-Methods'' (join_with '', '' (elems (co_AllowMethods cfg))) h0;
          requested = header_get (hr_Header req) ''Access-Control-Request-Headers'';
          h2 = (if elems (co_AllowHeaders cfg) \<noteq> []
                then header_set ''Access-Control-Allow-Headers'' (join_with '', '' (elems (co_AllowHeaders cfg))) h1
                else if requested \<noteq> [] then header_set ''Access-Control-Allow-Headers'' requested h1 else h1);
          h3 = (if 0 < co_MaxAge cfg then header_set ''Access-Control-Max-Age'' (formatMaxAge (co_MaxAge cfg)) h2 else h2)
      in if co_AllowPrivateNetwork cfg
            \<and> equal_fold (header_get (hr_Header req) ''Access-Control-Request-Private-Network'') ''true''
         then header_set ''Access-Control-Allow-Private-Network'' ''true'' h3 else h3)"

text \<open>The result: the status when the middleware answers itself (\<open>None\<close>: the handler is called), and the header of the response.\<close>

definition cors_Middleware ::
  "(string \<Rightarrow> bool) \<Rightarrow> cors_config \<Rightarrow> http_request \<Rightarrow> header \<Rightarrow> int option \<times> header" where
  "cors_Middleware url_ok cfg0 req h =
     (let cfg = cors_normalize cfg0; origin = header_get (hr_Header req) ''Origin'' in
      if \<not> co_Enabled cfg then (None, h)
      else if origin = [] then (None, h)
      else if \<not> isOriginAllowed url_ok cfg (Some req) origin
        then (if isPreflight req then (Some 403, h) else (None, h))
      else let h1 = setOriginHeaders cfg origin (applyVary h);
               h2 = (if elems (co_ExposeHeaders cfg) \<noteq> []
                     then header_set ''Access-Control-Expose-Headers'' (join_with '', '' (elems (co_ExposeHeaders cfg))) h1 else h1)
           in if isPreflight req then (Some (co_OptionsResponseStatusCode cfg), preflight_headers cfg req h2)
              else (None, h2))"

section \<open>What a response may tell a browser\<close>

lemma cors_header_names:
  "header_name ''Access-Control-Allow-Origin'' = ''Access-Control-Allow-Origin''"
  "header_name ''Access-Control-Allow-Credentials'' = ''Access-Control-Allow-Credentials''"
  "header_name ''Access-Control-Expose-Headers'' = ''Access-Control-Expose-Headers''"
  "header_name ''Access-Control-Allow-Methods'' = ''Access-Control-Allow-Methods''"
  "header_name ''Access-Control-Allow-Headers'' = ''Access-Control-Allow-Headers''"
  "header_name ''Access-Control-Max-Age'' = ''Access-Control-Max-Age''"
  "header_name ''Access-Control-Allow-Private-Network'' = ''Access-Control-Allow-Private-Network''"
  "header_name ''Vary'' = ''Vary''"
  by code_simp+

text \<open>The two fields the other functions do not touch.\<close>

definition origin_fields :: "header \<Rightarrow> string \<times> string" where
  "origin_fields h = (header_get h ''Access-Control-Allow-Origin'', header_get h ''Access-Control-Allow-Credentials'')"

lemma origin_fields_keep [simp]:
  "origin_fields (appendVary v h) = origin_fields h" "origin_fields (applyVary h) = origin_fields h"
  "origin_fields (preflight_headers cfg req h) = origin_fields h"
  "origin_fields (header_set ''Access-Control-Expose-Headers'' v h) = origin_fields h"
proof -
  show v: "origin_fields (appendVary v h) = origin_fields h" for v h
    by (simp add: origin_fields_def appendVary_def Let_def cors_header_names)
  show "origin_fields (applyVary h) = origin_fields h" by (simp add: applyVary_def v)
  show "origin_fields (preflight_headers cfg req h) = origin_fields h"
    by (simp add: origin_fields_def preflight_headers_def Let_def cors_header_names)
  show "origin_fields (header_set ''Access-Control-Expose-Headers'' v h) = origin_fields h"
    by (simp add: origin_fields_def cors_header_names)
qed

lemma origin_fields_set:
  "origin_fields (setOriginHeaders cfg origin h) =
     (if co_AllowCredentials cfg then (origin, ''true'')
      else (if co_AllowAllOrigins cfg \<or> isAllowAllOriginsList cfg then ''*'' else origin,
            snd (origin_fields h)))"
  by (simp add: origin_fields_def setOriginHeaders_def cors_header_names)

lemma cors_origin_fields:
  assumes "cors_Middleware url_ok cfg req h = (a, h')" and "cfg' = cors_normalize cfg"
    and "origin = header_get (hr_Header req) ''Origin''"
  shows "origin_fields h' =
    (if co_Enabled cfg' \<and> origin \<noteq> [] \<and> isOriginAllowed url_ok cfg' (Some req) origin
     then origin_fields (setOriginHeaders cfg' origin h) else origin_fields h)"
  using assms by (auto simp: cors_Middleware_def Let_def origin_fields_set split: if_splits)

text \<open>
  C18. On a response without CORS fields the middleware allows credentials only together with the request's
  own origin, never with \<open>*\<close>, only when the configuration asks for credentials and not for all origins,
  and only for an origin the policy allows; and it names no origin to a request whose origin is not
  allowed, whose preflight it answers with 403.
\<close>

theorem cors_credentials_safe:
  assumes "cors_Middleware url_ok cfg req h = (a, h')" and "origin_fields h = ([], [])"
    and "origin = header_get (hr_Header req) ''Origin''" and "allowed = isOriginAllowed url_ok (cors_normalize cfg) (Some req) origin"
  shows "(header_get h' ''Access-Control-Allow-Credentials'' \<noteq> [] \<longrightarrow>
        allowed \<and> header_get h' ''Access-Control-Allow-Origin'' = origin \<and> co_AllowCredentials cfg \<and> \<not> co_AllowAllOrigins cfg)
    \<and> (\<not> allowed \<longrightarrow> header_get h' ''Access-Control-Allow-Origin'' = []
        \<and> (co_Enabled cfg \<and> origin \<noteq> [] \<and> isPreflight req \<longrightarrow> a = Some 403))"
proof -
  let ?n = "cors_normalize cfg"
  have n: "co_AllowCredentials ?n \<longleftrightarrow> co_AllowCredentials cfg \<and> \<not> co_AllowAllOrigins cfg" "co_Enabled ?n = co_Enabled cfg"
    by (simp_all add: cors_normalize_def Let_def)
  have f: "origin_fields h' = (if co_Enabled ?n \<and> origin \<noteq> [] \<and> allowed then origin_fields (setOriginHeaders ?n origin h)
      else ([], []))"
    using cors_origin_fields [OF assms(1) refl assms(3)] assms(2,4) by simp
  have g: "header_get h' ''Access-Control-Allow-Origin'' = fst (origin_fields h')"
    "header_get h' ''Access-Control-Allow-Credentials'' = snd (origin_fields h')" by (simp_all add: origin_fields_def)
  have "a = Some 403" if "\<not> allowed" "co_Enabled cfg" "origin \<noteq> []" "isPreflight req"
    using assms(1,3,4) that n by (simp add: cors_Middleware_def Let_def)
  then show ?thesis unfolding g f by (auto simp: origin_fields_set n assms(2) split: if_splits)
qed

theorem cors_credentials_safe_witness:
  "header_get (snd (cors_Middleware (\<lambda>_. True)
      (cors_DefaultConfig\<lparr>co_Enabled := True, co_AllowOrigins := Some [''https://app.org''], co_AllowCredentials := True\<rparr>)
      \<lparr>hr_Method = ''GET'', hr_Path = ''/'', hr_Header = (\<lambda>k. if k = ''Origin'' then ''https://evil.org'' else []),
       hr_Param = (\<lambda>_. []), hr_Query = (\<lambda>_. [])\<rparr> (\<lambda>_. []))) ''Access-Control-Allow-Origin'' = []"
proof -
  let ?c = "cors_DefaultConfig\<lparr>co_Enabled := True, co_AllowOrigins := Some [''https://app.org''], co_AllowCredentials := True\<rparr>"
  let ?req = "\<lparr>hr_Method = ''GET'', hr_Path = ''/'', hr_Header = (\<lambda>k. if k = ''Origin'' then ''https://evil.org'' else []),
       hr_Param = (\<lambda>_. []), hr_Query = (\<lambda>_. [])\<rparr>"
  have "origin_fields (\<lambda>_. []) = ([], [])" by (simp add: origin_fields_def header_get_def)
  moreover have "\<not> isOriginAllowed (\<lambda>_. True) (cors_normalize ?c) (Some ?req) (header_get (hr_Header ?req) ''Origin'')"
    by code_simp
  ultimately show ?thesis
    using cors_credentials_safe [of "\<lambda>_. True" ?c ?req "\<lambda>_. []"] by (metis prod.collapse)
qed

text \<open>
  The list \<open>*\<close> with credentials: the flag for all origins switches credentials off, the list does not, so
  every site with an HTTP origin is told that it may send credentials.
\<close>

lemma cors_star_list_with_credentials:
  assumes "origin = header_get (hr_Header req) ''Origin''" and "origin \<noteq> []" and "url_ok origin" and "url_scheme origin = ''https''"
    and "cfg = cors_DefaultConfig\<lparr>co_Enabled := True, co_AllowOrigins := Some [''*''], co_AllowCredentials := True\<rparr>"
    and "cors_Middleware url_ok cfg req h = (a, h')"
  shows "header_get h' ''Access-Control-Allow-Origin'' = origin \<and> header_get h' ''Access-Control-Allow-Credentials'' = ''true''"
proof -
  have t: "trim_space ''https'' = ''https''" "to_lower ''https'' = ''https''" "trim_space ''*'' = ''*''"
    by (simp add: trim_space_plain ascii_space_def, code_simp, simp add: trim_space_plain ascii_space_def)
  have n: "isOriginAllowed url_ok (cors_normalize cfg) (Some req) origin" "co_Enabled (cors_normalize cfg)"
    "co_AllowCredentials (cors_normalize cfg)"
    using assms(3-5) t by (simp_all add: isOriginAllowed_def cors_normalize_def cors_DefaultConfig_def elems_def or_default_def
        isSchemaAllowed_def Let_def)
  have "origin_fields h' = (origin, ''true'')"
    using cors_origin_fields [OF assms(6) refl assms(1)] n assms(2) by (simp add: origin_fields_set)
  then show ?thesis by (simp add: origin_fields_def)
qed

text \<open>The prefix and the suffix of a wildcard pattern may overlap in the origin it matches.\<close>

lemma wildcard_overlap: "wildcardMatch ''https://a*a.org'' ''https://a.org''"
  by code_simp

end
