(* ===== verification/Health.thy ===== *)
theory Health
  imports Errors
begin

text \<open>
  \<^verbatim>\<open>pkg/health\<close> and \<^verbatim>\<open>pkg/featureflag/posture.go\<close>: health checks, their aggregation, and the runtime
  posture that is exposed through them.  The checks of a registry run concurrently; the list of
  their results in the order of arrival is an argument, and what is shown holds for every order.
  Times and durations of the results are left out.
\<close>

section \<open>Checks\<close>

text \<open>A status is a string of the code, so a check may also return one that is not declared.\<close>

datatype health_status = StatusHealthy | StatusDegraded | StatusUnhealthy | StatusOther string

record check_result =
  hc_Name :: string
  hc_Status :: health_status
  hc_Message :: string
  hc_Error :: string

text \<open>\<^verbatim>\<open>AdapterChecker.Check\<close>, given the error of the adapter's own check.\<close>

definition adapter_Check :: "string \<Rightarrow> err option \<Rightarrow> check_result" where
  "adapter_Check name res =
     (case res of
        Some e \<Rightarrow> \<lparr>hc_Name = name, hc_Status = StatusUnhealthy, hc_Message = [], hc_Error = error_text e\<rparr>
      | None \<Rightarrow> \<lparr>hc_Name = name, hc_Status = StatusHealthy, hc_Message = ''OK'', hc_Error = []\<rparr>)"

definition adapter_timeout :: "duration \<Rightarrow> duration" where
  "adapter_timeout timeout = (if timeout = 0 then 5 * second else timeout)"

definition ping_Check :: "string \<Rightarrow> check_result" where
  "ping_Check name = \<lparr>hc_Name = name, hc_Status = StatusHealthy, hc_Message = ''Service is alive'', hc_Error = []\<rparr>"

definition custom_Check :: "string \<Rightarrow> health_status \<times> string \<times> err option \<Rightarrow> check_result" where
  "custom_Check name res =
     (case res of (status, message, e) \<Rightarrow>
        \<lparr>hc_Name = name, hc_Status = status, hc_Message = message,
         hc_Error = (case e of None \<Rightarrow> [] | Some f \<Rightarrow> error_text f)\<rparr>)"

text \<open>One more result and the status so far: the rule of \<^verbatim>\<open>Registry.Check\<close> and of \<^verbatim>\<open>CompositeChecker.Check\<close>.\<close>

definition absorb :: "check_result \<Rightarrow> health_status \<Rightarrow> health_status" where
  "absorb r status =
     (if hc_Status r = StatusUnhealthy then StatusUnhealthy
      else if hc_Status r = StatusDegraded \<and> status = StatusHealthy then StatusDegraded
      else status)"

text \<open>\<^verbatim>\<open>CompositeChecker.Check\<close> on the results of its checkers, in order.\<close>

definition composite_errors :: "check_result list \<Rightarrow> string list" where
  "composite_errors results =
     map (\<lambda>r. hc_Name r @ '': '' @ hc_Error r) (filter (\<lambda>r. hc_Status r = StatusUnhealthy \<and> hc_Error r \<noteq> []) results)"

definition composite_Check :: "string \<Rightarrow> check_result list \<Rightarrow> check_result" where
  "composite_Check name results =
     (let status = fold absorb results StatusHealthy; errs = composite_errors results in
      \<lparr>hc_Name = name, hc_Status = status,
       hc_Message = (if errs = [] \<and> status = StatusHealthy then ''All sub-checks passed'' else []),
       hc_Error = (if errs \<noteq> [] then ''sub-checks failed: ['' @ join_with '' '' errs @ '']'' else [])\<rparr>)"

section \<open>The registry\<close>

text \<open>A checker is its name and what its check returns when it is run.\<close>

record checker =
  hk_Name :: string
  hk_result :: check_result

type_synonym health_registry = "string \<rightharpoonup> checker"

definition health_Register :: "checker \<Rightarrow> health_registry \<Rightarrow> health_registry" where
  "health_Register c r = r(hk_Name c \<mapsto> c)"

definition health_RegisterFunc :: "string \<Rightarrow> check_result \<Rightarrow> health_registry \<Rightarrow> health_registry" where
  "health_RegisterFunc name res r = r(name \<mapsto> \<lparr>hk_Name = name, hk_result = res\<rparr>)"

definition health_Unregister :: "string \<Rightarrow> health_registry \<Rightarrow> health_registry" where
  "health_Unregister name r = r(name := None)"

record aggregated =
  ag_Status :: health_status
  ag_Checks :: "check_result list"

text \<open>\<^verbatim>\<open>Registry.Check\<close>, on the results in the order in which they arrive on the channel.\<close>

definition health_Check :: "check_result list \<Rightarrow> aggregated" where
  "health_Check arrived = \<lparr>ag_Status = fold absorb arrived StatusHealthy, ag_Checks = arrived\<rparr>"

definition arrivals :: "health_registry \<Rightarrow> check_result list \<Rightarrow> bool" where
  "arrivals r results \<longleftrightarrow> (\<exists>ks. distinct ks \<and> set ks = dom r \<and> results = map (\<lambda>k. hk_result (the (r k))) ks)"

definition health_CheckOne :: "string \<Rightarrow> health_registry \<Rightarrow> check_result result" where
  "health_CheckOne name r =
     (case r name of
        None \<Rightarrow> Inl (WithDetails [(''check'', name)] (WithHTTPStatus 404
                  (WithMessage (''health check not found: '' @ name) (New ''health.check.not_found'' [] None))))
      | Some c \<Rightarrow> Inr (hk_result c))"

definition IsHealthy :: "aggregated \<Rightarrow> bool" where
  "IsHealthy a \<longleftrightarrow> ag_Status a = StatusHealthy"

definition IsReady :: "aggregated \<Rightarrow> bool" where
  "IsReady a \<longleftrightarrow> ag_Status a \<noteq> StatusUnhealthy"

section \<open>The runtime posture\<close>

datatype startup_state = StartupPending | StartupStarting | StartupReady | StartupFailed
datatype readiness_state = ReadinessBlocked | ReadinessReady | ReadinessDegraded
datatype liveness_state = LivenessAlive | LivenessStopping | LivenessStopped
datatype posture_mode = ModeNormal | ModeDegraded

record posture =
  po_Startup :: startup_state
  po_Readiness :: readiness_state
  po_Liveness :: liveness_state
  po_Mode :: posture_mode
  po_Message :: string
  po_UpdatedAt :: gotime

definition NewRuntimePosture :: "gotime \<Rightarrow> posture" where
  "NewRuntimePosture now =
     \<lparr>po_Startup = StartupPending, po_Readiness = ReadinessBlocked, po_Liveness = LivenessAlive, po_Mode = ModeNormal,
      po_Message = [], po_UpdatedAt = now\<rparr>"

definition posture_update :: "gotime \<Rightarrow> (posture \<Rightarrow> posture) \<Rightarrow> posture \<Rightarrow> posture" where
  "posture_update now f p = (f p)\<lparr>po_UpdatedAt := now\<rparr>"

definition SetStartup :: "gotime \<Rightarrow> startup_state \<Rightarrow> string \<Rightarrow> posture \<Rightarrow> posture" where
  "SetStartup now s m = posture_update now (\<lambda>p. p\<lparr>po_Startup := s, po_Message := m\<rparr>)"

definition SetReadiness :: "gotime \<Rightarrow> readiness_state \<Rightarrow> string \<Rightarrow> posture \<Rightarrow> posture" where
  "SetReadiness now s m = posture_update now (\<lambda>p. p\<lparr>po_Readiness := s, po_Message := m\<rparr>)"

definition SetLiveness :: "gotime \<Rightarrow> liveness_state \<Rightarrow> string \<Rightarrow> posture \<Rightarrow> posture" where
  "SetLiveness now s m = posture_update now (\<lambda>p. p\<lparr>po_Liveness := s, po_Message := m\<rparr>)"

definition SetMode :: "gotime \<Rightarrow> posture_mode \<Rightarrow> string \<Rightarrow> posture \<Rightarrow> posture" where
  "SetMode now mode m = posture_update now (\<lambda>p.
     p\<lparr>po_Mode := mode, po_Message := m,
       po_Readiness := (case mode of
           ModeDegraded \<Rightarrow> (if po_Readiness p = ReadinessReady then ReadinessDegraded else po_Readiness p)
         | ModeNormal \<Rightarrow> (if po_Readiness p = ReadinessDegraded then ReadinessReady else po_Readiness p))\<rparr>)"

definition snapshotMessage :: "posture \<Rightarrow> string \<Rightarrow> string" where
  "snapshotMessage p fallback = (if po_Message p \<noteq> [] then po_Message p else fallback)"

definition startup_check :: "posture \<Rightarrow> health_status \<times> string" where
  "startup_check p =
     (case po_Startup p of
        StartupReady \<Rightarrow> (StatusHealthy, ''startup completed'')
      | StartupFailed \<Rightarrow> (StatusUnhealthy, snapshotMessage p ''startup failed'')
      | _ \<Rightarrow> (StatusDegraded, snapshotMessage p ''startup in progress''))"

definition readiness_check :: "posture \<Rightarrow> health_status \<times> string" where
  "readiness_check p =
     (case po_Readiness p of
        ReadinessReady \<Rightarrow> (StatusHealthy, ''runtime is ready'')
      | ReadinessDegraded \<Rightarrow> (StatusDegraded, snapshotMessage p ''runtime is ready in degraded mode'')
      | ReadinessBlocked \<Rightarrow> (StatusUnhealthy, snapshotMessage p ''runtime is not ready''))"

definition liveness_check :: "posture \<Rightarrow> health_status \<times> string" where
  "liveness_check p =
     (case po_Liveness p of
        LivenessAlive \<Rightarrow> (StatusHealthy, ''runtime is alive'')
      | LivenessStopping \<Rightarrow> (StatusDegraded, snapshotMessage p ''runtime is stopping'')
      | LivenessStopped \<Rightarrow> (StatusUnhealthy, snapshotMessage p ''runtime is stopped''))"

definition posture_check :: "posture \<Rightarrow> health_status \<times> string" where
  "posture_check p =
     (if po_Liveness p = LivenessStopped \<or> po_Startup p = StartupFailed \<or> po_Readiness p = ReadinessBlocked
      then (StatusUnhealthy, snapshotMessage p ''runtime posture is blocking'')
      else if po_Mode p = ModeDegraded \<or> po_Readiness p = ReadinessDegraded \<or> po_Liveness p = LivenessStopping
           \<or> po_Startup p \<noteq> StartupReady
      then (StatusDegraded, snapshotMessage p ''runtime posture is degraded'')
      else (StatusHealthy, ''runtime posture is healthy''))"

definition posture_checker :: "string \<Rightarrow> health_status \<times> string \<Rightarrow> checker" where
  "posture_checker name res = \<lparr>hk_Name = name, hk_result = custom_Check name (fst res, snd res, None)\<rparr>"

definition RegisterHealthChecks :: "posture \<Rightarrow> health_registry \<Rightarrow> health_registry" where
  "RegisterHealthChecks p r =
     health_Register (posture_checker ''runtime-posture'' (posture_check p))
       (health_Register (posture_checker ''runtime-liveness'' (liveness_check p))
         (health_Register (posture_checker ''runtime-readiness'' (readiness_check p))
           (health_Register (posture_checker ''runtime-startup'' (startup_check p)) r)))"

section \<open>The aggregate does not depend on the order\<close>

lemma absorb_cases:
  "hc_Status r = StatusUnhealthy \<Longrightarrow> absorb r s = StatusUnhealthy"
  "hc_Status r = StatusDegraded \<Longrightarrow> absorb r StatusHealthy = StatusDegraded"
  "hc_Status r \<noteq> StatusUnhealthy \<Longrightarrow> s \<noteq> StatusHealthy \<Longrightarrow> absorb r s = s"
  "hc_Status r \<noteq> StatusUnhealthy \<Longrightarrow> hc_Status r \<noteq> StatusDegraded \<Longrightarrow> absorb r s = s"
  by (simp_all add: absorb_def)

lemma fold_absorb:
  "fold absorb rs s =
     (if \<exists>r \<in> set rs. hc_Status r = StatusUnhealthy then StatusUnhealthy
      else if s = StatusHealthy \<and> (\<exists>r \<in> set rs. hc_Status r = StatusDegraded) then StatusDegraded else s)"
proof (induction rs arbitrary: s)
  case (Cons a rs)
  show ?case
    by (cases "hc_Status a = StatusUnhealthy"; cases "hc_Status a = StatusDegraded"; cases "s = StatusHealthy")
      (simp_all add: Cons.IH absorb_cases)
qed simp

definition some_check :: "health_status \<Rightarrow> health_registry \<Rightarrow> bool" where
  "some_check s r \<longleftrightarrow> (\<exists>k c. r k = Some c \<and> hc_Status (hk_result c) = s)"

lemma arrivals_some: "arrivals r results \<Longrightarrow> (\<exists>x \<in> set results. hc_Status x = s) \<longleftrightarrow> some_check s r"
  by (force simp: arrivals_def some_check_def dom_def)

lemma health_Check_status:
  assumes "arrivals r results"
  shows "ag_Status (health_Check results) =
    (if some_check StatusUnhealthy r then StatusUnhealthy else if some_check StatusDegraded r then StatusDegraded else StatusHealthy)"
  using arrivals_some [OF assms] by (simp add: health_Check_def fold_absorb)

lemma some_check_empty: "\<not> some_check s Map.empty"
  by (simp add: some_check_def)

lemma some_check_upd:
  "r k = None \<Longrightarrow> some_check s (r(k \<mapsto> c)) \<longleftrightarrow> hc_Status (hk_result c) = s \<or> some_check s r"
  unfolding some_check_def by (metis fun_upd_apply option.distinct(1) option.inject)

lemma some_check_posture:
  "some_check s (RegisterHealthChecks p Map.empty) \<longleftrightarrow>
     s \<in> {fst (posture_check p), fst (liveness_check p), fst (readiness_check p), fst (startup_check p)}"
  by (simp add: RegisterHealthChecks_def health_Register_def posture_checker_def custom_Check_def some_check_upd some_check_empty)
    blast

text \<open>
  The health of a runtime that exposes its posture: in whatever order the concurrent checks finish, the
  aggregate is ready to serve exactly when the runtime is not stopped, did not fail to start and is
  not blocked, and healthy exactly when it is also started, ready, alive and in normal mode.
\<close>

lemma posture_health:
  assumes "arrivals (RegisterHealthChecks p Map.empty) results"
  shows "(IsReady (health_Check results) \<longleftrightarrow>
        po_Liveness p \<noteq> LivenessStopped \<and> po_Startup p \<noteq> StartupFailed \<and> po_Readiness p \<noteq> ReadinessBlocked)
    \<and> (IsHealthy (health_Check results) \<longleftrightarrow>
        po_Startup p = StartupReady \<and> po_Readiness p = ReadinessReady \<and> po_Liveness p = LivenessAlive \<and> po_Mode p = ModeNormal)"
  unfolding IsReady_def IsHealthy_def health_Check_status [OF assms] some_check_posture
  by (cases "po_Startup p"; cases "po_Readiness p"; cases "po_Liveness p"; cases "po_Mode p")
    (simp_all add: posture_check_def liveness_check_def readiness_check_def startup_check_def)

text \<open>A status that is not one of the three counts as healthy in an aggregate.\<close>

lemma unknown_status_healthy:
  "IsHealthy (health_Check [\<lparr>hc_Name = ''db'', hc_Status = StatusOther ''down'', hc_Message = [], hc_Error = ''refused''\<rparr>])"
  by (simp add: IsHealthy_def health_Check_def absorb_def)

text \<open>A composite of composites is the composite of all their checks, as far as the status goes.\<close>

lemma composite_flat:
  "hc_Status (composite_Check n [composite_Check a xs, composite_Check b ys]) = hc_Status (composite_Check n (xs @ ys))"
proof -
  have c: "hc_Status (composite_Check n rs) = fold absorb rs StatusHealthy" for n rs
    by (simp add: composite_Check_def Let_def)
  show ?thesis unfolding c fold_absorb by (simp add: c fold_absorb bex_Un)
qed

end
