(* ===== verification/FeatureFlags.thy ===== *)
theory FeatureFlags
  imports Errors
begin

text \<open>
  \<^verbatim>\<open>pkg/featureflag/featureflag.go\<close>: typed flag definitions, their registration, and evaluation through a
  provider with a safe default.  The registry is built by registrations and provider changes, a step
  relation; its invariant is that a key has one kind.  The provider is a parameter that returns a
  value of any Go type.
\<close>

section \<open>Values\<close>

text \<open>A \<^verbatim>\<open>float64\<close>: not a number, an infinity (positive or not), or \<open>m * 2 ^ e\<close>.\<close>

datatype float64 = FNaN | FInf bool | FDyadic int int

definition float_integral :: "int \<Rightarrow> int \<Rightarrow> int option" where
  "float_integral m e =
     (if 0 \<le> e then Some (m * 2 ^ nat e)
      else if m mod 2 ^ nat (- e) = 0 then Some (m div 2 ^ nat (- e)) else None)"

text \<open>The values a provider may return, with the name of the type for those no flag accepts.\<close>

datatype any_value =
  AnyBool bool
| AnyString string
| AnyInt int
| AnyInt32 int
| AnyInt64 int
| AnyFloat float64
| AnyOther string

fun type_name :: "any_value \<Rightarrow> string" where
  "type_name (AnyBool _) = ''bool''"
| "type_name (AnyString _) = ''string''"
| "type_name (AnyInt _) = ''int''"
| "type_name (AnyInt32 _) = ''int32''"
| "type_name (AnyInt64 _) = ''int64''"
| "type_name (AnyFloat _) = ''float64''"
| "type_name (AnyOther t) = t"

text \<open>
  The conversion of a \<^verbatim>\<open>float64\<close> with an integral value \<open>v\<close> to \<^verbatim>\<open>int\<close>: Go leaves the result of a value out of
  range to the implementation, the argument \<open>wrap\<close>.
\<close>

definition float_to_int :: "(int \<Rightarrow> int) \<Rightarrow> int \<Rightarrow> int" where
  "float_to_int wrap v = (if fits64 v then v else wrap v)"

text \<open>\<open>float64(math.MaxInt)\<close> is \<open>2 ^ 63\<close>, the nearest \<^verbatim>\<open>float64\<close>.\<close>

fun castInt :: "(int \<Rightarrow> int) \<Rightarrow> any_value \<Rightarrow> string + int" where
  "castInt wrap (AnyInt n) = Inr n"
| "castInt wrap (AnyInt32 n) = Inr n"
| "castInt wrap (AnyInt64 n) = Inr n"
| "castInt wrap (AnyFloat f) =
     (case f of
        FNaN \<Rightarrow> Inl ''expected int value, got non-integer float64''
      | FInf _ \<Rightarrow> Inl ''expected int value, got out-of-range float64''
      | FDyadic m e \<Rightarrow>
          (case float_integral m e of
             None \<Rightarrow> Inl ''expected int value, got non-integer float64''
           | Some v \<Rightarrow>
               (if v > 2 ^ 63 \<or> v < - (2 ^ 63) then Inl ''expected int value, got out-of-range float64''
                else Inr (float_to_int wrap v))))"
| "castInt wrap v = Inl (''expected int value, got '' @ type_name v)"

fun castBool :: "any_value \<Rightarrow> string + bool" where
  "castBool (AnyBool b) = Inr b"
| "castBool v = Inl (''expected bool value, got '' @ type_name v)"

fun castString :: "any_value \<Rightarrow> string + string" where
  "castString (AnyString s) = Inr s"
| "castString v = Inl (''expected string value, got '' @ type_name v)"

section \<open>The registry\<close>

datatype flag_kind = KindBool | KindString | KindInt

fun kind_name :: "flag_kind \<Rightarrow> string" where
  "kind_name KindBool = ''bool''" | "kind_name KindString = ''string''" | "kind_name KindInt = ''int''"

datatype flag_source = SourceDefault | SourceProvider | SourceSafeDefault

record 'v flag_definition =
  fd_Key :: string
  fd_Default :: 'v
  fd_Description :: string

datatype flag_event =
  ProviderChanged
| DefinitionAdded string flag_kind
| Evaluated string flag_kind flag_source string string

record 't flag_registry =
  fr_provider :: "(string \<Rightarrow> 't \<Rightarrow> any_value option result) option"
  fr_bool :: "string \<rightharpoonup> bool flag_definition"
  fr_string :: "string \<rightharpoonup> string flag_definition"
  fr_int :: "string \<rightharpoonup> int flag_definition"
  fr_observers :: nat

definition flag_NewRegistry :: "'t flag_registry" where
  "flag_NewRegistry = \<lparr>fr_provider = None, fr_bool = Map.empty, fr_string = Map.empty, fr_int = Map.empty, fr_observers = 0\<rparr>"

definition AddObserver :: "bool \<Rightarrow> 't flag_registry \<Rightarrow> 't flag_registry" where
  "AddObserver non_nil r = (if \<not> non_nil then r else r\<lparr>fr_observers := Suc (fr_observers r)\<rparr>)"

text \<open>Every observer gets each event, in the order of their registration.\<close>

definition emitObservers :: "'t flag_registry \<Rightarrow> flag_event \<Rightarrow> (nat \<times> flag_event) list" where
  "emitObservers r ev = map (\<lambda>i. (i, ev)) [0 ..< fr_observers r]"

definition SetProvider ::
  "(string \<Rightarrow> 't \<Rightarrow> any_value option result) option \<Rightarrow> 't flag_registry \<Rightarrow> 't flag_registry \<times> (nat \<times> flag_event) list" where
  "SetProvider p r = (let r' = r\<lparr>fr_provider := p\<rparr> in (r', emitObservers r' ProviderChanged))"

definition validateRegistration :: "'t flag_registry \<Rightarrow> string \<Rightarrow> flag_kind \<Rightarrow> err option" where
  "validateRegistration r key kind =
     (let taken = (\<lambda>k. Some (ENew (''feature flag '' @ quoted key @ '' already registered as '' @ kind_name k))) in
      if key = [] then Some (ENew ''feature flag key is required'')
      else if kind \<noteq> KindBool \<and> fr_bool r key \<noteq> None then taken KindBool
      else if kind \<noteq> KindString \<and> fr_string r key \<noteq> None then taken KindString
      else if kind \<noteq> KindInt \<and> fr_int r key \<noteq> None then taken KindInt
      else None)"

definition RegisterBool ::
  "bool flag_definition \<Rightarrow> 't flag_registry \<Rightarrow> err option \<times> 't flag_registry \<times> (nat \<times> flag_event) list" where
  "RegisterBool d r =
     (case validateRegistration r (fd_Key d) KindBool of
        Some e \<Rightarrow> (Some e, r, [])
      | None \<Rightarrow> (None, r\<lparr>fr_bool := (fr_bool r)(fd_Key d \<mapsto> d)\<rparr>, emitObservers r (DefinitionAdded (fd_Key d) KindBool)))"

definition RegisterString ::
  "string flag_definition \<Rightarrow> 't flag_registry \<Rightarrow> err option \<times> 't flag_registry \<times> (nat \<times> flag_event) list" where
  "RegisterString d r =
     (case validateRegistration r (fd_Key d) KindString of
        Some e \<Rightarrow> (Some e, r, [])
      | None \<Rightarrow> (None, r\<lparr>fr_string := (fr_string r)(fd_Key d \<mapsto> d)\<rparr>, emitObservers r (DefinitionAdded (fd_Key d) KindString)))"

definition RegisterInt ::
  "int flag_definition \<Rightarrow> 't flag_registry \<Rightarrow> err option \<times> 't flag_registry \<times> (nat \<times> flag_event) list" where
  "RegisterInt d r =
     (case validateRegistration r (fd_Key d) KindInt of
        Some e \<Rightarrow> (Some e, r, [])
      | None \<Rightarrow> (None, r\<lparr>fr_int := (fr_int r)(fd_Key d \<mapsto> d)\<rparr>, emitObservers r (DefinitionAdded (fd_Key d) KindInt)))"

section \<open>Evaluation\<close>

record 'v evaluation =
  ev_Value :: 'v
  ev_Default :: 'v
  ev_Source :: flag_source
  ev_Description :: string
  ev_Error :: string

text \<open>
  The common text of \<^verbatim>\<open>EvalBool\<close>, \<^verbatim>\<open>EvalString\<close> and \<^verbatim>\<open>EvalInt\<close>: the definitions of the kind, its zero value and
  its cast are arguments.
\<close>

definition eval_flag ::
  "flag_kind \<Rightarrow> 'v \<Rightarrow> (any_value \<Rightarrow> string + 'v) \<Rightarrow> (string \<rightharpoonup> 'v flag_definition) \<Rightarrow> 't flag_registry \<Rightarrow> string \<Rightarrow> 't
    \<Rightarrow> 'v evaluation \<times> (nat \<times> flag_event) list" where
  "eval_flag kind zero cast defs r key target =
     (let emit = (\<lambda>src outcome e. emitObservers r (Evaluated key kind src outcome e));
          mk = (\<lambda>d. \<lparr>ev_Value = fd_Default d, ev_Default = fd_Default d, ev_Source = SourceDefault,
                     ev_Description = fd_Description d, ev_Error = []\<rparr>) in
      case defs key of
        None \<Rightarrow>
          (let e = ''feature flag '' @ quoted key @ '' is not registered''
           in ((mk \<lparr>fd_Key = [], fd_Default = zero, fd_Description = []\<rparr>)\<lparr>ev_Error := e\<rparr>, emit SourceSafeDefault ''unregistered'' e))
      | Some d \<Rightarrow>
          (case fr_provider r of
             None \<Rightarrow> (mk d, emit SourceDefault ''default_used'' [])
           | Some look \<Rightarrow>
               (case look key target of
                  Inl e \<Rightarrow> ((mk d)\<lparr>ev_Source := SourceSafeDefault, ev_Error := error_text e\<rparr>,
                           emit SourceSafeDefault ''provider_error'' (error_text e))
                | Inr None \<Rightarrow> (mk d, emit SourceDefault ''not_found'' [])
                | Inr (Some raw) \<Rightarrow>
                    (case cast raw of
                       Inl m \<Rightarrow> (let e = ''feature flag '' @ quoted key @ '' '' @ m
                                in ((mk d)\<lparr>ev_Source := SourceSafeDefault, ev_Error := e\<rparr>,
                                    emit SourceSafeDefault ''type_mismatch'' e))
                     | Inr v \<Rightarrow> ((mk d)\<lparr>ev_Value := v, ev_Source := SourceProvider\<rparr>,
                                emit SourceProvider ''provider_value'' [])))))"

definition EvalBool :: "'t flag_registry \<Rightarrow> string \<Rightarrow> 't \<Rightarrow> bool evaluation \<times> (nat \<times> flag_event) list" where
  "EvalBool r = eval_flag KindBool False castBool (fr_bool r) r"

definition EvalString :: "'t flag_registry \<Rightarrow> string \<Rightarrow> 't \<Rightarrow> string evaluation \<times> (nat \<times> flag_event) list" where
  "EvalString r = eval_flag KindString [] castString (fr_string r) r"

definition EvalInt :: "(int \<Rightarrow> int) \<Rightarrow> 't flag_registry \<Rightarrow> string \<Rightarrow> 't \<Rightarrow> int evaluation \<times> (nat \<times> flag_event) list" where
  "EvalInt wrap r = eval_flag KindInt 0 (castInt wrap) (fr_int r) r"

text \<open>\<^verbatim>\<open>Snapshot\<close>: the kind and the description of every key; a key of several kinds would show the last.\<close>

definition flag_Snapshot :: "'t flag_registry \<Rightarrow> string \<rightharpoonup> flag_kind \<times> string" where
  "flag_Snapshot r key =
     (case fr_int r key of Some d \<Rightarrow> Some (KindInt, fd_Description d)
      | None \<Rightarrow> (case fr_string r key of Some d \<Rightarrow> Some (KindString, fd_Description d)
        | None \<Rightarrow> map_option (\<lambda>d. (KindBool, fd_Description d)) (fr_bool r key)))"

section \<open>Registries and their invariant\<close>

inductive flag_step :: "'t flag_registry \<Rightarrow> 't flag_registry \<Rightarrow> bool" where
  observer: "flag_step r (AddObserver b r)"
| provider: "flag_step r (fst (SetProvider p r))"
| bool: "flag_step r (fst (snd (RegisterBool d r)))"
| string: "flag_step r (fst (snd (RegisterString d' r)))"
| int: "flag_step r (fst (snd (RegisterInt d'' r)))"

inductive_simps flag_step_simps: "flag_step r r'"

inductive flag_reach :: "'t flag_registry \<Rightarrow> bool" where
  new: "flag_reach flag_NewRegistry"
| step: "flag_reach r \<Longrightarrow> flag_step r r' \<Longrightarrow> flag_reach r'"

definition one_kind :: "'t flag_registry \<Rightarrow> bool" where
  "one_kind r \<longleftrightarrow> dom (fr_bool r) \<inter> dom (fr_string r) = {} \<and> dom (fr_bool r) \<inter> dom (fr_int r) = {}
     \<and> dom (fr_string r) \<inter> dom (fr_int r) = {} \<and> [] \<notin> dom (fr_bool r) \<union> dom (fr_string r) \<union> dom (fr_int r)"

lemma validateRegistration_None:
  "validateRegistration r key kind = None \<longleftrightarrow> key \<noteq> [] \<and> (kind \<noteq> KindBool \<longrightarrow> key \<notin> dom (fr_bool r))
     \<and> (kind \<noteq> KindString \<longrightarrow> key \<notin> dom (fr_string r)) \<and> (kind \<noteq> KindInt \<longrightarrow> key \<notin> dom (fr_int r))"
  by (auto simp: validateRegistration_def Let_def)

lemma flag_step_one_kind:
  assumes "flag_step r r'" and "one_kind r"
  shows "one_kind r'"
  using assms
proof cases
  case (bool d)
  then show ?thesis using assms(2) validateRegistration_None [of r "fd_Key d" KindBool]
    by (auto simp: RegisterBool_def one_kind_def split: option.splits)
next
  case (string d)
  then show ?thesis using assms(2) validateRegistration_None [of r "fd_Key d" KindString]
    by (auto simp: RegisterString_def one_kind_def split: option.splits)
next
  case (int d)
  then show ?thesis using assms(2) validateRegistration_None [of r "fd_Key d" KindInt]
    by (auto simp: RegisterInt_def one_kind_def split: option.splits)
qed (simp_all add: AddObserver_def SetProvider_def Let_def one_kind_def)

lemma flag_reach_one_kind: "flag_reach r \<Longrightarrow> one_kind r"
proof (induction rule: flag_reach.induct)
  case new
  show ?case by (simp add: one_kind_def flag_NewRegistry_def)
next
  case (step r r')
  then show ?case using flag_step_one_kind by blast
qed

section \<open>What an evaluation returns\<close>

text \<open>The value of a registered flag that the provider has and that is of the flag's type.\<close>

definition provided ::
  "(any_value \<Rightarrow> string + 'v) \<Rightarrow> (string \<rightharpoonup> 'v flag_definition) \<Rightarrow> 't flag_registry \<Rightarrow> string \<Rightarrow> 't \<Rightarrow> 'v option" where
  "provided cast defs r key target =
     (case (defs key, fr_provider r) of
        (Some _, Some look) \<Rightarrow>
          (case look key target of
             Inr (Some raw) \<Rightarrow> (case cast raw of Inl _ \<Rightarrow> None | Inr v \<Rightarrow> Some v)
           | _ \<Rightarrow> None)
      | _ \<Rightarrow> None)"

lemma provided_unregistered [simp]: "defs key = None \<Longrightarrow> provided cast defs r key target = None"
  by (simp add: provided_def)

lemma eval_flag_value:
  "ev_Value (fst (eval_flag kind zero cast defs r key target)) =
     (case provided cast defs r key target of Some v \<Rightarrow> v
      | None \<Rightarrow> (case defs key of Some d \<Rightarrow> fd_Default d | None \<Rightarrow> zero))"
  "ev_Source (fst (eval_flag kind zero cast defs r key target)) = SourceProvider \<longleftrightarrow> provided cast defs r key target \<noteq> None"
  by (auto simp: eval_flag_def provided_def Let_def split: option.splits sum.splits)

lemma eval_flag_unregistered:
  "defs key = None \<Longrightarrow> ev_Value (fst (eval_flag kind zero cast defs r key target)) = zero
     \<and> ev_Error (fst (eval_flag kind zero cast defs r key target)) \<noteq> []"
  by (simp add: eval_flag_def Let_def)

text \<open>Every evaluation tells every observer once.\<close>

lemma eval_flag_events: "length (snd (eval_flag kind zero cast defs r key target)) = fr_observers r"
  by (auto simp: eval_flag_def Let_def emitObservers_def split: option.splits sum.splits)

text \<open>
  C25. Flags are typed: in every registry built by registrations and provider changes a key has one kind, the
  one its snapshot shows.  Evaluated by the function of its kind it has the provider's value when that
  is of the kind, reported as such, and the default otherwise, also when the provider fails, lacks the
  key or has a value of another type; evaluated by the function of another kind it is an error with
  the zero value.
\<close>

theorem flags_well_typed:
  assumes "flag_reach r"
  shows "(fr_bool r k = Some b \<longrightarrow>
        flag_Snapshot r k = Some (KindBool, fd_Description b)
        \<and> ev_Value (fst (EvalBool r k t)) = (case provided castBool (fr_bool r) r k t of Some v \<Rightarrow> v | None \<Rightarrow> fd_Default b)
        \<and> (ev_Source (fst (EvalBool r k t)) = SourceProvider \<longleftrightarrow> provided castBool (fr_bool r) r k t \<noteq> None)
        \<and> ev_Value (fst (EvalString r k t)) = [] \<and> ev_Error (fst (EvalString r k t)) \<noteq> []
        \<and> ev_Value (fst (EvalInt wrap r k t)) = 0 \<and> ev_Error (fst (EvalInt wrap r k t)) \<noteq> [])
    \<and> (fr_string r k = Some s \<longrightarrow>
        flag_Snapshot r k = Some (KindString, fd_Description s)
        \<and> ev_Value (fst (EvalString r k t)) = (case provided castString (fr_string r) r k t of Some v \<Rightarrow> v | None \<Rightarrow> fd_Default s)
        \<and> (ev_Source (fst (EvalString r k t)) = SourceProvider \<longleftrightarrow> provided castString (fr_string r) r k t \<noteq> None)
        \<and> \<not> ev_Value (fst (EvalBool r k t)) \<and> ev_Error (fst (EvalBool r k t)) \<noteq> []
        \<and> ev_Value (fst (EvalInt wrap r k t)) = 0 \<and> ev_Error (fst (EvalInt wrap r k t)) \<noteq> [])
    \<and> (fr_int r k = Some i \<longrightarrow>
        flag_Snapshot r k = Some (KindInt, fd_Description i)
        \<and> ev_Value (fst (EvalInt wrap r k t)) = (case provided (castInt wrap) (fr_int r) r k t of Some v \<Rightarrow> v | None \<Rightarrow> fd_Default i)
        \<and> (ev_Source (fst (EvalInt wrap r k t)) = SourceProvider \<longleftrightarrow> provided (castInt wrap) (fr_int r) r k t \<noteq> None)
        \<and> \<not> ev_Value (fst (EvalBool r k t)) \<and> ev_Error (fst (EvalBool r k t)) \<noteq> []
        \<and> ev_Value (fst (EvalString r k t)) = [] \<and> ev_Error (fst (EvalString r k t)) \<noteq> [])"
proof -
  have o: "one_kind r" by (rule flag_reach_one_kind [OF assms])
  have d: "fr_bool r k = Some b \<Longrightarrow> fr_string r k = None \<and> fr_int r k = None"
    "fr_string r k = Some s \<Longrightarrow> fr_bool r k = None \<and> fr_int r k = None"
    "fr_int r k = Some i \<Longrightarrow> fr_bool r k = None \<and> fr_string r k = None"
    using o by (auto simp: one_kind_def dom_def)
  note e = eval_flag_value eval_flag_unregistered [of "fr_bool r" k] eval_flag_unregistered [of "fr_string r" k]
    eval_flag_unregistered [of "fr_int r" k]
  show ?thesis
    unfolding EvalBool_def EvalString_def EvalInt_def
  proof (rule conjI [OF impI conjI [OF impI impI]], goal_cases)
    case 1
    then show ?case using d(1) by (simp add: e flag_Snapshot_def cong: option.case_cong)
  next
    case 2
    then show ?case using d(2) by (simp add: e flag_Snapshot_def cong: option.case_cong)
  next
    case 3
    then show ?case using d(3) by (simp add: e flag_Snapshot_def cong: option.case_cong)
  qed
qed

theorem flags_well_typed_witness:
  "\<exists>r. flag_reach r \<and> fr_int r ''limit'' = Some \<lparr>fd_Key = ''limit'', fd_Default = 5, fd_Description = []\<rparr>
    \<and> ev_Value (fst (EvalInt id r ''limit'' ())) = 7 \<and> ev_Value (fst (EvalString r ''limit'' ())) = []"
proof -
  let ?d = "\<lparr>fd_Key = ''limit'', fd_Default = 5, fd_Description = []\<rparr>"
  let ?look = "\<lambda>_ _::unit. Inr (Some (AnyFloat (FDyadic 14 (-1))))"
  let ?r0 = "fst (SetProvider (Some ?look) flag_NewRegistry)"
  let ?r = "fst (snd (RegisterInt ?d ?r0))"
  have reach: "flag_reach ?r"
    by (rule flag_reach.step [OF flag_reach.step [OF flag_reach.new flag_step.provider] flag_step.int])
  have i: "fr_int ?r ''limit'' = Some ?d"
    by (simp add: RegisterInt_def validateRegistration_def SetProvider_def flag_NewRegistry_def Let_def)
  have p: "provided (castInt id) (fr_int ?r) ?r ''limit'' () = Some 7"
    by (simp add: provided_def i) (simp add: RegisterInt_def validateRegistration_def SetProvider_def flag_NewRegistry_def Let_def
        float_integral_def float_to_int_def fits64_def)
  have "ev_Value (fst (EvalInt id ?r ''limit'' ())) = 7 \<and> ev_Value (fst (EvalString ?r ''limit'' ())) = []"
    using flags_well_typed [OF reach, of "''limit''" _ "()" id _ ?d] i p by simp
  then show ?thesis using reach i by blast
qed

text \<open>
  An integer flag gets the exact number the provider returned, except for the one \<^verbatim>\<open>float64\<close> that equals
  \<open>float64(math.MaxInt)\<close> without being an \<^verbatim>\<open>int\<close>: it passes the range check and the conversion overflows.
\<close>

lemma castInt_exact:
  assumes "castInt wrap (AnyFloat (FDyadic m e)) = Inr v" and "float_integral m e \<noteq> Some (2 ^ 63)"
  shows "float_integral m e = Some v \<and> fits64 v"
  using assms by (auto simp: float_to_int_def fits64_def split: option.splits if_splits)

lemma castInt_overflow: "castInt wrap (AnyFloat (FDyadic 1 63)) = Inr (wrap (2 ^ 63))"
  by (simp add: float_integral_def float_to_int_def fits64_def)

text \<open>An unregistered flag: the result names the default as its source, the event the safe default.\<close>

lemma unregistered_sources:
  assumes "fr_bool r k = None"
  shows "ev_Source (fst (EvalBool r k t)) = SourceDefault"
    and "(i, ev) \<in> set (snd (EvalBool r k t)) \<Longrightarrow> \<exists>e. ev = Evaluated k KindBool SourceSafeDefault ''unregistered'' e"
  using assms by (auto simp: EvalBool_def eval_flag_def Let_def emitObservers_def)

end
