(* ===== verification/App.thy ===== *)
theory App
  imports Health FeatureFlags "HOL-Library.Multiset" "HOL-Library.Sublist"
begin

text \<open>
  \<^verbatim>\<open>pkg/core/app/app.go\<close>, \<^verbatim>\<open>operations.go\<close> and \<^verbatim>\<open>service_helpers.go\<close>: the life cycle of an application.  A hook is a
  function on the runtime, which it may change in every part; it also sees the error of its context
  at the call.  \<^verbatim>\<open>Prepare\<close>, \<^verbatim>\<open>Run\<close> and the shutdown return their error, the runtime, and the
  list of the hooks they called, in order.  The runners are concurrent: what they did to the runtime
  and their results in the order of arrival are arguments.  Logging, the descriptions of
  signals and the metadata of failure rules are left out.
\<close>

section \<open>Failure injection\<close>

datatype failure_mode = FailureModeOff | FailureModeError | FailureModeDelay | FailureModeEmpty | FailureModeOther string

record failure_spec =
  fs_Target :: string
  fs_Mode :: failure_mode
  fs_Delay :: duration
  fs_Message :: string

type_synonym injector = "string \<rightharpoonup> failure_spec"

definition injector_Set :: "failure_spec \<Rightarrow> injector \<Rightarrow> injector" where
  "injector_Set spec i =
     (let target = trim_space (fs_Target spec) in
      if target = [] then i
      else i(target \<mapsto> (if fs_Mode spec = FailureModeEmpty then spec\<lparr>fs_Mode := FailureModeOff\<rparr> else spec)))"

definition injector_Clear :: "string \<Rightarrow> injector \<Rightarrow> injector" where
  "injector_Clear target i = i(trim_space target := None)"

text \<open>
  \<^verbatim>\<open>Apply\<close>; the first argument is the error of the context when it ends before the delay of the target does.
\<close>

definition injector_Apply :: "(string \<Rightarrow> err option) \<Rightarrow> injector \<Rightarrow> string \<Rightarrow> err option" where
  "injector_Apply ends i target =
     (case i (trim_space target) of
        None \<Rightarrow> None
      | Some spec \<Rightarrow>
          (case fs_Mode spec of
             FailureModeDelay \<Rightarrow> (if fs_Delay spec \<le> 0 then None else ends target)
           | FailureModeError \<Rightarrow>
               (let msg = trim_space (fs_Message spec) in
                Some (ENew (if msg = [] then ''failure injection triggered'' else msg)))
           | _ \<Rightarrow> None))"

datatype phase =
  PhaseConfigResolution | PhaseObservabilityBaseline | PhaseFeatureRegistration | PhaseHealthRegistration
| PhaseServiceConstruction | PhaseRuntimeExecution | PhaseGracefulShutdown

fun phase_text :: "phase \<Rightarrow> string" where
  "phase_text PhaseConfigResolution = ''config_resolution''"
| "phase_text PhaseObservabilityBaseline = ''observability_baseline''"
| "phase_text PhaseFeatureRegistration = ''feature_registration''"
| "phase_text PhaseHealthRegistration = ''health_registration''"
| "phase_text PhaseServiceConstruction = ''service_construction''"
| "phase_text PhaseRuntimeExecution = ''runtime_execution''"
| "phase_text PhaseGracefulShutdown = ''graceful_shutdown''"

definition HookFailureTarget :: "phase \<Rightarrow> string \<Rightarrow> string" where
  "HookFailureTarget p name = ''phase:'' @ phase_text p @ ''/hook:'' @ trim_space name"

definition RunnerFailureTarget :: "string \<Rightarrow> string" where
  "RunnerFailureTarget name = ''runner:'' @ trim_space name"

definition ShutdownFailureTarget :: "string \<Rightarrow> string" where
  "ShutdownFailureTarget name = ''shutdown:'' @ trim_space name"

section \<open>Deployment posture\<close>

datatype posture_level =
  PostureSingleRegionOnly | PostureSingleWriterMultiRegionFailover | PostureMultiRegionActivePassive
| PostureMultiRegionActiveActiveSubset | PostureOther string

datatype recovery_state =
  RecoveryNormal | RecoveryFailoverPending | RecoveryReplayRequired | RecoveryReconciling
| RecoveryDegradedRecovery | RecoveryOther string

record deployment =
  dp_Level :: posture_level
  dp_RecoveryState :: recovery_state
  dp_RegionScope :: string
  dp_WriterTopology :: string
  dp_ReplayRequired :: bool
  dp_ExternalDurableDependencyRequired :: bool
  dp_LeaderLockLocality :: string
  dp_OrderingScope :: string
  dp_IdempotencyRequired :: bool
  dp_DeduplicationBoundary :: string

definition NewDeploymentPosture :: deployment where
  "NewDeploymentPosture =
     \<lparr>dp_Level = PostureSingleRegionOnly, dp_RecoveryState = RecoveryNormal, dp_RegionScope = [], dp_WriterTopology = [],
      dp_ReplayRequired = False, dp_ExternalDurableDependencyRequired = False, dp_LeaderLockLocality = [], dp_OrderingScope = [],
      dp_IdempotencyRequired = False, dp_DeduplicationBoundary = []\<rparr>"

definition deployment_Validate :: "deployment \<Rightarrow> err option" where
  "deployment_Validate p =
     (let multiRegion = (dp_Level p \<noteq> PostureSingleRegionOnly) in
      if multiRegion \<and> blank (dp_RegionScope p)
      then Some (ENew ''deployment posture region_scope is required for multi-region levels'')
      else if multiRegion \<and> blank (dp_WriterTopology p)
      then Some (ENew ''deployment posture writer_topology is required for multi-region levels'')
      else if \<not> multiRegion \<and> dp_RecoveryState p \<noteq> RecoveryNormal
      then Some (ENew ''single-region posture cannot declare failover recovery states'')
      else if dp_ReplayRequired p \<and> \<not> dp_IdempotencyRequired p
      then Some (ENew ''replay_required posture must also require idempotency'')
      else if multiRegion \<and> to_lower (trim_space (dp_LeaderLockLocality p)) = ''single_instance_only''
      then Some (ENew ''multi-region posture cannot use single_instance_only leader lock locality'')
      else if multiRegion \<and> dp_ExternalDurableDependencyRequired p \<and> blank (dp_DeduplicationBoundary p)
      then Some (ENew ''multi-region posture with durable dependencies must define deduplication_boundary'')
      else None)"

section \<open>Signals and introspection\<close>

datatype signal_class = SignalLatency | SignalTraffic | SignalErrors | SignalSaturation | SignalOther string

record signal =
  sg_Name :: string
  sg_Family :: string
  sg_Class :: signal_class
  sg_Metric :: string

type_synonym signals = "string \<rightharpoonup> signal"

definition signals_Register :: "signal \<Rightarrow> signals \<Rightarrow> signals" where
  "signals_Register a c = (let name = trim_space (sg_Name a) in if name = [] then c else c(name \<mapsto> a))"

text \<open>The values the life cycle itself exposes; what hooks register is opaque.\<close>

datatype introspection =
  InFlags "string \<rightharpoonup> flag_kind \<times> string" | InPosture posture | InFailures injector | InDeployment deployment
| InSignals signals | InValue string

section \<open>The runtime\<close>

text \<open>The type \<open>'v\<close> is that of the services, \<open>'t\<close> the targets of the feature flags.\<close>

record ('t, 'v) app_runtime =
  rt_Name :: string
  rt_Debug :: bool
  rt_Flags :: "'t flag_registry"
  rt_Failures :: injector
  rt_Deployment :: deployment
  rt_Signals :: signals
  rt_Introspection :: "string \<rightharpoonup> introspection"
  rt_Posture :: posture
  rt_Services :: "string \<rightharpoonup> 'v"
  rt_Tracer :: bool

definition SetService :: "string \<Rightarrow> 'v \<Rightarrow> ('t, 'v) app_runtime \<Rightarrow> ('t, 'v) app_runtime" where
  "SetService name v rt = rt\<lparr>rt_Services := (rt_Services rt)(name \<mapsto> v)\<rparr>"

definition Service :: "string \<Rightarrow> ('t, 'v) app_runtime \<Rightarrow> 'v option" where
  "Service name rt = rt_Services rt name"

text \<open>\<^verbatim>\<open>GetService\<close>: the typed assertion is the second argument.\<close>

definition GetService :: "string \<Rightarrow> ('v \<Rightarrow> 'a option) \<Rightarrow> ('t, 'v) app_runtime option \<Rightarrow> 'a option" where
  "GetService name as rt =
     (case rt of None \<Rightarrow> None
      | Some r \<Rightarrow> (case Service name r of None \<Rightarrow> None | Some v \<Rightarrow> as v))"

type_synonym ('t, 'v) hook_fn = "err option \<Rightarrow> ('t, 'v) app_runtime \<Rightarrow> err option \<times> ('t, 'v) app_runtime"

record ('t, 'v) hook =
  hook_Name :: string
  hook_Fn :: "('t, 'v) hook_fn option"

text \<open>A runner: only whether it has a function matters, since its run is an argument.\<close>

record runner =
  runner_Name :: string
  runner_Fn :: bool

record ('t, 'v) contributions =
  fc_ObservabilityHooks :: "('t, 'v) hook list"
  fc_StartupHooks :: "('t, 'v) hook list"
  fc_HealthContributors :: "('t, 'v) hook list"
  fc_InstrumentationHooks :: "('t, 'v) hook list"
  fc_ServiceConstructors :: "('t, 'v) hook list"
  fc_RuntimeRunners :: "runner list"
  fc_ShutdownHooks :: "('t, 'v) hook list"
  fc_IntrospectionContributors :: "('t, 'v) hook list"

record ('t, 'v) app_options =
  ao_runtime :: "('t, 'v) app_runtime"
  ao_Features :: "('t, 'v) contributions option list"
  ao_ShutdownTimeout :: duration
  ao_ConfigResolvers :: "('t, 'v) hook list"
  ao_ObservabilityHooks :: "('t, 'v) hook list"
  ao_FeatureRegistrations :: "('t, 'v) hook list"
  ao_HealthRegistrations :: "('t, 'v) hook list"
  ao_InstrumentationHooks :: "('t, 'v) hook list"
  ao_ServiceConstructors :: "('t, 'v) hook list"
  ao_Runners :: "runner list"
  ao_ShutdownHooks :: "('t, 'v) hook list"

record ('t, 'v) app =
  app_shutdownTimeout :: duration
  app_configResolvers :: "('t, 'v) hook list"
  app_observabilityHooks :: "('t, 'v) hook list"
  app_featureRegistrations :: "('t, 'v) hook list"
  app_healthRegistrations :: "('t, 'v) hook list"
  app_instrumentationHooks :: "('t, 'v) hook list"
  app_serviceConstructors :: "('t, 'v) hook list"
  app_runners :: "runner list"
  app_shutdownHooks :: "('t, 'v) hook list"
  app_introspectionHooks :: "('t, 'v) hook list"

section \<open>\<^verbatim>\<open>New\<close>\<close>

definition collectFeatureContributions :: "('t, 'v) contributions option list \<Rightarrow> ('t, 'v) contributions" where
  "collectFeatureContributions fs =
     (let cs = List.map_filter (\<lambda>x. x) fs in
      \<lparr>fc_ObservabilityHooks = concat (map fc_ObservabilityHooks cs), fc_StartupHooks = concat (map fc_StartupHooks cs),
       fc_HealthContributors = concat (map fc_HealthContributors cs),
       fc_InstrumentationHooks = concat (map fc_InstrumentationHooks cs),
       fc_ServiceConstructors = concat (map fc_ServiceConstructors cs), fc_RuntimeRunners = concat (map fc_RuntimeRunners cs),
       fc_ShutdownHooks = concat (map fc_ShutdownHooks cs),
       fc_IntrospectionContributors = concat (map fc_IntrospectionContributors cs)\<rparr>)"

text \<open>The adapted hook of a feature always has a function.\<close>

definition adaptFeatureHooks :: "('t, 'v) hook list \<Rightarrow> ('t, 'v) hook list" where
  "adaptFeatureHooks hs =
     map (\<lambda>h. h\<lparr>hook_Fn := Some (case hook_Fn h of None \<Rightarrow> \<lambda>c rt. (None, rt) | Some f \<Rightarrow> f)\<rparr>) hs"

definition adaptFeatureRunners :: "runner list \<Rightarrow> runner list" where
  "adaptFeatureRunners rs = map (\<lambda>r. r\<lparr>runner_Fn := True\<rparr>) rs"

definition runtime_signals :: "signals \<Rightarrow> signals" where
  "runtime_signals c =
     signals_Register \<lparr>sg_Name = ''runtime-degraded-mode'', sg_Family = ''runtime'', sg_Class = SignalSaturation, sg_Metric = ''runtime-posture''\<rparr>
      (signals_Register \<lparr>sg_Name = ''runtime-liveness'', sg_Family = ''runtime'', sg_Class = SignalErrors, sg_Metric = ''runtime-liveness''\<rparr>
        (signals_Register \<lparr>sg_Name = ''runtime-readiness'', sg_Family = ''runtime'', sg_Class = SignalErrors, sg_Metric = ''runtime-readiness''\<rparr> c))"

text \<open>The registries that the options leave out are new ones already, in \<open>ao_runtime\<close>.\<close>

definition app_New :: "('t, 'v) app_options \<Rightarrow> ('t, 'v) app \<times> ('t, 'v) app_runtime" where
  "app_New opts =
     (let fc = collectFeatureContributions (ao_Features opts) in
      (\<lparr>app_shutdownTimeout = pos_or (ao_ShutdownTimeout opts) (30 * second),
        app_configResolvers = ao_ConfigResolvers opts,
        app_observabilityHooks = ao_ObservabilityHooks opts @ adaptFeatureHooks (fc_ObservabilityHooks fc),
        app_featureRegistrations = ao_FeatureRegistrations opts @ adaptFeatureHooks (fc_StartupHooks fc),
        app_healthRegistrations = ao_HealthRegistrations opts @ adaptFeatureHooks (fc_HealthContributors fc),
        app_instrumentationHooks = ao_InstrumentationHooks opts @ adaptFeatureHooks (fc_InstrumentationHooks fc),
        app_serviceConstructors = ao_ServiceConstructors opts @ adaptFeatureHooks (fc_ServiceConstructors fc),
        app_runners = ao_Runners opts @ adaptFeatureRunners (fc_RuntimeRunners fc),
        app_shutdownHooks = ao_ShutdownHooks opts @ adaptFeatureHooks (fc_ShutdownHooks fc),
        app_introspectionHooks = adaptFeatureHooks (fc_IntrospectionContributors fc)\<rparr>,
       (ao_runtime opts)\<lparr>rt_Signals := runtime_signals (rt_Signals (ao_runtime opts)), rt_Services := Map.empty\<rparr>))"

section \<open>Phases\<close>

text \<open>
  What the calls depend on besides the runtime: the readings of the clock, and for a target the
  error of the context when its hook is called and when it ends an injected delay.
\<close>

record app_env =
  en_clock :: "nat \<Rightarrow> gotime"
  en_ctx :: "string \<Rightarrow> err option"
  en_cut :: "string \<Rightarrow> err option"

datatype app_event = Hooked phase string | RanRunners

fun run_hooks ::
  "app_env \<Rightarrow> phase \<Rightarrow> ('t, 'v) hook list \<Rightarrow> ('t, 'v) app_runtime \<Rightarrow> err option \<times> ('t, 'v) app_runtime \<times> app_event list" where
  "run_hooks E p [] rt = (None, rt, [])"
| "run_hooks E p (h # hs) rt =
     (let target = HookFailureTarget p (hook_Name h) in
      case hook_Fn h of
        None \<Rightarrow> run_hooks E p hs rt
      | Some f \<Rightarrow>
          (case injector_Apply (en_cut E) (rt_Failures rt) target of
             Some e \<Rightarrow>
               (Some (EWrap (phase_text p @ '' failure injection for hook '' @ quoted (hook_Name h) @ '' failed: '') e []), rt, [])
           | None \<Rightarrow>
               (case f (en_ctx E target) rt of
                  (Some e, rt') \<Rightarrow>
                    (Some (EWrap (phase_text p @ '' hook '' @ quoted (hook_Name h) @ '' failed: '') e []), rt', [Hooked p (hook_Name h)])
                | (None, rt') \<Rightarrow>
                    (case run_hooks E p hs rt' of (r, rt'', evs) \<Rightarrow> (r, rt'', Hooked p (hook_Name h) # evs)))))"

abbreviation set_posture :: "(posture \<Rightarrow> posture) \<Rightarrow> ('t, 'v) app_runtime \<Rightarrow> ('t, 'v) app_runtime" where
  "set_posture f rt \<equiv> rt\<lparr>rt_Posture := f (rt_Posture rt)\<rparr>"

definition startup_failed :: "app_env \<Rightarrow> err \<Rightarrow> ('t, 'v) app_runtime \<Rightarrow> ('t, 'v) app_runtime" where
  "startup_failed E e rt =
     set_posture (SetReadiness (en_clock E 4) ReadinessBlocked ''startup failed'' \<circ> SetStartup (en_clock E 3) StartupFailed (error_text e)) rt"

text \<open>The phases of \<^verbatim>\<open>Prepare\<close>, in order; the third component is the guard of the phase.\<close>

definition startup_phases :: "('t, 'v) app \<Rightarrow> (phase \<times> ('t, 'v) hook list \<times> bool) list" where
  "startup_phases a =
     [(PhaseConfigResolution, app_configResolvers a, False),
      (PhaseObservabilityBaseline, app_observabilityHooks a, False),
      (PhaseFeatureRegistration, app_featureRegistrations a, False),
      (PhaseHealthRegistration, app_healthRegistrations a, False),
      (PhaseHealthRegistration, app_introspectionHooks a, True),
      (PhaseObservabilityBaseline, app_instrumentationHooks a, False),
      (PhaseServiceConstruction, app_serviceConstructors a, False)]"

text \<open>A phase that fails ends \<^verbatim>\<open>Prepare\<close>; one with the guard runs in debug mode only.\<close>

fun run_phases ::
  "app_env \<Rightarrow> (phase \<times> ('t, 'v) hook list \<times> bool) list \<Rightarrow> ('t, 'v) app_runtime \<Rightarrow> err option \<times> ('t, 'v) app_runtime \<times> app_event list" where
  "run_phases E [] rt = (None, rt, [])"
| "run_phases E ((p, hs, guarded) # ps) rt =
     (if guarded \<and> \<not> rt_Debug rt then run_phases E ps rt
      else (case run_hooks E p hs rt of
          (Some e, rt', evs) \<Rightarrow> (Some e, startup_failed E e rt', evs)
        | (None, rt', evs) \<Rightarrow> (case run_phases E ps rt' of (r, rt'', evs') \<Rightarrow> (r, rt'', evs @ evs'))))"

definition startup_begins :: "app_env \<Rightarrow> ('t, 'v) app_runtime \<Rightarrow> ('t, 'v) app_runtime" where
  "startup_begins E rt =
     set_posture (SetStartup (en_clock E 2) StartupStarting ''startup in progress''
       \<circ> SetReadiness (en_clock E 1) ReadinessBlocked ''startup in progress'' \<circ> SetLiveness (en_clock E 0) LivenessAlive []) rt"

definition startup_done :: "app_env \<Rightarrow> ('t, 'v) app_runtime \<Rightarrow> ('t, 'v) app_runtime" where
  "startup_done E rt =
     (let p = SetStartup (en_clock E 3) StartupReady ''startup completed'' (rt_Posture rt);
          q = (if po_Mode p = ModeDegraded
               then SetReadiness (en_clock E 4) ReadinessDegraded ''runtime is ready in degraded mode'' p
               else SetReadiness (en_clock E 4) ReadinessReady ''runtime is ready'' p);
          rt' = rt\<lparr>rt_Posture := q\<rparr> in
      if rt_Debug rt then
        rt'\<lparr>rt_Introspection := (rt_Introspection rt')
            (''feature_flags'' \<mapsto> InFlags (flag_Snapshot (rt_Flags rt')), ''runtime_posture'' \<mapsto> InPosture q,
             ''failure_injection'' \<mapsto> InFailures (rt_Failures rt'), ''deployment_posture'' \<mapsto> InDeployment (rt_Deployment rt'),
             ''signal_catalog'' \<mapsto> InSignals (rt_Signals rt'))\<rparr>
      else rt')"

definition app_Prepare :: "app_env \<Rightarrow> ('t, 'v) app \<Rightarrow> ('t, 'v) app_runtime \<Rightarrow> err option \<times> ('t, 'v) app_runtime \<times> app_event list" where
  "app_Prepare E a rt =
     (case run_phases E (startup_phases a) (startup_begins E rt) of
        (Some e, rt', evs) \<Rightarrow> (Some e, rt', evs)
      | (None, rt', evs) \<Rightarrow>
          (case deployment_Validate (rt_Deployment rt') of
             Some e \<Rightarrow> (Some (EWrap ''deployment posture validation failed: '' e []), startup_failed E e rt', evs)
           | None \<Rightarrow> (None, startup_done E rt', evs)))"

section \<open>Runners\<close>

text \<open>What one runner sends: nil without a function, the injected failure, or the result of its run.\<close>

definition runner_outcome :: "app_env \<Rightarrow> injector \<Rightarrow> runner \<Rightarrow> err option \<Rightarrow> err option" where
  "runner_outcome E i r res =
     (if \<not> runner_Fn r then None
      else case injector_Apply (en_cut E) i (RunnerFailureTarget (runner_Name r)) of
          Some e \<Rightarrow> Some (EWrap (''runner '' @ quoted (runner_Name r) @ '' failure injection failed: '') e [])
        | None \<Rightarrow> res)"

text \<open>The receiving loop: the first error and whether the runners were cancelled, on the results as they arrive.\<close>

fun receive :: "err option \<Rightarrow> bool \<Rightarrow> err option list \<Rightarrow> err option \<times> bool" where
  "receive firstErr cancelled [] = (firstErr, cancelled)"
| "receive firstErr cancelled (e # es) =
     (if e \<noteq> None \<and> firstErr = None then receive e True es else receive firstErr cancelled es)"

definition runRunners :: "runner list \<Rightarrow> err option list \<Rightarrow> err option" where
  "runRunners rs arrived = (if rs = [] then None else fst (receive None False arrived))"

text \<open>The results that can arrive: one of each runner, in any order.\<close>

definition runner_results :: "app_env \<Rightarrow> injector \<Rightarrow> runner list \<Rightarrow> err option list \<Rightarrow> err option list \<Rightarrow> bool" where
  "runner_results E i rs results arrived \<longleftrightarrow> length results = length rs \<and>
     mset arrived = mset (map2 (runner_outcome E i) rs results)"

section \<open>Shutdown\<close>

fun shutdown_hooks ::
  "app_env \<Rightarrow> ('t, 'v) hook list \<Rightarrow> err option \<Rightarrow> ('t, 'v) app_runtime \<Rightarrow> err option \<times> ('t, 'v) app_runtime \<times> app_event list" where
  "shutdown_hooks E [] acc rt = (acc, rt, [])"
| "shutdown_hooks E (h # hs) acc rt =
     (let target = ShutdownFailureTarget (hook_Name h); p = phase_text PhaseGracefulShutdown in
      case hook_Fn h of
        None \<Rightarrow> shutdown_hooks E hs acc rt
      | Some f \<Rightarrow>
          (case injector_Apply (en_cut E) (rt_Failures rt) target of
             Some e \<Rightarrow>
               shutdown_hooks E hs
                 (errors_join [acc, Some (EWrap (p @ '' failure injection for hook '' @ quoted (hook_Name h) @ '' failed: '') e [])]) rt
           | None \<Rightarrow>
               (case f (en_ctx E target) rt of (r, rt') \<Rightarrow>
                  (case shutdown_hooks E hs
                          (case r of None \<Rightarrow> acc
                           | Some e \<Rightarrow> errors_join [acc, Some (EWrap (p @ '' hook '' @ quoted (hook_Name h) @ '' failed: '') e [])]) rt' of
                     (r', rt'', evs) \<Rightarrow> (r', rt'', Hooked PhaseGracefulShutdown (hook_Name h) # evs)))))"

text \<open>\<^verbatim>\<open>shutdown\<close>; the result of the tracer's own shutdown is the last argument but one.\<close>

definition app_shutdown ::
  "app_env \<Rightarrow> ('t, 'v) app \<Rightarrow> err option \<Rightarrow> ('t, 'v) app_runtime \<Rightarrow> err option \<times> ('t, 'v) app_runtime \<times> app_event list" where
  "app_shutdown E a tracer rt =
     (let rt1 = set_posture (SetLiveness (en_clock E 6) LivenessStopping ''graceful shutdown in progress''
            \<circ> SetReadiness (en_clock E 5) ReadinessBlocked ''graceful shutdown in progress'') rt in
      case shutdown_hooks E (rev (app_shutdownHooks a)) None rt1 of
        (r, rt2, evs) \<Rightarrow>
          (let r' = (if rt_Tracer rt2
                     then (case tracer of None \<Rightarrow> r | Some e \<Rightarrow> errors_join [r, Some (EWrap ''shutdown tracer provider: '' e [])])
                     else r) in
           (r', set_posture (SetLiveness (en_clock E 7) LivenessStopped ''runtime stopped'') rt2, evs)))"

definition app_Run ::
  "app_env \<Rightarrow> ('t, 'v) app \<Rightarrow> (('t, 'v) app_runtime \<Rightarrow> ('t, 'v) app_runtime) \<Rightarrow> err option list \<Rightarrow> err option \<Rightarrow> ('t, 'v) app_runtime
    \<Rightarrow> err option \<times> ('t, 'v) app_runtime \<times> app_event list" where
  "app_Run E a work arrived tracer rt =
     (case app_Prepare E a rt of
        (Some e, rt1, evs) \<Rightarrow> (Some e, rt1, evs)
      | (None, rt1, evs) \<Rightarrow>
          (let rt2 = (if app_runners a = [] then rt1 else work rt1) in
           case app_shutdown E a tracer rt2 of
             (shutdownErr, rt3, evs') \<Rightarrow>
               (errors_join [runRunners (app_runners a) arrived, shutdownErr], rt3, evs @ RanRunners # evs')))"

section \<open>The life cycle\<close>

definition callable :: "('t, 'v) hook list \<Rightarrow> string list" where
  "callable hs = map hook_Name (filter (\<lambda>h. hook_Fn h \<noteq> None) hs)"

fun phase_events :: "bool \<Rightarrow> (phase \<times> ('t, 'v) hook list \<times> bool) list \<Rightarrow> app_event list" where
  "phase_events dbg [] = []"
| "phase_events dbg ((p, hs, guarded) # ps) =
     (if guarded \<and> \<not> dbg then [] else map (Hooked p) (callable hs)) @ phase_events dbg ps"

abbreviation startup_events :: "('t, 'v) app \<Rightarrow> bool \<Rightarrow> app_event list" where
  "startup_events a dbg \<equiv> phase_events dbg (startup_phases a)"

abbreviation shutdown_events :: "('t, 'v) app \<Rightarrow> app_event list" where
  "shutdown_events a \<equiv> map (Hooked PhaseGracefulShutdown) (callable (rev (app_shutdownHooks a)))"

text \<open>No hook and no runner turns a failure injection on.\<close>

definition keeps_failures :: "('t, 'v) hook list \<Rightarrow> bool" where
  "keeps_failures hs \<longleftrightarrow> (\<forall>h f c r. h \<in> set hs \<longrightarrow> hook_Fn h = Some f \<longrightarrow> rt_Failures (snd (f c r)) = rt_Failures r)"

lemma run_hooks_events:
  "run_hooks E p hs rt = (r, rt', evs) \<Longrightarrow>
     prefix evs (map (Hooked p) (callable hs)) \<and> (r = None \<longrightarrow> evs = map (Hooked p) (callable hs))"
proof (induction hs arbitrary: rt evs)
  case (Cons h hs)
  then show ?case
    by (fastforce simp: callable_def Let_def split: option.splits prod.splits)
qed (simp add: callable_def)

lemma phase_events_unguarded:
  "filter (\<lambda>(p, hs, g). g) ps = [] \<Longrightarrow> phase_events d ps = phase_events d' ps"
  by (induction d ps rule: phase_events.induct) (auto split: if_splits)

lemma run_phases_events:
  "run_phases E ps rt = (r, rt', evs) \<Longrightarrow> length (filter (\<lambda>(p, hs, g). g) ps) \<le> 1 \<Longrightarrow>
     \<exists>dbg. prefix evs (phase_events dbg ps) \<and> (r = None \<longrightarrow> evs = phase_events dbg ps)"
proof (induction E ps rt arbitrary: evs rule: run_phases.induct)
  case (2 E p hs g ps rt)
  show ?case
  proof (cases "g \<and> \<not> rt_Debug rt")
    case True
    then have u: "filter (\<lambda>(p, hs, g). g) ps = []" using "2.prems"(2) by simp
    then obtain dbg where "prefix evs (phase_events dbg ps) \<and> (r = None \<longrightarrow> evs = phase_events dbg ps)"
      using "2.IH"(1) [OF True] "2.prems"(1) True by auto
    then show ?thesis
      using True phase_events_unguarded [OF u, of dbg False] by (intro exI [of _ False]) auto
  next
    case False
    obtain r1 rt1 e1 where h: "run_hooks E p hs rt = (r1, rt1, e1)" by (metis prod.collapse)
    note ev = run_hooks_events [OF h]
    show ?thesis
    proof (cases r1)
      case (Some e)
      with "2.prems"(1) False h have "evs = e1" "r \<noteq> None" by auto
      with ev show ?thesis by (intro exI [of _ True]) (auto intro: prefix_order.trans)
    next
      case None
      obtain r2 rt2 e2 where t: "run_phases E ps rt1 = (r2, rt2, e2)" by (metis prod.collapse)
      have evs: "evs = e1 @ e2" "r = r2" and t': "run_phases E ps rt1 = (r, rt', e2)"
        using "2.prems"(1) False h None t by auto
      have "length (filter (\<lambda>(p, hs, g). g) ps) \<le> 1" using "2.prems"(2) by (simp split: if_splits)
      then obtain dbg where d: "prefix e2 (phase_events dbg ps) \<and> (r = None \<longrightarrow> e2 = phase_events dbg ps)"
        using "2.IH"(2) [OF False h [symmetric] None refl, of e2] t' by auto
      show ?thesis
      proof (cases g)
        case True
        then have "phase_events dbg ps = phase_events True ps"
          using "2.prems"(2) by (intro phase_events_unguarded) simp
        then show ?thesis using d evs ev None True by (intro exI [of _ True]) auto
      next
        case False
        then show ?thesis using d evs ev None by (intro exI [of _ dbg]) auto
      qed
    qed
  qed
qed simp

lemma startup_failed_posture:
  "po_Startup (rt_Posture (startup_failed E e rt)) = StartupFailed"
  "po_Readiness (rt_Posture (startup_failed E e rt)) = ReadinessBlocked"
  by (simp_all add: startup_failed_def SetReadiness_def SetStartup_def posture_update_def)

lemma startup_done_posture:
  "po_Startup (rt_Posture (startup_done E rt)) = StartupReady"
  "po_Mode (rt_Posture (startup_done E rt)) = po_Mode (rt_Posture rt)"
  "po_Readiness (rt_Posture (startup_done E rt)) = (if po_Mode (rt_Posture rt) = ModeDegraded then ReadinessDegraded else ReadinessReady)"
  by (cases "po_Mode (rt_Posture rt)"; cases "rt_Debug rt";
      simp add: startup_done_def Let_def SetReadiness_def SetStartup_def posture_update_def)+

lemma run_phases_failed:
  "run_phases E ps rt = (Some e, rt', evs) \<Longrightarrow>
     po_Startup (rt_Posture rt') = StartupFailed \<and> po_Readiness (rt_Posture rt') = ReadinessBlocked"
  by (induction E ps rt arbitrary: evs rule: run_phases.induct)
    (auto simp: startup_failed_posture split: if_splits prod.splits option.splits)

lemma startup_guards: "length (filter (\<lambda>(p, hs, g). g) (startup_phases a)) \<le> 1"
  by (simp add: startup_phases_def)

lemma app_Prepare_events:
  assumes "app_Prepare E a rt = (r, rt', evs)"
  shows "\<exists>dbg. prefix evs (startup_events a dbg) \<and> (r = None \<longrightarrow> evs = startup_events a dbg)"
proof -
  obtain r1 rt1 e1 where p: "run_phases E (startup_phases a) (startup_begins E rt) = (r1, rt1, e1)" by (metis prod.collapse)
  have "evs = e1" "r = None \<longrightarrow> r1 = None"
    using assms p by (auto simp: app_Prepare_def split: option.splits)
  then show ?thesis using run_phases_events [OF p startup_guards] by auto
qed

text \<open>A failed start leaves the posture failed and blocked, a completed one ready.\<close>

lemma app_Prepare_posture:
  assumes "app_Prepare E a rt = (r, rt', evs)"
  shows "r \<noteq> None \<Longrightarrow> po_Startup (rt_Posture rt') = StartupFailed \<and> po_Readiness (rt_Posture rt') = ReadinessBlocked"
    and "r = None \<Longrightarrow> po_Startup (rt_Posture rt') = StartupReady \<and>
      po_Readiness (rt_Posture rt') = (if po_Mode (rt_Posture rt') = ModeDegraded then ReadinessDegraded else ReadinessReady)"
  using assms run_phases_failed [of E "startup_phases a" "startup_begins E rt"]
  by (auto simp: app_Prepare_def startup_failed_posture startup_done_posture split: prod.splits option.splits)

lemma app_Prepare_health:
  assumes "app_Prepare E a rt = (None, rt', evs)" and "po_Liveness (rt_Posture rt') = LivenessAlive"
    and "arrivals (RegisterHealthChecks (rt_Posture rt') Map.empty) results"
  shows "IsReady (health_Check results) \<and> (IsHealthy (health_Check results) \<longleftrightarrow> po_Mode (rt_Posture rt') = ModeNormal)"
  using posture_health [OF assms(3)] app_Prepare_posture(2) [OF assms(1)] assms(2)
  by (cases "po_Mode (rt_Posture rt')") auto

lemma errors_join_acc [simp]: "errors_join [acc, Some e] = Some (EJoin (case acc of None \<Rightarrow> [e] | Some x \<Rightarrow> [x, e]))"
  by (simp add: errors_join_def List.map_filter_def split: option.splits)

lemma shutdown_hooks_events:
  "shutdown_hooks E hs acc rt = (r, rt', evs) \<Longrightarrow>
     subseq evs (map (Hooked PhaseGracefulShutdown) (callable hs)) \<and>
     (r = None \<longrightarrow> acc = None \<and> evs = map (Hooked PhaseGracefulShutdown) (callable hs)) \<and>
     (rt_Failures rt = Map.empty \<longrightarrow> keeps_failures hs \<longrightarrow> evs = map (Hooked PhaseGracefulShutdown) (callable hs))"
proof (induction hs arbitrary: acc rt evs)
  case (Cons h hs)
  let ?all = "map (Hooked PhaseGracefulShutdown) (callable hs)"
  have k: "keeps_failures hs" if "keeps_failures (h # hs)" using that by (auto simp: keeps_failures_def)
  show ?case
  proof (cases "hook_Fn h")
    case None
    then show ?thesis using Cons.IH [of acc rt evs] Cons.prems k by (auto simp: callable_def)
  next
    case (Some f)
    let ?target = "ShutdownFailureTarget (hook_Name h)"
    show ?thesis
    proof (cases "injector_Apply (en_cut E) (rt_Failures rt) ?target")
      case (Some e)
      have "rt_Failures rt \<noteq> Map.empty" using Some by (auto simp: injector_Apply_def)
      with Some \<open>hook_Fn h = Some f\<close> show ?thesis
        using Cons.IH [of _ rt evs] Cons.prems by (fastforce simp: callable_def Let_def)
    next
      case None
      obtain x rt1 where f: "f (en_ctx E ?target) rt = (x, rt1)" by fastforce
      then have fk: "rt_Failures rt1 = rt_Failures rt" if "keeps_failures (h # hs)"
        using that Some by (metis keeps_failures_def list.set_intros(1) snd_conv)
      obtain acc' evs1 where run: "shutdown_hooks E hs acc' rt1 = (r, rt', evs1)"
        "evs = Hooked PhaseGracefulShutdown (hook_Name h) # evs1" "acc' = None \<longrightarrow> acc = None"
        using Cons.prems Some None f by (fastforce simp: Let_def split: prod.splits option.splits)
      have "callable (h # hs) = hook_Name h # callable hs" using Some by (simp add: callable_def)
      then show ?thesis
        using Cons.IH [OF run(1)] run(2,3) fk k by auto
    qed
  qed
qed (simp add: callable_def)

lemma app_shutdown_events:
  assumes "app_shutdown E a tracer rt = (r, rt', evs)"
  shows "subseq evs (shutdown_events a)" and "r = None \<Longrightarrow> evs = shutdown_events a"
    and "rt_Failures rt = Map.empty \<Longrightarrow> keeps_failures (app_shutdownHooks a) \<Longrightarrow> evs = shutdown_events a"
    and "po_Liveness (rt_Posture rt') = LivenessStopped"
proof -
  let ?rt1 = "set_posture (SetLiveness (en_clock E 6) LivenessStopping ''graceful shutdown in progress''
      \<circ> SetReadiness (en_clock E 5) ReadinessBlocked ''graceful shutdown in progress'') rt"
  obtain r2 rt2 e2 where h: "shutdown_hooks E (rev (app_shutdownHooks a)) None ?rt1 = (r2, rt2, e2)" by (metis prod.collapse)
  have evs: "evs = e2" "r = None \<longrightarrow> r2 = None"
    using assms h by (auto simp: app_shutdown_def Let_def split: if_splits option.splits)
  have k: "keeps_failures (rev (app_shutdownHooks a)) = keeps_failures (app_shutdownHooks a)"
    by (simp add: keeps_failures_def)
  note ev = shutdown_hooks_events [OF h, unfolded k]
  show "subseq evs (shutdown_events a)" "r = None \<Longrightarrow> evs = shutdown_events a"
    "rt_Failures rt = Map.empty \<Longrightarrow> keeps_failures (app_shutdownHooks a) \<Longrightarrow> evs = shutdown_events a"
    using ev evs by auto
  show "po_Liveness (rt_Posture rt') = LivenessStopped"
    using assms h by (auto simp: app_shutdown_def Let_def SetLiveness_def posture_update_def split: if_splits)
qed

lemma receive_first: "fst (receive x c es) = (case x of Some e \<Rightarrow> Some e | None \<Rightarrow> first_some es)"
  by (induction x c es rule: receive.induct) (auto split: option.splits)

lemma first_some_None: "first_some xs = None \<longleftrightarrow> (\<forall>x \<in> set xs. x = None)"
  by (induction xs rule: first_some.induct) auto

lemma runRunners_None: "runRunners rs arrived = None \<longleftrightarrow> rs = [] \<or> (\<forall>x \<in> set arrived. x = None)"
  by (simp add: runRunners_def receive_first first_some_None)

lemma run_hooks_failures:
  "run_hooks E p hs rt = (r, rt', evs) \<Longrightarrow> keeps_failures hs \<Longrightarrow> rt_Failures rt' = rt_Failures rt"
proof (induction hs arbitrary: rt evs)
  case (Cons h hs)
  have k: "keeps_failures hs" and f: "hook_Fn h = Some f \<Longrightarrow> rt_Failures (snd (f c r)) = rt_Failures r" for f c r
    using Cons.prems(2) by (auto simp: keeps_failures_def)
  let ?t = "HookFailureTarget p (hook_Name h)"
  show ?case
  proof (cases "hook_Fn h")
    case None
    then show ?thesis using Cons.prems(1) Cons.IH [OF _ k] by simp
  next
    case (Some g)
    obtain x rt1 where g: "g (en_ctx E ?t) rt = (x, rt1)" by fastforce
    then have "rt_Failures rt1 = rt_Failures rt" using f [OF Some, of "en_ctx E ?t" rt] by simp
    moreover obtain y rt2 evs2 where "run_hooks E p hs rt1 = (y, rt2, evs2)" by (metis prod.collapse)
    moreover from this have "rt_Failures rt2 = rt_Failures rt1" if "(y, rt2) = (r, rt')" using that Cons.IH [OF _ k] by simp
    moreover have "rt' = rt \<or> rt' = rt1 \<or> (y, rt2) = (r, rt')"
      using Cons.prems(1) Some g calculation(2)
      by (cases x; cases "injector_Apply (en_cut E) (rt_Failures rt) ?t") (simp_all add: Let_def)
    ultimately show ?thesis by auto
  qed
qed simp

lemma startup_failures [simp]:
  "rt_Failures (startup_failed E e rt) = rt_Failures rt" "rt_Failures (startup_begins E rt) = rt_Failures rt"
  "rt_Failures (startup_done E rt) = rt_Failures rt"
  by (simp_all add: startup_failed_def startup_begins_def startup_done_def Let_def)

lemma run_phases_failures:
  "run_phases E ps rt = (r, rt', evs) \<Longrightarrow> \<forall>(p, hs, g) \<in> set ps. keeps_failures hs \<Longrightarrow> rt_Failures rt' = rt_Failures rt"
proof (induction E ps rt arbitrary: evs rule: run_phases.induct)
  case (2 E p hs g ps rt)
  obtain r1 rt1 e1 where h: "run_hooks E p hs rt = (r1, rt1, e1)" by (metis prod.collapse)
  have "rt_Failures rt1 = rt_Failures rt" using run_hooks_failures [OF h] "2.prems"(2) by auto
  with "2.prems" h show ?case
    using "2.IH"(1) [of evs] "2.IH"(2) [OF _ h [symmetric] _ refl]
    by (auto split: if_splits option.splits prod.splits)
qed simp

definition no_injection :: "('t, 'v) app \<Rightarrow> (('t, 'v) app_runtime \<Rightarrow> ('t, 'v) app_runtime) \<Rightarrow> ('t, 'v) app_runtime \<Rightarrow> bool" where
  "no_injection a work rt \<longleftrightarrow> rt_Failures rt = Map.empty \<and> (\<forall>r. rt_Failures (work r) = rt_Failures r) \<and>
     (\<forall>(p, hs, g) \<in> set (startup_phases a). keeps_failures hs) \<and> keeps_failures (app_shutdownHooks a)"

lemma app_Prepare_failures:
  assumes "app_Prepare E a rt = (r, rt', evs)" and "no_injection a work rt"
  shows "rt_Failures rt' = Map.empty"
proof -
  obtain r1 rt1 e1 where p: "run_phases E (startup_phases a) (startup_begins E rt) = (r1, rt1, e1)" by (metis prod.collapse)
  have "rt_Failures rt1 = Map.empty" using run_phases_failures [OF p] assms(2) by (simp add: no_injection_def)
  with assms(1) p show ?thesis by (auto simp: app_Prepare_def split: option.splits)
qed


definition ok_hook :: "string \<Rightarrow> (unit, string) hook" where
  "ok_hook n = \<lparr>hook_Name = n, hook_Fn = Some (\<lambda>c rt. (None, SetService n n rt))\<rparr>"

definition bad_hook :: "string \<Rightarrow> (unit, string) hook" where
  "bad_hook n = \<lparr>hook_Name = n, hook_Fn = Some (\<lambda>c rt. (Some (ENew ''refused''), rt))\<rparr>"

definition sample_options :: "(unit, string) hook list \<Rightarrow> (unit, string) app_options" where
  "sample_options services =
     \<lparr>ao_runtime = \<lparr>rt_Name = ''svc'', rt_Debug = False, rt_Flags = flag_NewRegistry, rt_Failures = Map.empty,
         rt_Deployment = NewDeploymentPosture, rt_Signals = Map.empty, rt_Introspection = Map.empty,
         rt_Posture = NewRuntimePosture 0, rt_Services = Map.empty, rt_Tracer = False\<rparr>,
      ao_Features = [], ao_ShutdownTimeout = 0, ao_ConfigResolvers = [], ao_ObservabilityHooks = [],
      ao_FeatureRegistrations = [], ao_HealthRegistrations = [], ao_InstrumentationHooks = [],
      ao_ServiceConstructors = services, ao_Runners = [\<lparr>runner_Name = ''http'', runner_Fn = True\<rparr>],
      ao_ShutdownHooks = [ok_hook ''close-db'', bad_hook ''close-bus'']\<rparr>"

definition sample_env :: app_env where
  "sample_env = \<lparr>en_clock = int, en_ctx = (\<lambda>_. None), en_cut = (\<lambda>_. None)\<rparr>"

definition sample_run :: "(unit, string) hook list \<Rightarrow> err option \<times> (unit, string) app_runtime \<times> app_event list" where
  "sample_run services =
     (case app_New (sample_options services) of (a, rt) \<Rightarrow> app_Run sample_env a (\<lambda>rt. rt) [Some (ENew ''port in use'')] None rt)"

lemma no_runners_in_startup: "RanRunners \<notin> set (phase_events dbg ps)"
  by (induction dbg ps rule: phase_events.induct) auto

lemma sample_run_db:
  "snd (snd (sample_run [ok_hook ''db''])) = [Hooked PhaseServiceConstruction ''db'', RanRunners,
      Hooked PhaseGracefulShutdown ''close-bus'', Hooked PhaseGracefulShutdown ''close-db'']"
  "fst (sample_run [ok_hook ''db'']) \<noteq> None"
  by code_simp+


text \<open>
  A service constructor that fails ends the run without the shutdown hooks of the services that
  were already constructed.
\<close>

lemma failed_start_skips_shutdown:
  "snd (snd (sample_run [ok_hook ''db'', bad_hook ''bus''])) = [Hooked PhaseServiceConstruction ''db'', Hooked PhaseServiceConstruction ''bus'']"
  "rt_Services (fst (snd (sample_run [ok_hook ''db'', bad_hook ''bus'']))) ''db'' = Some ''db''"
  by code_simp+

text \<open>Injected failures: a rule is found under its trimmed target, until it is cleared.\<close>

lemma injector_roundtrip:
  assumes "\<not> blank (fs_Target spec)" and "fs_Mode spec = FailureModeError" and "trim_space t = trim_space (fs_Target spec)"
  shows "injector_Apply ends (injector_Set spec i) t \<noteq> None" and "injector_Apply ends (injector_Clear t (injector_Set spec i)) t = None"
  using assms by (simp_all add: injector_Apply_def injector_Set_def injector_Clear_def blank_def Let_def)

end
