(* ===== verification/Crud.thy ===== *)
theory Crud
  imports Errors "HOL-Library.Char_ord" "HOL-Library.List_Lexorder"
begin

text \<open>
  \<^verbatim>\<open>pkg/persistence/relational/generic_crud.go\<close>, \<^verbatim>\<open>crud.go\<close> and \<^verbatim>\<open>versioning.go\<close>: the generic repository over an SQL
  executor, and \<^verbatim>\<open>errors.go\<close>, the canonical forms of its errors.  A statement is a value of the type
  \<open>sql_stmt\<close>; its text, as the code composes it, is \<open>sql_text\<close>.  The executor (a database) is a parameter:
  the locale \<open>versioned_table\<close> states what it does with the statement of the optimistic update, and
  shows once what a sequence of updates leaves in the table.  The mapping of entities to rows is a
  parameter too; the reflection mapper is not modelled.
\<close>

section \<open>Statements\<close>

datatype sql_value = VNull | VInt int | VText string

type_synonym sql_row = "string \<rightharpoonup> sql_value"

text \<open>\<^verbatim>\<open>SortOrder\<close> is a string; every value but \<^verbatim>\<open>SortDesc\<close> sorts in ascending order.\<close>

definition SortDesc :: string where
  "SortDesc = ''desc''"

record pagination =
  pg_Page :: int
  pg_PageSize :: int

definition Offset :: "pagination \<Rightarrow> int" where
  "Offset p = (if pg_Page p \<le> 0 then 0 else i64 (i64 (pg_Page p - 1) * pg_PageSize p))"

definition Limit :: "pagination \<Rightarrow> int" where
  "Limit p = pg_PageSize p"

record query_options =
  qo_Filter :: "(string \<times> sql_value) list"
  qo_SortField :: string
  qo_SortOrder :: string
  qo_Pagination :: pagination

datatype sql_stmt =
  Insert string "string list"
| SelectById string string
| SelectWhere string "string list" "(string \<times> string) option" bool
| CountWhere string "string list"
| UpdateById string "string list" string int
| UpdateVersioned string "string list" string int
| SelectVersion string string
| DeleteById string string

text \<open>
  The placeholder after the assignments of an update is numbered by the values, which the last
  field of the two updates counts.

  \<^verbatim>\<open>placeholder\<close>: the executor's own format, or \<open>$1\<close>, \<open>$2\<close> and so on.
\<close>

definition placeholder :: "(int \<Rightarrow> string) option \<Rightarrow> int \<Rightarrow> string" where
  "placeholder f i = (case f of Some g \<Rightarrow> g i | None \<Rightarrow> ''$'' @ itoa i)"

fun assignments :: "(int \<Rightarrow> string) \<Rightarrow> int \<Rightarrow> string list \<Rightarrow> string list" where
  "assignments ph i [] = []"
| "assignments ph i (c # cs) = (c @ '' = '' @ ph i) # assignments ph (i + 1) cs"

definition mysql_Placeholder :: "int \<Rightarrow> string" where
  "mysql_Placeholder i = ''?''"

definition where_text :: "(int \<Rightarrow> string) \<Rightarrow> string list \<Rightarrow> string" where
  "where_text ph flds = (if flds = [] then [] else '' WHERE '' @ join_with '' AND '' (assignments ph 1 flds))"

fun sql_text :: "(int \<Rightarrow> string) \<Rightarrow> sql_stmt \<Rightarrow> string" where
  "sql_text ph (Insert t cols) =
     ''INSERT INTO '' @ t @ '' ('' @ join_with '', '' cols @ '') VALUES (''
       @ join_with '', '' (map ph [1 .. int (length cols)]) @ '')''"
| "sql_text ph (SelectById t idc) = ''SELECT * FROM '' @ t @ '' WHERE '' @ idc @ '' = '' @ ph 1"
| "sql_text ph (SelectWhere t flds order paged) =
     ''SELECT * FROM '' @ t @ where_text ph flds
       @ (case order of None \<Rightarrow> []
          | Some (f, d) \<Rightarrow> '' ORDER BY '' @ f @ '' '' @ (if d = SortDesc then ''DESC'' else ''ASC''))
       @ (if paged then '' LIMIT '' @ ph (int (length flds) + 1) @ '' OFFSET '' @ ph (int (length flds) + 2) else [])"
| "sql_text ph (CountWhere t flds) = ''SELECT COUNT(*) FROM '' @ t @ where_text ph flds"
| "sql_text ph (UpdateById t cols idc n) =
     ''UPDATE '' @ t @ '' SET '' @ join_with '', '' (assignments ph 1 cols) @ '' WHERE '' @ idc @ '' = ''
       @ ph (n + 1)"
| "sql_text ph (UpdateVersioned t cols idc n) =
     ''UPDATE '' @ t @ '' SET '' @ join_with '', '' (assignments ph 1 cols) @ '' WHERE '' @ idc @ '' = ''
       @ ph (n + 1) @ '' AND version = '' @ ph (n + 2)"
| "sql_text ph (SelectVersion t idc) = ''SELECT version FROM '' @ t @ '' WHERE '' @ idc @ '' = '' @ ph 1"
| "sql_text ph (DeleteById t idc) = ''DELETE FROM '' @ t @ '' WHERE '' @ idc @ '' = '' @ ph 1"

text \<open>
  The executor: a statement changes the state and reports the number of rows it touched (the inner
  error is that of \<^verbatim>\<open>RowsAffected\<close>); a query returns its rows and the error that ended the iteration,
  which \<^verbatim>\<open>rows.Err\<close> reports once \<^verbatim>\<open>rows.Next\<close> has returned false.  \<^verbatim>\<open>QueryRow(...).Scan\<close> reads the first
  row of a query.
\<close>

record 's sql_executor =
  ex_Exec :: "sql_stmt \<Rightarrow> sql_value list \<Rightarrow> 's \<Rightarrow> (int result) result \<times> 's"
  ex_Query :: "sql_stmt \<Rightarrow> sql_value list \<Rightarrow> 's \<Rightarrow> (sql_row list \<times> err option) result"

fun query_row_scan :: "string \<Rightarrow> (sql_row list \<times> err option) result \<Rightarrow> int result" where
  "query_row_scan c (Inl e) = Inl e"
| "query_row_scan c (Inr ([], Some e)) = Inl e"
| "query_row_scan c (Inr ([], None)) = Inl (ESentinel SqlNoRows)"
| "query_row_scan c (Inr (row # _, _)) =
     (case row c of Some (VInt n) \<Rightarrow> Inr n | _ \<Rightarrow> Inl (ENew ''sql: Scan error on column index 0''))"

text \<open>An entity: its identifier, its row, and its version with the setter when it has one.\<close>

record 'e entity_mapper =
  mp_ToRow :: "'e \<Rightarrow> (string list \<times> sql_value list) result"
  mp_FromRow :: "sql_row \<Rightarrow> 'e result"
  mp_GetID :: "'e \<Rightarrow> sql_value"
  mp_Version :: "(('e \<Rightarrow> int) \<times> (int \<Rightarrow> 'e \<Rightarrow> 'e)) option"

record crud_repository =
  rp_tableName :: string
  rp_idColumn :: string
  rp_allowlist :: "string list"

section \<open>Columns\<close>

definition NewColumnAllowlist :: "string list \<Rightarrow> string list" where
  "NewColumnAllowlist cols = remdups (filter (\<lambda>c. c \<noteq> []) (map trim_space cols))"

definition allows :: "string list \<Rightarrow> string \<Rightarrow> bool" where
  "allows a c \<longleftrightarrow> (if a = [] then False else c \<in> set a)"

definition validateColumnAllowed :: "crud_repository \<Rightarrow> string \<Rightarrow> err option" where
  "validateColumnAllowed r c =
     (if rp_allowlist r = [] then None
      else if allows (rp_allowlist r) c then None
      else Some (EWrap [] (ESentinel ErrColumnNotAllowed) ('': '' @ quoted c)))"

definition sortedFilterFields :: "(string \<times> sql_value) list \<Rightarrow> string list" where
  "sortedFilterFields f = sort (map fst f)"

fun validate_fields :: "crud_repository \<Rightarrow> string list \<Rightarrow> err option" where
  "validate_fields r [] = None"
| "validate_fields r (f # fs) = (case validateColumnAllowed r f of Some e \<Rightarrow> Some e | None \<Rightarrow> validate_fields r fs)"

definition field_value :: "(string \<times> sql_value) list \<Rightarrow> string \<Rightarrow> sql_value" where
  "field_value f k = (case map_of f k of Some v \<Rightarrow> v | None \<Rightarrow> VNull)"

section \<open>Reading\<close>

text \<open>The statement and the arguments of \<^verbatim>\<open>FindAll\<close>.\<close>

definition find_all_query :: "crud_repository \<Rightarrow> query_options \<Rightarrow> (sql_stmt \<times> sql_value list) result" where
  "find_all_query r opts =
     (let flds = sortedFilterFields (qo_Filter opts); pg = qo_Pagination opts in
      case validate_fields r flds of
        Some e \<Rightarrow> Inl e
      | None \<Rightarrow>
          (case (if qo_SortField opts \<noteq> [] then validateColumnAllowed r (qo_SortField opts) else None) of
             Some e \<Rightarrow> Inl e
           | None \<Rightarrow>
               Inr (SelectWhere (rp_tableName r) flds
                      (if qo_SortField opts \<noteq> [] then Some (qo_SortField opts, qo_SortOrder opts) else None) (0 < pg_PageSize pg),
                    map (field_value (qo_Filter opts)) flds
                      @ (if 0 < pg_PageSize pg then [VInt (Limit pg), VInt (Offset pg)] else []))))"

fun scan_all :: "(sql_row \<Rightarrow> 'e result) \<Rightarrow> sql_row list \<Rightarrow> 'e list result" where
  "scan_all f [] = Inr []"
| "scan_all f (x # xs) =
     (case f x of
        Inl e \<Rightarrow> Inl (EWrap ''failed to scan entity: '' e [])
      | Inr a \<Rightarrow> (case scan_all f xs of Inl e \<Rightarrow> Inl e | Inr as \<Rightarrow> Inr (a # as)))"

definition crud_FindAll ::
  "'s sql_executor \<Rightarrow> 'e entity_mapper \<Rightarrow> crud_repository \<Rightarrow> query_options \<Rightarrow> 's \<Rightarrow> 'e list result" where
  "crud_FindAll X M r opts s =
     (case find_all_query r opts of
        Inl e \<Rightarrow> Inl e
      | Inr (st, args) \<Rightarrow>
          (case ex_Query X st args s of
             Inl e \<Rightarrow> Inl (EWrap ''failed to query entities: '' e [])
           | Inr (rows, rowsErr) \<Rightarrow>
               (case scan_all (mp_FromRow M) rows of
                  Inl e \<Rightarrow> Inl e
                | Inr es \<Rightarrow> (case rowsErr of Some e \<Rightarrow> Inl (EWrap ''error iterating rows: '' e []) | None \<Rightarrow> Inr es))))"

definition crud_Count :: "'s sql_executor \<Rightarrow> crud_repository \<Rightarrow> (string \<times> sql_value) list \<Rightarrow> 's \<Rightarrow> int result" where
  "crud_Count X r filt s =
     (let flds = sortedFilterFields filt in
      case validate_fields r flds of
        Some e \<Rightarrow> Inl e
      | None \<Rightarrow>
          (case query_row_scan ''count'' (ex_Query X (CountWhere (rp_tableName r) flds) (map (field_value filt) flds) s) of
             Inl e \<Rightarrow> Inl (EWrap ''failed to count entities: '' e [])
           | Inr n \<Rightarrow> Inr n))"

definition crud_FindByID :: "'s sql_executor \<Rightarrow> 'e entity_mapper \<Rightarrow> crud_repository \<Rightarrow> sql_value \<Rightarrow> 's \<Rightarrow> 'e result" where
  "crud_FindByID X M r i s =
     (case ex_Query X (SelectById (rp_tableName r) (rp_idColumn r)) [i] s of
        Inl e \<Rightarrow> Inl (EWrap ''failed to query entity: '' e [])
      | Inr ([], rowsErr) \<Rightarrow>
          (case rowsErr of Some e \<Rightarrow> Inl (EWrap ''iterate entity rows: '' e []) | None \<Rightarrow> Inl (ESentinel SqlNoRows))
      | Inr (row # _, _) \<Rightarrow>
          (case mp_FromRow M row of
             Inl e \<Rightarrow> Inl (EWrap ''failed to scan entity: '' e [])
           | Inr a \<Rightarrow> Inr a))"

section \<open>Writing\<close>

definition crud_Create ::
  "'s sql_executor \<Rightarrow> 'e entity_mapper \<Rightarrow> crud_repository \<Rightarrow> 'e option \<Rightarrow> 's \<Rightarrow> err option \<times> 's" where
  "crud_Create X M r eo s =
     (case eo of
        None \<Rightarrow> (Some (ENew ''entity cannot be nil''), s)
      | Some e \<Rightarrow>
          (case mp_ToRow M e of
             Inl x \<Rightarrow> (Some (EWrap ''failed to map entity to row: '' x []), s)
           | Inr (cols, vals) \<Rightarrow>
               (case ex_Exec X (Insert (rp_tableName r) cols) vals s of
                  (Inl x, s') \<Rightarrow> (Some (EWrap ''failed to create entity: '' x []), s')
                | (Inr _, s') \<Rightarrow> (None, s'))))"

text \<open>
  The values with the one of the column \<open>version\<close> replaced.  A mapper gives one value per column (the
  source indexes the values by the columns).
\<close>

fun bump_version :: "string list \<Rightarrow> sql_value list \<Rightarrow> int \<Rightarrow> sql_value list" where
  "bump_version (c # cs) (x # xs) v = (if c = ''version'' then VInt v else x) # bump_version cs xs v"
| "bump_version [] xs v = xs"
| "bump_version (c # cs) [] v = []"

text \<open>The text of a value for the error, the verb \<^verbatim>\<open>%v\<close>.\<close>

fun value_text :: "sql_value \<Rightarrow> string" where
  "value_text VNull = ''<nil>''"
| "value_text (VInt n) = itoa n"
| "value_text (VText s) = s"

definition NewOptimisticLockError :: "string \<Rightarrow> int \<Rightarrow> int \<Rightarrow> err" where
  "NewOptimisticLockError i expected actual = ELock i expected actual"

definition updateWithOptimisticLock ::
  "'s sql_executor \<Rightarrow> crud_repository \<Rightarrow> ('e \<Rightarrow> int) \<Rightarrow> (int \<Rightarrow> 'e \<Rightarrow> 'e) \<Rightarrow> 'e \<Rightarrow> sql_value \<Rightarrow> string list \<Rightarrow> sql_value list
    \<Rightarrow> 's \<Rightarrow> (err option \<times> 'e) \<times> 's" where
  "updateWithOptimisticLock X r getV setV e i cols vals s =
     (let currentVersion = getV e; newVersion = i64 (currentVersion + 1) in
      case ex_Exec X (UpdateVersioned (rp_tableName r) cols (rp_idColumn r) (int (length vals)))
             (bump_version cols vals newVersion @ [i, VInt currentVersion]) s of
        (Inl x, s') \<Rightarrow> ((Some (EWrap ''failed to update entity: '' x []), e), s')
      | (Inr (Inl x), s') \<Rightarrow> ((Some (EWrap ''failed to get rows affected: '' x []), e), s')
      | (Inr (Inr rowsAffected), s') \<Rightarrow>
          (if rowsAffected = 0
           then (case query_row_scan ''version'' (ex_Query X (SelectVersion (rp_tableName r) (rp_idColumn r)) [i] s') of
                   Inl x \<Rightarrow> ((Some (if x = ESentinel SqlNoRows then ESentinel SqlNoRows
                                     else EWrap ''failed to check entity version: '' x []), e), s')
                 | Inr actualVersion \<Rightarrow>
                     ((Some (NewOptimisticLockError (value_text i) currentVersion actualVersion), e), s'))
           else ((None, setV newVersion e), s')))"

text \<open>The result of \<^verbatim>\<open>Update\<close>: its error, the entity as it is left, and the state.\<close>

definition crud_Update ::
  "'s sql_executor \<Rightarrow> 'e entity_mapper \<Rightarrow> crud_repository \<Rightarrow> 'e option \<Rightarrow> 's \<Rightarrow> (err option \<times> 'e option) \<times> 's" where
  "crud_Update X M r eo s =
     (case eo of
        None \<Rightarrow> ((Some (ENew ''entity cannot be nil''), None), s)
      | Some e \<Rightarrow>
          (case mp_ToRow M e of
             Inl x \<Rightarrow> ((Some (EWrap ''failed to map entity to row: '' x []), Some e), s)
           | Inr (cols, vals) \<Rightarrow>
               (case mp_Version M of
                  Some (getV, setV) \<Rightarrow>
                    (case updateWithOptimisticLock X r getV setV e (mp_GetID M e) cols vals s of
                       ((x, e'), s') \<Rightarrow> ((x, Some e'), s'))
                | None \<Rightarrow>
                    (case ex_Exec X (UpdateById (rp_tableName r) cols (rp_idColumn r) (int (length vals)))
                            (vals @ [mp_GetID M e]) s of
                       (Inl x, s') \<Rightarrow> ((Some (EWrap ''failed to update entity: '' x []), Some e), s')
                     | (Inr (Inl x), s') \<Rightarrow> ((Some (EWrap ''failed to get rows affected: '' x []), Some e), s')
                     | (Inr (Inr rowsAffected), s') \<Rightarrow>
                         ((if rowsAffected = 0 then Some (ESentinel SqlNoRows) else None, Some e), s')))))"

definition crud_Delete :: "'s sql_executor \<Rightarrow> crud_repository \<Rightarrow> sql_value \<Rightarrow> 's \<Rightarrow> err option \<times> 's" where
  "crud_Delete X r i s =
     (case ex_Exec X (DeleteById (rp_tableName r) (rp_idColumn r)) [i] s of
        (Inl x, s') \<Rightarrow> (Some (EWrap ''failed to delete entity: '' x []), s')
      | (Inr (Inl x), s') \<Rightarrow> (Some (EWrap ''failed to get rows affected: '' x []), s')
      | (Inr (Inr n), s') \<Rightarrow> (if n = 0 then Some (ESentinel SqlNoRows) else None, s'))"

section \<open>Canonical errors\<close>

definition relational_canonicalizer :: "err \<Rightarrow> err option" where
  "relational_canonicalizer e =
     (if err_is e SqlNoRows then Some (NewNotFound (error_text e))
      else case as_lock e of
          Some l \<Rightarrow> Some (NewConflict (error_text l)
              [(''entity_id'', lock_entity l), (''expected'', itoa (lock_expected l)), (''actual'', itoa (lock_actual l))])
        | None \<Rightarrow> None)"

section \<open>Optimistic locking\<close>

text \<open>Updates one after the other, by any number of callers, each with the copy of the entity it has.\<close>

fun crud_updates ::
  "'s sql_executor \<Rightarrow> 'e entity_mapper \<Rightarrow> crud_repository \<Rightarrow> 'e list \<Rightarrow> 's \<Rightarrow> err option list \<times> 's" where
  "crud_updates X M r [] s = ([], s)"
| "crud_updates X M r (e # es) s =
     (case crud_Update X M r (Some e) s of
        ((x, _), s') \<Rightarrow> (case crud_updates X M r es s' of (xs, s'') \<Rightarrow> (x # xs, s'')))"

definition accepted_of :: "'e entity_mapper \<Rightarrow> sql_value \<Rightarrow> 'e list \<Rightarrow> err option list \<Rightarrow> 'e list" where
  "accepted_of M i es xs = map fst (filter (\<lambda>(e, x). mp_GetID M e = i \<and> x = None) (zip es xs))"

text \<open>The columns an accepted update sets.\<close>

definition entity_row :: "'e entity_mapper \<Rightarrow> int \<Rightarrow> 'e \<Rightarrow> sql_row" where
  "entity_row M v e =
     (case mp_ToRow M e of Inl _ \<Rightarrow> Map.empty | Inr (cols, vals) \<Rightarrow> (map_of (zip cols vals))(''version'' \<mapsto> VInt v))"

text \<open>
  What is asked of the mapper of a versioned entity: one value per column, no column twice, the
  column \<open>version\<close> among them, and the identifier column, when it is one of them, holding the identifier.
\<close>

definition versioned_mapper :: "string \<Rightarrow> 'e entity_mapper \<Rightarrow> bool" where
  "versioned_mapper idc M \<longleftrightarrow> idc \<noteq> ''version'' \<and>
     (\<forall>e cols vals. mp_ToRow M e = Inr (cols, vals) \<longrightarrow>
        length vals = length cols \<and> distinct cols \<and> ''version'' \<in> set cols \<and>
        (idc \<in> set cols \<longrightarrow> map_of (zip cols vals) idc = Some (mp_GetID M e)))"

text \<open>
  What a database does with \<^verbatim>\<open>UPDATE t SET ... WHERE id = ... AND version = ...\<close>: the row with this
  identifier and this version is changed in the columns named, and counted when the statement gives
  it another version; when there is no such row nothing changes; a statement that fails has no
  effect; the driver counts the rows.
\<close>

locale versioned_table =
  fixes X :: "'s sql_executor" and tbl idc :: string and rows :: "'s \<Rightarrow> sql_value \<Rightarrow> sql_row option"
  assumes update_hit: "rows s i = Some row \<Longrightarrow> row ''version'' = Some (VInt v) \<Longrightarrow> length vals = length cols \<Longrightarrow> distinct cols
      \<Longrightarrow> (idc \<in> set cols \<longrightarrow> map_of (zip cols vals) idc = Some i)
      \<Longrightarrow> map_of (zip cols vals) ''version'' = Some (VInt w) \<Longrightarrow> w \<noteq> v
      \<Longrightarrow> ex_Exec X (UpdateVersioned tbl cols idc (int (length vals))) (vals @ [i, VInt v]) s = (Inr (Inr n), s')
      \<Longrightarrow> n = 1 \<and> rows s' = (rows s)(i \<mapsto> row ++ map_of (zip cols vals))"
    and update_miss: "\<not> (\<exists>row. rows s i = Some row \<and> row ''version'' = Some (VInt v)) \<Longrightarrow> length vals = length cols
      \<Longrightarrow> ex_Exec X (UpdateVersioned tbl cols idc (int (length vals))) (vals @ [i, VInt v]) s = (Inr (Inr n), s')
      \<Longrightarrow> n = 0 \<and> rows s' = rows s"
    and update_fail: "ex_Exec X (UpdateVersioned tbl cols idc k) args s = (Inl x, s') \<Longrightarrow> rows s' = rows s"
    and rows_counted: "ex_Exec X (UpdateVersioned tbl cols idc k) args s \<noteq> (Inr (Inl x), s')"

text \<open>A table kept by identifier, with the statements that name one row.\<close>

fun table_update :: "(sql_row \<Rightarrow> bool) \<Rightarrow> sql_value \<Rightarrow> sql_row \<Rightarrow> (sql_value \<rightharpoonup> sql_row) \<Rightarrow> (int result) result \<times> (sql_value \<rightharpoonup> sql_row)" where
  "table_update P i new s =
     (case s i of
        Some row \<Rightarrow> (if P row then (Inr (Inr 1), s(i \<mapsto> row ++ new)) else (Inr (Inr 0), s))
      | None \<Rightarrow> (Inr (Inr 0), s))"

fun table_exec :: "string \<Rightarrow> sql_stmt \<Rightarrow> sql_value list \<Rightarrow> (sql_value \<rightharpoonup> sql_row) \<Rightarrow> (int result) result \<times> (sql_value \<rightharpoonup> sql_row)" where
  "table_exec idc (Insert t cols) args s =
     (case map_of (zip cols args) idc of
        None \<Rightarrow> (Inl (ENew ''null value in primary key''), s)
      | Some i \<Rightarrow> (if s i \<noteq> None then (Inl (ENew ''duplicate key''), s) else (Inr (Inr 1), s(i \<mapsto> map_of (zip cols args)))))"
| "table_exec idc (UpdateById t cols idc' n) args s =
     (case drop (length cols) args of
        [i] \<Rightarrow> table_update (\<lambda>row. True) i (map_of (zip cols args)) s
      | _ \<Rightarrow> (Inl (ENew ''bad arguments''), s))"
| "table_exec idc (UpdateVersioned t cols idc' n) args s =
     (case drop (length cols) args of
        [i, v] \<Rightarrow> table_update (\<lambda>row. row ''version'' = Some v) i (map_of (zip cols args)) s
      | _ \<Rightarrow> (Inl (ENew ''bad arguments''), s))"
| "table_exec idc (DeleteById t idc') args s =
     (case args of
        [i] \<Rightarrow> (if s i = None then (Inr (Inr 0), s) else (Inr (Inr 1), s(i := None)))
      | _ \<Rightarrow> (Inl (ENew ''bad arguments''), s))"
| "table_exec idc st args s = (Inl (ENew ''not a statement''), s)"

fun table_query :: "sql_stmt \<Rightarrow> sql_value list \<Rightarrow> (sql_value \<rightharpoonup> sql_row) \<Rightarrow> (sql_row list \<times> err option) result" where
  "table_query (SelectById t idc) [i] s = Inr (case s i of None \<Rightarrow> [] | Some row \<Rightarrow> [row], None)"
| "table_query (SelectVersion t idc) [i] s =
     Inr (case s i of None \<Rightarrow> [] | Some row \<Rightarrow> [row |` {''version''}], None)"
| "table_query st args s = Inl (ENew ''not a query of one row'')"

definition table_executor :: "string \<Rightarrow> (sql_value \<rightharpoonup> sql_row) sql_executor" where
  "table_executor idc = \<lparr>ex_Exec = table_exec idc, ex_Query = table_query\<rparr>"

lemma zip_append_args: "length vals = length cols \<Longrightarrow> zip cols (vals @ rest) = zip cols vals"
  by (induction cols arbitrary: vals) (auto simp: length_Suc_conv)

interpretation mem_table: versioned_table "table_executor idc" t idc "\<lambda>s. s"
  by unfold_locales
    (auto simp: table_executor_def zip_append_args split: list.splits option.splits if_splits)

lemma i64_succ_neq: "i64 (v + 1) \<noteq> v"
proof
  assume "i64 (v + 1) = v"
  then have "(v + 1 + 2 ^ 63) mod 2 ^ 64 = v + 2 ^ 63" by (simp add: i64_def)
  then have "(v + 1 + 2 ^ 63) mod 2 ^ 64 = (v + 2 ^ 63) mod (2 ^ 64 :: int)" by (metis mod_mod_trivial)
  then have "(2 ^ 64 :: int) dvd 1" by (simp add: mod_eq_dvd_iff)
  then show False by simp
qed

lemma length_bump_version [simp]: "length (bump_version cols vals v) = length vals"
  if "length vals = length cols"
  using that by (induction cols vals v rule: bump_version.induct) auto

lemma map_of_bump_version:
  assumes "length vals = length cols" and "distinct cols" and "''version'' \<in> set cols"
  shows "map_of (zip cols (bump_version cols vals v)) = (map_of (zip cols vals))(''version'' \<mapsto> VInt v)"
proof
  fix c
  have "map_of (zip cols (bump_version cols vals v)) c =
      (if c = ''version'' \<and> c \<in> set cols then Some (VInt v) else map_of (zip cols vals) c)"
    using assms(1) by (induction cols vals v rule: bump_version.induct) auto
  with assms(3) show "map_of (zip cols (bump_version cols vals v)) c = ((map_of (zip cols vals))(''version'' \<mapsto> VInt v)) c"
    by simp
qed

context versioned_table
begin

lemma versioned_update:
  assumes M: "versioned_mapper idc M" "mp_Version M = Some (getV, setV)"
    and r: "rp_tableName r = tbl" "rp_idColumn r = idc"
    and run: "crud_Update X M r (Some e) s = ((x, eo), s')"
  shows "x = None \<Longrightarrow> \<exists>row. rows s (mp_GetID M e) = Some row \<and> row ''version'' = Some (VInt (getV e)) \<and>
      rows s' = (rows s)(mp_GetID M e \<mapsto> row ++ entity_row M (i64 (getV e + 1)) e) \<and> eo = Some (setV (i64 (getV e + 1)) e)"
    and "x \<noteq> None \<Longrightarrow> rows s' = rows s \<and> eo = Some e"
proof -
  let ?i = "mp_GetID M e" and ?w = "i64 (getV e + 1)"
  have "(x = None \<longrightarrow> (\<exists>row. rows s ?i = Some row \<and> row ''version'' = Some (VInt (getV e)) \<and>
      rows s' = (rows s)(?i \<mapsto> row ++ entity_row M ?w e) \<and> eo = Some (setV ?w e))) \<and> (x \<noteq> None \<longrightarrow> rows s' = rows s \<and> eo = Some e)"
  proof (cases "mp_ToRow M e")
    case (Inl y)
    with run show ?thesis by (auto simp: crud_Update_def)
  next
    case (Inr cv)
    obtain cols vals where cv: "cv = (cols, vals)" by (cases cv)
    have l: "length vals = length cols" "distinct cols" "''version'' \<in> set cols" "idc \<noteq> ''version''"
      "idc \<in> set cols \<longrightarrow> map_of (zip cols vals) idc = Some ?i"
      using M(1) Inr cv by (auto simp: versioned_mapper_def)
    let ?new = "bump_version cols vals ?w"
    have new: "map_of (zip cols ?new) = entity_row M ?w e"
      using map_of_bump_version [OF l(1-3)] Inr cv by (simp add: entity_row_def)
    have newv: "entity_row M ?w e ''version'' = Some (VInt ?w)"
      "idc \<in> set cols \<longrightarrow> entity_row M ?w e idc = Some ?i"
      using l Inr cv by (auto simp: entity_row_def)
    obtain o' t where ex: "ex_Exec X (UpdateVersioned tbl cols idc (int (length vals))) (?new @ [?i, VInt (getV e)]) s = (o', t)"
      by fastforce
    have ex': "ex_Exec X (UpdateVersioned tbl cols idc (int (length ?new))) (?new @ [?i, VInt (getV e)]) s = (o', t)"
      using ex l(1) by simp
    note run' = run [unfolded crud_Update_def updateWithOptimisticLock_def Let_def]
    consider (fail) y where "o' = Inl y" | (counted) n where "o' = Inr (Inr n)"
      using ex rows_counted by (metis sum.exhaust)
    then show ?thesis
    proof cases
      case fail
      with ex have "rows t = rows s" using update_fail by blast
      with fail ex run' Inr cv M r show ?thesis by auto
    next
      case counted
      show ?thesis
      proof (cases "\<exists>row. rows s ?i = Some row \<and> row ''version'' = Some (VInt (getV e))")
        case True
        then obtain row where row: "rows s ?i = Some row" "row ''version'' = Some (VInt (getV e))" by blast
        have "n = 1 \<and> rows t = (rows s)(?i \<mapsto> row ++ map_of (zip cols ?new))"
          using update_hit [OF row _ l(2) _ _ i64_succ_neq ex' [unfolded counted]] l newv new by simp
        with counted ex run' Inr cv M r row new show ?thesis by auto
      next
        case False
        have "n = 0 \<and> rows t = rows s"
          using update_miss [OF False _ ex' [unfolded counted]] l by simp
        with counted ex run' Inr cv M r show ?thesis by (auto split: sum.splits)
      qed
    qed
  qed
  then show "x = None \<Longrightarrow> \<exists>row. rows s ?i = Some row \<and> row ''version'' = Some (VInt (getV e)) \<and>
      rows s' = (rows s)(?i \<mapsto> row ++ entity_row M ?w e) \<and> eo = Some (setV ?w e)"
    and "x \<noteq> None \<Longrightarrow> rows s' = rows s \<and> eo = Some e" by blast+
qed

lemma updates_consecutive:
  assumes M: "versioned_mapper idc M" "mp_Version M = Some (getV, setV)"
    and r: "rp_tableName r = tbl" "rp_idColumn r = idc"
    and "crud_updates X M r es s = (xs, s')"
    and "rows s i = Some row" and "row ''version'' = Some (VInt v)" and "fits64 v" and "fits64 (v + int (length es))"
  shows "map getV (accepted_of M i es xs) = map (\<lambda>k. v + int k) [0..<length (accepted_of M i es xs)] \<and>
    rows s' i = Some (foldl (\<lambda>rw e. rw ++ entity_row M (getV e + 1) e) row (accepted_of M i es xs))"
  using assms(5-9)
proof (induction es arbitrary: s xs row v)
  case Nil
  then show ?case by (simp add: accepted_of_def)
next
  case (Cons e es)
  obtain x eo t where u: "crud_Update X M r (Some e) s = ((x, eo), t)" by (metis prod.collapse)
  obtain ys where ys: "crud_updates X M r es t = (ys, s')" "xs = x # ys"
    using Cons.prems(1) u by (auto split: prod.splits)
  have fits: "fits64 (v + int (length es))" "fits64 (v + 1)" "fits64 (v + 1 + int (length es))"
    using Cons.prems(4,5) by (auto simp: fits64_def)
  note step = versioned_update [OF M r u]
  show ?case
  proof (cases "x = None \<and> mp_GetID M e = i")
    case True
    then have g: "getV e = v" and t: "rows t i = Some (row ++ entity_row M (v + 1) e)"
      using step(1) Cons.prems(2,3) fits(2) by auto
    obtain cv where "mp_ToRow M e = Inr cv"
      using True u by (cases "mp_ToRow M e") (auto simp: crud_Update_def)
    then have "entity_row M (v + 1) e ''version'' = Some (VInt (v + 1))"
      by (cases cv) (simp add: entity_row_def)
    then have vt: "(row ++ entity_row M (v + 1) e) ''version'' = Some (VInt (v + 1))" by simp
    have acc: "accepted_of M i (e # es) xs = e # accepted_of M i es ys"
      using True ys(2) by (simp add: accepted_of_def)
    have "map (\<lambda>k. v + int k) [0..<Suc n] = v # map (\<lambda>k. v + 1 + int k) [0..<n]" for n
      by (rule nth_equalityI) (auto simp: nth_Cons' simp del: upt_Suc)
    then show ?thesis
      using Cons.IH [OF ys(1) t vt fits(2,3)] acc g by (simp del: upt_Suc)
  next
    case False
    then have rt: "rows t i = Some row"
      using step Cons.prems(2) by (cases "x = None") auto
    have "accepted_of M i (e # es) xs = accepted_of M i es ys"
      using False ys(2) by (auto simp: accepted_of_def)
    then show ?thesis
      using Cons.IH [OF ys(1) rt Cons.prems(3,4) fits(1)] by simp
  qed
qed

end

text \<open>
  C7. Optimistic locking loses no update.  Take any sequence of calls of \<^verbatim>\<open>Update\<close> by any number of
  writers, each on the copy of an entity it happens to hold, over a database that keeps the laws of
  \<open>versioned_table\<close> and a mapper that maps the version.  Of the calls for one entity whose row has
  version \<open>v\<close>, the accepted ones were made with exactly the versions \<open>v\<close>, \<open>v + 1\<close>, \<open>v + 2\<close> and so on, in this
  order, so no two of them started from the same state, and the row holds the writes of the accepted
  calls, one applied after the other, and nothing else.
\<close>

theorem crud_no_lost_update:
  assumes "versioned_table X (rp_tableName r) (rp_idColumn r) rows"
    and "versioned_mapper (rp_idColumn r) M" and "mp_Version M = Some (getV, setV)"
    and "crud_updates X M r es s = (xs, s')"
    and "rows s i = Some row" and "row ''version'' = Some (VInt v)" and "fits64 v" and "fits64 (v + int (length es))"
  shows "map getV (accepted_of M i es xs) = map (\<lambda>k. v + int k) [0..<length (accepted_of M i es xs)] \<and>
    rows s' i = Some (foldl (\<lambda>rw e. rw ++ entity_row M (getV e + 1) e) row (accepted_of M i es xs))"
  using versioned_table.updates_consecutive [OF assms(1-3) refl refl assms(4-8)] .

text \<open>An account with a balance and a version; and the same with a mapper that leaves the version out.\<close>

definition account_mapper :: "bool \<Rightarrow> (int \<times> int) entity_mapper" where
  "account_mapper keep =
     \<lparr>mp_ToRow = (\<lambda>(b, v). Inr (if keep then ([''id'', ''balance'', ''version''], [VInt 1, VInt b, VInt v])
                               else ([''id'', ''balance''], [VInt 1, VInt b]))),
      mp_FromRow = (\<lambda>row. case (row ''balance'', row ''version'') of (Some (VInt b), Some (VInt v)) \<Rightarrow> Inr (b, v) | _ \<Rightarrow> Inl (ENew ''scan'')),
      mp_GetID = (\<lambda>_. VInt 1),
      mp_Version = Some (snd, \<lambda>v (b, _). (b, v))\<rparr>"

definition accounts :: crud_repository where
  "accounts = \<lparr>rp_tableName = ''accounts'', rp_idColumn = ''id'', rp_allowlist = [''id'', ''balance'']\<rparr>"

definition account_row :: "int \<Rightarrow> int \<Rightarrow> sql_row" where
  "account_row b v = [''id'' \<mapsto> VInt 1, ''balance'' \<mapsto> VInt b, ''version'' \<mapsto> VInt v]"

lemmas account_defs = account_mapper_def accounts_def account_row_def crud_Update_def updateWithOptimisticLock_def
  table_executor_def NewOptimisticLockError_def fits64_def

lemma account_mapper_ok: "versioned_mapper ''id'' (account_mapper True)"
  by (auto simp: versioned_mapper_def account_mapper_def)

lemma itoa_one: "itoa 1 = ''1''"
  by code_simp

text \<open>Two writers that read the same version: the second is refused, reads again and succeeds.\<close>

lemma account_run:
  "crud_updates (table_executor ''id'') (account_mapper True) accounts [(50, 7), (80, 7), (80, 8)] [VInt 1 \<mapsto> account_row 10 7]
   = ([None, Some (ELock ''1'' 7 8), None], [VInt 1 \<mapsto> account_row 80 9])"
  by (auto simp: account_defs itoa_one fun_eq_iff)

theorem crud_no_lost_update_witness:
  "map snd (accepted_of (account_mapper True) (VInt 1) [(50, 7), (80, 7), (80, 8)] [None, Some (ELock ''1'' 7 8), None]) = [7, 8 :: int]"
proof -
  have "map snd (accepted_of (account_mapper True) (VInt 1) [(50, 7), (80, 7), (80, 8)] [None, Some (ELock ''1'' 7 8), None])
      = map (\<lambda>k. 7 + int k) [0..<length (accepted_of (account_mapper True) (VInt 1) [(50, 7), (80, 7), (80, 8)] [None, Some (ELock ''1'' 7 8), None])]"
    using crud_no_lost_update [of "table_executor ''id''" accounts "\<lambda>s. s" "account_mapper True", OF _ _ _ account_run,
        of snd _ "VInt 1" "account_row 10 7" 7] mem_table.versioned_table_axioms account_mapper_ok
    by (simp add: accounts_def account_mapper_def account_row_def fits64_def)
  then show ?thesis by (simp add: accepted_of_def account_mapper_def upt_conv_Cons)
qed

text \<open>Without the column \<open>version\<close> in the row both are accepted, and the first write is lost.\<close>

lemma update_without_version_column:
  "crud_updates (table_executor ''id'') (account_mapper False) accounts [(50, 7), (80, 7)] [VInt 1 \<mapsto> account_row 10 7]
   = ([None, None], [VInt 1 \<mapsto> account_row 80 7])"
  by (auto simp: account_defs fun_eq_iff)

text \<open>The outcome of a refused update: a conflict, answered with status 409; a missing row is a 404.\<close>

lemma lock_error_canonical:
  "map_option (\<lambda>a. (app_code a, app_status a)) (relational_canonicalizer (EWrap p (NewOptimisticLockError i v w) q))
     = Some (''resource.conflict'', 409)"
  "map_option (\<lambda>a. (app_code a, app_status a)) (relational_canonicalizer (EWrap p (ESentinel SqlNoRows) q))
     = Some (''resource.not_found'', 404)"
  by (simp_all add: relational_canonicalizer_def core_error_defs NewOptimisticLockError_def)

section \<open>Columns of a query\<close>

lemma validate_fields_iff:
  assumes "rp_allowlist r \<noteq> []"
  shows "validate_fields r flds = None \<longleftrightarrow> set flds \<subseteq> set (rp_allowlist r)"
  using assms by (induction flds) (auto simp: validateColumnAllowed_def allows_def split: option.splits if_splits)

lemma validate_fields_err:
  "validate_fields r flds = Some e \<Longrightarrow> \<exists>c \<in> set flds. c \<notin> set (rp_allowlist r) \<and> e = EWrap [] (ESentinel ErrColumnNotAllowed) ('': '' @ quoted c)"
  by (induction flds) (auto simp: validateColumnAllowed_def allows_def split: option.splits if_splits)

lemma filter_values:
  assumes "distinct (map fst f)" and "set ks = fst ` set f"
  shows "set (zip ks (map (field_value f) ks)) = set f"
proof -
  have v: "field_value f k = v" if "(k, v) \<in> set f" for k v
    using that assms(1) by (simp add: field_value_def)
  have "set (zip ks (map (field_value f) ks)) = (\<lambda>k. (k, field_value f k)) ` set ks"
    by (simp add: zip_map2 zip_same_conv_map)
  also have "\<dots> = set f"
    unfolding assms(2) image_image using v by force
  finally show ?thesis .
qed

definition query_columns :: "query_options \<Rightarrow> string list" where
  "query_columns opts = map fst (qo_Filter opts) @ (if qo_SortField opts \<noteq> [] then [qo_SortField opts] else [])"

text \<open>
  Only columns of the allowlist reach the text of a query.  With a configured allowlist, \<^verbatim>\<open>FindAll\<close>
  with a filter or sort column outside it returns \<^verbatim>\<open>ErrColumnNotAllowed\<close> naming such a column, whatever
  the executor and its state, so no query is made; otherwise the statement names the filter's columns, each
  bound to its own value by the placeholder of its position, and the page by the two placeholders
  after them.
\<close>

lemma find_all_allowlisted:
  assumes "rp_allowlist r \<noteq> []" and "distinct (map fst (qo_Filter opts))"
  shows "(\<not> set (query_columns opts) \<subseteq> set (rp_allowlist r) \<longrightarrow>
      (\<exists>c \<in> set (query_columns opts). c \<notin> set (rp_allowlist r) \<and>
         crud_FindAll X M r opts s = Inl (EWrap [] (ESentinel ErrColumnNotAllowed) ('': '' @ quoted c)))) \<and>
    (set (query_columns opts) \<subseteq> set (rp_allowlist r) \<longrightarrow>
      (\<exists>cols order paged vals page. find_all_query r opts = Inr (SelectWhere (rp_tableName r) cols order paged, vals @ page) \<and>
         set cols = fst ` set (qo_Filter opts) \<and> sorted cols \<and> distinct cols \<and> set (zip cols vals) = set (qo_Filter opts) \<and>
         length vals = length cols \<and>
         order = (if qo_SortField opts = [] then None else Some (qo_SortField opts, qo_SortOrder opts)) \<and>
         page = (if paged then [VInt (Limit (qo_Pagination opts)), VInt (Offset (qo_Pagination opts))] else [])))"
proof (intro conjI impI)
  assume "\<not> set (query_columns opts) \<subseteq> set (rp_allowlist r)"
  then show "\<exists>c \<in> set (query_columns opts). c \<notin> set (rp_allowlist r) \<and>
      crud_FindAll X M r opts s = Inl (EWrap [] (ESentinel ErrColumnNotAllowed) ('': '' @ quoted c))"
    using assms(1) validate_fields_iff [OF assms(1), of "sortedFilterFields (qo_Filter opts)"]
      validate_fields_err [of r "sortedFilterFields (qo_Filter opts)"]
    by (cases "validate_fields r (sortedFilterFields (qo_Filter opts))")
      (auto simp: crud_FindAll_def find_all_query_def query_columns_def sortedFilterFields_def
        validateColumnAllowed_def allows_def Let_def split: if_splits)
next
  assume ok: "set (query_columns opts) \<subseteq> set (rp_allowlist r)"
  let ?cols = "sortedFilterFields (qo_Filter opts)" and ?p = "qo_Pagination opts"
  let ?vals = "map (field_value (qo_Filter opts)) ?cols" and ?paged = "0 < pg_PageSize (qo_Pagination opts)"
  let ?order = "if qo_SortField opts = [] then None else Some (qo_SortField opts, qo_SortOrder opts)"
  let ?page = "if ?paged then [VInt (Limit ?p), VInt (Offset ?p)] else []"
  have "validate_fields r ?cols = None"
    using ok by (auto simp: validate_fields_iff [OF assms(1)] query_columns_def sortedFilterFields_def)
  then have q: "find_all_query r opts = Inr (SelectWhere (rp_tableName r) ?cols ?order ?paged, ?vals @ ?page)"
    using ok assms(1) by (auto simp: find_all_query_def query_columns_def Let_def validateColumnAllowed_def allows_def)
  have z: "set (zip ?cols ?vals) = set (qo_Filter opts)"
    using filter_values [OF assms(2)] by (simp add: sortedFilterFields_def)
  have c: "set ?cols = fst ` set (qo_Filter opts)" "sorted ?cols" "distinct ?cols"
    using assms(2) by (simp_all add: sortedFilterFields_def)
  show "\<exists>cols order paged vals page. find_all_query r opts = Inr (SelectWhere (rp_tableName r) cols order paged, vals @ page) \<and>
         set cols = fst ` set (qo_Filter opts) \<and> sorted cols \<and> distinct cols \<and> set (zip cols vals) = set (qo_Filter opts) \<and>
         length vals = length cols \<and>
         order = (if qo_SortField opts = [] then None else Some (qo_SortField opts, qo_SortOrder opts)) \<and>
         page = (if paged then [VInt (Limit ?p), VInt (Offset ?p)] else [])"
    by (intro exI conjI) (rule q, rule c, rule c, rule c, rule z, rule length_map, rule refl, rule refl)
qed

text \<open>An allowlist of blank names is empty, and an empty allowlist restricts nothing.\<close>

lemma blank_allowlist_allows_all:
  "NewColumnAllowlist [] = []" "rp_allowlist r = NewColumnAllowlist [] \<Longrightarrow> validateColumnAllowed r c = None"
  by (simp_all add: NewColumnAllowlist_def validateColumnAllowed_def)

text \<open>The text of a query for PostgreSQL.\<close>

lemma find_all_text:
  "sql_text (placeholder None) (SelectWhere ''accounts'' [''balance'', ''id''] (Some (''id'', SortDesc)) True)
   = ''SELECT * FROM accounts WHERE balance = $1 AND id = $2 ORDER BY id DESC LIMIT $3 OFFSET $4''"
  by code_simp

section \<open>Pages\<close>

text \<open>While the product fits, the pages from the first follow each other without a gap or an overlap.\<close>

lemma pages_tile:
  assumes "0 < z" and "fits64 (int n * z)"
  shows "concat (map (\<lambda>k. [Offset \<lparr>pg_Page = k, pg_PageSize = z\<rparr> .. Offset \<lparr>pg_Page = k, pg_PageSize = z\<rparr> + Limit \<lparr>pg_Page = k, pg_PageSize = z\<rparr> - 1])
      [1 .. int n]) = [0 .. int n * z - 1]"
  using assms(2)
proof (induction n)
  case (Suc n)
  have le: "int n * z \<le> int (Suc n) * z" "0 \<le> int n * z" using assms(1) by auto
  then have f: "fits64 (int n * z)" using Suc.prems fits64_between by blast
  have "int n \<le> int n * z" using assms(1) mult_left_mono [of 1 z "int n"] by simp
  then have "fits64 (int n)" using f fits64_between by (metis of_nat_0_le_iff)
  then have o: "Offset \<lparr>pg_Page = int (Suc n), pg_PageSize = z\<rparr> = int n * z"
    using f by (simp add: Offset_def)
  have "[1 .. int (Suc n)] = [1 .. int n] @ [int (Suc n)]"
    by (simp add: upto_rec2)
  moreover have "[0 .. int (Suc n) * z - 1] = [0 .. int n * z - 1] @ [int n * z .. int n * z + z - 1]"
    using le assms(1) upto_split1 [of 0 "int n * z" "int n * z + z - 1"] by (simp add: algebra_simps)
  ultimately show ?case
    using Suc.IH [OF f] o by (simp add: Limit_def)
qed simp

text \<open>Where it does not fit, a late page is an earlier one again.\<close>

lemma Offset_wraps:
  "Offset \<lparr>pg_Page = 2 ^ 32 + 1, pg_PageSize = 2 ^ 32\<rparr> = 0"
  "Offset \<lparr>pg_Page = 2 ^ 62 + 1, pg_PageSize = 2\<rparr> = - (2 ^ 63)"
  by (simp_all add: Offset_def i64_def)

end
