(* ===== verification/HttpCache.thy ===== *)
theory HttpCache
  imports Stores Access "HOL-Library.Char_ord" "HOL-Library.List_Lexorder"
begin

text \<open>
  \<^verbatim>\<open>pkg/http/cache/cache.go\<close>: the middleware that caches responses.  Its parts are functions: the
  configuration, the key of a request, the decision on arrival, the computation of an entry and the
  response served from one.  The goroutines of concurrent requests are the step relation \<open>cache_step\<close>:
  requests arrive, become the leader of a call or wait for one, and finish in any interleaving.
  The store is one of those of theory Stores, through the locale \<open>expiring_store\<close>; the hash, the text of custom claims and the JSON codec of
  entries are parameters.  Metrics are left out.
\<close>

section \<open>Headers with several values, and query strings\<close>

type_synonym mheader = "string \<rightharpoonup> string list"

definition mh_get :: "mheader \<Rightarrow> string \<Rightarrow> string" where
  "mh_get h k = (case h (header_name k) of Some (v # _) \<Rightarrow> v | _ \<Rightarrow> [])"

definition mh_set :: "string \<Rightarrow> string \<Rightarrow> mheader \<Rightarrow> mheader" where
  "mh_set k v h = h(header_name k \<mapsto> [v])"

definition mh_del :: "string \<Rightarrow> mheader \<Rightarrow> mheader" where
  "mh_del k h = h(header_name k := None)"

text \<open>\<^verbatim>\<open>url.QueryEscape\<close> and \<^verbatim>\<open>Values.Encode\<close>.\<close>

definition hex_upper :: "nat \<Rightarrow> char" where
  "hex_upper d = (if d < 10 then char_of (48 + d) else char_of (55 + d))"

definition unreserved :: "char \<Rightarrow> bool" where
  "unreserved c \<longleftrightarrow> is_digit c \<or> (65 \<le> byte c \<and> byte c \<le> 90) \<or> (97 \<le> byte c \<and> byte c \<le> 122) \<or> c \<in> set ''-_.~''"

definition escape_char :: "char \<Rightarrow> string" where
  "escape_char c =
     (if unreserved c then [c]
      else if c = CHR '' '' then ''+''
      else [CHR 0x25, hex_upper (byte c div 16), hex_upper (byte c mod 16)])"

definition query_escape :: "string \<Rightarrow> string" where
  "query_escape s = concat (map escape_char s)"

type_synonym url_values = "(string \<times> string list) list"

definition query_get :: "url_values \<Rightarrow> string \<Rightarrow> string" where
  "query_get vs k = (case map_of vs k of Some (v # _) \<Rightarrow> v | _ \<Rightarrow> [])"

definition canonicalQuery :: "url_values \<Rightarrow> string" where
  "canonicalQuery vs =
     join_with ''&'' (concat (map (\<lambda>k. map (\<lambda>v. query_escape k @ ''='' @ query_escape v) (the (map_of vs k))) (sort (map fst vs))))"

section \<open>Configuration\<close>

datatype key_source =
  KeySourceStatic | KeySourceRoute | KeySourceHeader | KeySourceQuery | KeySourceClaim | KeySourceTenant
| KeySourceSubject | KeySourceScopeHash | KeySourceAuthFingerprint | KeySourceOther string

fun source_text :: "key_source \<Rightarrow> string" where
  "source_text KeySourceStatic = ''static''"
| "source_text KeySourceRoute = ''route''"
| "source_text KeySourceHeader = ''header''"
| "source_text KeySourceQuery = ''query''"
| "source_text KeySourceClaim = ''claim''"
| "source_text KeySourceTenant = ''tenant''"
| "source_text KeySourceSubject = ''subject''"
| "source_text KeySourceScopeHash = ''scope_hash''"
| "source_text KeySourceAuthFingerprint = ''auth_fingerprint''"
| "source_text (KeySourceOther s) = s"

record key_rule =
  kr_Source :: key_source
  kr_Key :: string
  kr_Value :: string
  kr_Name :: string
  kr_Optional :: bool

record cache_config =
  hc_Enabled :: bool
  hc_Store :: bool
  hc_TTL :: duration
  hc_StaleWhileRevalidate :: duration
  hc_Public :: bool
  hc_VaryHeaders :: "string list"
  hc_BypassQueryParam :: string
  hc_KeyPrefix :: string
  hc_KeyRules :: "key_rule list"
  hc_Sensitive :: bool
  hc_RequireTenant :: bool
  hc_RequireAuthFingerprint :: bool

definition cache_DefaultConfig :: cache_config where
  "cache_DefaultConfig =
     \<lparr>hc_Enabled = False, hc_Store = False, hc_TTL = 30 * second, hc_StaleWhileRevalidate = 0, hc_Public = True, hc_VaryHeaders = [],
      hc_BypassQueryParam = ''__cache_bypass'', hc_KeyPrefix = ''http-cache'', hc_KeyRules = [], hc_Sensitive = False,
      hc_RequireTenant = False, hc_RequireAuthFingerprint = False\<rparr>"

definition cache_normalizeConfig :: "cache_config \<Rightarrow> cache_config" where
  "cache_normalizeConfig cfg =
     cfg\<lparr>hc_TTL := pos_or (hc_TTL cfg) (30 * second),
         hc_StaleWhileRevalidate := (if hc_StaleWhileRevalidate cfg < 0 then 0 else hc_StaleWhileRevalidate cfg),
         hc_KeyPrefix := (if blank (hc_KeyPrefix cfg) then ''http-cache'' else hc_KeyPrefix cfg),
         hc_BypassQueryParam := (if blank (hc_BypassQueryParam cfg) then ''__cache_bypass'' else hc_BypassQueryParam cfg)\<rparr>"

definition keyed_source :: "key_source \<Rightarrow> bool" where
  "keyed_source s \<longleftrightarrow> s \<in> {KeySourceRoute, KeySourceHeader, KeySourceQuery, KeySourceClaim}"

definition auth_source :: "key_source \<Rightarrow> bool" where
  "auth_source s \<longleftrightarrow> s \<in> {KeySourceSubject, KeySourceScopeHash, KeySourceAuthFingerprint, KeySourceClaim}"

definition valid_source :: "key_source \<Rightarrow> bool" where
  "valid_source s = (case s of KeySourceOther _ \<Rightarrow> False | _ \<Rightarrow> True)"

fun validate_rules :: "nat \<Rightarrow> key_rule list \<Rightarrow> err option" where
  "validate_rules i [] = None"
| "validate_rules i (r # rs) =
     (let p = ''cache key_rules['' @ show_nat i @ ''].'' in
      if \<not> valid_source (kr_Source r) then Some (ENew (p @ ''source is invalid: '' @ source_text (kr_Source r)))
      else if kr_Source r = KeySourceStatic \<and> blank (kr_Value r) then Some (ENew (p @ ''value is required for source=static''))
      else if keyed_source (kr_Source r) \<and> blank (kr_Key r)
      then Some (ENew (p @ ''key is required for source='' @ source_text (kr_Source r)))
      else validate_rules (Suc i) rs)"

definition ValidateConfig :: "cache_config \<Rightarrow> err option" where
  "ValidateConfig cfg =
     (let hasTenant = list_ex (\<lambda>r. kr_Source r = KeySourceTenant) (hc_KeyRules cfg);
          hasAuthDim = list_ex (\<lambda>r. auth_source (kr_Source r)) (hc_KeyRules cfg) in
      if \<not> hc_Enabled cfg then None
      else if \<not> hc_Store cfg then Some (ENew ''cache store is required when cache middleware is enabled'')
      else if hc_TTL cfg \<le> 0 then Some (ENew ''cache ttl must be greater than zero'')
      else if hc_StaleWhileRevalidate cfg < 0 then Some (ENew ''cache stale_while_revalidate cannot be negative'')
      else case validate_rules 0 (hc_KeyRules cfg) of
          Some e \<Rightarrow> Some e
        | None \<Rightarrow>
            (if (hc_Sensitive cfg \<or> hc_RequireTenant cfg) \<and> \<not> hasTenant
             then Some (ENew ''cache sensitive route requires tenant key rule'')
             else if (hc_Sensitive cfg \<or> hc_RequireAuthFingerprint cfg) \<and> \<not> hasAuthDim
             then Some (ENew ''cache sensitive route requires auth fingerprint key rule'')
             else None))"

text \<open>\<^verbatim>\<open>New\<close> and \<^verbatim>\<open>Middleware\<close>: the configuration a middleware works with; one that is not valid passes everything on.\<close>

definition cache_New :: "cache_config \<Rightarrow> cache_config result" where
  "cache_New cfg = (let c = cache_normalizeConfig cfg in case ValidateConfig c of Some e \<Rightarrow> Inl e | None \<Rightarrow> Inr c)"

definition cache_Middleware :: "cache_config \<Rightarrow> cache_config option" where
  "cache_Middleware cfg = (case cache_New cfg of Inl _ \<Rightarrow> None | Inr c \<Rightarrow> Some c)"

section \<open>Keys\<close>

record cache_request =
  cq_Method :: string
  cq_Path :: string
  cq_Header :: header
  cq_Param :: "string \<Rightarrow> string"
  cq_Values :: url_values
  cq_claims :: "claims option"

text \<open>What is not in the sources: the hash SHA-256 and the text of a custom claim under the verb \<^verbatim>\<open>%v\<close>.\<close>

record cache_lib =
  lb_sha :: "string \<Rightarrow> string"
  lb_show :: "claim_value \<Rightarrow> string"

definition cache_claimValue :: "(claim_value \<Rightarrow> string) \<Rightarrow> claims \<Rightarrow> string \<Rightarrow> string" where
  "cache_claimValue shw c key =
     (let k = to_lower (trim_space key) in
      if k \<in> set [''sub'', ''subject''] then cl_Subject c
      else if k \<in> set [''tenant'', ''tenant_id'', ''tenantid''] then cl_TenantID c
      else if k \<in> set [''iss'', ''issuer''] then cl_Issuer c
      else if k \<in> set [''scope'', ''scopes''] then join_with '' '' (cl_Scopes c)
      else if k \<in> set [''roles'', ''role''] then join_with '','' (cl_Roles c)
      else case cl_Custom c key of Some v \<Rightarrow> shw v | None \<Rightarrow> [])"

text \<open>Both keep eight bytes of the hash.\<close>

definition scopeHash :: "(string \<Rightarrow> string) \<Rightarrow> string list \<Rightarrow> string" where
  "scopeHash sha scopes = (if scopes = [] then [] else hex (take 8 (sha (join_with '','' (sort scopes)))))"

definition trim_bars :: "string \<Rightarrow> string" where
  "trim_bars s = trim_right_char (CHR ''|'') (dropWhile (\<lambda>c. c = CHR ''|'') s)"

definition authFingerprint :: "(string \<Rightarrow> string) \<Rightarrow> claims \<Rightarrow> string" where
  "authFingerprint sha c =
     (let raw = trim_bars (join_with ''|'' [trim_space (cl_Subject c), trim_space (cl_TenantID c), scopeHash sha (cl_Scopes c)]) in
      if raw = [] then [] else hex (take 8 (sha raw)))"

definition nonempty :: "string \<Rightarrow> string option" where
  "nonempty s = (if s = [] then None else Some s)"

definition resolveRuleValue :: "cache_lib \<Rightarrow> cache_request \<Rightarrow> key_rule \<Rightarrow> string option" where
  "resolveRuleValue L q r =
     (let of_claims = (\<lambda>f. case cq_claims q of None \<Rightarrow> None | Some c \<Rightarrow> nonempty (f c)) in
      case kr_Source r of
        KeySourceStatic \<Rightarrow> nonempty (trim_space (kr_Value r))
      | KeySourceRoute \<Rightarrow> nonempty (trim_space (cq_Param q (kr_Key r)))
      | KeySourceHeader \<Rightarrow> nonempty (trim_space (header_get (cq_Header q) (kr_Key r)))
      | KeySourceQuery \<Rightarrow> nonempty (trim_space (query_get (cq_Values q) (kr_Key r)))
      | KeySourceClaim \<Rightarrow> of_claims (\<lambda>c. trim_space (cache_claimValue (lb_show L) c (kr_Key r)))
      | KeySourceTenant \<Rightarrow> of_claims (\<lambda>c. trim_space (cl_TenantID c))
      | KeySourceSubject \<Rightarrow> of_claims (\<lambda>c. trim_space (cl_Subject c))
      | KeySourceScopeHash \<Rightarrow> of_claims (\<lambda>c. scopeHash (lb_sha L) (cl_Scopes c))
      | KeySourceAuthFingerprint \<Rightarrow> of_claims (authFingerprint (lb_sha L))
      | KeySourceOther _ \<Rightarrow> None)"

definition defaultRuleName :: "key_rule \<Rightarrow> string" where
  "defaultRuleName r =
     (case kr_Source r of
        KeySourceRoute \<Rightarrow> ''route.'' @ kr_Key r
      | KeySourceHeader \<Rightarrow> ''header.'' @ to_lower (kr_Key r)
      | KeySourceQuery \<Rightarrow> ''query.'' @ kr_Key r
      | KeySourceClaim \<Rightarrow> ''claim.'' @ kr_Key r
      | s \<Rightarrow> source_text s)"

definition rule_name :: "key_rule \<Rightarrow> string" where
  "rule_name r = (let name = trim_space (kr_Name r) in if name = [] then defaultRuleName r else name)"

text \<open>The parts of the rules, or the rule that is required and has no value.\<close>

fun rule_parts :: "cache_lib \<Rightarrow> cache_request \<Rightarrow> key_rule list \<Rightarrow> string list result" where
  "rule_parts L q [] = Inr []"
| "rule_parts L q (r # rs) =
     (case resolveRuleValue L q r of
        None \<Rightarrow>
          (if kr_Optional r then rule_parts L q rs
           else Inl (ENew (''missing required cache key rule for source='' @ source_text (kr_Source r) @ '' key='' @ kr_Key r)))
      | Some v \<Rightarrow>
          (case rule_parts L q rs of
             Inl e \<Rightarrow> Inl e
           | Inr ps \<Rightarrow> Inr ((rule_name r @ ''='' @ query_escape v) # ps)))"

definition buildCacheKey :: "cache_lib \<Rightarrow> cache_config \<Rightarrow> cache_request \<Rightarrow> string result" where
  "buildCacheKey L cfg q =
     (if hc_KeyRules cfg = []
      then Inr (hc_KeyPrefix cfg @ '':'' @ cq_Method q @ '':'' @ cq_Path q @ '':'' @ canonicalQuery (cq_Values q))
      else case rule_parts L q (hc_KeyRules cfg) of
          Inl e \<Rightarrow> Inl e
        | Inr ps \<Rightarrow>
            Inr (join_with '':'' ([hc_KeyPrefix cfg, ''method='' @ to_upper (cq_Method q), ''path='' @ cq_Path q] @ ps)))"

text \<open>\<^verbatim>\<open>strings.Contains\<close>.\<close>

fun contains :: "string \<Rightarrow> string \<Rightarrow> bool" where
  "contains [] p = (p = [])"
| "contains (c # cs) p = (has_prefix (c # cs) p \<or> contains cs p)"

definition shouldBypass :: "cache_config \<Rightarrow> cache_request \<Rightarrow> bool" where
  "shouldBypass cfg q =
     (let cc = to_lower (trim_space (header_get (cq_Header q) ''Cache-Control''));
          param = trim_space (hc_BypassQueryParam cfg);
          val = to_lower (trim_space (query_get (cq_Values q) param)) in
      if contains cc ''no-cache'' \<or> contains cc ''no-store'' then True
      else if param = [] then False
      else if val = [] then False
      else if val = ''0'' \<or> val = ''false'' \<or> val = ''off'' then False
      else True)"

section \<open>Entries\<close>

record cache_entry =
  ce_StatusCode :: int
  ce_Headers :: mheader
  ce_Body :: string
  ce_ETag :: string
  ce_FreshUntil :: gotime
  ce_StaleUntil :: gotime

definition computeETag :: "(string \<Rightarrow> string) \<Rightarrow> string \<Rightarrow> string" where
  "computeETag sha body = ''W/'' @ quoted (hex (sha body))"

definition ifNoneMatchSatisfied :: "cache_request \<Rightarrow> string \<Rightarrow> bool" where
  "ifNoneMatchSatisfied q etag =
     (let h = trim_space (header_get (cq_Header q) ''If-None-Match'') in
      if blank etag then False
      else if h = [] then False
      else if h = ''*'' then True
      else list_ex (\<lambda>token. trim_space token = etag) (split_on (CHR '','') h))"

definition parseCSVHeader :: "string \<Rightarrow> string list" where
  "parseCSVHeader v = (if blank v then [] else filter (\<lambda>p. p \<noteq> []) (map trim_space (split_on (CHR '','') v)))"

definition cache_applyVary :: "string list \<Rightarrow> mheader \<Rightarrow> mheader" where
  "cache_applyVary vary h =
     (if vary = [] then h
      else let merged = dedupeStrings (parseCSVHeader (mh_get h ''Vary'') @ vary) in
           if merged = [] then h else mh_set ''Vary'' (join_with '', '' merged) h)"

text \<open>Whole seconds of a duration.\<close>

definition buildCacheControl :: "cache_config \<Rightarrow> string" where
  "buildCacheControl cfg =
     join_with '', ''
       ([if hc_Public cfg then ''public'' else ''private'', ''max-age='' @ itoa (max 0 (go_div (hc_TTL cfg) second))]
        @ (if 0 < hc_StaleWhileRevalidate cfg
           then [''stale-while-revalidate='' @ itoa (go_div (hc_StaleWhileRevalidate cfg) second)] else []))"

definition dropped_headers :: "string list" where
  "dropped_headers = [''Connection'', ''Keep-Alive'', ''Proxy-Authenticate'', ''Proxy-Authorization'', ''Te'', ''Trailer'',
     ''Transfer-Encoding'', ''Upgrade'', ''Set-Cookie'', ''Date'', ''Content-Length'']"

definition filterHeaders :: "mheader \<Rightarrow> mheader" where
  "filterHeaders h = fold mh_del dropped_headers h"

text \<open>The capturing writer: the status of the first header written, and all bytes of the body.\<close>

datatype write_op = WriteHeader int | WriteBytes string

record capture =
  cw_headerWrote :: bool
  cw_statusCode :: int
  cw_body :: string

definition capture_WriteHeader :: "int \<Rightarrow> capture \<Rightarrow> capture" where
  "capture_WriteHeader code w = (if cw_headerWrote w then w else w\<lparr>cw_headerWrote := True, cw_statusCode := code\<rparr>)"

definition capture_Write :: "string \<Rightarrow> capture \<Rightarrow> capture" where
  "capture_Write p w = (let v = (if \<not> cw_headerWrote w then capture_WriteHeader 200 w else w) in v\<lparr>cw_body := cw_body v @ p\<rparr>)"

definition capture_step :: "write_op \<Rightarrow> capture \<Rightarrow> capture" where
  "capture_step op = (case op of WriteHeader c \<Rightarrow> capture_WriteHeader c | WriteBytes p \<Rightarrow> capture_Write p)"

definition capture_all :: "write_op list \<Rightarrow> capture" where
  "capture_all ops = fold capture_step ops \<lparr>cw_headerWrote = False, cw_statusCode = 0, cw_body = []\<rparr>"

text \<open>The status, that of the router's own writer when none was written: 200.\<close>

definition capture_Status :: "capture \<Rightarrow> int" where
  "capture_Status w = (if cw_statusCode w = 0 then 200 else cw_statusCode w)"

text \<open>What the handler did: its error, what it wrote, and the header fields of the response at its end.\<close>

record handled =
  hd_err :: "err option"
  hd_ops :: "write_op list"
  hd_header :: mheader

text \<open>The entry of a response, or none when it is not cacheable.\<close>

definition cache_entry_of :: "(string \<Rightarrow> string) \<Rightarrow> cache_config \<Rightarrow> gotime \<Rightarrow> gotime \<Rightarrow> handled \<Rightarrow> cache_entry option" where
  "cache_entry_of sha cfg t1 t2 out =
     (let w = capture_all (hd_ops out); h1 = filterHeaders (hd_header out);
          given = trim_space (mh_get h1 ''ETag'');
          etag = (if given = [] then computeETag sha (cw_body w) else given);
          h2 = (if given = [] then mh_set ''ETag'' etag h1 else h1);
          h3 = cache_applyVary (hc_VaryHeaders cfg) h2;
          h4 = (if blank (mh_get h3 ''Cache-Control'') then mh_set ''Cache-Control'' (buildCacheControl cfg) h3 else h3) in
      if capture_Status w \<noteq> 200 then None
      else Some \<lparr>ce_StatusCode = 200, ce_Headers = h4, ce_Body = cw_body w, ce_ETag = etag,
             ce_FreshUntil = t1 + hc_TTL cfg, ce_StaleUntil = t2 + i64 (hc_TTL cfg + hc_StaleWhileRevalidate cfg)\<rparr>)"

definition store_ttl :: "cache_config \<Rightarrow> duration" where
  "store_ttl cfg = (let ttl = i64 (hc_TTL cfg + hc_StaleWhileRevalidate cfg) in if ttl \<le> 0 then hc_TTL cfg else ttl)"

text \<open>
  \<^verbatim>\<open>computeAndStore\<close> after the handler has run: the entry and the error it gives to all callers, and the store.
  \<open>net\<close> is the error of a store that is not reached, \<open>st\<close> the store's time.
\<close>

definition computeAndStore ::
  "cache_lib \<Rightarrow> cache_entry codec \<Rightarrow> cache_config \<Rightarrow> (string, 's) save_op \<Rightarrow> err option \<Rightarrow> string \<Rightarrow> gotime \<Rightarrow> gotime \<Rightarrow> int
    \<Rightarrow> handled \<Rightarrow> 's \<Rightarrow> (cache_entry option \<times> err option) \<times> 's" where
  "computeAndStore L C cfg save net key t1 t2 st out s =
     (case hd_err out of
        Some e \<Rightarrow> ((None, Some e), s)
      | None \<Rightarrow>
          (case cache_entry_of (lb_sha L) cfg t1 t2 out of
             None \<Rightarrow> ((None, None), s)
           | Some entry \<Rightarrow>
               (case c_Marshal C entry of
                  Inl _ \<Rightarrow> ((None, None), s)
                | Inr raw \<Rightarrow>
                    (case net of
                       Some _ \<Rightarrow> ((None, None), s)
                     | None \<Rightarrow>
                         (case save st key raw (store_ttl cfg) s of
                            (Some _, s') \<Rightarrow> ((None, None), s')
                          | (None, s') \<Rightarrow> ((Some entry, None), s'))))))"

text \<open>\<^verbatim>\<open>load\<close>: the entry and whether it is fresh.\<close>

definition cache_load ::
  "cache_entry codec \<Rightarrow> cache_config \<Rightarrow> (string, 's) load_op \<Rightarrow> err option \<Rightarrow> string \<Rightarrow> gotime \<Rightarrow> int \<Rightarrow> 's
    \<Rightarrow> (cache_entry \<times> bool) option \<times> 's" where
  "cache_load C cfg load net key now st s =
     (case net of
        Some _ \<Rightarrow> (None, s)
      | None \<Rightarrow>
          (case load st key s of
             (Inl _, s') \<Rightarrow> (None, s')
           | (Inr raw, s') \<Rightarrow>
               (case c_Unmarshal C raw of
                  Inl _ \<Rightarrow> (None, s')
                | Inr entry \<Rightarrow>
                    (if now \<le> ce_FreshUntil entry then (Some (entry, True), s')
                     else if 0 < hc_StaleWhileRevalidate cfg \<and> now < ce_StaleUntil entry then (Some (entry, False), s')
                     else (None, s')))))"

section \<open>Responses from an entry\<close>

record served =
  sv_Status :: int
  sv_Header :: mheader
  sv_Body :: string

definition serveCached :: "cache_config \<Rightarrow> cache_request \<Rightarrow> cache_entry \<Rightarrow> string \<Rightarrow> mheader \<Rightarrow> served" where
  "serveCached cfg q e state h =
     (let h1 = h ++ ce_Headers e;
          h2 = (if blank (mh_get h1 ''Cache-Control'') then mh_set ''Cache-Control'' (buildCacheControl cfg) h1 else h1);
          h3 = cache_applyVary (hc_VaryHeaders cfg) h2;
          h4 = (if \<not> blank (ce_ETag e) then mh_set ''ETag'' (ce_ETag e) h3 else h3);
          h5 = mh_set ''X-Cache'' state h4 in
      if ifNoneMatchSatisfied q (ce_ETag e) then \<lparr>sv_Status = 304, sv_Header = h5, sv_Body = []\<rparr>
      else \<lparr>sv_Status = ce_StatusCode e, sv_Header = h5,
             sv_Body = (if equal_fold (cq_Method q) ''HEAD'' then [] else ce_Body e)\<rparr>)"

text \<open>What a request does when it arrives; \<open>fl\<close> is what \<^verbatim>\<open>InFlight\<close> answers.\<close>

datatype arrival = PassOn "string option" | Serve cache_entry bool | Enter string

definition cache_arrive ::
  "cache_lib \<Rightarrow> cache_entry codec \<Rightarrow> cache_config \<Rightarrow> (string, 's) load_op \<Rightarrow> err option \<Rightarrow> bool \<Rightarrow> gotime \<Rightarrow> int
    \<Rightarrow> cache_request \<Rightarrow> 's \<Rightarrow> arrival \<times> 's" where
  "cache_arrive L C cfg load net fl now st q s =
     (if \<not> hc_Enabled cfg \<or> \<not> hc_Store cfg then (PassOn None, s)
      else if to_upper (trim_space (cq_Method q)) \<notin> {''GET'', ''HEAD''} then (PassOn None, s)
      else if shouldBypass cfg q then (PassOn (Some ''BYPASS''), s)
      else case buildCacheKey L cfg q of
          Inl _ \<Rightarrow> (PassOn (Some ''MISS''), s)
        | Inr key \<Rightarrow>
            (case cache_load C cfg load net key now st s of
               (Some (entry, True), s') \<Rightarrow> (Serve entry True, s')
             | (Some (entry, False), s') \<Rightarrow>
                 (if 0 < hc_StaleWhileRevalidate cfg \<and> fl then (Serve entry False, s') else (Enter key, s'))
             | (None, s') \<Rightarrow> (Enter key, s')))"

section \<open>The key determines what it was built from\<close>

lemma byte_hex_upper [simp]: "d < 16 \<Longrightarrow> byte (hex_upper d) = (if d < 10 then 48 + d else 55 + d)"
  by (simp add: hex_upper_def)

declare byte_less [simp]

lemma escape_char_bytes: "c \<in> set (escape_char x) \<Longrightarrow> byte c \<noteq> 58 \<and> byte c \<noteq> 61"
  by (auto simp: escape_char_def unreserved_def is_digit_def less_mult_imp_div_less split: if_splits)

lemma query_escape_plain: "CHR '':'' \<notin> set (query_escape s)" "CHR ''='' \<notin> set (query_escape s)"
  using escape_char_bytes by (fastforce simp: query_escape_def)+

lemma hex_upper_inj: "a < 16 \<Longrightarrow> b < 16 \<Longrightarrow> hex_upper a = hex_upper b \<Longrightarrow> a = b"
proof -
  assume "a < 16" "b < 16" "hex_upper a = hex_upper b"
  then have "(if a < 10 then 48 + a else 55 + a) = (if b < 10 then 48 + b else 55 + b)"
    by (metis byte_hex_upper)
  then show "a = b" by (auto split: if_splits)
qed

lemma escape_char_first:
  "unreserved c \<Longrightarrow> c \<noteq> CHR ''+'' \<and> c \<noteq> CHR 0x25"
  by (auto simp: unreserved_def is_digit_def)

lemma escape_char_inj: "escape_char c @ x = escape_char d @ y \<Longrightarrow> c = d \<and> x = y"
proof -
  assume e: "escape_char c @ x = escape_char d @ y"
  have h: "c = d" if "hex_upper (byte c div 16) = hex_upper (byte d div 16)" "hex_upper (byte c mod 16) = hex_upper (byte d mod 16)"
  proof -
    have "byte c div 16 = byte d div 16" "byte c mod 16 = byte d mod 16"
      using that by (auto intro: hex_upper_inj simp: less_mult_imp_div_less)
    then have "byte c = byte d" by (metis div_mult_mod_eq)
    then show ?thesis by (simp add: of_char_eq_iff)
  qed
  show ?thesis
    using e h escape_char_first [of c] escape_char_first [of d]
    by (auto simp: escape_char_def split: if_splits)
qed

lemma query_escape_inj: "query_escape s = query_escape t \<Longrightarrow> s = t"
proof (induction s arbitrary: t)
  case Nil
  then show ?case by (cases t) (auto simp: query_escape_def escape_char_def split: if_splits)
next
  case (Cons c s)
  then obtain d t' where t: "t = d # t'"
    by (cases t) (auto simp: query_escape_def escape_char_def split: if_splits)
  with Cons.prems have "escape_char c @ query_escape s = escape_char d @ query_escape t'" by (simp add: query_escape_def)
  then show ?case using escape_char_inj Cons.IH t by blast
qed

lemma rule_parts_required:
  assumes "\<forall>r \<in> set rs. \<not> kr_Optional r" and "rule_parts L q rs = Inr ps"
  shows "ps = map (\<lambda>r. rule_name r @ ''='' @ query_escape (the (resolveRuleValue L q r))) rs \<and> (\<forall>r \<in> set rs. resolveRuleValue L q r \<noteq> None)"
  using assms
  by (induction rs arbitrary: ps) (auto split: option.splits sum.splits)

lemma join_parts_inj:
  assumes "us \<noteq> []" "vs \<noteq> []"
  shows "join_with '':'' (us @ map (\<lambda>r. rule_name r @ ''='' @ query_escape (f r)) rs)
      = join_with '':'' (vs @ map (\<lambda>r. rule_name r @ ''='' @ query_escape (g r)) rs)
    \<Longrightarrow> join_with '':'' us = join_with '':'' vs \<and> (\<forall>r \<in> set rs. f r = g r)"
proof (induction rs rule: rev_induct)
  case (snoc r rs)
  let ?P = "\<lambda>us f. join_with '':'' (us @ map (\<lambda>r. rule_name r @ ''='' @ query_escape (f r)) rs)"
  have "(?P us f @ '':'' @ rule_name r) @ CHR ''='' # query_escape (f r) = (?P vs g @ '':'' @ rule_name r) @ CHR ''='' # query_escape (g r)"
    using snoc.prems join_snoc [of "us @ map (\<lambda>r. rule_name r @ ''='' @ query_escape (f r)) rs"]
      join_snoc [of "vs @ map (\<lambda>r. rule_name r @ ''='' @ query_escape (g r)) rs"] assms by simp
  note eq = iffD1 [OF last_sep_inj [OF query_escape_plain(2) query_escape_plain(2)] this]
  have "f r = g r" using eq [THEN conjunct2] by (rule query_escape_inj)
  moreover have "?P us f = ?P vs g" using eq [THEN conjunct1] by (rule append_same_eq [THEN iffD1])
  ultimately show ?case using snoc.IH by simp
qed simp

lemma to_upper_colon: "CHR '':'' \<notin> set m \<Longrightarrow> CHR '':'' \<notin> set (to_upper m)"
proof -
  have "upper_char c = CHR '':'' \<Longrightarrow> c = CHR '':''" for c
    by (auto simp: upper_char_def char_of_eq_iff take_bit_eq_mod split: if_splits)
  then show "CHR '':'' \<notin> set m \<Longrightarrow> CHR '':'' \<notin> set (to_upper m)" by (auto simp: to_upper_def dest: sym)
qed

lemma buildCacheKey_inj:
  assumes rules: "hc_KeyRules cfg \<noteq> []" "\<forall>r \<in> set (hc_KeyRules cfg). \<not> kr_Optional r"
    and keys: "buildCacheKey L cfg q = Inr k" "buildCacheKey L cfg q' = Inr k"
    and m: "CHR '':'' \<notin> set (cq_Method q)" "CHR '':'' \<notin> set (cq_Method q')"
  shows "to_upper (cq_Method q) = to_upper (cq_Method q') \<and> cq_Path q = cq_Path q' \<and>
    (\<forall>r \<in> set (hc_KeyRules cfg). resolveRuleValue L q r = resolveRuleValue L q' r \<and> resolveRuleValue L q r \<noteq> None)"
proof -
  let ?base = "\<lambda>q. [hc_KeyPrefix cfg, ''method='' @ to_upper (cq_Method q), ''path='' @ cq_Path q]"
  let ?val = "\<lambda>q r. the (resolveRuleValue L q r)"
  obtain ps ps' where ps: "rule_parts L q (hc_KeyRules cfg) = Inr ps" "rule_parts L q' (hc_KeyRules cfg) = Inr ps'"
    using keys rules(1) by (auto simp: buildCacheKey_def split: sum.splits)
  note r = rule_parts_required [OF rules(2) ps(1)] rule_parts_required [OF rules(2) ps(2)]
  have "join_with '':'' (?base q @ ps) = join_with '':'' (?base q' @ ps')"
    using keys ps rules(1) by (simp add: buildCacheKey_def)
  note this [unfolded r(1) [THEN conjunct1] r(2) [THEN conjunct1]]
  from join_parts_inj [OF _ _ this]
  have j: "join_with '':'' (?base q) = join_with '':'' (?base q')" and v: "\<forall>r \<in> set (hc_KeyRules cfg). ?val q r = ?val q' r"
    by simp_all
  have "to_upper (cq_Method q) @ CHR '':'' # (''path='' @ cq_Path q) = to_upper (cq_Method q') @ CHR '':'' # (''path='' @ cq_Path q')"
    using j by simp
  then have "to_upper (cq_Method q) = to_upper (cq_Method q') \<and> cq_Path q = cq_Path q'"
    using first_sep_inj [OF to_upper_colon [OF m(1)] to_upper_colon [OF m(2)]] by simp
  with v r show ?thesis by (metis option.expand)
qed

text \<open>An optional rule that has no value leaves its part out, and the path may then supply it.\<close>

definition optional_tenant :: cache_config where
  "optional_tenant = cache_DefaultConfig\<lparr>hc_Enabled := True, hc_Store := True, hc_Sensitive := True,
     hc_KeyRules := [\<lparr>kr_Source = KeySourceSubject, kr_Key = [], kr_Value = [], kr_Name = [], kr_Optional = True\<rparr>,
       \<lparr>kr_Source = KeySourceTenant, kr_Key = [], kr_Value = [], kr_Name = [], kr_Optional = True\<rparr>]\<rparr>"

definition cache_get :: "string \<Rightarrow> claims option \<Rightarrow> cache_request" where
  "cache_get path cl = \<lparr>cq_Method = ''GET'', cq_Path = path, cq_Header = (\<lambda>_. []), cq_Param = (\<lambda>_. []), cq_Values = [], cq_claims = cl\<rparr>"

definition tenant_claims :: "string \<Rightarrow> claims" where
  "tenant_claims t = \<lparr>cl_Subject = ''u'', cl_Issuer = [], cl_Audience = [], cl_TenantID = t, cl_Scopes = [], cl_Roles = [], cl_Custom = Map.empty\<rparr>"

lemma optional_rule_collision:
  "ValidateConfig optional_tenant = None"
  "buildCacheKey L optional_tenant (cache_get ''/a:subject=u:tenant=acme'' None) = buildCacheKey L optional_tenant (cache_get ''/a'' (Some (tenant_claims ''acme'')))"
  by code_simp+

section \<open>Concurrent requests\<close>

text \<open>
  The request group.  A request that has to compute enters \<^verbatim>\<open>Do\<close>: it leads a call of its own or waits
  for the registered one.  The leader runs the handler and stores the entry, publishes the result, and
  then removes the call from the group; a handler that panics leaves the call registered and
  unfinished.  A call is named by the identifier of its leader.
\<close>

datatype pc = AtDo | Computing | Unregistering | Waiting nat

datatype serve_kind = Fresh | Stale | Shared

datatype cache_log =
  Made cache_request cache_entry gotime
| Served cache_request cache_entry serve_kind gotime
| Ran cache_request

record 's cache_state =
  cs_store :: 's
  cs_now :: gotime
  cs_st :: int
  cs_group :: "string \<rightharpoonup> nat"
  cs_call :: "nat \<rightharpoonup> string \<times> (cache_entry option \<times> err option) option"
  cs_pend :: "nat \<rightharpoonup> cache_request \<times> string \<times> pc"
  cs_log :: "cache_log list"

definition after_arrival :: "nat \<Rightarrow> cache_request \<Rightarrow> arrival \<Rightarrow> 's cache_state \<Rightarrow> 's cache_state" where
  "after_arrival i q a S =
     (case a of
        PassOn _ \<Rightarrow> S\<lparr>cs_log := cs_log S @ [Ran q]\<rparr>
      | Serve e fresh \<Rightarrow> S\<lparr>cs_log := cs_log S @ [Served q e (if fresh then Fresh else Stale) (cs_now S)]\<rparr>
      | Enter k \<Rightarrow> S\<lparr>cs_pend := (cs_pend S)(i \<mapsto> (q, k, AtDo))\<rparr>)"

text \<open>The handler ran; its entry, if there is one, was made now.\<close>

definition computed :: "cache_request \<Rightarrow> gotime \<Rightarrow> cache_entry option \<times> err option \<Rightarrow> cache_log list" where
  "computed q t res = (case fst res of None \<Rightarrow> [Ran q] | Some e \<Rightarrow> [Ran q, Made q e t])"

text \<open>A waiter is served the entry of its call, or runs the handler itself.\<close>

definition awakened :: "cache_request \<Rightarrow> gotime \<Rightarrow> cache_entry option \<times> err option \<Rightarrow> cache_log list" where
  "awakened q t res = (case res of (Some e, None) \<Rightarrow> [Served q e Shared t] | _ \<Rightarrow> [Ran q])"

inductive cache_step ::
  "cache_lib \<Rightarrow> cache_entry codec \<Rightarrow> cache_config \<Rightarrow> (string, 's) load_op \<Rightarrow> (string, 's) save_op \<Rightarrow> 's cache_state \<Rightarrow> 's cache_state \<Rightarrow> bool"
  for L C cfg load save where
  tick: "cs_now S \<le> t \<Longrightarrow> cs_st S \<le> u \<Longrightarrow> cache_step L C cfg load save S (S\<lparr>cs_now := t, cs_st := u\<rparr>)"
| arrive: "cs_pend S i = None \<Longrightarrow> cs_call S i = None \<Longrightarrow>
    cache_arrive L C cfg load net fl (cs_now S) (cs_st S) q (cs_store S) = (a, s') \<Longrightarrow>
    cache_step L C cfg load save S (after_arrival i q a (S\<lparr>cs_store := s'\<rparr>))"
| lead: "cs_pend S i = Some (q, k, AtDo) \<Longrightarrow> cs_group S k = None \<Longrightarrow>
    cache_step L C cfg load save S (S\<lparr>cs_group := (cs_group S)(k \<mapsto> i), cs_call := (cs_call S)(i \<mapsto> (k, None)),
      cs_pend := (cs_pend S)(i \<mapsto> (q, k, Computing))\<rparr>)"
| join: "cs_pend S i = Some (q, k, AtDo) \<Longrightarrow> cs_group S k = Some c \<Longrightarrow>
    cache_step L C cfg load save S (S\<lparr>cs_pend := (cs_pend S)(i \<mapsto> (q, k, Waiting c))\<rparr>)"
| compute: "cs_pend S i = Some (q, k, Computing) \<Longrightarrow> cs_now S \<le> t2 \<Longrightarrow>
    computeAndStore L C cfg save net k (cs_now S) t2 (cs_st S) out (cs_store S) = (res, s') \<Longrightarrow>
    cache_step L C cfg load save S (S\<lparr>cs_store := s', cs_now := t2, cs_log := cs_log S @ computed q (cs_now S) res,
      cs_call := (cs_call S)(i \<mapsto> (k, Some res)), cs_pend := (cs_pend S)(i \<mapsto> (q, k, Unregistering))\<rparr>)"
| unregister: "cs_pend S i = Some (q, k, Unregistering) \<Longrightarrow>
    cache_step L C cfg load save S (S\<lparr>cs_group := (cs_group S)(k := None), cs_pend := (cs_pend S)(i := None)\<rparr>)"
| wake: "cs_pend S i = Some (q, k, Waiting c) \<Longrightarrow> cs_call S c = Some (k', Some res) \<Longrightarrow>
    cache_step L C cfg load save S (S\<lparr>cs_log := cs_log S @ awakened q (cs_now S) res, cs_pend := (cs_pend S)(i := None)\<rparr>)"
| panics: "cs_pend S i = Some (q, k, Computing) \<Longrightarrow>
    cache_step L C cfg load save S (S\<lparr>cs_log := cs_log S @ [Ran q], cs_pend := (cs_pend S)(i := None)\<rparr>)"

definition cache_start :: "('s \<Rightarrow> string entries) \<Rightarrow> 's cache_state \<Rightarrow> bool" where
  "cache_start view S \<longleftrightarrow> alive (cs_st S) (view (cs_store S)) = Map.empty \<and> cs_group S = Map.empty \<and> cs_call S = Map.empty \<and>
     cs_pend S = Map.empty \<and> cs_log S = []"

abbreviation cache_steps ::
  "cache_lib \<Rightarrow> cache_entry codec \<Rightarrow> cache_config \<Rightarrow> (string, 's) load_op \<Rightarrow> (string, 's) save_op \<Rightarrow> 's cache_state \<Rightarrow> 's cache_state \<Rightarrow> bool" where
  "cache_steps L C cfg load save \<equiv> (cache_step L C cfg load save)\<^sup>*\<^sup>*"

text \<open>The entry was made by the handler for a request of this key.\<close>

definition made_for :: "cache_lib \<Rightarrow> cache_config \<Rightarrow> 's cache_state \<Rightarrow> string \<Rightarrow> cache_entry \<Rightarrow> bool" where
  "made_for L cfg S k e \<longleftrightarrow> (\<exists>q t. Made q e t \<in> set (cs_log S) \<and> buildCacheKey L cfg q = Inr k \<and> t \<le> cs_now S \<and> ce_FreshUntil e = t + hc_TTL cfg)"

fun pc_ok :: "(string \<rightharpoonup> nat) \<Rightarrow> (nat \<rightharpoonup> string \<times> 'r option) \<Rightarrow> nat \<Rightarrow> string \<Rightarrow> pc \<Rightarrow> bool" where
  "pc_ok g calls i k AtDo = (calls i = None)"
| "pc_ok g calls i k Computing = (g k = Some i \<and> calls i = Some (k, None))"
| "pc_ok g calls i k Unregistering = (g k = Some i)"
| "pc_ok g calls i k (Waiting c) = (\<exists>r. calls c = Some (k, r))"

definition calls_ok :: "cache_lib \<Rightarrow> cache_config \<Rightarrow> 's cache_state \<Rightarrow> bool" where
  "calls_ok L cfg S \<longleftrightarrow>
     (\<forall>c k e x. cs_call S c = Some (k, Some (Some e, x)) \<longrightarrow> made_for L cfg S k e) \<and>
     (\<forall>i q k p. cs_pend S i = Some (q, k, p) \<longrightarrow> buildCacheKey L cfg q = Inr k \<and> pc_ok (cs_group S) (cs_call S) i k p) \<and>
     (\<forall>k c. cs_group S k = Some c \<longrightarrow> (\<exists>r. cs_call S c = Some (k, r)))"

definition served_ok :: "cache_lib \<Rightarrow> cache_config \<Rightarrow> 's cache_state \<Rightarrow> bool" where
  "served_ok L cfg S \<longleftrightarrow>
     (\<forall>q e kind t. Served q e kind t \<in> set (cs_log S) \<longrightarrow>
        (\<exists>k. buildCacheKey L cfg q = Inr k \<and> made_for L cfg S k e) \<and>
        (kind = Fresh \<longrightarrow> t \<le> ce_FreshUntil e) \<and> (kind = Stale \<longrightarrow> 0 < hc_StaleWhileRevalidate cfg \<and> t < ce_StaleUntil e))"

locale http_cache = expiring_store load save delete view span storable "ESentinel CacheMiss" ok
  for load :: "(string, 's) load_op" and save :: "(string, 's) save_op" and delete :: "'s delete_op"
    and view :: "'s \<Rightarrow> string entries" and span :: "duration \<Rightarrow> int option"
    and storable :: "string \<Rightarrow> duration \<Rightarrow> bool" and ok :: "'s \<Rightarrow> bool" +
  fixes C :: "cache_entry codec"
  assumes codec: "c_Marshal C e = Inr d \<Longrightarrow> c_Unmarshal C d = Inr e"
    and storable_positive: "0 < ttl \<Longrightarrow> storable d ttl"

definition store_ok ::
  "cache_lib \<Rightarrow> cache_entry codec \<Rightarrow> cache_config \<Rightarrow> ('s \<Rightarrow> string entries) \<Rightarrow> 's cache_state \<Rightarrow> bool" where
  "store_ok L C cfg view S \<longleftrightarrow>
     (\<forall>k d x. alive (cs_st S) (view (cs_store S)) k = Some (d, x) \<longrightarrow> (\<exists>e. c_Unmarshal C d = Inr e \<and> made_for L cfg S k e))"

lemma made_for_mono:
  "made_for L cfg S k e \<Longrightarrow> set (cs_log S) \<subseteq> set (cs_log S') \<Longrightarrow> cs_now S \<le> cs_now S' \<Longrightarrow> made_for L cfg S' k e"
  unfolding made_for_def by (meson order_trans subsetD)

lemma cache_entry_of_times:
  "cache_entry_of sha cfg t1 t2 out = Some e \<Longrightarrow> ce_FreshUntil e = t1 + hc_TTL cfg \<and> ce_StatusCode e = 200 \<and> ce_Body e = cw_body (capture_all (hd_ops out))"
  by (auto simp: cache_entry_of_def Let_def split: if_splits)

lemma store_ttl_pos: "0 < hc_TTL cfg \<Longrightarrow> 0 < store_ttl cfg"
  by (simp add: store_ttl_def Let_def)

context http_cache
begin

lemma load_entry:
  assumes "ok s" and "cache_load C cfg load net k now st s = (r, s')"
  shows "ok s'" and "alive st (view s') = alive st (view s)"
    and "r = Some (e, fresh) \<Longrightarrow> (\<exists>d x. alive st (view s) k = Some (d, x) \<and> c_Unmarshal C d = Inr e) \<and>
      (if fresh then now \<le> ce_FreshUntil e else 0 < hc_StaleWhileRevalidate cfg \<and> now < ce_StaleUntil e)"
proof -
  obtain y s1 where l: "load st k s = (y, s1)" by fastforce
  note spec = load_spec [OF assms(1) l]
  show "ok s'" "alive st (view s') = alive st (view s)"
    using assms spec l by (auto simp: cache_load_def split: option.splits sum.splits if_splits)
  show "r = Some (e, fresh) \<Longrightarrow> (\<exists>d x. alive st (view s) k = Some (d, x) \<and> c_Unmarshal C d = Inr e) \<and>
      (if fresh then now \<le> ce_FreshUntil e else 0 < hc_StaleWhileRevalidate cfg \<and> now < ce_StaleUntil e)"
    using assms(2) spec l
    by (auto simp: cache_load_def spec_load_def split: option.splits sum.splits if_splits prod.splits)
qed

lemma arrive_entry:
  assumes "ok s" and "cache_arrive L C cfg load net fl now st q s = (a, s')"
  shows "ok s'" and "alive st (view s') = alive st (view s)"
    and "a = Enter k \<Longrightarrow> buildCacheKey L cfg q = Inr k"
    and "a = Serve e fresh \<Longrightarrow> \<exists>k d x. buildCacheKey L cfg q = Inr k \<and> alive st (view s) k = Some (d, x) \<and> c_Unmarshal C d = Inr e \<and>
      (if fresh then now \<le> ce_FreshUntil e else 0 < hc_StaleWhileRevalidate cfg \<and> now < ce_StaleUntil e)"
proof -
  have "ok s' \<and> alive st (view s') = alive st (view s) \<and> (a = Enter k \<longrightarrow> buildCacheKey L cfg q = Inr k) \<and>
    (a = Serve e fresh \<longrightarrow> (\<exists>k d x. buildCacheKey L cfg q = Inr k \<and> alive st (view s) k = Some (d, x) \<and> c_Unmarshal C d = Inr e \<and>
      (if fresh then now \<le> ce_FreshUntil e else 0 < hc_StaleWhileRevalidate cfg \<and> now < ce_StaleUntil e)))"
  proof (cases "buildCacheKey L cfg q")
    case (Inl y)
    with assms show ?thesis by (auto simp: cache_arrive_def split: if_splits)
  next
    case (Inr k')
    obtain r s1 where l: "cache_load C cfg load net k' now st s = (r, s1)" by fastforce
    note le = load_entry [OF assms(1) l]
    show ?thesis
    proof (cases r)
      case None
      with assms Inr l le(1,2) show ?thesis by (auto simp: cache_arrive_def split: if_splits)
    next
      case (Some ef)
      obtain e' f' where ef: "ef = (e', f')" by fastforce
      with assms Inr l le(1,2) le(3) [of e' f'] Some show ?thesis
        by (cases f') (auto simp: cache_arrive_def split: if_splits)
    qed
  qed
  then show "ok s'" "alive st (view s') = alive st (view s)" "a = Enter k \<Longrightarrow> buildCacheKey L cfg q = Inr k"
    "a = Serve e fresh \<Longrightarrow> \<exists>k d x. buildCacheKey L cfg q = Inr k \<and> alive st (view s) k = Some (d, x) \<and> c_Unmarshal C d = Inr e \<and>
      (if fresh then now \<le> ce_FreshUntil e else 0 < hc_StaleWhileRevalidate cfg \<and> now < ce_StaleUntil e)"
    by blast+
qed

lemma compute_entry:
  assumes "ok s" and "0 < hc_TTL cfg" and "computeAndStore L C cfg save net k t1 t2 st out s = (res, s')"
  shows "ok s' \<and> (fst res = None \<and> s' = s \<or>
    (\<exists>e d. res = (Some e, None) \<and> c_Unmarshal C d = Inr e \<and> ce_FreshUntil e = t1 + hc_TTL cfg \<and>
       view s' = spec_save span st k d (store_ttl cfg) (view s)))"
proof (cases "\<exists>e d. hd_err out = None \<and> cache_entry_of (lb_sha L) cfg t1 t2 out = Some e \<and> c_Marshal C e = Inr d \<and> net = None")
  case True
  then obtain e d where o: "hd_err out = None" "cache_entry_of (lb_sha L) cfg t1 t2 out = Some e" "c_Marshal C e = Inr d" "net = None" by blast
  obtain x s1 where sv: "save st k d (store_ttl cfg) s = (x, s1)" by fastforce
  note sp = save_spec [OF assms(1) storable_positive [OF store_ttl_pos [OF assms(2)]] sv]
  show ?thesis
    using assms(3) o sv sp codec [OF o(3)] cache_entry_of_times [OF o(2)] by (auto simp: computeAndStore_def)
next
  case False
  then have "fst res = None \<and> s' = s"
    using assms(3) by (auto simp: computeAndStore_def split: option.splits sum.splits)
  then show ?thesis using assms(1) by blast
qed

end

definition cache_inv ::
  "cache_lib \<Rightarrow> cache_entry codec \<Rightarrow> cache_config \<Rightarrow> ('s \<Rightarrow> string entries) \<Rightarrow> ('s \<Rightarrow> bool) \<Rightarrow> 's cache_state \<Rightarrow> bool" where
  "cache_inv L C cfg view ok S \<longleftrightarrow> ok (cs_store S) \<and> store_ok L C cfg view S \<and> calls_ok L cfg S \<and> served_ok L cfg S"

text \<open>What a step that adds to the log and moves the clock keeps.\<close>

definition extends :: "'s cache_state \<Rightarrow> 's cache_state \<Rightarrow> cache_log list \<Rightarrow> bool" where
  "extends S S' new \<longleftrightarrow> cs_log S' = cs_log S @ new \<and> cs_now S \<le> cs_now S'"

lemma extends_made: "extends S S' new \<Longrightarrow> made_for L cfg S k e \<Longrightarrow> made_for L cfg S' k e"
  by (auto simp: extends_def intro: made_for_mono)

lemma extends_served:
  assumes "served_ok L cfg S" and "extends S S' new"
    and "\<And>q e kind t. Served q e kind t \<in> set new \<Longrightarrow> (\<exists>k. buildCacheKey L cfg q = Inr k \<and> made_for L cfg S' k e) \<and>
      (kind = Fresh \<longrightarrow> t \<le> ce_FreshUntil e) \<and> (kind = Stale \<longrightarrow> 0 < hc_StaleWhileRevalidate cfg \<and> t < ce_StaleUntil e)"
  shows "served_ok L cfg S'"
  unfolding served_ok_def
proof (intro allI impI)
  fix q e kind t
  assume "Served q e kind t \<in> set (cs_log S')"
  then consider "Served q e kind t \<in> set (cs_log S)" | "Served q e kind t \<in> set new"
    using assms(2) by (auto simp: extends_def)
  then show "(\<exists>k. buildCacheKey L cfg q = Inr k \<and> made_for L cfg S' k e) \<and>
      (kind = Fresh \<longrightarrow> t \<le> ce_FreshUntil e) \<and> (kind = Stale \<longrightarrow> 0 < hc_StaleWhileRevalidate cfg \<and> t < ce_StaleUntil e)"
  proof cases
    case 1
    then show ?thesis using assms(1) extends_made [OF assms(2)] unfolding served_ok_def by blast
  next
    case 2
    then show ?thesis by (rule assms(3))
  qed
qed

lemma extends_store:
  assumes "store_ok L C cfg view S" and "extends S S' new" and "cs_st S \<le> cs_st S'"
    and "alive (cs_st S) (view (cs_store S')) = alive (cs_st S) (view (cs_store S))"
  shows "store_ok L C cfg view S'"
  unfolding store_ok_def
proof (intro allI impI)
  fix k d x
  assume a: "alive (cs_st S') (view (cs_store S')) k = Some (d, x)"
  have "alive (cs_st S') (view (cs_store S')) = alive (cs_st S') (view (cs_store S))"
    using alive_cong [OF assms(4,3)] .
  with a have "alive (cs_st S) (view (cs_store S)) k = Some (d, x)"
    using lives_mono [OF assms(3)] by (auto simp: alive_def split: option.splits if_splits)
  then show "\<exists>e. c_Unmarshal C d = Inr e \<and> made_for L cfg S' k e"
    using assms(1) extends_made [OF assms(2)] unfolding store_ok_def by blast
qed

lemma extends_calls:
  assumes "calls_ok L cfg S" and "extends S S' new"
    and "cs_call S' = cs_call S" and "cs_group S' = cs_group S" and "cs_pend S' = cs_pend S"
  shows "calls_ok L cfg S'"
  using assms(1) extends_made [OF assms(2)] unfolding calls_ok_def assms(3-5) by blast

text \<open>The steps of the request group.\<close>

lemma calls_okD:
  assumes "calls_ok L cfg S"
  shows "cs_call S c = Some (k, Some (Some e, x)) \<Longrightarrow> made_for L cfg S k e"
    and "cs_pend S i = Some (q, k, p) \<Longrightarrow> buildCacheKey L cfg q = Inr k"
    and "cs_pend S i = Some (q, k, p) \<Longrightarrow> pc_ok (cs_group S) (cs_call S) i k p"
    and "cs_group S k = Some c \<Longrightarrow> \<exists>r. cs_call S c = Some (k, r)"
  using assms unfolding calls_ok_def by blast+

lemma made_for_frame:
  "cs_log S' = cs_log S \<Longrightarrow> cs_now S' = cs_now S \<Longrightarrow> made_for L cfg S' k e = made_for L cfg S k e"
  by (simp add: made_for_def)

lemma calls_ok_step:
  assumes "calls_ok L cfg S" and "cs_log S' = cs_log S" "cs_now S' = cs_now S"
    and "\<And>c k e x. cs_call S' c = Some (k, Some (Some e, x)) \<Longrightarrow> cs_call S c = Some (k, Some (Some e, x)) \<or> made_for L cfg S k e"
    and "\<And>j q k p. cs_pend S' j = Some (q, k, p) \<Longrightarrow> buildCacheKey L cfg q = Inr k \<and> pc_ok (cs_group S') (cs_call S') j k p"
    and "\<And>k c. cs_group S' k = Some c \<Longrightarrow> \<exists>r. cs_call S' c = Some (k, r)"
  shows "calls_ok L cfg S'"
  unfolding calls_ok_def made_for_frame [OF assms(2,3)]
  using assms(4-6) calls_okD(1) [OF assms(1)] by blast

lemma pc_ok_group: "pc_ok g calls i k p \<Longrightarrow> g k' = None \<or> k' \<noteq> k \<Longrightarrow> pc_ok (g(k' \<mapsto> j)) calls i k p"
  by (cases p) auto

lemma pc_ok_call: "pc_ok g calls i k p \<Longrightarrow> calls j = None \<Longrightarrow> i \<noteq> j \<Longrightarrow> pc_ok g (calls(j \<mapsto> r)) i k p"
  by (cases p) auto

lemma pc_ok_result: "pc_ok g calls i k p \<Longrightarrow> calls j = Some (k', None) \<Longrightarrow> i \<noteq> j \<Longrightarrow> pc_ok g (calls(j \<mapsto> (k', r))) i k p"
  by (cases p) auto

lemma pc_ok_drop: "pc_ok g calls i k p \<Longrightarrow> g k' = Some j \<Longrightarrow> i \<noteq> j \<Longrightarrow> pc_ok (g(k' := None)) calls i k p"
  by (cases p) auto

lemma calls_ok_enter:
  assumes "calls_ok L cfg S" and "cs_call S i = None" and "buildCacheKey L cfg q = Inr k"
  shows "calls_ok L cfg (S\<lparr>cs_pend := (cs_pend S)(i \<mapsto> (q, k, AtDo))\<rparr>)"
  using assms(2,3) calls_okD [OF assms(1)] by (intro calls_ok_step [OF assms(1)]) (auto split: if_splits)

lemma calls_ok_lead:
  assumes "calls_ok L cfg S" and "cs_pend S i = Some (q, k, AtDo)" and "cs_group S k = None"
  shows "calls_ok L cfg (S\<lparr>cs_group := (cs_group S)(k \<mapsto> i), cs_call := (cs_call S)(i \<mapsto> (k, None)),
      cs_pend := (cs_pend S)(i \<mapsto> (q, k, Computing))\<rparr>)"
proof -
  note d = calls_okD [OF assms(1)]
  have i: "cs_call S i = None" using d(3) [OF assms(2)] by simp
  show ?thesis
  proof (rule calls_ok_step [OF assms(1)], goal_cases)
    case (4 j q' k' p)
    then show ?case
      using d(2) assms(2,3) i by (cases "j = i") (auto intro!: pc_ok_group pc_ok_call d(3))
  next
    case (5 k' c)
    then show ?case using d(4) [of k' c] i by (auto split: if_splits)
  qed (auto split: if_splits)
qed

lemma calls_ok_join:
  assumes "calls_ok L cfg S" and "cs_pend S i = Some (q, k, AtDo)" and "cs_group S k = Some c"
  shows "calls_ok L cfg (S\<lparr>cs_pend := (cs_pend S)(i \<mapsto> (q, k, Waiting c))\<rparr>)"
  using assms(2,3) calls_okD [OF assms(1)] by (intro calls_ok_step [OF assms(1)]) (auto split: if_splits)

lemma calls_ok_leave:
  assumes "calls_ok L cfg S"
  shows "calls_ok L cfg (S\<lparr>cs_pend := (cs_pend S)(i := None)\<rparr>)"
  using calls_okD [OF assms] by (intro calls_ok_step [OF assms]) (auto split: if_splits)

lemma calls_ok_unregister:
  assumes "calls_ok L cfg S" and "cs_pend S i = Some (q, k, Unregistering)"
  shows "calls_ok L cfg (S\<lparr>cs_group := (cs_group S)(k := None), cs_pend := (cs_pend S)(i := None)\<rparr>)"
proof -
  note d = calls_okD [OF assms(1)]
  have "cs_group S k = Some i" using d(3) [OF assms(2)] by simp
  then show ?thesis
    using d(1,2,4) by (intro calls_ok_step [OF assms(1)]) (auto split: if_splits intro!: pc_ok_drop d(3))
qed

lemma calls_ok_compute:
  assumes "calls_ok L cfg S" and "cs_pend S i = Some (q, k, Computing)"
    and "\<And>e. fst res = Some e \<Longrightarrow> made_for L cfg S k e"
  shows "calls_ok L cfg (S\<lparr>cs_call := (cs_call S)(i \<mapsto> (k, Some res)), cs_pend := (cs_pend S)(i \<mapsto> (q, k, Unregistering))\<rparr>)"
proof -
  note d = calls_okD [OF assms(1)]
  have i: "cs_group S k = Some i" "cs_call S i = Some (k, None)" using d(3) [OF assms(2)] by simp_all
  show ?thesis
  proof (rule calls_ok_step [OF assms(1)], goal_cases)
    case (3 c k' e x)
    then show ?case using assms(3) by (auto split: if_splits)
  next
    case (4 j q' k' p)
    then show ?case
      using d(2) assms(2) i by (cases "j = i") (auto intro!: pc_ok_result d(3))
  next
    case (5 k' c)
    then show ?case using d(4) i by fastforce
  qed simp_all
qed

text \<open>A step that leaves the store alone.\<close>

lemma cache_inv_extends:
  assumes "cache_inv L C cfg view ok S" and "extends S S' new"
    and "cs_store S' = cs_store S" "cs_st S \<le> cs_st S'" and "calls_ok L cfg S'"
    and "\<And>q e kind t. Served q e kind t \<in> set new \<Longrightarrow> (\<exists>k. buildCacheKey L cfg q = Inr k \<and> made_for L cfg S' k e) \<and>
      (kind = Fresh \<longrightarrow> t \<le> ce_FreshUntil e) \<and> (kind = Stale \<longrightarrow> 0 < hc_StaleWhileRevalidate cfg \<and> t < ce_StaleUntil e)"
  shows "cache_inv L C cfg view ok S'"
  using assms(1,3-5) extends_store [OF _ assms(2)] extends_served [OF _ assms(2,6)]
  unfolding cache_inv_def by simp

lemma calls_ok_log:
  assumes "calls_ok L cfg S" and "cs_now S \<le> t"
  shows "calls_ok L cfg (S\<lparr>cs_store := s, cs_now := t, cs_log := cs_log S @ new\<rparr>)"
  by (rule extends_calls [OF assms(1), of _ new]) (simp_all add: extends_def assms(2))

text \<open>The steps that do not call the store.\<close>

lemma group_step_inv:
  assumes "cache_inv L C cfg view ok S"
  shows "cs_pend S i = Some (q, k, AtDo) \<Longrightarrow> cs_group S k = None \<Longrightarrow>
      cache_inv L C cfg view ok (S\<lparr>cs_group := (cs_group S)(k \<mapsto> i), cs_call := (cs_call S)(i \<mapsto> (k, None)),
        cs_pend := (cs_pend S)(i \<mapsto> (q, k, Computing))\<rparr>)"
    and "cs_pend S i = Some (q, k, AtDo) \<Longrightarrow> cs_group S k = Some c \<Longrightarrow>
      cache_inv L C cfg view ok (S\<lparr>cs_pend := (cs_pend S)(i \<mapsto> (q, k, Waiting c))\<rparr>)"
    and "cs_pend S i = Some (q, k, Unregistering) \<Longrightarrow>
      cache_inv L C cfg view ok (S\<lparr>cs_group := (cs_group S)(k := None), cs_pend := (cs_pend S)(i := None)\<rparr>)"
    and "cache_inv L C cfg view ok (S\<lparr>cs_log := cs_log S @ [Ran q], cs_pend := (cs_pend S)(i := None)\<rparr>)"
proof -
  have c: "calls_ok L cfg S" using assms by (simp add: cache_inv_def)
  note keep = cache_inv_extends [OF assms, of _ "[]"] and log = calls_ok_log [OF c order_refl, where s = "cs_store S" and new = "[Ran q]"]
  show "cs_pend S i = Some (q, k, AtDo) \<Longrightarrow> cs_group S k = None \<Longrightarrow>
      cache_inv L C cfg view ok (S\<lparr>cs_group := (cs_group S)(k \<mapsto> i), cs_call := (cs_call S)(i \<mapsto> (k, None)),
        cs_pend := (cs_pend S)(i \<mapsto> (q, k, Computing))\<rparr>)"
    by (rule keep) (simp_all add: extends_def calls_ok_lead [OF c])
  show "cs_pend S i = Some (q, k, AtDo) \<Longrightarrow> cs_group S k = Some c \<Longrightarrow>
      cache_inv L C cfg view ok (S\<lparr>cs_pend := (cs_pend S)(i \<mapsto> (q, k, Waiting c))\<rparr>)"
    by (rule keep) (simp_all add: extends_def calls_ok_join [OF c])
  show "cs_pend S i = Some (q, k, Unregistering) \<Longrightarrow>
      cache_inv L C cfg view ok (S\<lparr>cs_group := (cs_group S)(k := None), cs_pend := (cs_pend S)(i := None)\<rparr>)"
    by (rule keep) (simp_all add: extends_def calls_ok_unregister [OF c])
  show "cache_inv L C cfg view ok (S\<lparr>cs_log := cs_log S @ [Ran q], cs_pend := (cs_pend S)(i := None)\<rparr>)"
    using calls_ok_leave [OF log, of i] by (intro cache_inv_extends [OF assms, of _ "[Ran q]"]) (simp_all add: extends_def)
qed

lemma wake_inv:
  assumes "cache_inv L C cfg view ok S" and "cs_pend S i = Some (q, k, Waiting c)" and "cs_call S c = Some (k', Some res)"
  shows "cache_inv L C cfg view ok (S\<lparr>cs_log := cs_log S @ awakened q (cs_now S) res, cs_pend := (cs_pend S)(i := None)\<rparr>)"
    (is "cache_inv L C cfg view ok ?S'")
proof -
  let ?new = "awakened q (cs_now S) res"
  have c: "calls_ok L cfg S" using assms(1) by (simp add: cache_inv_def)
  have e: "extends S ?S' ?new" by (simp add: extends_def)
  have key: "buildCacheKey L cfg q = Inr k" "k' = k"
    using calls_okD(2) [OF c assms(2)] calls_okD(3) [OF c assms(2)] assms(3) by auto
  have m: "made_for L cfg ?S' k en" if "res = (Some en, None)" for en
    using calls_okD(1) [OF c, of c k en None] assms(3) key(2) that extends_made [OF e] by simp
  have "calls_ok L cfg ?S'"
    using calls_ok_leave [OF calls_ok_log [OF c order_refl, where s = "cs_store S" and new = ?new], of i] by simp
  then show ?thesis
    using key(1) m by (intro cache_inv_extends [OF assms(1) e]) (auto simp: awakened_def split: option.splits prod.splits)
qed

context http_cache
begin

lemma arrive_inv:
  assumes inv: "cache_inv L C cfg view ok S" and "cs_call S i = None"
    and a: "cache_arrive L C cfg load net fl (cs_now S) (cs_st S) q (cs_store S) = (a, s')"
  shows "cache_inv L C cfg view ok (after_arrival i q a (S\<lparr>cs_store := s'\<rparr>))" (is "cache_inv L C cfg view ok ?S'")
proof -
  have c: "calls_ok L cfg S" and o: "ok (cs_store S)" and st: "store_ok L C cfg view S" and sv: "served_ok L cfg S"
    using inv by (simp_all add: cache_inv_def)
  note ae = arrive_entry [OF o a]
  let ?new = "case a of PassOn _ \<Rightarrow> [Ran q] | Serve e fresh \<Rightarrow> [Served q e (if fresh then Fresh else Stale) (cs_now S)] | Enter k \<Rightarrow> []"
  have e: "extends S ?S' ?new" by (cases a) (simp_all add: extends_def after_arrival_def)
  have same: "cs_store ?S' = s'" "cs_st ?S' = cs_st S" by (cases a; simp add: after_arrival_def)+
  have "calls_ok L cfg ?S'"
  proof (cases a)
    case (Enter k)
    then show ?thesis
      using calls_ok_enter [OF calls_ok_log [OF c order_refl, where s = s' and new = "[]"], of i q k] assms(2) ae(3) by (simp add: after_arrival_def)
  qed (use calls_ok_log [OF c order_refl, where s = s' and new = ?new] in \<open>simp_all add: after_arrival_def\<close>)
  moreover have "store_ok L C cfg view ?S'" by (rule extends_store [OF st e]) (simp_all add: same ae(2))
  moreover have "served_ok L cfg ?S'"
  proof (rule extends_served [OF sv e])
    fix q' en kind t
    assume "Served q' en kind t \<in> set ?new"
    then obtain fresh where s: "a = Serve en fresh" "q' = q" "t = cs_now S" "kind = (if fresh then Fresh else Stale)"
      by (cases a) auto
    obtain k d x where k: "buildCacheKey L cfg q = Inr k" "alive (cs_st S) (view (cs_store S)) k = Some (d, x)" "c_Unmarshal C d = Inr en"
        "if fresh then cs_now S \<le> ce_FreshUntil en else 0 < hc_StaleWhileRevalidate cfg \<and> cs_now S < ce_StaleUntil en"
      using ae(4) [OF s(1)] by blast
    have "made_for L cfg ?S' k en" using st k(2,3) extends_made [OF e] unfolding store_ok_def by fastforce
    with k s show "(\<exists>k. buildCacheKey L cfg q' = Inr k \<and> made_for L cfg ?S' k en) \<and>
      (kind = Fresh \<longrightarrow> t \<le> ce_FreshUntil en) \<and> (kind = Stale \<longrightarrow> 0 < hc_StaleWhileRevalidate cfg \<and> t < ce_StaleUntil en)"
      by (auto split: if_splits)
  qed
  ultimately show ?thesis using ae(1) same by (simp add: cache_inv_def)
qed

lemma compute_store:
  assumes st: "store_ok L C cfg view S" and e: "extends S S' new" and "cs_st S' = cs_st S"
    and d: "c_Unmarshal C d = Inr en" "view (cs_store S') = spec_save span (cs_st S) k d ttl (view (cs_store S))"
    and m: "made_for L cfg S' k en"
  shows "store_ok L C cfg view S'"
  unfolding store_ok_def
proof (intro allI impI)
  fix k' d' x
  assume a: "alive (cs_st S') (view (cs_store S')) k' = Some (d', x)"
  show "\<exists>e. c_Unmarshal C d' = Inr e \<and> made_for L cfg S' k' e"
  proof (cases "k' = k")
    case True
    with a d m assms(3) show ?thesis by (auto simp: spec_save_def split: if_splits)
  next
    case False
    with a d assms(3) have "alive (cs_st S) (view (cs_store S)) k' = Some (d', x)" by (simp add: spec_save_def)
    then show ?thesis using st extends_made [OF e] unfolding store_ok_def by blast
  qed
qed

lemma compute_inv:
  assumes inv: "cache_inv L C cfg view ok S" and "0 < hc_TTL cfg" and pend: "cs_pend S i = Some (q, k, Computing)" and "cs_now S \<le> t2"
    and run: "computeAndStore L C cfg save net k (cs_now S) t2 (cs_st S) out (cs_store S) = (res, s')"
  shows "cache_inv L C cfg view ok (S\<lparr>cs_store := s', cs_now := t2, cs_log := cs_log S @ computed q (cs_now S) res,
      cs_call := (cs_call S)(i \<mapsto> (k, Some res)), cs_pend := (cs_pend S)(i \<mapsto> (q, k, Unregistering))\<rparr>)"
    (is "cache_inv L C cfg view ok ?S'")
proof -
  let ?new = "computed q (cs_now S) res"
  have c: "calls_ok L cfg S" and o: "ok (cs_store S)" and st: "store_ok L C cfg view S" and sv: "served_ok L cfg S"
    using inv by (simp_all add: cache_inv_def)
  note ce = compute_entry [OF o assms(2) run]
  have e: "extends S ?S' ?new" using assms(4) by (simp add: extends_def)
  have m: "made_for L cfg ?S' k en" if "fst res = Some en" for en
    using ce that calls_okD(2) [OF c pend] assms(4) by (auto simp: made_for_def computed_def)
  have "calls_ok L cfg ?S'"
    using calls_ok_compute [OF calls_ok_log [OF c assms(4), where s = s' and new = ?new], of i q k res] pend m by (simp add: made_for_def)
  moreover have "served_ok L cfg ?S'"
    by (rule extends_served [OF sv e]) (auto simp: computed_def split: option.splits)
  moreover have "store_ok L C cfg view ?S'"
  proof (cases "fst res")
    case None
    with ce show ?thesis by (intro extends_store [OF st e]) auto
  next
    case (Some en)
    with ce obtain d where "c_Unmarshal C d = Inr en" "view s' = spec_save span (cs_st S) k d (store_ttl cfg) (view (cs_store S))" by auto
    then show ?thesis using m [OF Some] by (intro compute_store [OF st e]) simp_all
  qed
  ultimately show ?thesis using ce by (simp add: cache_inv_def)
qed

lemma cache_step_inv:
  assumes "cache_step L C cfg load save S S'" and inv: "cache_inv L C cfg view ok S" and ttl: "0 < hc_TTL cfg"
  shows "cache_inv L C cfg view ok S'"
  using assms(1)
proof cases
  case (tick t u)
  have "calls_ok L cfg S'"
    using inv tick by (intro extends_calls [of L cfg S S' "[]"]) (simp_all add: cache_inv_def extends_def)
  then show ?thesis using tick by (intro cache_inv_extends [OF inv, of _ "[]"]) (simp_all add: extends_def)
next
  case arrive
  then show ?thesis using arrive_inv [OF inv] by blast
next
  case compute
  then show ?thesis using compute_inv [OF inv ttl] by blast
next
  case wake
  then show ?thesis using wake_inv [OF inv] by blast
qed (use group_step_inv [OF inv] in blast)+

lemma cache_steps_inv:
  assumes "cache_steps L C cfg load save S0 S" and "cache_start view S0" "ok (cs_store S0)" and "0 < hc_TTL cfg"
  shows "cache_inv L C cfg view ok S"
  using assms(1)
proof (induction rule: rtranclp_induct)
  case base
  then show ?case using assms(2,3) by (simp add: cache_inv_def cache_start_def store_ok_def calls_ok_def served_ok_def)
next
  case (step S S')
  then show ?case using cache_step_inv assms(4) by blast
qed

end

section \<open>The stores\<close>

text \<open>Over the cache in memory and over Redis, with any codec that decodes what it encodes.\<close>

definition entry_codec :: "cache_entry codec \<Rightarrow> bool" where
  "entry_codec C \<longleftrightarrow> (\<forall>e d. c_Marshal C e = Inr d \<longrightarrow> c_Unmarshal C d = Inr e)"

lemma memory_http_cache:
  assumes "entry_codec C"
  shows "http_cache cache_memory_Get cache_memory_Set cache_memory_Delete memory_entries
    (\<lambda>ttl. Some ((if ttl \<le> 0 then second else ttl) + 1)) (\<lambda>_ _. True) (\<lambda>_. True) C"
  using assms cm.expiring_store_axioms by (simp add: http_cache_def http_cache_axioms_def entry_codec_def)

context redis_cache
begin

lemma redis_http_cache:
  assumes "entry_codec C"
  shows "http_cache (cache_redis_Get R prefix None) (cache_redis_Set R prefix None) (cache_redis_Delete R prefix None)
    (redis_entries V raw_codec prefix) redis_span (encodes raw_codec) (\<lambda>_. True) C"
  using assms cac.expiring_store_axioms by (auto simp: http_cache_def http_cache_axioms_def entry_codec_def)

end

text \<open>A codec for entries with a fixed header, to see the stores at work.\<close>

definition sample_header :: mheader where
  "sample_header = [''Etag'' \<mapsto> [''v1''], ''Cache-Control'' \<mapsto> [''public'']]"

definition sample_codec :: "cache_entry codec" where
  "sample_codec = \<lparr>c_Marshal = (\<lambda>e.
       if ce_Headers e = sample_header \<and> ce_StatusCode e = 200 \<and> ce_ETag e = ''v1'' \<and> fits64 (ce_FreshUntil e) \<and> fits64 (ce_StaleUntil e)
       then Inr (itoa (ce_FreshUntil e) @ '','' @ itoa (ce_StaleUntil e) @ '','' @ ce_Body e) else Inl (ENew ''unsupported'')),
     c_Unmarshal = (\<lambda>d. case cut_at (CHR '','') d of (a, r) \<Rightarrow> (case cut_at (CHR '','') r of (b, body) \<Rightarrow>
       (case (parse_int a, parse_int b) of
          (Some x, Some y) \<Rightarrow> Inr \<lparr>ce_StatusCode = 200, ce_Headers = sample_header, ce_Body = body, ce_ETag = ''v1'',
            ce_FreshUntil = x, ce_StaleUntil = y\<rparr>
        | _ \<Rightarrow> Inl (ENew ''syntax''))))\<rparr>"

lemma itoa_no_comma: "CHR '','' \<notin> set (itoa n)"
proof
  assume "CHR '','' \<in> set (itoa n)"
  then have "CHR '','' = CHR ''-'' \<or> is_digit CHR '',''" using itoa_chars by blast
  then show False by (simp add: is_digit_def)
qed

lemma sample_codec_ok: "entry_codec sample_codec"
  unfolding entry_codec_def
proof (intro allI impI)
  fix e d
  assume "c_Marshal sample_codec e = Inr d"
  then have e: "ce_Headers e = sample_header" "ce_StatusCode e = 200" "ce_ETag e = ''v1''" "fits64 (ce_FreshUntil e)" "fits64 (ce_StaleUntil e)"
    and d: "d = itoa (ce_FreshUntil e) @ CHR '','' # itoa (ce_StaleUntil e) @ CHR '','' # ce_Body e"
    by (auto simp: sample_codec_def split: if_splits)
  then show "c_Unmarshal sample_codec d = Inr e"
    unfolding d by (cases e) (simp add: sample_codec_def cut_at_append [OF itoa_no_comma])
qed

interpretation mem_cache: http_cache cache_memory_Get cache_memory_Set cache_memory_Delete memory_entries
  "\<lambda>ttl. Some ((if ttl \<le> 0 then second else ttl) + 1)" "\<lambda>_ _. True" "\<lambda>_. True" sample_codec
  by (rule memory_http_cache [OF sample_codec_ok])

interpretation red_cache: http_cache "cache_redis_Get memory_redis ''http-cache'' None" "cache_redis_Set memory_redis ''http-cache'' None"
  "cache_redis_Delete memory_redis ''http-cache'' None" "redis_entries memory_view raw_codec ''http-cache''" redis_span
  "encodes raw_codec" "\<lambda>_. True" sample_codec
  by (rule mcac.redis_http_cache [OF sample_codec_ok])

section \<open>What a client is served\<close>

lemma cache_New_ttl: "cache_New cfg0 = Inr cfg \<Longrightarrow> 0 < hc_TTL cfg"
  by (auto simp: cache_New_def cache_normalizeConfig_def Let_def duration_units split: option.splits)

text \<open>
  C8. A cached response belongs to the request.  In every interleaving of concurrent requests over a
  store that keeps its contract, each response that is served from an entry (a hit, a stale answer, or
  the shared result of a concurrent request) was produced by the handler for an earlier request with
  the same key, and a hit is not older than the configured TTL.  When every key rule is required,
  that request had the same method, the same path and the same value of every rule: the same tenant,
  subject or scopes when the rules name them.
\<close>

theorem cache_serves_own:
  assumes "http_cache load save delete view span storable ok C" and "cache_New cfg0 = Inr cfg"
    and "cache_steps L C cfg load save S0 S" and "cache_start view S0" and "ok (cs_store S0)"
    and "Served q e kind t \<in> set (cs_log S)"
  shows "\<exists>q0 t0. Made q0 e t0 \<in> set (cs_log S) \<and> buildCacheKey L cfg q0 = buildCacheKey L cfg q \<and>
    (kind = Fresh \<longrightarrow> t \<le> t0 + hc_TTL cfg) \<and>
    (hc_KeyRules cfg \<noteq> [] \<and> (\<forall>r \<in> set (hc_KeyRules cfg). \<not> kr_Optional r) \<and> CHR '':'' \<notin> set (cq_Method q0) \<and> CHR '':'' \<notin> set (cq_Method q) \<longrightarrow>
      to_upper (cq_Method q0) = to_upper (cq_Method q) \<and> cq_Path q0 = cq_Path q \<and>
      (\<forall>r \<in> set (hc_KeyRules cfg). resolveRuleValue L q0 r = resolveRuleValue L q r \<and> resolveRuleValue L q0 r \<noteq> None))"
proof -
  have "served_ok L cfg S"
    using http_cache.cache_steps_inv [OF assms(1,3-5) cache_New_ttl [OF assms(2)]] by (simp add: cache_inv_def)
  then obtain k where k: "buildCacheKey L cfg q = Inr k" "made_for L cfg S k e" and f: "kind = Fresh \<longrightarrow> t \<le> ce_FreshUntil e"
    using assms(6) unfolding served_ok_def by blast
  then obtain q0 t0 where "Made q0 e t0 \<in> set (cs_log S)" "buildCacheKey L cfg q0 = Inr k" "ce_FreshUntil e = t0 + hc_TTL cfg"
    unfolding made_for_def by blast
  note made = this
  have "hc_KeyRules cfg \<noteq> [] \<and> (\<forall>r \<in> set (hc_KeyRules cfg). \<not> kr_Optional r) \<and> CHR '':'' \<notin> set (cq_Method q0) \<and> CHR '':'' \<notin> set (cq_Method q) \<longrightarrow>
      to_upper (cq_Method q0) = to_upper (cq_Method q) \<and> cq_Path q0 = cq_Path q \<and>
      (\<forall>r \<in> set (hc_KeyRules cfg). resolveRuleValue L q0 r = resolveRuleValue L q r \<and> resolveRuleValue L q0 r \<noteq> None)"
    using buildCacheKey_inj [OF _ _ made(2) k(1)] by blast
  note same = this
  show ?thesis
    by (intro exI [of _ q0] exI [of _ t0] conjI) (rule made(1), simp add: made(2) k(1), use f made(3) in simp, rule same)
qed

definition sample_lib :: cache_lib where
  "sample_lib = \<lparr>lb_sha = (\<lambda>s. s), lb_show = (\<lambda>_. [])\<rparr>"

definition tenant_config :: cache_config where
  "tenant_config = cache_DefaultConfig\<lparr>hc_Enabled := True, hc_Store := True, hc_Sensitive := True,
     hc_KeyRules := [\<lparr>kr_Source = KeySourceSubject, kr_Key = [], kr_Value = [], kr_Name = [], kr_Optional = False\<rparr>,
       \<lparr>kr_Source = KeySourceTenant, kr_Key = [], kr_Value = [], kr_Name = [], kr_Optional = False\<rparr>]\<rparr>"

definition acme :: cache_request where
  "acme = cache_get ''/a'' (Some (tenant_claims ''acme''))"

definition hello :: handled where
  "hello = \<lparr>hd_err = None, hd_ops = [WriteBytes ''hello''], hd_header = sample_header\<rparr>"

definition hello_entry :: cache_entry where
  "hello_entry = \<lparr>ce_StatusCode = 200, ce_Headers = sample_header, ce_Body = ''hello'', ce_ETag = ''v1'',
     ce_FreshUntil = 30 * second, ce_StaleUntil = 30 * second\<rparr>"

definition acme_key :: string where
  "acme_key = ''http-cache:method=GET:path=/a:subject=u:tenant=acme''"

lemma acme_eval:
  "cache_New tenant_config = Inr tenant_config"
  "buildCacheKey sample_lib tenant_config acme = Inr acme_key"
  "shouldBypass tenant_config acme = False"
  "to_upper (trim_space (cq_Method acme)) = ''GET''"
  by code_simp+

lemma header_names:
  "header_name ''Connection'' = ''Connection''" "header_name ''Keep-Alive'' = ''Keep-Alive''" "header_name ''Proxy-Authenticate'' = ''Proxy-Authenticate''"
  "header_name ''Proxy-Authorization'' = ''Proxy-Authorization''" "header_name ''Te'' = ''Te''" "header_name ''Trailer'' = ''Trailer''"
  "header_name ''Transfer-Encoding'' = ''Transfer-Encoding''" "header_name ''Upgrade'' = ''Upgrade''" "header_name ''Set-Cookie'' = ''Set-Cookie''"
  "header_name ''Date'' = ''Date''" "header_name ''Content-Length'' = ''Content-Length''" "header_name ''ETag'' = ''Etag''"
  "header_name ''Cache-Control'' = ''Cache-Control''" "header_name ''Vary'' = ''Vary''" "header_name ''X-Cache'' = ''X-Cache''"
  by code_simp+

lemma hello_entry_of: "cache_entry_of (lb_sha sample_lib) tenant_config 0 0 hello = Some hello_entry"
proof -
  have f: "filterHeaders sample_header = sample_header"
    by (auto simp: filterHeaders_def dropped_headers_def mh_del_def header_names sample_header_def fun_eq_iff)
  have g: "trim_space (mh_get sample_header ''ETag'') = ''v1''" "blank (mh_get sample_header ''Cache-Control'') = False"
    by code_simp+
  have w: "capture_Status (capture_all [WriteBytes ''hello'']) = 200" "cw_body (capture_all [WriteBytes ''hello'']) = ''hello''"
    by (simp_all add: capture_all_def capture_step_def capture_Write_def capture_WriteHeader_def capture_Status_def)
  show ?thesis
    by (simp add: cache_entry_of_def hello_def f g w hello_entry_def cache_applyVary_def tenant_config_def cache_DefaultConfig_def
        Let_def duration_units fits64_def)
qed

definition cache_idle :: "string sessions cache_state" where
  "cache_idle = \<lparr>cs_store = Map.empty, cs_now = 0, cs_st = 0, cs_group = Map.empty, cs_call = Map.empty, cs_pend = Map.empty, cs_log = []\<rparr>"

abbreviation acme_step :: "string sessions cache_state \<Rightarrow> string sessions cache_state \<Rightarrow> bool" where
  "acme_step \<equiv> cache_step sample_lib sample_codec tenant_config cache_memory_Get cache_memory_Set"

text \<open>A request arrives at an empty cache and leads, computes and leaves; the next one is a hit.\<close>

lemma acme_run:
  "\<exists>S. acme_step\<^sup>*\<^sup>* cache_idle S \<and> cs_log S = [Ran acme, Made acme hello_entry 0, Served acme hello_entry Fresh 0]"
proof -
  obtain raw where raw: "c_Marshal sample_codec hello_entry = Inr raw"
    by (simp add: sample_codec_def hello_entry_def fits64_def duration_units)
  have un: "c_Unmarshal sample_codec raw = Inr hello_entry" using sample_codec_ok raw by (simp add: entry_codec_def)
  let ?store = "[acme_key \<mapsto> \<lparr>me_data = raw, me_expiresAt = 30 * second\<rparr>]"
  have ok: "hd_err hello = None" by (simp add: hello_def)
  have en: "hc_Enabled tenant_config" "hc_Store tenant_config" "hc_StaleWhileRevalidate tenant_config = 0" "store_ttl tenant_config = 30 * second"
    by (simp_all add: tenant_config_def cache_DefaultConfig_def store_ttl_def Let_def duration_units fits64_def)
  have a1: "cache_arrive sample_lib sample_codec tenant_config cache_memory_Get None False 0 0 acme Map.empty = (Enter acme_key, Map.empty)"
    by (simp add: cache_arrive_def acme_eval en cache_load_def cache_memory_Get_def memory_Load_def memory_read_def)
  have c: "computeAndStore sample_lib sample_codec tenant_config cache_memory_Set None acme_key 0 0 0 hello Map.empty = ((Some hello_entry, None), ?store)"
    using raw by (simp add: computeAndStore_def hello_entry_of en cache_memory_Set_def duration_units ok)
  have a2: "cache_arrive sample_lib sample_codec tenant_config cache_memory_Get None False 0 0 acme ?store = (Serve hello_entry True, ?store)"
    by (simp add: cache_arrive_def acme_eval en cache_load_def cache_memory_Get_def memory_Load_def memory_read_def un duration_units hello_entry_def)
  let ?S1 = "after_arrival 0 acme (Enter acme_key) (cache_idle\<lparr>cs_store := Map.empty\<rparr>)"
  let ?S2 = "?S1\<lparr>cs_group := (cs_group ?S1)(acme_key \<mapsto> 0), cs_call := (cs_call ?S1)(0 \<mapsto> (acme_key, None)),
      cs_pend := (cs_pend ?S1)(0 \<mapsto> (acme, acme_key, Computing))\<rparr>"
  let ?S3 = "?S2\<lparr>cs_store := ?store, cs_now := 0, cs_log := cs_log ?S2 @ computed acme (cs_now ?S2) (Some hello_entry, None),
      cs_call := (cs_call ?S2)(0 \<mapsto> (acme_key, Some (Some hello_entry, None))), cs_pend := (cs_pend ?S2)(0 \<mapsto> (acme, acme_key, Unregistering))\<rparr>"
  let ?S4 = "?S3\<lparr>cs_group := (cs_group ?S3)(acme_key := None), cs_pend := (cs_pend ?S3)(0 := None)\<rparr>"
  let ?S5 = "after_arrival 1 acme (Serve hello_entry True) (?S4\<lparr>cs_store := ?store\<rparr>)"
  have "acme_step cache_idle ?S1"
    by (rule cache_step.arrive [where net = None and fl = False]) (simp_all add: cache_idle_def a1)
  moreover have "acme_step ?S1 ?S2"
    by (rule cache_step.lead) (simp_all add: cache_idle_def after_arrival_def)
  moreover have "acme_step ?S2 ?S3"
    by (rule cache_step.compute [where net = None and out = hello]) (simp_all add: cache_idle_def after_arrival_def c)
  moreover have "acme_step ?S3 ?S4"
    by (rule cache_step.unregister) simp
  moreover have "acme_step ?S4 ?S5"
    by (rule cache_step.arrive [where net = None and fl = False]) (simp_all add: cache_idle_def after_arrival_def a2)
  ultimately have "acme_step\<^sup>*\<^sup>* cache_idle ?S5" by (meson rtranclp.rtrancl_into_rtrancl rtranclp.rtrancl_refl)
  moreover have "cs_log ?S5 = [Ran acme, Made acme hello_entry 0, Served acme hello_entry Fresh 0]"
    by (simp add: cache_idle_def after_arrival_def computed_def)
  ultimately show ?thesis by blast
qed

theorem cache_serves_own_witness:
  "\<exists>S q0. acme_step\<^sup>*\<^sup>* cache_idle S \<and> Served acme hello_entry Fresh 0 \<in> set (cs_log S) \<and> Made q0 hello_entry 0 \<in> set (cs_log S) \<and>
     resolveRuleValue sample_lib q0 \<lparr>kr_Source = KeySourceTenant, kr_Key = [], kr_Value = [], kr_Name = [], kr_Optional = False\<rparr> = Some ''acme''"
proof -
  let ?r = "\<lparr>kr_Source = KeySourceTenant, kr_Key = [], kr_Value = [], kr_Name = [], kr_Optional = False\<rparr>"
  obtain S where S: "acme_step\<^sup>*\<^sup>* cache_idle S" "cs_log S = [Ran acme, Made acme hello_entry 0, Served acme hello_entry Fresh 0]"
    using acme_run by blast
  have st: "cache_start memory_entries cache_idle"
    by (auto simp: cache_start_def cache_idle_def alive_def memory_entries_def)
  have r: "?r \<in> set (hc_KeyRules tenant_config)" "hc_KeyRules tenant_config \<noteq> []" "\<forall>r \<in> set (hc_KeyRules tenant_config). \<not> kr_Optional r"
    by (simp_all add: tenant_config_def)
  have m: "CHR '':'' \<notin> set (cq_Method acme)" "resolveRuleValue sample_lib acme ?r = Some ''acme''"
    by code_simp+
  obtain q0 t0 where q0: "Made q0 hello_entry t0 \<in> set (cs_log S)"
      "hc_KeyRules tenant_config \<noteq> [] \<and> (\<forall>r \<in> set (hc_KeyRules tenant_config). \<not> kr_Optional r) \<and> CHR '':'' \<notin> set (cq_Method q0) \<and> CHR '':'' \<notin> set (cq_Method acme) \<longrightarrow>
      to_upper (cq_Method q0) = to_upper (cq_Method acme) \<and> cq_Path q0 = cq_Path acme \<and>
      (\<forall>r \<in> set (hc_KeyRules tenant_config). resolveRuleValue sample_lib q0 r = resolveRuleValue sample_lib acme r \<and> resolveRuleValue sample_lib q0 r \<noteq> None)"
    using cache_serves_own [OF mem_cache.http_cache_axioms acme_eval(1) S(1) st TrueI, of acme hello_entry Fresh 0] S(2) by auto
  then have "q0 = acme" "t0 = 0" using S(2) by auto
  then show ?thesis using q0 S r m by auto
qed

text \<open>
  C9. Protection against stampedes.  In every interleaving of concurrent requests at most one of them
  computes the entry of a key, and every request that waits for a call waits for one of its own key,
  so what it is served in the end is the result for its key.
\<close>

theorem cache_single_flight:
  assumes "http_cache load save delete view span storable ok C" and "cache_New cfg0 = Inr cfg"
    and "cache_steps L C cfg load save S0 S" and "cache_start view S0" and "ok (cs_store S0)"
    and "cs_pend S i = Some (q, k, Computing)"
  shows "buildCacheKey L cfg q = Inr k \<and>
    (\<forall>j q'. cs_pend S j = Some (q', k, Computing) \<longrightarrow> j = i) \<and>
    (\<forall>j q' k'. cs_pend S j = Some (q', k', Waiting i) \<longrightarrow> k' = k \<and> buildCacheKey L cfg q' = Inr k)"
proof -
  have c: "calls_ok L cfg S"
    using http_cache.cache_steps_inv [OF assms(1,3-5) cache_New_ttl [OF assms(2)]] by (simp add: cache_inv_def)
  have i: "cs_group S k = Some i" "cs_call S i = Some (k, None)"
    using calls_okD(3) [OF c assms(6)] by simp_all
  have "j = i" if "cs_pend S j = Some (q', k, Computing)" for j q'
    using calls_okD(3) [OF c that] i by simp
  moreover have "k' = k \<and> buildCacheKey L cfg q' = Inr k" if "cs_pend S j = Some (q', k', Waiting i)" for j q' k'
    using calls_okD(2,3) [OF c that] i by auto
  ultimately show ?thesis using calls_okD(2) [OF c assms(6)] by blast
qed

theorem cache_single_flight_witness:
  "\<exists>S. acme_step\<^sup>*\<^sup>* cache_idle S \<and> cs_pend S 0 = Some (acme, acme_key, Computing) \<and>
     (\<forall>j q'. cs_pend S j = Some (q', acme_key, Computing) \<longrightarrow> j = 0)"
proof -
  let ?S1 = "cache_idle\<lparr>cs_pend := [0 \<mapsto> (acme, acme_key, AtDo)]\<rparr>"
  let ?S2 = "?S1\<lparr>cs_group := (cs_group ?S1)(acme_key \<mapsto> 0), cs_call := (cs_call ?S1)(0 \<mapsto> (acme_key, None)),
      cs_pend := (cs_pend ?S1)(0 \<mapsto> (acme, acme_key, Computing))\<rparr>"
  have "acme_step cache_idle (after_arrival 0 acme (Enter acme_key) (cache_idle\<lparr>cs_store := Map.empty\<rparr>))"
    by (rule cache_step.arrive [where net = "Some (ENew ''down'')" and fl = False])
      (simp_all add: cache_idle_def cache_arrive_def acme_eval cache_load_def tenant_config_def [THEN arg_cong, of hc_Enabled]
        tenant_config_def [THEN arg_cong, of hc_Store])
  then have "acme_step cache_idle ?S1" by (simp add: after_arrival_def cache_idle_def)
  moreover have "acme_step ?S1 ?S2" by (rule cache_step.lead) (simp_all add: cache_idle_def)
  ultimately have r: "acme_step\<^sup>*\<^sup>* cache_idle ?S2" by (meson rtranclp.rtrancl_into_rtrancl rtranclp.rtrancl_refl)
  have st: "cache_start memory_entries cache_idle"
    by (auto simp: cache_start_def cache_idle_def alive_def memory_entries_def)
  have p: "cs_pend ?S2 0 = Some (acme, acme_key, Computing)" by simp
  show ?thesis
    using cache_single_flight [OF mem_cache.http_cache_axioms acme_eval(1) r st TrueI p] r p by blast
qed

text \<open>
  After a handler has panicked its call stays registered and unfinished for ever: whoever waits for it
  waits for ever, and so does every later request for the key that has to compute.
\<close>

definition blocked :: "string \<Rightarrow> nat \<Rightarrow> 's cache_state \<Rightarrow> bool" where
  "blocked k c S \<longleftrightarrow> cs_group S k = Some c \<and> cs_call S c = Some (k, None) \<and> cs_pend S c = None"

lemma blocked_step:
  assumes "cache_step L C cfg load save S S'" and "blocked k c S" and "calls_ok L cfg S"
  shows "blocked k c S' \<and> (cs_pend S i = Some (q, k, Waiting c) \<longrightarrow> cs_pend S' i = Some (q, k, Waiting c))"
  using assms(1)
proof cases
  case (arrive j net fl q' a s')
  then show ?thesis using assms(2) by (cases a) (auto simp: blocked_def after_arrival_def)
next
  case (unregister j q' k')
  then have "cs_group S k' = Some j" using calls_okD(3) [OF assms(3)] by fastforce
  then show ?thesis using assms(2) unregister by (auto simp: blocked_def)
qed (use assms(2) in \<open>auto simp: blocked_def\<close>)

lemma panic_blocks_key:
  assumes "http_cache load save delete view span storable ok C" and "cache_New cfg0 = Inr cfg"
    and "cache_steps L C cfg load save S0 S" and "cache_start view S0" and "ok (cs_store S0)"
    and "cs_pend S c = Some (q, k, Computing)" and "cs_pend S i = Some (q', k, Waiting c)"
    and "cache_steps L C cfg load save (S\<lparr>cs_log := cs_log S @ [Ran q], cs_pend := (cs_pend S)(c := None)\<rparr>) S'"
  shows "cs_pend S' i = Some (q', k, Waiting c)"
proof -
  let ?P = "S\<lparr>cs_log := cs_log S @ [Ran q], cs_pend := (cs_pend S)(c := None)\<rparr>"
  note inv = http_cache.cache_steps_inv [OF assms(1) _ assms(4,5) cache_New_ttl [OF assms(2)]]
  have reach: "cache_steps L C cfg load save S0 T" if "cache_steps L C cfg load save ?P T" for T
    using assms(3) cache_step.panics [OF assms(6), of L C cfg load save] that
    by (meson rtranclp.rtrancl_into_rtrancl rtranclp_trans)
  have c: "calls_ok L cfg S" using inv [OF assms(3)] by (simp add: cache_inv_def)
  have "blocked k c ?P" "cs_pend ?P i = Some (q', k, Waiting c)"
    using calls_okD(3) [OF c assms(6)] assms(6,7) by (auto simp: blocked_def)
  have "blocked k c S' \<and> cs_pend S' i = Some (q', k, Waiting c)"
    using assms(8)
  proof (induction rule: rtranclp_induct)
    case base
    show ?case using \<open>blocked k c ?P\<close> \<open>cs_pend ?P i = Some (q', k, Waiting c)\<close> by simp
  next
    case (step T T')
    have "calls_ok L cfg T" using inv [OF reach [OF step(1)]] by (simp add: cache_inv_def)
    then show ?case using blocked_step [OF step(2)] step.IH by blast
  qed
  then show ?thesis ..
qed

section \<open>Responses\<close>

text \<open>A served response has the body of the entry, or none for a HEAD request or an entry the client has.\<close>

lemma serveCached_body:
  "sv_Body (serveCached cfg q e state h) =
     (if ifNoneMatchSatisfied q (ce_ETag e) \<or> equal_fold (cq_Method q) ''HEAD'' then [] else ce_Body e)"
  "sv_Status (serveCached cfg q e state h) = (if ifNoneMatchSatisfied q (ce_ETag e) then 304 else ce_StatusCode e)"
  by (simp_all add: serveCached_def Let_def)

lemma capture_body: "cw_body (fold capture_step ops w) = cw_body w @ concat (map (\<lambda>op. case op of WriteHeader _ \<Rightarrow> [] | WriteBytes p \<Rightarrow> p) ops)"
  by (induction ops arbitrary: w)
    (auto simp: capture_step_def capture_Write_def capture_WriteHeader_def Let_def split: write_op.splits)

lemma capture_status_first: "cw_headerWrote w \<Longrightarrow> cw_statusCode (fold capture_step ops w) = cw_statusCode w"
  by (induction ops arbitrary: w)
    (auto simp: capture_step_def capture_Write_def capture_WriteHeader_def Let_def split: write_op.splits)

text \<open>No cookie is stored; but a response the handler marks \<open>no-store\<close> is.\<close>

lemma fold_mh_del: "fold mh_del ks h k = (if k \<in> header_name ` set ks then None else h k)"
  by (induction ks arbitrary: h) (auto simp: mh_del_def)

lemma no_cookie_cached:
  assumes "cache_entry_of sha cfg t1 t2 out = Some e"
  shows "ce_Headers e ''Set-Cookie'' = None"
proof -
  have "''Set-Cookie'' \<in> header_name ` set dropped_headers"
    by (rule image_eqI [of _ _ "''Set-Cookie''"]) (simp_all add: header_names dropped_headers_def)
  then have "filterHeaders (hd_header out) ''Set-Cookie'' = None"
    by (simp add: filterHeaders_def fold_mh_del)
  moreover have "cache_applyVary v h ''Set-Cookie'' = h ''Set-Cookie''" for v h
    by (simp add: cache_applyVary_def mh_set_def header_names Let_def)
  moreover have "mh_set ''ETag'' x h ''Set-Cookie'' = h ''Set-Cookie''" "mh_set ''Cache-Control'' x h ''Set-Cookie'' = h ''Set-Cookie''" for x h
    by (simp_all add: mh_set_def header_names)
  moreover have "(if b then f else g) (x :: string) = (if b then f x else g x)" for b and f g :: mheader and x by simp
  ultimately show ?thesis
    using assms unfolding cache_entry_of_def Let_def by (simp only: split: if_splits) (auto simp only: option.inject cache_entry.simps if_cancel)
qed

lemma no_store_is_cached:
  "cache_entry_of sha tenant_config 0 0 \<lparr>hd_err = None, hd_ops = [WriteBytes ''secret''], hd_header = [''Cache-Control'' \<mapsto> [''no-store'']]\<rparr> \<noteq> None"
  by (simp add: cache_entry_of_def Let_def capture_all_def capture_step_def capture_Write_def capture_WriteHeader_def capture_Status_def)

end
