(* ===== verification/Migrations.thy ===== *)
theory Migrations
  imports Transactions
begin

text \<open>
  Schema migrations, \<^verbatim>\<open>pkg/persistence/relational/migrate\<close>: the reading of the migration files,
  \<^verbatim>\<open>Up\<close>, \<^verbatim>\<open>Down\<close> and \<^verbatim>\<open>Status\<close> of \<^verbatim>\<open>SQLManager\<close> over a database that keeps the contract of
  \<^verbatim>\<open>database/sql\<close> (\<open>sql_ok\<close>), and the command line helper of \<^verbatim>\<open>migrate.go\<close> and \<^verbatim>\<open>sql_runner.go\<close>.
  \<^verbatim>\<open>Up\<close> is shown to refine the plain execution of the pending scripts in increasing order of
  version, each with its record or not at all, and \<^verbatim>\<open>Down\<close> to undo it.
\<close>

section \<open>Migration files\<close>

record migration =
  mg_Version :: int
  mg_Name :: string
  mg_UpSQL :: string
  mg_DownSQL :: string

text \<open>\<^verbatim>\<open>io/fs\<close>: the entries of a directory, with whether each is a directory, and the content of a file.\<close>

record migration_fs =
  fs_ReadDir :: "string \<Rightarrow> (string \<times> bool) list result"
  fs_ReadFile :: "string \<Rightarrow> string result"

definition name_char :: "char \<Rightarrow> bool" where
  "name_char c \<longleftrightarrow> is_digit c \<or> (65 \<le> byte c \<and> byte c \<le> 90) \<or> (97 \<le> byte c \<and> byte c \<le> 122)
     \<or> c = CHR ''_'' \<or> c = CHR ''-''"

text \<open>
  The groups of the pattern \<^verbatim>\<open>^(\d+)_([a-zA-Z0-9_\-]+)\.(up|down)\.sql$\<close>: the character after each
  repeated class is not of the class, so the match takes the longest run of it.
\<close>

definition migrationNamePattern :: "string \<Rightarrow> (string \<times> string \<times> string) option" where
  "migrationNamePattern s =
     (let v = takeWhile is_digit s; r = dropWhile is_digit s in
      if v = [] then None
      else case r of
          [] \<Rightarrow> None
        | c # r' \<Rightarrow>
            (if c \<noteq> CHR ''_'' then None
             else let n = takeWhile name_char r'; t = dropWhile name_char r' in
               if n = [] then None
               else if t = ''.up.sql'' then Some (v, n, ''up'')
               else if t = ''.down.sql'' then Some (v, n, ''down'')
               else None))"

text \<open>The map \<^verbatim>\<open>byVersion\<close>, an association list with one entry a version.\<close>

type_synonym by_version = "(int \<times> (string \<times> string \<times> string)) list"

fun put_direction :: "int \<Rightarrow> string \<Rightarrow> string \<Rightarrow> string \<Rightarrow> by_version \<Rightarrow> by_version" where
  "put_direction v nm dir payload [] =
     [(v, if dir = ''up'' then (nm, payload, []) else (nm, [], payload))]"
| "put_direction v nm dir payload ((w, n, u, d) # ps) =
     (if w = v then (w, if dir = ''up'' then (n, payload, d) else (n, u, payload)) # ps
      else (w, n, u, d) # put_direction v nm dir payload ps)"

fun collect_files :: "migration_fs \<Rightarrow> string \<Rightarrow> (string \<times> bool) list \<Rightarrow> by_version \<Rightarrow> by_version result" where
  "collect_files F dir [] ps = Inr ps"
| "collect_files F dir ((nm, is_dir) # es) ps =
     (if is_dir then collect_files F dir es ps
      else case migrationNamePattern nm of
          None \<Rightarrow> collect_files F dir es ps
        | Some (digits, n, direction) \<Rightarrow>
            (case parse_int digits of
               None \<Rightarrow> Inl (EWrap (''parse migration version '' @ quoted digits @ '': '')
                         (ENew (''strconv.ParseInt: parsing '' @ quoted digits @ '': value out of range'')) [])
             | Some v \<Rightarrow>
                 (case fs_ReadFile F (dir @ ''/'' @ nm) of
                    Inl e \<Rightarrow> Inl (EWrap (''read migration file '' @ quoted nm @ '': '') e [])
                  | Inr payload \<Rightarrow> collect_files F dir es (put_direction v n direction payload ps))))"

fun build_migrations :: "by_version \<Rightarrow> int list \<Rightarrow> migration list result" where
  "build_migrations ps [] = Inr []"
| "build_migrations ps (v # vs) =
     (case map_of ps v of
        None \<Rightarrow> build_migrations ps vs
      | Some (n, u, d) \<Rightarrow>
          (if blank u then Inl (ENew (''missing up migration for version '' @ itoa v))
           else case build_migrations ps vs of
               Inl e \<Rightarrow> Inl e
             | Inr ms \<Rightarrow> Inr (\<lparr>mg_Version = v, mg_Name = n, mg_UpSQL = u, mg_DownSQL = d\<rparr> # ms)))"

definition loadMigrations :: "migration_fs \<Rightarrow> string \<Rightarrow> migration list result" where
  "loadMigrations F dir =
     (case fs_ReadDir F dir of
        Inl e \<Rightarrow> Inl (EWrap ''read migration files: '' e [])
      | Inr es \<Rightarrow>
          (case collect_files F dir es [] of
             Inl e \<Rightarrow> Inl e
           | Inr ps \<Rightarrow> build_migrations ps (sort (map fst ps))))"

text \<open>The handle and the file system may be nil.\<close>

definition NewSQLManager :: "'e option \<Rightarrow> migration_fs option \<Rightarrow> string \<Rightarrow> ('e \<times> migration list) result" where
  "NewSQLManager handle files dir =
     (case handle of
        None \<Rightarrow> Inl (ENew ''database handle is required'')
      | Some h \<Rightarrow>
          (case files of
             None \<Rightarrow> Inl (ENew ''migration files filesystem is required'')
           | Some F \<Rightarrow>
               (if blank dir then Inl (ENew ''migration directory is required'')
                else map_sum (\<lambda>e. e) (Pair h) (loadMigrations F dir))))"

section \<open>The database\<close>

text \<open>
  The schema the scripts work on, and the table \<^verbatim>\<open>schema_migrations\<close>: the versions in the order
  their rows were inserted, or \<open>None\<close> while the table does not exist.
\<close>

record 's mig_db =
  md_schema :: 's
  md_versions :: "int list option"

text \<open>
  The engine: its transactions, the execution of a script, the error a statement of the manager
  gives for reasons outside the tables (a lost connection, an expired context), and the errors of
  a missing table and of a violated primary key.
\<close>

datatype mig_stmt =
  EnsureTable | SelectApplied | SelectAppliedDesc | ScanRow int | IterateRows
| InsertVersion int | DeleteVersion int

record 's mig_engine =
  me_tx :: "'s mig_db sql_engine"
  me_exec :: "string \<Rightarrow> 's mig_db \<Rightarrow> err option \<times> 's mig_db"
  me_fault :: "mig_stmt \<Rightarrow> 's mig_db \<Rightarrow> err option"
  me_missing :: err
  me_duplicate :: err

definition applied_versions :: "'s mig_db \<Rightarrow> int list" where
  "applied_versions db = (case md_versions db of None \<Rightarrow> [] | Some vs \<Rightarrow> vs)"

definition with_table :: "'s mig_db \<Rightarrow> 's mig_db" where
  "with_table db = db\<lparr>md_versions := Some (applied_versions db)\<rparr>"

text \<open>\<^verbatim>\<open>CREATE TABLE IF NOT EXISTS schema_migrations\<close>\<close>

definition ensureMetadataTable :: "'s mig_engine \<Rightarrow> 's mig_db \<Rightarrow> err option \<times> 's mig_db" where
  "ensureMetadataTable E db =
     (case me_fault E EnsureTable db of
        Some e \<Rightarrow> (Some (EWrap ''ensure schema_migrations table: '' e []), db)
      | None \<Rightarrow> (None, with_table db))"

text \<open>\<^verbatim>\<open>INSERT INTO schema_migrations\<close> and \<^verbatim>\<open>DELETE FROM schema_migrations\<close>\<close>

definition insert_version :: "'s mig_engine \<Rightarrow> int \<Rightarrow> 's mig_db \<Rightarrow> err option \<times> 's mig_db" where
  "insert_version E v db =
     (case me_fault E (InsertVersion v) db of
        Some e \<Rightarrow> (Some e, db)
      | None \<Rightarrow>
          (case md_versions db of
             None \<Rightarrow> (Some (me_missing E), db)
           | Some vs \<Rightarrow> (if v \<in> set vs then (Some (me_duplicate E), db)
                        else (None, db\<lparr>md_versions := Some (vs @ [v])\<rparr>))))"

definition delete_version :: "'s mig_engine \<Rightarrow> int \<Rightarrow> 's mig_db \<Rightarrow> err option \<times> 's mig_db" where
  "delete_version E v db =
     (case me_fault E (DeleteVersion v) db of
        Some e \<Rightarrow> (Some e, db)
      | None \<Rightarrow>
          (case md_versions db of
             None \<Rightarrow> (Some (me_missing E), db)
           | Some vs \<Rightarrow> (None, db\<lparr>md_versions := Some (removeAll v vs)\<rparr>)))"

text \<open>The loop over \<^verbatim>\<open>rows\<close>, which ends with the error of \<^verbatim>\<open>rows.Err\<close>.\<close>

fun scan_rows :: "'s mig_engine \<Rightarrow> string \<Rightarrow> 's mig_db \<Rightarrow> int list \<Rightarrow> int list result" where
  "scan_rows E label db [] =
     (case me_fault E IterateRows db of Some e \<Rightarrow> Inl (EWrap label e []) | None \<Rightarrow> Inr [])"
| "scan_rows E label db (v # vs) =
     (case me_fault E (ScanRow v) db of
        Some e \<Rightarrow> Inl (EWrap ''scan applied migration version: '' e [])
      | None \<Rightarrow> (case scan_rows E label db vs of Inl e \<Rightarrow> Inl e | Inr ws \<Rightarrow> Inr (v # ws)))"

definition appliedSet :: "'s mig_engine \<Rightarrow> 's mig_db \<Rightarrow> int list result" where
  "appliedSet E db =
     (case me_fault E SelectApplied db of
        Some e \<Rightarrow> Inl (EWrap ''load applied migrations: '' e [])
      | None \<Rightarrow>
          (case md_versions db of
             None \<Rightarrow> Inl (EWrap ''load applied migrations: '' (me_missing E) [])
           | Some vs \<Rightarrow> scan_rows E ''iterate applied migrations: '' db vs))"

definition appliedVersionsDesc :: "'s mig_engine \<Rightarrow> 's mig_db \<Rightarrow> int list result" where
  "appliedVersionsDesc E db =
     (case me_fault E SelectAppliedDesc db of
        Some e \<Rightarrow> Inl (EWrap ''load applied migrations descending: '' e [])
      | None \<Rightarrow>
          (case md_versions db of
             None \<Rightarrow> Inl (EWrap ''load applied migrations descending: '' (me_missing E) [])
           | Some vs \<Rightarrow> scan_rows E ''iterate applied migrations descending: '' db (rev (sort vs))))"

section \<open>\<^verbatim>\<open>SQLManager\<close>\<close>

definition mig_label :: "migration \<Rightarrow> string" where
  "mig_label m = itoa (mg_Version m) @ ''_'' @ mg_Name m"

text \<open>The end of a transaction whose statement failed: a failing \<^verbatim>\<open>Rollback\<close> joins its error.\<close>

definition abort_tx :: "'s mig_engine \<Rightarrow> err \<Rightarrow> string \<Rightarrow> 's mig_db \<Rightarrow> 's mig_db \<Rightarrow> err \<times> 's mig_db" where
  "abort_tx E e label db w =
     (case tx_rollback (me_tx E) db w of
        (Some rb, db') \<Rightarrow> (EJoin [e, EWrap label rb []], db')
      | (None, db') \<Rightarrow> (e, db'))"

text \<open>The body of the loop of \<^verbatim>\<open>Up\<close> for a migration that is not yet applied.\<close>

definition up_one :: "'s mig_engine \<Rightarrow> migration \<Rightarrow> 's mig_db \<Rightarrow> err option \<times> 's mig_db" where
  "up_one E m db =
     (let v = itoa (mg_Version m) in
      case tx_begin (me_tx E) db of
        Some e \<Rightarrow> (Some (EWrap (''begin migration transaction '' @ v @ '': '') e []), db)
      | None \<Rightarrow>
          (case me_exec E (mg_UpSQL m) db of
             (Some e, w) \<Rightarrow>
               apfst Some (abort_tx E (EWrap (''apply migration '' @ mig_label m @ '': '') e [])
                 (''rollback migration '' @ mig_label m @ '': '') db w)
           | (None, w) \<Rightarrow>
               (case insert_version E (mg_Version m) w of
                  (Some e, w') \<Rightarrow>
                    apfst Some (abort_tx E (EWrap (''record migration '' @ v @ '': '') e [])
                      (''rollback migration '' @ mig_label m @ '' after record failure: '') db w')
                | (None, w') \<Rightarrow>
                    (case tx_commit (me_tx E) db w' of
                       (Some e, db') \<Rightarrow> (Some (EWrap (''commit migration '' @ v @ '': '') e []), db')
                     | (None, db') \<Rightarrow> (None, db')))))"

fun up_loop :: "'s mig_engine \<Rightarrow> int list \<Rightarrow> migration list \<Rightarrow> nat \<Rightarrow> 's mig_db \<Rightarrow> (nat \<times> err option) \<times> 's mig_db" where
  "up_loop E applied [] n db = ((n, None), db)"
| "up_loop E applied (m # ms) n db =
     (if mg_Version m \<in> set applied then up_loop E applied ms n db
      else case up_one E m db of
          (Some e, db') \<Rightarrow> ((n, Some e), db')
        | (None, db') \<Rightarrow> up_loop E applied ms (n + 1) db')"

definition mig_Up :: "'s mig_engine \<Rightarrow> migration list \<Rightarrow> 's mig_db \<Rightarrow> (nat \<times> err option) \<times> 's mig_db" where
  "mig_Up E ms db =
     (case ensureMetadataTable E db of
        (Some e, db') \<Rightarrow> ((0, Some e), db')
      | (None, db') \<Rightarrow>
          (case appliedSet E db' of
             Inl e \<Rightarrow> ((0, Some e), db')
           | Inr applied \<Rightarrow> up_loop E applied ms 0 db'))"

definition migrationByVersion :: "migration list \<Rightarrow> int \<Rightarrow> migration option" where
  "migrationByVersion ms v = find (\<lambda>m. mg_Version m = v) ms"

definition down_one :: "'s mig_engine \<Rightarrow> migration list \<Rightarrow> int \<Rightarrow> 's mig_db \<Rightarrow> err option \<times> 's mig_db" where
  "down_one E ms version db =
     (let v = itoa version in
      case migrationByVersion ms version of
        None \<Rightarrow> (Some (ENew (''migration definition not found for applied version '' @ v)), db)
      | Some m \<Rightarrow>
          (case tx_begin (me_tx E) db of
             Some e \<Rightarrow> (Some (EWrap (''begin rollback transaction '' @ v @ '': '') e []), db)
           | None \<Rightarrow>
               (if blank (mg_DownSQL m)
                then apfst Some (abort_tx E (ENew (''down migration missing for version '' @ v))
                       (''rollback empty down migration '' @ v @ '': '') db db)
                else case me_exec E (mg_DownSQL m) db of
                    (Some e, w) \<Rightarrow>
                      apfst Some (abort_tx E (EWrap (''rollback migration '' @ mig_label m @ '': '') e [])
                        (''rollback transaction for migration '' @ mig_label m @ '': '') db w)
                  | (None, w) \<Rightarrow>
                      (case delete_version E version w of
                         (Some e, w') \<Rightarrow>
                           apfst Some (abort_tx E (EWrap (''delete migration record '' @ v @ '': '') e [])
                             (''rollback delete migration record '' @ v @ '': '') db w')
                       | (None, w') \<Rightarrow>
                           (case tx_commit (me_tx E) db w' of
                              (Some e, db') \<Rightarrow> (Some (EWrap (''commit rollback '' @ v @ '': '') e []), db')
                            | (None, db') \<Rightarrow> (None, db'))))))"

fun down_loop :: "'s mig_engine \<Rightarrow> migration list \<Rightarrow> int list \<Rightarrow> nat \<Rightarrow> 's mig_db \<Rightarrow> (nat \<times> err option) \<times> 's mig_db" where
  "down_loop E ms [] n db = ((n, None), db)"
| "down_loop E ms (v # vs) n db =
     (case down_one E ms v db of
        (Some e, db') \<Rightarrow> ((n, Some e), db')
      | (None, db') \<Rightarrow> down_loop E ms vs (n + 1) db')"

definition mig_Down :: "'s mig_engine \<Rightarrow> migration list \<Rightarrow> int \<Rightarrow> 's mig_db \<Rightarrow> (nat \<times> err option) \<times> 's mig_db" where
  "mig_Down E ms steps db =
     (let steps = (if steps \<le> 0 then 1 else steps) in
      case ensureMetadataTable E db of
        (Some e, db') \<Rightarrow> ((0, Some e), db')
      | (None, db') \<Rightarrow>
          (case appliedVersionsDesc E db' of
             Inl e \<Rightarrow> ((0, Some e), db')
           | Inr applied \<Rightarrow>
               (if applied = [] then ((0, None), db')
                else let steps = (if int (length applied) < steps then int (length applied) else steps)
                     in down_loop E ms (take (nat steps) applied) 0 db')))"

record mig_status =
  st_AppliedVersions :: "int list"
  st_Pending :: "(int \<times> string) list"

definition mig_Status :: "'s mig_engine \<Rightarrow> migration list \<Rightarrow> 's mig_db \<Rightarrow> mig_status result \<times> 's mig_db" where
  "mig_Status E ms db =
     (case ensureMetadataTable E db of
        (Some e, db') \<Rightarrow> (Inl e, db')
      | (None, db') \<Rightarrow>
          (case appliedSet E db' of
             Inl e \<Rightarrow> (Inl e, db')
           | Inr applied \<Rightarrow>
               (Inr \<lparr>st_AppliedVersions = sort (remdups applied),
                     st_Pending = map (\<lambda>m. (mg_Version m, mg_Name m))
                       (filter (\<lambda>m. mg_Version m \<notin> set applied) ms)\<rparr>, db')))"

section \<open>The command\<close>

text \<open>
  The hooks of \<^verbatim>\<open>Operations\<close> may be nil; they take the timeout of the context they run under and
  the state.  What the command logs is part of its result.
\<close>

record 's mig_operations =
  op_Up :: "(duration \<Rightarrow> 's \<Rightarrow> (nat \<times> err option) \<times> 's) option"
  op_Down :: "(duration \<Rightarrow> int \<Rightarrow> 's \<Rightarrow> (nat \<times> err option) \<times> 's) option"
  op_Status :: "(duration \<Rightarrow> 's \<Rightarrow> mig_status result \<times> 's) option"

record mig_options =
  mo_ServiceName :: string
  mo_Path :: string
  mo_Timeout :: duration
  mo_Logger :: bool

datatype mig_log =
  LogApplied nat string | LogReverted nat int string | LogStatus nat nat string
| LogVersion int | LogPending int string

definition mig_ParseArgs :: "string list \<Rightarrow> (string \<times> int) result" where
  "mig_ParseArgs args =
     (let subcommand = (case args of [] \<Rightarrow> ''up'' | a # _ \<Rightarrow> a) in
      case args of
        _ # n # _ \<Rightarrow>
          (case parse_int n of
             None \<Rightarrow> Inl (ENew (''invalid down steps '' @ quoted n))
           | Some k \<Rightarrow> Inr (subcommand, k))
      | _ \<Rightarrow> Inr (subcommand, 1))"

definition validateOptions :: "mig_options \<Rightarrow> err option" where
  "validateOptions opts =
     (if \<not> mo_Logger opts then Some (ENew ''migration logger is required'')
      else if mo_ServiceName opts = [] then Some (ENew ''migration service name is required'')
      else if mo_Path opts = [] then Some (ENew ''migration path is required'')
      else None)"

definition validateOperations :: "'s mig_operations \<Rightarrow> err option" where
  "validateOperations ops =
     (if op_Up ops = None \<or> op_Down ops = None \<or> op_Status ops = None
      then Some (ENew ''migration operations are incomplete'') else None)"

definition usageError :: "string \<Rightarrow> err" where
  "usageError serviceName = ENew (''usage: '' @ serviceName @ '' migrate [up|down|status] [steps]'')"

definition mig_RunParsed ::
  "string \<Rightarrow> int \<Rightarrow> mig_options \<Rightarrow> 's mig_operations \<Rightarrow> 's \<Rightarrow> (err option \<times> mig_log list) \<times> 's" where
  "mig_RunParsed subcommand steps opts ops s =
     (case validateOptions opts of
        Some e \<Rightarrow> ((Some e, []), s)
      | None \<Rightarrow>
     (case validateOperations ops of
        Some e \<Rightarrow> ((Some e, []), s)
      | None \<Rightarrow>
          (let timeout = pos_or (mo_Timeout opts) (60 * second) in
           if subcommand = ''up'' then
             (case the (op_Up ops) timeout s of
                ((applied, Some e), s') \<Rightarrow> ((Some e, []), s')
              | ((applied, None), s') \<Rightarrow> ((None, [LogApplied applied (mo_Path opts)]), s'))
           else if subcommand = ''down'' then
             (if steps \<le> 0 then ((Some (ENew ''steps must be greater than zero''), []), s)
              else case the (op_Down ops) timeout steps s of
                ((reverted, Some e), s') \<Rightarrow> ((Some e, []), s')
              | ((reverted, None), s') \<Rightarrow> ((None, [LogReverted reverted steps (mo_Path opts)]), s'))
           else if subcommand = ''status'' then
             (case the (op_Status ops) timeout s of
                (Inl e, s') \<Rightarrow> ((Some e, []), s')
              | (Inr st, s') \<Rightarrow>
                  ((None, LogStatus (length (st_AppliedVersions st)) (length (st_Pending st)) (mo_Path opts)
                      # map LogVersion (st_AppliedVersions st)
                      @ map (\<lambda>(v, n). LogPending v n) (st_Pending st)), s'))
           else ((Some (usageError (mo_ServiceName opts)), []), s))))"

definition mig_Run :: "string list \<Rightarrow> mig_options \<Rightarrow> 's mig_operations \<Rightarrow> 's \<Rightarrow> (err option \<times> mig_log list) \<times> 's" where
  "mig_Run args opts ops s =
     (case mig_ParseArgs args of
        Inl e \<Rightarrow> ((Some e, []), s)
      | Inr (subcommand, steps) \<Rightarrow> mig_RunParsed subcommand steps opts ops s)"

text \<open>The builder makes the operations from an open handle, which may be nil, and a path.\<close>

definition mig_RunWithDBContext ::
  "'d option \<Rightarrow> string \<Rightarrow> string \<Rightarrow> string \<Rightarrow> int \<Rightarrow> duration \<Rightarrow> bool
     \<Rightarrow> ('d \<Rightarrow> string \<Rightarrow> 's mig_operations result) option \<Rightarrow> 's \<Rightarrow> (err option \<times> mig_log list) \<times> 's" where
  "mig_RunWithDBContext sqlDB path serviceName direction steps timeout log builder s =
     (case builder of
        None \<Rightarrow> ((Some (ENew ''operations builder is required''), []), s)
      | Some build \<Rightarrow>
     (case sqlDB of
        None \<Rightarrow> ((Some (ENew ''database handle is required''), []), s)
      | Some h \<Rightarrow>
     (case build h path of
        Inl e \<Rightarrow> ((Some e, []), s)
      | Inr ops \<Rightarrow>
          mig_RunParsed direction steps
            \<lparr>mo_ServiceName = serviceName, mo_Path = path, mo_Timeout = pos_or timeout (60 * second), mo_Logger = log\<rparr>
            ops s)))"

text \<open>
  \<^verbatim>\<open>sql.Open\<close>, \<^verbatim>\<open>Ping\<close> and \<^verbatim>\<open>Close\<close> of the driver are parameters.  The deferred function joins the
  error of \<^verbatim>\<open>Close\<close> into the local variable \<^verbatim>\<open>err\<close>, the second component, after the result, the
  first one, has been copied from it: the results of the function have no names.
\<close>

record ('d, 's) sql_driver =
  drv_Open :: "string \<Rightarrow> string \<Rightarrow> 'd result"
  drv_Ping :: "'d \<Rightarrow> 's \<Rightarrow> err option"
  drv_Close :: "'d \<Rightarrow> 's \<Rightarrow> err option \<times> 's"

definition deferred_close :: "('d, 's) sql_driver \<Rightarrow> 'd \<Rightarrow> err option \<Rightarrow> 's \<Rightarrow> err option \<times> 's" where
  "deferred_close D h e s =
     (case drv_Close D h s of
        (None, s') \<Rightarrow> (e, s')
      | (Some c, s') \<Rightarrow> (Some (case e of None \<Rightarrow> c | Some x \<Rightarrow> EJoin [x, c]), s'))"

definition mig_RunWithSQLDriver ::
  "('d, 's) sql_driver \<Rightarrow> string \<Rightarrow> string \<Rightarrow> string \<Rightarrow> string \<Rightarrow> string \<Rightarrow> int \<Rightarrow> duration \<Rightarrow> bool
     \<Rightarrow> ('d \<Rightarrow> string \<Rightarrow> 's mig_operations result) option \<Rightarrow> 's
     \<Rightarrow> (err option \<times> err option \<times> mig_log list) \<times> 's" where
  "mig_RunWithSQLDriver D driverName dbURL path serviceName direction steps timeout log builder s =
     (if builder = None then ((Some (ENew ''operations builder is required''), None, []), s)
      else if driverName = [] then ((Some (ENew ''driver name is required''), None, []), s)
      else case drv_Open D driverName dbURL of
          Inl e \<Rightarrow> ((Some (EWrap ''open database connection: '' e []), Some e, []), s)
        | Inr h \<Rightarrow>
            (case drv_Ping D h s of
               Some e \<Rightarrow>
                 (let (e', s') = deferred_close D h (Some e) s
                  in ((Some (EWrap ''ping database: '' e []), e', []), s'))
             | None \<Rightarrow>
                 (let ((r, evs), s') = mig_RunWithDBContext (Some h) path serviceName direction steps timeout log builder s;
                      (e', s'') = deferred_close D h r s'
                  in ((r, e', evs), s''))))"

section \<open>Loading\<close>

lemma put_direction_keys: "set (map fst (put_direction v nm dir payload ps)) = insert v (fst ` set ps)"
  by (induction v nm dir payload ps rule: put_direction.induct) auto

lemma put_direction_distinct:
  "distinct (map fst ps) \<Longrightarrow> distinct (map fst (put_direction v nm dir payload ps))"
proof (induction v nm dir payload ps rule: put_direction.induct)
  case (2 v nm dir payload w n u d ps)
  then show ?case using put_direction_keys [of v nm dir payload ps] by auto
qed simp

text \<open>The versions the file names of a directory announce.\<close>

definition file_version :: "string \<times> bool \<Rightarrow> int option" where
  "file_version en = (if snd en then None
     else case migrationNamePattern (fst en) of None \<Rightarrow> None | Some (d, _) \<Rightarrow> parse_int d)"

lemma put_direction_fst: "fst ` set (put_direction v nm dir payload ps) = insert v (fst ` set ps)"
  using put_direction_keys [of v nm dir payload ps] by simp

lemma collect_files_distinct:
  "collect_files F dir es ps = Inr qs \<Longrightarrow> distinct (map fst ps) \<Longrightarrow> distinct (map fst qs)"
  by (induction F dir es ps rule: collect_files.induct)
    (auto simp: put_direction_distinct split: if_splits option.splits sum.splits)

lemma collect_files_keys:
  "collect_files F dir es ps = Inr qs \<Longrightarrow> fst ` set qs = fst ` set ps \<union> set (List.map_filter file_version es)"
proof (induction F dir es ps rule: collect_files.induct)
  case (2 F dir nm is_dir es ps)
  have v: "List.map_filter file_version ((nm, is_dir) # es)
      = (case file_version (nm, is_dir) of None \<Rightarrow> [] | Some v \<Rightarrow> [v]) @ List.map_filter file_version es"
    by (simp add: List.map_filter_def split: option.splits)
  show ?case
  proof (cases "is_dir \<or> migrationNamePattern nm = None")
    case True
    then have "file_version (nm, is_dir) = None" by (auto simp: file_version_def)
    moreover have "collect_files F dir es ps = Inr qs" using 2(4) True by (auto split: if_splits)
    ultimately show ?thesis using 2(1,2) True v by auto
  next
    case False
    then obtain d n dir' where m: "migrationNamePattern nm = Some (d, n, dir')" "\<not> is_dir" by auto
    with 2(4) obtain k payload where k: "parse_int d = Some k" "fs_ReadFile F (dir @ ''/'' @ nm) = Inr payload"
      and r: "collect_files F dir es (put_direction k n dir' payload ps) = Inr qs"
      by (auto split: option.splits sum.splits)
    have "fst ` set qs = fst ` set (put_direction k n dir' payload ps) \<union> set (List.map_filter file_version es)"
      using 2(3) m k r by simp
    moreover have "file_version (nm, is_dir) = Some k" using m k by (simp add: file_version_def)
    ultimately show ?thesis using v by (simp add: put_direction_fst)
  qed
qed (simp add: List.map_filter_def)

lemma build_migrations_versions:
  "build_migrations ps vs = Inr ms \<Longrightarrow> set vs \<subseteq> fst ` set ps \<Longrightarrow> map mg_Version ms = vs"
  by (induction ps vs arbitrary: ms rule: build_migrations.induct)
    (auto simp: map_of_eq_None_iff split: if_splits option.splits sum.splits)

lemma build_migrations_up:
  "build_migrations ps vs = Inr ms \<Longrightarrow> m \<in> set ms \<Longrightarrow> \<not> blank (mg_UpSQL m)"
  by (induction ps vs arbitrary: ms rule: build_migrations.induct)
    (fastforce split: if_splits option.splits sum.splits)+

lemma loadMigrations_spec:
  assumes "loadMigrations F dir = Inr ms"
  shows "sorted_wrt (<) (map mg_Version ms)" "\<forall>m \<in> set ms. \<not> blank (mg_UpSQL m)"
    "fs_ReadDir F dir = Inr es \<Longrightarrow> mg_Version ` set ms = set (List.map_filter file_version es)"
proof -
  obtain es' ps where es: "fs_ReadDir F dir = Inr es'" and ps: "collect_files F dir es' [] = Inr ps"
    and ms: "build_migrations ps (sort (map fst ps)) = Inr ms"
    using assms by (auto simp: loadMigrations_def split: sum.splits)
  have b: "map mg_Version ms = sort (map fst ps)" using build_migrations_versions [OF ms] by simp
  show "sorted_wrt (<) (map mg_Version ms)"
    using collect_files_distinct [OF ps] b by (simp add: strict_sorted_iff)
  show "\<forall>m \<in> set ms. \<not> blank (mg_UpSQL m)" using build_migrations_up [OF ms] by simp
  show "mg_Version ` set ms = set (List.map_filter file_version es)" if "fs_ReadDir F dir = Inr es"
  proof -
    have "mg_Version ` set ms = set (map mg_Version ms)" by simp
    also have "\<dots> = fst ` set ps" using b by simp
    finally show ?thesis using collect_files_keys [OF ps] es that by simp
  qed
qed

section \<open>What the scripts do\<close>

text \<open>
  The reference: the scripts of a list of migrations, one after the other, each followed by its
  record, with no transaction and no error handling.
\<close>

fun run_ups :: "'s mig_engine \<Rightarrow> migration list \<Rightarrow> 's mig_db \<Rightarrow> 's mig_db option" where
  "run_ups E [] db = Some db"
| "run_ups E (m # ms) db =
     (case me_exec E (mg_UpSQL m) db of
        (Some _, _) \<Rightarrow> None
      | (None, w) \<Rightarrow>
          (case insert_version E (mg_Version m) w of
             (Some _, _) \<Rightarrow> None
           | (None, w') \<Rightarrow> run_ups E ms w'))"

text \<open>What is asked of a script: it leaves the table of the versions alone.\<close>

definition keeps_table :: "'s mig_engine \<Rightarrow> string \<Rightarrow> bool" where
  "keeps_table E sql \<longleftrightarrow> (\<forall>db. md_versions (snd (me_exec E sql db)) = md_versions db)"

lemma run_ups_append:
  "run_ups E (ms @ ns) db = (case run_ups E ms db of None \<Rightarrow> None | Some db' \<Rightarrow> run_ups E ns db')"
  by (induction ms arbitrary: db) (auto split: prod.splits option.splits)

lemma run_ups_Cons: "run_ups E (m # ms) db = (case run_ups E [m] db of None \<Rightarrow> None | Some db' \<Rightarrow> run_ups E ms db')"
  using run_ups_append [of E "[m]" ms db] by simp

lemma abort_tx_state: "sql_ok (me_tx E) \<Longrightarrow> abort_tx E e l db w = (e', db') \<Longrightarrow> db' = db"
  by (auto simp: abort_tx_def sql_ok_def split: prod.splits option.splits)

lemma up_one_atomic:
  assumes "sql_ok (me_tx E)"
  shows "up_one E m db = (Some e, db') \<Longrightarrow> db' = db"
    and "up_one E m db = (None, db') \<Longrightarrow> run_ups E [m] db = Some db'"
proof -
  show "db' = db" if "up_one E m db = (Some e, db')"
    using that assms abort_tx_state [OF assms]
    by (auto simp: up_one_def Let_def apfst_def map_prod_def sql_ok_def split: prod.splits option.splits)
  show "run_ups E [m] db = Some db'" if "up_one E m db = (None, db')"
    using that assms
    by (auto simp: up_one_def Let_def apfst_def map_prod_def sql_ok_def split: prod.splits option.splits)
qed

lemma up_loop_prefix:
  assumes "sql_ok (me_tx E)" and "up_loop E applied ms n db = ((k, e), db')"
  shows "\<exists>j. k = n + j \<and> j \<le> length (filter (\<lambda>m. mg_Version m \<notin> set applied) ms)
    \<and> run_ups E (take j (filter (\<lambda>m. mg_Version m \<notin> set applied) ms)) db = Some db'
    \<and> (e = None \<longleftrightarrow> j = length (filter (\<lambda>m. mg_Version m \<notin> set applied) ms))"
  using assms(2)
proof (induction ms arbitrary: n db)
  case (Cons m ms)
  show ?case
  proof (cases "mg_Version m \<in> set applied")
    case False
    show ?thesis
    proof (cases "up_one E m db")
      case (Pair r w)
      show ?thesis
      proof (cases r)
        case None
        then obtain j where "k = n + 1 + j" "j \<le> length (filter (\<lambda>m. mg_Version m \<notin> set applied) ms)"
          "run_ups E (take j (filter (\<lambda>m. mg_Version m \<notin> set applied) ms)) w = Some db'"
          "e = None \<longleftrightarrow> j = length (filter (\<lambda>m. mg_Version m \<notin> set applied) ms)"
          using Cons Pair False by (auto dest: Cons.IH)
        moreover have "run_ups E [m] db = Some w" using up_one_atomic(2) [OF assms(1)] Pair None by simp
        ultimately show ?thesis using False
            run_ups_Cons [of E m "take j (filter (\<lambda>m. mg_Version m \<notin> set applied) ms)" db]
          by (intro exI [of _ "Suc j"]) (simp del: run_ups.simps(2))
      next
        case (Some x)
        then show ?thesis using Cons.prems Pair False up_one_atomic(1) [OF assms(1)]
          by (intro exI [of _ 0]) auto
      qed
    qed
  qed (use Cons in auto)
qed auto

lemma run_ups_versions:
  "run_ups E ms db = Some db' \<Longrightarrow> \<forall>m \<in> set ms. keeps_table E (mg_UpSQL m) \<Longrightarrow> md_versions db = Some vs
     \<Longrightarrow> md_versions db' = Some (vs @ map mg_Version ms)"
proof (induction ms arbitrary: db vs)
  case (Cons m ms)
  then obtain w w' where w: "me_exec E (mg_UpSQL m) db = (None, w)"
    "insert_version E (mg_Version m) w = (None, w')" "run_ups E ms w' = Some db'"
    by (auto split: prod.splits option.splits)
  have "md_versions w = Some vs" using w(1) Cons.prems keeps_table_def [of E "mg_UpSQL m"]
    by (auto dest: spec [of _ db])
  then have "md_versions w' = Some (vs @ [mg_Version m])"
    using w(2) by (auto simp: insert_version_def split: option.splits if_splits)
  then show ?case using Cons.IH [OF w(3)] Cons.prems by simp
qed simp

lemma scan_rows_Inr: "scan_rows E l db vs = Inr ws \<Longrightarrow> ws = vs"
  by (induction vs arbitrary: ws) (auto split: option.splits sum.splits)

lemma appliedSet_Inr: "appliedSet E db = Inr ws \<Longrightarrow> md_versions db = Some ws"
  by (auto simp: appliedSet_def dest: scan_rows_Inr split: option.splits)

lemma with_table [simp]:
  "md_versions (with_table db) = Some (applied_versions db)" "applied_versions (with_table db) = applied_versions db"
  "with_table (with_table db) = with_table db"
  by (simp_all add: with_table_def applied_versions_def)

lemma with_table_id: "md_versions db = Some vs \<Longrightarrow> with_table db = db"
  by (simp add: with_table_def applied_versions_def)

lemma ensureMetadataTable_state: "ensureMetadataTable E db = (e, db') \<Longrightarrow> db' = (if e = None then with_table db else db)"
  by (auto simp: ensureMetadataTable_def split: option.splits)

definition pending :: "migration list \<Rightarrow> 's mig_db \<Rightarrow> migration list" where
  "pending ms db = filter (\<lambda>m. mg_Version m \<notin> set (applied_versions db)) ms"

lemma mig_Up_unfold:
  assumes "mig_Up E ms db = ((k, e), db')"
  obtains (early) "k = 0" "e \<noteq> None" "with_table db' = with_table db"
    | (loop) "up_loop E (applied_versions db) ms 0 (with_table db) = ((k, e), db')"
  using assms
  by (auto simp: mig_Up_def dest: ensureMetadataTable_state dest!: appliedSet_Inr split: prod.splits option.splits sum.splits if_splits)

lemma mig_Up_prefix:
  assumes "sql_ok (me_tx E)" and "mig_Up E ms db = ((k, e), db')"
    and "\<forall>m \<in> set ms. keeps_table E (mg_UpSQL m)"
  shows "k \<le> length (pending ms db)" "e = None \<Longrightarrow> k = length (pending ms db)"
    "run_ups E (take k (pending ms db)) (with_table db) = Some (with_table db')"
    "applied_versions db' = applied_versions db @ map mg_Version (take k (pending ms db))"
    "e = None \<or> 0 < k \<Longrightarrow> with_table db' = db'"
proof -
  have *: "k \<le> length (pending ms db) \<and> (e = None \<longrightarrow> k = length (pending ms db))
    \<and> run_ups E (take k (pending ms db)) (with_table db) = Some (with_table db')
    \<and> applied_versions db' = applied_versions db @ map mg_Version (take k (pending ms db))
    \<and> (e = None \<or> 0 < k \<longrightarrow> with_table db' = db')"
    using assms(2)
  proof (cases rule: mig_Up_unfold)
    case early
    then show ?thesis using with_table(2) [of db] with_table(2) [of db'] by auto
  next
    case loop
    then have k: "k \<le> length (pending ms db)" "e = None \<longrightarrow> k = length (pending ms db)"
      and r: "run_ups E (take k (pending ms db)) (with_table db) = Some db'"
      using up_loop_prefix [OF assms(1) loop] by (auto simp: pending_def)
    have "\<forall>m \<in> set (take k (pending ms db)). keeps_table E (mg_UpSQL m)"
      using assms(3) set_take_subset [of k "pending ms db"] by (auto simp: pending_def)
    from run_ups_versions [OF r this with_table(1)]
    show ?thesis using k r by (simp add: with_table_id applied_versions_def)
  qed
  then show "k \<le> length (pending ms db)" "e = None \<Longrightarrow> k = length (pending ms db)"
    "run_ups E (take k (pending ms db)) (with_table db) = Some (with_table db')"
    "applied_versions db' = applied_versions db @ map mg_Version (take k (pending ms db))"
    "e = None \<or> 0 < k \<Longrightarrow> with_table db' = db'" by simp_all
qed

lemma mig_Up_nothing:
  assumes "pending ms db = []" and "with_table db = db" and "mig_Up E ms db = ((k, e), db')"
  shows "k = 0 \<and> db' = db"
proof -
  have "up_loop E (applied_versions db) ns 0 db = ((0, None), db)" if "set ns \<subseteq> set ms" for ns
    using that assms(1) by (induction ns) (auto simp: pending_def filter_empty_conv)
  then have *: "up_loop E (applied_versions db) ms 0 db = ((0, None), db)" by simp
  have "applied = applied_versions db" if "appliedSet E db = Inr applied" for applied
    using appliedSet_Inr [OF that] by (simp add: applied_versions_def)
  then show ?thesis using assms(2,3) *
    by (auto simp: mig_Up_def ensureMetadataTable_def split: prod.splits option.splits sum.splits)
qed

section \<open>Undoing\<close>

text \<open>
  The engine does not fail, and the \<^verbatim>\<open>down\<close> script of a migration undoes what its \<^verbatim>\<open>up\<close> script
  does, whatever the table of the versions holds.
\<close>

definition live_engine :: "'s mig_engine \<Rightarrow> bool" where
  "live_engine E \<longleftrightarrow> (\<forall>db. tx_begin (me_tx E) db = None) \<and> (\<forall>b w. fst (tx_commit (me_tx E) b w) = None)
     \<and> (\<forall>st db. me_fault E st db = None)"

definition undoes :: "'s mig_engine \<Rightarrow> migration \<Rightarrow> bool" where
  "undoes E m \<longleftrightarrow> \<not> blank (mg_DownSQL m) \<and>
     (\<forall>db w vs. me_exec E (mg_UpSQL m) db = (None, w)
        \<longrightarrow> me_exec E (mg_DownSQL m) (w\<lparr>md_versions := vs\<rparr>) = (None, db\<lparr>md_versions := vs\<rparr>))"

lemma migrationByVersion_mem:
  assumes "distinct (map mg_Version ms)" and "m \<in> set ms"
  shows "migrationByVersion ms (mg_Version m) = Some m"
  using assms unfolding migrationByVersion_def by (induction ms) force+

lemma down_one_undoes:
  assumes "sql_ok (me_tx E)" and "live_engine E" and "keeps_table E (mg_UpSQL m)" and "undoes E m"
    and "migrationByVersion ms (mg_Version m) = Some m"
    and "run_ups E [m] db = Some db'" and "md_versions db = Some vs"
  shows "down_one E ms (mg_Version m) db' = (None, db)"
proof -
  from assms(6) obtain w where w: "me_exec E (mg_UpSQL m) db = (None, w)" "insert_version E (mg_Version m) w = (None, db')"
    by (auto split: prod.splits option.splits)
  then have "md_versions w = Some vs" using assms(3,7) keeps_table_def [of E "mg_UpSQL m"] by (auto dest: spec [of _ db])
  then have v: "mg_Version m \<notin> set vs" and db': "db' = w\<lparr>md_versions := Some (vs @ [mg_Version m])\<rparr>"
    using w(2) by (auto simp: insert_version_def split: option.splits if_splits)
  have d: "me_exec E (mg_DownSQL m) db' = (None, db\<lparr>md_versions := Some (vs @ [mg_Version m])\<rparr>)"
    using assms(4) w(1) db' by (simp add: undoes_def)
  have c: "tx_commit (me_tx E) b x = (None, x)" for b x
    using assms(1,2) by (metis live_engine_def prod.collapse sql_ok_def)
  have "db\<lparr>md_versions := Some vs\<rparr> = db" using assms(7) by (cases db) simp
  then show ?thesis using assms(2,4,5) v d
    by (simp add: down_one_def Let_def live_engine_def undoes_def delete_version_def c)
qed

lemma down_loop_undoes:
  assumes "sql_ok (me_tx E)" and "live_engine E" and "distinct (map mg_Version ms)"
    and "\<forall>m \<in> set ns. m \<in> set ms \<and> keeps_table E (mg_UpSQL m) \<and> undoes E m"
    and "run_ups E ns db = Some db'" and "md_versions db = Some vs"
  shows "down_loop E ms (rev (map mg_Version ns)) n db' = ((n + length ns, None), db)"
  using assms(4-6)
proof (induction ns arbitrary: db' n rule: rev_induct)
  case (snoc m ns)
  then obtain w where w: "run_ups E ns db = Some w" "run_ups E [m] w = Some db'"
    by (auto simp: run_ups_append split: option.splits)
  have "md_versions w = Some (vs @ map mg_Version ns)"
    using run_ups_versions [OF w(1)] snoc.prems by simp
  then have "down_one E ms (mg_Version m) db' = (None, w)"
    using snoc.prems w(2) by (intro down_one_undoes [OF assms(1,2)]) (auto intro: migrationByVersion_mem [OF assms(3)])
  then show ?case using snoc.IH [of w "n + 1"] w(1) snoc.prems by simp
qed simp

lemma sort_append_above:
  fixes vs ns :: "int list"
  assumes "sorted_wrt (<) ns" and "\<forall>v \<in> set vs. \<forall>x \<in> set ns. v < x"
  shows "sort (vs @ ns) = sort vs @ ns"
proof -
  have i: "insort v (xs @ ns) = insort v xs @ ns" if "\<forall>x \<in> set ns. v < x" for v xs
    using that by (induction xs) (cases ns, auto)
  have "sort ns = ns" using assms(1) by (simp add: strict_sorted_iff sorted_sort_id)
  then show ?thesis using assms(2) by (induction vs) (simp_all add: i)
qed

section \<open>A database to try it on\<close>

text \<open>A script \<open>+x\<close> pushes \<open>x\<close>, and \<open>-x\<close> pops it from the top and fails elsewhere.\<close>

definition stack_exec :: "string \<Rightarrow> string list mig_db \<Rightarrow> err option \<times> string list mig_db" where
  "stack_exec sql db =
     (case sql of
        [] \<Rightarrow> (None, db)
      | c # x \<Rightarrow>
          (if c = CHR ''+'' then (None, db\<lparr>md_schema := x # md_schema db\<rparr>)
           else case md_schema db of
               [] \<Rightarrow> (Some (ENew ''empty''), db)
             | y # ys \<Rightarrow> (if x = y then (None, db\<lparr>md_schema := ys\<rparr>) else (Some (ENew ''not on top''), db))))"

definition stack_engine :: "string list mig_engine" where
  "stack_engine = \<lparr>me_tx = snapshot_engine, me_exec = stack_exec, me_fault = (\<lambda>_ _. None),
     me_missing = ENew ''no such table'', me_duplicate = ENew ''duplicate key''\<rparr>"

definition two_files :: migration_fs where
  "two_files = \<lparr>fs_ReadDir = (\<lambda>_. Inr [(''002_b.down.sql'', False), (''002_b.up.sql'', False),
       (''1_a.down.sql'', False), (''1_a.up.sql'', False), (''README.md'', False), (''3_c.up.sql'', True)]),
     fs_ReadFile = (\<lambda>f. if f = ''m/002_b.down.sql'' then Inr ''-b'' else if f = ''m/002_b.up.sql'' then Inr ''+b''
       else if f = ''m/1_a.down.sql'' then Inr ''-a'' else Inr ''+a'')\<rparr>"

definition two_migrations :: "migration list" where
  "two_migrations = [\<lparr>mg_Version = 1, mg_Name = ''a'', mg_UpSQL = ''+a'', mg_DownSQL = ''-a''\<rparr>,
     \<lparr>mg_Version = 2, mg_Name = ''b'', mg_UpSQL = ''+b'', mg_DownSQL = ''-b''\<rparr>]"

lemma two_files_load: "loadMigrations two_files ''m'' = Inr two_migrations"
  by code_simp

lemma two_files_ok:
  "sql_ok (me_tx stack_engine)" "live_engine stack_engine"
  "\<forall>m \<in> set two_migrations. keeps_table stack_engine (mg_UpSQL m)"
  "\<forall>m \<in> set two_migrations. undoes stack_engine m"
proof -
  show "sql_ok (me_tx stack_engine)" using snapshot.ok by (simp add: stack_engine_def)
  show "live_engine stack_engine" by (simp add: stack_engine_def live_engine_def snapshot_engine_def)
  show "\<forall>m \<in> set two_migrations. keeps_table stack_engine (mg_UpSQL m)"
    by (simp add: two_migrations_def keeps_table_def stack_engine_def stack_exec_def)
  have "\<not> blank ''-a''" "\<not> blank ''-b''" by code_simp+
  then show "\<forall>m \<in> set two_migrations. undoes stack_engine m"
    by (auto simp: two_migrations_def undoes_def stack_engine_def stack_exec_def)
qed

lemma two_files_up:
  "mig_Up stack_engine two_migrations \<lparr>md_schema = [], md_versions = None\<rparr>
     = ((2, None), \<lparr>md_schema = [''b'', ''a''], md_versions = Some [1, 2]\<rparr>)"
  by code_simp

section \<open>Limits\<close>

text \<open>
  \<^verbatim>\<open>Down\<close> goes by the number of the version, not by the order of application: after a late
  migration with a lower number it turns to the highest one first.
\<close>

lemma down_not_last_applied:
  "mig_Up stack_engine two_migrations \<lparr>md_schema = [''b''], md_versions = Some [2]\<rparr>
     = ((1, None), \<lparr>md_schema = [''a'', ''b''], md_versions = Some [2, 1]\<rparr>)"
  "mig_Down stack_engine two_migrations 1 \<lparr>md_schema = [''a'', ''b''], md_versions = Some [2, 1]\<rparr>
     = ((0, Some (EWrap ''rollback migration 2_b: '' (ENew ''not on top'') [])),
        \<lparr>md_schema = [''a'', ''b''], md_versions = Some [2, 1]\<rparr>)"
  by code_simp+

text \<open>An applied version whose files are gone stops every \<^verbatim>\<open>Down\<close> while it is the highest.\<close>

lemma unknown_version_blocks_down:
  assumes "applied_versions db \<noteq> []"
    and "migrationByVersion ms (last (sort (applied_versions db))) = None"
    and "mig_Down E ms steps db = ((k, e), db')"
  shows "k = 0 \<and> e \<noteq> None \<and> with_table db' = with_table db"
proof -
  have rows: "ws = rev (sort (applied_versions db))" if "appliedVersionsDesc E (with_table db) = Inr ws" for ws
    using that by (auto simp: appliedVersionsDesc_def dest: scan_rows_Inr split: option.splits)
  have ne: "sort (applied_versions db) \<noteq> []" using assms(1) by (metis length_0_conv length_sort)
  then obtain v vs where v: "rev (sort (applied_versions db)) = v # vs" "v = last (sort (applied_versions db))"
    by (metis hd_rev list.exhaust list.sel(1) rev_is_Nil_conv)
  have "down_loop E ms (take (Suc n) (v # vs)) 0 x = ((0, Some (ENew (''migration definition not found for applied version '' @ itoa v))), x)" for n x
    using assms(2) v(2) by (simp add: down_one_def Let_def)
  moreover have "take (nat s) (v # vs) = take (Suc (nat (s - 1))) (v # vs)" if "0 < s" for s
  proof -
    have "nat s = Suc (nat (s - 1))" using that by simp
    then show ?thesis by simp
  qed
  ultimately show ?thesis
    using assms(3) rows v(1)
    by (auto simp: mig_Down_def Let_def ensureMetadataTable_def split: option.splits sum.splits if_splits)
qed

text \<open>Two migrations with one number merge: the script of one is kept under the name of the other.\<close>

lemma same_version_merges:
  "put_direction 1 ''b'' ''up'' y (put_direction 1 ''a'' ''up'' x []) = [(1, ''a'', y, [])]"
  by simp

text \<open>The result of \<^verbatim>\<open>RunWithSQLDriver\<close> does not depend on what \<^verbatim>\<open>Close\<close> reports.\<close>

lemma close_error_lost:
  "fst (fst (mig_RunWithSQLDriver D dn url path svc dir steps timeout log builder s))
     = fst (fst (mig_RunWithSQLDriver (D\<lparr>drv_Close := cl\<rparr>) dn url path svc dir steps timeout log builder s))"
  by (auto simp: mig_RunWithSQLDriver_def split: prod.splits option.splits sum.splits)

text \<open>The command never passes \<^verbatim>\<open>Down\<close> a number of steps that it would turn into one.\<close>

lemma RunParsed_steps:
  assumes "steps \<le> 0"
  shows "snd (mig_RunParsed ''down'' steps opts ops s) = s \<and> fst (fst (mig_RunParsed ''down'' steps opts ops s)) \<noteq> None"
  using assms by (auto simp: mig_RunParsed_def Let_def split: option.splits)

section \<open>Properties\<close>

text \<open>C38.
  \<^verbatim>\<open>Up\<close> on the migrations of a directory runs the pending scripts in strictly increasing order of
  version, each together with its record, and stops at the first that fails with nothing of it
  left behind: the database is the one the first \<open>k\<close> pending scripts give when they are simply run
  one after the other, the table gains exactly their versions in that order, and with no error
  \<open>k\<close> is all of them.  A second \<^verbatim>\<open>Up\<close> then applies nothing and changes nothing.
\<close>

theorem migrate_up_prefix:
  assumes "sql_ok (me_tx E)" and "loadMigrations F dir = Inr ms"
    and "\<forall>m \<in> set ms. keeps_table E (mg_UpSQL m)"
    and "mig_Up E ms db = ((k, e), db')"
  shows "sorted_wrt (<) (map mg_Version (pending ms db)) \<and> k \<le> length (pending ms db)
    \<and> run_ups E (take k (pending ms db)) (with_table db) = Some (with_table db')
    \<and> applied_versions db' = applied_versions db @ map mg_Version (take k (pending ms db))
    \<and> (e = None \<longrightarrow> k = length (pending ms db)
        \<and> fst (fst (mig_Up E ms db')) = 0 \<and> snd (mig_Up E ms db') = db')"
proof -
  note up = mig_Up_prefix [OF assms(1,4,3)]
  have "sorted_wrt (<) (map mg_Version (pending ms db))"
    using loadMigrations_spec(1) [OF assms(2)] by (simp add: pending_def sorted_wrt_map sorted_wrt_filter)
  moreover have "fst (fst (mig_Up E ms db')) = 0 \<and> snd (mig_Up E ms db') = db'" if "e = None"
  proof -
    have "pending ms db' = []"
      using up(2) [OF that] up(4) by (auto simp: pending_def filter_empty_conv)
    then show ?thesis using mig_Up_nothing [of ms db' E] up(5) that
      by (cases "mig_Up E ms db'") (metis fst_conv prod.collapse snd_conv)
  qed
  ultimately show ?thesis using up by blast
qed

theorem migrate_up_prefix_witness:
  "fst (fst (mig_Up stack_engine two_migrations \<lparr>md_schema = [''b'', ''a''], md_versions = Some [1, 2]\<rparr>)) = 0"
  using migrate_up_prefix [OF two_files_ok(1) two_files_load two_files_ok(3) two_files_up] by simp

text \<open>\<^verbatim>\<open>Down\<close> undoes \<^verbatim>\<open>Up\<close>: on an engine that does not fail, when every \<^verbatim>\<open>down\<close> script undoes its
  \<^verbatim>\<open>up\<close> script and the pending versions lie above the applied ones, \<^verbatim>\<open>Down\<close> by the number of
  migrations \<^verbatim>\<open>Up\<close> has applied succeeds and restores the database.
\<close>

lemma migrate_up_down:
  assumes "sql_ok (me_tx E)" and "live_engine E" and "loadMigrations F dir = Inr ms"
    and "\<forall>m \<in> set ms. keeps_table E (mg_UpSQL m) \<and> undoes E m"
    and "\<forall>m \<in> set (pending ms db). \<forall>v \<in> set (applied_versions db). v < mg_Version m"
    and "mig_Up E ms db = ((k, e), db')" and "0 < k"
  shows "mig_Down E ms (int k) db' = ((k, None), with_table db)"
proof -
  define ns where "ns = take k (pending ms db)"
  have up: "k \<le> length (pending ms db)" "run_ups E ns (with_table db) = Some db'"
    "applied_versions db' = applied_versions db @ map mg_Version ns" "with_table db' = db'"
    using mig_Up_prefix [OF assms(1,6)] assms(4,7) by (auto simp: ns_def)
  have len: "length ns = k" using up(1) by (simp add: ns_def)
  have mem: "set ns \<subseteq> set (pending ms db)" by (simp add: ns_def set_take_subset)
  have ms: "sorted_wrt (<) (map mg_Version ms)" by (rule loadMigrations_spec(1) [OF assms(3)])
  then have "sorted_wrt (<) (map mg_Version ns)"
    by (simp add: ns_def pending_def sorted_wrt_map sorted_wrt_filter sorted_wrt_take)
  moreover have "\<forall>v \<in> set (applied_versions db). \<forall>x \<in> set (map mg_Version ns). v < x" using assms(5) mem by auto
  ultimately have srt: "rev (sort (applied_versions db')) = rev (map mg_Version ns) @ rev (sort (applied_versions db))"
    using up(3) sort_append_above by (simp del: set_map)
  have "scan_rows E l db' xs = Inr xs" for l xs
    using assms(2) by (induction xs) (simp_all add: live_engine_def)
  then have "appliedVersionsDesc E db' = Inr (rev (sort (applied_versions db')))"
    using assms(2) up(4) with_table(1) [of db'] by (simp add: appliedVersionsDesc_def live_engine_def)
  moreover have "down_loop E ms (rev (map mg_Version ns)) 0 db' = ((0 + length ns, None), with_table db)"
    using ms assms(4) mem up(2)
    by (intro down_loop_undoes [OF assms(1,2)]) (auto simp: strict_sorted_iff pending_def)
  moreover have "ensureMetadataTable E db' = (None, db')"
    using assms(2) up(4) by (simp add: ensureMetadataTable_def live_engine_def)
  ultimately show ?thesis using assms(7) srt len
    by (auto simp: mig_Down_def Let_def)
qed

end
