(* ===== verification/Memcached.thy ===== *)
theory Memcached
  imports Stores Transactions "HOL-Library.Word"
begin

text \<open>
  Memcached: the text protocol client of \<^verbatim>\<open>internal/memcachedkit\<close> and the session and cache stores
  of \<^verbatim>\<open>pkg/session/store_memcached.go\<close> and \<^verbatim>\<open>pkg/cache/store_memcached.go\<close> over it.  The client
  works on bytes: what it writes on a connection, and how it reads the answer.  A server is given by the
  documented answers to the commands it is sent for well-formed keys (locale
  \<open>memcached_server\<close>), the connection by the errors it may give.  Over such servers, the keys
  spread by their hash, the stores are shown to be the abstract store of \<open>Stores\<close>.
\<close>

unbundle bit_operations_syntax

section \<open>The connection\<close>

abbreviation crlf :: string where
  "crlf \<equiv> [CHR 0x0D, CHR 0x0A]"

text \<open>
  The errors of \<^verbatim>\<open>dial\<close> for an address, of \<^verbatim>\<open>SetDeadline\<close>, of a write of some bytes, of \<^verbatim>\<open>Close\<close>, and
  of a read past the bytes the peer has sent.  A request is all that was written on a connection;
  \<open>serve\<close> answers it at a time, in seconds, for the server of an address.
\<close>

record mc_wire =
  mw_dial :: "string \<Rightarrow> err option"
  mw_deadline :: "err option"
  mw_write :: "string \<Rightarrow> err option"
  mw_close :: "err option"
  mw_read :: err

type_synonym 'm mc_serve = "int \<Rightarrow> string \<Rightarrow> 'm \<Rightarrow> string \<times> 'm"

type_synonym 'm mc_cluster = "string \<Rightarrow> 'm"

definition serve_at :: "'m mc_serve \<Rightarrow> int \<Rightarrow> string \<Rightarrow> string \<Rightarrow> 'm mc_cluster \<Rightarrow> string \<times> 'm mc_cluster" where
  "serve_at serve t addr request S = (case serve t request (S addr) of (resp, m) \<Rightarrow> (resp, S(addr := m)))"

text \<open>The bytes that were written before a write failed, and its error.\<close>

fun write_all :: "mc_wire \<Rightarrow> string list \<Rightarrow> string \<times> err option" where
  "write_all W [] = ([], None)"
| "write_all W (c # cs) =
     (case mw_write W c of
        Some e \<Rightarrow> ([], Some e)
      | None \<Rightarrow> (case write_all W cs of (sent, e) \<Rightarrow> (c @ sent, e)))"

text \<open>\<^verbatim>\<open>reader.ReadString('\n')\<close>: the line with its end, and what follows.\<close>

fun read_line :: "string \<Rightarrow> (string \<times> string) option" where
  "read_line [] = None"
| "read_line (c # cs) =
     (if c = CHR 0x0A then Some ([c], cs)
      else case read_line cs of None \<Rightarrow> None | Some (l, rest) \<Rightarrow> Some (c # l, rest))"

section \<open>The client\<close>

record mc_client =
  mcc_addresses :: "string list"
  mcc_timeout :: duration

definition mc_NewClientWithDial :: "string list \<Rightarrow> duration \<Rightarrow> mc_client result" where
  "mc_NewClientWithDial addresses timeout =
     (if addresses = [] then Inl (ENew ''at least one memcached address is required'')
      else let normalized = filter (\<lambda>a. a \<noteq> []) (map trim_space addresses) in
        if normalized = [] then Inl (ENew ''at least one non-empty memcached address is required'')
        else Inr \<lparr>mcc_addresses = normalized, mcc_timeout = pos_or timeout (500 * millisecond)\<rparr>)"

text \<open>The 32-bit hash FNV-1a of \<^verbatim>\<open>hash/fnv\<close>.\<close>

definition fnv32a :: "string \<Rightarrow> 32 word" where
  "fnv32a s = foldl (\<lambda>h c. (h XOR of_nat (byte c)) * 16777619) 2166136261 s"

definition pickAddress :: "mc_client \<Rightarrow> string \<Rightarrow> string" where
  "pickAddress cl key =
     (if length (mcc_addresses cl) = 1 then mcc_addresses cl ! 0
      else mcc_addresses cl ! (unat (fnv32a key) mod length (mcc_addresses cl)))"

definition absoluteTTLThreshold :: duration where
  "absoluteTTLThreshold = 30 * 24 * hour"

text \<open>
  Up to 30 days \<^verbatim>\<open>math.Ceil(ttl.Seconds())\<close> is exact: the whole seconds take 22 bits of the
  53 of the significand, so a nanosecond more is not rounded away.  \<open>now\<close> is the clock of the client.
\<close>

definition TTLToSeconds :: "gotime \<Rightarrow> duration \<Rightarrow> int" where
  "TTLToSeconds now ttl =
     (if ttl \<le> 0 then 0
      else if absoluteTTLThreshold < ttl then (now + ttl) div second
      else let seconds = (ttl + second - 1) div second in if seconds \<le> 0 then 1 else seconds)"

text \<open>
  \<^verbatim>\<open>connect\<close>, the writes, the reading of the answer and the deferred \<^verbatim>\<open>Close\<close>, whose error
  replaces a nil one.
\<close>

definition mc_connect :: "mc_wire \<Rightarrow> string \<Rightarrow> err option" where
  "mc_connect W target =
     (case mw_dial W target of
        Some e \<Rightarrow> Some e
      | None \<Rightarrow>
          (case mw_deadline W of
             None \<Rightarrow> None
           | Some e \<Rightarrow> (case mw_close W of Some c \<Rightarrow> Some (EJoin [e, c]) | None \<Rightarrow> Some e)))"

definition close_result :: "mc_wire \<Rightarrow> 'v outcome \<Rightarrow> 'v outcome" where
  "close_result W r = (case r of Ok v \<Rightarrow> (case mw_close W of None \<Rightarrow> Ok v | Some c \<Rightarrow> Err c) | _ \<Rightarrow> r)"

definition mc_exchange ::
  "mc_wire \<Rightarrow> 'm mc_serve \<Rightarrow> mc_client \<Rightarrow> int \<Rightarrow> string \<Rightarrow> string list \<Rightarrow> (string \<Rightarrow> 'v outcome)
     \<Rightarrow> 'm mc_cluster \<Rightarrow> 'v outcome \<times> 'm mc_cluster" where
  "mc_exchange W serve cl t key chunks parse S =
     (let target = pickAddress cl key in
      case mc_connect W target of
        Some e \<Rightarrow> (Err e, S)
      | None \<Rightarrow>
          (case write_all W chunks of
             (sent, Some e) \<Rightarrow> (close_result W (Err e), snd (serve_at serve t target sent S))
           | (sent, None) \<Rightarrow>
               (case serve_at serve t target sent S of
                  (resp, S') \<Rightarrow> (close_result W (parse resp), S'))))"

definition get_request :: "string \<Rightarrow> string list" where
  "get_request key = [''get '' @ key @ crlf]"

definition set_request :: "string \<Rightarrow> int \<Rightarrow> string \<Rightarrow> string list" where
  "set_request key exptime v =
     [''set '' @ key @ '' 0 '' @ itoa exptime @ '' '' @ show_nat (length v) @ crlf, v, crlf]"

definition delete_request :: "string \<Rightarrow> string list" where
  "delete_request key = [''delete '' @ key @ crlf]"

definition touch_request :: "string \<Rightarrow> int \<Rightarrow> string list" where
  "touch_request key exptime = [''touch '' @ key @ '' '' @ itoa exptime @ crlf]"

text \<open>
  The answer to \<^verbatim>\<open>get\<close>.  A negative size makes \<^verbatim>\<open>make\<close> or the slice expression panic.
\<close>

definition parse_get :: "mc_wire \<Rightarrow> string \<Rightarrow> string outcome" where
  "parse_get W resp =
     (case read_line resp of
        None \<Rightarrow> Err (mw_read W)
      | Some (line0, rest) \<Rightarrow>
          (let line = trim_space line0; parts = strings_Fields line in
           if line = ''END'' then Err (ENew ''not found'')
           else if length parts \<noteq> 4 \<or> parts ! 0 \<noteq> ''VALUE''
           then Err (ENew (''unexpected memcached response: '' @ line))
           else case parse_int (parts ! 3) of
               None \<Rightarrow> Err (EWrap ''invalid memcached size: ''
                         (ENew (''strconv.Atoi: parsing '' @ quoted (parts ! 3) @ '': invalid syntax'')) [])
             | Some sz \<Rightarrow>
                 (if sz < 0 then Panic ''runtime error: out of range''
                  else if length rest < nat sz + 2 then Err (mw_read W)
                  else case read_line (drop (nat sz + 2) rest) of
                      None \<Rightarrow> Err (mw_read W)
                    | Some (endLine, _) \<Rightarrow>
                        (if trim_space endLine \<noteq> ''END''
                         then Err (ENew (''unexpected memcached terminator: '' @ trim_space endLine))
                         else Ok (take (nat sz) rest)))))"

definition parse_set :: "mc_wire \<Rightarrow> string \<Rightarrow> unit outcome" where
  "parse_set W resp =
     (case read_line resp of
        None \<Rightarrow> Err (mw_read W)
      | Some (line, _) \<Rightarrow>
          (if trim_space line \<noteq> ''STORED'' then Err (ENew (''memcached set failed: '' @ trim_space line))
           else Ok ()))"

text \<open>The answers to \<^verbatim>\<open>delete\<close> and \<^verbatim>\<open>touch\<close>.\<close>

definition parse_done :: "mc_wire \<Rightarrow> string \<Rightarrow> string \<Rightarrow> string \<Rightarrow> unit outcome" where
  "parse_done W verb success resp =
     (case read_line resp of
        None \<Rightarrow> Err (mw_read W)
      | Some (line, _) \<Rightarrow>
          (if trim_space line = success then Ok ()
           else if trim_space line = ''NOT_FOUND'' then Err (ENew ''not found'')
           else Err (ENew (''unexpected memcached '' @ verb @ '' response: '' @ trim_space line))))"

definition mc_Get :: "mc_wire \<Rightarrow> 'm mc_serve \<Rightarrow> mc_client \<Rightarrow> int \<Rightarrow> string \<Rightarrow> 'm mc_cluster \<Rightarrow> string outcome \<times> 'm mc_cluster" where
  "mc_Get W serve cl t key = mc_exchange W serve cl t key (get_request key) (parse_get W)"

definition mc_Set ::
  "mc_wire \<Rightarrow> 'm mc_serve \<Rightarrow> mc_client \<Rightarrow> gotime \<Rightarrow> int \<Rightarrow> string \<Rightarrow> string \<Rightarrow> duration \<Rightarrow> 'm mc_cluster
     \<Rightarrow> unit outcome \<times> 'm mc_cluster" where
  "mc_Set W serve cl now t key v ttl =
     mc_exchange W serve cl t key (set_request key (TTLToSeconds now ttl) v) (parse_set W)"

definition mc_Delete :: "mc_wire \<Rightarrow> 'm mc_serve \<Rightarrow> mc_client \<Rightarrow> int \<Rightarrow> string \<Rightarrow> 'm mc_cluster \<Rightarrow> unit outcome \<times> 'm mc_cluster" where
  "mc_Delete W serve cl t key =
     mc_exchange W serve cl t key (delete_request key) (parse_done W ''delete'' ''DELETED'')"

definition mc_Touch ::
  "mc_wire \<Rightarrow> 'm mc_serve \<Rightarrow> mc_client \<Rightarrow> gotime \<Rightarrow> int \<Rightarrow> string \<Rightarrow> duration \<Rightarrow> 'm mc_cluster
     \<Rightarrow> unit outcome \<times> 'm mc_cluster" where
  "mc_Touch W serve cl now t key ttl =
     mc_exchange W serve cl t key (touch_request key (TTLToSeconds now ttl)) (parse_done W ''touch'' ''TOUCHED'')"

section \<open>The stores\<close>

definition isMemcachedNotFound :: "err \<Rightarrow> bool" where
  "isMemcachedNotFound e \<longleftrightarrow> equal_fold (trim_space (error_text e)) ''not found''"

text \<open>\<^verbatim>\<open>NewMemcachedStore\<close>: a blank prefix is replaced, any other is kept as it is.\<close>

definition memcached_prefix :: "string \<Rightarrow> string \<Rightarrow> string" where
  "memcached_prefix dflt p = (if blank p then dflt else p)"

definition session_memcached_Load ::
  "mc_wire \<Rightarrow> 'm mc_serve \<Rightarrow> mc_client \<Rightarrow> 'd codec \<Rightarrow> string \<Rightarrow> int \<Rightarrow> string \<Rightarrow> 'm mc_cluster
     \<Rightarrow> 'd outcome \<times> 'm mc_cluster" where
  "session_memcached_Load W serve cl C prefix t sid S =
     (case mc_Get W serve cl t (store_key prefix sid) S of
        (Panic p, S') \<Rightarrow> (Panic p, S')
      | (Err e, S') \<Rightarrow> (Err (if isMemcachedNotFound e then ESentinel SessionNotFound else e), S')
      | (Ok raw, S') \<Rightarrow>
          (if raw = [] then (Err (ESentinel SessionNotFound), S')
           else case c_Unmarshal C raw of
               Inl e \<Rightarrow> (Err (EWrap ''decode memcached session payload: '' e []), S')
             | Inr d \<Rightarrow> (Ok d, S')))"

definition session_memcached_Save ::
  "mc_wire \<Rightarrow> 'm mc_serve \<Rightarrow> mc_client \<Rightarrow> 'd codec \<Rightarrow> string \<Rightarrow> gotime \<Rightarrow> int \<Rightarrow> string \<Rightarrow> 'd \<Rightarrow> duration \<Rightarrow> 'm mc_cluster
     \<Rightarrow> unit outcome \<times> 'm mc_cluster" where
  "session_memcached_Save W serve cl C prefix now t sid d ttl S =
     (case c_Marshal C d of
        Inl e \<Rightarrow> (Err (EWrap ''encode memcached session payload: '' e []), S)
      | Inr raw \<Rightarrow> mc_Set W serve cl now t (store_key prefix sid) raw ttl S)"

definition memcached_Delete ::
  "mc_wire \<Rightarrow> 'm mc_serve \<Rightarrow> mc_client \<Rightarrow> string \<Rightarrow> int \<Rightarrow> string \<Rightarrow> 'm mc_cluster \<Rightarrow> unit outcome \<times> 'm mc_cluster" where
  "memcached_Delete W serve cl prefix t sid S =
     (case mc_Delete W serve cl t (store_key prefix sid) S of
        (Err e, S') \<Rightarrow> (if isMemcachedNotFound e then Ok () else Err e, S')
      | (r, S') \<Rightarrow> (r, S'))"

definition session_memcached_Touch ::
  "mc_wire \<Rightarrow> 'm mc_serve \<Rightarrow> mc_client \<Rightarrow> string \<Rightarrow> gotime \<Rightarrow> int \<Rightarrow> string \<Rightarrow> duration \<Rightarrow> 'm mc_cluster
     \<Rightarrow> unit outcome \<times> 'm mc_cluster" where
  "session_memcached_Touch W serve cl prefix now t sid ttl S =
     (case mc_Touch W serve cl now t (store_key prefix sid) ttl S of
        (Err e, S') \<Rightarrow> (Err (if isMemcachedNotFound e then ESentinel SessionNotFound else e), S')
      | (r, S') \<Rightarrow> (r, S'))"

definition cache_memcached_Get ::
  "mc_wire \<Rightarrow> 'm mc_serve \<Rightarrow> mc_client \<Rightarrow> string \<Rightarrow> int \<Rightarrow> string \<Rightarrow> 'm mc_cluster \<Rightarrow> string outcome \<times> 'm mc_cluster" where
  "cache_memcached_Get W serve cl prefix t key S =
     (case mc_Get W serve cl t (store_key prefix key) S of
        (Panic p, S') \<Rightarrow> (Panic p, S')
      | (Err e, S') \<Rightarrow> (Err (if isMemcachedNotFound e then ESentinel CacheMiss else e), S')
      | (Ok raw, S') \<Rightarrow> (if raw = [] then Err (ESentinel CacheMiss) else Ok raw, S'))"

definition cache_memcached_Set ::
  "mc_wire \<Rightarrow> 'm mc_serve \<Rightarrow> mc_client \<Rightarrow> string \<Rightarrow> gotime \<Rightarrow> int \<Rightarrow> string \<Rightarrow> string \<Rightarrow> duration \<Rightarrow> 'm mc_cluster
     \<Rightarrow> unit outcome \<times> 'm mc_cluster" where
  "cache_memcached_Set W serve cl prefix now t key v ttl = mc_Set W serve cl now t (store_key prefix key) v ttl"

section \<open>Servers\<close>

text \<open>
  The keys the protocol allows and the client reads back as one field, and the deadline of an
  expiration time: 0 for none, up to 30 days relative to the clock of the server, else absolute.
\<close>

definition plain_key :: "string \<Rightarrow> bool" where
  "plain_key k \<longleftrightarrow> k \<noteq> [] \<and> length k \<le> 250 \<and> (\<forall>c \<in> set k. 32 < byte c \<and> byte c < 127)"

definition mc_deadline :: "int \<Rightarrow> int \<Rightarrow> int option" where
  "mc_deadline t e = (if e = 0 then None else if e \<le> 60 * 60 * 24 * 30 then Some (t + e) else Some e)"

definition get_answer :: "string \<Rightarrow> (string \<times> int option) option \<Rightarrow> string" where
  "get_answer k found =
     (case found of
        None \<Rightarrow> ''END'' @ crlf
      | Some (v, _) \<Rightarrow> ''VALUE '' @ k @ '' 0 '' @ show_nat (length v) @ crlf @ v @ crlf @ ''END'' @ crlf)"

text \<open>
  The protocol as it is documented, for a server that has room for what it is given: \<open>limit\<close> is the
  size of the largest value it takes.  Expired entries may be dropped at any time.
\<close>

locale memcached_server =
  fixes serve :: "'m mc_serve" and mview :: "'m \<Rightarrow> string entries" and limit :: nat
  assumes limit: "fits64 (int limit)"
    and get: "plain_key k \<Longrightarrow> \<exists>m'. serve t (''get '' @ k @ crlf) m = (get_answer k (alive t (mview m) k), m')
      \<and> alive t (mview m') = alive t (mview m) \<and> mview m' \<subseteq>\<^sub>m mview m"
    and set_: "plain_key k \<Longrightarrow> length v \<le> limit \<Longrightarrow> 0 \<le> e \<Longrightarrow> e < 2 ^ 31 \<Longrightarrow>
      \<exists>m'. serve t (''set '' @ k @ '' 0 '' @ itoa e @ '' '' @ show_nat (length v) @ crlf @ v @ crlf) m
          = (''STORED'' @ crlf, m')
        \<and> mview m' = (mview m)(k \<mapsto> (v, mc_deadline t e))"
    and delete: "plain_key k \<Longrightarrow>
      \<exists>m'. serve t (''delete '' @ k @ crlf) m
          = ((if alive t (mview m) k = None then ''NOT_FOUND'' else ''DELETED'') @ crlf, m')
        \<and> alive t (mview m') = (alive t (mview m))(k := None) \<and> mview m' \<subseteq>\<^sub>m mview m"
    and touch: "plain_key k \<Longrightarrow> 0 \<le> e \<Longrightarrow> e < 2 ^ 31 \<Longrightarrow>
      \<exists>m'. serve t (''touch '' @ k @ '' '' @ itoa e @ crlf) m
          = ((if alive t (mview m) k = None then ''NOT_FOUND'' else ''TOUCHED'') @ crlf, m')
        \<and> mview m' = (case alive t (mview m) k of
              None \<Rightarrow> mview m | Some (v, _) \<Rightarrow> (mview m)(k \<mapsto> (v, mc_deadline t e)))"

section \<open>Reading the answers\<close>

lemma read_line_append: "CHR 0x0A \<notin> set l \<Longrightarrow> read_line (l @ CHR 0x0A # rest) = Some (l @ [CHR 0x0A], rest)"
  by (induction l) auto

lemma plain_chars: "plain_key k \<Longrightarrow> c \<in> set k \<Longrightarrow> byte c < 128 \<and> \<not> ascii_space c \<and> c \<noteq> CHR 0x0A \<and> c \<noteq> CHR '' ''"
  by (auto simp: plain_key_def ascii_space_def)

lemma digit_chars: "c \<in> set (show_nat n) \<Longrightarrow> byte c < 128 \<and> \<not> ascii_space c \<and> c \<noteq> CHR 0x0A \<and> c \<noteq> CHR '' ''"
  using show_nat_digits [of n] by (auto simp: list_all_iff is_digit_def ascii_space_def)

lemma trim_words:
  "trim_space (''END'' @ crlf) = ''END''" "trim_space (''STORED'' @ crlf) = ''STORED''"
  "trim_space (''NOT_FOUND'' @ crlf) = ''NOT_FOUND''" "trim_space (''DELETED'' @ crlf) = ''DELETED''"
  "trim_space (''TOUCHED'' @ crlf) = ''TOUCHED''"
  by code_simp+

lemma value_line:
  assumes "plain_key k"
  shows "trim_space (''VALUE '' @ k @ '' 0 '' @ show_nat n @ crlf) = ''VALUE '' @ k @ '' 0 '' @ show_nat n"
    and "strings_Fields (''VALUE '' @ k @ '' 0 '' @ show_nat n) = [''VALUE'', k, ''0'', show_nat n]"
proof -
  obtain ds d where d: "show_nat n = ds @ [d]" by (cases "show_nat n" rule: rev_cases) auto
  have "byte d < 128" "\<not> ascii_space d" using digit_chars [of d n] d by auto
  then have "trim_space ((CHR ''V'' # (''ALUE '' @ k @ '' 0 '' @ ds) @ [d]) @ crlf) = CHR ''V'' # (''ALUE '' @ k @ '' 0 '' @ ds) @ [d]"
    by (intro trim_space_line) (simp_all add: ascii_space_def)
  then show "trim_space (''VALUE '' @ k @ '' 0 '' @ show_nat n @ crlf) = ''VALUE '' @ k @ '' 0 '' @ show_nat n"
    using d by simp
  have "strings_Fields (join_with '' '' [''VALUE'', k, ''0'', show_nat n]) = [''VALUE'', k, ''0'', show_nat n]"
  proof (rule strings_Fields_words, rule ballI)
    fix w assume "w \<in> set [''VALUE'', k, ''0'', show_nat n]"
    then consider "w = ''VALUE''" | "w = k" | "w = ''0''" | "w = show_nat n" by auto
    then show "w \<noteq> [] \<and> (\<forall>c \<in> set w. byte c < 128 \<and> \<not> ascii_space c)"
    proof cases
      case 2
      then show ?thesis using assms plain_chars by (auto simp: plain_key_def)
    next
      case 4
      then show ?thesis using digit_chars by simp
    qed (simp_all add: ascii_space_def)
  qed
  then show "strings_Fields (''VALUE '' @ k @ '' 0 '' @ show_nat n) = [''VALUE'', k, ''0'', show_nat n]" by simp
qed

lemma parse_get_found:
  assumes "plain_key k" and "fits64 (int (length v))"
  shows "parse_get W (get_answer k (Some (v, e))) = Ok v"
proof -
  let ?line = "''VALUE '' @ k @ '' 0 '' @ show_nat (length v)"
  have "CHR 0x0A \<notin> set (?line @ [CHR 0x0D])"
    using assms(1) plain_chars digit_chars by auto
  from read_line_append [OF this, of "v @ crlf @ ''END'' @ crlf"]
  have r: "read_line (get_answer k (Some (v, e))) = Some (?line @ crlf, v @ crlf @ ''END'' @ crlf)"
    by (simp add: get_answer_def)
  have en: "read_line (''END'' @ crlf) = Some (''END'' @ crlf, [])" by simp
  have pi: "parse_int (show_nat (length v)) = Some (int (length v))"
    using parse_int_itoa [of "int (length v)"] assms(2) by (simp add: itoa_def)
  have ne: "?line \<noteq> ''END''" by simp
  show ?thesis
    unfolding parse_get_def r
    using value_line [OF assms(1), of "length v"] pi ne trim_words(1) en
    by (simp add: Let_def)
qed

lemma parse_get_missing: "parse_get W (get_answer k None) = Err (ENew ''not found'')"
  using trim_words(1) by (simp add: parse_get_def get_answer_def Let_def)

lemma parse_answers:
  "parse_set W (''STORED'' @ crlf) = Ok ()"
  "parse_done W v ''DELETED'' ((if b then ''NOT_FOUND'' else ''DELETED'') @ crlf) = (if b then Err (ENew ''not found'') else Ok ())"
  "parse_done W v ''TOUCHED'' ((if b then ''NOT_FOUND'' else ''TOUCHED'') @ crlf) = (if b then Err (ENew ''not found'') else Ok ())"
  using trim_words(2-5) by (simp_all add: parse_set_def parse_done_def)

lemma not_found_recognised: "isMemcachedNotFound (ENew ''not found'')"
proof -
  have "trim_space ''not found'' = ''not found''" by code_simp
  then show ?thesis by (simp add: isMemcachedNotFound_def equal_fold_def)
qed

section \<open>The stores over such servers\<close>

definition healthy :: "mc_wire \<Rightarrow> bool" where
  "healthy W \<longleftrightarrow> (\<forall>a. mw_dial W a = None) \<and> mw_deadline W = None \<and> (\<forall>c. mw_write W c = None) \<and> mw_close W = None"

lemma write_all_healthy: "healthy W \<Longrightarrow> write_all W cs = (concat cs, None)"
  by (induction cs) (simp_all add: healthy_def)

lemma mc_exchange_healthy:
  assumes "healthy W" and "serve t (concat chunks) (S (pickAddress cl key)) = (resp, m')"
  shows "mc_exchange W serve cl t key chunks parse S = (parse resp, S(pickAddress cl key := m'))"
  using assms by (simp add: mc_exchange_def mc_connect_def close_result_def serve_at_def write_all_healthy Let_def
      healthy_def split: outcome.splits)

text \<open>The clock of the stores counts the seconds of the servers; a short time to live is rounded up.\<close>

definition ceil_seconds :: "duration \<Rightarrow> int" where
  "ceil_seconds ttl = (ttl + second - 1) div second"

definition mc_span :: "duration \<Rightarrow> int option" where
  "mc_span ttl = (if ttl \<le> 0 then None else Some (ceil_seconds ttl))"

lemma ceil_seconds_pos: "0 < ttl \<Longrightarrow> 0 < ceil_seconds ttl"
  by (simp add: ceil_seconds_def duration_units pos_imp_zdiv_pos_iff)

lemma TTLToSeconds_short:
  assumes "0 < ttl" and "ttl \<le> absoluteTTLThreshold"
  shows "TTLToSeconds now ttl = ceil_seconds ttl" "0 < ceil_seconds ttl" "ceil_seconds ttl \<le> 60 * 60 * 24 * 30"
proof -
  show "0 < ceil_seconds ttl" by (rule ceil_seconds_pos [OF assms(1)])
  then show "TTLToSeconds now ttl = ceil_seconds ttl"
    using assms by (simp add: TTLToSeconds_def ceil_seconds_def Let_def)
  have "(ttl + second - 1) div second \<le> (absoluteTTLThreshold + second - 1) div second"
    using assms(2) by (intro zdiv_mono1) (simp_all add: duration_units)
  then show "ceil_seconds ttl \<le> 60 * 60 * 24 * 30"
    by (simp add: ceil_seconds_def absoluteTTLThreshold_def duration_units)
qed

lemma TTLToSeconds_deadline:
  assumes "ttl \<le> absoluteTTLThreshold"
  shows "mc_deadline t (TTLToSeconds now ttl) = map_option (\<lambda>n. t + n) (mc_span ttl)" "0 \<le> TTLToSeconds now ttl"
    "TTLToSeconds now ttl < 2 ^ 31"
proof -
  have "mc_deadline t (TTLToSeconds now ttl) = map_option (\<lambda>n. t + n) (mc_span ttl) \<and> 0 \<le> TTLToSeconds now ttl
    \<and> TTLToSeconds now ttl < 2 ^ 31"
  proof (cases "ttl \<le> 0")
    case True
    then show ?thesis by (simp add: TTLToSeconds_def mc_deadline_def mc_span_def)
  next
    case False
    then show ?thesis using TTLToSeconds_short(1) [of ttl now] TTLToSeconds_short(2,3) [of ttl] assms by (simp add: mc_deadline_def mc_span_def)
  qed
  then show "mc_deadline t (TTLToSeconds now ttl) = map_option (\<lambda>n. t + n) (mc_span ttl)" "0 \<le> TTLToSeconds now ttl"
    "TTLToSeconds now ttl < 2 ^ 31"
    by simp_all
qed

text \<open>The payload of a session, on the server its key is sent to, and the sessions of the servers.\<close>

definition mc_raw :: "('m \<Rightarrow> string entries) \<Rightarrow> mc_client \<Rightarrow> string \<Rightarrow> 'm mc_cluster \<Rightarrow> string entries" where
  "mc_raw mview cl prefix S sid = mview (S (pickAddress cl (store_key prefix sid))) (store_key prefix sid)"

definition decoded :: "'d codec \<Rightarrow> string \<times> int option \<Rightarrow> ('d \<times> int option) option" where
  "decoded C x = (case c_Unmarshal C (fst x) of Inl _ \<Rightarrow> None | Inr d \<Rightarrow> Some (d, snd x))"

definition mc_entries ::
  "('m \<Rightarrow> string entries) \<Rightarrow> mc_client \<Rightarrow> 'd codec \<Rightarrow> string \<Rightarrow> 'm mc_cluster \<Rightarrow> 'd entries" where
  "mc_entries mview cl C prefix S sid =
     (case mc_raw mview cl prefix S sid of None \<Rightarrow> None | Some x \<Rightarrow> decoded C x)"

definition mc_payload :: "nat \<Rightarrow> 'd codec \<Rightarrow> string \<Rightarrow> bool" where
  "mc_payload limit C raw \<longleftrightarrow> raw \<noteq> [] \<and> length raw \<le> limit \<and> (\<exists>d. c_Unmarshal C raw = Inr d)"

definition mc_ok :: "('m \<Rightarrow> string entries) \<Rightarrow> nat \<Rightarrow> mc_client \<Rightarrow> 'd codec \<Rightarrow> string \<Rightarrow> 'm mc_cluster \<Rightarrow> bool" where
  "mc_ok mview limit cl C prefix S \<longleftrightarrow>
     (\<forall>sid raw e. mc_raw mview cl prefix S sid = Some (raw, e) \<longrightarrow> mc_payload limit C raw)"

lemma alive_Some: "alive t m k = Some x \<Longrightarrow> m k = Some x"
  by (auto simp: alive_def split: option.splits prod.splits if_splits)

lemma mc_okD: "mc_ok mview limit cl C prefix S \<Longrightarrow> mc_raw mview cl prefix S sid = Some (raw, e) \<Longrightarrow> mc_payload limit C raw"
  unfolding mc_ok_def by blast

lemma alive_raw:
  "alive t (mc_raw mview cl prefix S) sid
     = alive t (mview (S (pickAddress cl (store_key prefix sid)))) (store_key prefix sid)"
  by (simp add: alive_def mc_raw_def)

lemma alive_entries:
  "alive t (mc_entries mview cl C prefix S) sid
     = (case alive t (mc_raw mview cl prefix S) sid of None \<Rightarrow> None | Some x \<Rightarrow> decoded C x)"
  by (auto simp: alive_def mc_entries_def decoded_def split: option.splits sum.splits)

lemma mc_raw_other:
  assumes "\<forall>k. k \<noteq> store_key prefix sid \<longrightarrow> mview m' k = mview (S (pickAddress cl (store_key prefix sid))) k"
  shows "mc_raw mview cl prefix (S(pickAddress cl (store_key prefix sid) := m'))
    = (mc_raw mview cl prefix S)(sid := mview m' (store_key prefix sid))"
proof
  show "mc_raw mview cl prefix (S(pickAddress cl (store_key prefix sid) := m')) i
      = ((mc_raw mview cl prefix S)(sid := mview m' (store_key prefix sid))) i" for i
    using assms store_key_inj [of prefix i sid] by (auto simp: mc_raw_def)
qed

lemma mc_raw_sub:
  assumes "mview m' \<subseteq>\<^sub>m mview (S a)"
  shows "mc_raw mview cl prefix (S(a := m')) \<subseteq>\<^sub>m mc_raw mview cl prefix S"
  using assms by (auto simp: mc_raw_def map_le_def)

lemma mc_ok_sub:
  assumes "mc_raw mview cl prefix S' \<subseteq>\<^sub>m mc_raw mview cl prefix S" and "mc_ok mview limit cl C prefix S"
  shows "mc_ok mview limit cl C prefix S'"
  using assms unfolding mc_ok_def map_le_def by (metis domI)

lemma alive_raw_upd:
  assumes "alive t (mview m') = (alive t (mview (S (pickAddress cl (store_key prefix sid)))))(store_key prefix sid := x)"
  shows "alive t (mc_raw mview cl prefix (S(pickAddress cl (store_key prefix sid) := m')))
    = (alive t (mc_raw mview cl prefix S))(sid := x)"
proof
  show "alive t (mc_raw mview cl prefix (S(pickAddress cl (store_key prefix sid) := m'))) i
      = ((alive t (mc_raw mview cl prefix S))(sid := x)) i" for i
    using assms store_key_inj [of prefix i sid] by (auto simp: alive_raw)
qed

text \<open>Results as the abstract store gives them; it never gives the value of a panic.\<close>

definition as_result :: "'v outcome \<Rightarrow> 'v result" where
  "as_result r = (case r of Ok v \<Rightarrow> Inr v | Err e \<Rightarrow> Inl e | Panic p \<Rightarrow> Inl (ENew p))"

definition as_error :: "unit outcome \<Rightarrow> err option" where
  "as_error r = (case r of Ok _ \<Rightarrow> None | Err e \<Rightarrow> Some e | Panic p \<Rightarrow> Some (ENew p))"

definition mc_load :: "mc_wire \<Rightarrow> 'm mc_serve \<Rightarrow> mc_client \<Rightarrow> 'd codec \<Rightarrow> string \<Rightarrow> ('d, 'm mc_cluster) load_op" where
  "mc_load W serve cl C prefix t k S = apfst as_result (session_memcached_Load W serve cl C prefix t k S)"

definition mc_save ::
  "(int \<Rightarrow> gotime) \<Rightarrow> mc_wire \<Rightarrow> 'm mc_serve \<Rightarrow> mc_client \<Rightarrow> 'd codec \<Rightarrow> string \<Rightarrow> ('d, 'm mc_cluster) save_op" where
  "mc_save now W serve cl C prefix t k d ttl S =
     apfst as_error (session_memcached_Save W serve cl C prefix (now t) t k d ttl S)"

definition mc_delete :: "mc_wire \<Rightarrow> 'm mc_serve \<Rightarrow> mc_client \<Rightarrow> string \<Rightarrow> 'm mc_cluster delete_op" where
  "mc_delete W serve cl prefix t k S = apfst as_error (memcached_Delete W serve cl prefix t k S)"

definition mc_touch :: "(int \<Rightarrow> gotime) \<Rightarrow> mc_wire \<Rightarrow> 'm mc_serve \<Rightarrow> mc_client \<Rightarrow> string \<Rightarrow> 'm mc_cluster touch_op" where
  "mc_touch now W serve cl prefix t k ttl S =
     apfst as_error (session_memcached_Touch W serve cl prefix (now t) t k ttl S)"

text \<open>The calls within the limits of the protocol.\<close>

fun mc_call :: "nat \<Rightarrow> 'd codec \<Rightarrow> string \<Rightarrow> 'd store_call \<Rightarrow> bool" where
  "mc_call limit C prefix (LoadAt t k) = plain_key (store_key prefix k)"
| "mc_call limit C prefix (SaveAt t k d ttl) =
     (plain_key (store_key prefix k) \<and> ttl \<le> absoluteTTLThreshold
      \<and> (\<exists>raw. c_Marshal C d = Inr raw \<and> c_Unmarshal C raw = Inr d \<and> mc_payload limit C raw))"
| "mc_call limit C prefix (DeleteAt t k) = plain_key (store_key prefix k)"
| "mc_call limit C prefix (TouchAt t k ttl) =
     (plain_key (store_key prefix k) \<and> 0 < ttl \<and> ttl \<le> absoluteTTLThreshold)"

locale memcached_sessions = memcached_server serve mview limit
  for serve :: "'m mc_serve" and mview :: "'m \<Rightarrow> string entries" and limit :: nat +
  fixes W :: mc_wire and cl :: mc_client and C :: "'d codec" and prefix :: string
  assumes healthy: "healthy W"
begin

abbreviation raws where "raws \<equiv> mc_raw mview cl prefix"
abbreviation ents where "ents \<equiv> mc_entries mview cl C prefix"
abbreviation okS where "okS \<equiv> mc_ok mview limit cl C prefix"

lemma load_call:
  assumes "okS S" and "plain_key (store_key prefix sid)" and "session_memcached_Load W serve cl C prefix t sid S = (r, S')"
  shows "as_result r = spec_load (ESentinel SessionNotFound) t sid (ents S)" "alive t (ents S') = alive t (ents S)" "okS S'"
proof -
  let ?k = "store_key prefix sid" and ?a = "pickAddress cl (store_key prefix sid)"
  obtain m' where m': "serve t (''get '' @ ?k @ crlf) (S ?a) = (get_answer ?k (alive t (mview (S ?a)) ?k), m')"
    and al: "alive t (mview m') = alive t (mview (S ?a))" and sub: "mview m' \<subseteq>\<^sub>m mview (S ?a)"
    using get [OF assms(2)] by blast
  have g: "mc_Get W serve cl t ?k S = (parse_get W (get_answer ?k (alive t (raws S) sid)), S(?a := m'))"
    using m' by (simp add: mc_Get_def get_request_def mc_exchange_healthy [OF healthy] alive_raw)
  have r: "r = (case alive t (raws S) sid of None \<Rightarrow> Err (ESentinel SessionNotFound)
       | Some (raw, e) \<Rightarrow> Ok (projr (c_Unmarshal C raw))) \<and> S' = S(?a := m')"
  proof (cases "alive t (raws S) sid")
    case None
    then show ?thesis using assms(3) g not_found_recognised
      by (simp add: session_memcached_Load_def parse_get_missing)
  next
    case (Some x)
    obtain raw e where x: "x = (raw, e)" by (cases x)
    then have "raws S sid = Some (raw, e)" using Some by (auto dest: alive_Some)
    then have p: "mc_payload limit C raw" using mc_okD [OF assms(1)] by blast
    then have "fits64 (int (length raw))" by (intro fits64_between [OF limit]) (simp_all add: mc_payload_def)
    from parse_get_found [OF assms(2) this] have "mc_Get W serve cl t ?k S = (Ok raw, S(?a := m'))"
      using g Some x by simp
    moreover obtain d where "c_Unmarshal C raw = Inr d" "raw \<noteq> []" using p by (auto simp: mc_payload_def)
    ultimately show ?thesis using assms(3) Some x by (simp add: session_memcached_Load_def)
  qed
  show "as_result r = spec_load (ESentinel SessionNotFound) t sid (ents S)"
  proof (cases "alive t (raws S) sid")
    case (Some x)
    obtain raw e where x: "x = (raw, e)" by (cases x)
    then have "raws S sid = Some (raw, e)" using Some by (auto dest: alive_Some)
    then obtain d where "c_Unmarshal C raw = Inr d" using mc_okD [OF assms(1), of sid raw e] by (auto simp: mc_payload_def)
    then show ?thesis using r Some x by (simp add: as_result_def spec_load_def alive_entries decoded_def)
  qed (use r in \<open>simp add: as_result_def spec_load_def alive_entries\<close>)
  have "alive t (raws S') = alive t (raws S)"
    using r al alive_raw_upd [of t mview m' S cl prefix sid "alive t (mview (S ?a)) ?k"]
    by (simp add: alive_raw fun_upd_idem)
  then show "alive t (ents S') = alive t (ents S)" by (simp add: fun_eq_iff alive_entries)
  show "okS S'" using r mc_ok_sub [OF mc_raw_sub [where mview = mview and S = S and a = ?a, OF sub] assms(1)] by simp
qed

lemma save_call:
  assumes "okS S" and "plain_key (store_key prefix sid)" and "c_Marshal C d = Inr raw" and "c_Unmarshal C raw = Inr d"
    and "mc_payload limit C raw" and "ttl \<le> absoluteTTLThreshold"
    and "session_memcached_Save W serve cl C prefix now t sid d ttl S = (r, S')"
  shows "r = Ok ()" "ents S' = spec_save mc_span t sid d ttl (ents S)" "okS S'"
proof -
  let ?k = "store_key prefix sid" and ?a = "pickAddress cl (store_key prefix sid)" and ?e = "TTLToSeconds now ttl"
  have len: "length raw \<le> limit" using assms(5) by (simp add: mc_payload_def)
  obtain m' where m': "serve t (''set '' @ ?k @ '' 0 '' @ itoa ?e @ '' '' @ show_nat (length raw) @ crlf @ raw @ crlf) (S ?a)
      = (''STORED'' @ crlf, m')" and v: "mview m' = (mview (S ?a))(?k \<mapsto> (raw, mc_deadline t ?e))"
    using set_ [OF assms(2) len TTLToSeconds_deadline(2,3) [OF assms(6)]] by blast
  have c: "concat (set_request ?k ?e raw) = ''set '' @ ?k @ '' 0 '' @ itoa ?e @ '' '' @ show_nat (length raw) @ crlf @ raw @ crlf"
    by (simp add: set_request_def)
  have "mc_Set W serve cl now t ?k raw ttl S = (Ok (), S(?a := m'))"
    unfolding mc_Set_def using m' c parse_answers(1) by (simp add: mc_exchange_healthy [OF healthy])
  then have r: "r = Ok ()" "S' = S(?a := m')" using assms(3,7) by (auto simp: session_memcached_Save_def)
  show "r = Ok ()" by (rule r)
  have raw': "raws S' = (raws S)(sid \<mapsto> (raw, mc_deadline t ?e))"
    using mc_raw_other [of prefix sid mview m' S cl] v r(2) by simp
  then show "ents S' = spec_save mc_span t sid d ttl (ents S)"
    using TTLToSeconds_deadline(1) [OF assms(6)] assms(4)
    by (auto simp: fun_eq_iff mc_entries_def spec_save_def decoded_def)
  show "okS S'" using raw' assms(1,5) by (simp add: mc_ok_def)
qed

lemma delete_call:
  assumes "okS S" and "plain_key (store_key prefix sid)" and "memcached_Delete W serve cl prefix t sid S = (r, S')"
  shows "r = Ok ()" "alive t (ents S') = (alive t (ents S))(sid := None)" "okS S'"
proof -
  let ?k = "store_key prefix sid" and ?a = "pickAddress cl (store_key prefix sid)"
  obtain m' where m': "serve t (''delete '' @ ?k @ crlf) (S ?a)
      = ((if alive t (mview (S ?a)) ?k = None then ''NOT_FOUND'' else ''DELETED'') @ crlf, m')"
    and al: "alive t (mview m') = (alive t (mview (S ?a)))(?k := None)" and sub: "mview m' \<subseteq>\<^sub>m mview (S ?a)"
    using delete [OF assms(2)] by blast
  have "mc_Delete W serve cl t ?k S
      = (if alive t (mview (S ?a)) ?k = None then Err (ENew ''not found'') else Ok (), S(?a := m'))"
  proof -
    have "serve t (concat (delete_request ?k)) (S ?a) = ((if alive t (mview (S ?a)) ?k = None then ''NOT_FOUND'' else ''DELETED'') @ crlf, m')"
      using m' by (simp add: delete_request_def)
    from mc_exchange_healthy [where serve = serve and S = S and cl = cl and key = ?k and parse = "parse_done W ''delete'' ''DELETED''", OF healthy this] show ?thesis unfolding mc_Delete_def parse_answers(2) .
  qed
  then have r: "r = Ok ()" "S' = S(?a := m')"
    using assms(3) not_found_recognised by (auto simp: memcached_Delete_def split: if_splits)
  show "r = Ok ()" by (rule r)
  have "alive t (raws S') = (alive t (raws S))(sid := None)" using alive_raw_upd [where S = S and mview = mview and cl = cl and sid = sid, OF al] r(2) by simp
  then show "alive t (ents S') = (alive t (ents S))(sid := None)" by (auto simp: fun_eq_iff alive_entries)
  show "okS S'" using r mc_ok_sub [OF mc_raw_sub [where mview = mview and S = S and a = ?a, OF sub] assms(1)] by simp
qed

lemma touch_call:
  assumes "okS S" and "plain_key (store_key prefix sid)" and "0 < ttl" and "ttl \<le> absoluteTTLThreshold"
    and "session_memcached_Touch W serve cl prefix now t sid ttl S = (r, S')"
  shows "as_error r = (if alive t (ents S) sid = None then Some (ESentinel SessionNotFound) else None)"
    "ents S' = spec_touch ceil_seconds t sid ttl (ents S)" "okS S'"
proof -
  let ?k = "store_key prefix sid" and ?a = "pickAddress cl (store_key prefix sid)" and ?e = "TTLToSeconds now ttl"
  obtain m' where m': "serve t (''touch '' @ ?k @ '' '' @ itoa ?e @ crlf) (S ?a)
      = ((if alive t (mview (S ?a)) ?k = None then ''NOT_FOUND'' else ''TOUCHED'') @ crlf, m')"
    and v: "mview m' = (case alive t (mview (S ?a)) ?k of None \<Rightarrow> mview (S ?a)
        | Some (v, _) \<Rightarrow> (mview (S ?a))(?k \<mapsto> (v, mc_deadline t ?e)))"
    using touch [OF assms(2) TTLToSeconds_deadline(2,3) [OF assms(4)]] by blast
  have "mc_Touch W serve cl now t ?k ttl S
      = (if alive t (raws S) sid = None then Err (ENew ''not found'') else Ok (), S(?a := m'))"
  proof -
    have "serve t (concat (touch_request ?k ?e)) (S ?a) = ((if alive t (mview (S ?a)) ?k = None then ''NOT_FOUND'' else ''TOUCHED'') @ crlf, m')"
      using m' by (simp add: touch_request_def)
    from mc_exchange_healthy [where serve = serve and S = S and cl = cl and key = ?k and parse = "parse_done W ''touch'' ''TOUCHED''", OF healthy this] show ?thesis unfolding mc_Touch_def parse_answers(3) alive_raw .
  qed
  then have r: "r = (if alive t (raws S) sid = None then Err (ESentinel SessionNotFound) else Ok ())" "S' = S(?a := m')"
    using assms(5) not_found_recognised by (auto simp: session_memcached_Touch_def split: if_splits)
  have dl: "mc_deadline t ?e = Some (t + ceil_seconds ttl)"
    using TTLToSeconds_deadline(1) [OF assms(4)] assms(3) by (simp add: mc_span_def)
  have raw': "raws S' = (case alive t (raws S) sid of None \<Rightarrow> raws S
      | Some (v, _) \<Rightarrow> (raws S)(sid \<mapsto> (v, Some (t + ceil_seconds ttl))))"
    using mc_raw_other [of prefix sid mview m' S cl] v r(2) dl
    by (auto simp: alive_raw mc_raw_def fun_eq_iff split: option.splits)
  have dec: "\<exists>d. c_Unmarshal C v = Inr d" "mc_payload limit C v" if "alive t (raws S) sid = Some (v, e)" for v e
  proof -
    have "raws S sid = Some (v, e)" using that by (auto dest: alive_Some)
    then show "mc_payload limit C v" using mc_okD [OF assms(1)] by blast
    then show "\<exists>d. c_Unmarshal C v = Inr d" by (simp add: mc_payload_def)
  qed
  show "as_error r = (if alive t (ents S) sid = None then Some (ESentinel SessionNotFound) else None)"
    using r(1) dec(1) by (auto simp: as_error_def alive_entries decoded_def split: option.splits sum.splits)
  show "ents S' = spec_touch ceil_seconds t sid ttl (ents S)"
  proof (cases "alive t (raws S) sid")
    case None
    then show ?thesis using raw' by (simp add: spec_touch_def alive_entries mc_entries_def fun_eq_iff)
  next
    case (Some x)
    then obtain v e where x: "x = (v, e)" by (cases x)
    obtain d where "c_Unmarshal C v = Inr d" using dec(1) Some x by blast
    then show ?thesis using raw' Some x by (auto simp: spec_touch_def alive_entries mc_entries_def fun_eq_iff decoded_def)
  qed
  show "okS S'" using raw' assms(1) dec(2) by (auto simp: mc_ok_def split: option.splits prod.splits if_splits)
qed

lemma step_call:
  assumes "mc_call limit C prefix c" and "okS S" and "alive (at c) (ents S) = alive (at c) m"
  shows "one_step (mc_load W serve cl C prefix) (mc_save now W serve cl C prefix) (mc_delete W serve cl prefix)
      (mc_touch now W serve cl prefix) (ESentinel SessionNotFound) mc_span ceil_seconds okS ents c S m"
proof (cases c)
  case (LoadAt t k)
  obtain r S' where r: "session_memcached_Load W serve cl C prefix t k S = (r, S')" by (rule prod.exhaust)
  have "plain_key (store_key prefix k)" using assms(1) LoadAt by simp
  from load_call [OF assms(2) this r] show ?thesis using r LoadAt assms(3) unfolding one_step_def
    by (intro exI [of _ "Loaded (as_result r)"] exI [of _ S'] exI [of _ m]) (simp add: mc_load_def spec_load_def)
next
  case (SaveAt t k d ttl)
  then obtain raw where p: "plain_key (store_key prefix k)" "c_Marshal C d = Inr raw" "c_Unmarshal C raw = Inr d"
    "mc_payload limit C raw" "ttl \<le> absoluteTTLThreshold" using assms(1) by auto
  obtain r S' where r: "session_memcached_Save W serve cl C prefix (now t) t k d ttl S = (r, S')" by (rule prod.exhaust)
  have "alive t (spec_save mc_span t k d ttl (ents S)) = alive t (spec_save mc_span t k d ttl m)"
    by (rule alive_save) (use assms(3) SaveAt in simp)
  with save_call [OF assms(2) p r] show ?thesis using r SaveAt unfolding one_step_def
    by (intro exI [of _ "Done None"] exI [of _ S'] exI [of _ "spec_save mc_span t k d ttl m"])
      (simp add: mc_save_def as_error_def)
next
  case (DeleteAt t k)
  obtain r S' where r: "memcached_Delete W serve cl prefix t k S = (r, S')" by (rule prod.exhaust)
  have "plain_key (store_key prefix k)" using assms(1) DeleteAt by simp
  from delete_call [OF assms(2) this r] show ?thesis using r DeleteAt assms(3) unfolding one_step_def
    by (intro exI [of _ "Done None"] exI [of _ S'] exI [of _ "m(k := None)"]) (simp add: mc_delete_def as_error_def)
next
  case (TouchAt t k ttl)
  then have p: "plain_key (store_key prefix k)" "0 < ttl" "ttl \<le> absoluteTTLThreshold" using assms(1) by auto
  obtain r S' where r: "session_memcached_Touch W serve cl prefix (now t) t k ttl S = (r, S')" by (rule prod.exhaust)
  have "alive t (spec_touch ceil_seconds t k ttl (ents S)) = alive t (spec_touch ceil_seconds t k ttl m)"
    using assms(3) TouchAt by (auto simp: spec_touch_def split: option.splits)
  with touch_call [OF assms(2) p r] show ?thesis using r TouchAt assms(3) unfolding one_step_def
    by (intro exI [of _ "Done (as_error r)"] exI [of _ S'] exI [of _ "spec_touch ceil_seconds t k ttl m"])
      (simp add: mc_touch_def)
qed

lemma call_trace:
  assumes "ordered_from t cs" and "\<forall>c \<in> set cs. mc_call limit C prefix c" and "okS S"
  shows "store_calls (mc_load W serve cl C prefix) (mc_save now W serve cl C prefix) (mc_delete W serve cl prefix)
      (mc_touch now W serve cl prefix) cs S
    = spec_calls (ESentinel SessionNotFound) mc_span ceil_seconds cs (ents S)"
  by (rule calls_simulate [where view = ents and ok = okS, OF _ assms refl]) (rule step_call)

end

section \<open>A server in memory\<close>

definition mem_serve :: "string entries mc_serve" where
  "mem_serve t req m =
     (case read_line req of
        None \<Rightarrow> (''ERROR'' @ crlf, m)
      | Some (l, rest) \<Rightarrow>
          (case split_on CHR '' '' (take (length l - 2) l) of
             [w, k] \<Rightarrow>
               (if w = ''get'' then (get_answer k (alive t m k), m)
                else if w = ''delete''
                then ((if alive t m k = None then ''NOT_FOUND'' else ''DELETED'') @ crlf, m(k := None))
                else (''ERROR'' @ crlf, m))
           | [w, k, x] \<Rightarrow>
               (case (w = ''touch'', parse_int x) of
                  (True, Some e) \<Rightarrow>
                    ((if alive t m k = None then ''NOT_FOUND'' else ''TOUCHED'') @ crlf,
                     case alive t m k of None \<Rightarrow> m | Some (v, _) \<Rightarrow> m(k \<mapsto> (v, mc_deadline t e)))
                | _ \<Rightarrow> (''ERROR'' @ crlf, m))
           | [w, k, f, x, n] \<Rightarrow>
               (case (w = ''set'', parse_int x, parse_int n) of
                  (True, Some e, Some n) \<Rightarrow> (''STORED'' @ crlf, m(k \<mapsto> (take (nat n) rest, mc_deadline t e)))
                | _ \<Rightarrow> (''ERROR'' @ crlf, m))
           | _ \<Rightarrow> (''ERROR'' @ crlf, m)))"

lemma request_line:
  assumes "\<forall>w \<in> set ws. CHR '' '' \<notin> set w \<and> CHR 0x0A \<notin> set w" and "ws \<noteq> []"
  shows "\<exists>l. read_line (join_with '' '' ws @ crlf @ rest) = Some (l, rest) \<and> split_on CHR '' '' (take (length l - 2) l) = ws"
proof -
  have "CHR 0x0A \<notin> set (join_with '' '' ws @ [CHR 0x0D])"
    using assms(1) set_join_with [of "'' ''" ws] by auto
  from read_line_append [OF this, of rest] show ?thesis
    using split_join [of ws "CHR '' ''"] assms by (intro exI [of _ "join_with '' '' ws @ crlf"]) simp
qed

lemma mem_words: "plain_key k \<Longrightarrow> CHR '' '' \<notin> set k \<and> CHR 0x0A \<notin> set k"
  "CHR '' '' \<notin> set (itoa e) \<and> CHR 0x0A \<notin> set (itoa e)"
  "CHR '' '' \<notin> set (show_nat n) \<and> CHR 0x0A \<notin> set (show_nat n)"
  using plain_chars digit_chars itoa_chars [of e] by (auto simp: is_digit_def)

lemma parse_int_show_nat: "fits64 (int n) \<Longrightarrow> parse_int (show_nat n) = Some (int n)"
  using parse_int_itoa [of "int n"] by (simp add: itoa_def)

lemma mem_serve_get:
  assumes "plain_key k"
  shows "mem_serve t (''get '' @ k @ crlf) m = (get_answer k (alive t m k), m)"
proof -
  obtain l where "read_line (join_with '' '' [''get'', k] @ crlf @ []) = Some (l, [])"
    "split_on CHR '' '' (take (length l - 2) l) = [''get'', k]"
    using request_line [of "[''get'', k]" "[]"] mem_words(1) [OF assms] by auto
  then show ?thesis by (simp add: mem_serve_def)
qed

lemma mem_serve_delete:
  assumes "plain_key k"
  shows "mem_serve t (''delete '' @ k @ crlf) m = ((if alive t m k = None then ''NOT_FOUND'' else ''DELETED'') @ crlf, m(k := None))"
proof -
  obtain l where "read_line (join_with '' '' [''delete'', k] @ crlf @ []) = Some (l, [])"
    "split_on CHR '' '' (take (length l - 2) l) = [''delete'', k]"
    using request_line [of "[''delete'', k]" "[]"] mem_words(1) [OF assms] by auto
  then show ?thesis by (simp add: mem_serve_def)
qed

lemma mem_serve_touch:
  assumes "plain_key k" and "fits64 e"
  shows "mem_serve t (''touch '' @ k @ '' '' @ itoa e @ crlf) m
    = ((if alive t m k = None then ''NOT_FOUND'' else ''TOUCHED'') @ crlf,
       case alive t m k of None \<Rightarrow> m | Some (v, _) \<Rightarrow> m(k \<mapsto> (v, mc_deadline t e)))"
proof -
  obtain l where "read_line (join_with '' '' [''touch'', k, itoa e] @ crlf @ []) = Some (l, [])"
    "split_on CHR '' '' (take (length l - 2) l) = [''touch'', k, itoa e]"
    using request_line [of "[''touch'', k, itoa e]" "[]"] mem_words(1) [OF assms(1)] mem_words(2) [of e] by auto
  then show ?thesis using assms(2) by (simp add: mem_serve_def)
qed

lemma mem_serve_set:
  assumes "plain_key k" and "fits64 e" and "fits64 (int (length v))"
  shows "mem_serve t (''set '' @ k @ '' 0 '' @ itoa e @ '' '' @ show_nat (length v) @ crlf @ v @ crlf) m
    = (''STORED'' @ crlf, m(k \<mapsto> (v, mc_deadline t e)))"
proof -
  let ?ws = "[''set'', k, ''0'', itoa e, show_nat (length v)]"
  obtain l where "read_line (join_with '' '' ?ws @ crlf @ v @ crlf) = Some (l, v @ crlf)"
    "split_on CHR '' '' (take (length l - 2) l) = ?ws"
    using request_line [of ?ws "v @ crlf"] mem_words(1) [OF assms(1)] mem_words(2) [of e] mem_words(3) [of "length v"] by auto
  then show ?thesis using assms(2) parse_int_show_nat [OF assms(3)] by (simp add: mem_serve_def)
qed

interpretation mcmem: memcached_server mem_serve "\<lambda>m. m" 1000000
proof
  have f: "fits64 x" if "0 \<le> x" "x < 2 ^ 31" for x :: int using that by (simp add: fits64_def)
  show "fits64 (int 1000000)" by (simp add: fits64_def)
  show "\<exists>m'. mem_serve t (''get '' @ k @ crlf) m = (get_answer k (alive t m k), m')
      \<and> alive t m' = alive t m \<and> m' \<subseteq>\<^sub>m m" if "plain_key k" for k t m
    using mem_serve_get [OF that] by simp
  show "\<exists>m'. mem_serve t (''delete '' @ k @ crlf) m = ((if alive t m k = None then ''NOT_FOUND'' else ''DELETED'') @ crlf, m')
      \<and> alive t m' = (alive t m)(k := None) \<and> m' \<subseteq>\<^sub>m m" if "plain_key k" for k t m
    using mem_serve_delete [OF that] by (auto simp: map_le_def)
  show "\<exists>m'. mem_serve t (''touch '' @ k @ '' '' @ itoa e @ crlf) m
      = ((if alive t m k = None then ''NOT_FOUND'' else ''TOUCHED'') @ crlf, m')
      \<and> m' = (case alive t m k of None \<Rightarrow> m | Some (v, _) \<Rightarrow> m(k \<mapsto> (v, mc_deadline t e)))"
    if "plain_key k" "0 \<le> e" "e < 2 ^ 31" for k e t m
    using mem_serve_touch [OF that(1) f [OF that(2,3)]] by simp
  show "\<exists>m'. mem_serve t (''set '' @ k @ '' 0 '' @ itoa e @ '' '' @ show_nat (length v) @ crlf @ v @ crlf) m = (''STORED'' @ crlf, m')
      \<and> m' = m(k \<mapsto> (v, mc_deadline t e))"
    if "plain_key k" "length v \<le> 1000000" "0 \<le> e" "e < 2 ^ 31" for k v e t m
  proof -
    have "fits64 (int (length v))" using that(2) by (simp add: fits64_def)
    from mem_serve_set [OF that(1) f [OF that(3,4)] this] show ?thesis by simp
  qed
qed

definition clean_wire :: mc_wire where
  "clean_wire = \<lparr>mw_dial = (\<lambda>_. None), mw_deadline = None, mw_write = (\<lambda>_. None), mw_close = None, mw_read = ENew ''EOF''\<rparr>"

lemma clean_wire_healthy: "healthy clean_wire"
  by (simp add: healthy_def clean_wire_def)

definition two_servers :: mc_client where
  "two_servers = \<lparr>mcc_addresses = [''a:11211'', ''b:11211''], mcc_timeout = second\<rparr>"

interpretation mcses: memcached_sessions mem_serve "\<lambda>m. m" 1000000 clean_wire two_servers raw_codec "''session''"
  by unfold_locales (rule clean_wire_healthy)

section \<open>Limits\<close>

text \<open>A client that was made sends every key to one of its addresses.\<close>

lemma pickAddress_mem:
  assumes "mc_NewClientWithDial addresses timeout = Inr cl"
  shows "pickAddress cl key \<in> set (mcc_addresses cl)" "\<forall>a \<in> set (mcc_addresses cl). a \<noteq> []"
proof -
  have "mcc_addresses cl \<noteq> []" "\<forall>a \<in> set (mcc_addresses cl). a \<noteq> []"
    using assms by (auto simp: mc_NewClientWithDial_def Let_def split: if_splits)
  then show "pickAddress cl key \<in> set (mcc_addresses cl)" "\<forall>a \<in> set (mcc_addresses cl). a \<noteq> []"
    by (simp_all add: pickAddress_def)
qed

text \<open>
  Keys are not checked.  One with a blank asks for two keys, the second without the prefix, and
  one with a line end carries a second command.
\<close>

lemma key_injection:
  "concat (get_request (store_key prefix (a @ '' '' @ b))) = ''get '' @ store_key prefix a @ '' '' @ b @ crlf"
  "concat (delete_request (store_key prefix (a @ crlf @ cmd)))
     = concat (delete_request (store_key prefix a)) @ cmd @ crlf"
  by (simp_all add: get_request_def delete_request_def store_key_def)

text \<open>A negative size in an answer panics.\<close>

lemma negative_size_panics:
  "parse_get W (''VALUE k 0 -1'' @ crlf @ rest) = Panic ''runtime error: out of range''"
proof -
  have r: "read_line (''VALUE k 0 -1'' @ crlf @ rest) = Some (''VALUE k 0 -1'' @ crlf, rest)" by simp
  have t: "trim_space (''VALUE k 0 -1'' @ crlf) = ''VALUE k 0 -1''" by code_simp
  have f: "strings_Fields ''VALUE k 0 -1'' = [''VALUE'', ''k'', ''0'', ''-1'']" by code_simp
  have "parse_int ''-1'' = Some (-1)" by code_simp
  then show ?thesis unfolding parse_get_def r using t f by (simp add: Let_def)
qed

text \<open>A time to live of 0 or less, in memory over at once, never ends on a server.\<close>

lemma nonpositive_ttl_never_expires: "ttl \<le> 0 \<Longrightarrow> mc_deadline t (TTLToSeconds now ttl) = None"
  by (simp add: TTLToSeconds_def mc_deadline_def)

text \<open>Beyond 30 days the deadline is absolute, within a second of what was asked.\<close>

lemma long_ttl_deadline:
  assumes "absoluteTTLThreshold < ttl" and "t = now div second" and "0 < t"
  shows "mc_deadline t (TTLToSeconds now ttl) = Some ((now + ttl) div second)"
    and "t + ttl div second \<le> (now + ttl) div second" "(now + ttl) div second \<le> t + ceil_seconds ttl"
proof -
  have "60 * 60 * 24 * 30 < (now + ttl) div second"
    using assms by (simp add: absoluteTTLThreshold_def duration_units)
  then show "mc_deadline t (TTLToSeconds now ttl) = Some ((now + ttl) div second)"
    using assms(1) by (simp add: TTLToSeconds_def mc_deadline_def absoluteTTLThreshold_def duration_units)
  show "t + ttl div second \<le> (now + ttl) div second" using assms(2) by (simp add: duration_units)
  show "(now + ttl) div second \<le> t + ceil_seconds ttl"
    using assms(2) by (simp add: duration_units ceil_seconds_def)
qed

text \<open>The cache store is the session store with the identity as its codec, but for its error.\<close>

lemma cache_memcached_as_session:
  "cache_memcached_Set W serve cl prefix now t k v ttl S = session_memcached_Save W serve cl raw_codec prefix now t k v ttl S"
  "fst (cache_memcached_Get W serve cl prefix t k S) = Ok v \<longleftrightarrow> fst (session_memcached_Load W serve cl raw_codec prefix t k S) = Ok v"
  "snd (cache_memcached_Get W serve cl prefix t k S) = snd (session_memcached_Load W serve cl raw_codec prefix t k S)"
  by (auto simp: cache_memcached_Set_def session_memcached_Save_def cache_memcached_Get_def session_memcached_Load_def
      raw_codec_def split: prod.splits outcome.splits)

section \<open>Property\<close>

text \<open>C26.
  The Memcached session store is the map of sessions with deadlines: over servers that keep the
  text protocol, with the keys spread over them by their hash and a connection without errors,
  every sequence of \<^verbatim>\<open>Load\<close>, \<^verbatim>\<open>Save\<close>, \<^verbatim>\<open>Delete\<close> and \<^verbatim>\<open>Touch\<close> calls in the order of the clock returns what
  the abstract store returns, for keys the protocol allows, payloads that are not empty and within the limit
  of the server, and times to live of up to 30 days, which count in whole seconds, rounded up; no
  call panics.
\<close>

theorem session_memcached_refines:
  assumes "memcached_server serve mview limit" and "healthy W" and "mc_ok mview limit cl C prefix S"
    and "ordered_from t cs" and "\<forall>c \<in> set cs. mc_call limit C prefix c"
  shows "store_calls (mc_load W serve cl C prefix) (mc_save now W serve cl C prefix) (mc_delete W serve cl prefix)
      (mc_touch now W serve cl prefix) cs S
    = spec_calls (ESentinel SessionNotFound) mc_span ceil_seconds cs (mc_entries mview cl C prefix S)"
proof -
  have "memcached_sessions serve mview limit W"
    using assms(1,2) by (simp add: memcached_sessions_def memcached_sessions_axioms_def)
  from memcached_sessions.call_trace [OF this assms(4,5,3)] show ?thesis .
qed

theorem session_memcached_refines_witness:
  "store_calls (mc_load clean_wire mem_serve two_servers raw_codec ''session'')
      (mc_save (\<lambda>t. t * second) clean_wire mem_serve two_servers raw_codec ''session'')
      (mc_delete clean_wire mem_serve two_servers ''session'')
      (mc_touch (\<lambda>t. t * second) clean_wire mem_serve two_servers ''session'')
      [SaveAt 5 ''a'' ''x'' (second + 1), LoadAt 6 ''a'', SaveAt 6 ''b'' ''y'' 0, TouchAt 6 ''a'' (3 * second), LoadAt 8 ''a'',
       LoadAt 9 ''a'', LoadAt 900 ''b'', DeleteAt 900 ''b'', LoadAt 900 ''b''] (\<lambda>_. Map.empty)
    = [Done None, Loaded (Inr ''x''), Done None, Done None, Loaded (Inr ''x''),
       Loaded (Inl (ESentinel SessionNotFound)), Loaded (Inr ''y''), Done None, Loaded (Inl (ESentinel SessionNotFound))]"
proof -
  have k: "plain_key (store_key ''session'' ''a'')" "plain_key (store_key ''session'' ''b'')"
    by (simp_all add: plain_key_def store_key_def)
  have e: "mc_entries (\<lambda>m. m) two_servers raw_codec ''session'' (\<lambda>_. Map.empty) = Map.empty"
    by (simp add: fun_eq_iff mc_entries_def mc_raw_def)
  show ?thesis
    by (subst session_memcached_refines [OF mcmem.memcached_server_axioms clean_wire_healthy, where t = 0])
      (simp_all add: k e mc_ok_def mc_raw_def mc_payload_def raw_codec_def absoluteTTLThreshold_def duration_units
        spec_load_def spec_save_def spec_touch_def alive_def lives_def mc_span_def ceil_seconds_def)
qed

end
