(* ===== verification/Signature.thy ===== *)
theory Signature
  imports Http
begin

text \<open>
  \<^verbatim>\<open>pkg/http/httpsignature\<close>: requests signed with a shared secret, and the nonces that keep a signed
  request from being used twice.  The nonce store is an interface, locale \<open>nonce_store\<close>, which the
  in-memory store implements.  SHA-256, HMAC and the parser of RFC 3339 times are parameters.  The theory shows which
  requests reach the handler, what a signature covers, and under which relation of the time limits
  no request is accepted twice.
\<close>

section \<open>Decoding signatures\<close>

text \<open>
  \<^verbatim>\<open>base64.StdEncoding.DecodeString\<close>: line ends are skipped, padding is required, and the unused
  bits before it are ignored.
\<close>

definition b64_value :: "char \<Rightarrow> nat option" where
  "b64_value c =
     (if 65 \<le> byte c \<and> byte c \<le> 90 then Some (byte c - 65)
      else if 97 \<le> byte c \<and> byte c \<le> 122 then Some (byte c - 71)
      else if is_digit c then Some (byte c + 4)
      else if c = CHR ''+'' then Some 62
      else if c = CHR ''/'' then Some 63
      else None)"

definition b64_quantum :: "nat \<Rightarrow> nat \<Rightarrow> nat \<Rightarrow> nat \<Rightarrow> string" where
  "b64_quantum a b c d =
     [char_of (a * 4 + b div 16), char_of (b mod 16 * 16 + c div 4), char_of (c mod 4 * 64 + d)]"

fun b64_groups :: "string \<Rightarrow> string option" where
  "b64_groups [] = Some []"
| "b64_groups (w # x # y # z # rest) =
     (case (b64_value w, b64_value x, b64_value y, b64_value z) of
        (Some a, Some b, Some c, Some d) \<Rightarrow> map_option ((@) (b64_quantum a b c d)) (b64_groups rest)
      | (Some a, Some b, Some c, None) \<Rightarrow>
          (if z = CHR ''='' \<and> rest = [] then Some (take 2 (b64_quantum a b c 0)) else None)
      | (Some a, Some b, None, _) \<Rightarrow>
          (if y = CHR ''='' \<and> z = CHR ''='' \<and> rest = [] then Some (take 1 (b64_quantum a b 0 0)) else None)
      | _ \<Rightarrow> None)"
| "b64_groups _ = None"

definition b64_decode :: "string \<Rightarrow> string option" where
  "b64_decode s = b64_groups (filter (\<lambda>c. c \<noteq> CHR 0x0A \<and> c \<noteq> CHR 0x0D) s)"

definition decodeSignature :: "string \<Rightarrow> string option" where
  "decodeSignature raw =
     (let v0 = trim_space raw; v = (if has_prefix v0 ''sha256='' then drop 7 v0 else v0) in
      if v = [] then None else b64_decode v)"

section \<open>Nonces\<close>

type_synonym nonce_items = "string \<rightharpoonup> gotime"

definition nonce_Use :: "gotime \<Rightarrow> string \<Rightarrow> duration \<Rightarrow> nonce_items \<Rightarrow> bool \<times> nonce_items" where
  "nonce_Use now key ttl items =
     (if blank key then (False, items)
      else let kept = (\<lambda>k. case items k of None \<Rightarrow> None | Some e \<Rightarrow> if e < now then None else Some e) in
        case kept key of
          Some e \<Rightarrow> (if now < e then (False, kept) else (True, kept(key \<mapsto> now + ttl)))
        | None \<Rightarrow> (True, kept(key \<mapsto> now + ttl)))"

section \<open>Configuration\<close>

record sig_config =
  sg_Enabled :: bool
  sg_KeyProvider :: "(string \<Rightarrow> string result) option"
  sg_NonceStore :: bool
  sg_KeyIDHeader :: string
  sg_TimestampHeader :: string
  sg_NonceHeader :: string
  sg_SignatureHeader :: string
  sg_MaxClockSkew :: duration
  sg_NonceTTL :: duration
  sg_RequireNonce :: bool
  sg_ExcludedPathPrefixes :: "string list"

text \<open>\<open>sg_NonceStore\<close> tells whether a nonce store is set; its operation is an argument of the middleware.\<close>

definition sig_DefaultConfig :: sig_config where
  "sig_DefaultConfig =
     \<lparr>sg_Enabled = True, sg_KeyProvider = None, sg_NonceStore = True, sg_KeyIDHeader = ''X-Key-Id'',
      sg_TimestampHeader = ''X-Timestamp'', sg_NonceHeader = ''X-Nonce'', sg_SignatureHeader = ''X-Signature'',
      sg_MaxClockSkew = 5 * minute, sg_NonceTTL = 10 * minute, sg_RequireNonce = True,
      sg_ExcludedPathPrefixes = [''/health'', ''/metrics'', ''/ready'', ''/version'']\<rparr>"

definition sig_normalizeConfig :: "sig_config \<Rightarrow> sig_config" where
  "sig_normalizeConfig cfg =
     (let dflt = sig_DefaultConfig in
      cfg\<lparr>sg_KeyIDHeader := (if blank (sg_KeyIDHeader cfg) then sg_KeyIDHeader dflt else sg_KeyIDHeader cfg),
          sg_TimestampHeader := (if blank (sg_TimestampHeader cfg) then sg_TimestampHeader dflt else sg_TimestampHeader cfg),
          sg_NonceHeader := (if blank (sg_NonceHeader cfg) then sg_NonceHeader dflt else sg_NonceHeader cfg),
          sg_SignatureHeader := (if blank (sg_SignatureHeader cfg) then sg_SignatureHeader dflt else sg_SignatureHeader cfg),
          sg_MaxClockSkew := pos_or (sg_MaxClockSkew cfg) (sg_MaxClockSkew dflt),
          sg_NonceTTL := pos_or (sg_NonceTTL cfg) (sg_NonceTTL dflt),
          sg_NonceStore := (sg_NonceStore cfg \<or> sg_RequireNonce cfg),
          sg_ExcludedPathPrefixes := (if sg_ExcludedPathPrefixes cfg = [] then sg_ExcludedPathPrefixes dflt
             else sg_ExcludedPathPrefixes cfg)\<rparr>)"

fun isExcluded :: "string \<Rightarrow> string list \<Rightarrow> bool" where
  "isExcluded path [] = False"
| "isExcluded path (p # ps) =
     (if trim_space p \<noteq> [] \<and> has_prefix path (trim_space p) then True else isExcluded path ps)"

text \<open>The map of \<^verbatim>\<open>StaticKeyProvider\<close>.\<close>

definition StaticKeyProvider :: "(string \<rightharpoonup> string) \<Rightarrow> string \<Rightarrow> string result" where
  "StaticKeyProvider p keyID =
     (case p keyID of
        None \<Rightarrow> Inl (ENew ''unknown key id'')
      | Some secret \<Rightarrow> (if blank secret then Inl (ENew ''unknown key id'') else Inr secret))"

section \<open>Requests\<close>

text \<open>
  What the middleware reads of a request: the path, the path as \<^verbatim>\<open>EscapedPath\<close> writes it, and the body,
  which may be nil or fail when it is read.
\<close>

record sig_request =
  sr_Method :: string
  sr_Path :: string
  sr_EscapedPath :: string
  sr_RawQuery :: string
  sr_Header :: header
  sr_Body :: "string result option"

definition readAndRestoreBody :: "sig_request \<Rightarrow> string result" where
  "readAndRestoreBody req = (case sr_Body req of None \<Rightarrow> Inr [] | Some r \<Rightarrow> r)"

text \<open>Seconds since 1970 as \<^verbatim>\<open>time.Unix\<close> takes them, shifted to year 1 in 64 bits, or RFC 3339.\<close>

definition sig_parseTimestamp :: "(string \<Rightarrow> gotime option) \<Rightarrow> string \<Rightarrow> gotime option" where
  "sig_parseTimestamp rfc3339 raw =
     (if raw = [] then None
      else case parse_int raw of
          Some unixSec \<Rightarrow> Some (i64 (unixSec + 62135596800) * second)
        | None \<Rightarrow> rfc3339 raw)"

definition request_uri :: "sig_request \<Rightarrow> string" where
  "request_uri req = sr_EscapedPath req @ (if sr_RawQuery req \<noteq> [] then ''?'' @ sr_RawQuery req else [])"

definition buildPayload :: "(string \<Rightarrow> string) \<Rightarrow> sig_request \<Rightarrow> string \<Rightarrow> string \<Rightarrow> string \<Rightarrow> string" where
  "buildPayload sha req timestamp nonce body =
     join_with [CHR 0x0A] [to_upper (sr_Method req), request_uri req, timestamp, nonce, hex (sha body)]"

section \<open>The middleware\<close>

text \<open>The hash functions, the time parser and the operation of the nonce store.\<close>

record 's sig_env =
  se_sha :: "string \<Rightarrow> string"
  se_hmac :: "string \<Rightarrow> string \<Rightarrow> string"
  se_rfc3339 :: "string \<Rightarrow> gotime option"
  se_use :: "gotime \<Rightarrow> string \<Rightarrow> duration \<Rightarrow> 's \<Rightarrow> bool \<times> 's"

definition sig_field :: "(sig_config \<Rightarrow> string) \<Rightarrow> sig_config \<Rightarrow> sig_request \<Rightarrow> string" where
  "sig_field f cfg req = trim_space (header_get (sr_Header req) (f cfg))"

text \<open>The checks up to the signature: \<open>Inl\<close> the reason of the refusal, \<open>Inr\<close> the key and the nonce.\<close>

definition sig_verify :: "'s sig_env \<Rightarrow> sig_config \<Rightarrow> gotime \<Rightarrow> sig_request \<Rightarrow> string + string \<times> string" where
  "sig_verify V cfg now req =
     (case sg_KeyProvider cfg of
        None \<Rightarrow> Inl ''missing_key_provider''
      | Some secretForKey \<Rightarrow>
     (let keyID = sig_field sg_KeyIDHeader cfg req; timestampRaw = sig_field sg_TimestampHeader cfg req;
          signatureRaw = sig_field sg_SignatureHeader cfg req; nonce = sig_field sg_NonceHeader cfg req in
      if keyID = [] then Inl ''missing_key_id''
      else if timestampRaw = [] then Inl ''missing_timestamp''
      else if signatureRaw = [] then Inl ''missing_signature''
      else if sg_RequireNonce cfg \<and> nonce = [] then Inl ''missing_nonce''
      else case sig_parseTimestamp (se_rfc3339 V) timestampRaw of
          None \<Rightarrow> Inl ''invalid_timestamp''
        | Some timestamp \<Rightarrow>
            (let skew = time_sub now timestamp in
             if skew > sg_MaxClockSkew cfg \<or> skew < - sg_MaxClockSkew cfg then Inl ''timestamp_out_of_window''
             else case secretForKey keyID of
                 Inl _ \<Rightarrow> Inl ''unknown_key_id''
               | Inr secret \<Rightarrow>
                   (if secret = [] then Inl ''unknown_key_id''
                    else case readAndRestoreBody req of
                        Inl _ \<Rightarrow> Inl ''invalid_body''
                      | Inr body \<Rightarrow>
                          (if decodeSignature signatureRaw
                              = Some (se_hmac V secret (buildPayload (se_sha V) req timestampRaw nonce body))
                           then Inr (keyID, nonce) else Inl ''invalid_signature'')))))"

text \<open>
  The middleware on a request at the time \<open>now\<close> of the check of the timestamp and \<open>later\<close> of the use of
  the nonce, after the body was read: 401 with the reason, or the key with which the handler runs
  (\<^term>\<open>None\<close> when the request was not authenticated).
\<close>

definition sig_Middleware ::
  "'s sig_env \<Rightarrow> sig_config \<Rightarrow> gotime \<Rightarrow> gotime \<Rightarrow> sig_request \<Rightarrow> 's \<Rightarrow> string option outcome \<times> 's" where
  "sig_Middleware V cfg0 now later req s =
     (let cfg = sig_normalizeConfig cfg0 in
      if \<not> sg_Enabled cfg then (Proceed None, s)
      else if isExcluded (sr_Path req) (sg_ExcludedPathPrefixes cfg) then (Proceed None, s)
      else case sig_verify V cfg now req of
          Inl reason \<Rightarrow> (Answer 401 reason, s)
        | Inr (keyID, nonce) \<Rightarrow>
            (if sg_RequireNonce cfg \<and> sg_NonceStore cfg then
               (case se_use V later (keyID @ '':'' @ nonce) (sg_NonceTTL cfg) s of
                  (False, s') \<Rightarrow> (Answer 401 ''replayed_request'', s')
                | (True, s') \<Rightarrow> (Proceed (Some keyID), s'))
             else (Proceed (Some keyID), s)))"

section \<open>What is accepted\<close>

text \<open>A request whose signature, key and timestamp are in order, written without the checks' order.\<close>

definition sig_valid :: "'s sig_env \<Rightarrow> sig_config \<Rightarrow> gotime \<Rightarrow> sig_request \<Rightarrow> bool" where
  "sig_valid V cfg now req \<longleftrightarrow>
     sig_field sg_KeyIDHeader cfg req \<noteq> [] \<and> sig_field sg_TimestampHeader cfg req \<noteq> []
     \<and> sig_field sg_SignatureHeader cfg req \<noteq> []
     \<and> (sg_RequireNonce cfg \<longrightarrow> sig_field sg_NonceHeader cfg req \<noteq> [])
     \<and> (\<exists>secretForKey secret ts body.
          sg_KeyProvider cfg = Some secretForKey \<and> secretForKey (sig_field sg_KeyIDHeader cfg req) = Inr secret
          \<and> secret \<noteq> [] \<and> sig_parseTimestamp (se_rfc3339 V) (sig_field sg_TimestampHeader cfg req) = Some ts
          \<and> \<bar>time_sub now ts\<bar> \<le> sg_MaxClockSkew cfg \<and> readAndRestoreBody req = Inr body
          \<and> decodeSignature (sig_field sg_SignatureHeader cfg req)
              = Some (se_hmac V secret (buildPayload (se_sha V) req (sig_field sg_TimestampHeader cfg req)
                  (sig_field sg_NonceHeader cfg req) body)))"

lemma sig_verify_iff:
  "sig_verify V cfg now req = Inr (k, n) \<longleftrightarrow>
     sig_valid V cfg now req \<and> k = sig_field sg_KeyIDHeader cfg req \<and> n = sig_field sg_NonceHeader cfg req"
  by (auto simp: sig_verify_def sig_valid_def Let_def not_less abs_le_iff split: option.splits sum.splits if_splits)

lemma sig_verify_valid:
  "sig_valid V cfg now req \<Longrightarrow>
     sig_verify V cfg now req = Inr (sig_field sg_KeyIDHeader cfg req, sig_field sg_NonceHeader cfg req)"
  using sig_verify_iff by blast

lemma sig_verify_invalid: "\<not> sig_valid V cfg now req \<Longrightarrow> \<exists>reason. sig_verify V cfg now req = Inl reason"
  by (cases "sig_verify V cfg now req") (auto simp: sig_verify_iff)

text \<open>What a signature covers: the method, the target, the timestamp, the nonce and the hash of the body.\<close>

lemma payload_inj:
  assumes "\<forall>w \<in> set [to_upper (sr_Method r), request_uri r, t, n, to_upper (sr_Method r'), request_uri r', t', n'].
      CHR 0x0A \<notin> set w"
    and "buildPayload sha r t n b = buildPayload sha r' t' n' b'"
  shows "to_upper (sr_Method r) = to_upper (sr_Method r')" "request_uri r = request_uri r'" "t = t'" "n = n'"
    "hex (sha b) = hex (sha b')"
proof -
  have "to_upper (sr_Method r) = to_upper (sr_Method r') \<and> request_uri r = request_uri r' \<and> t = t' \<and> n = n'
      \<and> hex (sha b) = hex (sha b')"
    using assms by (simp add: buildPayload_def first_sep_inj)
  then show "to_upper (sr_Method r) = to_upper (sr_Method r')" "request_uri r = request_uri r'" "t = t'" "n = n'"
    "hex (sha b) = hex (sha b')" by simp_all
qed

section \<open>Replays\<close>

text \<open>
  The contract of a nonce store: \<open>blocked s k e\<close> says that the key is refused before the time \<open>e\<close>.  An
  accepted use blocks its key for the time to live, and no use before that time lifts it.
\<close>

locale nonce_store =
  fixes use :: "gotime \<Rightarrow> string \<Rightarrow> duration \<Rightarrow> 's \<Rightarrow> bool \<times> 's" and blocked :: "'s \<Rightarrow> string \<Rightarrow> gotime \<Rightarrow> bool"
  assumes accepted: "use t k ttl s = (True, s') \<Longrightarrow> blocked s' k (t + ttl)"
    and refused: "blocked s k e \<Longrightarrow> t < e \<Longrightarrow> \<not> fst (use t k ttl s)"
    and kept: "blocked s k e \<Longrightarrow> t < e \<Longrightarrow> blocked (snd (use t k' ttl s)) k e"

definition memory_blocked :: "nonce_items \<Rightarrow> string \<Rightarrow> gotime \<Rightarrow> bool" where
  "memory_blocked s k e \<longleftrightarrow> (\<exists>d. s k = Some d \<and> e \<le> d)"

interpretation memory_nonces: nonce_store nonce_Use memory_blocked
  by unfold_locales
    (auto simp: nonce_Use_def memory_blocked_def Let_def split: if_splits option.splits)

text \<open>
  A sequence of requests: the time of the check of the timestamp, the time of the use of the nonce,
  and the request.
\<close>

type_synonym sig_attempt = "gotime \<times> gotime \<times> sig_request"

fun sig_run :: "'s sig_env \<Rightarrow> sig_config \<Rightarrow> sig_attempt list \<Rightarrow> 's \<Rightarrow> string option outcome list" where
  "sig_run V cfg [] s = []"
| "sig_run V cfg ((now, later, req) # as) s =
     (case sig_Middleware V cfg now later req s of (r, s') \<Rightarrow> r # sig_run V cfg as s')"

definition nonce_key :: "sig_config \<Rightarrow> sig_request \<Rightarrow> string" where
  "nonce_key cfg req = sig_field sg_KeyIDHeader cfg req @ '':'' @ sig_field sg_NonceHeader cfg req"

text \<open>The requests that have to be signed.\<close>

definition sig_protected :: "sig_config \<Rightarrow> sig_request \<Rightarrow> bool" where
  "sig_protected cfg0 req \<longleftrightarrow> sg_Enabled cfg0 \<and>
     \<not> isExcluded (sr_Path req) (sg_ExcludedPathPrefixes (sig_normalizeConfig cfg0))"

lemma sig_normalize_flags [simp]:
  "sg_Enabled (sig_normalizeConfig cfg) = sg_Enabled cfg" "sg_RequireNonce (sig_normalizeConfig cfg) = sg_RequireNonce cfg"
  "sg_RequireNonce cfg \<Longrightarrow> sg_NonceStore (sig_normalizeConfig cfg)"
  by (simp_all add: sig_normalizeConfig_def Let_def)

lemma sig_normalize_limits:
  "sg_MaxClockSkew (sig_normalizeConfig cfg) = pos_or (sg_MaxClockSkew cfg) (5 * minute)"
  "sg_NonceTTL (sig_normalizeConfig cfg) = pos_or (sg_NonceTTL cfg) (10 * minute)"
  by (simp_all add: sig_normalizeConfig_def sig_DefaultConfig_def Let_def)

lemma sig_Middleware_protected:
  assumes "sig_protected cfg0 req" and "sg_RequireNonce cfg0"
  shows "sig_Middleware V cfg0 now later req s =
    (let cfg = sig_normalizeConfig cfg0 in
     if sig_valid V cfg now req then
       (case se_use V later (nonce_key cfg req) (sg_NonceTTL cfg) s of
          (False, s') \<Rightarrow> (Answer 401 ''replayed_request'', s')
        | (True, s') \<Rightarrow> (Proceed (Some (sig_field sg_KeyIDHeader cfg req)), s'))
     else (Answer 401 (projl (sig_verify V cfg now req)), s))"
  using assms sig_verify_valid [of V "sig_normalizeConfig cfg0" now req] sig_verify_invalid [of V "sig_normalizeConfig cfg0" now req]
  by (auto simp: sig_Middleware_def sig_protected_def nonce_key_def Let_def)

lemma run_invalid:
  "j < length as \<Longrightarrow> as ! j = (now, later, req) \<Longrightarrow> sig_protected cfg req \<Longrightarrow> sg_RequireNonce cfg
     \<Longrightarrow> \<not> sig_valid V (sig_normalizeConfig cfg) now req \<Longrightarrow> \<exists>reason. sig_run V cfg as s ! j = Answer 401 reason"
proof (induction as arbitrary: s j)
  case (Cons a as)
  obtain n l q where a: "a = (n, l, q)" by (cases a)
  show ?case
  proof (cases j)
    case 0
    then show ?thesis using Cons.prems a sig_Middleware_protected [of cfg req V now later s]
      by (auto simp: Let_def split: prod.splits)
  next
    case (Suc m)
    then show ?thesis using Cons.IH [of m "snd (sig_Middleware V cfg n l q s)"] Cons.prems a
      by (auto split: prod.splits)
  qed
qed simp

context nonce_store
begin

lemma Middleware_keeps:
  assumes "blocked s k e" and "later < e" and "se_use V = use"
  shows "blocked (snd (sig_Middleware V cfg now later req s)) k e"
  using assms kept [OF assms(1,2)]
  by (auto simp: sig_Middleware_def Let_def split: sum.splits prod.splits bool.splits)
    (metis snd_conv)+

lemma run_refuses:
  assumes "se_use V = use" and "sg_RequireNonce cfg"
  shows "blocked s k e \<Longrightarrow> sorted (map (\<lambda>a. fst (snd a)) as) \<Longrightarrow> j < length as \<Longrightarrow> as ! j = (now, later, req)
     \<Longrightarrow> sig_protected cfg req \<Longrightarrow> nonce_key (sig_normalizeConfig cfg) req = k
     \<Longrightarrow> sig_valid V (sig_normalizeConfig cfg) now req \<Longrightarrow> later < e
     \<Longrightarrow> sig_run V cfg as s ! j = Answer 401 ''replayed_request''"
proof (induction as arbitrary: s j)
  case (Cons a as)
  obtain n l r where a: "a = (n, l, r)" by (cases a)
  obtain x s' where x: "sig_Middleware V cfg n l r s = (x, s')" by (rule prod.exhaust)
  show ?case
  proof (cases j)
    case 0
    then have r: "(n, l, r) = (now, later, req)" using Cons.prems a by simp
    have "\<not> fst (use later k (sg_NonceTTL (sig_normalizeConfig cfg)) s)" using refused Cons.prems by blast
    then have "x = Answer 401 ''replayed_request''"
      using x r Cons.prems assms sig_Middleware_protected [of cfg req V now later s]
      by (auto simp: Let_def split: prod.splits bool.splits)
    then show ?thesis using x a 0 by simp
  next
    case (Suc i)
    have "later \<in> set (map (\<lambda>a. fst (snd a)) as)"
      using Cons.prems(3,4) Suc nth_mem [of i as] by (force simp: image_iff)
    then have "l \<le> later" using Cons.prems(2) a by auto
    then have "blocked s' k e" using Middleware_keeps [OF Cons.prems(1) _ assms(1)] Cons.prems(8) x by (metis order.strict_trans1 snd_conv)
    then have "sig_run V cfg as s' ! i = Answer 401 ''replayed_request''"
      using Cons.prems Suc by (intro Cons.IH) auto
    then show ?thesis using x a Suc by simp
  qed
qed simp

text \<open>
  The window of a timestamp: two valid requests with the same timestamp are checked within twice
  the allowed skew, so a block that outlasts it and the time between check and use meets the second.
\<close>

lemma run_once:
  assumes "se_use V = use" and "sg_RequireNonce cfg" and "c = sig_normalizeConfig cfg"
    and "sg_MaxClockSkew c < 2 ^ 63 - 1" and "2 * sg_MaxClockSkew c + delay < sg_NonceTTL c"
  shows "sorted (map (\<lambda>a. fst (snd a)) as) \<Longrightarrow> i < j \<Longrightarrow> j < length as
     \<Longrightarrow> as ! i = (now, later, req) \<Longrightarrow> as ! j = (now', later', req') \<Longrightarrow> now \<le> later \<Longrightarrow> later' \<le> now' + delay
     \<Longrightarrow> sig_protected cfg req \<Longrightarrow> sig_protected cfg req' \<Longrightarrow> nonce_key c req = nonce_key c req'
     \<Longrightarrow> sig_field sg_TimestampHeader c req = sig_field sg_TimestampHeader c req'
     \<Longrightarrow> sig_run V cfg as s ! i = Proceed r \<Longrightarrow> \<exists>reason. sig_run V cfg as s ! j = Answer 401 reason"
proof (induction as arbitrary: s i j)
  case (Cons a as)
  obtain n l q where a: "a = (n, l, q)" by (cases a)
  obtain x s' where x: "sig_Middleware V cfg n l q s = (x, s')" by (rule prod.exhaust)
  obtain j' where j: "j = Suc j'" using Cons.prems(2) by (cases j) auto
  have srt: "sorted (map (\<lambda>a. fst (snd a)) as)" using Cons.prems(1) by simp
  show ?case
  proof (cases i)
    case (Suc i')
    have "\<exists>reason. sig_run V cfg as s' ! j' = Answer 401 reason"
      using Cons.prems Suc j x a by (intro Cons.IH [OF srt, of i']) auto
    then show ?thesis using x a j by simp
  next
    case 0
    then have h: "n = now" "l = later" "q = req" "x = Proceed r" using Cons.prems a x by auto
    have v: "sig_valid V c now req" and u: "use later (nonce_key c req) (sg_NonceTTL c) s = (True, s')"
      using x h Cons.prems(8) assms(1-3) sig_Middleware_protected [of cfg req V now later s]
      by (auto simp: Let_def split: if_splits prod.splits bool.splits)
    have b: "blocked s' (nonce_key c req) (later + sg_NonceTTL c)" by (rule accepted [OF u])
    show ?thesis
    proof (cases "sig_valid V c now' req'")
      case False
      then have "\<exists>reason. sig_run V cfg as s' ! j' = Answer 401 reason"
        using Cons.prems j assms(2,3) by (intro run_invalid) auto
      then show ?thesis using x a j by simp
    next
      case True
      obtain ts where ts: "\<bar>time_sub now ts\<bar> \<le> sg_MaxClockSkew c" "\<bar>time_sub now' ts\<bar> \<le> sg_MaxClockSkew c"
        using v True Cons.prems(11) by (auto simp: sig_valid_def)
      have w: "\<bar>z - ts\<bar> \<le> sg_MaxClockSkew c" if "\<bar>time_sub z ts\<bar> \<le> sg_MaxClockSkew c" for z
        using that assms(4) by (auto simp: time_sub_def max_def min_def abs_le_iff split: if_splits)
      have "later' < later + sg_NonceTTL c"
        using w [OF ts(1)] w [OF ts(2)] Cons.prems(6,7) assms(5) by linarith
      then have "sig_run V cfg as s' ! j' = Answer 401 ''replayed_request''"
        using Cons.prems j True assms(3) b by (intro run_refuses [OF assms(1,2) _ srt]) auto
      then show ?thesis using x a j by simp
    qed
  qed
qed simp

end

section \<open>Limits\<close>

text \<open>A service with one key, and a signed request of it.\<close>

definition one_key :: sig_config where
  "one_key = sig_DefaultConfig\<lparr>sg_KeyProvider := Some (StaticKeyProvider [''svc'' \<mapsto> ''abc''])\<rparr>"

definition toy_env :: "nonce_items sig_env" where
  "toy_env = \<lparr>se_sha = (\<lambda>b. b), se_hmac = (\<lambda>k p. k), se_rfc3339 = (\<lambda>_. None), se_use = nonce_Use\<rparr>"

definition signed_get :: sig_request where
  "signed_get = \<lparr>sr_Method = ''GET'', sr_Path = ''/a'', sr_EscapedPath = ''/a'', sr_RawQuery = [],
     sr_Header = (\<lambda>k. if k = ''X-Key-Id'' then ''svc'' else if k = ''X-Timestamp'' then ''1000''
       else if k = ''X-Nonce'' then ''n1'' else if k = ''X-Signature'' then ''sha256=YWJj'' else []),
     sr_Body = None\<rparr>"

definition signed_at :: gotime where
  "signed_at = 62135597800 * second"

text \<open>
  With the default limits, a life of 10 minutes for a nonce and a skew of 5 minutes either way, a
  replay whose headers arrive in time but whose body is slow is accepted: the timestamp is checked before the
  body is read and the nonce after it.
\<close>

lemma slow_body_replay:
  "sig_run toy_env one_key [(signed_at, signed_at, signed_get), (signed_at + 4 * minute, signed_at + 10 * minute, signed_get)]
      Map.empty = [Proceed (Some ''svc''), Proceed (Some ''svc'')]"
  by code_simp

text \<open>The life of a nonce is exactly the window, so at its end a replay needs no delay at all.\<close>

lemma window_end_replay:
  "sig_run toy_env one_key [(signed_at - 5 * minute, signed_at - 5 * minute, signed_get),
      (signed_at + 5 * minute, signed_at + 5 * minute, signed_get)] Map.empty
     = [Proceed (Some ''svc''), Proceed (Some ''svc'')]"
  by code_simp

text \<open>Prefixes are compared by characters: a path that merely begins like an excluded one needs no signature.\<close>

lemma excluded_prefix_bypass:
  "isExcluded ''/healthcare/records'' (sg_ExcludedPathPrefixes sig_DefaultConfig)"
  by code_simp

section \<open>Properties\<close>

text \<open>C27.
  No signed request is accepted twice: when nonces live longer than twice the allowed clock skew
  and the time a request may take between the check of its timestamp and the use of its nonce, of
  two requests with the same key, timestamp and nonce, in any sequence of requests in the order of
  the nonce store's clock, the second is refused with 401 once the first has reached the handler.
\<close>

theorem signature_no_replay:
  assumes "nonce_store (se_use V) blocked" and "sg_RequireNonce cfg" and "c = sig_normalizeConfig cfg"
    and "sg_MaxClockSkew c < 2 ^ 63 - 1" and "2 * sg_MaxClockSkew c + delay < sg_NonceTTL c"
    and "sorted (map (\<lambda>a. fst (snd a)) as)" and "i < j" and "j < length as"
    and "as ! i = (now, later, req)" and "as ! j = (now', later', req')"
    and "now \<le> later" and "later' \<le> now' + delay"
    and "sig_protected cfg req" and "sig_protected cfg req'"
    and "sig_field sg_KeyIDHeader c req = sig_field sg_KeyIDHeader c req'"
    and "sig_field sg_NonceHeader c req = sig_field sg_NonceHeader c req'"
    and "sig_field sg_TimestampHeader c req = sig_field sg_TimestampHeader c req'"
    and "sig_run V cfg as s ! i = Proceed r"
  shows "\<exists>reason. sig_run V cfg as s ! j = Answer 401 reason"
  using nonce_store.run_once [OF assms(1) refl assms(2-14) _ assms(17,18)] assms(15,16)
  by (simp add: nonce_key_def)

theorem signature_no_replay_witness:
  "\<exists>reason. sig_run toy_env (one_key\<lparr>sg_NonceTTL := 11 * minute\<rparr>)
     [(signed_at, signed_at + 1, signed_get), (signed_at + 5 * minute, signed_at + 5 * minute + second, signed_get)]
     Map.empty ! 1 = Answer 401 reason"
proof (rule signature_no_replay [where i = 0 and blocked = memory_blocked and delay = second and V = toy_env])
  show "nonce_store (se_use toy_env) memory_blocked"
    using memory_nonces.nonce_store_axioms by (simp add: toy_env_def)
  show "sig_run toy_env (one_key\<lparr>sg_NonceTTL := 11 * minute\<rparr>)
     [(signed_at, signed_at + 1, signed_get), (signed_at + 5 * minute, signed_at + 5 * minute + second, signed_get)]
     Map.empty ! 0 = Proceed (Some ''svc'')" by code_simp
  show "sig_protected (one_key\<lparr>sg_NonceTTL := 11 * minute\<rparr>) signed_get"
    "sig_protected (one_key\<lparr>sg_NonceTTL := 11 * minute\<rparr>) signed_get" by code_simp+
qed (simp_all add: sig_normalize_limits one_key_def sig_DefaultConfig_def duration_units)+


end
