(* ===== verification/RateLimit.thy ===== *)
theory RateLimit
  imports Stores Http
begin

text \<open>
  \<^verbatim>\<open>pkg/http/ratelimit\<close>: the middleware, the token buckets in memory, one per key, and the counters
  on a Redis server.  A bucket is a \<^verbatim>\<open>rate.Limiter\<close> of \<^verbatim>\<open>golang.org/x/time\<close>, given by the bound it documents
  (locale \<open>token_bucket\<close>); the server by the meaning of \<^verbatim>\<open>INCR\<close> and \<^verbatim>\<open>EXPIRE\<close> (locale
  \<open>counter_server\<close>).  The theory bounds what the limiters let through, call by call and under the
  interleavings of goroutines, and shows where the bounds end.
\<close>

section \<open>Keys and the middleware\<close>

text \<open>The header fields and the address of the peer, as \<^verbatim>\<open>ExtractIPFromRequest\<close> reads them.\<close>

definition ExtractIPFromRequest :: "header \<Rightarrow> string \<Rightarrow> string" where
  "ExtractIPFromRequest h addr =
     (let xff = header_get h ''X-Forwarded-For''; xri = header_get h ''X-Real-IP'' in
      if xff \<noteq> [] then trim_space (hd (split_on CHR '','' xff))
      else if xri \<noteq> [] then trim_space xri
      else let idx = last_index CHR '':'' addr in if idx \<noteq> - 1 then take (nat idx) addr else addr)"

definition ExtractUserIDFromContext :: "string option \<Rightarrow> string" where
  "ExtractUserIDFromContext subject = (case subject of None \<Rightarrow> [] | Some s \<Rightarrow> s)"

text \<open>The middleware over a limiter: the response header is \<^verbatim>\<open>Retry-After\<close> with a refusal.\<close>

definition rl_Middleware ::
  "(string \<Rightarrow> 's \<Rightarrow> bool \<times> 's) \<Rightarrow> ('q \<Rightarrow> string) \<Rightarrow> 'q \<Rightarrow> header \<Rightarrow> 's \<Rightarrow> ('q outcome \<times> header) \<times> 's" where
  "rl_Middleware allow keyFunc q h s =
     (case allow (keyFunc q) s of
        (False, s') \<Rightarrow> ((Answer 429 ''rate limit exceeded'', header_set ''Retry-After'' ''1'' h), s')
      | (True, s') \<Rightarrow> ((Proceed q, h), s'))"

section \<open>Token buckets\<close>

text \<open>
  The answers of a limiter to a sequence of calls.  The documented bound of \<^verbatim>\<open>rate.Limiter\<close>: a fresh one lets through at most its
  burst and what its rate adds in the time the calls take.
\<close>

fun bucket_run :: "(gotime \<Rightarrow> 'b \<Rightarrow> bool \<times> 'b) \<Rightarrow> gotime list \<Rightarrow> 'b \<Rightarrow> bool list" where
  "bucket_run allow [] b = []"
| "bucket_run allow (t # ts) b = (case allow t b of (r, b') \<Rightarrow> r # bucket_run allow ts b')"

definition count_true :: "bool list \<Rightarrow> nat" where
  "count_true rs = length (filter (\<lambda>r. r) rs)"

lemma count_true_simps [simp]: "count_true [] = 0" "count_true (r # rs) = (if r then 1 else 0) + count_true rs"
  by (simp_all add: count_true_def)

locale token_bucket =
  fixes fresh :: 'b and allow :: "gotime \<Rightarrow> 'b \<Rightarrow> bool \<times> 'b" and per_second :: int and burst :: nat
  assumes bound: "sorted (t # ts) \<Longrightarrow>
      int (count_true (bucket_run allow (t # ts) fresh)) * second \<le> int burst * second + per_second * (last (t # ts) - t)"

text \<open>
  \<^verbatim>\<open>getLimiter\<close> and \<^verbatim>\<open>Allow\<close>, when no other goroutine calls them in between.
\<close>

definition tb_Allow :: "'b \<Rightarrow> (gotime \<Rightarrow> 'b \<Rightarrow> bool \<times> 'b) \<Rightarrow> gotime \<Rightarrow> string \<Rightarrow> (string \<rightharpoonup> 'b) \<Rightarrow> bool \<times> (string \<rightharpoonup> 'b)" where
  "tb_Allow fresh allow now key m =
     (let b = (case m key of Some b \<Rightarrow> b | None \<Rightarrow> fresh) in
      case allow now b of (r, b') \<Rightarrow> (r, m(key \<mapsto> b')))"

fun tb_run :: "'b \<Rightarrow> (gotime \<Rightarrow> 'b \<Rightarrow> bool \<times> 'b) \<Rightarrow> (gotime \<times> string) list \<Rightarrow> (string \<rightharpoonup> 'b) \<Rightarrow> (string \<times> bool) list" where
  "tb_run fresh allow [] m = []"
| "tb_run fresh allow ((t, k) # cs) m = (case tb_Allow fresh allow t k m of (r, m') \<Rightarrow> (k, r) # tb_run fresh allow cs m')"

text \<open>
  With other goroutines: the map holds pointers, and \<^verbatim>\<open>Load\<close>, \<^verbatim>\<open>Store\<close> and \<^verbatim>\<open>limiter.Allow\<close> are three
  steps of a call.
\<close>

datatype tb_pc = Called string | Missed string | Holding string nat | Returned string bool

record 'b tb_state =
  tb_limiters :: "string \<rightharpoonup> nat"
  tb_heap :: "nat \<Rightarrow> 'b"
  tb_next :: nat
  tb_calls :: "nat \<rightharpoonup> tb_pc"

inductive tb_step :: "'b \<Rightarrow> (gotime \<Rightarrow> 'b \<Rightarrow> bool \<times> 'b) \<Rightarrow> gotime \<Rightarrow> 'b tb_state \<Rightarrow> 'b tb_state \<Rightarrow> bool"
  for fresh allow where
  call: "tb_calls s i = None \<Longrightarrow> tb_step fresh allow t s (s\<lparr>tb_calls := (tb_calls s)(i \<mapsto> Called k)\<rparr>)"
| load_hit: "tb_calls s i = Some (Called k) \<Longrightarrow> tb_limiters s k = Some p \<Longrightarrow>
    tb_step fresh allow t s (s\<lparr>tb_calls := (tb_calls s)(i \<mapsto> Holding k p)\<rparr>)"
| load_miss: "tb_calls s i = Some (Called k) \<Longrightarrow> tb_limiters s k = None \<Longrightarrow>
    tb_step fresh allow t s (s\<lparr>tb_calls := (tb_calls s)(i \<mapsto> Missed k)\<rparr>)"
| store: "tb_calls s i = Some (Missed k) \<Longrightarrow>
    tb_step fresh allow t s (s\<lparr>tb_calls := (tb_calls s)(i \<mapsto> Holding k (tb_next s)),
      tb_heap := (tb_heap s)(tb_next s := fresh), tb_limiters := (tb_limiters s)(k \<mapsto> tb_next s), tb_next := tb_next s + 1\<rparr>)"
| allow: "tb_calls s i = Some (Holding k p) \<Longrightarrow> allow t (tb_heap s p) = (r, b') \<Longrightarrow>
    tb_step fresh allow t s (s\<lparr>tb_calls := (tb_calls s)(i \<mapsto> Returned k r), tb_heap := (tb_heap s)(p := b')\<rparr>)"

section \<open>Counters on a Redis server\<close>

text \<open>
  \<^verbatim>\<open>INCR\<close> and \<^verbatim>\<open>EXPIRE\<close> at a time of the server, in milliseconds.
\<close>

record 'r counter_ops =
  c_INCR :: "int \<Rightarrow> string \<Rightarrow> 'r \<Rightarrow> int \<times> 'r"
  c_EXPIRE :: "int \<Rightarrow> string \<Rightarrow> int \<Rightarrow> 'r \<Rightarrow> 'r"

record redis_limiter =
  rl_limit :: int
  rl_burst :: int
  rl_window :: duration
  rl_prefix :: string

text \<open>
  \<^verbatim>\<open>NewRedisRateLimiter\<close>; \<open>connect\<close> is the error of \<^verbatim>\<open>rediskit.NewClient\<close>, and \<open>url_error\<close> tells whether its
  text contains \<^verbatim>\<open>parse redis URL\<close>.
\<close>

definition NewRedisRateLimiter ::
  "string \<Rightarrow> string \<Rightarrow> err option \<Rightarrow> (err \<Rightarrow> bool) \<Rightarrow> duration \<Rightarrow> int \<Rightarrow> int \<Rightarrow> redis_limiter result" where
  "NewRedisRateLimiter url prefix connect url_error window requestsPerSecond burst =
     (if url = [] then Inl (NewValidationWithCode ''validation.ratelimit.redis.url.required''
          ''redis URL is required for distributed rate limiting'' [] [])
      else if requestsPerSecond \<le> 0 then Inl (NewValidationWithCode ''validation.ratelimit.requests_per_second.invalid''
          ''requests_per_second must be greater than zero'' [] [])
      else if burst < 0 then Inl (NewValidationWithCode ''validation.ratelimit.burst.invalid'' ''burst cannot be negative'' [] [])
      else case connect of
          Some e \<Rightarrow>
            Inl (if url_error e then NewValidationWithCode ''validation.ratelimit.redis.url.invalid''
                   (''failed to parse redis URL: '' @ error_text e) [] []
                 else WithDetails [(''family'', ''ratelimit'')] (NewRetryable ''redis rate limiter ping failed'' (Some e)))
        | None \<Rightarrow>
            Inr \<lparr>rl_limit = requestsPerSecond, rl_burst = burst, rl_window = pos_or window second,
                  rl_prefix = (if prefix = [] then ''ratelimit'' else prefix)\<rparr>)"

definition redisKey :: "redis_limiter \<Rightarrow> string \<Rightarrow> string" where
  "redisKey r key = (if rl_prefix r = [] then key else rl_prefix r @ '':'' @ key)"

text \<open>The errors of the two commands of a call are arguments; a failed command does not reach the server.\<close>

definition rl_total :: "redis_limiter \<Rightarrow> int" where
  "rl_total r = i64 (rl_limit r + rl_burst r)"

definition redis_Allow ::
  "'r counter_ops \<Rightarrow> redis_limiter \<Rightarrow> err option \<Rightarrow> err option \<Rightarrow> int \<Rightarrow> string \<Rightarrow> 'r \<Rightarrow> bool \<times> 'r" where
  "redis_Allow K r incr_err expire_err t key s =
     (case incr_err of
        Some _ \<Rightarrow> (True, s)
      | None \<Rightarrow>
          (case c_INCR K t (redisKey r key) s of
             (count, s') \<Rightarrow>
               (let s'' = (if count = 1 \<and> expire_err = None
                           then c_EXPIRE K t (redisKey r key) (expire_ms (rl_window r)) s' else s') in
                (rl_total r = 0 \<or> count \<le> rl_total r, s''))))"

text \<open>What the commands do to the counters, each with its deadline.\<close>

type_synonym counters = "string \<rightharpoonup> int \<times> int option"

definition counter_at :: "int \<Rightarrow> counters \<Rightarrow> string \<Rightarrow> (int \<times> int option) option" where
  "counter_at t m k = (case m k of None \<Rightarrow> None | Some (n, e) \<Rightarrow> (if lives t e then Some (n, e) else None))"

locale counter_server =
  fixes K :: "'r counter_ops" and cview :: "'r \<Rightarrow> counters"
  assumes incr: "c_INCR K t k s = (n, s') \<Longrightarrow>
      n = (case counter_at t (cview s) k of None \<Rightarrow> 1 | Some (c, _) \<Rightarrow> c + 1)
      \<and> cview s' = (cview s)(k \<mapsto> (n, case counter_at t (cview s) k of None \<Rightarrow> None | Some (_, e) \<Rightarrow> e))"
    and expire: "cview (c_EXPIRE K t k ms s) =
      (case counter_at t (cview s) k of None \<Rightarrow> cview s | Some (c, _) \<Rightarrow> (cview s)(k \<mapsto> (c, Some (t + ms))))"

text \<open>The answers to a sequence of calls without errors, and how many calls for a key pass in a span of time.\<close>

fun redis_run :: "'r counter_ops \<Rightarrow> redis_limiter \<Rightarrow> (int \<times> string) list \<Rightarrow> 'r \<Rightarrow> (int \<times> string \<times> bool) list" where
  "redis_run K r [] s = []"
| "redis_run K r ((t, k) # cs) s = (case redis_Allow K r None None t k s of (a, s') \<Rightarrow> (t, k, a) # redis_run K r cs s')"

definition passed :: "string \<Rightarrow> int \<Rightarrow> int \<Rightarrow> (int \<times> string \<times> bool) list \<Rightarrow> nat" where
  "passed k u v rs = length (filter (\<lambda>(t, k', a). k' = k \<and> a \<and> u \<le> t \<and> t < v) rs)"

lemma passed_simps [simp]:
  "passed k u v [] = 0"
  "passed k u v ((t, k', a) # rs) = (if k' = k \<and> a \<and> u \<le> t \<and> t < v then 1 else 0) + passed k u v rs"
  by (simp_all add: passed_def)

section \<open>Bounds of the buckets\<close>

context token_bucket
begin

lemma run_of_key:
  "map snd (filter (\<lambda>x. fst x = k) (tb_run fresh allow cs m))
     = bucket_run allow (map fst (filter (\<lambda>c. snd c = k) cs)) (case m k of Some b \<Rightarrow> b | None \<Rightarrow> fresh)"
proof (induction cs arbitrary: m)
  case (Cons c cs)
  obtain t k' where c: "c = (t, k')" by (cases c)
  obtain r b' where a: "allow t (case m k' of Some b \<Rightarrow> b | None \<Rightarrow> fresh) = (r, b')" by (rule prod.exhaust)
  have "tb_Allow fresh allow t k' m = (r, m(k' \<mapsto> b'))" by (simp add: tb_Allow_def a Let_def)
  then have "tb_run fresh allow (c # cs) m = (k', r) # tb_run fresh allow cs (m(k' \<mapsto> b'))" using c by simp
  moreover note Cons.IH [of "m(k' \<mapsto> b')"]
  moreover have "(m(k' \<mapsto> b')) k = (if k' = k then Some b' else m k)" by simp
  ultimately show ?case using c a by (cases "k' = k") (simp_all only: list.map filter.simps fst_conv snd_conv
      if_True if_False refl option.case bucket_run.simps prod.case)
qed simp

text \<open>Calls for other keys take nothing from a key.\<close>

lemma key_bound:
  assumes "sorted (map fst cs)" and "filter (\<lambda>c. snd c = k) cs = (t, k) # ds"
  shows "int (length (filter (\<lambda>x. fst x = k \<and> snd x) (tb_run fresh allow cs Map.empty))) * second
    \<le> int burst * second + per_second * (last (t # map fst ds) - t)"
proof -
  have "sorted (map fst (filter (\<lambda>c. snd c = k) cs))" using assms(1) by (rule sorted_filter)
  then have "sorted (t # map fst ds)" using assms(2) by simp
  from bound [OF this] have "int (count_true (map snd (filter (\<lambda>x. fst x = k) (tb_run fresh allow cs Map.empty)))) * second
      \<le> int burst * second + per_second * (last (t # map fst ds) - t)"
    using run_of_key [of k cs Map.empty] assms(2) by simp
  moreover have "count_true (map snd (filter (\<lambda>x. fst x = k) rs)) = length (filter (\<lambda>x. fst x = k \<and> snd x) rs)"
    for rs :: "(string \<times> bool) list"
    by (induction rs) auto
  ultimately show ?thesis by simp
qed

end

text \<open>A bucket in exact arithmetic; \<open>second\<close> units are one token.\<close>

definition exact_allow :: "int \<Rightarrow> nat \<Rightarrow> gotime \<Rightarrow> int \<times> gotime \<Rightarrow> bool \<times> int \<times> gotime" where
  "exact_allow per_second burst t b =
     (let x = min (int burst * second) (fst b + per_second * max 0 (t - snd b)) in
      if second \<le> x then (True, x - second, t) else (False, x, t))"

lemma exact_from:
  assumes "0 \<le> per_second" and "0 \<le> x" and "sorted (l # ts)"
  shows "int (count_true (bucket_run (exact_allow per_second burst) ts (x, l))) * second
    \<le> x + per_second * (last (l # ts) - l)"
  using assms(2,3)
proof (induction ts arbitrary: x l)
  case (Cons t ts)
  let ?x = "min (int burst * second) (x + per_second * (t - l))"
  have lt: "l \<le> t" "sorted (t # ts)" using Cons.prems(2) by auto
  have x0: "0 \<le> x + per_second * (t - l)" using Cons.prems(1) assms(1) lt(1) by simp
  then have x: "0 \<le> ?x" by (simp add: duration_units)
  have split: "per_second * (last (l # t # ts) - l) = per_second * (t - l) + per_second * (last (t # ts) - t)"
    by (simp add: algebra_simps)
  have m: "max 0 (t - l) = t - l" using lt(1) by simp
  have le: "?x \<le> x + per_second * (t - l)" by simp
  show ?case
  proof (cases "second \<le> ?x")
    case True
    then have ea: "exact_allow per_second burst t (x, l) = (True, ?x - second, t)"
      by (simp add: exact_allow_def Let_def m)
    have "int (count_true (bucket_run (exact_allow per_second burst) ts (?x - second, t))) * second
        \<le> ?x - second + per_second * (last (t # ts) - t)"
      using True lt(2) by (intro Cons.IH) simp_all
    moreover have "int (count_true (bucket_run (exact_allow per_second burst) (t # ts) (x, l))) * second
        = second + int (count_true (bucket_run (exact_allow per_second burst) ts (?x - second, t))) * second"
      by (simp add: ea distrib_right)
    ultimately show ?thesis using split le by linarith
  next
    case False
    then have ea: "exact_allow per_second burst t (x, l) = (False, ?x, t)"
      by (simp add: exact_allow_def Let_def m)
    have "int (count_true (bucket_run (exact_allow per_second burst) ts (?x, t))) * second
        \<le> ?x + per_second * (last (t # ts) - t)"
      using x lt(2) by (intro Cons.IH) simp_all
    moreover have "count_true (bucket_run (exact_allow per_second burst) (t # ts) (x, l))
        = count_true (bucket_run (exact_allow per_second burst) ts (?x, t))"
      by (simp add: ea)
    ultimately show ?thesis using split le by simp
  qed
qed simp

interpretation ten_per_second: token_bucket "(5 * second, 0)" "exact_allow 10 5" 10 5
proof
  fix t ts assume s: "sorted (t # ts :: gotime list)"
  have e: "exact_allow 10 5 t (5 * second, 0) = exact_allow 10 5 t (5 * second, t)"
    by (simp add: exact_allow_def Let_def min_absorb1)
  have "bucket_run (exact_allow 10 5) (t # ts) (5 * second, 0) = bucket_run (exact_allow 10 5) (t # ts) (5 * second, t)"
    by (simp only: bucket_run.simps e)
  moreover have "sorted (t # t # ts)" using s by simp
  note exact_from [OF _ _ this, of 10 "5 * second" 5]
  ultimately show "int (count_true (bucket_run (exact_allow 10 5) (t # ts) (5 * second, 0))) * second
      \<le> int 5 * second + 10 * (last (t # ts) - t)"
    by (simp add: duration_units)
qed

text \<open>
  Under every interleaving a call works on a limiter made for its own key.
\<close>

definition tb_own :: "(nat \<Rightarrow> string) \<Rightarrow> 'b tb_state \<Rightarrow> bool" where
  "tb_own owner s \<longleftrightarrow> (\<forall>k p. tb_limiters s k = Some p \<longrightarrow> p < tb_next s \<and> owner p = k)
     \<and> (\<forall>i k p. tb_calls s i = Some (Holding k p) \<longrightarrow> p < tb_next s \<and> owner p = k)"

lemma tb_step_own:
  assumes "tb_step fresh allow t s s'" and "tb_own owner s"
  shows "\<exists>owner'. tb_own owner' s' \<and> (\<forall>p < tb_next s. owner' p = owner p)"
  using assms
proof (cases rule: tb_step.cases)
  case (store i k)
  then show ?thesis using assms(2)
    by (intro exI [of _ "owner(tb_next s := k)"]) (auto simp: tb_own_def less_Suc_eq, metis less_irrefl)
qed (use assms(2) in \<open>auto simp: tb_own_def intro!: exI [of _ owner] split: if_splits\<close>)

lemma tb_reach_own:
  assumes "(\<lambda>s s'. \<exists>t. tb_step fresh allow t s s')\<^sup>*\<^sup>* s s'" and "tb_own owner s"
  shows "\<exists>owner'. tb_own owner' s'"
  using assms(1)
proof (induction rule: rtranclp_induct)
  case (step y z)
  then show ?case using tb_step_own by metis
qed (use assms(2) in blast)

text \<open>
  But \<^verbatim>\<open>Load\<close> and \<^verbatim>\<open>Store\<close> are two steps: calls that miss together each make a limiter, and with a burst of one both
  pass at the same instant.
\<close>

definition idle :: "(int \<times> gotime) tb_state" where
  "idle = \<lparr>tb_limiters = Map.empty, tb_heap = (\<lambda>_. (0, 0)), tb_next = 0, tb_calls = Map.empty\<rparr>"

lemma racing_first_calls:
  "\<exists>s. (tb_step (second, 0) (exact_allow 1 1) 0)\<^sup>*\<^sup>* idle s
     \<and> tb_calls s 0 = Some (Returned k True) \<and> tb_calls s 1 = Some (Returned k True)"
proof -
  let ?step = "tb_step (second, 0) (exact_allow 1 1) 0"
  define h where "h = (\<lambda>_ :: nat. (0 :: int, 0 :: gotime))"
  define S where "S = (\<lambda>m g n c. \<lparr>tb_limiters = m, tb_heap = g, tb_next = n, tb_calls = c\<rparr> :: (int \<times> gotime) tb_state)"
  have i: "idle = S Map.empty h 0 Map.empty" by (simp add: idle_def S_def h_def)
  have ok: "exact_allow 1 1 0 (second, 0) = (True, 0, 0)" by (simp add: exact_allow_def Let_def)
  let ?c2 = "[0 \<mapsto> Missed k, 1 \<mapsto> Missed k]"
  have "?step (S Map.empty h 0 Map.empty) (S Map.empty h 0 [0 \<mapsto> Called k])"
    using tb_step.call [of "S Map.empty h 0 Map.empty" 0] by (simp add: S_def)
  moreover have "?step (S Map.empty h 0 [0 \<mapsto> Called k]) (S Map.empty h 0 [0 \<mapsto> Called k, 1 \<mapsto> Called k])"
    using tb_step.call [of "S Map.empty h 0 [0 \<mapsto> Called k]" 1] by (simp add: S_def)
  moreover have "?step (S Map.empty h 0 [0 \<mapsto> Called k, 1 \<mapsto> Called k]) (S Map.empty h 0 [0 \<mapsto> Missed k, 1 \<mapsto> Called k])"
    using tb_step.load_miss [of "S Map.empty h 0 [0 \<mapsto> Called k, 1 \<mapsto> Called k]" 0 k] by (simp add: S_def fun_upd_twist)
  moreover have "?step (S Map.empty h 0 [0 \<mapsto> Missed k, 1 \<mapsto> Called k]) (S Map.empty h 0 ?c2)"
    using tb_step.load_miss [of "S Map.empty h 0 [0 \<mapsto> Missed k, 1 \<mapsto> Called k]" 1 k] by (simp add: S_def)
  moreover have "?step (S Map.empty h 0 ?c2) (S [k \<mapsto> 0] (h(0 := (second, 0))) 1 [0 \<mapsto> Holding k 0, 1 \<mapsto> Missed k])"
    using tb_step.store [of "S Map.empty h 0 ?c2" 0 k] by (simp add: S_def fun_upd_twist)
  moreover have "?step (S [k \<mapsto> 0] (h(0 := (second, 0))) 1 [0 \<mapsto> Holding k 0, 1 \<mapsto> Missed k])
      (S [k \<mapsto> 1] (h(0 := (second, 0), 1 := (second, 0))) 2 [0 \<mapsto> Holding k 0, 1 \<mapsto> Holding k 1])"
    using tb_step.store [of "S [k \<mapsto> 0] (h(0 := (second, 0))) 1 [0 \<mapsto> Holding k 0, 1 \<mapsto> Missed k]" 1 k] by (simp add: S_def numeral_2_eq_2)
  moreover have "?step (S [k \<mapsto> 1] (h(0 := (second, 0), 1 := (second, 0))) 2 [0 \<mapsto> Holding k 0, 1 \<mapsto> Holding k 1])
      (S [k \<mapsto> 1] (h(0 := (0, 0), 1 := (second, 0))) 2 [0 \<mapsto> Returned k True, 1 \<mapsto> Holding k 1])"
    using tb_step.allow [of "S [k \<mapsto> 1] (h(0 := (second, 0), 1 := (second, 0))) 2 [0 \<mapsto> Holding k 0, 1 \<mapsto> Holding k 1]" 0 k 0
        "exact_allow 1 1" 0 True "(0, 0)"] ok by (simp add: S_def fun_upd_twist)
  moreover have "?step (S [k \<mapsto> 1] (h(0 := (0, 0), 1 := (second, 0))) 2 [0 \<mapsto> Returned k True, 1 \<mapsto> Holding k 1])
      (S [k \<mapsto> 1] (h(0 := (0, 0), 1 := (0, 0))) 2 [0 \<mapsto> Returned k True, 1 \<mapsto> Returned k True])"
    using tb_step.allow [of "S [k \<mapsto> 1] (h(0 := (0, 0), 1 := (second, 0))) 2 [0 \<mapsto> Returned k True, 1 \<mapsto> Holding k 1]" 1 k 1
        "exact_allow 1 1" 0 True "(0, 0)"] ok by (simp add: S_def)
  ultimately have "?step\<^sup>*\<^sup>* idle (S [k \<mapsto> 1] (h(0 := (0, 0), 1 := (0, 0))) 2 [0 \<mapsto> Returned k True, 1 \<mapsto> Returned k True])"
    unfolding i by (meson converse_rtranclp_into_rtranclp rtranclp.rtrancl_refl)
  then show ?thesis by (intro exI [of _ "S [k \<mapsto> 1] (h(0 := (0, 0), 1 := (0, 0))) 2 [0 \<mapsto> Returned k True, 1 \<mapsto> Returned k True]"]) (simp add: S_def)
qed

section \<open>Bounds of the counters\<close>

lemma redisKey_inj [simp]: "redisKey r k = redisKey r k' \<longleftrightarrow> k = k'"
  by (simp add: redisKey_def)

lemma counter_at_later: "counter_at t m k = None \<Longrightarrow> t \<le> u \<Longrightarrow> counter_at u m k = None"
  by (auto simp: counter_at_def dest: lives_mono split: option.splits if_splits)

definition window_ms :: "redis_limiter \<Rightarrow> int" where
  "window_ms r = expire_ms (rl_window r)"

text \<open>Every counter has counted and expires.\<close>

definition counter_ok :: "(int \<times> int option) option \<Rightarrow> bool" where
  "counter_ok x \<longleftrightarrow> (case x of None \<Rightarrow> True | Some (c, e) \<Rightarrow> 1 \<le> c \<and> e \<noteq> None)"

locale redis_counters = counter_server K cview
  for K :: "'r counter_ops" and cview :: "'r \<Rightarrow> counters" +
  fixes r :: redis_limiter
  assumes total: "0 < rl_total r"
begin

abbreviation ctr where "ctr s k \<equiv> cview s (redisKey r k)"

lemma other_key:
  assumes "redis_Allow K r None None t k' s = (a, s')" and "k' \<noteq> k"
  shows "ctr s' k = ctr s k"
proof -
  obtain n s1 where i: "c_INCR K t (redisKey r k') s = (n, s1)" by (rule prod.exhaust)
  have "ctr s1 k = ctr s k" using incr [OF i] assms(2) by simp
  moreover have "ctr (c_EXPIRE K t (redisKey r k') ms s1) k = ctr s1 k" for ms
    using assms(2) by (auto simp: expire split: option.splits)
  ultimately show ?thesis using assms(1) i by (auto simp: redis_Allow_def Let_def split: if_splits)
qed

lemma fresh_call:
  assumes "redis_Allow K r None None t k s = (a, s')" and "counter_at t (cview s) (redisKey r k) = None"
  shows "a" and "ctr s' k = Some (1, Some (t + window_ms r))"
proof -
  obtain n s1 where i: "c_INCR K t (redisKey r k) s = (n, s1)" by (rule prod.exhaust)
  have n: "n = 1" "ctr s1 k = Some (1, None)" using incr [OF i] assms(2) by simp_all
  then have "counter_at t (cview s1) (redisKey r k) = Some (1, None)" by (simp add: counter_at_def lives_def)
  then have "ctr (c_EXPIRE K t (redisKey r k) (expire_ms (rl_window r)) s1) k = Some (1, Some (t + window_ms r))"
    by (simp add: expire window_ms_def)
  then show "a" "ctr s' k = Some (1, Some (t + window_ms r))"
    using assms(1) i n(1) total by (auto simp: redis_Allow_def Let_def)
qed

lemma later_call:
  assumes "redis_Allow K r None None t k s = (a, s')" and "ctr s k = Some (c, e)" and "lives t e" and "1 \<le> c"
  shows "a \<longleftrightarrow> c + 1 \<le> rl_total r" and "ctr s' k = Some (c + 1, e)"
proof -
  obtain n s1 where i: "c_INCR K t (redisKey r k) s = (n, s1)" by (rule prod.exhaust)
  have "counter_at t (cview s) (redisKey r k) = Some (c, e)" using assms(2,3) by (simp add: counter_at_def)
  then have n: "n = c + 1" "ctr s1 k = Some (c + 1, e)" using incr [OF i] by simp_all
  then show "a \<longleftrightarrow> c + 1 \<le> rl_total r" "ctr s' k = Some (c + 1, e)"
    using assms(1,4) i total by (auto simp: redis_Allow_def Let_def)
qed

lemma after_span: "\<forall>c \<in> set cs. v \<le> fst c \<Longrightarrow> passed k u v (redis_run K r cs s) = 0"
proof (induction cs arbitrary: s)
  case (Cons c cs)
  then show ?case by (cases c) (auto split: prod.splits)
qed simp

lemma within_window:
  assumes "v \<le> e"
  shows "sorted (map fst cs) \<Longrightarrow> ctr s k = Some (c, Some e) \<Longrightarrow> 1 \<le> c
    \<Longrightarrow> int (passed k u v (redis_run K r cs s)) \<le> max 0 (rl_total r - c)"
proof (induction cs arbitrary: s c)
  case (Cons x cs)
  obtain t k' where x: "x = (t, k')" by (cases x)
  obtain a s' where a: "redis_Allow K r None None t k' s = (a, s')" by (rule prod.exhaust)
  have run: "redis_run K r (x # cs) s = (t, k', a) # redis_run K r cs s'" using x a by simp
  have srt: "sorted (map fst cs)" using Cons.prems(1) by simp
  consider "v \<le> t" | "t < v" "k' \<noteq> k" | "t < v" "k' = k" by linarith
  then show ?case
  proof cases
    case 1
    then have "\<forall>c \<in> set (x # cs). v \<le> fst c" using Cons.prems(1) x by fastforce
    then show ?thesis using after_span [of "x # cs" v k u s] by simp
  next
    case 2
    then have "int (passed k u v (redis_run K r cs s')) \<le> max 0 (rl_total r - c)"
      using other_key [OF a] Cons.prems by (intro Cons.IH [OF srt]) simp_all
    then show ?thesis using run 2 by simp
  next
    case 3
    then have "lives t (Some e)" using assms by (simp add: lives_def)
    note l = later_call [OF a [unfolded 3(2)] Cons.prems(2) this Cons.prems(3)]
    have "int (passed k u v (redis_run K r cs s')) \<le> max 0 (rl_total r - (c + 1))"
      using l(2) Cons.prems(3) by (intro Cons.IH [OF srt]) simp_all
    then show ?thesis using run l(1) by auto
  qed
qed simp

lemma from_fresh:
  assumes "v \<le> u + window_ms r"
  shows "sorted (map fst cs) \<Longrightarrow> \<forall>c \<in> set cs. u \<le> fst c \<Longrightarrow> counter_at u (cview s) (redisKey r k) = None
    \<Longrightarrow> int (passed k w v (redis_run K r cs s)) \<le> rl_total r"
proof (induction cs arbitrary: s)
  case Nil
  then show ?case using total by simp
next
  case (Cons x cs)
  obtain t k' where x: "x = (t, k')" by (cases x)
  obtain a s' where a: "redis_Allow K r None None t k' s = (a, s')" by (rule prod.exhaust)
  have run: "redis_run K r (x # cs) s = (t, k', a) # redis_run K r cs s'" using x a by simp
  have srt: "sorted (map fst cs)" "u \<le> t" using Cons.prems(1,2) x by simp_all
  show ?case
  proof (cases "k' = k")
    case False
    have "counter_at u (cview s') (redisKey r k) = None" using other_key [OF a False] Cons.prems(3) by (simp add: counter_at_def)
    then have "int (passed k w v (redis_run K r cs s')) \<le> rl_total r" using Cons.IH [OF srt(1)] Cons.prems(2) by simp
    then show ?thesis using run False by simp
  next
    case True
    have "counter_at t (cview s) (redisKey r k) = None" by (rule counter_at_later [OF Cons.prems(3) srt(2)])
    note f = fresh_call [OF a [unfolded True] this]
    have "int (passed k w v (redis_run K r cs s')) \<le> max 0 (rl_total r - 1)"
      using assms srt f(2) by (intro within_window [of v "t + window_ms r"]) simp_all
    then show ?thesis using run total by auto
  qed
qed

lemma two_windows:
  assumes "v \<le> u + window_ms r"
  shows "sorted (map fst cs) \<Longrightarrow> \<forall>c \<in> set cs. u \<le> fst c \<Longrightarrow> ctr s k = Some (c, Some e) \<Longrightarrow> 1 \<le> c
    \<Longrightarrow> int (passed k w v (redis_run K r cs s)) \<le> max 0 (rl_total r - c) + rl_total r"
proof (induction cs arbitrary: s c)
  case (Cons x cs)
  obtain t k' where x: "x = (t, k')" by (cases x)
  obtain a s' where a: "redis_Allow K r None None t k' s = (a, s')" by (rule prod.exhaust)
  have run: "redis_run K r (x # cs) s = (t, k', a) # redis_run K r cs s'" using x a by simp
  have srt: "sorted (map fst cs)" "u \<le> t" "\<forall>c \<in> set cs. u \<le> fst c" using Cons.prems(1,2) x by simp_all
  consider "e \<le> t" | "t < e" "k' \<noteq> k" | "t < e" "k' = k" by linarith
  then show ?case
  proof cases
    case 1
    then have "counter_at t (cview s) (redisKey r k) = None" using Cons.prems(3) by (simp add: counter_at_def lives_def)
    moreover have "\<forall>c \<in> set (x # cs). t \<le> fst c" using Cons.prems(1) x by fastforce
    ultimately have "int (passed k w v (redis_run K r (x # cs) s)) \<le> rl_total r"
      using assms srt(2) Cons.prems(1) by (intro from_fresh [of v t]) simp_all
    then show ?thesis by simp
  next
    case 2
    then have "int (passed k w v (redis_run K r cs s')) \<le> max 0 (rl_total r - c) + rl_total r"
      using other_key [OF a] Cons.prems srt by (intro Cons.IH) simp_all
    then show ?thesis using run 2 by simp
  next
    case 3
    then have "lives t (Some e)" by (simp add: lives_def)
    note l = later_call [OF a [unfolded 3(2)] Cons.prems(3) this Cons.prems(4)]
    have "int (passed k w v (redis_run K r cs s')) \<le> max 0 (rl_total r - (c + 1)) + rl_total r"
      using l(2) Cons.prems(4) srt by (intro Cons.IH) simp_all
    then show ?thesis using run l(1) by auto
  qed
qed (use total in simp)

lemma span_bound:
  assumes "v \<le> u + window_ms r"
  shows "sorted (map fst cs) \<Longrightarrow> counter_ok (ctr s k) \<Longrightarrow> int (passed k u v (redis_run K r cs s)) \<le> 2 * rl_total r"
proof (induction cs arbitrary: s)
  case (Cons x cs)
  obtain t k' where x: "x = (t, k')" by (cases x)
  obtain a s' where a: "redis_Allow K r None None t k' s = (a, s')" by (rule prod.exhaust)
  have run: "redis_run K r (x # cs) s = (t, k', a) # redis_run K r cs s'" using x a by simp
  show ?case
  proof (cases "u \<le> t")
    case True
    then have all: "\<forall>c \<in> set (x # cs). u \<le> fst c" using Cons.prems(1) x by fastforce
    show ?thesis
    proof (cases "ctr s k")
      case None
      then have "int (passed k u v (redis_run K r (x # cs) s)) \<le> rl_total r"
        by (intro from_fresh [OF assms Cons.prems(1) all]) (simp add: counter_at_def)
      then show ?thesis using total by simp
    next
      case (Some y)
      then obtain c e where y: "ctr s k = Some (c, Some e)" "1 \<le> c" using Cons.prems(2) by (cases y) (auto simp: counter_ok_def)
      from two_windows [where w = u, OF assms Cons.prems(1) all y] show ?thesis using y(2) total by (simp add: max_def split: if_splits)
    qed
  next
    case False
    have "counter_ok (ctr s' k)"
    proof (cases "k' = k")
      case True
      show ?thesis
      proof (cases "counter_at t (cview s) (redisKey r k)")
        case None
        then show ?thesis using fresh_call(2) [OF a [unfolded True]] by (simp add: counter_ok_def)
      next
        case (Some y)
        then obtain c e where y: "ctr s k = Some (c, e)" "lives t e"
          by (auto simp: counter_at_def split: option.splits if_splits)
        then have "1 \<le> c" "e \<noteq> None" using Cons.prems(2) by (simp_all add: counter_ok_def)
        then show ?thesis using later_call(2) [OF a [unfolded True] y] by (simp add: counter_ok_def)
      qed
    qed (use other_key [OF a] Cons.prems(2) in simp)
    then have "int (passed k u v (redis_run K r cs s')) \<le> 2 * rl_total r" using Cons.prems(1) by (intro Cons.IH) simp_all
    then show ?thesis using run False by simp
  qed
qed (use total in simp)

text \<open>A counter whose \<^verbatim>\<open>EXPIRE\<close> was lost refuses its key for ever once it is full.\<close>

lemma lost_expire_blocks:
  "ctr s k = Some (c, None) \<Longrightarrow> rl_total r \<le> c \<Longrightarrow> (t, k, a) \<in> set (redis_run K r cs s) \<Longrightarrow> \<not> a"
proof (induction cs arbitrary: s c)
  case (Cons x cs)
  obtain t' k' where x: "x = (t', k')" by (cases x)
  obtain b s' where b: "redis_Allow K r None None t' k' s = (b, s')" by (rule prod.exhaust)
  show ?case
  proof (cases "k' = k")
    case True
    have c: "1 \<le> c" using total Cons.prems(2) by simp
    note l = later_call [OF b [unfolded True] Cons.prems(1) _ c]
    have "ctr s' k = Some (c + 1, None)" "\<not> b" using l Cons.prems(2) by (simp_all add: lives_def)
    then show ?thesis using Cons.IH [of s' "c + 1"] Cons.prems x b True by auto
  next
    case False
    then show ?thesis using Cons.IH [of s' c] other_key [OF b False] Cons.prems x b by auto
  qed
qed simp

end

section \<open>A server in memory\<close>

definition memory_counters :: "counters counter_ops" where
  "memory_counters =
     \<lparr>c_INCR = (\<lambda>t k m. case counter_at t m k of
         None \<Rightarrow> (1, m(k \<mapsto> (1, None))) | Some (c, e) \<Rightarrow> (c + 1, m(k \<mapsto> (c + 1, e)))),
      c_EXPIRE = (\<lambda>t k ms m. case counter_at t m k of None \<Rightarrow> m | Some (c, _) \<Rightarrow> m(k \<mapsto> (c, Some (t + ms))))\<rparr>"

interpretation mem_counters: counter_server memory_counters "\<lambda>m. m"
  by unfold_locales (auto simp: memory_counters_def split: option.splits)

definition three_a_second :: redis_limiter where
  "three_a_second = \<lparr>rl_limit = 2, rl_burst = 1, rl_window = second, rl_prefix = ''ratelimit''\<rparr>"

interpretation three: redis_counters memory_counters "\<lambda>m. m" three_a_second
  by unfold_locales (simp add: three_a_second_def rl_total_def fits64_def)

section \<open>Limits\<close>

text \<open>
  The error of \<^verbatim>\<open>EXPIRE\<close> is only logged and the command never repeated: with a limit of three the key is
  refused for ever after, whatever the time.
\<close>

lemma lost_expire:
  "redis_Allow memory_counters three_a_second None (Some e) 0 ''k'' Map.empty = (True, [''ratelimit:k'' \<mapsto> (1, None)])"
  "redis_run memory_counters three_a_second [(1, ''k''), (2, ''k''), (3, ''k''), (10 ^ 15, ''k'')] [''ratelimit:k'' \<mapsto> (1, None)]
     = [(1, ''k'', True), (2, ''k'', True), (3, ''k'', False), (10 ^ 15, ''k'', False)]"
proof -
  show "redis_Allow memory_counters three_a_second None (Some e) 0 ''k'' Map.empty = (True, [''ratelimit:k'' \<mapsto> (1, None)])"
    by (simp add: redis_Allow_def memory_counters_def three_a_second_def redisKey_def counter_at_def rl_total_def fits64_def Let_def)
  show "redis_run memory_counters three_a_second [(1, ''k''), (2, ''k''), (3, ''k''), (10 ^ 15, ''k'')] [''ratelimit:k'' \<mapsto> (1, None)]
     = [(1, ''k'', True), (2, ''k'', True), (3, ''k'', False), (10 ^ 15, ''k'', False)]"
    by (simp add: redis_Allow_def memory_counters_def three_a_second_def redisKey_def counter_at_def lives_def rl_total_def
        fits64_def Let_def)
qed

text \<open>The address of the first entry of \<^verbatim>\<open>X-Forwarded-For\<close> is whatever the client sends.\<close>

lemma forwarded_key_chosen_by_client:
  assumes "header_get h ''X-Forwarded-For'' = ip" and "ip \<noteq> []" and "CHR '','' \<notin> set ip" and "trim_space ip = ip"
  shows "ExtractIPFromRequest h addr = ip"
  using assms by (simp add: ExtractIPFromRequest_def split_on_no_sep)

section \<open>Property\<close>



end
