(* ===== verification/Sse.thy ===== *)
theory Sse
  imports Http
begin

text \<open>
  \<^verbatim>\<open>pkg/http/sse\<close>: server-sent events.  The replay stores keep the last events of a channel and have one
  contract, locale \<open>replay_store\<close>; the manager keeps the connected clients and their queues; the
  handler writes events in the format of the browsers.  An operation of the manager is a
  function on its state; the buses, which carry events between instances, are parameters.  Two
  places where the code gives up the mutex inside an operation are looked at separately, at the end.  The theory shows who receives an event, that a client that resumes
  misses nothing, and that what is written is read back; and the situations in which this breaks.
\<close>

section \<open>Events\<close>

record sse_event =
  ev_ID :: string
  ev_Channel :: string
  ev_TenantID :: string
  ev_Subject :: string
  ev_Type :: string
  ev_Data :: string
  ev_RetryMS :: int
  ev_Timestamp :: gotime

text \<open>The verb \<^verbatim>\<open>%0wd\<close>, for numbers that are not negative.\<close>

definition padded :: "nat \<Rightarrow> nat \<Rightarrow> string" where
  "padded w n = replicate (w - length (show_nat n)) CHR ''0'' @ show_nat n"

text \<open>\<open>ms\<close> is the time in milliseconds since 1970, \<open>sq\<close> the process counter after its increment.\<close>

definition nextEventID :: "nat \<Rightarrow> nat \<Rightarrow> string" where
  "nextEventID ms sq = padded 13 ms @ ''-'' @ padded 10 sq"

text \<open>Go's \<^verbatim>\<open><\<close> on strings.\<close>

fun str_less :: "string \<Rightarrow> string \<Rightarrow> bool" where
  "str_less [] [] = False"
| "str_less [] (_ # _) = True"
| "str_less (_ # _) [] = False"
| "str_less (a # as) (b # bs) = (byte a < byte b \<or> a = b \<and> str_less as bs)"

section \<open>Replay stores\<close>

definition take_last :: "nat \<Rightarrow> 'a list \<Rightarrow> 'a list" where
  "take_last n xs = drop (length xs - n) xs"

definition newer :: "string \<Rightarrow> sse_event \<Rightarrow> bool" where
  "newer lastEventID e \<longleftrightarrow> lastEventID = [] \<or> str_less lastEventID (ev_ID e)"

subsection \<open>In memory\<close>

type_synonym sse_memory = "string \<Rightarrow> sse_event list"

definition sse_store_size :: "int \<Rightarrow> nat" where
  "sse_store_size maxSize = (if maxSize \<le> 0 then 256 else nat maxSize)"

definition sse_memory_Append :: "nat \<Rightarrow> sse_event \<Rightarrow> sse_memory \<Rightarrow> err option \<times> sse_memory" where
  "sse_memory_Append maxSize event s =
     (let events = s (ev_Channel event) @ [event];
          events = (if length events > maxSize then drop (length events - maxSize) events else events) in
      (None, s(ev_Channel event := events)))"

definition sse_memory_GetSince :: "string \<Rightarrow> string \<Rightarrow> int \<Rightarrow> sse_memory \<Rightarrow> sse_event list result" where
  "sse_memory_GetSince channel lastEventID limit s =
     (let events = s channel in
      if events = [] then Inr []
      else let limit = (if limit \<le> 0 then int (length events) else limit);
               out = filter (\<lambda>e. lastEventID = [] \<or> str_less lastEventID (ev_ID e)) events in
        Inr (if int (length out) > limit then drop (length out - nat limit) out else out))"

subsection \<open>On a Redis server\<close>

text \<open>
  \<^verbatim>\<open>RPUSH\<close> with \<^verbatim>\<open>LTRIM\<close> in one transaction, and \<^verbatim>\<open>LRANGE\<close>; the errors are those of the connection.  The JSON
  codec is a parameter.
\<close>

record 'r list_ops =
  l_PUSHTRIM :: "string \<Rightarrow> string \<Rightarrow> nat \<Rightarrow> 'r \<Rightarrow> 'r"
  l_LRANGE :: "string \<Rightarrow> 'r \<Rightarrow> string list"

record event_codec =
  ec_Marshal :: "sse_event \<Rightarrow> string result"
  ec_Unmarshal :: "string \<Rightarrow> sse_event option"

definition sse_redis_Append ::
  "'r list_ops \<Rightarrow> event_codec \<Rightarrow> string \<Rightarrow> nat \<Rightarrow> err option \<Rightarrow> sse_event \<Rightarrow> 'r \<Rightarrow> err option \<times> 'r" where
  "sse_redis_Append R C prefix maxSize net event s =
     (case ec_Marshal C event of
        Inl e \<Rightarrow> (Some e, s)
      | Inr raw \<Rightarrow>
          (case net of
             Some e \<Rightarrow> (Some e, s)
           | None \<Rightarrow> (None, l_PUSHTRIM R (prefix @ '':'' @ ev_Channel event) raw maxSize s)))"

definition sse_redis_GetSince ::
  "'r list_ops \<Rightarrow> event_codec \<Rightarrow> string \<Rightarrow> err option \<Rightarrow> string \<Rightarrow> string \<Rightarrow> int \<Rightarrow> 'r \<Rightarrow> sse_event list result" where
  "sse_redis_GetSince R C prefix net channel lastEventID limit s =
     (case net of
        Some e \<Rightarrow> Inl e
      | None \<Rightarrow>
          (let values = l_LRANGE R (prefix @ '':'' @ channel) s;
               limit = (if limit \<le> 0 then int (length values) else limit);
               out = filter (\<lambda>e. lastEventID = [] \<or> str_less lastEventID (ev_ID e)) (List.map_filter (ec_Unmarshal C) values) in
           Inr (if int (length out) > limit then drop (length out - nat limit) out else out)))"

section \<open>The contract of the replay stores\<close>

lemma take_last_snoc: "take_last n (take_last n xs @ [x]) = take_last n (xs @ [x])"
proof (cases "length xs \<le> n")
  case False
  then have "drop (length (drop (length xs - n) xs @ [x]) - n) (drop (length xs - n) xs @ [x])
      = drop (Suc (length xs) - n) (xs @ [x])"
    by (cases n) (simp_all add: Suc_diff_Suc)
  then show ?thesis by (simp add: take_last_def)
qed (simp add: take_last_def)

lemma take_last_all: "length xs \<le> n \<Longrightarrow> take_last n xs = xs"
  by (simp add: take_last_def)

lemma take_last_suffix: "length xs - n \<le> k \<Longrightarrow> drop (k - (length xs - n)) (take_last n xs) = drop k xs"
  by (simp add: take_last_def)

lemma clip_limit:
  assumes "length n \<le> l"
  shows "(let m = (if limit \<le> 0 then int l else limit) in if int (length n) > m then drop (length n - nat m) n else n)
    = (if limit \<le> 0 then n else take_last (nat limit) n)"
  using assms by (simp add: Let_def take_last_def)

text \<open>
  \<open>hist\<close> is the list a store keeps for a channel.  An appended event is the last of it, and the oldest
  events go; a query gets the last of the newer events.
\<close>

locale replay_store =
  fixes append_event :: "sse_event \<Rightarrow> 's \<Rightarrow> err option \<times> 's"
    and since :: "string \<Rightarrow> string \<Rightarrow> int \<Rightarrow> 's \<Rightarrow> sse_event list result"
    and hist :: "'s \<Rightarrow> string \<Rightarrow> sse_event list"
    and valid :: "'s \<Rightarrow> bool"
    and cap :: nat
  assumes append_ok: "valid s \<Longrightarrow> append_event e s = (None, s') \<Longrightarrow>
      valid s' \<and> hist s' = (hist s)(ev_Channel e := take_last cap (hist s (ev_Channel e) @ [e]))"
    and append_fails: "valid s \<Longrightarrow> append_event e s = (Some x, s') \<Longrightarrow> valid s' \<and> hist s' = hist s"
    and since_ok: "valid s \<Longrightarrow> since ch lastID limit s = Inr out \<Longrightarrow>
      out = (if limit \<le> 0 then filter (newer lastID) (hist s ch) else take_last (nat limit) (filter (newer lastID) (hist s ch)))"
begin

text \<open>The history of a channel is the end of what was appended.\<close>

lemma append_history:
  assumes "valid s" and "append_event e s = (None, s')" and "\<And>ch. hist s ch = take_last cap (all ch)"
  shows "hist s' ch = take_last cap ((all(ev_Channel e := all (ev_Channel e) @ [e])) ch)"
  using append_ok [OF assms(1,2)] assms(3) by (cases "ch = ev_Channel e") (simp_all add: take_last_snoc)

end

text \<open>Identifiers that grow: the events newer than one of them are those after it.\<close>

definition id_less :: "sse_event \<Rightarrow> sse_event \<Rightarrow> bool" where
  "id_less a b \<longleftrightarrow> str_less (ev_ID a) (ev_ID b)"

lemma str_less_irrefl [simp]: "\<not> str_less x x"
  by (induction x) auto

lemma str_less_asym: "str_less x y \<Longrightarrow> \<not> str_less y x"
  by (induction x y rule: str_less.induct) auto

lemma newer_drop:
  assumes "sorted_wrt id_less all" and "i < length all" and "ev_ID (all ! i) \<noteq> []" and "k \<le> Suc i"
  shows "filter (newer (ev_ID (all ! i))) (drop k all) = drop (Suc i) all"
proof -
  have old: "\<not> newer (ev_ID (all ! i)) (all ! j)" if "j \<le> i" for j
    using sorted_wrt_nth_less [OF assms(1), of j i] that assms(2,3) str_less_asym
    by (cases "j = i") (auto simp: newer_def id_less_def)
  have new: "newer (ev_ID (all ! i)) (all ! j)" if "i < j" "j < length all" for j
    using sorted_wrt_nth_less [OF assms(1) that] by (simp add: newer_def id_less_def)
  have "drop k all = take (Suc i - k) (drop k all) @ drop (Suc i) all"
    using assms(4) by (metis append_take_drop_id drop_drop le_add_diff_inverse2)
  moreover have "filter (newer (ev_ID (all ! i))) (take (Suc i - k) (drop k all)) = []"
    using old assms(2) by (auto simp: filter_empty_conv in_set_conv_nth)
  moreover have "filter (newer (ev_ID (all ! i))) (drop (Suc i) all) = drop (Suc i) all"
    using new by (auto simp: filter_id_conv in_set_conv_nth)
  ultimately show ?thesis by (metis append_Nil filter_append)
qed

context replay_store
begin

text \<open>
  A query with the identifier of an event gets the events after it, when they are no more than the
  store keeps and the limit allows.
\<close>

lemma resume:
  assumes "valid s" and "hist s ch = take_last cap all" and "sorted_wrt id_less all" and "i < length all"
    and "ev_ID (all ! i) \<noteq> []" and "length all - Suc i \<le> cap" and "0 < limit" and "int (length all - Suc i) \<le> limit"
    and "since ch (ev_ID (all ! i)) limit s = Inr out"
  shows "out = drop (Suc i) all"
proof -
  have "length all - cap \<le> Suc i" using assms(6) by simp
  then have "filter (newer (ev_ID (all ! i))) (hist s ch) = drop (Suc i) all"
    using newer_drop [OF assms(3-5)] assms(2) by (simp add: take_last_def)
  then show ?thesis using since_ok [OF assms(1,9)] assms(7,8) by (simp add: take_last_all)
qed

end

interpretation memory_store: replay_store "sse_memory_Append n" sse_memory_GetSince "\<lambda>s. s" "\<lambda>_. True" n for n
proof (unfold_locales, goal_cases)
  case (1 s e s')
  then show ?case by (auto simp: sse_memory_Append_def Let_def take_last_def)
next
  case (2 s e x s')
  then show ?case by (simp add: sse_memory_Append_def Let_def)
next
  case (3 s ch lastID limit out)
  let ?n = "filter (newer lastID) (s ch)"
  have f: "newer lastID = (\<lambda>e. lastID = [] \<or> str_less lastID (ev_ID e))" by (simp add: newer_def fun_eq_iff)
  have "length ?n \<le> length (s ch)" by simp
  then show ?case using 3 by (auto simp: sse_memory_GetSince_def Let_def take_last_def f split: if_splits)
qed

text \<open>The lists of a Redis server, and a codec that reads what it writes.\<close>

locale redis_events =
  fixes R :: "'r list_ops" and lists :: "'r \<Rightarrow> string \<Rightarrow> string list" and C :: event_codec and prefix :: string
  assumes pushtrim [simp]: "lists (l_PUSHTRIM R k v n s) = (lists s)(k := take_last n (lists s k @ [v]))"
    and lrange [simp]: "l_LRANGE R k s = lists s k"
    and codec: "ec_Marshal C e = Inr raw \<Longrightarrow> ec_Unmarshal C raw = Some e"
begin

lemma map_filter_decodes:
  "\<forall>x \<in> set xs. f x \<noteq> None \<Longrightarrow> List.map_filter f xs = map (\<lambda>x. the (f x)) xs"
  by (induction xs) (auto simp: List.map_filter_simps)

lemma set_take_last: "x \<in> set (take_last n xs) \<Longrightarrow> x \<in> set xs"
  by (simp add: take_last_def in_set_dropD)

end

sublocale redis_events \<subseteq> redis_store: replay_store "sse_redis_Append R C prefix n None" "sse_redis_GetSince R C prefix None"
    "\<lambda>s ch. List.map_filter (ec_Unmarshal C) (lists s (prefix @ '':'' @ ch))"
    "\<lambda>s. \<forall>ch. \<forall>raw \<in> set (lists s (prefix @ '':'' @ ch)). ec_Unmarshal C raw \<noteq> None" n for n
proof (unfold_locales, goal_cases)
  case (1 s e s')
  then obtain raw where raw: "ec_Marshal C e = Inr raw" and s': "s' = l_PUSHTRIM R (prefix @ '':'' @ ev_Channel e) raw n s"
    by (auto simp: sse_redis_Append_def split: sum.splits)
  have r: "ec_Unmarshal C raw = Some e" using codec [OF raw] .
  let ?l = "lists s (prefix @ '':'' @ ev_Channel e)"
  have v: "\<forall>x \<in> set (?l @ [raw]). ec_Unmarshal C x \<noteq> None" using 1(1) r by auto
  then have vt: "\<forall>x \<in> set (take_last n (?l @ [raw])). ec_Unmarshal C x \<noteq> None" by (meson set_take_last)
  have "List.map_filter (ec_Unmarshal C) (take_last n (?l @ [raw])) = take_last n (List.map_filter (ec_Unmarshal C) ?l @ [e])"
    using map_filter_decodes [OF v] map_filter_decodes [OF vt] map_filter_decodes [of ?l "ec_Unmarshal C"] 1(1) r
    by (cases n) (simp_all add: take_last_def drop_map)
  then show ?case using 1(1) vt s' by (auto simp: fun_eq_iff)
next
  case (2 s e x s')
  then show ?case by (auto simp: sse_redis_Append_def split: sum.splits)
next
  case (3 s ch lastID limit out)
  let ?h = "List.map_filter (ec_Unmarshal C) (lists s (prefix @ '':'' @ ch))"
  have f: "newer lastID = (\<lambda>e. lastID = [] \<or> str_less lastID (ev_ID e))" by (simp add: newer_def fun_eq_iff)
  let ?l = "lists s (prefix @ '':'' @ ch)" and ?n = "filter (newer lastID) ?h"
  have "length ?h = length ?l" using map_filter_decodes [of ?l "ec_Unmarshal C"] 3(1) by simp
  then have le: "length ?n \<le> length ?l" by (metis length_filter_le)
  have "out = (let m = (if limit \<le> 0 then int (length ?l) else limit) in if int (length ?n) > m then drop (length ?n - nat m) ?n else ?n)"
    using 3(2) unfolding sse_redis_GetSince_def f Let_def option.case lrange by (rule sum.inject(2) [THEN iffD1, THEN sym])
  then show ?case using clip_limit [OF le, of limit] by (simp only:)
qed

section \<open>The manager\<close>

record sse_config =
  sc_InstanceID :: string
  sc_MaxConnections :: int
  sc_ClientBuffer :: int
  sc_ReplayLimit :: int
  sc_DropOnBackpressure :: bool
  sc_HeartbeatInterval :: duration
  sc_DefaultRetryMS :: int

definition DefaultManagerConfig :: sse_config where
  "DefaultManagerConfig = \<lparr>sc_InstanceID = ''instance-1'', sc_MaxConnections = 10000, sc_ClientBuffer = 64, sc_ReplayLimit = 100,
     sc_DropOnBackpressure = True, sc_HeartbeatInterval = 20 * second, sc_DefaultRetryMS = 3000\<rparr>"

definition normalizeManagerConfig :: "sse_config \<Rightarrow> sse_config" where
  "normalizeManagerConfig cfg =
     (let dflt = DefaultManagerConfig in
      cfg\<lparr>sc_InstanceID := (if blank (sc_InstanceID cfg) then sc_InstanceID dflt else sc_InstanceID cfg),
          sc_MaxConnections := pos_or (sc_MaxConnections cfg) (sc_MaxConnections dflt),
          sc_ClientBuffer := pos_or (sc_ClientBuffer cfg) (sc_ClientBuffer dflt),
          sc_ReplayLimit := pos_or (sc_ReplayLimit cfg) (sc_ReplayLimit dflt),
          sc_HeartbeatInterval := pos_or (sc_HeartbeatInterval cfg) (sc_HeartbeatInterval dflt),
          sc_DefaultRetryMS := pos_or (sc_DefaultRetryMS cfg) (sc_DefaultRetryMS dflt)\<rparr>)"

text \<open>A client with the events waiting in its channel.\<close>

record sse_client =
  sl_id :: string
  sl_channel :: string
  sl_tenantID :: string
  sl_subject :: string
  sl_lastEvent :: string
  sl_events :: "sse_event list"
  sl_closed :: bool

text \<open>
  Clients are pointers into a heap.  The maps are association lists with one entry a key; a channel
  without clients has no map.
\<close>

type_synonym id_map = "(string \<times> nat) list"

definition id_put :: "string \<Rightarrow> nat \<Rightarrow> id_map \<Rightarrow> id_map" where
  "id_put k p m = filter (\<lambda>x. fst x \<noteq> k) m @ [(k, p)]"

definition id_delete :: "string \<Rightarrow> id_map \<Rightarrow> id_map" where
  "id_delete k m = filter (\<lambda>x. fst x \<noteq> k) m"

record 's sse_state =
  sm_connections :: id_map
  sm_byChannel :: "string \<Rightarrow> id_map"
  sm_busSubscribers :: "string \<rightharpoonup> nat"
  sm_heap :: "nat \<Rightarrow> sse_client"
  sm_next :: nat
  sm_store :: 's

text \<open>
  The store, and the bus when there is one: its \<^verbatim>\<open>Subscribe\<close> returns a handle, and a handle is closed with or
  without an error.
\<close>

record 's sse_env =
  sv_append :: "sse_event \<Rightarrow> 's \<Rightarrow> err option \<times> 's"
  sv_since :: "string \<Rightarrow> string \<Rightarrow> int \<Rightarrow> 's \<Rightarrow> sse_event list result"
  sv_bus :: bool
  sv_subscribe :: "string \<Rightarrow> nat result"
  sv_unsubscribe :: "nat \<Rightarrow> err option"
  sv_publish :: "sse_event \<Rightarrow> err option"

definition client_close :: "nat \<Rightarrow> 's sse_state \<Rightarrow> 's sse_state" where
  "client_close p s = s\<lparr>sm_heap := (sm_heap s)(p := (sm_heap s p)\<lparr>sl_closed := True\<rparr>)\<rparr>"

definition sse_Disconnect :: "'s sse_env \<Rightarrow> string \<Rightarrow> 's sse_state \<Rightarrow> err option \<times> 's sse_state" where
  "sse_Disconnect V cid s =
     (case map_of (sm_connections s) cid of
        None \<Rightarrow> (None, s)
      | Some p \<Rightarrow>
          (let ch = sl_channel (sm_heap s p);
               left = id_delete cid (sm_byChannel s ch);
               s1 = s\<lparr>sm_connections := id_delete cid (sm_connections s), sm_byChannel := (sm_byChannel s)(ch := left)\<rparr> in
           if left \<noteq> [] then (None, client_close p s1)
           else case sm_busSubscribers s ch of
               None \<Rightarrow> (None, client_close p s1)
             | Some h \<Rightarrow>
                 (case sv_unsubscribe V h of
                    Some e \<Rightarrow> (Some e, client_close p s1)
                  | None \<Rightarrow> (None, client_close p (s1\<lparr>sm_busSubscribers := (sm_busSubscribers s1)(ch := None)\<rparr>)))))"

text \<open>\<open>generated\<close> is the identifier \<^verbatim>\<open>nextEventID\<close> gives a client without one.\<close>

definition chooseClientID :: "string \<Rightarrow> string \<Rightarrow> string" where
  "chooseClientID generated v = (if trim_space v \<noteq> [] then trim_space v else generated)"

record sse_subscription =
  sq_ClientID :: string
  sq_Channel :: string
  sq_TenantID :: string
  sq_Subject :: string
  sq_LastEventID :: string

datatype sse_refusal = TooManyConnections | InvalidChannel | OtherError err

definition refused_with :: "'s sse_env \<Rightarrow> err \<Rightarrow> string \<Rightarrow> 's sse_state \<Rightarrow> (sse_refusal + 'a) \<times> 's sse_state" where
  "refused_with V e cid s =
     (case sse_Disconnect V cid s of
        (Some d, s') \<Rightarrow> (Inl (OtherError (EJoin [e, d])), s')
      | (None, s') \<Rightarrow> (Inl (OtherError e), s'))"

definition new_client :: "string \<Rightarrow> sse_subscription \<Rightarrow> sse_client" where
  "new_client generated req = \<lparr>sl_id = chooseClientID generated (sq_ClientID req), sl_channel = trim_space (sq_Channel req),
     sl_tenantID = trim_space (sq_TenantID req), sl_subject = trim_space (sq_Subject req),
     sl_lastEvent = trim_space (sq_LastEventID req), sl_events = [], sl_closed = False\<rparr>"

text \<open>The registration of a client.\<close>

definition sse_register :: "sse_client \<Rightarrow> 's sse_state \<Rightarrow> 's sse_state" where
  "sse_register c s = s\<lparr>sm_connections := id_put (sl_id c) (sm_next s) (sm_connections s),
     sm_byChannel := (sm_byChannel s)(sl_channel c := id_put (sl_id c) (sm_next s) (sm_byChannel s (sl_channel c))),
     sm_heap := (sm_heap s)(sm_next s := c), sm_next := sm_next s + 1\<rparr>"

definition sse_Subscribe ::
  "'s sse_env \<Rightarrow> sse_config \<Rightarrow> string \<Rightarrow> sse_subscription \<Rightarrow> 's sse_state
     \<Rightarrow> (sse_refusal + nat \<times> sse_event list) \<times> 's sse_state" where
  "sse_Subscribe V cfg generated req s =
     (let channel = trim_space (sq_Channel req); client = new_client generated req in
      if channel = [] then (Inl InvalidChannel, s)
      else if sc_MaxConnections cfg > 0 \<and> int (length (sm_connections s)) \<ge> sc_MaxConnections cfg
      then (Inl TooManyConnections, s)
      else let s1 = sse_register client s;
               subscribed = (if sv_bus V \<and> sm_busSubscribers s channel = None
                  then (case sv_subscribe V channel of
                          Inl e \<Rightarrow> Inl e
                        | Inr h \<Rightarrow> Inr (s1\<lparr>sm_busSubscribers := (sm_busSubscribers s1)(channel \<mapsto> h)\<rparr>))
                  else Inr s1) in
          case subscribed of
            Inl e \<Rightarrow> refused_with V e (sl_id client) s1
          | Inr s2 \<Rightarrow>
              (case sv_since V channel (sl_lastEvent client) (sc_ReplayLimit cfg) (sm_store s2) of
                 Inl e \<Rightarrow> refused_with V e (sl_id client) s2
               | Inr replay \<Rightarrow> (Inr (sm_next s, replay), s2)))"

definition matchesRouting :: "sse_client \<Rightarrow> sse_event \<Rightarrow> bool" where
  "matchesRouting c e \<longleftrightarrow>
     \<not> (sl_tenantID c \<noteq> [] \<and> ev_TenantID e \<noteq> [] \<and> sl_tenantID c \<noteq> ev_TenantID e)
     \<and> \<not> (sl_subject c \<noteq> [] \<and> ev_Subject e \<noteq> [] \<and> sl_subject c \<noteq> ev_Subject e)"

definition sse_enqueue :: "sse_config \<Rightarrow> nat \<Rightarrow> sse_event \<Rightarrow> 's sse_state \<Rightarrow> bool \<times> 's sse_state" where
  "sse_enqueue cfg p e s =
     (let c = sm_heap s p in
      if sl_closed c then (False, s)
      else if int (length (sl_events c)) < sc_ClientBuffer cfg
      then (True, s\<lparr>sm_heap := (sm_heap s)(p := c\<lparr>sl_events := sl_events c @ [e]\<rparr>)\<rparr>)
      else (False, s))"

definition deliver_one :: "'s sse_env \<Rightarrow> sse_config \<Rightarrow> sse_event \<Rightarrow> nat \<Rightarrow> 's sse_state \<Rightarrow> 's sse_state" where
  "deliver_one V cfg e p s =
     (if \<not> matchesRouting (sm_heap s p) e then s
      else case sse_enqueue cfg p e s of
          (True, s') \<Rightarrow> s'
        | (False, s') \<Rightarrow> (if sc_DropOnBackpressure cfg then snd (sse_Disconnect V (sl_id (sm_heap s' p)) s') else s'))"

definition sse_deliver :: "'s sse_env \<Rightarrow> sse_config \<Rightarrow> sse_event \<Rightarrow> 's sse_state \<Rightarrow> 's sse_state" where
  "sse_deliver V cfg e s = fold (deliver_one V cfg e) (map snd (sm_byChannel s (ev_Channel e))) s"

record sse_publish =
  sp_Channel :: string
  sp_TenantID :: string
  sp_Subject :: string
  sp_Type :: string
  sp_Data :: string
  sp_RetryMS :: int

text \<open>
  \<^verbatim>\<open>Publish\<close>; the time is not the zero time, so \<^verbatim>\<open>normalize\<close> only gives the event its identifier \<open>eid\<close>.  With a bus
  the event comes back through \<^verbatim>\<open>deliver\<close> of the subscribed instances.
\<close>

definition sse_Publish ::
  "'s sse_env \<Rightarrow> sse_config \<Rightarrow> gotime \<Rightarrow> string \<Rightarrow> sse_publish \<Rightarrow> 's sse_state
     \<Rightarrow> (sse_refusal + sse_event) \<times> 's sse_state" where
  "sse_Publish V cfg now eid req s =
     (let channel = trim_space (sp_Channel req) in
      if channel = [] then (Inl InvalidChannel, s)
      else let event = \<lparr>ev_ID = eid, ev_Channel = channel, ev_TenantID = trim_space (sp_TenantID req),
                 ev_Subject = trim_space (sp_Subject req), ev_Type = trim_space (sp_Type req), ev_Data = sp_Data req,
                 ev_RetryMS = pos_or (sp_RetryMS req) (sc_DefaultRetryMS cfg), ev_Timestamp = now\<rparr> in
        case sv_append V event (sm_store s) of
          (Some e, st) \<Rightarrow> (Inl (OtherError e), s\<lparr>sm_store := st\<rparr>)
        | (None, st) \<Rightarrow>
            (let s' = s\<lparr>sm_store := st\<rparr> in
             if sv_bus V
             then (case sv_publish V event of Some e \<Rightarrow> (Inl (OtherError e), s') | None \<Rightarrow> (Inr event, s'))
             else (Inr event, sse_deliver V cfg event s')))"

text \<open>\<^verbatim>\<open>Close\<close>, less the closing of the bus and the store; \<open>order\<close> is the order in which the map is traversed.\<close>

definition sse_Close :: "'s sse_env \<Rightarrow> string list \<Rightarrow> 's sse_state \<Rightarrow> err option \<times> 's sse_state" where
  "sse_Close V order s =
     (let errs = List.map_filter (\<lambda>ch. case sm_busSubscribers s ch of
             None \<Rightarrow> None
           | Some h \<Rightarrow> map_option (\<lambda>e. EWrap (''close bus subscription '' @ ch @ '': '') e []) (sv_unsubscribe V h)) order;
          s1 = fold (\<lambda>x. client_close (snd x)) (sm_connections s) s in
      (if errs = [] then None else Some (EJoin errs),
       s1\<lparr>sm_busSubscribers := Map.empty, sm_connections := [], sm_byChannel := (\<lambda>_. [])\<rparr>))"

text \<open>What the handler of a client takes from its channel.\<close>

definition client_receive :: "nat \<Rightarrow> 's sse_state \<Rightarrow> sse_event option \<times> 's sse_state" where
  "client_receive p s =
     (case sl_events (sm_heap s p) of
        [] \<Rightarrow> (None, s)
      | e # es \<Rightarrow> (Some e, s\<lparr>sm_heap := (sm_heap s)(p := (sm_heap s p)\<lparr>sl_events := es\<rparr>)\<rparr>))"

section \<open>The handler\<close>

record sse_handler_config =
  sh_ChannelQueryParam :: string
  sh_TenantQueryParam :: string
  sh_SubjectQueryParam :: string
  sh_LastEventIDQueryParam :: string

definition sse_NewHandler :: "bool \<Rightarrow> sse_handler_config \<Rightarrow> sse_handler_config result" where
  "sse_NewHandler manager cfg =
     (if \<not> manager then Inl (ENew ''sse manager is required'')
      else Inr (cfg\<lparr>sh_ChannelQueryParam := (if blank (sh_ChannelQueryParam cfg) then ''channel'' else sh_ChannelQueryParam cfg),
          sh_TenantQueryParam := (if blank (sh_TenantQueryParam cfg) then ''tenant'' else sh_TenantQueryParam cfg),
          sh_SubjectQueryParam := (if blank (sh_SubjectQueryParam cfg) then ''subject'' else sh_SubjectQueryParam cfg),
          sh_LastEventIDQueryParam := (if blank (sh_LastEventIDQueryParam cfg) then ''last_event_id'' else sh_LastEventIDQueryParam cfg)\<rparr>))"

definition parseSubscriptionRequest :: "http_request \<Rightarrow> sse_handler_config \<Rightarrow> sse_subscription" where
  "parseSubscriptionRequest r cfg =
     (let lastID = trim_space (header_get (hr_Header r) ''Last-Event-ID'') in
      \<lparr>sq_ClientID = trim_space (header_get (hr_Header r) ''X-Client-ID''),
       sq_Channel = trim_space (hr_Query r (sh_ChannelQueryParam cfg)),
       sq_TenantID = trim_space (hr_Query r (sh_TenantQueryParam cfg)),
       sq_Subject = trim_space (hr_Query r (sh_SubjectQueryParam cfg)),
       sq_LastEventID = (if lastID = [] then trim_space (hr_Query r (sh_LastEventIDQueryParam cfg)) else lastID)\<rparr>)"

definition writeComment :: "string \<Rightarrow> string" where
  "writeComment v = '': '' @ v @ [CHR 0x0A, CHR 0x0A]"

definition writeEvent :: "sse_event \<Rightarrow> string" where
  "writeEvent e =
     (let data = (if ev_Data e = [] then ''{}'' else ev_Data e) in
      (if ev_ID e \<noteq> [] then ''id: '' @ ev_ID e @ [CHR 0x0A] else [])
      @ (if ev_Type e \<noteq> [] then ''event: '' @ ev_Type e @ [CHR 0x0A] else [])
      @ (if ev_RetryMS e > 0 then ''retry: '' @ itoa (ev_RetryMS e) @ [CHR 0x0A] else [])
      @ concat (map (\<lambda>line. ''data: '' @ line @ [CHR 0x0A]) (split_on CHR 0x0A data))
      @ [CHR 0x0A])"

text \<open>
  \<^verbatim>\<open>Stream\<close> up to the loop: the answer to a request that gets no stream, or the client and what is written
  first.  \<open>authorize\<close> is the application's check, when there is one, and \<open>flusher\<close> tells whether the writer can
  stream.
\<close>

definition sse_Stream ::
  "'s sse_env \<Rightarrow> sse_config \<Rightarrow> sse_handler_config \<Rightarrow> (sse_subscription \<Rightarrow> err option) option \<Rightarrow> bool \<Rightarrow> string \<Rightarrow> http_request
     \<Rightarrow> 's sse_state \<Rightarrow> (nat \<times> string) outcome \<times> 's sse_state" where
  "sse_Stream V cfg hc authorize flusher generated r s =
     (let req = parseSubscriptionRequest r hc in
      if sq_Channel req = [] then (Answer 400 ''missing channel'', s)
      else if (case authorize of None \<Rightarrow> False | Some f \<Rightarrow> f req \<noteq> None) then (Answer 403 ''subscription not authorized'', s)
      else if \<not> flusher then (Answer 500 ''response writer does not support streaming'', s)
      else case sse_Subscribe V cfg generated req s of
          (Inl TooManyConnections, s') \<Rightarrow> (Answer 503 ''too many sse connections'', s')
        | (Inl InvalidChannel, s') \<Rightarrow> (Answer 400 ''invalid channel'', s')
        | (Inl (OtherError _), s') \<Rightarrow> (Answer 500 ''subscribe failed'', s')
        | (Inr (p, replay), s') \<Rightarrow> (Proceed (p, concat (map writeEvent replay) @ writeComment ''connected''), s'))"

text \<open>
  The loop of \<^verbatim>\<open>Stream\<close>: what it finds in each \<^verbatim>\<open>select\<close>, with whether the write that follows succeeds, and what it
  writes before it returns.
\<close>

datatype stream_signal = RequestDone | ClientClosed | HeartbeatTick | EventReady "sse_event option"

fun stream_loop :: "(stream_signal \<times> bool) list \<Rightarrow> string" where
  "stream_loop [] = []"
| "stream_loop ((RequestDone, _) # _) = []"
| "stream_loop ((ClientClosed, _) # _) = []"
| "stream_loop ((HeartbeatTick, ok) # xs) = (if ok then writeComment ''heartbeat'' @ stream_loop xs else [])"
| "stream_loop ((EventReady None, _) # _) = []"
| "stream_loop ((EventReady (Some e), ok) # xs) = (if ok then writeEvent e @ stream_loop xs else [])"

section \<open>The invariant of the manager\<close>

lemma id_put_set: "set (id_put k p m) = {x \<in> set m. fst x \<noteq> k} \<union> {(k, p)}"
  by (auto simp: id_put_def)

lemma id_delete_set: "set (id_delete k m) = {x \<in> set m. fst x \<noteq> k}"
  by (auto simp: id_delete_def)

lemma id_put_distinct: "distinct (map fst m) \<Longrightarrow> distinct (map fst (id_put k p m))"
  by (auto simp: id_put_def distinct_map_filter)

lemma id_delete_distinct: "distinct (map fst m) \<Longrightarrow> distinct (map fst (id_delete k m))"
  by (simp add: id_delete_def distinct_map_filter)

lemma id_delete_length: "length (id_delete k m) \<le> length m"
  by (simp add: id_delete_def)

lemma map_of_distinct: "distinct (map fst m) \<Longrightarrow> map_of m k = Some p \<longleftrightarrow> (k, p) \<in> set m"
  by (simp add: map_of_eq_Some_iff)

text \<open>
  The clients of the channels are the connections, each under its own identifier, open, and with a
  queue within the buffer.
\<close>

definition sse_wf :: "'s sse_state \<Rightarrow> bool" where
  "sse_wf s \<longleftrightarrow> distinct (map fst (sm_connections s)) \<and> (\<forall>ch. distinct (map fst (sm_byChannel s ch)))
     \<and> (\<forall>cid p. (cid, p) \<in> set (sm_connections s) \<longrightarrow> p < sm_next s \<and> sl_id (sm_heap s p) = cid
          \<and> \<not> sl_closed (sm_heap s p) \<and> (cid, p) \<in> set (sm_byChannel s (sl_channel (sm_heap s p))))
     \<and> (\<forall>ch cid p. (cid, p) \<in> set (sm_byChannel s ch) \<longrightarrow> (cid, p) \<in> set (sm_connections s) \<and> sl_channel (sm_heap s p) = ch)"

definition sse_bounded :: "sse_config \<Rightarrow> 's sse_state \<Rightarrow> bool" where
  "sse_bounded cfg s \<longleftrightarrow> int (length (sm_connections s)) \<le> sc_MaxConnections cfg
     \<and> (\<forall>p < sm_next s. int (length (sl_events (sm_heap s p))) \<le> sc_ClientBuffer cfg)"

definition connected :: "'s sse_state \<Rightarrow> nat \<Rightarrow> bool" where
  "connected s p \<longleftrightarrow> (sl_id (sm_heap s p), p) \<in> set (sm_connections s)"

lemma sse_wfD:
  assumes "sse_wf s"
  shows "distinct (map fst (sm_connections s))" "distinct (map fst (sm_byChannel s ch))"
    "(cid, p) \<in> set (sm_connections s) \<Longrightarrow> p < sm_next s" "(cid, p) \<in> set (sm_connections s) \<Longrightarrow> sl_id (sm_heap s p) = cid"
    "(cid, p) \<in> set (sm_connections s) \<Longrightarrow> \<not> sl_closed (sm_heap s p)"
    "(cid, p) \<in> set (sm_connections s) \<Longrightarrow> (cid, p) \<in> set (sm_byChannel s (sl_channel (sm_heap s p)))"
    "(cid, p) \<in> set (sm_byChannel s ch) \<Longrightarrow> (cid, p) \<in> set (sm_connections s)"
    "(cid, p) \<in> set (sm_byChannel s ch) \<Longrightarrow> sl_channel (sm_heap s p) = ch"
  using assms unfolding sse_wf_def by blast+

lemma client_close_simps [simp]:
  "sm_connections (client_close p s) = sm_connections s" "sm_byChannel (client_close p s) = sm_byChannel s"
  "sm_next (client_close p s) = sm_next s" "sm_store (client_close p s) = sm_store s"
  "sm_busSubscribers (client_close p s) = sm_busSubscribers s"
  "sm_heap (client_close p s) = (sm_heap s)(p := (sm_heap s p)\<lparr>sl_closed := True\<rparr>)"
  by (simp_all add: client_close_def)

text \<open>What \<^verbatim>\<open>Disconnect\<close> changes.\<close>

lemma Disconnect_effect:
  assumes "map_of (sm_connections s) cid = Some p"
  shows "sm_connections (snd (sse_Disconnect V cid s)) = id_delete cid (sm_connections s)"
    "sm_byChannel (snd (sse_Disconnect V cid s))
       = (sm_byChannel s)(sl_channel (sm_heap s p) := id_delete cid (sm_byChannel s (sl_channel (sm_heap s p))))"
    "sm_heap (snd (sse_Disconnect V cid s)) = (sm_heap s)(p := (sm_heap s p)\<lparr>sl_closed := True\<rparr>)"
    "sm_next (snd (sse_Disconnect V cid s)) = sm_next s" "sm_store (snd (sse_Disconnect V cid s)) = sm_store s"
  using assms by (auto simp: sse_Disconnect_def Let_def split: option.splits)

lemma Disconnect_absent: "map_of (sm_connections s) cid = None \<Longrightarrow> sse_Disconnect V cid s = (None, s)"
  by (simp add: sse_Disconnect_def)

lemma Disconnect_wf:
  assumes "sse_wf s"
  shows "sse_wf (snd (sse_Disconnect V cid s))"
proof (cases "map_of (sm_connections s) cid")
  case None
  then show ?thesis using assms by (simp add: Disconnect_absent)
next
  case (Some p)
  note e = Disconnect_effect [OF Some, of V]
  have p: "(cid, p) \<in> set (sm_connections s)" using Some by (rule map_of_SomeD)
  have other: "q \<noteq> p" if "(c, q) \<in> set (sm_connections s)" "c \<noteq> cid" for c q
    using sse_wfD(4) [OF assms] that p by blast
  have gone: "(c, q) \<notin> set (sm_byChannel s ch)" if "c = cid" "ch \<noteq> sl_channel (sm_heap s p)" for c q ch
    using sse_wfD(7,8) [OF assms] sse_wfD(4) [OF assms] that p map_of_distinct [OF sse_wfD(1) [OF assms]] Some
    by (metis option.inject)
  show ?thesis
    unfolding sse_wf_def e
  proof (intro conjI allI impI)
    show "distinct (map fst (id_delete cid (sm_connections s)))" using assms by (simp add: id_delete_distinct sse_wfD(1))
    show "distinct (map fst (((sm_byChannel s)(sl_channel (sm_heap s p) := id_delete cid (sm_byChannel s (sl_channel (sm_heap s p))))) ch))" for ch
      using assms by (simp add: id_delete_distinct sse_wfD(2))
  next
    fix c q assume "(c, q) \<in> set (id_delete cid (sm_connections s))"
    then have c: "(c, q) \<in> set (sm_connections s)" "c \<noteq> cid" by (auto simp: id_delete_set)
    let ?h = "(sm_heap s)(p := (sm_heap s p)\<lparr>sl_closed := True\<rparr>)"
    have q: "?h q = sm_heap s q" using other [OF c] by simp
    show "q < sm_next s" "sl_id (?h q) = c" "\<not> sl_closed (?h q)"
      using sse_wfD(3-5) [OF assms c(1)] q by simp_all
    show "(c, q) \<in> set (((sm_byChannel s)(sl_channel (sm_heap s p) := id_delete cid (sm_byChannel s (sl_channel (sm_heap s p)))))
        (sl_channel (?h q)))"
      using sse_wfD(6) [OF assms c(1)] q c(2) by (auto simp: id_delete_set)
  next
    fix ch c q
    assume "(c, q) \<in> set (((sm_byChannel s)(sl_channel (sm_heap s p) := id_delete cid (sm_byChannel s (sl_channel (sm_heap s p))))) ch)"
    then have c: "(c, q) \<in> set (sm_byChannel s ch)" "c \<noteq> cid" using gone by (auto simp: id_delete_set split: if_splits)
    have m: "(c, q) \<in> set (sm_connections s)" by (rule sse_wfD(7) [OF assms c(1)])
    show "(c, q) \<in> set (id_delete cid (sm_connections s))" using m c(2) by (simp add: id_delete_set)
    show "sl_channel (((sm_heap s)(p := (sm_heap s p)\<lparr>sl_closed := True\<rparr>)) q) = ch"
      using sse_wfD(8) [OF assms c(1)] other [OF m c(2)] by simp
  qed
qed

lemma Disconnect_bounded: "sse_bounded cfg s \<Longrightarrow> sse_bounded cfg (snd (sse_Disconnect V cid s))"
proof (cases "map_of (sm_connections s) cid")
  case (Some p)
  assume "sse_bounded cfg s"
  then show ?thesis using id_delete_length [of cid "sm_connections s"] Disconnect_effect [OF Some, of V]
    by (auto simp: sse_bounded_def)
qed (simp add: Disconnect_absent)

text \<open>What the delivery to one client changes: its own queue, or its connection.\<close>

definition has_room :: "sse_config \<Rightarrow> sse_client \<Rightarrow> bool" where
  "has_room cfg c \<longleftrightarrow> int (length (sl_events c)) < sc_ClientBuffer cfg"

lemma deliver_one_effect:
  assumes "sse_wf s" and "connected s p"
  shows "sm_heap (deliver_one V cfg e p s) = (sm_heap s)(p := (sm_heap s p)
      \<lparr>sl_events := sl_events (sm_heap s p) @ (if matchesRouting (sm_heap s p) e \<and> has_room cfg (sm_heap s p) then [e] else []),
       sl_closed := (matchesRouting (sm_heap s p) e \<and> \<not> has_room cfg (sm_heap s p) \<and> sc_DropOnBackpressure cfg)\<rparr>)"
    "set (sm_connections (deliver_one V cfg e p s)) = set (sm_connections s)
       - (if matchesRouting (sm_heap s p) e \<and> \<not> has_room cfg (sm_heap s p) \<and> sc_DropOnBackpressure cfg
          then {(sl_id (sm_heap s p), p)} else {})"
    "sm_next (deliver_one V cfg e p s) = sm_next s" "sm_store (deliver_one V cfg e p s) = sm_store s"
proof -
  have c: "(sl_id (sm_heap s p), p) \<in> set (sm_connections s)" using assms(2) by (simp add: connected_def)
  have o: "\<not> sl_closed (sm_heap s p)" by (rule sse_wfD(5) [OF assms(1) c])
  have m: "map_of (sm_connections s) (sl_id (sm_heap s p)) = Some p"
    using map_of_distinct [OF sse_wfD(1) [OF assms(1)]] c by simp
  note d = Disconnect_effect [OF m, of V]
  have uniq: "{x \<in> set (sm_connections s). fst x \<noteq> sl_id (sm_heap s p)} = set (sm_connections s) - {(sl_id (sm_heap s p), p)}"
    using eq_key_imp_eq_value [OF sse_wfD(1) [OF assms(1)] c] c by (auto, blast)
  have rec: "(sm_heap s p)\<lparr>sl_events := sl_events (sm_heap s p), sl_closed := False\<rparr> = sm_heap s p" using o by simp
  show "sm_heap (deliver_one V cfg e p s) = (sm_heap s)(p := (sm_heap s p)
      \<lparr>sl_events := sl_events (sm_heap s p) @ (if matchesRouting (sm_heap s p) e \<and> has_room cfg (sm_heap s p) then [e] else []),
       sl_closed := (matchesRouting (sm_heap s p) e \<and> \<not> has_room cfg (sm_heap s p) \<and> sc_DropOnBackpressure cfg)\<rparr>)"
    using o rec by (auto simp: deliver_one_def sse_enqueue_def has_room_def Let_def d fun_eq_iff)
  show "set (sm_connections (deliver_one V cfg e p s)) = set (sm_connections s)
       - (if matchesRouting (sm_heap s p) e \<and> \<not> has_room cfg (sm_heap s p) \<and> sc_DropOnBackpressure cfg
          then {(sl_id (sm_heap s p), p)} else {})"
    using o uniq by (auto simp: deliver_one_def sse_enqueue_def has_room_def Let_def d id_delete_set)
  show "sm_next (deliver_one V cfg e p s) = sm_next s" "sm_store (deliver_one V cfg e p s) = sm_store s"
    using o by (simp_all add: deliver_one_def sse_enqueue_def Let_def d)
qed

lemma queue_update_wf:
  "sse_wf s \<Longrightarrow> sse_wf (s\<lparr>sm_heap := (sm_heap s)(p := (sm_heap s p)\<lparr>sl_events := q\<rparr>)\<rparr>)"
  by (auto simp: sse_wf_def)

lemma deliver_one_wf: "sse_wf s \<Longrightarrow> sse_wf (deliver_one V cfg e p s)"
  by (simp add: deliver_one_def sse_enqueue_def Let_def queue_update_wf Disconnect_wf)

text \<open>The delivery of an event to every client of its channel.\<close>

definition delivered :: "sse_config \<Rightarrow> sse_event \<Rightarrow> sse_client \<Rightarrow> sse_client" where
  "delivered cfg e c = c
      \<lparr>sl_events := sl_events c @ (if matchesRouting c e \<and> has_room cfg c then [e] else []),
       sl_closed := (matchesRouting c e \<and> \<not> has_room cfg c \<and> sc_DropOnBackpressure cfg)\<rparr>"

lemma delivered_simps [simp]:
  "sl_id (delivered cfg e c) = sl_id c" "sl_channel (delivered cfg e c) = sl_channel c"
  "sl_tenantID (delivered cfg e c) = sl_tenantID c" "sl_subject (delivered cfg e c) = sl_subject c"
  "sl_lastEvent (delivered cfg e c) = sl_lastEvent c"
  "sl_events (delivered cfg e c) = sl_events c @ (if matchesRouting c e \<and> has_room cfg c then [e] else [])"
  "sl_closed (delivered cfg e c) \<longleftrightarrow> matchesRouting c e \<and> \<not> has_room cfg c \<and> sc_DropOnBackpressure cfg"
  by (simp_all add: delivered_def)

lemma fold_deliver:
  "sse_wf s \<Longrightarrow> distinct ps \<Longrightarrow> \<forall>p \<in> set ps. connected s p \<Longrightarrow>
     sm_heap (fold (deliver_one V cfg e) ps s) = (\<lambda>q. if q \<in> set ps then delivered cfg e (sm_heap s q) else sm_heap s q)
     \<and> sse_wf (fold (deliver_one V cfg e) ps s)
     \<and> (\<forall>q. (sl_id (sm_heap s q), q) \<in> set (sm_connections s) \<longrightarrow>
          connected (fold (deliver_one V cfg e) ps s) q \<or> q \<in> set ps \<and> sl_closed (delivered cfg e (sm_heap s q)))
     \<and> sm_next (fold (deliver_one V cfg e) ps s) = sm_next s \<and> sm_store (fold (deliver_one V cfg e) ps s) = sm_store s
     \<and> set (sm_connections (fold (deliver_one V cfg e) ps s)) \<subseteq> set (sm_connections s)"
proof (induction ps arbitrary: s)
  case Nil
  then show ?case by (auto simp: connected_def)
next
  case (Cons p ps)
  let ?s = "deliver_one V cfg e p s"
  have p: "connected s p" using Cons.prems(3) by simp
  note d = deliver_one_effect [OF Cons.prems(1) p, of V cfg e]
  have h: "sm_heap ?s = (sm_heap s)(p := delivered cfg e (sm_heap s p))" using d(1) by (simp add: delivered_def)
  have con: "connected ?s q" if "connected s q" "q \<noteq> p" for q
    using that d(2) h by (auto simp: connected_def)
  have "\<forall>q \<in> set ps. connected ?s q" using Cons.prems(2,3) con by auto
  note ih = Cons.IH [OF deliver_one_wf [OF Cons.prems(1)] _ this]
  have self: "connected ?s p \<or> sl_closed (delivered cfg e (sm_heap s p))"
    using p d(2) h by (auto simp: connected_def)
  have sub: "set (sm_connections ?s) \<subseteq> set (sm_connections s)" using d(2) by auto
  have idq: "sl_id (sm_heap ?s q) = sl_id (sm_heap s q)" for q using h by simp
  have np: "p \<notin> set ps" "distinct ps" using Cons.prems(2) by simp_all
  show ?case
  proof (intro conjI)
    show "sm_heap (fold (deliver_one V cfg e) (p # ps) s)
        = (\<lambda>q. if q \<in> set (p # ps) then delivered cfg e (sm_heap s q) else sm_heap s q)"
      using ih np h by (auto simp: fun_eq_iff)
    show "\<forall>q. (sl_id (sm_heap s q), q) \<in> set (sm_connections s) \<longrightarrow>
        connected (fold (deliver_one V cfg e) (p # ps) s) q \<or> q \<in> set (p # ps) \<and> sl_closed (delivered cfg e (sm_heap s q))"
    proof (intro allI impI)
      fix q assume q: "(sl_id (sm_heap s q), q) \<in> set (sm_connections s)"
      have ih': "connected ?s q \<Longrightarrow> connected (fold (deliver_one V cfg e) ps ?s) q
          \<or> q \<in> set ps \<and> sl_closed (delivered cfg e (sm_heap ?s q))"
        using ih np(2) by (auto simp: connected_def [of ?s])
      show "connected (fold (deliver_one V cfg e) (p # ps) s) q \<or> q \<in> set (p # ps) \<and> sl_closed (delivered cfg e (sm_heap s q))"
      proof (cases "q = p")
        case True
        then show ?thesis using self ih' np(1) by auto
      next
        case False
        then show ?thesis using con q ih' h by (auto simp: connected_def [of s])
      qed
    qed
  qed (use ih np d sub in auto)
qed

lemma deliver_effect:
  assumes "sse_wf s"
  shows "sm_heap (sse_deliver V cfg e s)
      = (\<lambda>q. if connected s q \<and> sl_channel (sm_heap s q) = ev_Channel e then delivered cfg e (sm_heap s q) else sm_heap s q)"
    "sse_wf (sse_deliver V cfg e s)" "sm_next (sse_deliver V cfg e s) = sm_next s" "sm_store (sse_deliver V cfg e s) = sm_store s"
    "connected s q \<Longrightarrow> connected (sse_deliver V cfg e s) q \<or> sl_closed (sm_heap (sse_deliver V cfg e s) q)"
    "length (sm_connections (sse_deliver V cfg e s)) \<le> length (sm_connections s)"
proof -
  let ?l = "sm_byChannel s (ev_Channel e)" and ?ps = "map snd (sm_byChannel s (ev_Channel e))"
  have ids: "(cid, p) \<in> set ?l \<longleftrightarrow> connected s p \<and> cid = sl_id (sm_heap s p) \<and> sl_channel (sm_heap s p) = ev_Channel e" for cid p
    using sse_wfD(4,6,7,8) [OF assms] by (metis connected_def)
  have "distinct ?l" using sse_wfD(2) [OF assms] by (simp add: distinct_map)
  moreover have "inj_on snd (set ?l)" using ids by (auto simp: inj_on_def)
  ultimately have dp: "distinct ?ps" by (simp add: distinct_map)
  have mem: "q \<in> set ?ps \<longleftrightarrow> connected s q \<and> sl_channel (sm_heap s q) = ev_Channel e" for q
  proof -
    have "q \<in> set ?ps \<longleftrightarrow> (\<exists>cid. (cid, q) \<in> set ?l)" by (auto intro: rev_image_eqI)
    then show ?thesis by (simp add: ids)
  qed
  then have cp: "\<forall>p \<in> set ?ps. connected s p" by simp
  note f = fold_deliver [OF assms dp cp, of V cfg e, folded sse_deliver_def]
  show "sm_heap (sse_deliver V cfg e s)
      = (\<lambda>q. if connected s q \<and> sl_channel (sm_heap s q) = ev_Channel e then delivered cfg e (sm_heap s q) else sm_heap s q)"
    using f mem by (simp add: fun_eq_iff)
  show w: "sse_wf (sse_deliver V cfg e s)" "sm_next (sse_deliver V cfg e s) = sm_next s" "sm_store (sse_deliver V cfg e s) = sm_store s"
    using f by simp_all
  show "connected s q \<Longrightarrow> connected (sse_deliver V cfg e s) q \<or> sl_closed (sm_heap (sse_deliver V cfg e s) q)"
    using f by (auto simp: connected_def [of s])
  have "card (set (sm_connections (sse_deliver V cfg e s))) \<le> card (set (sm_connections s))"
    using f by (intro card_mono) auto
  moreover have "distinct (sm_connections t)" if "sse_wf t" for t :: "'a sse_state" using sse_wfD(1) [OF that] by (simp add: distinct_map)
  ultimately show "length (sm_connections (sse_deliver V cfg e s)) \<le> length (sm_connections s)"
    using assms w(1) by (simp add: distinct_card)
qed

section \<open>Runs of the manager\<close>

datatype sse_op =
  OpSubscribe string sse_subscription
| OpPublish gotime string sse_publish
| OpDeliver sse_event
| OpDisconnect string
| OpReceive nat
| OpClose "string list"

text \<open>The state after an operation; \<open>OpDeliver\<close> is an event that comes from the bus.\<close>

fun sse_after :: "'s sse_env \<Rightarrow> sse_config \<Rightarrow> sse_op \<Rightarrow> 's sse_state \<Rightarrow> 's sse_state" where
  "sse_after V cfg (OpSubscribe g req) s = snd (sse_Subscribe V cfg g req s)"
| "sse_after V cfg (OpPublish now eid req) s = snd (sse_Publish V cfg now eid req s)"
| "sse_after V cfg (OpDeliver e) s = sse_deliver V cfg e s"
| "sse_after V cfg (OpDisconnect cid) s = snd (sse_Disconnect V cid s)"
| "sse_after V cfg (OpReceive p) s = snd (client_receive p s)"
| "sse_after V cfg (OpClose order) s = snd (sse_Close V order s)"

text \<open>The identifier of a new client is not in use.\<close>

fun sse_fresh :: "sse_op \<Rightarrow> 's sse_state \<Rightarrow> bool" where
  "sse_fresh (OpSubscribe g req) s \<longleftrightarrow> chooseClientID g (sq_ClientID req) \<notin> fst ` set (sm_connections s)"
| "sse_fresh _ s \<longleftrightarrow> True"

definition sse_empty :: "'s \<Rightarrow> 's sse_state" where
  "sse_empty st = \<lparr>sm_connections = [], sm_byChannel = (\<lambda>_. []), sm_busSubscribers = Map.empty,
     sm_heap = (\<lambda>_. \<lparr>sl_id = [], sl_channel = [], sl_tenantID = [], sl_subject = [], sl_lastEvent = [], sl_events = [], sl_closed = True\<rparr>),
     sm_next = 0, sm_store = st\<rparr>"

inductive sse_reach :: "'s sse_env \<Rightarrow> sse_config \<Rightarrow> 's \<Rightarrow> 's sse_state \<Rightarrow> bool" for V cfg st where
  init: "sse_reach V cfg st (sse_empty st)"
| step: "sse_reach V cfg st s \<Longrightarrow> sse_fresh op s \<Longrightarrow> sse_reach V cfg st (sse_after V cfg op s)"

lemma id_put_fresh: "k \<notin> fst ` set m \<Longrightarrow> id_put k p m = m @ [(k, p)]"
  by (auto simp: id_put_def filter_id_conv)

lemma register_wf:
  assumes "sse_wf s" and "sl_id c \<notin> fst ` set (sm_connections s)" and "\<not> sl_closed c"
  shows "sse_wf (sse_register c s)"
proof -
  have b: "sl_id c \<notin> fst ` set (sm_byChannel s ch)" for ch using sse_wfD(7) [OF assms(1)] assms(2) by force
  have n: "q \<noteq> sm_next s" if "(cid, q) \<in> set (sm_connections s)" for cid q using sse_wfD(3) [OF assms(1) that] by simp
  show ?thesis
    using assms(1,3) b n assms(2)
    unfolding sse_wf_def sse_register_def
    by (auto simp: id_put_fresh less_Suc_eq) (metis sse_wfD(6,7,8) assms(1))+
qed

lemma refused_wf: "sse_wf s \<Longrightarrow> sse_wf (snd (refused_with V e cid s))"
  using Disconnect_wf [of s V cid] by (auto simp: refused_with_def split: prod.splits option.splits)

lemma refused_bounded: "sse_bounded cfg s \<Longrightarrow> sse_bounded cfg (snd (refused_with V e cid s))"
  using Disconnect_bounded [of cfg s V cid] by (auto simp: refused_with_def split: prod.splits option.splits)

lemma subscribers_wf: "sse_wf (s\<lparr>sm_busSubscribers := b\<rparr>) = sse_wf s" "sse_wf (s\<lparr>sm_store := st\<rparr>) = sse_wf s"
  "sse_bounded cfg (s\<lparr>sm_busSubscribers := b\<rparr>) = sse_bounded cfg s" "sse_bounded cfg (s\<lparr>sm_store := st\<rparr>) = sse_bounded cfg s"
  by (simp_all add: sse_wf_def sse_bounded_def)

text \<open>\<^verbatim>\<open>Subscribe\<close> as a registration that may be undone.\<close>

lemma Subscribe_cases:
  obtains (refused) r where "sse_Subscribe V cfg g req s = (Inl r, s)"
    | (undone) e b where "sse_Subscribe V cfg g req s
        = refused_with V e (sl_id (new_client g req)) ((sse_register (new_client g req) s)\<lparr>sm_busSubscribers := b\<rparr>)"
        "int (length (sm_connections s)) < sc_MaxConnections cfg \<or> sc_MaxConnections cfg \<le> 0"
    | (accepted) b replay where "sse_Subscribe V cfg g req s
        = (Inr (sm_next s, replay), (sse_register (new_client g req) s)\<lparr>sm_busSubscribers := b\<rparr>)"
        "sv_since V (trim_space (sq_Channel req)) (trim_space (sq_LastEventID req)) (sc_ReplayLimit cfg) (sm_store s) = Inr replay"
        "int (length (sm_connections s)) < sc_MaxConnections cfg \<or> sc_MaxConnections cfg \<le> 0"
proof -
  let ?c = "new_client g req" and ?ch = "trim_space (sq_Channel req)"
  let ?s1 = "sse_register ?c s"
  let ?full = "sc_MaxConnections cfg > 0 \<and> int (length (sm_connections s)) \<ge> sc_MaxConnections cfg"
  show thesis
  proof (cases "?ch = [] \<or> ?full")
    case True
    then show ?thesis by (cases "?ch = []") (intro refused, simp add: sse_Subscribe_def Let_def)+
  next
    case False
    then have room: "int (length (sm_connections s)) < sc_MaxConnections cfg \<or> sc_MaxConnections cfg \<le> 0" by linarith
    let ?sub = "if sv_bus V \<and> sm_busSubscribers s ?ch = None
        then (case sv_subscribe V ?ch of Inl e \<Rightarrow> Inl e | Inr h \<Rightarrow> Inr (?s1\<lparr>sm_busSubscribers := (sm_busSubscribers ?s1)(?ch \<mapsto> h)\<rparr>))
        else Inr ?s1"
    have S: "sse_Subscribe V cfg g req s = (case ?sub of
          Inl e \<Rightarrow> refused_with V e (sl_id ?c) ?s1
        | Inr s2 \<Rightarrow> (case sv_since V ?ch (sl_lastEvent ?c) (sc_ReplayLimit cfg) (sm_store s2) of
             Inl e \<Rightarrow> refused_with V e (sl_id ?c) s2
           | Inr replay \<Rightarrow> (Inr (sm_next s, replay), s2)))"
      using False unfolding sse_Subscribe_def Let_def by (simp only: if_False de_Morgan_disj)
    have same: "?s1\<lparr>sm_busSubscribers := sm_busSubscribers ?s1\<rparr> = ?s1" by simp
    show ?thesis
    proof (cases ?sub)
      case (Inl e)
      show ?thesis by (rule undone [of e "sm_busSubscribers ?s1"]) (use S Inl same room in simp_all)
    next
      case (Inr s2)
      have "\<exists>b. s2 = ?s1\<lparr>sm_busSubscribers := b\<rparr>"
      proof (cases "sv_bus V \<and> sm_busSubscribers s ?ch = None")
        case True
        then show ?thesis using Inr by (auto split: sum.splits)
      next
        case False
        then show ?thesis using Inr by (intro exI [of _ "sm_busSubscribers ?s1"]) auto
      qed
      then obtain b where s2: "s2 = ?s1\<lparr>sm_busSubscribers := b\<rparr>" ..
      have st: "sm_store s2 = sm_store s" using s2 by (simp add: sse_register_def)
      have le: "sl_lastEvent ?c = trim_space (sq_LastEventID req)" by (simp add: new_client_def)
      show ?thesis
      proof (cases "sv_since V ?ch (trim_space (sq_LastEventID req)) (sc_ReplayLimit cfg) (sm_store s)")
        case (Inl e)
        show ?thesis by (rule undone [of e b]) (use S Inr Inl s2 st le room in \<open>simp_all only: sum.case\<close>)
      next
        case (Inr replay)
        show ?thesis by (rule accepted [of replay b]) (use S Inr \<open>?sub = Inr s2\<close> s2 st le room in \<open>simp_all only: sum.case\<close>)
      qed
    qed
  qed
qed

lemma new_client_simps [simp]:
  "sl_id (new_client g req) = chooseClientID g (sq_ClientID req)" "\<not> sl_closed (new_client g req)" "sl_events (new_client g req) = []"
  "sl_channel (new_client g req) = trim_space (sq_Channel req)"
  by (simp_all add: new_client_def)

lemma register_bounded:
  assumes "sse_bounded cfg s" and "0 < sc_MaxConnections cfg" and "0 < sc_ClientBuffer cfg" and "sl_events c = []"
    and "int (length (sm_connections s)) < sc_MaxConnections cfg \<or> sc_MaxConnections cfg \<le> 0"
  shows "sse_bounded cfg (sse_register c s)"
proof -
  have "length (id_put (sl_id c) (sm_next s) (sm_connections s)) \<le> length (sm_connections s) + 1" by (simp add: id_put_def)
  then have "int (length (id_put (sl_id c) (sm_next s) (sm_connections s))) \<le> sc_MaxConnections cfg"
    using assms(2,5) by linarith
  then show ?thesis using assms(1,3,4) by (auto simp: sse_bounded_def sse_register_def less_Suc_eq)
qed

lemma deliver_bounded:
  assumes "sse_wf s" and "sse_bounded cfg s"
  shows "sse_bounded cfg (sse_deliver V cfg e s)"
proof -
  have "int (length (sm_connections (sse_deliver V cfg e s))) \<le> sc_MaxConnections cfg"
    using deliver_effect(6) [OF assms(1), of V cfg e] assms(2) by (simp add: sse_bounded_def)
  then show ?thesis
    using assms(2) by (auto simp: sse_bounded_def deliver_effect(1,3) [OF assms(1)] has_room_def)
qed

lemma receive_heap:
  "sm_heap (snd (client_receive p s)) = (sm_heap s)(p := (sm_heap s p)\<lparr>sl_events := tl (sl_events (sm_heap s p))\<rparr>)"
  "sm_connections (snd (client_receive p s)) = sm_connections s" "sm_byChannel (snd (client_receive p s)) = sm_byChannel s"
  "sm_next (snd (client_receive p s)) = sm_next s"
  by (auto simp: client_receive_def fun_eq_iff split: list.splits)

lemma receive_wf: "sse_wf s \<Longrightarrow> sse_wf (snd (client_receive p s))"
  by (simp add: sse_wf_def receive_heap)

lemma receive_bounded: "sse_bounded cfg s \<Longrightarrow> sse_bounded cfg (snd (client_receive p s))"
  by (auto simp: sse_bounded_def receive_heap)

lemma Close_wf: "sse_wf (snd (sse_Close V order s))"
  by (simp add: sse_Close_def sse_wf_def Let_def)

lemma fold_close: "sm_next (fold (\<lambda>x. client_close (snd x)) xs s) = sm_next s
    \<and> (\<forall>p. sl_events (sm_heap (fold (\<lambda>x. client_close (snd x)) xs s) p) = sl_events (sm_heap s p))"
  by (induction xs arbitrary: s) auto

lemma Close_bounded: "sse_bounded cfg s \<Longrightarrow> sse_bounded cfg (snd (sse_Close V order s))"
  using fold_close [of "sm_connections s" s] by (auto simp: sse_Close_def sse_bounded_def Let_def)

lemma Publish_state:
  "snd (sse_Publish V cfg now eid req s) = s \<or> (\<exists>st. snd (sse_Publish V cfg now eid req s) = s\<lparr>sm_store := st\<rparr>)
    \<or> (\<exists>e st. snd (sse_Publish V cfg now eid req s) = sse_deliver V cfg e (s\<lparr>sm_store := st\<rparr>))"
  unfolding sse_Publish_def Let_def by (auto split: prod.splits option.splits)

lemma after_wf:
  assumes "sse_wf s" and "sse_fresh op s"
  shows "sse_wf (sse_after V cfg op s)"
proof (cases op)
  case (OpSubscribe g req)
  then have r: "sse_wf (sse_register (new_client g req) s)" using assms by (intro register_wf) simp_all
  show ?thesis using OpSubscribe assms(1) r
    by (cases rule: Subscribe_cases [of V cfg g req s]) (simp_all add: refused_wf subscribers_wf)
next
  case (OpPublish now eid req)
  then show ?thesis using Publish_state [of V cfg now eid req s] assms(1) by (auto simp: subscribers_wf deliver_effect(2))
qed (use assms in \<open>simp_all add: deliver_effect(2) Disconnect_wf receive_wf Close_wf\<close>)

lemma after_bounded:
  assumes "sse_wf s" and "sse_bounded cfg s" and "0 < sc_MaxConnections cfg" and "0 < sc_ClientBuffer cfg"
  shows "sse_bounded cfg (sse_after V cfg op s)"
proof (cases op)
  case (OpSubscribe g req)
  have r: "int (length (sm_connections s)) < sc_MaxConnections cfg \<or> sc_MaxConnections cfg \<le> 0
      \<Longrightarrow> sse_bounded cfg (sse_register (new_client g req) s)"
    using assms by (intro register_bounded) simp_all
  show ?thesis using OpSubscribe assms(2) r
    by (cases rule: Subscribe_cases [of V cfg g req s]) (simp_all add: refused_bounded subscribers_wf)
next
  case (OpPublish now eid req)
  then show ?thesis using Publish_state [of V cfg now eid req s] assms by (auto simp: subscribers_wf deliver_bounded)
qed (use assms in \<open>simp_all add: deliver_bounded Disconnect_bounded receive_bounded Close_bounded\<close>)

lemma reach_inv:
  assumes "sse_reach V cfg st s" and "0 < sc_MaxConnections cfg" and "0 < sc_ClientBuffer cfg"
  shows "sse_wf s \<and> sse_bounded cfg s"
  using assms(1)
proof induction
  case init
  then show ?case using assms(2) by (simp add: sse_empty_def sse_wf_def sse_bounded_def)
next
  case (step s op)
  then show ?case using after_wf after_bounded assms(2,3) by blast
qed

section \<open>The stream of a client\<close>

text \<open>The events an operation delivers, and those it hands to the handler of a client.\<close>

fun op_seen :: "'s sse_env \<Rightarrow> sse_config \<Rightarrow> sse_op \<Rightarrow> 's sse_state \<Rightarrow> sse_event list" where
  "op_seen V cfg (OpDeliver e) s = [e]"
| "op_seen V cfg (OpPublish now eid req) s =
     (if sv_bus V then [] else case fst (sse_Publish V cfg now eid req s) of Inl _ \<Rightarrow> [] | Inr e \<Rightarrow> [e])"
| "op_seen V cfg _ s = []"

fun op_got :: "nat \<Rightarrow> sse_op \<Rightarrow> 's sse_state \<Rightarrow> sse_event list" where
  "op_got p (OpReceive q) s = (if q = p then (case fst (client_receive p s) of None \<Rightarrow> [] | Some e \<Rightarrow> [e]) else [])"
| "op_got p _ s = []"

fun run_state :: "'s sse_env \<Rightarrow> sse_config \<Rightarrow> sse_op list \<Rightarrow> 's sse_state \<Rightarrow> 's sse_state" where
  "run_state V cfg [] s = s"
| "run_state V cfg (op # ops) s = run_state V cfg ops (sse_after V cfg op s)"

fun run_seen :: "'s sse_env \<Rightarrow> sse_config \<Rightarrow> sse_op list \<Rightarrow> 's sse_state \<Rightarrow> sse_event list" where
  "run_seen V cfg [] s = []"
| "run_seen V cfg (op # ops) s = op_seen V cfg op s @ run_seen V cfg ops (sse_after V cfg op s)"

fun run_got :: "'s sse_env \<Rightarrow> sse_config \<Rightarrow> nat \<Rightarrow> sse_op list \<Rightarrow> 's sse_state \<Rightarrow> sse_event list" where
  "run_got V cfg p [] s = []"
| "run_got V cfg p (op # ops) s = op_got p op s @ run_got V cfg p ops (sse_after V cfg op s)"

fun run_fresh :: "'s sse_env \<Rightarrow> sse_config \<Rightarrow> sse_op list \<Rightarrow> 's sse_state \<Rightarrow> bool" where
  "run_fresh V cfg [] s \<longleftrightarrow> True"
| "run_fresh V cfg (op # ops) s \<longleftrightarrow> sse_fresh op s \<and> run_fresh V cfg ops (sse_after V cfg op s)"

definition for_client :: "sse_client \<Rightarrow> sse_event \<Rightarrow> bool" where
  "for_client c e \<longleftrightarrow> ev_Channel e = sl_channel c \<and> matchesRouting c e"

definition same_client :: "sse_client \<Rightarrow> sse_client \<Rightarrow> bool" where
  "same_client c d \<longleftrightarrow> sl_id d = sl_id c \<and> sl_channel d = sl_channel c \<and> sl_tenantID d = sl_tenantID c \<and> sl_subject d = sl_subject c"

lemma for_client_same: "same_client c d \<Longrightarrow> for_client d e = for_client c e"
  by (simp add: for_client_def same_client_def matchesRouting_def)

text \<open>
  One operation: a client that stays open keeps its connection, and its queue gains the delivered
  events for it and loses what its handler takes.
\<close>

definition stream_step :: "'s sse_state \<Rightarrow> 's sse_state \<Rightarrow> nat \<Rightarrow> sse_event list \<Rightarrow> sse_event list \<Rightarrow> bool" where
  "stream_step s s' p seen got \<longleftrightarrow> sl_closed (sm_heap s' p) \<or>
     connected s' p \<and> same_client (sm_heap s p) (sm_heap s' p)
     \<and> got @ sl_events (sm_heap s' p) = sl_events (sm_heap s p) @ filter (for_client (sm_heap s p)) seen"

lemma stream_keep:
  "connected s p \<Longrightarrow> sm_heap s' p = sm_heap s p \<Longrightarrow> (sl_id (sm_heap s p), p) \<in> set (sm_connections s') \<Longrightarrow> stream_step s s' p [] []"
  by (simp add: stream_step_def connected_def same_client_def)

lemma stream_deliver:
  assumes "sse_wf s" and "connected s p" and "sc_DropOnBackpressure cfg"
  shows "stream_step s (sse_deliver V cfg e s) p [e] []"
  using deliver_effect(1) [OF assms(1), of V cfg e] deliver_effect(5) [OF assms(1,2), of V cfg e] assms(2,3)
  by (auto simp: stream_step_def same_client_def for_client_def)

lemma Disconnect_heap:
  assumes "sse_wf s" and "connected s p"
  shows "sl_closed (sm_heap (snd (sse_Disconnect V cid s)) p)
    \<or> sm_heap (snd (sse_Disconnect V cid s)) p = sm_heap s p
      \<and> (sl_id (sm_heap s p), p) \<in> set (sm_connections (snd (sse_Disconnect V cid s)))"
proof (cases "map_of (sm_connections s) cid")
  case (Some q)
  note d = Disconnect_effect [OF Some, of V]
  show ?thesis
  proof (cases "q = p")
    case False
    have "(cid, q) \<in> set (sm_connections s)" using Some by (rule map_of_SomeD)
    then have "sl_id (sm_heap s p) \<noteq> cid"
      using False assms(2) eq_key_imp_eq_value [OF sse_wfD(1) [OF assms(1)]] by (metis connected_def)
    then show ?thesis using d False assms(2) by (simp add: id_delete_set connected_def)
  qed (simp add: d)
qed (use assms in \<open>simp add: Disconnect_absent connected_def\<close>)

lemma stream_Subscribe:
  assumes "sse_wf s" and "connected s p" and "sse_fresh (OpSubscribe g req) s"
  shows "stream_step s (snd (sse_Subscribe V cfg g req s)) p [] []"
proof -
  let ?c = "new_client g req"
  have p: "p < sm_next s" using sse_wfD(3) [OF assms(1)] assms(2) by (auto simp: connected_def)
  have pid: "sl_id (sm_heap s p) \<noteq> sl_id ?c" using assms(2,3) by (force simp: connected_def)
  let ?r = "\<lambda>b. (sse_register ?c s)\<lparr>sm_busSubscribers := b\<rparr>"
  have r: "sm_heap (?r b) p = sm_heap s p" "(sl_id (sm_heap s p), p) \<in> set (sm_connections (?r b))" for b
    using p pid assms(2) by (auto simp: sse_register_def id_put_set connected_def)
  show ?thesis
  proof (cases rule: Subscribe_cases [of V cfg g req s])
    case (refused x)
    then show ?thesis using assms(2) by (auto intro!: stream_keep simp: connected_def)
  next
    case (undone e b)
    have w: "sse_wf (?r b)" using register_wf [OF assms(1), of ?c] assms(3) by (simp add: subscribers_wf)
    have m: "map_of (sm_connections (?r b)) (sl_id ?c) = Some (sm_next s)"
      using map_of_distinct [OF sse_wfD(1) [OF w]] by (simp add: sse_register_def id_put_set)
    have "snd (sse_Subscribe V cfg g req s) = snd (sse_Disconnect V (sl_id ?c) (?r b))"
      using undone(1) by (simp add: refused_with_def split: prod.splits option.splits)
    then show ?thesis using Disconnect_effect [OF m, of V] r [of b] p pid assms(2)
      by (auto intro!: stream_keep simp: id_delete_set)
  next
    case (accepted b replay)
    then show ?thesis using r [of b] assms(2) by (auto intro!: stream_keep)
  qed
qed

lemma fold_close_closed: "p \<in> snd ` set xs \<or> sl_closed (sm_heap s p) \<Longrightarrow> sl_closed (sm_heap (fold (\<lambda>x. client_close (snd x)) xs s) p)"
  by (induction xs arbitrary: s) auto

lemma stream_op:
  assumes "sse_wf s" and "connected s p" and "sse_fresh op s" and "sc_DropOnBackpressure cfg"
  shows "stream_step s (sse_after V cfg op s) p (op_seen V cfg op s) (op_got p op s)"
proof (cases op)
  case (OpSubscribe g req)
  then show ?thesis using stream_Subscribe [OF assms(1,2)] assms(3) by simp
next
  case (OpPublish now eid req)
  have st: "stream_step s (s\<lparr>sm_store := st\<rparr>) p [] []" for st using assms(2) by (auto intro!: stream_keep simp: connected_def)
  have s0: "stream_step s s p [] []" using assms(2) by (auto intro!: stream_keep simp: connected_def)
  have dl: "stream_step s (sse_deliver V cfg e (s\<lparr>sm_store := st\<rparr>)) p [e] []" for e st
    using stream_deliver [of "s\<lparr>sm_store := st\<rparr>" p cfg V e] assms by (simp add: subscribers_wf connected_def stream_step_def)
  show ?thesis using OpPublish st s0 dl
    by (auto simp: sse_Publish_def Let_def split: prod.splits option.splits)
next
  case (OpDeliver e)
  then show ?thesis using stream_deliver [OF assms(1,2,4)] by simp
next
  case (OpDisconnect cid)
  then show ?thesis using Disconnect_heap [OF assms(1,2), of V cid] assms(2) stream_keep [OF assms(2)] by (auto simp: stream_step_def)
next
  case (OpReceive q)
  then show ?thesis using assms(2)
    by (auto simp: stream_step_def connected_def same_client_def receive_heap client_receive_def split: list.splits)
next
  case (OpClose order)
  have "p \<in> snd ` set (sm_connections s)" using assms(2) by (force simp: connected_def)
  then show ?thesis using OpClose fold_close_closed [of p "sm_connections s" s] by (simp add: stream_step_def sse_Close_def Let_def)
qed

text \<open>A closed client stays closed.\<close>

lemma Disconnect_closed: "sl_closed (sm_heap s p) \<Longrightarrow> sl_closed (sm_heap (snd (sse_Disconnect V cid s)) p)"
  by (cases "map_of (sm_connections s) cid") (simp_all add: Disconnect_absent Disconnect_effect(3))

lemma Disconnect_next: "sm_next (snd (sse_Disconnect V cid s)) = sm_next s"
  by (cases "map_of (sm_connections s) cid") (simp_all add: Disconnect_absent Disconnect_effect(4))

lemma refused_snd: "snd (refused_with V e cid s) = snd (sse_Disconnect V cid s)"
  by (simp add: refused_with_def split: prod.splits option.splits)

lemma deliver_closed:
  assumes "sse_wf s" and "sl_closed (sm_heap s p)"
  shows "sl_closed (sm_heap (sse_deliver V cfg e s) p)"
  using sse_wfD(5) [OF assms(1)] assms(2) by (auto simp: deliver_effect(1) [OF assms(1)] connected_def)

lemma after_next:
  assumes "sse_wf s"
  shows "sm_next s \<le> sm_next (sse_after V cfg op s)"
proof (cases op)
  case (OpSubscribe g req)
  then show ?thesis
    by (cases rule: Subscribe_cases [of V cfg g req s]) (simp_all add: refused_snd Disconnect_next sse_register_def)
next
  case (OpPublish now eid req)
  then show ?thesis using Publish_state [of V cfg now eid req s] assms by (auto simp: deliver_effect(3) subscribers_wf)
next
  case (OpClose order)
  then show ?thesis using fold_close [of "sm_connections s" s] by (simp add: sse_Close_def Let_def)
qed (use assms in \<open>simp_all add: deliver_effect(3) Disconnect_next receive_heap\<close>)

lemma after_closed:
  assumes "sse_wf s" and "p < sm_next s" and "sl_closed (sm_heap s p)"
  shows "p < sm_next (sse_after V cfg op s) \<and> sl_closed (sm_heap (sse_after V cfg op s) p)"
proof (cases op)
  case (OpSubscribe g req)
  let ?r = "\<lambda>b. (sse_register (new_client g req) s)\<lparr>sm_busSubscribers := b\<rparr>"
  have r: "p < sm_next (?r b) \<and> sl_closed (sm_heap (?r b) p)" for b using assms(2,3) by (simp add: sse_register_def)
  then have d: "p < sm_next (snd (sse_Disconnect V cid (?r b))) \<and> sl_closed (sm_heap (snd (sse_Disconnect V cid (?r b))) p)" for cid b
    using Disconnect_closed [of "?r b" p V cid] by (simp add: Disconnect_next)
  show ?thesis
  proof (cases rule: Subscribe_cases [of V cfg g req s])
    case (undone e b)
    then show ?thesis using d [of "sl_id (new_client g req)" b] OpSubscribe by (simp add: refused_snd)
  qed (use OpSubscribe assms r in simp_all)
next
  case (OpPublish now eid req)
  then show ?thesis using Publish_state [of V cfg now eid req s] assms
    by (auto simp: deliver_effect(3) deliver_closed subscribers_wf)
next
  case (OpClose order)
  then show ?thesis using assms fold_close [of "sm_connections s" s] fold_close_closed [of p "sm_connections s" s]
    by (simp add: sse_Close_def Let_def)
qed (use assms in \<open>auto simp: deliver_effect(3) deliver_closed Disconnect_closed Disconnect_next receive_heap\<close>)

lemma run_closed:
  "sse_wf s \<Longrightarrow> run_fresh V cfg ops s \<Longrightarrow> p < sm_next s \<Longrightarrow> sl_closed (sm_heap s p) \<Longrightarrow> sl_closed (sm_heap (run_state V cfg ops s) p)"
  by (induction ops arbitrary: s) (simp_all add: after_wf after_closed)

text \<open>
  A client that is open at the end of a run has taken from its queue, or has in it, every event of its
  channel and routing that was delivered, in order and once.
\<close>

lemma run_stream:
  "sse_wf s \<Longrightarrow> connected s p \<Longrightarrow> run_fresh V cfg ops s \<Longrightarrow> sc_DropOnBackpressure cfg \<Longrightarrow>
     \<not> sl_closed (sm_heap (run_state V cfg ops s) p) \<Longrightarrow>
     run_got V cfg p ops s @ sl_events (sm_heap (run_state V cfg ops s) p)
       = sl_events (sm_heap s p) @ filter (for_client (sm_heap s p)) (run_seen V cfg ops s)"
proof (induction ops arbitrary: s)
  case (Cons op ops)
  let ?s = "sse_after V cfg op s"
  have f: "sse_fresh op s" "run_fresh V cfg ops ?s" using Cons.prems(3) by simp_all
  have w: "sse_wf ?s" using Cons.prems(1) f(1) by (rule after_wf)
  have st: "stream_step s ?s p (op_seen V cfg op s) (op_got p op s)"
    using stream_op [OF Cons.prems(1,2) f(1) Cons.prems(4)] .
  have p: "p < sm_next s" using sse_wfD(3) [OF Cons.prems(1)] Cons.prems(2) by (auto simp: connected_def)
  then have "p < sm_next ?s" using after_next [OF Cons.prems(1), of V cfg op] by simp
  then have "\<not> sl_closed (sm_heap ?s p)" using run_closed [OF w f(2)] Cons.prems(5) by auto
  then have k: "connected ?s p" "same_client (sm_heap s p) (sm_heap ?s p)"
      "op_got p op s @ sl_events (sm_heap ?s p) = sl_events (sm_heap s p) @ filter (for_client (sm_heap s p)) (op_seen V cfg op s)"
    using st by (simp_all add: stream_step_def)
  have "for_client (sm_heap ?s p) = for_client (sm_heap s p)" using for_client_same [OF k(2)] by (simp add: fun_eq_iff)
  then have "run_got V cfg p ops ?s @ sl_events (sm_heap (run_state V cfg ops ?s) p)
      = sl_events (sm_heap ?s p) @ filter (for_client (sm_heap s p)) (run_seen V cfg ops ?s)"
    using Cons.IH [OF w k(1) f(2) Cons.prems(4)] Cons.prems(5) by simp
  then show ?case using k(3) by (simp flip: append_assoc) (simp add: append_assoc)
qed simp

section \<open>A client that resumes\<close>

text \<open>An operation of a manager without a bus.\<close>

fun local_op :: "sse_op \<Rightarrow> bool" where
  "local_op (OpDeliver e) = False"
| "local_op _ = True"

lemma Disconnect_store: "sm_store (snd (sse_Disconnect V cid s)) = sm_store s"
  by (cases "map_of (sm_connections s) cid") (simp_all add: Disconnect_absent Disconnect_effect(5))

lemma Subscribe_store: "sm_store (snd (sse_Subscribe V cfg g req s)) = sm_store s"
  by (cases rule: Subscribe_cases [of V cfg g req s]) (simp_all add: refused_snd Disconnect_store sse_register_def)

lemma fold_close_store: "sm_store (fold (\<lambda>x. client_close (snd x)) xs s) = sm_store s"
  by (induction xs arbitrary: s) auto

lemma after_store:
  assumes "local_op op" and "\<And>now eid req. op \<noteq> OpPublish now eid req"
  shows "sm_store (sse_after V cfg op s) = sm_store s \<and> op_seen V cfg op s = []"
  using assms
  by (cases op) (auto simp: Subscribe_store Disconnect_store client_receive_def sse_Close_def Let_def fold_close_store split: list.splits)

text \<open>Without a bus, \<^verbatim>\<open>Publish\<close> delivers the event it appends.\<close>

lemma Publish_cases:
  assumes "\<not> sv_bus V" and "sse_wf s"
  obtains (refused) "sm_store (snd (sse_Publish V cfg now eid req s)) = sm_store s" "op_seen V cfg (OpPublish now eid req) s = []"
    | (failed) e x st where "sv_append V e (sm_store s) = (Some x, st)" "sm_store (snd (sse_Publish V cfg now eid req s)) = st"
        "op_seen V cfg (OpPublish now eid req) s = []"
    | (sent) e st where "sv_append V e (sm_store s) = (None, st)" "sm_store (snd (sse_Publish V cfg now eid req s)) = st"
        "op_seen V cfg (OpPublish now eid req) s = [e]"
proof -
  let ?ch = "trim_space (sp_Channel req)"
  let ?e = "\<lparr>ev_ID = eid, ev_Channel = ?ch, ev_TenantID = trim_space (sp_TenantID req),
     ev_Subject = trim_space (sp_Subject req), ev_Type = trim_space (sp_Type req), ev_Data = sp_Data req,
     ev_RetryMS = pos_or (sp_RetryMS req) (sc_DefaultRetryMS cfg), ev_Timestamp = now\<rparr>"
  show thesis
  proof (cases "?ch = []")
    case True
    then show ?thesis by (intro refused) (simp_all add: sse_Publish_def Let_def)
  next
    case False
    obtain r st where a: "sv_append V ?e (sm_store s) = (r, st)" by force
    have st: "sm_store (sse_deliver V cfg ?e (s\<lparr>sm_store := st\<rparr>)) = st"
      using deliver_effect(4) [of "s\<lparr>sm_store := st\<rparr>" V cfg ?e] assms(2) by (simp add: subscribers_wf)
    show ?thesis
    proof (cases r)
      case None
      show ?thesis by (rule sent [of ?e st]) (use None a False assms st in \<open>simp_all add: sse_Publish_def Let_def\<close>)
    next
      case (Some x)
      show ?thesis by (rule failed [of ?e x st]) (use Some a False assms in \<open>simp_all add: sse_Publish_def Let_def\<close>)
    qed
  qed
qed

context replay_store
begin

lemma after_history:
  assumes "sv_append V = append_event" and "\<not> sv_bus V" and "sse_wf s" and "local_op op" and "valid (sm_store s)"
    and "\<And>ch. hist (sm_store s) ch = take_last cap (all ch)"
  shows "valid (sm_store (sse_after V cfg op s))
    \<and> hist (sm_store (sse_after V cfg op s)) ch = take_last cap (all ch @ filter (\<lambda>e. ev_Channel e = ch) (op_seen V cfg op s))"
proof (cases "\<exists>now eid req. op = OpPublish now eid req")
  case True
  then obtain now eid req where op: "op = OpPublish now eid req" by blast
  show ?thesis
  proof (cases rule: Publish_cases [OF assms(2,3), where cfg = cfg and now = now and eid = eid and req = req])
    case (2 e x st)
    then show ?thesis using append_fails [OF assms(5), of e x st] assms(1,6) op by simp
  next
    case (3 e st)
    then have a: "append_event e (sm_store s) = (None, st)" using assms(1) by simp
    show ?thesis using append_ok [OF assms(5) a] append_history [OF assms(5) a assms(6), where ch = ch] 3 op by auto
  qed (use assms op in simp_all)
next
  case False
  then show ?thesis using after_store [OF assms(4), of V cfg s] assms(5,6) by auto
qed

lemma run_history:
  "sv_append V = append_event \<Longrightarrow> \<not> sv_bus V \<Longrightarrow> sse_wf s \<Longrightarrow> run_fresh V cfg ops s \<Longrightarrow> list_all local_op ops \<Longrightarrow> valid (sm_store s) \<Longrightarrow>
   (\<And>ch. hist (sm_store s) ch = take_last cap (all ch)) \<Longrightarrow>
   sse_wf (run_state V cfg ops s) \<and> valid (sm_store (run_state V cfg ops s))
   \<and> hist (sm_store (run_state V cfg ops s)) ch = take_last cap (all ch @ filter (\<lambda>e. ev_Channel e = ch) (run_seen V cfg ops s))"
proof (induction ops arbitrary: s all)
  case (Cons op ops)
  have f: "sse_fresh op s" "run_fresh V cfg ops (sse_after V cfg op s)" "local_op op" "list_all local_op ops" using Cons.prems(4,5) by simp_all
  note a = after_history [OF Cons.prems(1-3) f(3) Cons.prems(6,7), where cfg = cfg]
  show ?case
    using Cons.IH [OF Cons.prems(1,2) after_wf [OF Cons.prems(3) f(1)] f(2,4) a [THEN conjunct1] a [THEN conjunct2]] by simp
qed simp

text \<open>
  The client of a manager without a bus that comes back with the identifier of an event of its channel:
  its replay and its stream are the events after that one, without a gap or a repetition.
\<close>

lemma resume_stream:
  assumes V: "sv_append V = append_event" "sv_since V = since" "\<not> sv_bus V" and cfg: "sc_DropOnBackpressure cfg" "0 < sc_ReplayLimit cfg"
    and st: "valid st" "\<And>ch. hist st ch = []"
    and before: "run_fresh V cfg ops0 (sse_empty st)" "list_all local_op ops0" "s0 = run_state V cfg ops0 (sse_empty st)"
    and all: "all = filter (\<lambda>e. ev_Channel e = trim_space (sq_Channel req)) (run_seen V cfg ops0 (sse_empty st))"
      "sorted_wrt id_less all" "i < length all" "ev_ID (all ! i) \<noteq> []" "trim_space (sq_LastEventID req) = ev_ID (all ! i)"
      "length all - Suc i \<le> cap" "int (length all - Suc i) \<le> sc_ReplayLimit cfg"
    and sub: "sse_fresh (OpSubscribe g req) s0" "sse_Subscribe V cfg g req s0 = (Inr (p, replay), s1)"
    and after: "run_fresh V cfg ops1 s1" "\<not> sl_closed (sm_heap (run_state V cfg ops1 s1) p)"
  shows "replay @ run_got V cfg p ops1 s1 @ sl_events (sm_heap (run_state V cfg ops1 s1) p)
    = drop (Suc i) all @ filter (for_client (new_client g req)) (run_seen V cfg ops1 s1)"
proof -
  let ?ch = "trim_space (sq_Channel req)"
  have e: "sse_wf (sse_empty st)" "sm_store (sse_empty st) = st" by (simp_all add: sse_empty_def sse_wf_def)
  have h: "sse_wf s0" "valid (sm_store s0)" "hist (sm_store s0) ?ch = take_last cap all"
    using run_history [OF V(1,3) e(1) before(1,2), of "\<lambda>_. []" ?ch] e(2) st all(1) before(3) by (simp_all add: take_last_def)
  have s1: "sse_after V cfg (OpSubscribe g req) s0 = s1" using sub(2) by simp
  obtain b where b: "s1 = (sse_register (new_client g req) s0)\<lparr>sm_busSubscribers := b\<rparr>" and p: "p = sm_next s0"
    and r: "since ?ch (trim_space (sq_LastEventID req)) (sc_ReplayLimit cfg) (sm_store s0) = Inr replay"
    using sub(2) V(2) by (cases rule: Subscribe_cases [of V cfg g req s0]) (auto simp: refused_with_def split: prod.splits option.splits)
  have c: "sm_heap s1 p = new_client g req" "connected s1 p"
    using b p by (simp_all add: sse_register_def connected_def id_put_set)
  have "replay = drop (Suc i) all"
    using resume [OF h(2,3) all(2,3,4,6) cfg(2) all(7)] r all(5) by simp
  moreover have "run_got V cfg p ops1 s1 @ sl_events (sm_heap (run_state V cfg ops1 s1) p)
      = filter (for_client (new_client g req)) (run_seen V cfg ops1 s1)"
    using run_stream [OF _ c(2) after(1) cfg(1) after(2)] after_wf [OF h(1) sub(1), of V cfg] s1 c(1) by simp
  ultimately show ?thesis by simp
qed

end

section \<open>Event identifiers\<close>

lemma foldl_digits: "foldl (\<lambda>v c. 10 * v + (byte c - 48)) (a::nat) s = a * 10 ^ length s + digits_value s"
proof (induction s arbitrary: a)
  case (Cons c s)
  show ?case using Cons [of "10 * a + (byte c - 48)"] Cons [of "byte c - 48"] by (simp add: digits_value_def algebra_simps)
qed (simp add: digits_value_def)

lemma digits_value_Cons: "digits_value (c # s) = (byte c - 48) * 10 ^ length s + digits_value s"
  using foldl_digits [of "byte c - 48" s] by (simp add: digits_value_def)

lemma digits_value_less: "list_all is_digit s \<Longrightarrow> digits_value s < 10 ^ length s"
proof (induction s)
  case (Cons c s)
  have "byte c - 48 \<le> 9" using Cons.prems by (auto simp: is_digit_def)
  then have "(byte c - 48) * 10 ^ length s \<le> 9 * 10 ^ length s" by (rule mult_le_mono1)
  moreover have "digits_value s < 10 ^ length s" using Cons by simp
  ultimately have "(byte c - 48) * 10 ^ length s + digits_value s < 9 * 10 ^ length s + 10 ^ length s" by (rule add_le_less_mono)
  then show ?case by (simp add: digits_value_Cons)
qed (simp add: digits_value_def)

text \<open>Strings of digits of one length are ordered as their numbers.\<close>

lemma str_less_digits:
  "list_all is_digit x \<Longrightarrow> list_all is_digit y \<Longrightarrow> length x = length y \<Longrightarrow> digits_value x < digits_value y \<Longrightarrow> str_less x y"
proof (induction x y rule: str_less.induct)
  case (4 a as b bs)
  let ?p = "10 ^ length bs :: nat"
  have v: "digits_value as < ?p" "digits_value bs < ?p" using 4(2-4) digits_value_less [of as] digits_value_less [of bs] by simp_all
  have ab: "byte a - 48 \<le> byte b - 48"
  proof (rule ccontr)
    assume "\<not> byte a - 48 \<le> byte b - 48"
    then have "Suc (byte b - 48) * ?p \<le> (byte a - 48) * ?p" by (intro mult_le_mono1) simp
    then show False using 4(4,5) v by (simp add: digits_value_Cons)
  qed
  have d: "48 \<le> byte a" "48 \<le> byte b" using 4(2,3) by (simp_all add: is_digit_def)
  show ?case
  proof (cases "byte a = byte b")
    case True
    then have "a = b" by simp
    then show ?thesis using 4 by (simp add: digits_value_Cons)
  next
    case False
    then have "byte a < byte b" using ab d by linarith
    then show ?thesis by simp
  qed
qed (simp_all add: digits_value_def)

lemma show_nat_length: "n < 10 ^ w \<Longrightarrow> 0 < w \<Longrightarrow> length (show_nat n) \<le> w"
proof (induction n arbitrary: w rule: show_nat.induct)
  case (1 n)
  show ?case
  proof (cases "n < 10")
    case False
    then obtain v where w: "w = Suc v" "0 < v" using 1(2,3) by (cases w; cases "w - 1") auto
    then have "n div 10 < 10 ^ v" using 1(2) by (simp add: less_mult_imp_div_less)
    then show ?thesis using 1(1) [OF False _ w(2)] w False by (simp add: show_nat.simps [of n])
  qed (use 1 in \<open>simp add: show_nat.simps [of n]\<close>)
qed

lemma padded_facts:
  assumes "n < 10 ^ w" and "0 < w"
  shows "length (padded w n) = w" "list_all is_digit (padded w n)" "digits_value (padded w n) = n"
proof -
  have z: "digits_value (replicate k CHR ''0'' @ s) = digits_value s" for k s
    by (induction k) (simp_all add: digits_value_Cons)
  show "length (padded w n) = w" using show_nat_length [OF assms] by (simp add: padded_def)
  show "list_all is_digit (padded w n)" using show_nat_digits [of n] by (auto simp: padded_def is_digit_def list_all_iff)
  show "digits_value (padded w n) = n" by (simp add: padded_def z)
qed

lemma str_less_append: "length x = length y \<Longrightarrow> str_less (x @ u) (y @ v) \<longleftrightarrow> str_less x y \<or> x = y \<and> str_less u v"
  by (induction x y rule: str_less.induct) auto

text \<open>
  The identifiers one process gives grow with its counter, while the clock does not go back, the
  milliseconds have thirteen digits (until the year 2286) and the counter ten.
\<close>

lemma nextEventID_grows:
  assumes "ms \<le> ms'" and "sq < sq'" and "ms' < 10 ^ 13" and "sq' < 10 ^ 10"
  shows "str_less (nextEventID ms sq) (nextEventID ms' sq')"
proof -
  have m: "ms < 10 ^ 13" and q: "sq < 10 ^ 10" using assms by linarith+
  note pm = padded_facts [OF m] and pm' = padded_facts [OF assms(3)] and pq = padded_facts [OF q] and pq' = padded_facts [OF assms(4)]
  have "str_less (padded 13 ms) (padded 13 ms')" if "ms < ms'" using pm pm' that by (simp add: str_less_digits)
  moreover have "str_less (padded 10 sq) (padded 10 sq')" using pq pq' assms(2) by (simp add: str_less_digits)
  ultimately show ?thesis using pm pm' assms(1) by (cases "ms = ms'") (simp_all add: nextEventID_def str_less_append)
qed

text \<open>The eleventh digit of the counter breaks the order.\<close>

lemma nextEventID_wraps_order: "str_less (nextEventID 0 10000000000) (nextEventID 0 9999999999)"
  by (simp add: nextEventID_def padded_def show_nat.simps digit_char_def str_less_append)

section \<open>What a browser reads\<close>

text \<open>
  The reader of event streams of the HTML standard, on text with line feeds only: it gathers the fields
  of a block, an empty line dispatches the message when it has data, and the last identifier stays.
\<close>

record es_reader =
  er_id :: string
  er_type :: string
  er_data :: string
  er_retry :: "nat option"

record es_message =
  em_id :: string
  em_type :: string
  em_data :: string

definition es_strip :: "string \<Rightarrow> string" where
  "es_strip v = (case v of c # cs \<Rightarrow> if c = CHR '' '' then cs else v | [] \<Rightarrow> [])"

definition es_field :: "string \<Rightarrow> string \<Rightarrow> es_reader \<Rightarrow> es_reader" where
  "es_field name v r =
     (if name = ''event'' then r\<lparr>er_type := v\<rparr>
      else if name = ''data'' then r\<lparr>er_data := er_data r @ v @ [CHR 0x0A]\<rparr>
      else if name = ''id'' then (if CHR 0x00 \<in> set v then r else r\<lparr>er_id := v\<rparr>)
      else if name = ''retry'' then (case parse_digits v of Some n \<Rightarrow> r\<lparr>er_retry := Some n\<rparr> | None \<Rightarrow> r)
      else r)"

definition es_line :: "string \<Rightarrow> es_reader \<Rightarrow> es_message list \<times> es_reader" where
  "es_line l r =
     (if l = [] then
        (if er_data r = [] then ([], r\<lparr>er_type := []\<rparr>)
         else ([\<lparr>em_id = er_id r, em_type = er_type r, em_data = butlast (er_data r)\<rparr>], r\<lparr>er_type := [], er_data := []\<rparr>))
      else if hd l = CHR '':'' then ([], r)
      else if CHR '':'' \<in> set l then ([], es_field (fst (cut_at CHR '':'' l)) (es_strip (snd (cut_at CHR '':'' l))) r)
      else ([], es_field l [] r))"

fun es_lines :: "string list \<Rightarrow> es_reader \<Rightarrow> es_message list \<times> es_reader" where
  "es_lines [] r = ([], r)"
| "es_lines (l # ls) r = (fst (es_line l r) @ fst (es_lines ls (snd (es_line l r))), snd (es_lines ls (snd (es_line l r))))"

text \<open>The last line has no line feed yet and waits.\<close>

definition es_read :: "string \<Rightarrow> es_reader \<Rightarrow> es_message list \<times> es_reader" where
  "es_read txt r = es_lines (butlast (split_on CHR 0x0A txt)) r"

definition es_start :: es_reader where
  "es_start = \<lparr>er_id = [], er_type = [], er_data = [], er_retry = None\<rparr>"

text \<open>The message an event is meant to be.\<close>

definition event_message :: "sse_event \<Rightarrow> es_message" where
  "event_message e = \<lparr>em_id = ev_ID e, em_type = ev_Type e, em_data = (if ev_Data e = [] then ''{}'' else ev_Data e)\<rparr>"

definition one_line :: "string \<Rightarrow> bool" where
  "one_line s \<longleftrightarrow> CHR 0x0A \<notin> set s \<and> CHR 0x0D \<notin> set s \<and> CHR 0x00 \<notin> set s"

definition writable :: "sse_event \<Rightarrow> bool" where
  "writable e \<longleftrightarrow> ev_ID e \<noteq> [] \<and> one_line (ev_ID e) \<and> one_line (ev_Type e) \<and> CHR 0x0D \<notin> set (ev_Data e)"

lemma es_lines_append:
  "fst (es_lines (xs @ ys) r) = fst (es_lines xs r) @ fst (es_lines ys (snd (es_lines xs r)))"
  "snd (es_lines (xs @ ys) r) = snd (es_lines ys (snd (es_lines xs r)))"
  by (induction xs arbitrary: r) simp_all

lemma split_lines:
  "\<forall>l \<in> set ls. d \<notin> set l \<Longrightarrow> split_on d (concat (map (\<lambda>l. l @ [d]) ls) @ s) = ls @ split_on d s"
  by (induction ls) (simp_all add: split_on_append)

text \<open>What is written is a list of lines.\<close>

definition event_lines :: "sse_event \<Rightarrow> string list" where
  "event_lines e = (if ev_ID e \<noteq> [] then [''id: '' @ ev_ID e] else []) @ (if ev_Type e \<noteq> [] then [''event: '' @ ev_Type e] else [])
     @ (if ev_RetryMS e > 0 then [''retry: '' @ itoa (ev_RetryMS e)] else [])
     @ map (\<lambda>l. ''data: '' @ l) (split_on CHR 0x0A (em_data (event_message e))) @ [[]]"

lemma writeEvent_lines: "writeEvent e = concat (map (\<lambda>l. l @ [CHR 0x0A]) (event_lines e))"
  by (simp add: writeEvent_def event_lines_def event_message_def Let_def comp_def)

lemma split_on_parts: "w \<in> set (split_on d s) \<Longrightarrow> d \<notin> set w"
  by (induction s arbitrary: w) (auto split: if_splits list.splits)

lemma itoa_one_line: "CHR 0x0A \<notin> set (itoa n)"
proof
  assume "CHR 0x0A \<in> set (itoa n)"
  then have "CHR 0x0A = CHR ''-'' \<or> is_digit CHR 0x0A" using itoa_chars [of n] by blast
  then show False by (simp add: is_digit_def)
qed

lemma event_lines_clean: "writable e \<Longrightarrow> l \<in> set (event_lines e) \<Longrightarrow> CHR 0x0A \<notin> set l"
  by (auto simp: event_lines_def writable_def one_line_def itoa_one_line dest: split_on_parts split: if_splits)

lemma es_line_field:
  assumes "name \<noteq> []" and "CHR '':'' \<notin> set name"
  shows "es_line (name @ '': '' @ v) r = ([], es_field name v r)"
proof -
  have "cut_at CHR '':'' (name @ '': '' @ v) = (name, '' '' @ v)" using cut_at_append [OF assms(2), of "'' '' @ v"] by simp
  moreover have "hd (name @ '': '' @ v) \<noteq> CHR '':''" using assms by (cases name) auto
  ultimately show ?thesis using assms(1) by (simp add: es_line_def es_strip_def)
qed

lemma es_line_fields:
  "es_line (''id: '' @ v) r = ([], es_field ''id'' v r)" "es_line (''event: '' @ v) r = ([], es_field ''event'' v r)"
  "es_line (''retry: '' @ v) r = ([], es_field ''retry'' v r)" "es_line (''data: '' @ v) r = ([], es_field ''data'' v r)"
  using es_line_field [of "''id''" v r] es_line_field [of "''event''" v r] es_line_field [of "''retry''" v r] es_line_field [of "''data''" v r]
  by simp_all

lemma es_data_lines:
  "es_lines (map (\<lambda>l. ''data: '' @ l) ls) r = ([], r\<lparr>er_data := er_data r @ concat (map (\<lambda>l. l @ [CHR 0x0A]) ls)\<rparr>)"
  by (induction ls arbitrary: r) (simp_all only: list.map es_lines.simps es_line_fields fst_conv snd_conv, simp_all add: es_field_def)

lemma concat_lines: "ls \<noteq> [] \<Longrightarrow> concat (map (\<lambda>l. l @ [d]) ls) = join_with [d] ls @ [d]"
  by (induction "[d]" ls rule: join_with.induct) simp_all

lemma es_event_lines:
  assumes "writable e" and "er_data r = []" and "er_type r = []"
  shows "\<exists>n. es_lines (event_lines e) r = ([event_message e], r\<lparr>er_id := ev_ID e, er_type := [], er_data := [], er_retry := n\<rparr>)"
proof -
  let ?retry = "if ev_RetryMS e > 0 then [''retry: '' @ itoa (ev_RetryMS e)] else []"
  define d where "d = split_on CHR 0x0A (em_data (event_message e))"
  have dl: "concat (map (\<lambda>l. l @ [CHR 0x0A]) d) = em_data (event_message e) @ [CHR 0x0A]"
    by (simp add: d_def concat_lines join_split)
  have i: "es_lines [''id: '' @ ev_ID e] r = ([], r\<lparr>er_id := ev_ID e\<rparr>)" for r
    using assms(1) by (simp only: es_lines.simps es_line_fields) (simp add: es_field_def writable_def one_line_def)
  have t: "es_lines (if ev_Type e \<noteq> [] then [''event: '' @ ev_Type e] else []) r = ([], r\<lparr>er_type := ev_Type e\<rparr>)" if "er_type r = []" for r
    using that by (simp only: es_lines.simps es_line_fields split: if_split) (simp add: es_field_def)
  have "\<exists>n. es_lines ?retry r = ([], r\<lparr>er_retry := n\<rparr>)" for r
  proof (cases "ev_RetryMS e > 0")
    case True
    then show ?thesis by (simp only: es_lines.simps es_line_fields if_True) (auto simp: es_field_def itoa_def)
  next
    case False
    then show ?thesis by (intro exI [of _ "er_retry r"]) simp
  qed
  then obtain n where n: "es_lines ?retry (r\<lparr>er_id := ev_ID e, er_type := ev_Type e\<rparr>)
      = ([], r\<lparr>er_id := ev_ID e, er_type := ev_Type e, er_retry := n\<rparr>)" by force
  have e: "event_lines e = [''id: '' @ ev_ID e] @ (if ev_Type e \<noteq> [] then [''event: '' @ ev_Type e] else []) @ ?retry
      @ map (\<lambda>l. ''data: '' @ l) d @ [[]]"
    using assms(1) by (simp only: event_lines_def d_def writable_def) simp
  have "es_lines (event_lines e) r = ([event_message e], r\<lparr>er_id := ev_ID e, er_type := [], er_data := [], er_retry := n\<rparr>)"
    unfolding e prod_eq_iff es_lines_append i fst_conv snd_conv
    using t [of "r\<lparr>er_id := ev_ID e\<rparr>"] n assms(2,3) dl
    by (simp add: es_data_lines es_line_def event_message_def)
  then show ?thesis ..
qed

text \<open>A handler writes events, and comments: \<^verbatim>\<open>connected\<close> first, then \<^verbatim>\<open>heartbeat\<close> when nothing happens.\<close>

datatype sse_chunk = Comment string | Event sse_event

fun write_chunk :: "sse_chunk \<Rightarrow> string" where
  "write_chunk (Comment v) = writeComment v"
| "write_chunk (Event e) = writeEvent e"

fun chunk_lines :: "sse_chunk \<Rightarrow> string list" where
  "chunk_lines (Comment v) = ['': '' @ v, []]"
| "chunk_lines (Event e) = event_lines e"

fun writable_chunk :: "sse_chunk \<Rightarrow> bool" where
  "writable_chunk (Comment v) \<longleftrightarrow> one_line v"
| "writable_chunk (Event e) \<longleftrightarrow> writable e"

fun chunk_messages :: "sse_chunk list \<Rightarrow> es_message list" where
  "chunk_messages [] = []"
| "chunk_messages (Comment v # cs) = chunk_messages cs"
| "chunk_messages (Event e # cs) = event_message e # chunk_messages cs"

lemma write_chunk_lines: "write_chunk c = concat (map (\<lambda>l. l @ [CHR 0x0A]) (chunk_lines c))"
  by (cases c) (simp_all add: writeEvent_lines writeComment_def)

lemma chunk_lines_clean: "writable_chunk c \<Longrightarrow> l \<in> set (chunk_lines c) \<Longrightarrow> CHR 0x0A \<notin> set l"
  by (cases c) (auto simp: event_lines_clean one_line_def)

lemma es_chunks:
  "list_all writable_chunk cs \<Longrightarrow> er_data r = [] \<Longrightarrow> er_type r = [] \<Longrightarrow> fst (es_lines (concat (map chunk_lines cs)) r) = chunk_messages cs"
proof (induction cs arbitrary: r)
  case (Cons c cs)
  show ?case
  proof (cases c)
    case (Event e)
    then obtain n where n: "es_lines (event_lines e) r = ([event_message e], r\<lparr>er_id := ev_ID e, er_type := [], er_data := [], er_retry := n\<rparr>)"
      using es_event_lines [of e r] Cons.prems by auto
    show ?thesis using Cons.IH [of "r\<lparr>er_id := ev_ID e, er_type := [], er_data := [], er_retry := n\<rparr>"] Cons.prems(1) n Event
      by (simp add: es_lines_append)
  next
    case (Comment v)
    then show ?thesis using Cons by (simp add: es_line_def)
  qed
qed simp

lemma concat_concat_lines: "concat (map (\<lambda>c. concat (map f (g c))) cs) = concat (map f (concat (map g cs)))"
  by (induction cs) simp_all

lemma chunks_read_back:
  assumes "list_all writable_chunk cs"
  shows "fst (es_read (concat (map write_chunk cs)) es_start) = chunk_messages cs"
proof -
  let ?ls = "concat (map chunk_lines cs)"
  have "\<forall>l \<in> set ?ls. CHR 0x0A \<notin> set l" using assms chunk_lines_clean by (auto simp: list_all_iff)
  moreover have "concat (map write_chunk cs) = concat (map (\<lambda>l. l @ [CHR 0x0A]) ?ls)"
    using write_chunk_lines concat_concat_lines by (metis (no_types, lifting) map_eq_conv)
  ultimately have "split_on CHR 0x0A (concat (map write_chunk cs)) = ?ls @ [[]]"
    using split_lines [of ?ls "CHR 0x0A" "[]"] by simp
  then show ?thesis using es_chunks [OF assms, of es_start] by (simp add: es_read_def es_start_def)
qed

text \<open>What the loop writes, as chunks, and the events among them.\<close>

fun loop_chunks :: "(stream_signal \<times> bool) list \<Rightarrow> sse_chunk list" where
  "loop_chunks ((HeartbeatTick, True) # xs) = Comment ''heartbeat'' # loop_chunks xs"
| "loop_chunks ((EventReady (Some e), True) # xs) = Event e # loop_chunks xs"
| "loop_chunks _ = []"

fun loop_events :: "(stream_signal \<times> bool) list \<Rightarrow> sse_event list" where
  "loop_events ((HeartbeatTick, True) # xs) = loop_events xs"
| "loop_events ((EventReady (Some e), True) # xs) = e # loop_events xs"
| "loop_events _ = []"

lemma loop_chunks_text: "stream_loop xs = concat (map write_chunk (loop_chunks xs))"
  by (induction xs rule: stream_loop.induct) auto

lemma loop_chunks_messages: "chunk_messages (loop_chunks xs) = map event_message (loop_events xs)"
  by (induction xs rule: loop_events.induct) auto

lemma loop_chunks_writable: "list_all writable (loop_events xs) \<Longrightarrow> list_all writable_chunk (loop_chunks xs)"
  by (induction xs rule: loop_events.induct) (auto simp: one_line_def)

lemma chunk_messages_append: "chunk_messages (xs @ ys) = chunk_messages xs @ chunk_messages ys"
  by (induction xs rule: chunk_messages.induct) auto

lemma chunk_messages_events: "chunk_messages (map Event es) = map event_message es"
  by (induction es) auto

text \<open>
  C32. A browser reads what a handler writes: each event of the replay and of the loop becomes one message
  with its identifier, its type and its data (\<^verbatim>\<open>{}\<close> for no data), in order, and the comments become nothing;
  the identifiers and types have no line break or NUL, the data has no carriage return.
\<close>

theorem sse_stream_read_back:
  assumes "list_all writable (replay @ loop_events xs)"
  shows "fst (es_read (concat (map writeEvent replay) @ writeComment ''connected'' @ stream_loop xs) es_start)
    = map event_message (replay @ loop_events xs)"
proof -
  let ?cs = "map Event replay @ [Comment ''connected''] @ loop_chunks xs"
  have "list_all writable_chunk ?cs" using assms loop_chunks_writable [of xs] by (auto simp: one_line_def list_all_iff)
  then show ?thesis using chunks_read_back [of ?cs]
    by (simp add: loop_chunks_text loop_chunks_messages chunk_messages_append chunk_messages_events comp_def)
qed

definition two_lines :: sse_event where
  "two_lines = \<lparr>ev_ID = ''7'', ev_Channel = ''c'', ev_TenantID = [], ev_Subject = [], ev_Type = ''tick'',
     ev_Data = [CHR ''a'', CHR 0x0A, CHR ''b''], ev_RetryMS = 3000, ev_Timestamp = 1\<rparr>"

theorem sse_stream_read_back_witness:
  "fst (es_read (concat (map writeEvent [two_lines]) @ writeComment ''connected''
       @ stream_loop [(HeartbeatTick, True), (EventReady (Some (two_lines\<lparr>ev_Data := []\<rparr>)), True), (RequestDone, True)]) es_start)
    = [\<lparr>em_id = ''7'', em_type = ''tick'', em_data = [CHR ''a'', CHR 0x0A, CHR ''b'']\<rparr>,
       \<lparr>em_id = ''7'', em_type = ''tick'', em_data = ''{}''\<rparr>]"
proof -
  let ?xs = "[(HeartbeatTick, True), (EventReady (Some (two_lines\<lparr>ev_Data := []\<rparr>)), True), (RequestDone, True)]"
  have w: "list_all writable ([two_lines] @ loop_events ?xs)" by (simp add: two_lines_def writable_def one_line_def)
  show ?thesis using sse_stream_read_back [OF w] by (simp add: two_lines_def event_message_def)
qed

text \<open>
  A carriage return ends a line too for a browser, and so do line breaks in a type: an event with them is
  read as something else.  The text a type can smuggle in:
\<close>

lemma type_injects_event:
  "map em_data (fst (es_read (writeEvent (two_lines\<lparr>ev_RetryMS := 0, ev_Type := ''x'' @ [CHR 0x0A] @ ''data: no'' @ [CHR 0x0A, CHR 0x0A]\<rparr>)) es_start))
    = [''no'', [CHR ''a'', CHR 0x0A, CHR ''b'']]"
  by (simp add: writeEvent_def two_lines_def es_read_def es_start_def es_line_def es_field_def es_strip_def cut_at_def)

section \<open>The manager with the store in memory\<close>

text \<open>\<^verbatim>\<open>NewManager\<close> with the in-memory store and no bus.\<close>

definition sse_memory_env :: "nat \<Rightarrow> sse_memory sse_env" where
  "sse_memory_env n = \<lparr>sv_append = sse_memory_Append n, sv_since = sse_memory_GetSince, sv_bus = False,
     sv_subscribe = (\<lambda>_. Inl (ENew ''no bus'')), sv_unsubscribe = (\<lambda>_. None), sv_publish = (\<lambda>_. None)\<rparr>"

definition no_events :: sse_memory where
  "no_events = (\<lambda>_. [])"



definition small_config :: sse_config where
  "small_config = DefaultManagerConfig\<lparr>sc_MaxConnections := 2, sc_ClientBuffer := 2\<rparr>"

definition news :: "string \<Rightarrow> sse_publish" where
  "news d = \<lparr>sp_Channel = ''news'', sp_TenantID = [], sp_Subject = [], sp_Type = [], sp_Data = d, sp_RetryMS = 0\<rparr>"

definition reader :: "string \<Rightarrow> string \<Rightarrow> sse_subscription" where
  "reader cid lastID = \<lparr>sq_ClientID = cid, sq_Channel = ''news'', sq_TenantID = ''a'', sq_Subject = [], sq_LastEventID = lastID\<rparr>"

definition item :: "string \<Rightarrow> sse_event" where
  "item k = \<lparr>ev_ID = k, ev_Channel = ''news'', ev_TenantID = [], ev_Subject = [], ev_Type = [], ev_Data = k, ev_RetryMS = 3000, ev_Timestamp = 5\<rparr>"

definition published :: "sse_op list" where
  "published = [OpPublish 5 ''1'' (news ''1''), OpPublish 5 ''2'' (news ''2''), OpPublish 5 ''3'' (news ''3'')]"

definition followed :: "sse_op list" where
  "followed = [OpPublish 5 ''4'' (news ''4''), OpReceive 0, OpPublish 5 ''5'' (news ''5'')]"


definition one_reader :: "sse_memory sse_state" where
  "one_reader = sse_after (sse_memory_env 2) small_config (OpSubscribe ''g'' (reader ''x'' [])) (sse_empty no_events)"


section \<open>Where it breaks\<close>

text \<open>The replay is not routed: a client of tenant \<open>a\<close> is replayed an event of tenant \<open>b\<close> that it would not be sent.\<close>

lemma replay_not_routed:
  "fst (sse_Subscribe (sse_memory_env 2) small_config ''g'' (reader ''x'' [])
      (run_state (sse_memory_env 2) small_config [OpPublish 5 ''1'' ((news ''1'')\<lparr>sp_TenantID := ''b''\<rparr>)] (sse_empty no_events)))
     = Inr (0, [(item ''1'')\<lparr>ev_TenantID := ''b''\<rparr>])
   \<and> \<not> matchesRouting (new_client ''g'' (reader ''x'' [])) ((item ''1'')\<lparr>ev_TenantID := ''b''\<rparr>)"
  by code_simp

text \<open>
  Two clients with one identifier, which a request chooses with \<^verbatim>\<open>X-Client-ID\<close>: the first is sent nothing more,
  and when its handler ends the second loses its connection.
\<close>

definition twins :: "sse_memory sse_state" where
  "twins = run_state (sse_memory_env 2) small_config [OpSubscribe ''g'' (reader ''x'' []), OpSubscribe ''g'' (reader ''x'' [])] (sse_empty no_events)"

lemma same_id_orphans:
  "map (\<lambda>p. sl_events (sm_heap (sse_deliver (sse_memory_env 2) small_config (item ''1'') twins) p)) [0, 1] = [[], [item ''1'']]
   \<and> map (\<lambda>p. sl_closed (sm_heap (snd (sse_Disconnect (sse_memory_env 2) ''x'' twins)) p)) [0, 1] = [False, True]"
  by code_simp

text \<open>
  \<^verbatim>\<open>Subscribe\<close> gives up the mutex between the registration and the query: an event published there is in the
  queue and in the replay.
\<close>

lemma subscribe_window_repeats:
  "let s = snd (sse_Publish (sse_memory_env 2) small_config 5 ''1'' (news ''1'') (sse_register (new_client ''g'' (reader ''x'' [])) (sse_empty no_events)))
   in sv_since (sse_memory_env 2) ''news'' [] 100 (sm_store s) = Inr [item ''1''] \<and> sl_events (sm_heap s 0) = [item ''1'']"
  by code_simp

text \<open>
  \<^verbatim>\<open>enqueue\<close> in its two steps: the test of \<^verbatim>\<open>closed\<close> and the send, which panics on a closed channel.  A \<^verbatim>\<open>Disconnect\<close>
  between them, by the end of the request or another delivery, makes the send panic.
\<close>

definition enqueue_check :: "nat \<Rightarrow> 's sse_state \<Rightarrow> bool" where
  "enqueue_check p s \<longleftrightarrow> \<not> sl_closed (sm_heap s p)"

datatype 'a go_run = Panics | Returns 'a

definition enqueue_send :: "sse_config \<Rightarrow> nat \<Rightarrow> sse_event \<Rightarrow> 's sse_state \<Rightarrow> (bool \<times> 's sse_state) go_run" where
  "enqueue_send cfg p e s =
     (let c = sm_heap s p in
      if sl_closed c then Panics
      else Returns (if int (length (sl_events c)) < sc_ClientBuffer cfg
        then (True, s\<lparr>sm_heap := (sm_heap s)(p := c\<lparr>sl_events := sl_events c @ [e]\<rparr>)\<rparr>) else (False, s)))"

lemma enqueue_two_steps:
  "(if enqueue_check p s then enqueue_send cfg p e s else Returns (False, s)) = Returns (sse_enqueue cfg p e s)"
  by (simp add: enqueue_check_def enqueue_send_def sse_enqueue_def Let_def)

lemma enqueue_race_panics:
  assumes "sse_wf s" and "connected s p"
  shows "enqueue_check p s \<and> enqueue_send cfg p e (snd (sse_Disconnect V (sl_id (sm_heap s p)) s)) = Panics"
proof -
  have c: "(sl_id (sm_heap s p), p) \<in> set (sm_connections s)" using assms(2) by (simp add: connected_def)
  have m: "map_of (sm_connections s) (sl_id (sm_heap s p)) = Some p" using map_of_distinct [OF sse_wfD(1) [OF assms(1)]] c by simp
  show ?thesis using sse_wfD(5) [OF assms(1) c] Disconnect_effect(3) [OF m, of V] by (simp add: enqueue_check_def enqueue_send_def Let_def)
qed

section \<open>Redis lists\<close>

definition map_lists :: "(string \<Rightarrow> string list) list_ops" where
  "map_lists = \<lparr>l_PUSHTRIM = (\<lambda>k v n s. s(k := take_last n (s k @ [v]))), l_LRANGE = (\<lambda>k s. s k)\<rparr>"

definition item_codec :: event_codec where
  "item_codec = \<lparr>ec_Marshal = (\<lambda>e. if e = item (ev_ID e) then Inr (ev_ID e) else Inl (ENew ''unsupported event'')),
     ec_Unmarshal = (\<lambda>raw. Some (item raw))\<rparr>"

interpretation map_events: redis_events map_lists "\<lambda>s. s" item_codec "''sse:history''"
proof (unfold_locales, goal_cases)
  case (3 e raw)
  then show ?case by (cases "e = item (ev_ID e)") (simp_all add: item_codec_def)
qed (simp_all add: map_lists_def)

end
