(* ===== verification/Compression.thy ===== *)
theory Compression
  imports Http Complex_Main
begin

text \<open>
  \<^verbatim>\<open>pkg/http/middleware/compression\<close> and the response writer of \<^verbatim>\<open>pkg/http/router/nethttp\<close>.  The wire is what
  \<^verbatim>\<open>net/http\<close> has sent; the router's writer and the compressing writer are layers over it.  The theory
  shows that a response through the middleware is, for a client that undoes the encoding, the
  response without it, in an encoding the request accepts; and where this fails.
\<close>

section \<open>Responses of \<^verbatim>\<open>net/http\<close>\<close>

text \<open>
  The header map of a response, the status with the header as it was sent, and the body.  An informational
  status is sent on its own and commits nothing; status codes are valid (\<^verbatim>\<open>WriteHeader\<close> panics otherwise).
\<close>

record wire =
  wi_header :: header
  wi_sent :: "(int \<times> header) option"
  wi_body :: string

definition noBodyStatus :: "int \<Rightarrow> bool" where
  "noBodyStatus code \<longleftrightarrow> code = 204 \<or> code = 304 \<or> (code \<ge> 100 \<and> code < 200)"

definition wire_WriteHeader :: "int \<Rightarrow> wire \<Rightarrow> wire" where
  "wire_WriteHeader code w =
     (if wi_sent w \<noteq> None then w
      else if 100 \<le> code \<and> code < 200 \<and> code \<noteq> 101 then w
      else w\<lparr>wi_sent := Some (code, wi_header w)\<rparr>)"

datatype write_result = Wrote | WriteFailed err | WritePanics

definition ErrBodyNotAllowed :: err where
  "ErrBodyNotAllowed = ENew ''http: request method or response status code does not allow body''"

definition wire_Write :: "string \<Rightarrow> wire \<Rightarrow> write_result \<times> wire" where
  "wire_Write p w =
     (let w1 = (if wi_sent w = None then wire_WriteHeader 200 w else w) in
      if noBodyStatus (fst (the (wi_sent w1))) then (WriteFailed ErrBodyNotAllowed, w1)
      else (Wrote, w1\<lparr>wi_body := wi_body w1 @ p\<rparr>))"

text \<open>What is sent when the server is done with a request.\<close>

definition wire_finish :: "wire \<Rightarrow> wire" where
  "wire_finish w = (if wi_sent w = None then wire_WriteHeader 200 w else w)"

subsection \<open>The router's writer\<close>

record resp_writer =
  rw_wire :: wire
  rw_status :: int
  rw_written :: bool

definition rw_WriteHeader :: "int \<Rightarrow> resp_writer \<Rightarrow> resp_writer" where
  "rw_WriteHeader code w =
     (if \<not> rw_written w then w\<lparr>rw_status := code, rw_written := True, rw_wire := wire_WriteHeader code (rw_wire w)\<rparr> else w)"

definition rw_Write :: "string \<Rightarrow> resp_writer \<Rightarrow> write_result \<times> resp_writer" where
  "rw_Write b w =
     (let w1 = (if \<not> rw_written w then rw_WriteHeader 200 w else w) in
      case wire_Write b (rw_wire w1) of (r, x) \<Rightarrow> (r, w1\<lparr>rw_wire := x\<rparr>))"

text \<open>\<^verbatim>\<open>Flush\<close> of \<^verbatim>\<open>net/http\<close> commits the header; the router's writer does not note it.\<close>

definition rw_Flush :: "resp_writer \<Rightarrow> resp_writer" where
  "rw_Flush w = w\<lparr>rw_wire := wire_finish (rw_wire w)\<rparr>"

definition rw_Status :: "resp_writer \<Rightarrow> int" where
  "rw_Status w = (if rw_status w = 0 then 200 else rw_status w)"

section \<open>Configuration\<close>

record compression_config =
  zc_Enabled :: bool
  zc_EnableGzip :: bool
  zc_EnableBrotli :: bool
  zc_GzipLevel :: int
  zc_BrotliLevel :: int
  zc_MinSize :: int
  zc_CompressibleContentTypes :: "string list"
  zc_ExcludedPathPrefixes :: "string list"
  zc_ExcludedPathRegex :: "string list"
  zc_ExcludedExtensions :: "string list"
  zc_ExcludedMIMETypes :: "string list"
  zc_ExcludeServerPush :: bool

definition compression_DefaultConfig :: compression_config where
  "compression_DefaultConfig = \<lparr>zc_Enabled = True, zc_EnableGzip = True, zc_EnableBrotli = True, zc_GzipLevel = - 1, zc_BrotliLevel = 4,
     zc_MinSize = 0,
     zc_CompressibleContentTypes = [''text/'', ''application/json'', ''application/javascript'', ''application/xml'', ''image/svg+xml''],
     zc_ExcludedPathPrefixes = [], zc_ExcludedPathRegex = [], zc_ExcludedExtensions = [], zc_ExcludedMIMETypes = [],
     zc_ExcludeServerPush = False\<rparr>"

definition compression_normalizeConfig :: "compression_config \<Rightarrow> compression_config" where
  "compression_normalizeConfig cfg =
     (let dflt = compression_DefaultConfig in
      if \<not> zc_Enabled cfg \<and> \<not> zc_EnableGzip cfg \<and> \<not> zc_EnableBrotli cfg \<and> zc_GzipLevel cfg = 0 \<and> zc_BrotliLevel cfg = 0
        \<and> zc_MinSize cfg = 0 \<and> zc_CompressibleContentTypes cfg = [] \<and> zc_ExcludedPathPrefixes cfg = [] \<and> zc_ExcludedPathRegex cfg = []
        \<and> zc_ExcludedExtensions cfg = [] \<and> zc_ExcludedMIMETypes cfg = [] \<and> \<not> zc_ExcludeServerPush cfg
      then dflt
      else cfg\<lparr>zc_GzipLevel := (if zc_GzipLevel cfg = 0 then zc_GzipLevel dflt else zc_GzipLevel cfg),
               zc_BrotliLevel := pos_or (zc_BrotliLevel cfg) (zc_BrotliLevel dflt),
               zc_MinSize := (if zc_MinSize cfg < 0 then 0 else zc_MinSize cfg),
               zc_CompressibleContentTypes :=
                 (if zc_CompressibleContentTypes cfg = [] then zc_CompressibleContentTypes dflt else zc_CompressibleContentTypes cfg)\<rparr>)"

section \<open>Exclusions\<close>

text \<open>\<open>re\<close> is \<^verbatim>\<open>regexp.Compile\<close> with \<^verbatim>\<open>MatchString\<close>; patterns it refuses are dropped.\<close>

definition compileRegexes :: "(string \<Rightarrow> (string \<Rightarrow> bool) option) \<Rightarrow> string list \<Rightarrow> (string \<Rightarrow> bool) list" where
  "compileRegexes re patterns = List.map_filter re (filter (\<lambda>p. p \<noteq> []) (map trim_space patterns))"

definition isExcludedPath :: "string \<Rightarrow> string list \<Rightarrow> (string \<Rightarrow> bool) list \<Rightarrow> bool" where
  "isExcludedPath path prefixes regex \<longleftrightarrow>
     list_ex (\<lambda>p. \<not> blank p \<and> has_prefix path p) prefixes \<or> list_ex (\<lambda>m. m path) regex"

definition normalizeExt :: "string \<Rightarrow> string" where
  "normalizeExt ext =
     (let e = to_lower (trim_space ext) in
      if e = [] then [] else if \<not> has_prefix e ''.'' then ''.'' @ e else e)"

text \<open>\<^verbatim>\<open>path.Ext\<close>: from the last dot of the last element.\<close>

definition path_Ext :: "string \<Rightarrow> string" where
  "path_Ext p =
     (let w = takeWhile (\<lambda>c. c \<noteq> CHR ''.'' \<and> c \<noteq> CHR ''/'') (rev p); r = drop (length w) (rev p) in
      if r \<noteq> [] \<and> hd r = CHR ''.'' then CHR ''.'' # rev w else [])"

definition hasExcludedExtension :: "string \<Rightarrow> string list \<Rightarrow> bool" where
  "hasExcludedExtension path excluded \<longleftrightarrow>
     (let ext = normalizeExt (path_Ext path) in ext \<noteq> [] \<and> list_ex (\<lambda>c. ext = normalizeExt c) excluded)"

definition matchesMIME :: "string \<Rightarrow> string list \<Rightarrow> bool" where
  "matchesMIME contentType excluded \<longleftrightarrow>
     contentType \<noteq> [] \<and> excluded \<noteq> []
     \<and> (let baseType = to_lower (trim_space (hd (split_on CHR '';'' contentType))) in
        list_ex (\<lambda>rule0. let rule = to_lower (trim_space rule0) in
          rule \<noteq> [] \<and> (if has_suffix rule ''/*'' then has_prefix baseType (butlast rule) else baseType = rule)) excluded)"

text \<open>\<open>mt\<close> is \<^verbatim>\<open>mime.TypeByExtension\<close>.\<close>

definition hasExcludedMIMEFromExtension :: "(string \<Rightarrow> string) \<Rightarrow> string \<Rightarrow> string list \<Rightarrow> bool" where
  "hasExcludedMIMEFromExtension mt path excludedMIME \<longleftrightarrow>
     (let ext = normalizeExt (path_Ext path) in
      ext \<noteq> [] \<and> (let detected = to_lower (trim_space (mt ext)) in detected \<noteq> [] \<and> matchesMIME detected excludedMIME))"

section \<open>Negotiation\<close>

text \<open>
  \<open>pf\<close> is \<^verbatim>\<open>strconv.ParseFloat\<close> on texts that denote a finite number or none at all.
\<close>

definition section_q :: "(string \<Rightarrow> rat option) \<Rightarrow> string \<Rightarrow> rat \<Rightarrow> rat" where
  "section_q pf sec q =
     (let kv = trim_space sec in
      if CHR ''='' \<in> set kv \<and> to_lower (fst (cut_at CHR ''='' kv)) = ''q''
      then (case pf (snd (cut_at CHR ''='' kv)) of Some parsed \<Rightarrow> parsed | None \<Rightarrow> q)
      else q)"

fun first_quality :: "(string \<Rightarrow> rat option) \<Rightarrow> string \<Rightarrow> string list \<Rightarrow> rat option" where
  "first_quality pf encoding [] = None"
| "first_quality pf encoding (part # parts) =
     (let token = trim_space part; sections = split_on CHR '';'' token in
      if token = [] \<or> to_lower (trim_space (hd sections)) \<noteq> to_lower encoding then first_quality pf encoding parts
      else Some (fold (section_q pf) (tl sections) 1))"

definition qualityForEncoding :: "(string \<Rightarrow> rat option) \<Rightarrow> string \<Rightarrow> string \<Rightarrow> rat option" where
  "qualityForEncoding pf acceptEncoding encoding = first_quality pf encoding (split_on CHR '','' acceptEncoding)"

definition negotiateEncoding :: "(string \<Rightarrow> rat option) \<Rightarrow> string \<Rightarrow> compression_config \<Rightarrow> string" where
  "negotiateEncoding pf acceptEncoding cfg =
     (if acceptEncoding = [] then []
      else let qBr = qualityForEncoding pf acceptEncoding ''br'';
               qGzip = qualityForEncoding pf acceptEncoding ''gzip'';
               qAny = qualityForEncoding pf acceptEncoding ''*'';
               qBr = (if zc_EnableBrotli cfg \<and> qBr = None \<and> qAny \<noteq> None then qAny else qBr);
               qGzip = (if zc_EnableGzip cfg \<and> qGzip = None \<and> qAny \<noteq> None then qAny else qGzip);
               (best, bestQ) = (case qBr of
                   Some q \<Rightarrow> (if zc_EnableBrotli cfg \<and> q > 0 then (''br'', q) else ([], 0))
                 | None \<Rightarrow> ([], 0)) in
           case qGzip of
             Some q \<Rightarrow> (if zc_EnableGzip cfg \<and> q > 0 \<and> q > bestQ then ''gzip'' else best)
           | None \<Rightarrow> best)"

section \<open>The compressing writer\<close>

text \<open>
  \<open>cz_sink\<close> is the compressor, once there is one, as the list of what it was given; what it makes of it reaches the
  wire when it is closed at the latest, and the header has been sent before.
\<close>

record compress_state =
  cz_encoding :: string
  cz_cfg :: compression_config
  cz_statusCode :: int
  cz_headerWritten :: bool
  cz_decided :: bool
  cz_compress :: bool
  cz_sink :: "string list option"
  cz_buffer :: string

datatype writer = PlainWriter resp_writer | CompressWriter resp_writer compress_state

definition newCompressResponseWriter :: "resp_writer \<Rightarrow> string \<Rightarrow> compression_config \<Rightarrow> writer" where
  "newCompressResponseWriter base encoding cfg = CompressWriter base
     \<lparr>cz_encoding = encoding, cz_cfg = cfg, cz_statusCode = 0, cz_headerWritten = False, cz_decided = False, cz_compress = False,
      cz_sink = None, cz_buffer = []\<rparr>"

fun writer_base :: "writer \<Rightarrow> resp_writer" where
  "writer_base (PlainWriter b) = b"
| "writer_base (CompressWriter b z) = b"

definition wire_of :: "writer \<Rightarrow> wire" where
  "wire_of w = rw_wire (writer_base w)"

definition rw_upd_header :: "(header \<Rightarrow> header) \<Rightarrow> resp_writer \<Rightarrow> resp_writer" where
  "rw_upd_header f b = b\<lparr>rw_wire := (rw_wire b)\<lparr>wi_header := f (wi_header (rw_wire b))\<rparr>\<rparr>"

text \<open>Changes of \<^verbatim>\<open>Header()\<close>.\<close>

fun writer_upd_header :: "(header \<Rightarrow> header) \<Rightarrow> writer \<Rightarrow> writer" where
  "writer_upd_header f (PlainWriter b) = PlainWriter (rw_upd_header f b)"
| "writer_upd_header f (CompressWriter b z) = CompressWriter (rw_upd_header f b) z"

definition statusOrOK :: "compress_state \<Rightarrow> int" where
  "statusOrOK z = (if cz_statusCode z = 0 then 200 else cz_statusCode z)"

definition isCompressibleContentType :: "string \<Rightarrow> string list \<Rightarrow> bool" where
  "isCompressibleContentType contentType allow \<longleftrightarrow>
     (let ct = to_lower (trim_space contentType) in
      ct = [] \<or> list_ex (\<lambda>p. has_prefix ct (to_lower (trim_space p))) allow)"

definition compress_WriteHeader :: "int \<Rightarrow> resp_writer \<Rightarrow> compress_state \<Rightarrow> resp_writer \<times> compress_state" where
  "compress_WriteHeader code b z =
     (if cz_headerWritten z then (b, z)
      else let z1 = z\<lparr>cz_statusCode := code, cz_headerWritten := True\<rparr> in
        if noBodyStatus code then (rw_WriteHeader code b, z1\<lparr>cz_decided := True, cz_compress := False\<rparr>)
        else (b, z1))"

definition ensure_header :: "int \<Rightarrow> resp_writer \<Rightarrow> resp_writer" where
  "ensure_header code b = (if \<not> rw_written b then rw_WriteHeader code b else b)"

definition flushPlainBuffer :: "resp_writer \<Rightarrow> compress_state \<Rightarrow> write_result \<times> resp_writer \<times> compress_state" where
  "flushPlainBuffer b z =
     (let b1 = ensure_header (statusOrOK z) b in
      if cz_buffer z = [] then (Wrote, b1, z)
      else case rw_Write (cz_buffer z) b1 of
          (Wrote, b2) \<Rightarrow> (Wrote, b2, z\<lparr>cz_buffer := []\<rparr>)
        | (r, b2) \<Rightarrow> (r, b2, z))"

text \<open>\<^verbatim>\<open>gzip.NewWriterLevel\<close> accepts the levels from \<open>-2\<close> to \<open>9\<close>.\<close>

definition decideAndFlushBuffer :: "resp_writer \<Rightarrow> compress_state \<Rightarrow> write_result \<times> resp_writer \<times> compress_state" where
  "decideAndFlushBuffer b z =
     (if cz_decided z then (Wrote, b, z)
      else let z = z\<lparr>cz_decided := True\<rparr>; h = wi_header (rw_wire b); cfg = cz_cfg z;
               contentType = to_lower (trim_space (header_get h ''Content-Type'')) in
        if noBodyStatus (cz_statusCode z) then (Wrote, ensure_header (statusOrOK z) b, z\<lparr>cz_compress := False\<rparr>)
        else if trim_space (header_get h ''Content-Encoding'') \<noteq> [] then flushPlainBuffer b (z\<lparr>cz_compress := False\<rparr>)
        else if int (length (cz_buffer z)) < zc_MinSize cfg then flushPlainBuffer b (z\<lparr>cz_compress := False\<rparr>)
        else if matchesMIME contentType (zc_ExcludedMIMETypes cfg) then flushPlainBuffer b (z\<lparr>cz_compress := False\<rparr>)
        else if \<not> isCompressibleContentType contentType (zc_CompressibleContentTypes cfg) then flushPlainBuffer b (z\<lparr>cz_compress := False\<rparr>)
        else let z = z\<lparr>cz_compress := True\<rparr>;
                 b1 = rw_upd_header (\<lambda>h. appendVary ''Accept-Encoding'' (header_set ''Content-Encoding'' (cz_encoding z) (header_set ''Content-Length'' [] h))) b;
                 b2 = ensure_header (statusOrOK z) b1 in
          if cz_encoding z = ''gzip'' \<and> \<not> (- 2 \<le> zc_GzipLevel cfg \<and> zc_GzipLevel cfg \<le> 9)
          then (WriteFailed (EWrap ''create gzip writer: '' (ENew (''gzip: invalid compression level: '' @ itoa (zc_GzipLevel cfg))) []), b2, z)
          else if cz_encoding z \<noteq> ''br'' \<and> cz_encoding z \<noteq> ''gzip'' then flushPlainBuffer b2 (z\<lparr>cz_compress := False\<rparr>)
          else (Wrote, b2, if cz_buffer z = [] then z\<lparr>cz_sink := Some []\<rparr> else z\<lparr>cz_sink := Some [cz_buffer z], cz_buffer := []\<rparr>))"

text \<open>A write to the compressor panics when its creation has failed.\<close>

definition compress_Write :: "string \<Rightarrow> resp_writer \<Rightarrow> compress_state \<Rightarrow> write_result \<times> resp_writer \<times> compress_state" where
  "compress_Write p b z =
     (let (b, z) = (if \<not> cz_headerWritten z then compress_WriteHeader 200 b z else (b, z)) in
      if cz_decided z
      then (if cz_compress z
            then (case cz_sink z of None \<Rightarrow> (WritePanics, b, z) | Some ps \<Rightarrow> (Wrote, b, z\<lparr>cz_sink := Some (ps @ [p])\<rparr>))
            else (case rw_Write p b of (r, b') \<Rightarrow> (r, b', z)))
      else let z = z\<lparr>cz_buffer := cz_buffer z @ p\<rparr> in
        if int (length (cz_buffer z)) < zc_MinSize (cz_cfg z) then (Wrote, b, z) else decideAndFlushBuffer b z)"

text \<open>\<open>encode e ps\<close> is the stream the compressor of encoding \<open>e\<close> makes of the writes \<open>ps\<close>.\<close>

definition compress_Close :: "(string \<Rightarrow> string list \<Rightarrow> string) \<Rightarrow> resp_writer \<Rightarrow> compress_state \<Rightarrow> write_result \<times> resp_writer \<times> compress_state" where
  "compress_Close encode b z =
     (case (if \<not> cz_decided z then decideAndFlushBuffer b z else (Wrote, b, z)) of
        (Wrote, b, z) \<Rightarrow>
          (if \<not> cz_compress z
           then (Wrote, (if cz_headerWritten z \<and> \<not> rw_written b then rw_WriteHeader (statusOrOK z) b else b), z)
           else case cz_sink z of
               None \<Rightarrow> (Wrote, b, z)
             | Some ps \<Rightarrow> (case rw_Write (encode (cz_encoding z) ps) b of (r, b') \<Rightarrow> (r, b', z)))
      | (r, b, z) \<Rightarrow> (r, b, z))"

section \<open>Writers\<close>

fun writer_WriteHeader :: "int \<Rightarrow> writer \<Rightarrow> writer" where
  "writer_WriteHeader code (PlainWriter b) = PlainWriter (rw_WriteHeader code b)"
| "writer_WriteHeader code (CompressWriter b z) = (case compress_WriteHeader code b z of (b', z') \<Rightarrow> CompressWriter b' z')"

fun writer_Write :: "string \<Rightarrow> writer \<Rightarrow> write_result \<times> writer" where
  "writer_Write p (PlainWriter b) = (case rw_Write p b of (r, b') \<Rightarrow> (r, PlainWriter b'))"
| "writer_Write p (CompressWriter b z) = (case compress_Write p b z of (r, b', z') \<Rightarrow> (r, CompressWriter b' z'))"

fun writer_Written :: "writer \<Rightarrow> bool" where
  "writer_Written (PlainWriter b) = rw_written b"
| "writer_Written (CompressWriter b z) = (rw_written b \<or> cz_headerWritten z)"

fun writer_Status :: "writer \<Rightarrow> int" where
  "writer_Status (PlainWriter b) = rw_Status b"
| "writer_Status (CompressWriter b z) = (if rw_written b then rw_Status b else statusOrOK z)"

text \<open>The compressor's own flush changes when its output is sent, not what.\<close>

fun writer_Flush :: "writer \<Rightarrow> writer" where
  "writer_Flush (PlainWriter b) = PlainWriter (rw_Flush b)"
| "writer_Flush (CompressWriter b z) = CompressWriter (rw_Flush b) z"

text \<open>What a handler does to its response.\<close>

datatype response_op = SetHeader string string | WriteStatus int | WriteBody string | FlushOut

fun writer_op :: "response_op \<Rightarrow> writer \<Rightarrow> writer" where
  "writer_op (SetHeader k v) w = writer_upd_header (header_set k v) w"
| "writer_op (WriteStatus c) w = writer_WriteHeader c w"
| "writer_op (WriteBody p) w = snd (writer_Write p w)"
| "writer_op FlushOut w = writer_Flush w"

definition writer_ops :: "response_op list \<Rightarrow> writer \<Rightarrow> writer" where
  "writer_ops ops w = fold writer_op ops w"

fun writer_close :: "(string \<Rightarrow> string list \<Rightarrow> string) \<Rightarrow> writer \<Rightarrow> write_result \<times> writer" where
  "writer_close encode (PlainWriter b) = (Wrote, PlainWriter b)"
| "writer_close encode (CompressWriter b z) = (case compress_Close encode b z of (r, b', z') \<Rightarrow> (r, CompressWriter b' z'))"

section \<open>A compressed response is the response\<close>

text \<open>What a client reads from a finished response: the status, and the body with its encoding undone.\<close>

definition client_view :: "(string \<Rightarrow> string \<Rightarrow> string option) \<Rightarrow> wire \<Rightarrow> int \<times> string option" where
  "client_view decode w =
     (case wi_sent (wire_finish w) of
        None \<Rightarrow> (0, None)
      | Some (code, h) \<Rightarrow>
          (code, let e = header_get h ''Content-Encoding'' in if e = [] then Some (wi_body w) else decode e (wi_body w)))"

definition fresh_writer :: "header \<Rightarrow> resp_writer" where
  "fresh_writer h = \<lparr>rw_wire = \<lparr>wi_header = h, wi_sent = None, wi_body = []\<rparr>, rw_status = 0, rw_written = False\<rparr>"

text \<open>
  A handler the middleware is transparent for: it leaves the encoding to it, sends no informational status
  and does not flush.
\<close>

fun plain_op :: "response_op \<Rightarrow> bool" where
  "plain_op (SetHeader k v) \<longleftrightarrow> header_name k \<noteq> ''Content-Encoding''"
| "plain_op (WriteStatus c) \<longleftrightarrow> 200 \<le> c"
| "plain_op (WriteBody p) \<longleftrightarrow> True"
| "plain_op FlushOut \<longleftrightarrow> False"

abbreviation ce :: "header \<Rightarrow> string" where
  "ce h \<equiv> header_get h ''Content-Encoding''"

lemma encoding_names: "header_name ''Content-Encoding'' = ''Content-Encoding''" "header_name ''Content-Length'' = ''Content-Length''"
  "header_name ''Vary'' = ''Vary''"
  by code_simp+

lemma ce_set: "header_name k \<noteq> ''Content-Encoding'' \<Longrightarrow> ce (header_set k v h) = ce h"
  by (simp add: encoding_names)

lemma ce_appendVary [simp]: "ce (appendVary v h) = ce h"
  by (simp add: appendVary_def Let_def encoding_names)

lemma rw_upd_header_simps [simp]:
  "rw_written (rw_upd_header f b) = rw_written b" "rw_status (rw_upd_header f b) = rw_status b"
  "wi_sent (rw_wire (rw_upd_header f b)) = wi_sent (rw_wire b)" "wi_body (rw_wire (rw_upd_header f b)) = wi_body (rw_wire b)"
  "wi_header (rw_wire (rw_upd_header f b)) = f (wi_header (rw_wire b))"
  by (simp_all add: rw_upd_header_def)

lemma rw_WriteHeader_new:
  assumes "\<not> rw_written b" and "wi_sent (rw_wire b) = None" and "200 \<le> c"
  shows "rw_written (rw_WriteHeader c b)" "wi_sent (rw_wire (rw_WriteHeader c b)) = Some (c, wi_header (rw_wire b))"
    "wi_body (rw_wire (rw_WriteHeader c b)) = wi_body (rw_wire b)" "wi_header (rw_wire (rw_WriteHeader c b)) = wi_header (rw_wire b)"
  using assms by (simp_all add: rw_WriteHeader_def wire_WriteHeader_def)

lemma rw_Write_sent:
  assumes "rw_written b" and "wi_sent (rw_wire b) = Some (c, h)"
  shows "rw_Write p b = (if noBodyStatus c then (WriteFailed ErrBodyNotAllowed, b)
    else (Wrote, b\<lparr>rw_wire := (rw_wire b)\<lparr>wi_body := wi_body (rw_wire b) @ p\<rparr>\<rparr>))"
  using assms by (simp add: rw_Write_def wire_Write_def Let_def)

lemma ensure_header_new:
  assumes "\<not> rw_written b" and "wi_sent (rw_wire b) = None" and "200 \<le> c"
  shows "ensure_header c b = rw_WriteHeader c b"
  using assms by (simp add: ensure_header_def)

text \<open>The encodings and levels for which there is a compressor.\<close>

definition usable :: "compress_state \<Rightarrow> bool" where
  "usable z \<longleftrightarrow> (cz_encoding z = ''br'' \<or> cz_encoding z = ''gzip'' \<and> - 2 \<le> zc_GzipLevel (cz_cfg z) \<and> zc_GzipLevel (cz_cfg z) \<le> 9)"

text \<open>Nothing has been decided, and nothing sent.\<close>

definition waiting :: "resp_writer \<Rightarrow> compress_state \<Rightarrow> bool" where
  "waiting b z \<longleftrightarrow> \<not> cz_decided z \<and> cz_sink z = None \<and> \<not> rw_written b \<and> wi_sent (rw_wire b) = None \<and> wi_body (rw_wire b) = []
     \<and> ce (wi_header (rw_wire b)) = []"

text \<open>It has been decided: the wire has the body \<open>body\<close>, or the compressor has been given it.\<close>

definition settled :: "string \<Rightarrow> int \<Rightarrow> resp_writer \<Rightarrow> compress_state \<Rightarrow> bool" where
  "settled body code b z \<longleftrightarrow> cz_decided z \<and> rw_written b \<and>
     (\<exists>h. wi_sent (rw_wire b) = Some (code, h) \<and>
       (if cz_compress z then ce h = cz_encoding z \<and> \<not> noBodyStatus code \<and> wi_body (rw_wire b) = [] \<and> (\<exists>ps. cz_sink z = Some ps \<and> concat ps = body)
        else ce h = [] \<and> wi_body (rw_wire b) = body))"

definition same_setup :: "compress_state \<Rightarrow> compress_state \<Rightarrow> bool" where
  "same_setup z z' \<longleftrightarrow> cz_encoding z' = cz_encoding z \<and> cz_cfg z' = cz_cfg z \<and> cz_statusCode z' = cz_statusCode z
     \<and> cz_headerWritten z' = cz_headerWritten z"

lemma flushPlain_settles:
  assumes "waiting b z" and "200 \<le> statusOrOK z" and "\<not> noBodyStatus (statusOrOK z)"
  obtains b' z' where "flushPlainBuffer b (z\<lparr>cz_decided := True, cz_compress := False\<rparr>) = (Wrote, b', z')"
    "settled (cz_buffer z) (statusOrOK z) b' z'" "same_setup z z'"
proof -
  let ?z = "z\<lparr>cz_decided := True, cz_compress := False\<rparr>" and ?b = "rw_WriteHeader (statusOrOK z) b"
  have w: "\<not> rw_written b" "wi_sent (rw_wire b) = None" "wi_body (rw_wire b) = []" "ce (wi_header (rw_wire b)) = []"
    using assms(1) by (simp_all add: waiting_def)
  have s: "statusOrOK ?z = statusOrOK z" by (simp add: statusOrOK_def)
  note h = rw_WriteHeader_new [OF w(1,2) assms(2)]
  show thesis
  proof (cases "cz_buffer z = []")
    case True
    show ?thesis by (rule that [of ?b ?z])
      (use True s h w assms in \<open>simp_all add: flushPlainBuffer_def ensure_header_new settled_def same_setup_def\<close>)
  next
    case False
    show ?thesis by (rule that [of "?b\<lparr>rw_wire := (rw_wire ?b)\<lparr>wi_body := cz_buffer z\<rparr>\<rparr>" "?z\<lparr>cz_buffer := []\<rparr>"])
      (use False s h w assms in \<open>simp_all add: flushPlainBuffer_def ensure_header_new settled_def same_setup_def rw_Write_sent [OF h(1,2)]\<close>)
  qed
qed

lemma decide_settles:
  assumes "waiting b z" and "usable z" and "200 \<le> statusOrOK z" and "\<not> noBodyStatus (cz_statusCode z)" and "\<not> noBodyStatus (statusOrOK z)"
  obtains b' z' where "decideAndFlushBuffer b z = (Wrote, b', z')" "settled (cz_buffer z) (statusOrOK z) b' z'" "same_setup z z'"
proof -
  let ?h = "wi_header (rw_wire b)"
  let ?ct = "to_lower (trim_space (header_get ?h ''Content-Type''))"
  have w: "\<not> cz_decided z" "\<not> rw_written b" "wi_sent (rw_wire b) = None" "wi_body (rw_wire b) = []" "ce ?h = []"
    using assms(1) by (simp_all add: waiting_def)
  obtain b1 z1 where p: "flushPlainBuffer b (z\<lparr>cz_decided := True, cz_compress := False\<rparr>) = (Wrote, b1, z1)"
      "settled (cz_buffer z) (statusOrOK z) b1 z1" "same_setup z z1"
    using flushPlain_settles [OF assms(1,3,5)] .
  show thesis
  proof (cases "int (length (cz_buffer z)) < zc_MinSize (cz_cfg z) \<or> matchesMIME ?ct (zc_ExcludedMIMETypes (cz_cfg z))
      \<or> \<not> isCompressibleContentType ?ct (zc_CompressibleContentTypes (cz_cfg z))")
    case True
    then show ?thesis using p w assms(4) by (intro that [of b1 z1]) (auto simp: decideAndFlushBuffer_def Let_def)
  next
    case False
    let ?f = "\<lambda>h. appendVary ''Accept-Encoding'' (header_set ''Content-Encoding'' (cz_encoding z) (header_set ''Content-Length'' [] h))"
    let ?u = "rw_upd_header ?f b"
    let ?b = "rw_WriteHeader (statusOrOK z) ?u"
    let ?z = "z\<lparr>cz_decided := True, cz_compress := True\<rparr>"
    let ?z' = "if cz_buffer z = [] then ?z\<lparr>cz_sink := Some []\<rparr> else ?z\<lparr>cz_sink := Some [cz_buffer z], cz_buffer := []\<rparr>"
    have s: "statusOrOK ?z = statusOrOK z" by (simp add: statusOrOK_def)
    have u: "\<not> rw_written ?u" "wi_sent (rw_wire ?u) = None" using w by simp_all
    note h = rw_WriteHeader_new [OF u assms(3)]
    have ne: "cz_encoding z = ''br'' \<or> cz_encoding z = ''gzip''" using assms(2) by (auto simp: usable_def)
    have d: "decideAndFlushBuffer b z = (Wrote, ?b, ?z')"
      using False w assms(2,4) ne s ensure_header_new [OF u assms(3)] by (auto simp: decideAndFlushBuffer_def Let_def usable_def)
    show ?thesis by (rule that [OF d]) (use h w assms(5) in \<open>simp_all add: settled_def same_setup_def encoding_names\<close>)
  qed
qed

text \<open>The writer without the middleware, and the compressing writer, after the same operations.\<close>

definition tracks :: "resp_writer \<Rightarrow> resp_writer \<Rightarrow> compress_state \<Rightarrow> bool" where
  "tracks bp b z \<longleftrightarrow> usable z \<and> cz_headerWritten z = rw_written bp \<and> ce (wi_header (rw_wire bp)) = [] \<and>
     (if rw_written bp
      then 200 \<le> cz_statusCode z \<and> (\<exists>h. wi_sent (rw_wire bp) = Some (cz_statusCode z, h) \<and> ce h = [])
        \<and> (noBodyStatus (cz_statusCode z) \<longrightarrow> \<not> cz_compress z \<and> cz_decided z)
        \<and> (if cz_decided z then settled (wi_body (rw_wire bp)) (cz_statusCode z) b z else waiting b z \<and> cz_buffer z = wi_body (rw_wire bp))
      else wi_sent (rw_wire bp) = None \<and> wi_body (rw_wire bp) = [] \<and> waiting b z \<and> cz_buffer z = [] \<and> cz_statusCode z = 0)"

lemma tracks_header:
  assumes "tracks bp b z" and "header_name k \<noteq> ''Content-Encoding''"
  shows "tracks (rw_upd_header (header_set k v) bp) (rw_upd_header (header_set k v) b) z"
proof -
  have c: "ce (header_set k v h) = ce h" for h using ce_set [OF assms(2)] .
  have "settled body code (rw_upd_header f b) z = settled body code b z" for body code f by (simp add: settled_def)
  moreover have "waiting (rw_upd_header (header_set k v) b) z = waiting b z" using c by (simp add: waiting_def del: header_get_set)
  ultimately show ?thesis using assms(1) c by (simp add: tracks_def del: header_get_set)
qed

lemma tracks_status:
  assumes "tracks bp b z" and "200 \<le> c" and "compress_WriteHeader c b z = (b', z')"
  shows "tracks (rw_WriteHeader c bp) b' z'"
proof (cases "rw_written bp")
  case True
  then have "b' = b" "z' = z" using assms by (auto simp: tracks_def compress_WriteHeader_def)
  then show ?thesis using assms(1) True by (simp add: rw_WriteHeader_def)
next
  case False
  have t: "\<not> cz_headerWritten z" "wi_sent (rw_wire bp) = None" "wi_body (rw_wire bp) = []" "ce (wi_header (rw_wire bp)) = []"
      "waiting b z" "cz_buffer z = []" "usable z"
    using assms(1) False by (simp_all add: tracks_def)
  have w: "\<not> rw_written b" "wi_sent (rw_wire b) = None" "ce (wi_header (rw_wire b)) = []" "wi_body (rw_wire b) = []"
    using t(5) by (simp_all add: waiting_def)
  note hp = rw_WriteHeader_new [OF False t(2) assms(2)] and hb = rw_WriteHeader_new [OF w(1,2) assms(2)]
  show ?thesis
  proof (cases "noBodyStatus c")
    case True
    then have "b' = rw_WriteHeader c b" "z' = z\<lparr>cz_statusCode := c, cz_headerWritten := True, cz_decided := True, cz_compress := False\<rparr>"
      using assms(3) t(1) by (simp_all add: compress_WriteHeader_def)
    then show ?thesis using t hp hb w assms(2) by (simp add: tracks_def settled_def usable_def)
  next
    case False
    then have "b' = b" "z' = z\<lparr>cz_statusCode := c, cz_headerWritten := True\<rparr>"
      using assms(3) t(1) by (simp_all add: compress_WriteHeader_def)
    then show ?thesis using t hp False assms(2) by (simp add: tracks_def waiting_def usable_def)
  qed
qed

lemma same_usable: "same_setup z0 z \<Longrightarrow> usable z0 \<Longrightarrow> usable z"
  by (simp add: same_setup_def usable_def)

lemma tracks_body_written:
  assumes "tracks bp b z" and "rw_written bp" and "compress_Write p b z = (r, b', z')"
  shows "tracks (snd (rw_Write p bp)) b' z'"
proof -
  let ?c = "cz_statusCode z"
  obtain h where h: "wi_sent (rw_wire bp) = Some (?c, h)" "ce h = []" using assms(1,2) by (auto simp: tracks_def)
  have t: "cz_headerWritten z" "200 \<le> ?c" "usable z" "ce (wi_header (rw_wire bp)) = []"
      "noBodyStatus ?c \<Longrightarrow> \<not> cz_compress z \<and> cz_decided z"
    using assms(1,2) by (simp_all add: tracks_def)
  have bp: "snd (rw_Write p bp) = (if noBodyStatus ?c then bp else bp\<lparr>rw_wire := (rw_wire bp)\<lparr>wi_body := wi_body (rw_wire bp) @ p\<rparr>\<rparr>)"
    by (simp add: rw_Write_sent [OF assms(2) h(1)])
  show ?thesis
  proof (cases "cz_decided z")
    case True
    have st: "settled (wi_body (rw_wire bp)) ?c b z" using assms(1,2) True by (simp add: tracks_def)
    show ?thesis
    proof (cases "cz_compress z")
      case c: True
      then obtain ps where ps: "cz_sink z = Some ps" "concat ps = wi_body (rw_wire bp)" "\<not> noBodyStatus ?c" using st by (auto simp: settled_def)
      have "b' = b" "z' = z\<lparr>cz_sink := Some (ps @ [p])\<rparr>" using assms(3) t(1) True c ps(1) by (simp_all add: compress_Write_def)
      then show ?thesis using bp st ps c True t h assms(2) by (auto simp: tracks_def settled_def usable_def)
    next
      case c: False
      obtain hb where hb: "rw_written b" "wi_sent (rw_wire b) = Some (?c, hb)" using st by (auto simp: settled_def)
      have "b' = snd (rw_Write p b)" "z' = z" using assms(3) t(1) True c by (auto simp: compress_Write_def split: prod.splits)
      then show ?thesis using bp st c True t h assms(2) by (auto simp: tracks_def settled_def rw_Write_sent [OF hb])
    qed
  next
    case False
    let ?z = "z\<lparr>cz_buffer := cz_buffer z @ p\<rparr>"
    have w: "waiting b ?z" "cz_buffer z = wi_body (rw_wire bp)" using assms(1,2) False by (simp_all add: tracks_def waiting_def)
    have nb: "\<not> noBodyStatus ?c" using t(5) False by blast
    show ?thesis
    proof (cases "int (length (cz_buffer ?z)) < zc_MinSize (cz_cfg z)")
      case True
      then have "b' = b" "z' = ?z" using assms(3) t(1) False by (simp_all add: compress_Write_def)
      then show ?thesis using bp nb w t h assms(2) False by (auto simp: tracks_def waiting_def usable_def)
    next
      case f: False
      have s: "statusOrOK ?z = ?c" using t(2) by (simp add: statusOrOK_def)
      obtain b1 z1 where d: "decideAndFlushBuffer b ?z = (Wrote, b1, z1)" "settled (cz_buffer ?z) (statusOrOK ?z) b1 z1" "same_setup ?z z1"
        using decide_settles [of b ?z] w(1) t nb s by (auto simp: usable_def)
      have "b' = b1" "z' = z1" using assms(3) t(1) False f d(1) by (simp_all add: compress_Write_def)
      then show ?thesis using bp nb w(2) t h assms(2) d(2,3) s by (auto simp: tracks_def same_setup_def usable_def settled_def)
    qed
  qed
qed

lemma tracks_body:
  assumes "tracks bp b z" and "compress_Write p b z = (r, b', z')"
  shows "tracks (snd (rw_Write p bp)) b' z'"
proof (cases "rw_written bp")
  case True
  then show ?thesis using tracks_body_written [OF assms(1) True assms(2)] by simp
next
  case False
  obtain b1 z1 where h: "compress_WriteHeader 200 b z = (b1, z1)" by force
  have t: "tracks (rw_WriteHeader 200 bp) b1 z1" using tracks_status [OF assms(1) _ h] by simp
  have n: "\<not> cz_headerWritten z" "cz_headerWritten z1" using assms(1) False h by (auto simp: tracks_def compress_WriteHeader_def Let_def split: if_splits)
  have p: "rw_Write p (rw_WriteHeader 200 bp) = rw_Write p bp" using False by (simp add: rw_Write_def rw_WriteHeader_def)
  have c: "compress_Write p b1 z1 = (r, b', z')" using assms(2) n h by (simp add: compress_Write_def)
  have "rw_written (rw_WriteHeader 200 bp)" using False by (simp add: rw_WriteHeader_def)
  then show ?thesis using tracks_body_written [OF t _ c] p by simp
qed

text \<open>Both writers over all operations of a handler.\<close>

lemma tracks_op:
  assumes "tracks bp b z" and "plain_op op"
  obtains bp' b' z' where "writer_op op (PlainWriter bp) = PlainWriter bp'" "writer_op op (CompressWriter b z) = CompressWriter b' z'"
    "tracks bp' b' z'"
proof (cases op)
  case (SetHeader k v)
  show ?thesis by (rule that [OF _ _ tracks_header [OF assms(1), of k v]]) (use SetHeader assms(2) in simp_all)
next
  case (WriteStatus c)
  obtain b' z' where h: "compress_WriteHeader c b z = (b', z')" by force
  show ?thesis by (rule that [OF _ _ tracks_status [OF assms(1) _ h]]) (use WriteStatus assms(2) h in simp_all)
next
  case (WriteBody p)
  obtain r b' z' where h: "compress_Write p b z = (r, b', z')" by (metis prod_cases3)
  show ?thesis by (rule that [OF _ _ tracks_body [OF assms(1) h]]) (use WriteBody h in \<open>simp_all split: prod.splits\<close>)
qed (use assms(2) in simp)

lemma tracks_ops:
  "tracks bp b z \<Longrightarrow> list_all plain_op ops \<Longrightarrow>
     \<exists>bp' b' z'. writer_ops ops (PlainWriter bp) = PlainWriter bp' \<and> writer_ops ops (CompressWriter b z) = CompressWriter b' z' \<and> tracks bp' b' z'"
proof (induction ops arbitrary: bp b z)
  case (Cons op ops)
  obtain bp1 b1 z1 where "writer_op op (PlainWriter bp) = PlainWriter bp1" "writer_op op (CompressWriter b z) = CompressWriter b1 z1" "tracks bp1 b1 z1"
    using tracks_op [of bp b z op] Cons.prems by auto
  then show ?case using Cons.IH [of bp1 b1 z1] Cons.prems(2) by (simp add: writer_ops_def)
qed (simp add: writer_ops_def)

lemma settled_view:
  assumes "settled body code b z" and "usable z" and "\<And>e ps. decode e (encode e ps) = Some (concat ps)" and "compress_Close encode b z = (r, b', z')"
  shows "r = Wrote \<and> rw_written b' \<and> client_view decode (rw_wire b') = (code, Some body)
    \<and> (\<exists>h. wi_sent (rw_wire b') = Some (code, h) \<and> (ce h = [] \<or> ce h = cz_encoding z))"
proof -
  obtain h where h: "rw_written b" "wi_sent (rw_wire b) = Some (code, h)" "cz_decided z" using assms(1) by (auto simp: settled_def)
  have e: "cz_encoding z \<noteq> []" using assms(2) by (auto simp: usable_def)
  show ?thesis
  proof (cases "cz_compress z")
    case True
    then obtain ps where "cz_sink z = Some ps" "concat ps = body" "ce h = cz_encoding z" "wi_body (rw_wire b) = []" "\<not> noBodyStatus code"
      using assms(1) h by (auto simp: settled_def)
    then show ?thesis using assms(3,4) h e True
      by (auto simp: compress_Close_def rw_Write_sent [OF h(1,2)] client_view_def wire_finish_def Let_def)
  next
    case False
    then show ?thesis using assms(1,4) h by (auto simp: compress_Close_def settled_def client_view_def wire_finish_def Let_def)
  qed
qed

lemma tracks_close:
  assumes "tracks bp b z" and "\<And>e ps. decode e (encode e ps) = Some (concat ps)" and "compress_Close encode b z = (r, b', z')"
  shows "r = Wrote \<and> rw_written b' \<and> client_view decode (rw_wire b') = client_view decode (rw_wire bp)
    \<and> (\<exists>code h. wi_sent (rw_wire b') = Some (code, h) \<and> (ce h = [] \<or> ce h = cz_encoding z))"
proof -
  have u: "usable z" using assms(1) by (simp add: tracks_def)
  have v: "client_view decode (rw_wire bp) = (statusOrOK z, Some (wi_body (rw_wire bp)))"
    using assms(1) by (auto simp: tracks_def client_view_def wire_finish_def wire_WriteHeader_def statusOrOK_def Let_def split: if_splits)
  show ?thesis
  proof (cases "cz_decided z")
    case True
    then have s: "settled (wi_body (rw_wire bp)) (cz_statusCode z) b z" "statusOrOK z = cz_statusCode z"
      using assms(1) by (auto simp: tracks_def waiting_def statusOrOK_def split: if_splits)
    then show ?thesis using settled_view [where encode = encode and decode = decode, OF s(1) u assms(2,3)] v by auto
  next
    case False
    then have w: "waiting b z" "cz_buffer z = wi_body (rw_wire bp)" using assms(1) by (auto simp: tracks_def split: if_splits)
    have s: "200 \<le> statusOrOK z" "\<not> noBodyStatus (cz_statusCode z)" "\<not> noBodyStatus (statusOrOK z)"
      using assms(1) False by (auto simp: tracks_def statusOrOK_def noBodyStatus_def split: if_splits)
    obtain b1 z1 where d: "decideAndFlushBuffer b z = (Wrote, b1, z1)" "settled (cz_buffer z) (statusOrOK z) b1 z1" "same_setup z z1"
      using decide_settles [OF w(1) u s] .
    have "cz_decided z1" using d(2) by (simp add: settled_def)
    then have "compress_Close encode b1 z1 = (r, b', z')" using assms(3) False d(1) by (simp add: compress_Close_def)
    then show ?thesis using settled_view [where encode = encode and decode = decode, OF d(2) same_usable [OF d(3) u] assms(2)] v w(2) d(3)
      by (auto simp: same_setup_def)
  qed
qed

lemma flushPlain_encoding: "cz_encoding (snd (snd (flushPlainBuffer b z))) = cz_encoding z"
  by (simp add: flushPlainBuffer_def Let_def split: prod.splits write_result.splits)

lemma decide_encoding: "cz_encoding (snd (snd (decideAndFlushBuffer b z))) = cz_encoding z"
  by (simp add: decideAndFlushBuffer_def Let_def flushPlain_encoding)

lemma Write_encoding: "cz_encoding (snd (snd (compress_Write p b z))) = cz_encoding z"
  by (simp add: compress_Write_def compress_WriteHeader_def Let_def decide_encoding split: prod.splits option.splits)

lemma op_encoding: "writer_op op (CompressWriter b z) = CompressWriter b' z' \<Longrightarrow> cz_encoding z' = cz_encoding z"
  using Write_encoding [of _ b z]
  by (cases op) (auto simp: compress_WriteHeader_def Let_def split: prod.splits if_splits, metis snd_conv)

lemma ops_encoding: "writer_ops ops (CompressWriter b z) = CompressWriter b' z' \<Longrightarrow> cz_encoding z' = cz_encoding z"
proof (induction ops arbitrary: b z)
  case (Cons op ops)
  have "\<exists>b1 z1. writer_op op (CompressWriter b z) = CompressWriter b1 z1" by (cases op) (auto split: prod.splits)
  then obtain b1 z1 where w: "writer_op op (CompressWriter b z) = CompressWriter b1 z1" by blast
  then show ?case using Cons.IH [of b1 z1] Cons.prems op_encoding [OF w] by (simp add: writer_ops_def)
qed (simp add: writer_ops_def)

section \<open>The middleware\<close>

text \<open>
  The context of the \<^verbatim>\<open>nethttp\<close> router.  A handler is a function on contexts.  The middleware is applied once to a
  response: over a response that is already compressed it is not described.  Neither writer is an \<^verbatim>\<open>http.Pusher\<close>.
\<close>

record rcontext =
  rc_request :: http_request
  rc_response :: writer
  rc_params :: "string \<rightharpoonup> string"
  rc_store :: "string \<rightharpoonup> string"

type_synonym rhandler = "rcontext \<Rightarrow> err option \<times> rcontext"

definition supportsServerPush :: "writer \<Rightarrow> bool" where
  "supportsServerPush w = False"

fun result_error :: "write_result \<Rightarrow> err option" where
  "result_error Wrote = None"
| "result_error (WriteFailed e) = Some e"
| "result_error WritePanics = None"

definition compression_skipped ::
  "(string \<Rightarrow> (string \<Rightarrow> bool) option) \<Rightarrow> (string \<Rightarrow> string) \<Rightarrow> compression_config \<Rightarrow> rcontext \<Rightarrow> bool" where
  "compression_skipped re mt cfg c \<longleftrightarrow>
     (let path = hr_Path (rc_request c) in
      \<not> zc_Enabled cfg \<or> hr_Method (rc_request c) = ''HEAD''
      \<or> isExcludedPath path (zc_ExcludedPathPrefixes cfg) (compileRegexes re (zc_ExcludedPathRegex cfg))
      \<or> zc_ExcludeServerPush cfg \<and> supportsServerPush (rc_response c)
      \<or> hasExcludedExtension path (zc_ExcludedExtensions cfg)
      \<or> hasExcludedMIMEFromExtension mt path (zc_ExcludedMIMETypes cfg))"

definition compression_Middleware ::
  "(string \<Rightarrow> (string \<Rightarrow> bool) option) \<Rightarrow> (string \<Rightarrow> string) \<Rightarrow> (string \<Rightarrow> rat option) \<Rightarrow> (string \<Rightarrow> string list \<Rightarrow> string)
     \<Rightarrow> compression_config \<Rightarrow> rhandler \<Rightarrow> rhandler" where
  "compression_Middleware re mt pf encode cfg0 next c =
     (let cfg = compression_normalizeConfig cfg0 in
      if compression_skipped re mt cfg c then next c
      else let e = negotiateEncoding pf (header_get (hr_Header (rc_request c)) ''Accept-Encoding'') cfg in
        if e = [] then next c
        else case rc_response c of
            CompressWriter b z \<Rightarrow> next c
          | PlainWriter b \<Rightarrow>
              (let (er, c2) = next (c\<lparr>rc_response := newCompressResponseWriter (rw_upd_header (appendVary ''Accept-Encoding'') b) e cfg\<rparr>);
                   (r, w) = writer_close encode (rc_response c2) in
               (if er = None then result_error r else er, c2\<lparr>rc_response := w\<rparr>)))"

text \<open>The weight a request gives an encoding: its own, or that of \<^verbatim>\<open>*\<close>.\<close>

definition weight :: "(string \<Rightarrow> rat option) \<Rightarrow> string \<Rightarrow> string \<Rightarrow> rat option" where
  "weight pf accept e = (case qualityForEncoding pf accept e of Some q \<Rightarrow> Some q | None \<Rightarrow> qualityForEncoding pf accept ''*'')"

definition enabled_encoding :: "compression_config \<Rightarrow> string \<Rightarrow> bool" where
  "enabled_encoding cfg e \<longleftrightarrow> e = ''br'' \<and> zc_EnableBrotli cfg \<or> e = ''gzip'' \<and> zc_EnableGzip cfg"

text \<open>The chosen encoding is an enabled one of positive weight, and of the largest.\<close>

definition best_encoding :: "(string \<Rightarrow> rat option) \<Rightarrow> compression_config \<Rightarrow> string \<Rightarrow> string \<Rightarrow> bool" where
  "best_encoding pf cfg accept e \<longleftrightarrow> enabled_encoding cfg e
     \<and> (case weight pf accept e of None \<Rightarrow> False
        | Some q \<Rightarrow> q > 0 \<and> list_all (\<lambda>f. \<not> enabled_encoding cfg f \<or> (case weight pf accept f of None \<Rightarrow> True | Some p \<Rightarrow> p \<le> q)) [''br'', ''gzip''])"

lemma negotiate_best: "negotiateEncoding pf accept cfg \<noteq> [] \<Longrightarrow> best_encoding pf cfg accept (negotiateEncoding pf accept cfg)"
  by (auto simp: negotiateEncoding_def best_encoding_def enabled_encoding_def weight_def Let_def split: option.splits if_splits)

lemma Middleware_usable:
  assumes "- 2 \<le> zc_GzipLevel cfg" and "zc_GzipLevel cfg \<le> 9" and "negotiateEncoding pf accept (compression_normalizeConfig cfg) = e" and "e \<noteq> []"
  shows "e = ''br'' \<or> e = ''gzip'' \<and> - 2 \<le> zc_GzipLevel (compression_normalizeConfig cfg) \<and> zc_GzipLevel (compression_normalizeConfig cfg) \<le> 9"
proof -
  have "e = ''br'' \<or> e = ''gzip''" using negotiate_best [of pf accept "compression_normalizeConfig cfg"] assms(3,4)
    by (auto simp: best_encoding_def enabled_encoding_def)
  then show ?thesis using assms(1,2) by (auto simp: compression_normalizeConfig_def compression_DefaultConfig_def Let_def)
qed

text \<open>A handler that does a list of operations to its response.\<close>

definition ops_handler :: "response_op list \<Rightarrow> err option \<Rightarrow> rhandler" where
  "ops_handler ops er c = (er, c\<lparr>rc_response := writer_ops ops (rc_response c)\<rparr>)"

definition sent_encoding :: "wire \<Rightarrow> string" where
  "sent_encoding w = (case wi_sent w of None \<Rightarrow> [] | Some (code, h) \<Rightarrow> ce h)"

lemma tracks_start:
  assumes "usable z" and "ce h = []" and "z = \<lparr>cz_encoding = e, cz_cfg = cfg, cz_statusCode = 0, cz_headerWritten = False, cz_decided = False,
      cz_compress = False, cz_sink = None, cz_buffer = []\<rparr>"
  shows "tracks (fresh_writer h) (rw_upd_header (appendVary v) (fresh_writer h)) z"
  using assms by (simp add: tracks_def waiting_def fresh_writer_def rw_upd_header_def)

lemma plain_encoding:
  assumes "list_all plain_op ops" and "ce h = []"
  shows "sent_encoding (wire_of (writer_ops ops (PlainWriter (fresh_writer h)))) = []"
proof -
  let ?z = "\<lparr>cz_encoding = ''br'', cz_cfg = compression_DefaultConfig, cz_statusCode = 0, cz_headerWritten = False, cz_decided = False,
      cz_compress = False, cz_sink = None, cz_buffer = []\<rparr>"
  have "tracks (fresh_writer h) (rw_upd_header (appendVary []) (fresh_writer h)) ?z"
    by (rule tracks_start) (use assms(2) in \<open>simp_all add: usable_def\<close>)
  then obtain bp' b' z' where "writer_ops ops (PlainWriter (fresh_writer h)) = PlainWriter bp'" "tracks bp' b' z'"
    using tracks_ops [OF _ assms(1)] by blast
  then show ?thesis by (auto simp: tracks_def sent_encoding_def wire_of_def split: if_splits)
qed

text \<open>What the middleware does when it compresses for the request.\<close>

lemma Middleware_compresses:
  assumes "\<And>e ps. decode e (encode e ps) = Some (concat ps)"
    and "- 2 \<le> zc_GzipLevel cfg" and "zc_GzipLevel cfg \<le> 9"
    and "list_all plain_op ops" and "rc_response c = PlainWriter (fresh_writer h)" and "ce h = []"
    and "\<not> compression_skipped re mt (compression_normalizeConfig cfg) c"
    and "e = negotiateEncoding pf (header_get (hr_Header (rc_request c)) ''Accept-Encoding'') (compression_normalizeConfig cfg)" and "e \<noteq> []"
  obtains w where "compression_Middleware re mt pf encode cfg (ops_handler ops er) c = (er, c\<lparr>rc_response := w\<rparr>)" "writer_Written w"
    "client_view decode (wire_of w) = client_view decode (wire_of (writer_ops ops (rc_response c)))"
    "sent_encoding (wire_of w) = [] \<or> sent_encoding (wire_of w) = e"
proof -
  let ?cfg = "compression_normalizeConfig cfg" and ?b = "rw_upd_header (appendVary ''Accept-Encoding'') (fresh_writer h)"
  define z where "z = \<lparr>cz_encoding = e, cz_cfg = ?cfg, cz_statusCode = 0, cz_headerWritten = False, cz_decided = False, cz_compress = False,
    cz_sink = None, cz_buffer = []\<rparr>"
  have u: "usable z" using Middleware_usable [OF assms(2,3) assms(8) [symmetric] assms(9)] by (simp add: usable_def z_def)
  obtain bp' b' z' where o: "writer_ops ops (PlainWriter (fresh_writer h)) = PlainWriter bp'" "writer_ops ops (CompressWriter ?b z) = CompressWriter b' z'"
      "tracks bp' b' z'" using tracks_ops [OF tracks_start [OF u assms(6) z_def] assms(4)] by blast
  obtain r b2 z2 where cl: "compress_Close encode b' z' = (r, b2, z2)" by (metis prod_cases3)
  note v = tracks_close [where encode = encode and decode = decode, OF o(3) assms(1) cl]
  have enc: "cz_encoding z' = e" using ops_encoding [OF o(2)] by (simp add: z_def)
  have "newCompressResponseWriter ?b e ?cfg = CompressWriter ?b z" by (simp add: newCompressResponseWriter_def z_def)
  then have m: "compression_Middleware re mt pf encode cfg (ops_handler ops er) c = (er, c\<lparr>rc_response := CompressWriter b2 z2\<rparr>)"
    using assms(5,7,8,9) o cl v by (simp add: compression_Middleware_def Let_def ops_handler_def)
  show thesis by (rule that [OF m]) (use v o(1) enc assms(5) in \<open>auto simp: wire_of_def sent_encoding_def\<close>)
qed


text \<open>A codec that marks what it was given with its name.\<close>

definition mark_encode :: "string \<Rightarrow> string list \<Rightarrow> string" where
  "mark_encode e ps = ''<'' @ concat ps"

definition mark_decode :: "string \<Rightarrow> string \<Rightarrow> string option" where
  "mark_decode e s = (case s of [] \<Rightarrow> None | c # cs \<Rightarrow> Some cs)"

definition one_decimal :: "string \<Rightarrow> rat option" where
  "one_decimal s = (case s of [a, p, b] \<Rightarrow> if is_digit a \<and> p = CHR ''.'' \<and> is_digit b then Some (of_nat (digits_value [a, b]) / 10) else None | _ \<Rightarrow> None)"

definition zip_request :: "string \<Rightarrow> rcontext" where
  "zip_request accept = \<lparr>rc_request = \<lparr>hr_Method = ''GET'', hr_Path = ''/a'', hr_Header = (\<lambda>k. if k = ''Accept-Encoding'' then accept else []),
      hr_Param = (\<lambda>_. []), hr_Query = (\<lambda>_. [])\<rparr>,
     rc_response = PlainWriter (fresh_writer (\<lambda>_. [])), rc_params = Map.empty, rc_store = Map.empty\<rparr>"

definition no_regex :: "string \<Rightarrow> (string \<Rightarrow> bool) option" where
  "no_regex p = None"

definition zip_Middleware :: "rhandler \<Rightarrow> rhandler" where
  "zip_Middleware = compression_Middleware no_regex (\<lambda>_. []) one_decimal mark_encode compression_DefaultConfig"


section \<open>Where it is not\<close>

text \<open>
  A flush before the first byte commits the header without the encoding, and the body that follows is
  compressed all the same: the client cannot read it.  This is what a handler of server-sent events does.
\<close>

lemma flush_first_garbles:
  "let w = wire_of (rc_response (snd (zip_Middleware
        (ops_handler [SetHeader ''Content-Type'' ''text/event-stream'', WriteStatus 200, FlushOut, WriteBody ''data'', FlushOut] None) (zip_request ''gzip'')))) in
   sent_encoding w = [] \<and> wi_body w = mark_encode ''gzip'' [''data'']"
  by code_simp

text \<open>
  A level gzip does not have, which the configuration accepts: the header promises gzip, and
  the write after the failed one panics.
\<close>

lemma bad_level_panics:
  "let w = newCompressResponseWriter (fresh_writer (\<lambda>_. [])) ''gzip'' (compression_normalizeConfig (compression_DefaultConfig\<lparr>zc_GzipLevel := 12\<rparr>));
       (r1, w1) = writer_Write ''a'' w; (r2, w2) = writer_Write ''b'' w1 in
   r1 \<noteq> Wrote \<and> sent_encoding (wire_of w1) = ''gzip'' \<and> r2 = WritePanics"
  by code_simp

text \<open>An informational status counts as the status of the response in the router's writer: the real one is lost.\<close>

lemma early_hints_lose_status:
  "client_view decode (wire_of (writer_ops [WriteStatus 103, WriteStatus 404, WriteBody ''no''] (PlainWriter (fresh_writer (\<lambda>_. []))))) = (200, Some ''no'')"
  by code_simp

end
