(* ===== verification/Router.thy ===== *)
theory Router
  imports Compression
begin

text \<open>
  \<^verbatim>\<open>pkg/http/router/nethttp\<close>: the router over \<^verbatim>\<open>net/http\<close>.  Routes are matched segment by segment in the order of their
  registration; middleware of the router, of its group and of the route are applied outermost first.  A router
  keeps its middleware in a Go slice, which groups share, so slices are modelled with their arrays.  The theory shows
  which route serves a request and with which parameters, what a group adds to its routes, and how an error of a
  handler is answered, with and without compression.
\<close>

section \<open>Matching\<close>

text \<open>\<^verbatim>\<open>strings.Trim(s, "/")\<close>.\<close>

definition trim_slashes :: "string \<Rightarrow> string" where
  "trim_slashes s = trim_right_char CHR ''/'' (dropWhile (\<lambda>c. c = CHR ''/'') s)"

fun match_parts :: "string list \<Rightarrow> string list \<Rightarrow> (string \<rightharpoonup> string) \<Rightarrow> (string \<rightharpoonup> string) option" where
  "match_parts [] [] params = Some params"
| "match_parts (part # parts) (v # vs) params =
     (if has_prefix part '':'' then match_parts parts vs (params(tl part \<mapsto> v))
      else if part \<noteq> v then None else match_parts parts vs params)"
| "match_parts _ _ params = None"

definition matchRoute :: "string \<Rightarrow> string \<Rightarrow> (string \<rightharpoonup> string) option" where
  "matchRoute pattern path =
     (let patternParts = split_on CHR ''/'' (trim_slashes pattern); pathParts = split_on CHR ''/'' (trim_slashes path) in
      if length patternParts \<noteq> length pathParts then None else match_parts patternParts pathParts Map.empty)"

section \<open>Slices\<close>

text \<open>
  A slice is a part of an array from its start: the array, the length and the capacity.  \<open>grow\<close> gives the capacity of a
  new array, which the language leaves to the implementation, apart from its being enough.
\<close>

record slice =
  sl_array :: nat
  sl_length :: nat
  sl_cap :: nat

record 'm arrays =
  ar_heap :: "nat \<Rightarrow> 'm list"
  ar_next :: nat

definition slice_view :: "'m arrays \<Rightarrow> slice \<Rightarrow> 'm list" where
  "slice_view A s = take (sl_length s) (ar_heap A (sl_array s))"

definition overwrite :: "nat \<Rightarrow> 'm list \<Rightarrow> 'm list \<Rightarrow> 'm list" where
  "overwrite i xs a = take i a @ xs @ drop (i + length xs) a"

definition slice_append :: "(nat \<Rightarrow> nat \<Rightarrow> nat) \<Rightarrow> slice \<Rightarrow> 'm list \<Rightarrow> 'm arrays \<Rightarrow> slice \<times> 'm arrays" where
  "slice_append grow s xs A =
     (let n = sl_length s + length xs in
      if n \<le> sl_cap s
      then (s\<lparr>sl_length := n\<rparr>, A\<lparr>ar_heap := (ar_heap A)(sl_array s := overwrite (sl_length s) xs (ar_heap A (sl_array s)))\<rparr>)
      else (\<lparr>sl_array = ar_next A, sl_length = n, sl_cap = grow (sl_cap s) n\<rparr>,
            A\<lparr>ar_heap := (ar_heap A)(ar_next A := slice_view A s @ xs), ar_next := ar_next A + 1\<rparr>))"

section \<open>Routers\<close>

record 'm router =
  ro_middleware :: slice
  ro_prefix :: string

record ('m, 'h) route =
  rt_method :: string
  rt_pattern :: string
  rt_handler :: 'h
  rt_middleware :: "'m list"

text \<open>The routes and the arrays, which a router and its groups share.\<close>

record ('m, 'h) routing =
  rg_routes :: "('m, 'h) route list"
  rg_options :: "string set"
  rg_arrays :: "'m arrays"

definition NewRouter :: "'m router \<times> ('m, 'h) routing" where
  "NewRouter = (\<lparr>ro_middleware = \<lparr>sl_array = 0, sl_length = 0, sl_cap = 0\<rparr>, ro_prefix = []\<rparr>,
     \<lparr>rg_routes = [], rg_options = {}, rg_arrays = \<lparr>ar_heap = (\<lambda>_. []), ar_next = 1\<rparr>\<rparr>)"

definition router_Group ::
  "(nat \<Rightarrow> nat \<Rightarrow> nat) \<Rightarrow> 'm router \<Rightarrow> string \<Rightarrow> 'm list \<Rightarrow> ('m, 'h) routing \<Rightarrow> 'm router \<times> ('m, 'h) routing" where
  "router_Group grow r prefix ms R =
     (case slice_append grow (ro_middleware r) ms (rg_arrays R) of
        (s, A) \<Rightarrow> (\<lparr>ro_middleware = s, ro_prefix = ro_prefix r @ prefix\<rparr>, R\<lparr>rg_arrays := A\<rparr>))"

definition router_Use ::
  "(nat \<Rightarrow> nat \<Rightarrow> nat) \<Rightarrow> 'm router \<Rightarrow> 'm list \<Rightarrow> ('m, 'h) routing \<Rightarrow> 'm router \<times> ('m, 'h) routing" where
  "router_Use grow r ms R =
     (case slice_append grow (ro_middleware r) ms (rg_arrays R) of (s, A) \<Rightarrow> (r\<lparr>ro_middleware := s\<rparr>, R\<lparr>rg_arrays := A\<rparr>))"

text \<open>\<open>noContent\<close> is the handler of the routes for \<^verbatim>\<open>OPTIONS\<close>.\<close>

definition ensureOptionsRoute :: "'h \<Rightarrow> string \<Rightarrow> 'm list \<Rightarrow> ('m, 'h) routing \<Rightarrow> ('m, 'h) routing" where
  "ensureOptionsRoute noContent path ms R =
     (if path \<in> rg_options R then R
      else R\<lparr>rg_options := insert path (rg_options R),
             rg_routes := rg_routes R @ [\<lparr>rt_method = ''OPTIONS'', rt_pattern = path, rt_handler = noContent, rt_middleware = ms\<rparr>]\<rparr>)"

definition addRoute ::
  "'h \<Rightarrow> 'm router \<Rightarrow> string \<Rightarrow> string \<Rightarrow> 'h \<Rightarrow> 'm list \<Rightarrow> ('m, 'h) routing \<Rightarrow> ('m, 'h) routing" where
  "addRoute noContent r method path handler ms R =
     (let fullPath = ro_prefix r @ path; baseMiddleware = slice_view (rg_arrays R) (ro_middleware r) in
      ensureOptionsRoute noContent fullPath baseMiddleware
        (R\<lparr>rg_routes := rg_routes R @ [\<lparr>rt_method = method, rt_pattern = fullPath, rt_handler = handler, rt_middleware = baseMiddleware @ ms\<rparr>]\<rparr>))"

section \<open>Serving\<close>

type_synonym rmiddleware = "rhandler \<Rightarrow> rhandler"

definition options_handler :: rhandler where
  "options_handler c = (None, if \<not> writer_Written (rc_response c) then c\<lparr>rc_response := writer_WriteHeader 204 (rc_response c)\<rparr> else c)"

definition newContext :: "wire \<Rightarrow> http_request \<Rightarrow> (string \<rightharpoonup> string) \<Rightarrow> rcontext" where
  "newContext w req params = \<lparr>rc_request = req, rc_response = PlainWriter \<lparr>rw_wire = w, rw_status = 0, rw_written = False\<rparr>,
     rc_params = params, rc_store = Map.empty\<rparr>"

text \<open>\<^verbatim>\<open>http.Error\<close> and \<^verbatim>\<open>http.NotFound\<close>.\<close>

definition http_Error :: "string \<Rightarrow> int \<Rightarrow> wire \<Rightarrow> wire" where
  "http_Error msg code w =
     snd (wire_Write (msg @ [CHR 0x0A])
       (wire_WriteHeader code (w\<lparr>wi_header := header_set ''X-Content-Type-Options'' ''nosniff''
          (header_set ''Content-Type'' ''text/plain; charset=utf-8'' (header_set ''Content-Length'' [] (wi_header w)))\<rparr>)))"

definition run_route :: "(rmiddleware, rhandler) route \<Rightarrow> rcontext \<Rightarrow> wire" where
  "run_route rt ctx =
     (case foldr (\<lambda>m h. m h) (rt_middleware rt) (rt_handler rt) ctx of
        (None, c) \<Rightarrow> wire_of (rc_response c)
      | (Some e, c) \<Rightarrow>
          (if \<not> writer_Written (rc_response c) then http_Error (error_text e) 500 (wire_of (rc_response c)) else wire_of (rc_response c)))"

fun serve_routes :: "(rmiddleware, rhandler) route list \<Rightarrow> wire \<Rightarrow> http_request \<Rightarrow> wire" where
  "serve_routes [] w req = http_Error ''404 page not found'' 404 w"
| "serve_routes (rt # rts) w req =
     (case matchRoute (rt_pattern rt) (hr_Path req) of
        None \<Rightarrow> serve_routes rts w req
      | Some params \<Rightarrow> (if rt_method rt \<noteq> hr_Method req then serve_routes rts w req else run_route rt (newContext w req params)))"

definition ServeHTTP :: "(rmiddleware, rhandler) routing \<Rightarrow> wire \<Rightarrow> http_request \<Rightarrow> wire" where
  "ServeHTTP R w req = serve_routes (rg_routes R) w req"

text \<open>The operations of the context that a handler uses.\<close>

definition ctx_Param :: "string \<Rightarrow> rcontext \<Rightarrow> string" where
  "ctx_Param n c = (case rc_params c n of None \<Rightarrow> [] | Some v \<Rightarrow> v)"

definition ctx_Get :: "string \<Rightarrow> rcontext \<Rightarrow> string option" where
  "ctx_Get k c = rc_store c k"

definition ctx_Set :: "string \<Rightarrow> string \<Rightarrow> rcontext \<Rightarrow> rcontext" where
  "ctx_Set k v c = c\<lparr>rc_store := (rc_store c)(k \<mapsto> v)\<rparr>"

text \<open>\<^verbatim>\<open>JSON\<close> and \<^verbatim>\<open>String\<close>; \<open>marshal\<close> is the encoding of the value, with the line feed of the encoder.\<close>

definition ctx_write :: "string \<Rightarrow> int \<Rightarrow> string \<Rightarrow> rcontext \<Rightarrow> err option \<times> rcontext" where
  "ctx_write contentType code body c =
     (case writer_Write body (writer_WriteHeader code (writer_upd_header (header_set ''Content-Type'' contentType) (rc_response c))) of
        (r, w) \<Rightarrow> (result_error r, c\<lparr>rc_response := w\<rparr>))"

definition ctx_JSON :: "int \<Rightarrow> string result \<Rightarrow> rhandler" where
  "ctx_JSON code marshal c =
     (case marshal of
        Inr body \<Rightarrow> ctx_write ''application/json'' code body c
      | Inl e \<Rightarrow> (Some e, c\<lparr>rc_response := writer_WriteHeader code (writer_upd_header (header_set ''Content-Type'' ''application/json'') (rc_response c))\<rparr>))"

definition ctx_String :: "int \<Rightarrow> string \<Rightarrow> rhandler" where
  "ctx_String code s = ctx_write ''text/plain'' code s"

definition ctx_Bind :: "(string \<Rightarrow> 'v result) \<Rightarrow> string option \<Rightarrow> rcontext \<Rightarrow> 'v result" where
  "ctx_Bind decode_json body c =
     (case body of
        None \<Rightarrow> Inl (ENew ''request body is empty'')
      | Some b \<Rightarrow>
          (let contentType = header_get (hr_Header (rc_request c)) ''Content-Type'' in
           if list_ex (\<lambda>i. has_prefix (drop i contentType) ''application/json'') [0..<length contentType + 1] then decode_json b
           else Inl (ENew (''unsupported content type: '' @ contentType))))"

section \<open>Which paths a pattern matches\<close>

definition pattern_parts :: "string \<Rightarrow> string list" where
  "pattern_parts s = split_on CHR ''/'' (trim_slashes s)"

definition param_names :: "string list \<Rightarrow> string list" where
  "param_names ps = map tl (filter (\<lambda>p. has_prefix p '':'') ps)"

text \<open>A pattern with values for its parameters.\<close>

definition fill :: "(string \<rightharpoonup> string) \<Rightarrow> string list \<Rightarrow> string list" where
  "fill m ps = map (\<lambda>p. if has_prefix p '':'' then the (m (tl p)) else p) ps"

lemma fill_upd: "n \<notin> set (param_names ps) \<Longrightarrow> fill (m(n := v)) ps = fill m ps"
  by (auto simp: fill_def param_names_def)

lemma agree_upd:
  assumes "n \<notin> dom p"
  shows "(\<forall>k \<in> dom (p(n \<mapsto> v)). m k = (p(n \<mapsto> v)) k) \<longleftrightarrow> m n = Some v \<and> (\<forall>k \<in> dom p. m k = p k)"
proof -
  have "(p(n \<mapsto> v)) k = p k" if "k \<in> dom p" for k using assms that by auto
  then show ?thesis by (simp del: fun_upd_apply) simp
qed

lemma match_parts_iff:
  "distinct (param_names ps) \<Longrightarrow> set (param_names ps) \<inter> dom m0 = {} \<Longrightarrow>
     match_parts ps vs m0 = Some m \<longleftrightarrow> vs = fill m ps \<and> dom m = dom m0 \<union> set (param_names ps) \<and> (\<forall>k \<in> dom m0. m k = m0 k)"
proof (induction ps vs m0 arbitrary: m rule: match_parts.induct)
  case (1 params)
  show ?case by (auto simp: fill_def param_names_def intro!: map_le_antisym simp: map_le_def)
next
  case (2 part parts v vs params)
  show ?case
  proof (cases "has_prefix part '':''")
    case True
    let ?n = "tl part"
    have n: "param_names (part # parts) = ?n # param_names parts" "fill m (part # parts) = the (m ?n) # fill m parts"
      using True by (simp_all add: param_names_def fill_def)
    have d: "distinct (param_names parts)" "set (param_names parts) \<inter> dom (params(?n \<mapsto> v)) = {}" "?n \<notin> dom params"
      using 2(3,4) n(1) by auto
    have "match_parts (part # parts) (v # vs) params = Some m \<longleftrightarrow> match_parts parts vs (params(?n \<mapsto> v)) = Some m" using True by simp
    also have "\<dots> \<longleftrightarrow> vs = fill m parts \<and> dom m = insert ?n (dom params) \<union> set (param_names parts) \<and> m ?n = Some v \<and> (\<forall>k \<in> dom params. m k = params k)"
    proof -
      have "(\<forall>k \<in> dom (params(?n \<mapsto> v)). m k = (params(?n \<mapsto> v)) k) \<longleftrightarrow> m ?n = Some v \<and> (\<forall>k \<in> dom params. m k = params k)"
        by (rule agree_upd [OF d(3)])
      moreover have "dom (params(?n \<mapsto> v)) = insert ?n (dom params)" by simp
      ultimately show ?thesis using 2(1) [OF True d(1,2), of m] by (simp only:)
    qed
    also have "\<dots> \<longleftrightarrow> v # vs = fill m (part # parts) \<and> dom m = dom params \<union> set (param_names (part # parts)) \<and> (\<forall>k \<in> dom params. m k = params k)"
      using n by (cases "m ?n") auto
    finally show ?thesis .
  next
    case False
    then show ?thesis using 2(2) [OF False] 2(3,4) by (auto simp: param_names_def fill_def)
  qed
qed (auto simp: fill_def)

lemma match_parts_length: "match_parts ps vs m0 = Some m \<Longrightarrow> length vs = length ps"
  by (induction ps vs m0 rule: match_parts.induct) (auto split: if_splits)

text \<open>
  A pattern whose parameters have different names matches a path exactly when the path's segments are
  the pattern's with values in place of the parameters, and the parameters it gives are these values and no others.
  Slashes at the ends do not count.
\<close>

lemma route_match_iff:
  assumes "distinct (param_names (pattern_parts pattern))"
  shows "matchRoute pattern path = Some m \<longleftrightarrow>
    pattern_parts path = fill m (pattern_parts pattern) \<and> dom m = set (param_names (pattern_parts pattern))"
proof -
  have "matchRoute pattern path = Some m \<longleftrightarrow> match_parts (pattern_parts pattern) (pattern_parts path) Map.empty = Some m"
    using match_parts_length [of "pattern_parts pattern" "pattern_parts path" Map.empty m]
    by (simp add: matchRoute_def pattern_parts_def Let_def) metis
  then show ?thesis using match_parts_iff [OF assms, of Map.empty "pattern_parts path" m] by simp
qed

text \<open>The root path matches a pattern of one parameter, with an empty value.\<close>

lemma root_matches_parameter: "matchRoute ''/:id'' ''/'' = Some [''id'' \<mapsto> []]"
  by (simp add: matchRoute_def trim_slashes_def trim_right_char_def)

section \<open>Which route serves a request\<close>

definition serves :: "http_request \<Rightarrow> ('m, 'h) route \<Rightarrow> bool" where
  "serves req rt \<longleftrightarrow> rt_method rt = hr_Method req \<and> matchRoute (rt_pattern rt) (hr_Path req) \<noteq> None"

lemma ServeHTTP_first:
  "ServeHTTP R w req = (case find (serves req) (rg_routes R) of
      None \<Rightarrow> http_Error ''404 page not found'' 404 w
    | Some rt \<Rightarrow> run_route rt (newContext w req (the (matchRoute (rt_pattern rt) (hr_Path req)))))"
proof -
  have "serve_routes rts w req = (case find (serves req) rts of
      None \<Rightarrow> http_Error ''404 page not found'' 404 w
    | Some rt \<Rightarrow> run_route rt (newContext w req (the (matchRoute (rt_pattern rt) (hr_Path req)))))" for rts
    by (induction rts) (auto simp: serves_def split: option.splits)
  then show ?thesis by (simp add: ServeHTTP_def)
qed

section \<open>Groups\<close>

definition slice_ok :: "'m arrays \<Rightarrow> slice \<Rightarrow> bool" where
  "slice_ok A s \<longleftrightarrow> sl_length s \<le> length (ar_heap A (sl_array s)) \<and> sl_array s < ar_next A"

lemma length_overwrite: "i \<le> length a \<Longrightarrow> length a \<le> length (overwrite i xs a)"
  by (simp add: overwrite_def)

lemma slice_append_view:
  assumes "slice_ok A s" and "slice_append grow s xs A = (s', A')"
  shows "slice_view A' s' = slice_view A s @ xs" "slice_ok A' s'"
  using assms by (auto simp: slice_append_def slice_view_def slice_ok_def overwrite_def Let_def split: if_splits)

text \<open>
  What an append does to another slice: nothing, unless it lies in the same array, which has room, and is longer.
\<close>

lemma slice_append_other:
  assumes "slice_ok A s" and "slice_ok A t" and "slice_append grow s xs A = (s', A')"
  shows "slice_ok A' t" "sl_array t \<noteq> sl_array s \<or> sl_length t \<le> sl_length s \<or> sl_cap s < sl_length s + length xs \<Longrightarrow> slice_view A' t = slice_view A t"
  using assms length_overwrite [of "sl_length s" "ar_heap A (sl_array s)" xs]
  by (auto simp: slice_append_def slice_view_def slice_ok_def overwrite_def Let_def min_def split: if_splits)

text \<open>The routes added to a new group, before anything else happens to its parent's middleware.\<close>

lemma group_route:
  assumes "slice_ok (rg_arrays R) (ro_middleware r)" and "router_Group grow r prefix ms R = (g, R1)"
  shows "\<exists>opt. rg_routes (addRoute nc g method path h rms R1) = rg_routes R
      @ [\<lparr>rt_method = method, rt_pattern = ro_prefix r @ prefix @ path, rt_handler = h,
          rt_middleware = slice_view (rg_arrays R) (ro_middleware r) @ ms @ rms\<rparr>] @ opt
    \<and> list_all (\<lambda>x. rt_method x = ''OPTIONS'') opt"
proof -
  obtain s A where a: "slice_append grow (ro_middleware r) ms (rg_arrays R) = (s, A)" by force
  have "g = \<lparr>ro_middleware = s, ro_prefix = ro_prefix r @ prefix\<rparr>" "R1 = R\<lparr>rg_arrays := A\<rparr>" using assms(2) a by (simp_all add: router_Group_def)
  then show ?thesis using slice_append_view(1) [OF assms(1) a] by (auto simp: addRoute_def ensureOptionsRoute_def Let_def)
qed

text \<open>
  Two groups of one router: when its slice has room, as after three calls of \<^verbatim>\<open>Use\<close> with arrays that double, the second
  group writes its middleware over that of the first, and the routes of the first get it.
\<close>

definition doubling :: "nat \<Rightarrow> nat \<Rightarrow> nat" where
  "doubling c n = max n (2 * c)"

definition two_groups :: "(string, string) routing" where
  "two_groups =
     (let (r, R) = NewRouter; (r, R) = router_Use doubling r [''log''] R; (r, R) = router_Use doubling r [''metrics''] R;
          (r, R) = router_Use doubling r [''recover''] R;
          (admin, R) = router_Group doubling r ''/admin'' [''require-admin''] R;
          (pub, R) = router_Group doubling r ''/public'' [''anonymous''] R in
      addRoute ''204'' admin ''DELETE'' ''/users'' ''delete-users'' [] R)"

lemma sibling_group_overwrites:
  "rt_middleware (hd (rg_routes two_groups)) = [''log'', ''metrics'', ''recover'', ''anonymous'']
    \<and> rt_pattern (hd (rg_routes two_groups)) = ''/admin/users''"
  by code_simp

section \<open>Errors of handlers\<close>

definition failing :: "err \<Rightarrow> rhandler" where
  "failing e c = (Some e, c)"

definition bare_route :: "rmiddleware list \<Rightarrow> rhandler \<Rightarrow> (rmiddleware, rhandler) route" where
  "bare_route ms h = \<lparr>rt_method = ''GET'', rt_pattern = ''/'', rt_handler = h, rt_middleware = ms\<rparr>"

text \<open>The answer to a handler that fails and writes nothing.\<close>

lemma error_answer:
  "client_view decode (run_route (bare_route [] (failing e)) (newContext (rw_wire (fresh_writer (\<lambda>_. []))) req params))
    = (500, Some (error_text e @ [CHR 0x0A]))"
proof -
  have n: "header_name ''Content-Type'' = ''Content-Type''" "header_name ''X-Content-Type-Options'' = ''X-Content-Type-Options''" by code_simp+
  show ?thesis
    by (simp add: run_route_def bare_route_def failing_def newContext_def wire_of_def fresh_writer_def http_Error_def wire_Write_def
        wire_WriteHeader_def Let_def noBodyStatus_def client_view_def wire_finish_def header_get_def header_set_def n encoding_names)
qed

text \<open>
  C34. The error of a handler is lost in the compression middleware: a handler that fails without writing is answered with
  500 and the text of its error by the router, and with 200 and an empty body when the middleware compresses
  for the request, because its \<^verbatim>\<open>Close\<close> writes the header before the router sees the error.
\<close>

theorem compression_hides_error:
  assumes "\<And>e ps. decode e (encode e ps) = Some (concat ps)" and "- 2 \<le> zc_GzipLevel cfg" and "zc_GzipLevel cfg \<le> 9"
    and "\<not> compression_skipped re mt (compression_normalizeConfig cfg) (newContext w req params)"
    and "negotiateEncoding pf (header_get (hr_Header req) ''Accept-Encoding'') (compression_normalizeConfig cfg) \<noteq> []"
    and "w = rw_wire (fresh_writer (\<lambda>_. []))"
  shows "client_view decode (run_route (bare_route [compression_Middleware re mt pf encode cfg] (failing e)) (newContext w req params)) = (200, Some [])
    \<and> client_view decode (run_route (bare_route [] (failing e)) (newContext w req params)) = (500, Some (error_text e @ [CHR 0x0A]))"
proof -
  let ?mw = "compression_Middleware re mt pf encode cfg" and ?c = "newContext w req params"
  have resp: "rc_response ?c = PlainWriter (fresh_writer (\<lambda>_. []))" using assms(6) by (simp add: newContext_def fresh_writer_def)
  have f: "failing e = ops_handler [] (Some e)" by (simp add: fun_eq_iff failing_def ops_handler_def writer_ops_def)
  have p: "client_view decode (wire_of (writer_ops [] (PlainWriter (fresh_writer (\<lambda>_. []))))) = (200, Some [])"
    by (simp add: client_view_def wire_of_def fresh_writer_def wire_finish_def wire_WriteHeader_def header_get_def writer_ops_def)
  have rq: "rc_request ?c = req" by (simp add: newContext_def)
  obtain x where m: "?mw (failing e) ?c = (Some e, ?c\<lparr>rc_response := x\<rparr>)" "writer_Written x" "client_view decode (wire_of x) = (200, Some [])"
    using Middleware_compresses [where encode = encode and decode = decode and ops = "[]" and er = "Some e" and pf = pf,
        OF assms(1-3) _ resp _ assms(4) refl] assms(5) rq p resp unfolding f by (auto simp: header_get_def)
  have "client_view decode (run_route (bare_route [?mw] (failing e)) ?c) = (200, Some [])"
    using m by (simp add: run_route_def bare_route_def)
  then show ?thesis using error_answer [of decode e req params] assms(6) by simp
qed

theorem compression_hides_error_witness:
  "client_view mark_decode (run_route (bare_route [zip_Middleware] (failing (ENew ''boom'')))
      (newContext (rw_wire (fresh_writer (\<lambda>_. []))) (rc_request (zip_request ''gzip'')) Map.empty)) = (200, Some [])
   \<and> client_view mark_decode (run_route (bare_route [] (failing (ENew ''boom'')))
      (newContext (rw_wire (fresh_writer (\<lambda>_. []))) (rc_request (zip_request ''gzip'')) Map.empty)) = (500, Some (''boom'' @ [CHR 0x0A]))"
proof -
  have d: "mark_decode e (mark_encode e ps) = Some (concat ps)" for e ps by (simp add: mark_decode_def mark_encode_def)
  have l: "- 2 \<le> zc_GzipLevel compression_DefaultConfig" "zc_GzipLevel compression_DefaultConfig \<le> 9" by (simp_all add: compression_DefaultConfig_def)
  have s: "\<not> compression_skipped no_regex (\<lambda>_. []) (compression_normalizeConfig compression_DefaultConfig)
      (newContext (rw_wire (fresh_writer (\<lambda>_. []))) (rc_request (zip_request ''gzip'')) Map.empty)" by code_simp
  have n: "negotiateEncoding one_decimal (header_get (hr_Header (rc_request (zip_request ''gzip''))) ''Accept-Encoding'')
      (compression_normalizeConfig compression_DefaultConfig) \<noteq> []" by code_simp
  show ?thesis using compression_hides_error [where decode = mark_decode and encode = mark_encode and e = "ENew ''boom''", OF d l s n refl]
    by (simp add: zip_Middleware_def)
qed

end
