(* ===== verification/AuditTrail.thy ===== *)
theory AuditTrail
  imports Http "HOL-Library.Word"
begin

text \<open>
  \<^verbatim>\<open>pkg/audit\<close>: audit records chained by their digests, and the redaction of settings.  A chain that verifies
  is fixed by its last digest, as far as the hash has no collisions, but not its end; a redacted value never
  shows what the mask covers.  The JSON encoding and the hash are parameters.
\<close>

section \<open>Records\<close>

record 'p audit_record =
  au_StreamID :: string
  au_Sequence :: "64 word"
  au_Class :: string
  au_Requirement :: string
  au_Action :: string
  au_Actor :: string
  au_TenantID :: string
  au_OccurredAt :: gotime
  au_Payload :: 'p
  au_PrevDigest :: string
  au_Digest :: string

text \<open>A record is a pointer; \<open>None\<close> is nil.\<close>

definition audit_Validate :: "'p audit_record option \<Rightarrow> err option" where
  "audit_Validate rec =
     (case rec of
        None \<Rightarrow> Some (ENew ''audit record is nil'')
      | Some r \<Rightarrow>
          (if au_StreamID r = [] then Some (ENew ''audit stream_id is required'')
           else if au_Sequence r = 0 then Some (ENew ''audit sequence must be > 0'')
           else if au_Action r = [] then Some (ENew ''audit action is required'')
           else if au_OccurredAt r = 0 then Some (ENew ''audit occurred_at is required'')
           else if au_Class r = [] then Some (ENew ''audit class is required'')
           else if au_Requirement r = [] then Some (ENew ''audit requirement is required'')
           else None))"

text \<open>\<open>mj\<close> is \<^verbatim>\<open>json.Marshal\<close>, \<open>sha\<close> the hash.\<close>

definition CanonicalDigest :: "('p audit_record \<Rightarrow> string result) \<Rightarrow> (string \<Rightarrow> string) \<Rightarrow> 'p audit_record \<Rightarrow> string result" where
  "CanonicalDigest mj sha r =
     (case audit_Validate (Some r) of
        Some e \<Rightarrow> Inl e
      | None \<Rightarrow>
          (case mj (r\<lparr>au_Digest := []\<rparr>) of
             Inl e \<Rightarrow> Inl (EWrap ''marshal audit record: '' e [])
           | Inr payload \<Rightarrow> Inr (hex (sha payload))))"

definition audit_Seal :: "('p audit_record \<Rightarrow> string result) \<Rightarrow> (string \<Rightarrow> string) \<Rightarrow> 'p audit_record \<Rightarrow> err option \<times> 'p audit_record" where
  "audit_Seal mj sha r = (case CanonicalDigest mj sha r of Inl e \<Rightarrow> (Some e, r) | Inr d \<Rightarrow> (None, r\<lparr>au_Digest := d\<rparr>))"

section \<open>The writer\<close>

text \<open>The sink is a function on its own state; a writer without one is not initialised.\<close>

definition audit_NewWriter :: "'k option \<Rightarrow> 'k result" where
  "audit_NewWriter sink = (case sink of None \<Rightarrow> Inl (ENew ''audit sink is required'') | Some k \<Rightarrow> Inr k)"

definition audit_Write ::
  "('p audit_record \<Rightarrow> string result) \<Rightarrow> (string \<Rightarrow> string) \<Rightarrow> ('p audit_record \<Rightarrow> 's \<Rightarrow> err option \<times> 's) option
     \<Rightarrow> 'p audit_record option \<Rightarrow> 's \<Rightarrow> err option \<times> 's" where
  "audit_Write mj sha writer rec s =
     (case writer of
        None \<Rightarrow> (Some (ENew ''audit writer is not initialized''), s)
      | Some sink \<Rightarrow>
          (case rec of
             None \<Rightarrow> (Some (ENew ''audit record is required''), s)
           | Some r \<Rightarrow> (case audit_Seal mj sha r of (Some e, _) \<Rightarrow> (Some e, s) | (None, r') \<Rightarrow> sink r' s)))"

section \<open>Verification\<close>

fun verify_from ::
  "('p audit_record \<Rightarrow> string result) \<Rightarrow> (string \<Rightarrow> string) \<Rightarrow> (string \<Rightarrow> 64 word) \<Rightarrow> (string \<Rightarrow> string)
     \<Rightarrow> 'p audit_record option list \<Rightarrow> err option" where
  "verify_from mj sha perStream prevDigest [] = None"
| "verify_from mj sha perStream prevDigest (rec # recs) =
     (case rec of
        None \<Rightarrow> audit_Validate rec
      | Some r \<Rightarrow>
          (if audit_Validate rec \<noteq> None then audit_Validate rec
           else let expectedSeq = perStream (au_StreamID r) + 1 in
             if au_Sequence r \<noteq> expectedSeq
             then Some (ENew (''audit sequence mismatch for stream '' @ au_StreamID r @ '': got '' @ show_nat (unat (au_Sequence r)) @ '' want '' @ show_nat (unat expectedSeq)))
             else if au_PrevDigest r \<noteq> prevDigest (au_StreamID r)
             then Some (ENew (''audit prev_digest mismatch for stream '' @ au_StreamID r))
             else case CanonicalDigest mj sha r of
                 Inl e \<Rightarrow> Some e
               | Inr digest \<Rightarrow>
                   (if au_Digest r \<noteq> digest
                    then Some (ENew (''audit digest mismatch for stream '' @ au_StreamID r @ '' sequence '' @ show_nat (unat (au_Sequence r))))
                    else verify_from mj sha (perStream(au_StreamID r := au_Sequence r)) (prevDigest(au_StreamID r := au_Digest r)) recs)))"

definition VerifyChain :: "('p audit_record \<Rightarrow> string result) \<Rightarrow> (string \<Rightarrow> string) \<Rightarrow> 'p audit_record option list \<Rightarrow> err option" where
  "VerifyChain mj sha records = verify_from mj sha (\<lambda>_. 0) (\<lambda>_. []) records"

section \<open>One stream\<close>

fun linked :: "('p audit_record \<Rightarrow> string result) \<Rightarrow> (string \<Rightarrow> string) \<Rightarrow> 64 word \<Rightarrow> string \<Rightarrow> 'p audit_record list \<Rightarrow> bool" where
  "linked mj sha n prev [] \<longleftrightarrow> True"
| "linked mj sha n prev (r # rs) \<longleftrightarrow>
     au_Sequence r = n + 1 \<and> au_PrevDigest r = prev \<and> CanonicalDigest mj sha r = Inr (au_Digest r) \<and> linked mj sha (au_Sequence r) (au_Digest r) rs"

text \<open>Records verify exactly when each stream is linked, however the streams are interleaved.\<close>

lemma CanonicalDigest_valid: "CanonicalDigest mj sha r = Inr d \<Longrightarrow> audit_Validate (Some r) = None"
  by (simp add: CanonicalDigest_def split: option.splits)

lemma verify_linked:
  "verify_from mj sha ps pd (map Some rs) = None
    \<longleftrightarrow> (\<forall>s. linked mj sha (ps s) (pd s) (filter (\<lambda>r. au_StreamID r = s) rs))"
proof (induction rs arbitrary: ps pd)
  case (Cons r rs)
  let ?s = "au_StreamID r"
  let ?ok = "au_Sequence r = ps ?s + 1 \<and> au_PrevDigest r = pd ?s \<and> CanonicalDigest mj sha r = Inr (au_Digest r)"
  have "verify_from mj sha ps pd (map Some (r # rs)) = None
      \<longleftrightarrow> ?ok \<and> verify_from mj sha (ps(?s := au_Sequence r)) (pd(?s := au_Digest r)) (map Some rs) = None"
    using CanonicalDigest_valid [of mj sha r] by (auto simp: Let_def split: sum.splits)
  also have "\<dots> \<longleftrightarrow> ?ok \<and> (\<forall>s. linked mj sha ((ps(?s := au_Sequence r)) s) ((pd(?s := au_Digest r)) s) (filter (\<lambda>r. au_StreamID r = s) rs))"
    by (simp only: Cons.IH)
  also have "\<dots> \<longleftrightarrow> (\<forall>s. linked mj sha (ps s) (pd s) (filter (\<lambda>r. au_StreamID r = s) (r # rs)))"
    by (auto split: if_splits)
  finally show ?case .
qed simp

definition last_digest :: "string \<Rightarrow> 'p audit_record list \<Rightarrow> string" where
  "last_digest d rs = (if rs = [] then d else au_Digest (last rs))"

definition last_seq :: "64 word \<Rightarrow> 'p audit_record list \<Rightarrow> 64 word" where
  "last_seq n rs = (if rs = [] then n else au_Sequence (last rs))"

lemma linked_snoc:
  "linked mj sha n d (rs @ [r]) \<longleftrightarrow> linked mj sha n d rs
    \<and> au_Sequence r = last_seq n rs + 1 \<and> au_PrevDigest r = last_digest d rs \<and> CanonicalDigest mj sha r = Inr (au_Digest r)"
  by (induction rs arbitrary: n d) (auto simp: last_digest_def last_seq_def)

text \<open>The text a digest is made of.\<close>

definition sealed_text :: "('p audit_record \<Rightarrow> string result) \<Rightarrow> 'p audit_record \<Rightarrow> string" where
  "sealed_text mj r = (case mj (r\<lparr>au_Digest := []\<rparr>) of Inr x \<Rightarrow> x | Inl _ \<Rightarrow> [])"

lemma digest_text: "CanonicalDigest mj sha r = Inr d \<Longrightarrow> mj (r\<lparr>au_Digest := []\<rparr>) = Inr (sealed_text mj r) \<and> d = hex (sha (sealed_text mj r))"
  by (auto simp: CanonicalDigest_def sealed_text_def split: option.splits sum.splits)

text \<open>\<^verbatim>\<open>hex.EncodeToString\<close> loses nothing.\<close>

lemma hex_lower_byte: "d < 16 \<Longrightarrow> byte (hex_lower d) = (if d < 10 then 48 + d else 87 + d)"
  by (simp add: hex_lower_def)

lemma hex_lower_inj:
  assumes "a < 16" and "b < 16" and "hex_lower a = hex_lower b"
  shows "a = b"
proof -
  have "(if a < 10 then 48 + a else 87 + a) = (if b < 10 then 48 + b else 87 + b)" using assms by (metis hex_lower_byte)
  then show ?thesis using assms(1,2) by (auto split: if_splits)
qed

lemma hex_inj: "hex s = hex t \<Longrightarrow> s = t"
proof (induction s arbitrary: t)
  case (Cons c s)
  then obtain d u where t: "t = d # u" by (cases t) (auto simp: hex_def)
  have "hex_lower (byte c div 16) = hex_lower (byte d div 16)" "hex_lower (byte c mod 16) = hex_lower (byte d mod 16)" "hex s = hex u"
    using Cons.prems t by (auto simp: hex_def)
  then have "byte c div 16 = byte d div 16" "byte c mod 16 = byte d mod 16" "s = u"
    using Cons.IH by (auto intro: hex_lower_inj simp: less_mult_imp_div_less)
  then have "byte c = byte d" by (metis div_mult_mod_eq)
  then show ?case using t \<open>s = u\<close> by simp
qed (simp add: hex_def)

text \<open>What is assumed of the hash and the encoding, on the records of two chains.\<close>

definition no_collision :: "('p audit_record \<Rightarrow> string result) \<Rightarrow> (string \<Rightarrow> string) \<Rightarrow> 'p audit_record list \<Rightarrow> bool" where
  "no_collision mj sha rs \<longleftrightarrow>
     list_all (\<lambda>a. sha (sealed_text mj a) \<noteq> [] \<and> list_all (\<lambda>b.
       (if sha (sealed_text mj a) = sha (sealed_text mj b) then sealed_text mj a = sealed_text mj b else True)
       \<and> (if sealed_text mj a = sealed_text mj b then au_PrevDigest a = au_PrevDigest b else True)) rs) rs"

lemma no_collisionD:
  assumes "no_collision mj sha rs" and "a \<in> set rs" and "b \<in> set rs"
  shows "sha (sealed_text mj a) = sha (sealed_text mj b) \<Longrightarrow> sealed_text mj a = sealed_text mj b"
    "sealed_text mj a = sealed_text mj b \<Longrightarrow> au_PrevDigest a = au_PrevDigest b" "sha (sealed_text mj a) \<noteq> []"
  using assms unfolding no_collision_def list_all_iff by (metis (full_types))+

lemma chains_equal:
  assumes "no_collision mj sha all"
  shows "set xs \<subseteq> set all \<Longrightarrow> set ys \<subseteq> set all \<Longrightarrow> linked mj sha 0 [] xs \<Longrightarrow> linked mj sha 0 [] ys
    \<Longrightarrow> last_digest [] xs = last_digest [] ys \<Longrightarrow> map (sealed_text mj) xs = map (sealed_text mj) ys"
proof (induction xs arbitrary: ys rule: rev_induct)
  case Nil
  show ?case
  proof (cases ys rule: rev_cases)
    case (snoc zs z)
    then have "au_Digest z = hex (sha (sealed_text mj z))" "z \<in> set all"
      using Nil.prems(2,4) digest_text [of mj sha z] by (auto simp: linked_snoc)
    then have "au_Digest z \<noteq> []" using no_collisionD(3) [OF assms, of z z] by (auto simp: hex_def)
    then show ?thesis using Nil.prems(5) snoc by (simp add: last_digest_def)
  qed simp
next
  case (snoc x xs)
  have x: "au_Digest x = hex (sha (sealed_text mj x))" "x \<in> set all" "au_PrevDigest x = last_digest [] xs" "linked mj sha 0 [] xs" "set xs \<subseteq> set all"
    using snoc.prems(1,3) digest_text [of mj sha x] by (auto simp: linked_snoc)
  have "au_Digest x \<noteq> []" using x(1) no_collisionD(3) [OF assms x(2,2)] by (auto simp: hex_def)
  then obtain zs y where ys: "ys = zs @ [y]" using snoc.prems(5) by (cases ys rule: rev_cases) (auto simp: last_digest_def)
  have y: "au_Digest y = hex (sha (sealed_text mj y))" "y \<in> set all" "au_PrevDigest y = last_digest [] zs" "linked mj sha 0 [] zs" "set zs \<subseteq> set all"
    using snoc.prems(2,4) digest_text [of mj sha y] ys by (auto simp: linked_snoc)
  have "hex (sha (sealed_text mj x)) = hex (sha (sealed_text mj y))" using snoc.prems(5) x(1) y(1) ys by (simp add: last_digest_def)
  then have t: "sealed_text mj x = sealed_text mj y" using hex_inj no_collisionD(1) [OF assms x(2) y(2)] by blast
  then have "last_digest [] xs = last_digest [] zs" using no_collisionD(2) [OF assms x(2) y(2)] x(3) y(3) by simp
  then show ?case using snoc.IH [OF x(5) y(5) x(4) y(4)] t ys by simp
qed

definition stream_of :: "string \<Rightarrow> 'p audit_record list \<Rightarrow> 'p audit_record list" where
  "stream_of s rs = filter (\<lambda>r. au_StreamID r = s) rs"

text \<open>
  C35. Tampering shows: two sets of records that both verify and have the same last digest in a stream have the
  same records in it, as far as their encoding tells, in the same order.  The hash has no collisions on these
  records, and the encoding keeps the digest of the predecessor.
\<close>

theorem audit_tamper_evident:
  assumes "VerifyChain mj sha (map Some xs) = None" and "VerifyChain mj sha (map Some ys) = None"
    and "no_collision mj sha (xs @ ys)" and "last_digest [] (stream_of s xs) = last_digest [] (stream_of s ys)"
  shows "map (sealed_text mj) (stream_of s xs) = map (sealed_text mj) (stream_of s ys)"
proof -
  have l: "linked mj sha 0 [] (stream_of s xs)" "linked mj sha 0 [] (stream_of s ys)"
    using assms(1,2) by (simp_all add: VerifyChain_def verify_linked stream_of_def)
  show ?thesis by (rule chains_equal [OF assms(3) _ _ l assms(4)]) (auto simp: stream_of_def)
qed

definition plain_json :: "unit audit_record \<Rightarrow> string result" where
  "plain_json r = Inr (au_Action r @ au_PrevDigest r)"

definition drafted :: "64 word \<Rightarrow> string \<Rightarrow> string \<Rightarrow> unit audit_record" where
  "drafted n action prev = \<lparr>au_StreamID = ''s'', au_Sequence = n, au_Class = ''s'', au_Requirement = ''r'', au_Action = action,
     au_Actor = [], au_TenantID = [], au_OccurredAt = 1, au_Payload = (), au_PrevDigest = prev, au_Digest = []\<rparr>"

definition first_record :: "unit audit_record" where
  "first_record = snd (audit_Seal plain_json (\<lambda>t. t) (drafted 1 ''a'' []))"

definition second_record :: "unit audit_record" where
  "second_record = snd (audit_Seal plain_json (\<lambda>t. t) (drafted 2 ''b'' (au_Digest first_record)))"

theorem audit_tamper_evident_witness:
  "VerifyChain plain_json (\<lambda>t. t) [Some first_record, Some second_record] = None
    \<and> map (sealed_text plain_json) (stream_of ''s'' [first_record, second_record]) = map (sealed_text plain_json) (stream_of ''s'' [first_record, second_record])"
proof -
  have h: "hex ''a'' = ''61''" "hex ''b61'' = ''623631''" by code_simp+
  have r: "first_record = (drafted 1 ''a'' [])\<lparr>au_Digest := ''61''\<rparr>" "second_record = (drafted 2 ''b'' ''61'')\<lparr>au_Digest := ''623631''\<rparr>"
    by (simp_all add: second_record_def first_record_def audit_Seal_def CanonicalDigest_def audit_Validate_def plain_json_def drafted_def h)
  have v: "VerifyChain plain_json (\<lambda>t. t) (map Some [first_record, second_record]) = None"
    by (simp add: r VerifyChain_def CanonicalDigest_def audit_Validate_def plain_json_def drafted_def h)
  have n: "no_collision plain_json (\<lambda>t. t) ([first_record, second_record] @ [first_record, second_record])"
    by (simp add: r no_collision_def sealed_text_def plain_json_def drafted_def)
  show ?thesis using v audit_tamper_evident [OF v v n refl, of "''s''"] by simp
qed

text \<open>The end of a stream can be cut off: what is left verifies.\<close>

lemma truncation_unseen: "VerifyChain mj sha (map Some (xs @ ys)) = None \<Longrightarrow> VerifyChain mj sha (map Some xs) = None"
proof -
  have "linked mj sha n d (us @ vs) \<Longrightarrow> linked mj sha n d us" for n d us vs by (induction us arbitrary: n d) auto
  then show "VerifyChain mj sha (map Some (xs @ ys)) = None \<Longrightarrow> VerifyChain mj sha (map Some xs) = None"
    unfolding VerifyChain_def verify_linked filter_append by blast
qed

text \<open>Records that are numbered and linked before they are sealed verify.\<close>

fun seal_chain :: "('p audit_record \<Rightarrow> string result) \<Rightarrow> (string \<Rightarrow> string) \<Rightarrow> 64 word \<Rightarrow> string \<Rightarrow> 'p audit_record list \<Rightarrow> 'p audit_record list" where
  "seal_chain mj sha n d [] = []"
| "seal_chain mj sha n d (r # rs) =
     (let r' = snd (audit_Seal mj sha (r\<lparr>au_Sequence := n + 1, au_PrevDigest := d\<rparr>)) in r' # seal_chain mj sha (n + 1) (au_Digest r') rs)"

lemma Seal_digest:
  assumes "fst (audit_Seal mj sha r) = None"
  shows "CanonicalDigest mj sha (snd (audit_Seal mj sha r)) = Inr (au_Digest (snd (audit_Seal mj sha r)))"
    "au_Sequence (snd (audit_Seal mj sha r)) = au_Sequence r" "au_PrevDigest (snd (audit_Seal mj sha r)) = au_PrevDigest r"
proof -
  obtain d where d: "CanonicalDigest mj sha r = Inr d" using assms by (auto simp: audit_Seal_def split: sum.splits)
  then have "audit_Seal mj sha r = (None, r\<lparr>au_Digest := d\<rparr>)" by (simp add: audit_Seal_def)
  moreover have same: "r\<lparr>au_Digest := d, au_Digest := []\<rparr> = r\<lparr>au_Digest := []\<rparr>" by (cases r) simp
  have valid: "audit_Validate (Some (r\<lparr>au_Digest := d\<rparr>)) = audit_Validate (Some r)" by (simp add: audit_Validate_def)
  have "CanonicalDigest mj sha (r\<lparr>au_Digest := d\<rparr>) = Inr d" using d unfolding CanonicalDigest_def same valid .
  ultimately show "CanonicalDigest mj sha (snd (audit_Seal mj sha r)) = Inr (au_Digest (snd (audit_Seal mj sha r)))"
    "au_Sequence (snd (audit_Seal mj sha r)) = au_Sequence r" "au_PrevDigest (snd (audit_Seal mj sha r)) = au_PrevDigest r" by simp_all
qed

lemma seal_chain_linked:
  "(\<And>r m e. r \<in> set rs \<Longrightarrow> fst (audit_Seal mj sha (r\<lparr>au_Sequence := m, au_PrevDigest := e\<rparr>)) = None) \<Longrightarrow> linked mj sha n d (seal_chain mj sha n d rs)"
  by (induction rs arbitrary: n d) (simp_all add: Let_def Seal_digest)

section \<open>Redaction\<close>

text \<open>
  Settings and masks are trees; an object has one entry a key.  \<open>JOther\<close> is a value of another Go type, with whether it is
  the zero value of its type.
\<close>

datatype jval = JNull | JBool bool | JNum int | JStr string | JArr "jval list" | JObj "(string \<times> jval) list" | JOther bool

fun ShouldRedact :: "jval \<Rightarrow> bool" where
  "ShouldRedact JNull = False"
| "ShouldRedact (JStr v) = (\<not> blank v)"
| "ShouldRedact (JBool b) = b"
| "ShouldRedact (JNum n) = (n \<noteq> 0)"
| "ShouldRedact (JArr xs) = (xs \<noteq> [])"
| "ShouldRedact (JObj kvs) = (kvs \<noteq> [])"
| "ShouldRedact (JOther z) = (\<not> z)"

definition MaskedValue :: string where
  "MaskedValue = ''***''"

lemma entry_size: "(k, v) \<in> set kvs \<Longrightarrow> size v < Suc (size_list (size_prod (\<lambda>x. 0) size) kvs)"
  by (induction kvs) auto

function redactValue :: "jval \<Rightarrow> jval \<Rightarrow> jval" where
  "redactValue value msk =
     (case msk of
        JObj maskMap \<Rightarrow>
          (case value of
             JObj valueMap \<Rightarrow> JObj (map (\<lambda>(key, item). (key, case map_of maskMap key of None \<Rightarrow> item | Some childMask \<Rightarrow> redactValue item childMask)) valueMap)
           | _ \<Rightarrow> (if ShouldRedact msk then JStr MaskedValue else value))
      | _ \<Rightarrow> (if ShouldRedact msk then JStr MaskedValue else value))"
  by pat_completeness auto
termination
  by (relation "measure (\<lambda>(v, m). size v)") (auto intro: entry_size)

declare redactValue.simps [simp del]

definition RedactSettings :: "(string \<times> jval) list \<Rightarrow> (string \<times> jval) list \<Rightarrow> (string \<times> jval) list" where
  "RedactSettings settings msk =
     (if settings = [] \<or> msk = [] then settings
      else map (\<lambda>(key, value). (key, case map_of msk key of None \<Rightarrow> value | Some childMask \<Rightarrow> redactValue value childMask)) settings)"

text \<open>The values a path leads to, through objects.\<close>

fun value_at :: "string list \<Rightarrow> jval \<Rightarrow> jval option" where
  "value_at [] v = Some v"
| "value_at (k # ks) (JObj kvs) = (case map_of kvs k of None \<Rightarrow> None | Some v \<Rightarrow> value_at ks v)"
| "value_at (k # ks) _ = None"

fun is_object :: "jval \<Rightarrow> bool" where
  "is_object (JObj _) = True"
| "is_object _ = False"

lemma redact_object:
  "redactValue (JObj kvs) (JObj msk) = JObj (map (\<lambda>(k, v). (k, case map_of msk k of None \<Rightarrow> v | Some m \<Rightarrow> redactValue v m)) kvs)"
  by (simp add: redactValue.simps [of "JObj kvs"])

lemma redact_leaf: "\<not> is_object msk \<or> \<not> is_object v \<Longrightarrow> redactValue v msk = (if ShouldRedact msk then JStr MaskedValue else v)"
  by (cases v; cases msk) (simp_all add: redactValue.simps)

lemma map_of_map_entry: "map_of (map (\<lambda>(k, v). (k, f k v)) kvs) k = map_option (f k) (map_of kvs k)"
  by (induction kvs) auto

lemma redacted_at:
  "value_at ks msk = Some leaf \<Longrightarrow> \<not> is_object leaf \<Longrightarrow> ShouldRedact leaf \<Longrightarrow> value_at ks (redactValue v msk) \<in> {None, Some (JStr MaskedValue)}"
proof (induction ks arbitrary: v msk)
  case Nil
  then show ?case by (simp add: redact_leaf)
next
  case (Cons k ks)
  then obtain kvs m where m: "msk = JObj kvs" "map_of kvs k = Some m" "value_at ks m = Some leaf"
    by (cases msk) (auto split: option.splits)
  show ?case
  proof (cases v)
    case (JObj vs)
    then show ?thesis using m Cons.IH [OF m(3) Cons.prems(2,3)]
      by (cases "map_of vs k") (simp_all add: redact_object map_of_map_entry)
  qed (use m in \<open>simp_all add: redact_leaf\<close>)
qed

text \<open>
  Redaction hides: at a path where the mask has a value that asks for it, the redacted settings have nothing or the
  mask's replacement, whatever the settings are.
\<close>

lemma redaction_hides:
  assumes "value_at ks (JObj msk) = Some leaf" and "\<not> is_object leaf" and "ShouldRedact leaf"
  shows "value_at ks (JObj (RedactSettings settings msk)) \<in> {None, Some (JStr MaskedValue)}"
proof (cases "settings = [] \<or> msk = []")
  case True
  then show ?thesis using assms by (cases ks) (auto simp: RedactSettings_def)
next
  case False
  then have "JObj (RedactSettings settings msk) = redactValue (JObj settings) (JObj msk)" by (simp add: RedactSettings_def redact_object)
  then show ?thesis using redacted_at [OF assms, of "JObj settings"] by simp
qed

end
