(* ===== verification/Jwks.thy ===== *)
theory Jwks
  imports HttpSession Http
begin

text \<open>
  \<^verbatim>\<open>pkg/auth/jwks.go\<close> and \<^verbatim>\<open>pkg/auth/oauth2.go\<close>: the client that fetches and caches the public keys of an identity
  provider, with the addresses it may connect to, and the exchanges of the OAuth2 flows.  The theory shows that a returned
  key is one of the last response and not older than the cache allows, and that no connection is made to a private
  address.  The network, the resolver, \<^verbatim>\<open>net.ParseIP\<close> and \<^verbatim>\<open>url.Parse\<close> are parameters.
\<close>

section \<open>Base64 and keys\<close>

text \<open>\<^verbatim>\<open>base64.RawURLEncoding.DecodeString\<close>: line breaks are skipped, left-over bits ignored.\<close>

definition raw_index :: "char \<Rightarrow> nat option" where
  "raw_index c = map_of (List.zip b64_alphabet [0..<64]) c"

fun raw_quanta :: "string \<Rightarrow> string option" where
  "raw_quanta [] = Some []"
| "raw_quanta [a] = None"
| "raw_quanta [a, b] =
     (case (raw_index a, raw_index b) of (Some i, Some j) \<Rightarrow> Some [char_of (i * 4 + j div 16)] | _ \<Rightarrow> None)"
| "raw_quanta [a, b, c] =
     (case (raw_index a, raw_index b, raw_index c) of
        (Some i, Some j, Some k) \<Rightarrow> Some [char_of (i * 4 + j div 16), char_of (j mod 16 * 16 + k div 4)] | _ \<Rightarrow> None)"
| "raw_quanta (a # b # c # d # cs) =
     (case (raw_index a, raw_index b, raw_index c, raw_index d, raw_quanta cs) of
        (Some i, Some j, Some k, Some l, Some r) \<Rightarrow>
          Some ([char_of (i * 4 + j div 16), char_of (j mod 16 * 16 + k div 4), char_of (k mod 4 * 64 + l)] @ r)
      | _ \<Rightarrow> None)"

definition raw_url_decode :: "string \<Rightarrow> string option" where
  "raw_url_decode s = raw_quanta (filter (\<lambda>c. c \<noteq> CHR 0x0A \<and> c \<noteq> CHR 0x0D) s)"

record jwk =
  jw_Kid :: string
  jw_Kty :: string
  jw_Use :: string
  jw_Alg :: string
  jw_N :: string
  jw_E :: string

record rsa_key =
  rk_N :: nat
  rk_E :: int

text \<open>\<^verbatim>\<open>big.Int.SetBytes\<close>.\<close>

definition be_value :: "string \<Rightarrow> nat" where
  "be_value s = foldl (\<lambda>v c. 256 * v + byte c) 0 s"

text \<open>The message of the decoder is kept without the position it names.  The exponent goes through \<^verbatim>\<open>Int64\<close>, which keeps the low 64 bits.\<close>

definition parseJWK :: "jwk \<Rightarrow> rsa_key result" where
  "parseJWK j =
     (if jw_Kty j \<noteq> ''RSA'' then Inl (ENew (''unsupported key type: '' @ jw_Kty j))
      else case raw_url_decode (jw_N j) of
          None \<Rightarrow> Inl (EWrap ''failed to decode modulus: '' (ENew ''illegal base64 data'') [])
        | Some nBytes \<Rightarrow>
            (case raw_url_decode (jw_E j) of
               None \<Rightarrow> Inl (EWrap ''failed to decode exponent: '' (ENew ''illegal base64 data'') [])
             | Some eBytes \<Rightarrow> Inr \<lparr>rk_N = be_value nBytes, rk_E = i64 (int (be_value eBytes))\<rparr>))"

section \<open>Addresses\<close>

text \<open>An address is its bytes, four or sixteen; the four of an address mapped into sixteen count as such.\<close>

type_synonym ip = "nat list"

definition ip_To4 :: "ip \<Rightarrow> nat list option" where
  "ip_To4 a = (if length a = 4 then Some a
     else if length a = 16 \<and> take 12 a = replicate 10 0 @ [255, 255] then Some (drop 12 a) else None)"

definition ip_IsLoopback :: "ip \<Rightarrow> bool" where
  "ip_IsLoopback a = (case ip_To4 a of Some q \<Rightarrow> q ! 0 = 127 | None \<Rightarrow> a = replicate 15 0 @ [1])"

definition ip_IsPrivate :: "ip \<Rightarrow> bool" where
  "ip_IsPrivate a = (case ip_To4 a of
       Some q \<Rightarrow> q ! 0 = 10 \<or> (q ! 0 = 172 \<and> q ! 1 div 16 = 1) \<or> (q ! 0 = 192 \<and> q ! 1 = 168)
     | None \<Rightarrow> length a = 16 \<and> a ! 0 div 2 = 126)"

definition ip_IsLinkLocalUnicast :: "ip \<Rightarrow> bool" where
  "ip_IsLinkLocalUnicast a = (case ip_To4 a of
       Some q \<Rightarrow> q ! 0 = 169 \<and> q ! 1 = 254
     | None \<Rightarrow> length a = 16 \<and> a ! 0 = 254 \<and> a ! 1 div 64 = 2)"

definition ip_IsLinkLocalMulticast :: "ip \<Rightarrow> bool" where
  "ip_IsLinkLocalMulticast a = (case ip_To4 a of
       Some q \<Rightarrow> q ! 0 = 224 \<and> q ! 1 = 0 \<and> q ! 2 = 0
     | None \<Rightarrow> length a = 16 \<and> a ! 0 = 255 \<and> a ! 1 mod 16 = 2)"

definition ip_IsMulticast :: "ip \<Rightarrow> bool" where
  "ip_IsMulticast a = (case ip_To4 a of Some q \<Rightarrow> q ! 0 div 16 = 14 | None \<Rightarrow> length a = 16 \<and> a ! 0 = 255)"

definition ip_IsUnspecified :: "ip \<Rightarrow> bool" where
  "ip_IsUnspecified a = (case ip_To4 a of Some q \<Rightarrow> q = [0, 0, 0, 0] | None \<Rightarrow> a = replicate 16 0)"

definition isDisallowedIP :: "ip \<Rightarrow> bool" where
  "isDisallowedIP a \<longleftrightarrow> ip_IsLoopback a \<or> ip_IsPrivate a \<or> ip_IsLinkLocalUnicast a \<or> ip_IsLinkLocalMulticast a
     \<or> ip_IsMulticast a \<or> ip_IsUnspecified a"

definition trim_dot :: "string \<Rightarrow> string" where
  "trim_dot s = (if has_suffix s ''.'' then butlast s else s)"

definition normalizeHostname :: "string \<Rightarrow> string" where
  "normalizeHostname host = trim_dot (to_lower (trim_space host))"

definition isLocalHostname :: "string \<Rightarrow> bool" where
  "isLocalHostname host \<longleftrightarrow> (let n = normalizeHostname host in n = ''localhost'' \<or> has_suffix n ''.localhost'')"

text \<open>\<open>pip\<close> is \<^verbatim>\<open>net.ParseIP\<close>; \<open>up\<close> is \<^verbatim>\<open>url.Parse\<close>, as scheme, host and host name.\<close>

definition isPrivateHost :: "(string \<Rightarrow> ip option) \<Rightarrow> string \<Rightarrow> bool" where
  "isPrivateHost pip host = (case pip (trim_space host) of None \<Rightarrow> False | Some a \<Rightarrow> isDisallowedIP a)"

definition forbidden_host :: "string \<Rightarrow> err" where
  "forbidden_host host = ENew (''url host '' @ quoted host @ '' is not allowed: private or loopback addresses are forbidden'')"

definition validateHTTPURLWithOptions ::
  "(string \<Rightarrow> (string \<times> string \<times> string) result) \<Rightarrow> (string \<Rightarrow> ip option) \<Rightarrow> string \<Rightarrow> bool \<Rightarrow> err option" where
  "validateHTTPURLWithOptions up pip raw allowPrivateHosts =
     (case up raw of
        Inl e \<Rightarrow> Some e
      | Inr (scheme, host, hostname) \<Rightarrow>
          (if scheme \<noteq> ''http'' \<and> scheme \<noteq> ''https'' then Some (ENew ''url must use http or https'')
           else if host = [] then Some (ENew ''url host is required'')
           else if \<not> allowPrivateHosts \<and> isPrivateHost pip hostname then Some (forbidden_host hostname)
           else None))"

text \<open>\<open>lookup\<close> is the resolver.\<close>

definition resolveAllowedIPs :: "(string \<Rightarrow> ip option) \<Rightarrow> (string \<Rightarrow> ip list result) \<Rightarrow> string \<Rightarrow> ip list result" where
  "resolveAllowedIPs pip lookup host =
     (let h = normalizeHostname host in
      if isLocalHostname h then Inl (forbidden_host h)
      else case pip h of
          Some a \<Rightarrow> (if isDisallowedIP a then Inl (forbidden_host h) else Inr [a])
        | None \<Rightarrow>
            (case lookup h of
               Inl e \<Rightarrow> Inl (EWrap (''resolve jwks host '' @ quoted h @ '': '') e [])
             | Inr addrs \<Rightarrow>
                 (if addrs = [] then Inl (ENew (''resolve jwks host '' @ quoted h @ '': no addresses found''))
                  else if list_ex isDisallowedIP addrs then Inl (forbidden_host h)
                  else Inr addrs)))"

text \<open>
  The connection of the transport: \<open>shp\<close> is \<^verbatim>\<open>net.SplitHostPort\<close>, \<open>dial\<close> tells whether a connection to an address fails.  The result comes with
  what was dialled: a host given by name, when private hosts are allowed, or addresses.
\<close>

datatype dialled = DialHost string | DialAddr ip string

fun dial_each :: "(dialled \<Rightarrow> err option) \<Rightarrow> string \<Rightarrow> ip list \<Rightarrow> err list \<Rightarrow> err option \<times> dialled list" where
  "dial_each dial port [] errs = (Some (EJoin errs), [])"
| "dial_each dial port (a # as) errs =
     (case dial (DialAddr a port) of
        None \<Rightarrow> (None, [DialAddr a port])
      | Some e \<Rightarrow> (case dial_each dial port as (errs @ [e]) of (r, ds) \<Rightarrow> (r, DialAddr a port # ds)))"

definition jwks_DialContext ::
  "bool \<Rightarrow> (string \<Rightarrow> (string \<times> string) result) \<Rightarrow> (string \<Rightarrow> ip option) \<Rightarrow> (string \<Rightarrow> ip list result) \<Rightarrow> (dialled \<Rightarrow> err option)
     \<Rightarrow> string \<Rightarrow> err option \<times> dialled list" where
  "jwks_DialContext allowPrivateHosts shp pip lookup dial address =
     (if allowPrivateHosts then (dial (DialHost address), [DialHost address])
      else case shp address of
          Inl e \<Rightarrow> (Some e, [])
        | Inr (host, port) \<Rightarrow>
            (case resolveAllowedIPs pip lookup host of
               Inl e \<Rightarrow> (Some e, [])
             | Inr addrs \<Rightarrow> dial_each dial port addrs []))"

section \<open>The cache\<close>

record jwks_cache =
  jc_keys :: "string \<rightharpoonup> rsa_key"
  jc_expiresAt :: gotime
  jc_ttl :: duration

definition NewJWKSClient :: "duration \<Rightarrow> jwks_cache" where
  "NewJWKSClient ttl = \<lparr>jc_keys = Map.empty, jc_expiresAt = 0, jc_ttl = ttl\<rparr>"

definition jwks_get :: "gotime \<Rightarrow> string \<Rightarrow> jwks_cache \<Rightarrow> rsa_key option" where
  "jwks_get now kid c = (if now > jc_expiresAt c then None else jc_keys c kid)"

definition jwks_set :: "gotime \<Rightarrow> (string \<rightharpoonup> rsa_key) \<Rightarrow> jwks_cache \<Rightarrow> jwks_cache" where
  "jwks_set now keys c = c\<lparr>jc_keys := keys, jc_expiresAt := now + jc_ttl c\<rparr>"

text \<open>Later entries with the same identifier win; those that do not parse are skipped.\<close>

fun parse_keys :: "jwk list \<Rightarrow> (string \<rightharpoonup> rsa_key) \<Rightarrow> (string \<rightharpoonup> rsa_key)" where
  "parse_keys [] keys = keys"
| "parse_keys (j # js) keys = parse_keys js (case parseJWK j of Inl _ \<Rightarrow> keys | Inr k \<Rightarrow> keys(jw_Kid j \<mapsto> k))"

text \<open>What the request to the endpoint gives: no request, no response, or a status and the decoded body.\<close>

datatype jwks_fetch = NoRequest err | NoResponse err | Response int "jwk list result"

definition refreshJWKS :: "err option \<Rightarrow> jwks_fetch \<Rightarrow> gotime \<Rightarrow> jwks_cache \<Rightarrow> err option \<times> jwks_cache" where
  "refreshJWKS url_err fetch now c =
     (case url_err of
        Some e \<Rightarrow> (Some (EWrap ''invalid jwks url: '' e []), c)
      | None \<Rightarrow>
          (case fetch of
             NoRequest e \<Rightarrow> (Some (EWrap ''failed to create request: '' e []), c)
           | NoResponse e \<Rightarrow> (Some (EWrap ''failed to fetch JWKS: '' e []), c)
           | Response status body \<Rightarrow>
               (if status \<noteq> 200 then (Some (ENew (''JWKS endpoint returned status '' @ itoa status)), c)
                else case body of
                    Inl e \<Rightarrow> (Some (EWrap ''failed to decode JWKS response: '' e []), c)
                  | Inr js \<Rightarrow>
                      (if list_all (\<lambda>j. case parseJWK j of Inl _ \<Rightarrow> True | Inr _ \<Rightarrow> False) js
                       then (Some (ENew ''no valid keys found in JWKS response''), c)
                       else (None, jwks_set now (parse_keys js Map.empty) c)))))"

text \<open>The instants are those of the first look, of the update and of the second look.\<close>

record jwks_call =
  jl_kid :: string
  jl_t1 :: gotime
  jl_t2 :: gotime
  jl_t3 :: gotime
  jl_url :: "err option"
  jl_fetch :: jwks_fetch

definition GetKey :: "jwks_call \<Rightarrow> jwks_cache \<Rightarrow> rsa_key result \<times> jwks_cache" where
  "GetKey call c =
     (case jwks_get (jl_t1 call) (jl_kid call) c of
        Some k \<Rightarrow> (Inr k, c)
      | None \<Rightarrow>
          (case refreshJWKS (jl_url call) (jl_fetch call) (jl_t2 call) c of
             (Some e, c') \<Rightarrow> (Inl (EWrap ''failed to refresh JWKS: '' e []), c')
           | (None, c') \<Rightarrow>
               (case jwks_get (jl_t3 call) (jl_kid call) c' of
                  None \<Rightarrow> (Inl (ENew (''key not found: '' @ jl_kid call)), c')
                | Some k \<Rightarrow> (Inr k, c'))))"

section \<open>OAuth2\<close>

record oauth2_config =
  oa_AuthorizeURL :: string
  oa_TokenURL :: string
  oa_ClientID :: string
  oa_ClientSecret :: string
  oa_RedirectURL :: string
  oa_Audience :: string
  oa_Scopes :: "string list"

text \<open>\<open>order\<close> is the order in which the map of required fields is traversed.\<close>

definition oauth2_required :: "oauth2_config \<Rightarrow> (string \<times> string) list" where
  "oauth2_required cfg = [(''authorize_url'', oa_AuthorizeURL cfg), (''token_url'', oa_TokenURL cfg), (''client_id'', oa_ClientID cfg),
     (''redirect_url'', oa_RedirectURL cfg)]"

definition ValidateOAuth2Config ::
  "(string \<Rightarrow> (string \<times> string \<times> string) result) \<Rightarrow> (string \<Rightarrow> ip option) \<Rightarrow> (string \<times> string) list \<Rightarrow> oauth2_config \<Rightarrow> err option" where
  "ValidateOAuth2Config up pip order cfg =
     (let ok = (\<lambda>u. validateHTTPURLWithOptions up pip u False = None) in
      case find (\<lambda>(k, v). blank v) order of
        Some (k, v) \<Rightarrow> Some (ENew (''oauth2.'' @ k @ '' is required''))
      | None \<Rightarrow>
          (if oa_Scopes cfg = [] then Some (ENew ''oauth2.scopes must contain at least one scope'')
           else if \<not> ok (oa_AuthorizeURL cfg) then Some (ENew ''oauth2.authorize_url must be a valid absolute URL'')
           else if \<not> ok (oa_TokenURL cfg) then Some (ENew ''oauth2.token_url must be a valid absolute URL'')
           else if \<not> ok (oa_RedirectURL cfg) then Some (ENew ''oauth2.redirect_url must be a valid absolute URL'')
           else None))"

text \<open>The form values of the two exchanges; each key is set once.\<close>

definition client_values :: "oauth2_config \<Rightarrow> (string \<times> string) list" where
  "client_values cfg = [(''client_id'', oa_ClientID cfg)]
     @ (if blank (oa_Audience cfg) then [] else [(''audience'', oa_Audience cfg)])
     @ (if blank (oa_ClientSecret cfg) then [] else [(''client_secret'', oa_ClientSecret cfg)])"

definition authorization_code_form :: "oauth2_config \<Rightarrow> string \<Rightarrow> (string \<times> string) list" where
  "authorization_code_form cfg code =
     [(''grant_type'', ''authorization_code''), (''code'', code), (''redirect_uri'', oa_RedirectURL cfg)] @ client_values cfg"

definition refresh_token_form :: "oauth2_config \<Rightarrow> string \<Rightarrow> (string \<times> string) list" where
  "refresh_token_form cfg refreshToken = [(''grant_type'', ''refresh_token''), (''refresh_token'', refreshToken)] @ client_values cfg"

definition authorize_values :: "oauth2_config \<Rightarrow> string \<Rightarrow> (string \<times> string) list" where
  "authorize_values cfg state =
     [(''response_type'', ''code''), (''client_id'', oa_ClientID cfg), (''redirect_uri'', oa_RedirectURL cfg),
      (''scope'', join_with '' '' (oa_Scopes cfg)), (''state'', state)]
     @ (if blank (oa_Audience cfg) then [] else [(''audience'', oa_Audience cfg)])"

text \<open>
  \<^verbatim>\<open>url.Values\<close> is a map to lists of values.  \<open>parse\<close> is \<^verbatim>\<open>url.Parse\<close>, \<open>query\<close> the values of its query, \<open>print\<close> the text of the
  URL with another query.
\<close>

definition values_Set :: "string \<times> string \<Rightarrow> (string \<rightharpoonup> string list) \<Rightarrow> (string \<rightharpoonup> string list)" where
  "values_Set kv vs = vs(fst kv \<mapsto> [snd kv])"

definition BuildAuthorizeURL ::
  "(string \<Rightarrow> 'u result) \<Rightarrow> ('u \<Rightarrow> string \<rightharpoonup> string list) \<Rightarrow> ('u \<Rightarrow> (string \<rightharpoonup> string list) \<Rightarrow> string) \<Rightarrow> oauth2_config \<Rightarrow> string \<Rightarrow> string result" where
  "BuildAuthorizeURL parse query print cfg state =
     (case parse (oa_AuthorizeURL cfg) of
        Inl e \<Rightarrow> Inl e
      | Inr parsed \<Rightarrow> Inr (print parsed (fold values_Set (authorize_values cfg state) (query parsed))))"

record oauth2_token =
  ot_AccessToken :: string
  ot_RefreshToken :: string
  ot_ExpiresIn :: int
  ot_RefreshExpiresIn :: int
  ot_TokenType :: string
  ot_Scope :: string

text \<open>\<open>post\<close> is the request to the endpoint, with the text of its body; \<open>dec\<close> decodes it.\<close>

definition exchangeToken ::
  "(string \<Rightarrow> (string \<times> string \<times> string) result) \<Rightarrow> (string \<Rightarrow> ip option) \<Rightarrow> (string \<Rightarrow> (string \<times> string) list \<Rightarrow> (int \<times> string) result)
     \<Rightarrow> (string \<Rightarrow> oauth2_token result) \<Rightarrow> string \<Rightarrow> (string \<times> string) list \<Rightarrow> oauth2_token result" where
  "exchangeToken up pip post dec tokenURL form =
     (case validateHTTPURLWithOptions up pip tokenURL True of
        Some e \<Rightarrow> Inl e
      | None \<Rightarrow>
          (case post tokenURL form of
             Inl e \<Rightarrow> Inl e
           | Inr (status, body) \<Rightarrow>
               (if status < 200 \<or> status \<ge> 300
                then Inl (ENew (''token endpoint returned '' @ itoa status @ '': '' @ trim_space body))
                else case dec body of
                    Inl e \<Rightarrow> Inl e
                  | Inr token \<Rightarrow>
                      (if blank (ot_AccessToken token) then Inl (ENew ''token endpoint did not return access_token'') else Inr token))))"

definition ExchangeAuthorizationCode ::
  "(string \<Rightarrow> (string \<times> string \<times> string) result) \<Rightarrow> (string \<Rightarrow> ip option) \<Rightarrow> (string \<Rightarrow> (string \<times> string) list \<Rightarrow> (int \<times> string) result)
     \<Rightarrow> (string \<Rightarrow> oauth2_token result) \<Rightarrow> oauth2_config \<Rightarrow> string \<Rightarrow> oauth2_token result" where
  "ExchangeAuthorizationCode up pip post dec cfg code = exchangeToken up pip post dec (oa_TokenURL cfg) (authorization_code_form cfg code)"

definition ExchangeRefreshToken ::
  "(string \<Rightarrow> (string \<times> string \<times> string) result) \<Rightarrow> (string \<Rightarrow> ip option) \<Rightarrow> (string \<Rightarrow> (string \<times> string) list \<Rightarrow> (int \<times> string) result)
     \<Rightarrow> (string \<Rightarrow> oauth2_token result) \<Rightarrow> oauth2_config \<Rightarrow> string \<Rightarrow> oauth2_token result" where
  "ExchangeRefreshToken up pip post dec cfg refreshToken = exchangeToken up pip post dec (oa_TokenURL cfg) (refresh_token_form cfg refreshToken)"

text \<open>
  The authorize URL carries the parameters of the request, each with one value, and keeps those that the configured URL has under
  other names.
\<close>

lemma fold_values_Set: "distinct (map fst kvs) \<Longrightarrow> fold values_Set kvs vs k = (case map_of kvs k of Some v \<Rightarrow> Some [v] | None \<Rightarrow> vs k)"
proof (induction kvs arbitrary: vs)
  case (Cons kv kvs)
  then have "map_of kvs (fst kv) = None" by (simp add: map_of_eq_None_iff)
  then show ?case using Cons by (cases "map_of kvs k") (auto simp: values_Set_def)
qed simp

lemma authorize_query:
  assumes "parse (oa_AuthorizeURL cfg) = Inr parsed"
  shows "\<exists>q. BuildAuthorizeURL parse query print cfg state = Inr (print parsed q) \<and> q ''state'' = Some [state] \<and> q ''client_id'' = Some [oa_ClientID cfg]
    \<and> q ''redirect_uri'' = Some [oa_RedirectURL cfg] \<and> q ''response_type'' = Some [''code'']
    \<and> (\<forall>k. k \<notin> fst ` set (authorize_values cfg state) \<longrightarrow> q k = query parsed k)"
proof -
  let ?kvs = "authorize_values cfg state" let ?q = "fold values_Set ?kvs (query parsed)"
  have d: "distinct (map fst ?kvs)" by (simp add: authorize_values_def)
  have "?q ''state'' = Some [state]" "?q ''client_id'' = Some [oa_ClientID cfg]" "?q ''redirect_uri'' = Some [oa_RedirectURL cfg]" "?q ''response_type'' = Some [''code'']"
    unfolding fold_values_Set [OF d] by (simp_all add: authorize_values_def)
  moreover have "?q k = query parsed k" if "k \<notin> fst ` set ?kvs" for k
    using that unfolding fold_values_Set [OF d] by (simp add: map_of_eq_None_iff [THEN iffD2])
  moreover have "BuildAuthorizeURL parse query print cfg state = Inr (print parsed ?q)" using assms by (simp add: BuildAuthorizeURL_def)
  ultimately show ?thesis by blast
qed

text \<open>A token that is returned has an access token and came with a successful status.\<close>

lemma exchangeToken_ok:
  "exchangeToken up pip post dec u form = Inr t \<Longrightarrow> \<not> blank (ot_AccessToken t) \<and> (\<exists>st body. post u form = Inr (st, body) \<and> 200 \<le> st \<and> st < 300 \<and> dec body = Inr t)"
  by (auto simp: exchangeToken_def not_less split: option.splits sum.splits if_splits)

text \<open>
  The configuration refuses \<^verbatim>\<open>127.0.0.1\<close> but not \<^verbatim>\<open>localhost\<close>, which stands for it: the names are only looked at when
  connecting for keys.
\<close>

lemma localhost_accepted:
  assumes "up u = Inr (''http'', ''localhost'', ''localhost'')" and "pip ''localhost'' = None"
  shows "validateHTTPURLWithOptions up pip u False = None" "isLocalHostname ''localhost''"
proof -
  have t: "trim_space ''localhost'' = ''localhost''" by code_simp
  show "validateHTTPURLWithOptions up pip u False = None" using assms t by (simp add: validateHTTPURLWithOptions_def isPrivateHost_def)
  show "isLocalHostname ''localhost''" by code_simp
qed

section \<open>Whom the client connects to\<close>

lemma dial_each_addrs: "set (snd (dial_each dial port addrs errs)) \<subseteq> (\<lambda>a. DialAddr a port) ` set addrs"
proof (induction addrs arbitrary: errs)
  case (Cons a as)
  show ?case
  proof (cases "dial (DialAddr a port)")
    case (Some e)
    obtain r ds where d: "dial_each dial port as (errs @ [e]) = (r, ds)" by fastforce
    then have "set ds \<subseteq> (\<lambda>a. DialAddr a port) ` set as" using Cons.IH [of "errs @ [e]"] by simp
    then show ?thesis using Some d by auto
  qed simp
qed simp

lemma resolve_allowed: "resolveAllowedIPs pip lookup host = Inr addrs \<Longrightarrow> list_all (\<lambda>a. \<not> isDisallowedIP a) addrs"
  by (auto simp: resolveAllowedIPs_def Let_def list_all_iff list_ex_iff split: if_splits option.splits sum.splits)

fun dial_allowed :: "dialled \<Rightarrow> bool" where
  "dial_allowed (DialHost _) = False"
| "dial_allowed (DialAddr a port) = (\<not> isDisallowedIP a)"


text \<open>The addresses of four bytes that are refused, as ranges.\<close>

definition v4_number :: "nat list \<Rightarrow> nat" where
  "v4_number q = foldl (\<lambda>v b. 256 * v + b) 0 q"

definition in_range :: "nat \<Rightarrow> nat list \<Rightarrow> nat \<Rightarrow> bool" where
  "in_range n base bits \<longleftrightarrow> n div 2 ^ (32 - bits) = v4_number base div 2 ^ (32 - bits)"

lemma isDisallowedIP_v4:
  assumes "length q = 4" and "list_all (\<lambda>b. b < 256) q"
  shows "isDisallowedIP q \<longleftrightarrow> (let n = v4_number q in
     in_range n [127, 0, 0, 0] 8 \<or> in_range n [10, 0, 0, 0] 8 \<or> in_range n [172, 16, 0, 0] 12 \<or> in_range n [192, 168, 0, 0] 16
     \<or> in_range n [169, 254, 0, 0] 16 \<or> in_range n [224, 0, 0, 0] 4 \<or> n = 0)"
proof -
  obtain a b c d where q: "q = [a, b, c, d]" using assms(1) by (auto simp: length_Suc_conv numeral_eq_Suc)
  have l: "a < 256" "b < 256" "c < 256" "d < 256" using assms(2) q by simp_all
  define n where "n = v4_number q"
  have n: "n = 256 * (256 * (256 * a + b) + c) + d" by (simp add: n_def q v4_number_def)
  have d24: "n div 16777216 = a" using l n by simp
  have d16: "n div 65536 = 256 * a + b" using l n by simp
  have d20: "n div 1048576 = 16 * a + b div 16" using l n by simp
  have d28: "n div 268435456 = a div 16" using l n by simp
  have z: "n = 0 \<longleftrightarrow> a = 0 \<and> b = 0 \<and> c = 0 \<and> d = 0" using n by auto
  have r: "in_range n [127, 0, 0, 0] 8 \<longleftrightarrow> a = 127" "in_range n [10, 0, 0, 0] 8 \<longleftrightarrow> a = 10"
    "in_range n [224, 0, 0, 0] 4 \<longleftrightarrow> a div 16 = 14" by (simp_all add: in_range_def v4_number_def d24 d28)
  have e: "m * x + y = m * k + l \<longleftrightarrow> x = k \<and> y = l" if "y < m" and "l < m" for x y k l m :: nat
    using that by (metis div_mult_self4 div_less add.right_neutral add_left_cancel less_nat_zero_code)
  have r2: "in_range n [192, 168, 0, 0] 16 \<longleftrightarrow> a = 192 \<and> b = 168" "in_range n [169, 254, 0, 0] 16 \<longleftrightarrow> a = 169 \<and> b = 254"
    using e [OF l(2), of 168 a 192] e [OF l(2), of 254 a 169] by (simp_all add: in_range_def v4_number_def d16)
  have "b div 16 < 16" using l by simp
  then have r3: "in_range n [172, 16, 0, 0] 12 \<longleftrightarrow> a = 172 \<and> b div 16 = 1"
    using e [of "b div 16" 16 1 a 172] by (simp add: in_range_def v4_number_def d20)
  show ?thesis unfolding n_def [symmetric] Let_def r r2 r3 z
    by (auto simp: q isDisallowedIP_def ip_To4_def ip_IsLoopback_def ip_IsPrivate_def ip_IsLinkLocalUnicast_def ip_IsLinkLocalMulticast_def
        ip_IsMulticast_def ip_IsUnspecified_def)
qed

text \<open>Carrier-grade addresses and those that embed an address of four bytes otherwise are not refused.\<close>

lemma cgnat_allowed: "\<not> isDisallowedIP [100, 64, 0, 1]" "\<not> isDisallowedIP ([0, 100, 255, 155] @ replicate 8 0 @ [127, 0, 0, 1])"
  by code_simp+

section \<open>What the decoder reads\<close>

lemma raw_index_char: "raw_index (b64_char n) = Some (n mod 64)"
proof -
  have "\<forall>i\<in>set [0..<64]. raw_index (b64_alphabet ! i) = Some i" by code_simp
  then show ?thesis by (simp add: b64_char_def)
qed

lemma b64_parts:
  assumes "x < 256" and "y < 256" and "z < (256::nat)"
  shows "x div 4 mod 64 = x div 4" "(x mod 4 * 16 + y div 16) mod 64 = x mod 4 * 16 + y div 16"
    "(y mod 16 * 4 + z div 64) mod 64 = y mod 16 * 4 + z div 64"
proof -
  have "x div 4 < 64" "y div 16 < 16" "z div 64 < 4" using assms by (simp_all add: less_mult_imp_div_less)
  moreover have "x mod 4 < 4" "y mod 16 < 16" by simp_all
  ultimately have "x div 4 < 64" "x mod 4 * 16 + y div 16 < 64" "y mod 16 * 4 + z div 64 < 64" by linarith+
  then show "x div 4 mod 64 = x div 4" "(x mod 4 * 16 + y div 16) mod 64 = x mod 4 * 16 + y div 16"
    "(y mod 16 * 4 + z div 64) mod 64 = y mod 16 * 4 + z div 64" by (simp_all only: mod_less)
qed

lemma byte_div: "byte c div 16 < 16" "byte c div 64 < 4"
  by (simp_all add: less_mult_imp_div_less byte_less)

lemmas b64_bytes = b64_parts [OF byte_less byte_less byte_less]

lemma raw_quanta_encode: "raw_quanta (b64_encode s) = Some s"
proof (induction s rule: b64_encode.induct)
  case (2 a)
  show ?case using b64_bytes(1) [of a] b64_parts(2) [OF byte_less [of a], of 0 0] by (simp add: raw_index_char)
next
  case (3 a b)
  show ?case using b64_bytes(1) [of a] b64_bytes(2) [of a b] b64_parts(3) [OF _ byte_less [of b], of 0 0] byte_div [of b] by (simp add: raw_index_char)
next
  case (4 a b c cs)
  then show ?case using b64_bytes(1) [of a] b64_bytes(2) [of a b] b64_bytes(3) [of b c] byte_div [of b] byte_div [of c] by (simp add: raw_index_char)
qed simp

lemma raw_url_decode_encode: "raw_url_decode (b64_encode s) = Some s"
proof -
  have "filter (\<lambda>c. c \<noteq> CHR 0x0A \<and> c \<noteq> CHR 0x0D) (b64_encode s) = b64_encode s"
    using b64_encode_plain [of s] by (auto simp: filter_id_conv list_all_iff ascii_space_def)
  then show ?thesis by (simp add: raw_url_decode_def raw_quanta_encode)
qed

section \<open>Where a key comes from\<close>

fun jwks_run :: "jwks_call list \<Rightarrow> jwks_cache \<Rightarrow> jwks_cache" where
  "jwks_run [] c = c"
| "jwks_run (call # calls) c = jwks_run calls (snd (GetKey call c))"

text \<open>A call fetched the keys of a cache.\<close>

definition fetched_by :: "jwks_call \<Rightarrow> jwks_cache \<Rightarrow> bool" where
  "fetched_by call c \<longleftrightarrow> jl_url call = None \<and> (\<exists>js. jl_fetch call = Response 200 (Inr js)
     \<and> jc_keys c = parse_keys js Map.empty \<and> jc_expiresAt c = jl_t2 call + jc_ttl c)"

lemma refresh_cases:
  assumes "refreshJWKS u f now c = (r, c')"
  shows "jc_ttl c' = jc_ttl c \<and> (case r of Some _ \<Rightarrow> c' = c
    | None \<Rightarrow> u = None \<and> (\<exists>js. f = Response 200 (Inr js) \<and> jc_keys c' = parse_keys js Map.empty \<and> jc_expiresAt c' = now + jc_ttl c))"
  using assms by (auto simp: refreshJWKS_def jwks_set_def split: option.splits jwks_fetch.splits sum.splits if_splits)

lemma GetKey_cache: "snd (GetKey call c) = c \<or> fetched_by call (snd (GetKey call c))"
  "jc_ttl (snd (GetKey call c)) = jc_ttl c"
proof -
  obtain r c' where r: "refreshJWKS (jl_url call) (jl_fetch call) (jl_t2 call) c = (r, c')" by fastforce
  have "snd (GetKey call c) = c \<or> (r = None \<and> snd (GetKey call c) = c')"
    using refresh_cases [OF r] by (auto simp: GetKey_def r split: option.splits)
  then show "snd (GetKey call c) = c \<or> fetched_by call (snd (GetKey call c))" "jc_ttl (snd (GetKey call c)) = jc_ttl c"
    using refresh_cases [OF r] by (auto simp: fetched_by_def)
qed

lemma GetKey_looks:
  assumes "fst (GetKey call c) = Inr k"
  shows "jwks_get (jl_t1 call) (jl_kid call) (snd (GetKey call c)) = Some k \<or> jwks_get (jl_t3 call) (jl_kid call) (snd (GetKey call c)) = Some k"
  using assms by (auto simp: GetKey_def split: option.splits prod.splits)

lemma run_fetched:
  "jc_keys (jwks_run calls c) = jc_keys c \<and> jc_expiresAt (jwks_run calls c) = jc_expiresAt c \<or> (\<exists>call\<in>set calls. fetched_by call (jwks_run calls c))"
proof (induction calls arbitrary: c)
  case (Cons call calls)
  show ?case
  proof (cases "\<exists>x\<in>set calls. fetched_by x (jwks_run calls (snd (GetKey call c)))")
    case False
    then have k: "jc_keys (jwks_run calls (snd (GetKey call c))) = jc_keys (snd (GetKey call c))"
      "jc_expiresAt (jwks_run calls (snd (GetKey call c))) = jc_expiresAt (snd (GetKey call c))" using Cons.IH by blast+
    have t: "jc_ttl (jwks_run calls d) = jc_ttl d" for d by (induction calls arbitrary: d) (simp_all add: GetKey_cache(2))
    show ?thesis using GetKey_cache(1) [of call c]
    proof
      assume "fetched_by call (snd (GetKey call c))"
      then have "fetched_by call (jwks_run calls (snd (GetKey call c)))" by (simp add: fetched_by_def k t)
      then show ?thesis by simp
    qed (use k in simp)
  qed auto
qed simp

text \<open>
  A key that is returned was in a response that one of the calls received with status 200, under its identifier, and was looked up at most
  the time to live after the cache was filled from it.
\<close>

lemma jwks_key_fresh:
  assumes "fst (GetKey call (jwks_run calls (NewJWKSClient ttl))) = Inr k"
  shows "\<exists>f\<in>set (calls @ [call]). \<exists>js t. jl_url f = None \<and> jl_fetch f = Response 200 (Inr js)
    \<and> parse_keys js Map.empty (jl_kid call) = Some k \<and> t \<in> {jl_t1 call, jl_t3 call} \<and> t \<le> jl_t2 f + ttl"
proof -
  let ?c = "jwks_run (calls @ [call]) (NewJWKSClient ttl)"
  have app: "jwks_run (xs @ [call]) c = snd (GetKey call (jwks_run xs c))" for xs c by (induction xs arbitrary: c) simp_all
  have t: "jc_ttl (jwks_run xs c) = jc_ttl c" for xs c by (induction xs arbitrary: c) (simp_all add: GetKey_cache(2))
  obtain u where u: "u \<in> {jl_t1 call, jl_t3 call}" "jwks_get u (jl_kid call) ?c = Some k"
    using GetKey_looks [OF assms] by (auto simp: app)
  then have k: "jc_keys ?c (jl_kid call) = Some k" "u \<le> jc_expiresAt ?c" by (auto simp: jwks_get_def split: if_splits)
  then obtain f where f: "f \<in> set (calls @ [call])" "fetched_by f ?c"
    using run_fetched [of "calls @ [call]" "NewJWKSClient ttl"] by (auto simp: NewJWKSClient_def)
  then obtain js where "jl_url f = None" "jl_fetch f = Response 200 (Inr js)" "jc_keys ?c = parse_keys js Map.empty" "jc_expiresAt ?c = jl_t2 f + ttl"
    by (auto simp: fetched_by_def t NewJWKSClient_def)
  then show ?thesis using f(1) u(1) k by metis
qed

text \<open>With a time to live of zero no key is ever found, once the clock has moved on between the fetch and the second look.\<close>

lemma zero_ttl_no_key:
  assumes "jc_ttl c \<le> 0" and "jl_t3 call > jl_t2 call" and "jwks_get (jl_t1 call) (jl_kid call) c = None"
  shows "\<exists>e. fst (GetKey call c) = Inl e"
proof -
  obtain r c' where r: "refreshJWKS (jl_url call) (jl_fetch call) (jl_t2 call) c = (r, c')" by fastforce
  have "jwks_get (jl_t3 call) (jl_kid call) c' = None" if "r = None"
    using refresh_cases [OF r] assms(1,2) that by (auto simp: jwks_get_def)
  then show ?thesis using assms(3) by (cases r) (simp_all add: GetKey_def r)
qed

text \<open>An identifier that the cache does not know is fetched for, however fresh the cache is.\<close>

lemma unknown_key_refetches:
  assumes "jc_keys c (jl_kid call) = None" and "jl_url call = None" and "jl_fetch call = NoResponse e"
  shows "GetKey call c = (Inl (EWrap ''failed to refresh JWKS: '' (EWrap ''failed to fetch JWKS: '' e []) []), c)"
  using assms by (simp add: GetKey_def jwks_get_def refreshJWKS_def)

text \<open>An exponent of more than eight bytes loses its upper ones.\<close>

lemma be_value_snoc: "be_value (s @ [c]) = 256 * be_value s + byte c"
  by (simp add: be_value_def)

lemma be_value_append: "be_value (s @ t) = 256 ^ length t * be_value s + be_value t"
proof (induction t rule: rev_induct)
  case (snoc c t)
  have "be_value (s @ t @ [c]) = 256 * be_value (s @ t) + byte c" using be_value_snoc [of "s @ t" c] by simp
  then show ?case unfolding snoc be_value_snoc by simp
qed (simp add: be_value_def)

lemma exponent_truncated:
  assumes "jw_Kty j = ''RSA''" and "raw_url_decode (jw_N j) = Some n" and "jw_E j = b64_encode (e @ t)" and "length t = 8" and "be_value t < 2 ^ 63"
  shows "\<exists>k. parseJWK j = Inr k \<and> rk_E k = int (be_value t)"
proof -
  have "int (be_value (e @ t)) = 2 ^ 64 * int (be_value e) + int (be_value t)" using assms(4) by (simp add: be_value_append)
  then have "i64 (int (be_value (e @ t))) = i64 (int (be_value t))" by (simp add: i64_def add.assoc)
  also have "\<dots> = int (be_value t)" using assms(5) by (intro i64_id) (simp add: fits64_def)
  finally show ?thesis using assms(1,2,3) by (simp add: parseJWK_def raw_url_decode_encode)
qed

end
