(* ===== verification/Guards.thy ===== *)
theory Guards
  imports Router Jwks
begin

text \<open>
  The small middlewares: \<^verbatim>\<open>http/middleware/timeout\<close>, \<^verbatim>\<open>requestsize\<close>, \<^verbatim>\<open>requestid\<close> and \<^verbatim>\<open>recovery\<close>, \<^verbatim>\<open>http/securityheaders\<close> and
  \<^verbatim>\<open>http/static\<close>.  The theory shows which time-out policy a path has, that a handler reads no more than the limit, how a panic
  is answered, which requests the transport rules let through and with which fields, and that a static path stays
  below its root.
\<close>

section \<open>Time-outs\<close>

record path_policy =
  pp_Prefix :: string
  pp_Mode :: string

record timeout_config =
  to_Enabled :: bool
  to_Default :: duration
  to_Excluded :: "string list"
  to_Policies :: "path_policy list"

definition timeout_DefaultConfig :: timeout_config where
  "timeout_DefaultConfig = \<lparr>to_Enabled = False, to_Default = 15 * second, to_Excluded = [], to_Policies = []\<rparr>"

definition parseMode :: "string \<Rightarrow> string" where
  "parseMode m = (let l = to_lower (trim_space m) in if l = ''off'' then ''off'' else if l = ''on'' then ''on'' else ''on'')"

definition timeout_normalize :: "timeout_config \<Rightarrow> timeout_config" where
  "timeout_normalize cfg =
     cfg\<lparr>to_Policies := map (\<lambda>p. p\<lparr>pp_Mode := parseMode (pp_Mode p)\<rparr>) (to_Policies cfg),
         to_Default := (if to_Default cfg \<le> 0 then to_Default timeout_DefaultConfig else to_Default cfg)\<rparr>"

fun best_policy :: "string \<Rightarrow> path_policy list \<Rightarrow> int \<Rightarrow> string \<Rightarrow> string" where
  "best_policy path [] bestLen bestMode = bestMode"
| "best_policy path (p # ps) bestLen bestMode =
     (if blank (pp_Prefix p) then best_policy path ps bestLen bestMode
      else if has_prefix path (pp_Prefix p) \<and> int (length (pp_Prefix p)) > bestLen
      then best_policy path ps (int (length (pp_Prefix p))) (pp_Mode p)
      else best_policy path ps bestLen bestMode)"

definition modeForPath :: "timeout_config \<Rightarrow> string \<Rightarrow> string" where
  "modeForPath cfg path =
     (if \<not> to_Enabled cfg then ''off''
      else if list_ex (has_prefix path) (to_Excluded cfg) then ''off''
      else best_policy path (to_Policies cfg) (- 1) ''on'')"

definition isDeadlineExceeded :: "err option \<Rightarrow> err option \<Rightarrow> bool" where
  "isDeadlineExceeded e reqErr \<longleftrightarrow>
     (case e of None \<Rightarrow> False | Some x \<Rightarrow> err_is x ContextDeadlineExceeded) \<or> (case reqErr of None \<Rightarrow> False | Some x \<Rightarrow> err_is x ContextDeadlineExceeded)"

text \<open>\<open>reqErr\<close> is the error of the request's context when the handler has returned.\<close>

definition timeout_body :: string where
  "timeout_body = ''{'' @ quoted ''error'' @ '':'' @ quoted ''request timeout'' @ ''}'' @ [CHR 0x0A]"

definition timeout_Middleware :: "timeout_config \<Rightarrow> err option \<Rightarrow> rhandler \<Rightarrow> rhandler" where
  "timeout_Middleware cfg0 reqErr next c =
     (if modeForPath (timeout_normalize cfg0) (hr_Path (rc_request c)) = ''off'' then next c
      else case next c of
          (e, c') \<Rightarrow>
            (if \<not> isDeadlineExceeded e reqErr then (e, c')
             else if writer_Written (rc_response c') then (None, c')
             else ctx_JSON 504 (Inr timeout_body) c'))"

text \<open>The policy that applies is the longest one that covers the path, the first of them in the list.\<close>

definition covers :: "string \<Rightarrow> path_policy \<Rightarrow> bool" where
  "covers path p \<longleftrightarrow> \<not> blank (pp_Prefix p) \<and> has_prefix path (pp_Prefix p)"

definition chosen :: "string \<Rightarrow> path_policy list \<Rightarrow> path_policy \<Rightarrow> bool" where
  "chosen path ps p \<longleftrightarrow> (\<exists>as bs. ps = as @ p # bs \<and> covers path p
     \<and> (\<forall>q\<in>set as. covers path q \<longrightarrow> length (pp_Prefix q) < length (pp_Prefix p)) \<and> (\<forall>q\<in>set bs. covers path q \<longrightarrow> length (pp_Prefix q) \<le> length (pp_Prefix p)))"

lemma chosen_unique:
  assumes "chosen path ps p" and "chosen path ps q"
  shows "p = q"
proof -
  have key: "length as' \<le> length as" if h: "as @ a # bs = as' @ b # bs'" "covers path a" "covers path b"
    "\<forall>q\<in>set as'. covers path q \<longrightarrow> length (pp_Prefix q) < length (pp_Prefix b)" "\<forall>q\<in>set bs. covers path q \<longrightarrow> length (pp_Prefix q) \<le> length (pp_Prefix a)"
    for as as' bs bs' a b
  proof (rule ccontr)
    assume "\<not> length as' \<le> length as"
    then obtain vs where vs: "as @ vs = as'" "a # bs = vs @ b # bs'" using h(1) by (auto simp: append_eq_append_conv2)
    then obtain us where us: "as' = as @ a # us" "bs = us @ b # bs'" using \<open>\<not> length as' \<le> length as\<close> by (cases vs) auto
    then have "length (pp_Prefix a) < length (pp_Prefix b)" "length (pp_Prefix b) \<le> length (pp_Prefix a)" using h by auto
    then show False by simp
  qed
  obtain as bs where p: "ps = as @ p # bs" "covers path p" "\<forall>q\<in>set as. covers path q \<longrightarrow> length (pp_Prefix q) < length (pp_Prefix p)"
    "\<forall>q\<in>set bs. covers path q \<longrightarrow> length (pp_Prefix q) \<le> length (pp_Prefix p)" using assms(1) unfolding chosen_def by blast
  obtain as' bs' where q: "ps = as' @ q # bs'" "covers path q" "\<forall>p\<in>set as'. covers path p \<longrightarrow> length (pp_Prefix p) < length (pp_Prefix q)"
    "\<forall>p\<in>set bs'. covers path p \<longrightarrow> length (pp_Prefix p) \<le> length (pp_Prefix q)" using assms(2) unfolding chosen_def by blast
  have eq: "as @ p # bs = as' @ q # bs'" using p(1) q(1) by simp
  have "length as = length as'" using key [OF eq p(2) q(2,3) p(4)] key [OF eq [symmetric] q(2) p(2,3) q(4)] by simp
  with eq have "as @ p # bs = as' @ q # bs'" "length as = length as'" by simp_all
  then show ?thesis by (simp add: append_eq_append_conv)
qed

lemma chosen_Cons_new: "chosen path ps q \<Longrightarrow> covers path p \<longrightarrow> length (pp_Prefix p) < length (pp_Prefix q) \<Longrightarrow> chosen path (p # ps) q"
  unfolding chosen_def by (metis append_Cons set_ConsD)

lemma best_policy_cases:
  "(\<forall>p\<in>set ps. covers path p \<longrightarrow> int (length (pp_Prefix p)) \<le> n) \<and> best_policy path ps n m = m
    \<or> (\<exists>p. chosen path ps p \<and> n < int (length (pp_Prefix p)) \<and> best_policy path ps n m = pp_Mode p)"
  (is "?none ps n m \<or> ?some ps n m")
proof (induction ps arbitrary: n m)
  case (Cons p ps)
  show ?case
  proof (cases "covers path p \<and> int (length (pp_Prefix p)) > n")
    case True
    let ?n = "int (length (pp_Prefix p))"
    have b: "best_policy path (p # ps) n m = best_policy path ps ?n (pp_Mode p)" using True by (simp add: covers_def)
    from Cons.IH [of ?n "pp_Mode p"] show ?thesis
    proof
      assume "?none ps ?n (pp_Mode p)"
      then have "chosen path (p # ps) p" using True unfolding chosen_def by (intro exI [of _ "[]"] exI [of _ ps]) auto
      then show ?thesis using True b \<open>?none ps ?n (pp_Mode p)\<close> by auto
    next
      assume "?some ps ?n (pp_Mode p)"
      then obtain q where "chosen path ps q" "?n < int (length (pp_Prefix q))" "best_policy path ps ?n (pp_Mode p) = pp_Mode q" by blast
      then show ?thesis using True b chosen_Cons_new [of path ps q p] by auto
    qed
  next
    case False
    then have b: "best_policy path (p # ps) n m = best_policy path ps n m" by (auto simp: covers_def)
    have p: "covers path p \<longrightarrow> int (length (pp_Prefix p)) \<le> n" using False by auto
    from Cons.IH [of n m] show ?thesis
    proof
      assume "?some ps n m"
      then obtain q where "chosen path ps q" "n < int (length (pp_Prefix q))" "best_policy path ps n m = pp_Mode q" by blast
      then show ?thesis using p b chosen_Cons_new [of path ps q p] by auto
    qed (use b p in simp)
  qed
qed simp

lemma timeout_mode:
  assumes "to_Enabled cfg" and "\<not> list_ex (has_prefix path) (to_Excluded cfg)"
  shows "chosen path (to_Policies cfg) p \<Longrightarrow> modeForPath cfg path = pp_Mode p"
    "\<not> list_ex (covers path) (to_Policies cfg) \<Longrightarrow> modeForPath cfg path = ''on''"
proof -
  have m: "modeForPath cfg path = best_policy path (to_Policies cfg) (- 1) ''on''" using assms by (simp add: modeForPath_def)
  show "modeForPath cfg path = pp_Mode p" if c: "chosen path (to_Policies cfg) p"
  proof -
    have "p \<in> set (to_Policies cfg)" "covers path p" using c by (auto simp: chosen_def)
    then show ?thesis using best_policy_cases [of "to_Policies cfg" path "- 1" "''on''"] chosen_unique [OF c] m by fastforce
  qed
  show "modeForPath cfg path = ''on''" if n: "\<not> list_ex (covers path) (to_Policies cfg)"
    using best_policy_cases [of "to_Policies cfg" path "- 1" "''on''"] n m by (auto simp: chosen_def list_ex_iff)
qed

text \<open>An empty excluded prefix, which a trailing comma in a list setting gives, switches every time-out off.\<close>

lemma empty_exclusion: "[] \<in> set (to_Excluded cfg) \<Longrightarrow> modeForPath cfg path = ''off''"
  by (auto simp: modeForPath_def list_ex_iff)

text \<open>A late handler: a response that was not begun is replaced by 504, one that was begun is passed as a success.\<close>

lemma timeout_late:
  assumes "modeForPath (timeout_normalize cfg) (hr_Path (rc_request c)) \<noteq> ''off''" and "next c = (e, c')" and "isDeadlineExceeded e reqErr"
  shows "timeout_Middleware cfg reqErr next c = (if writer_Written (rc_response c') then (None, c') else ctx_JSON 504 (Inr timeout_body) c')"
  using assms by (simp add: timeout_Middleware_def)

section \<open>The size of a request\<close>

text \<open>
  The handler is given what it can read of the body: \<^verbatim>\<open>http.MaxBytesReader\<close> gives the bytes up to the limit and then fails, when there are more.
  \<open>is_max\<close> tells whether an error has an \<^verbatim>\<open>http.MaxBytesError\<close> in it, \<open>js\<close> encodes a JSON string.
\<close>

datatype body = NoBody | Body string bool

definition MaxBytesReader :: "int \<Rightarrow> string \<Rightarrow> body" where
  "MaxBytesReader n b = (if int (length b) \<le> n then Body b True else Body (take (nat n) b) False)"

definition too_large_body :: "int \<Rightarrow> string" where
  "too_large_body n = ''{'' @ quoted ''error'' @ '':'' @ quoted ''request_too_large'' @ '','' @ quoted ''max_size'' @ '':'' @ itoa n @ '',''
     @ quoted ''message'' @ '':'' @ quoted (''request body exceeds maximum allowed size of '' @ itoa n @ '' bytes'') @ ''}'' @ [CHR 0x0A]"

definition payloadTooLarge :: "int \<Rightarrow> rhandler" where
  "payloadTooLarge n = ctx_JSON 413 (Inr (too_large_body n))"

definition requestsize_Middleware :: "(err \<Rightarrow> bool) \<Rightarrow> int \<Rightarrow> int \<Rightarrow> string option \<Rightarrow> (body \<Rightarrow> rhandler) \<Rightarrow> rhandler" where
  "requestsize_Middleware is_max maxBytes contentLength body next c =
     (if maxBytes \<le> 0 then next (case body of None \<Rightarrow> NoBody | Some b \<Rightarrow> Body b True) c
      else case body of
          None \<Rightarrow> next NoBody c
        | Some b \<Rightarrow>
            (if contentLength > maxBytes then payloadTooLarge maxBytes c
             else case next (MaxBytesReader maxBytes b) c of
                 (None, c') \<Rightarrow> (None, c')
               | (Some e, c') \<Rightarrow> (if is_max e \<and> \<not> writer_Written (rc_response c') then payloadTooLarge maxBytes c' else (Some e, c'))))"

text \<open>With a limit the handler is called with at most that many bytes, and with the whole body when it is not longer.\<close>

fun readable :: "body \<Rightarrow> string" where
  "readable NoBody = []"
| "readable (Body b whole) = b"

lemma MaxBytesReader_bound: "0 < n \<Longrightarrow> int (length (readable (MaxBytesReader n b))) \<le> n"
  by (auto simp: MaxBytesReader_def)

lemma requestsize_within:
  assumes "0 < n" and "\<And>b. int (length (readable b)) \<le> n \<Longrightarrow> next b = next' b"
  shows "requestsize_Middleware is_max n len body next c = requestsize_Middleware is_max n len body next' c"
proof (cases body)
  case (Some b)
  have "next (MaxBytesReader n b) = next' (MaxBytesReader n b)" by (rule assms(2) [OF MaxBytesReader_bound [OF assms(1)]])
  then show ?thesis using Some assms(1) by (simp add: requestsize_Middleware_def)
next
  case None
  have "next NoBody = next' NoBody" using assms(1) by (intro assms(2)) simp
  then show ?thesis using None assms(1) by (simp add: requestsize_Middleware_def)
qed

section \<open>Request identifiers and panics\<close>

text \<open>The identifier is handed to the next handler in the request's context; \<open>uuid\<close> is the generated one.\<close>

definition RequestID :: "string \<Rightarrow> (string \<Rightarrow> rhandler) \<Rightarrow> rhandler" where
  "RequestID uuid next c =
     (let h = header_get (hr_Header (rc_request c)) ''X-Request-ID''; requestID = (if h = [] then uuid else h) in
      next requestID (c\<lparr>rc_response := writer_upd_header (header_set ''X-Request-ID'' requestID) (rc_response c)\<rparr>))"

text \<open>A handler that may panic, with what it was given to panic with.\<close>

datatype handler_result = Returned "err option" | Panicked string

type_synonym phandler = "rcontext \<Rightarrow> handler_result \<times> rcontext"

definition panic_body :: "(string \<Rightarrow> string) \<Rightarrow> string \<Rightarrow> string" where
  "panic_body js requestID = ''{'' @ quoted ''error'' @ '':'' @ quoted ''internal_server_error'' @ '','' @ quoted ''message'' @ '':''
     @ quoted ''an unexpected error occurred'' @ '','' @ quoted ''request_id'' @ '':'' @ js requestID @ ''}'' @ [CHR 0x0A]"

text \<open>After a panic the result of the middleware is the zero value, nil.\<close>

definition Recovery :: "(string \<Rightarrow> string) \<Rightarrow> string \<Rightarrow> phandler \<Rightarrow> rhandler" where
  "Recovery js requestID next c =
     (case next c of
        (Returned e, c') \<Rightarrow> (e, c')
      | (Panicked _, c') \<Rightarrow>
          (if \<not> writer_Written (rc_response c')
           then (None, snd (ctx_JSON 500 (Inr (panic_body js requestID)) c'))
           else (None, c')))"

text \<open>
  A handler that panics before it has written is answered with 500 and an identifier, which is that of the response's header field and the
  request's own when it sent one.
\<close>

definition panicking :: "string \<Rightarrow> phandler" where
  "panicking v c = (Panicked v, c)"

definition request_id :: "string \<Rightarrow> rcontext \<Rightarrow> string" where
  "request_id uuid c = (let h = header_get (hr_Header (rc_request c)) ''X-Request-ID'' in if h = [] then uuid else h)"

lemma panic_answered:
  assumes "rc_response c = PlainWriter (fresh_writer hdr)" and "RequestID uuid (\<lambda>i. Recovery js i (panicking v)) c = (e, c')"
  shows "e = None \<and> wi_body (wire_of (rc_response c')) = panic_body js (request_id uuid c)"
    "\<exists>hs. wi_sent (wire_of (rc_response c')) = Some (500, hs) \<and> header_get hs ''X-Request-ID'' = request_id uuid c"
proof -
  have n: "header_name ''X-Request-ID'' = ''X-Request-Id''" "header_name ''Content-Type'' = ''Content-Type''" by code_simp+
  note defs = RequestID_def Recovery_def panicking_def Let_def ctx_JSON_def ctx_write_def fresh_writer_def rw_upd_header_def rw_Write_def rw_WriteHeader_def
        wire_Write_def wire_WriteHeader_def noBodyStatus_def wire_of_def header_get_def header_set_def n request_id_def
  show "e = None \<and> wi_body (wire_of (rc_response c')) = panic_body js (request_id uuid c)" using assms by (auto simp: defs)
  show "\<exists>hs. wi_sent (wire_of (rc_response c')) = Some (500, hs) \<and> header_get hs ''X-Request-ID'' = request_id uuid c" using assms by (auto simp: defs)
qed

text \<open>A panic after the response was begun looks like a success: nothing tells the client that the body was cut short.\<close>

lemma panic_after_write_hidden:
  "next c = (Panicked v, c') \<Longrightarrow> writer_Written (rc_response c') \<Longrightarrow> Recovery js i next c = (None, c')"
  by (simp add: Recovery_def)

section \<open>Security header fields\<close>

text \<open>A nil map or slice is \<open>None\<close>; the custom fields come in the order in which the map is traversed.\<close>

record sec_config =
  se_Enabled :: bool
  se_IsDevelopment :: bool
  se_AllowedHosts :: "string list option"
  se_SSLRedirect :: bool
  se_SSLTemporaryRedirect :: bool
  se_SSLHost :: string
  se_SSLProxyHeaders :: "(string \<times> string) list option"
  se_DontRedirectIPV4Hostnames :: bool
  se_STSSeconds :: int
  se_STSIncludeSubdomains :: bool
  se_STSPreload :: bool
  se_CustomFrameOptions :: string
  se_ContentTypeNosniff :: bool
  se_ContentSecurityPolicy :: string
  se_ReferrerPolicy :: string
  se_PermissionsPolicy :: string
  se_IENoOpen :: bool
  se_XDNSPrefetchControl :: string
  se_CrossOriginOpenerPolicy :: string
  se_CrossOriginResourcePolicy :: string
  se_CrossOriginEmbedderPolicy :: string
  se_CustomHeaders :: "(string \<times> string) list option"

definition sec_DefaultConfig :: sec_config where
  "sec_DefaultConfig = \<lparr>se_Enabled = True, se_IsDevelopment = False, se_AllowedHosts = Some [], se_SSLRedirect = False, se_SSLTemporaryRedirect = False,
     se_SSLHost = [], se_SSLProxyHeaders = Some [(''X-Forwarded-Proto'', ''https'')], se_DontRedirectIPV4Hostnames = True, se_STSSeconds = 31536000,
     se_STSIncludeSubdomains = True, se_STSPreload = False, se_CustomFrameOptions = ''DENY'', se_ContentTypeNosniff = True,
     se_ContentSecurityPolicy = ''default-src '' @ [CHR 0x27] @ ''self'' @ [CHR 0x27], se_ReferrerPolicy = ''strict-origin-when-cross-origin'',
     se_PermissionsPolicy = ''geolocation=(), microphone=(), camera=()'', se_IENoOpen = True, se_XDNSPrefetchControl = ''off'',
     se_CrossOriginOpenerPolicy = ''same-origin'', se_CrossOriginResourcePolicy = ''same-origin'', se_CrossOriginEmbedderPolicy = [], se_CustomHeaders = Some []\<rparr>"

definition or_default :: "string \<Rightarrow> string \<Rightarrow> string" where
  "or_default s d = (if blank s then d else s)"

definition sec_normalize :: "sec_config \<Rightarrow> sec_config" where
  "sec_normalize cfg =
     (let d = sec_DefaultConfig in
      cfg\<lparr>se_SSLProxyHeaders := (case se_SSLProxyHeaders cfg of None \<Rightarrow> se_SSLProxyHeaders d | Some m \<Rightarrow> Some m),
          se_CustomHeaders := (case se_CustomHeaders cfg of None \<Rightarrow> se_CustomHeaders d | Some m \<Rightarrow> Some m),
          se_AllowedHosts := (case se_AllowedHosts cfg of None \<Rightarrow> se_AllowedHosts d | Some m \<Rightarrow> Some m),
          se_CustomFrameOptions := or_default (se_CustomFrameOptions cfg) (se_CustomFrameOptions d),
          se_ContentSecurityPolicy := or_default (se_ContentSecurityPolicy cfg) (se_ContentSecurityPolicy d),
          se_ReferrerPolicy := or_default (se_ReferrerPolicy cfg) (se_ReferrerPolicy d),
          se_PermissionsPolicy := or_default (se_PermissionsPolicy cfg) (se_PermissionsPolicy d),
          se_XDNSPrefetchControl := or_default (se_XDNSPrefetchControl cfg) (se_XDNSPrefetchControl d),
          se_CrossOriginOpenerPolicy := or_default (se_CrossOriginOpenerPolicy cfg) (se_CrossOriginOpenerPolicy d),
          se_CrossOriginResourcePolicy := or_default (se_CrossOriginResourcePolicy cfg) (se_CrossOriginResourcePolicy d),
          se_STSSeconds := (if se_STSSeconds cfg = 0 then se_STSSeconds d else se_STSSeconds cfg)\<rparr>)"

definition set_unless_blank :: "string \<Rightarrow> string \<Rightarrow> header \<Rightarrow> header" where
  "set_unless_blank k v h = (if blank v then h else header_set k v h)"

definition set_custom :: "string \<times> string \<Rightarrow> header \<Rightarrow> header" where
  "set_custom kv h = (if blank (fst kv) \<or> blank (snd kv) then h else header_set (fst kv) (snd kv) h)"

definition sts_value :: "sec_config \<Rightarrow> string" where
  "sts_value cfg = ''max-age='' @ itoa (se_STSSeconds cfg) @ (if se_STSIncludeSubdomains cfg then ''; includeSubDomains'' else [])
     @ (if se_STSPreload cfg then ''; preload'' else [])"

definition fixed_headers :: "sec_config \<Rightarrow> bool \<Rightarrow> header \<Rightarrow> header" where
  "fixed_headers cfg secureReq =
     (\<lambda>h. if secureReq \<and> se_STSSeconds cfg > 0 then header_set ''Strict-Transport-Security'' (sts_value cfg) h else h)
     \<circ> set_unless_blank ''Cross-Origin-Embedder-Policy'' (se_CrossOriginEmbedderPolicy cfg)
     \<circ> set_unless_blank ''Cross-Origin-Resource-Policy'' (se_CrossOriginResourcePolicy cfg)
     \<circ> set_unless_blank ''Cross-Origin-Opener-Policy'' (se_CrossOriginOpenerPolicy cfg)
     \<circ> set_unless_blank ''X-DNS-Prefetch-Control'' (se_XDNSPrefetchControl cfg)
     \<circ> (\<lambda>h. if se_IENoOpen cfg then header_set ''X-Download-Options'' ''noopen'' h else h)
     \<circ> set_unless_blank ''Permissions-Policy'' (se_PermissionsPolicy cfg)
     \<circ> set_unless_blank ''Referrer-Policy'' (se_ReferrerPolicy cfg)
     \<circ> set_unless_blank ''Content-Security-Policy'' (se_ContentSecurityPolicy cfg)
     \<circ> (\<lambda>h. if se_ContentTypeNosniff cfg then header_set ''X-Content-Type-Options'' ''nosniff'' h else h)
     \<circ> set_unless_blank ''X-Frame-Options'' (se_CustomFrameOptions cfg)"

definition sec_applyHeaders :: "sec_config \<Rightarrow> bool \<Rightarrow> header \<Rightarrow> header" where
  "sec_applyHeaders cfg secureReq h =
     fold set_custom (case se_CustomHeaders cfg of None \<Rightarrow> [] | Some m \<Rightarrow> m) (fixed_headers cfg secureReq h)"

text \<open>What the middleware reads of a request; header fields under the names they are stored with.\<close>

record sec_request =
  sr_Host :: string
  sr_URLHost :: string
  sr_Scheme :: string
  sr_TLS :: bool
  sr_Header :: "string \<rightharpoonup> string list"

definition stripPort :: "string \<Rightarrow> string" where
  "stripPort host = takeWhile (\<lambda>c. c \<noteq> CHR '':'') host"

definition isIPv4 :: "(string \<Rightarrow> ip option) \<Rightarrow> string \<Rightarrow> bool" where
  "isIPv4 pip host = (case pip (stripPort host) of None \<Rightarrow> False | Some a \<Rightarrow> ip_To4 a \<noteq> None)"

definition checkAllowedHosts :: "sec_request \<Rightarrow> string list \<Rightarrow> bool" where
  "checkAllowedHosts req allowed \<longleftrightarrow>
     (if allowed = [] then True
      else let host = stripPort (if sr_Host req = [] then sr_URLHost req else sr_Host req) in
        list_ex (\<lambda>a. equal_fold (trim_space a) host) allowed)"

definition isSecureRequest :: "(string \<Rightarrow> ip option) \<Rightarrow> sec_config \<Rightarrow> sec_request \<Rightarrow> bool" where
  "isSecureRequest pip cfg req \<longleftrightarrow>
     equal_fold (sr_Scheme req) ''https'' \<or> sr_TLS req
     \<or> list_ex (\<lambda>(k, expected). case sr_Header req k of
           Some (v # vs) \<Rightarrow> equal_fold (trim_space v) (trim_space expected) | _ \<Rightarrow> False) (case se_SSLProxyHeaders cfg of None \<Rightarrow> [] | Some m \<Rightarrow> m)
     \<or> (se_DontRedirectIPV4Hostnames cfg \<and> isIPv4 pip (sr_Host req))"

text \<open>\<open>us\<close> is the text of the request's URL with another scheme and host.\<close>

definition redirectTarget :: "(string \<Rightarrow> string \<Rightarrow> string) \<Rightarrow> sec_config \<Rightarrow> sec_request \<Rightarrow> string" where
  "redirectTarget us cfg req = us ''https'' (if blank (se_SSLHost cfg) then sr_Host req else se_SSLHost cfg)"

text \<open>A redirection is answered with its target; otherwise the next handler runs with the header fields of the response.\<close>

definition sec_Middleware :: "(string \<Rightarrow> ip option) \<Rightarrow> (string \<Rightarrow> string \<Rightarrow> string) \<Rightarrow> sec_config \<Rightarrow> sec_request \<Rightarrow> header \<Rightarrow> header outcome" where
  "sec_Middleware pip us cfg0 req h =
     (let cfg = sec_normalize cfg0 in
      if \<not> se_Enabled cfg \<or> se_IsDevelopment cfg then Proceed h
      else if \<not> checkAllowedHosts req (case se_AllowedHosts cfg of None \<Rightarrow> [] | Some a \<Rightarrow> a) then Answer 403 ''forbidden host''
      else let secureReq = isSecureRequest pip cfg req in
        if se_SSLRedirect cfg \<and> \<not> secureReq
        then Answer (if se_SSLTemporaryRedirect cfg then 307 else 301) (redirectTarget us cfg req)
        else Proceed (sec_applyHeaders cfg secureReq h))"

lemma fold_set_custom:
  "list_all (\<lambda>kv. header_name (fst kv) \<noteq> header_name k) kvs \<Longrightarrow> header_get (fold set_custom kvs h) k = header_get h k"
  by (induction kvs arbitrary: h) (auto simp: set_custom_def)

definition untouched :: "sec_config \<Rightarrow> string \<Rightarrow> bool" where
  "untouched cfg k \<longleftrightarrow> (case se_CustomHeaders cfg of None \<Rightarrow> True | Some m \<Rightarrow> list_all (\<lambda>kv. header_name (fst kv) \<noteq> header_name k) m)"

lemma sec_names:
  "header_name ''Strict-Transport-Security'' = ''Strict-Transport-Security''" "header_name ''Cross-Origin-Embedder-Policy'' = ''Cross-Origin-Embedder-Policy''"
  "header_name ''Cross-Origin-Resource-Policy'' = ''Cross-Origin-Resource-Policy''" "header_name ''Cross-Origin-Opener-Policy'' = ''Cross-Origin-Opener-Policy''"
  "header_name ''X-DNS-Prefetch-Control'' = ''X-Dns-Prefetch-Control''" "header_name ''X-Download-Options'' = ''X-Download-Options''"
  "header_name ''Permissions-Policy'' = ''Permissions-Policy''" "header_name ''Referrer-Policy'' = ''Referrer-Policy''"
  "header_name ''Content-Security-Policy'' = ''Content-Security-Policy''" "header_name ''X-Content-Type-Options'' = ''X-Content-Type-Options''"
  "header_name ''X-Frame-Options'' = ''X-Frame-Options''"
  by code_simp+

lemma fixed_headers_get:
  "header_get (fixed_headers cfg s h) ''Strict-Transport-Security'' = (if s \<and> se_STSSeconds cfg > 0 then sts_value cfg else header_get h ''Strict-Transport-Security'')"
  "\<not> blank (se_CustomFrameOptions cfg) \<Longrightarrow> header_get (fixed_headers cfg s h) ''X-Frame-Options'' = se_CustomFrameOptions cfg"
  "\<not> blank (se_ContentSecurityPolicy cfg) \<Longrightarrow> header_get (fixed_headers cfg s h) ''Content-Security-Policy'' = se_ContentSecurityPolicy cfg"
  by (simp_all add: fixed_headers_def set_unless_blank_def sec_names)

lemma normalize_not_blank: "\<not> blank (se_CustomFrameOptions (sec_normalize cfg))" "\<not> blank (se_ContentSecurityPolicy (sec_normalize cfg))"
  "se_CustomHeaders (sec_normalize cfg) = Some (case se_CustomHeaders cfg of None \<Rightarrow> [] | Some m \<Rightarrow> m)"
  "se_Enabled (sec_normalize cfg) = se_Enabled cfg" "se_IsDevelopment (sec_normalize cfg) = se_IsDevelopment cfg" "se_SSLRedirect (sec_normalize cfg) = se_SSLRedirect cfg"
proof -
  have "\<not> blank (se_CustomFrameOptions sec_DefaultConfig)" "\<not> blank (se_ContentSecurityPolicy sec_DefaultConfig)" by code_simp+
  then show "\<not> blank (se_CustomFrameOptions (sec_normalize cfg))" "\<not> blank (se_ContentSecurityPolicy (sec_normalize cfg))"
    by (simp_all add: sec_normalize_def Let_def or_default_def)
  show "se_CustomHeaders (sec_normalize cfg) = Some (case se_CustomHeaders cfg of None \<Rightarrow> [] | Some m \<Rightarrow> m)"
    by (simp add: sec_normalize_def Let_def sec_DefaultConfig_def split: option.splits)
qed (simp_all add: sec_normalize_def Let_def)

text \<open>
  With the middleware on, a request reaches the handler only for an allowed host and, when redirection is configured, only as one that counts as
  secure; the response then has the policy for frames and content, never a blank one, unless a custom field replaces it, and
  the field that fixes the transport exactly for requests that count as secure.
\<close>

lemma security_headers_applied:
  assumes "se_Enabled cfg" and "\<not> se_IsDevelopment cfg" and "sec_Middleware pip us cfg req h = Proceed h'"
  shows "checkAllowedHosts req (case se_AllowedHosts cfg of None \<Rightarrow> [] | Some a \<Rightarrow> a)
    \<and> (se_SSLRedirect cfg \<longrightarrow> isSecureRequest pip (sec_normalize cfg) req)
    \<and> (untouched cfg ''X-Frame-Options'' \<longrightarrow> \<not> blank (header_get h' ''X-Frame-Options''))
    \<and> (untouched cfg ''Content-Security-Policy'' \<longrightarrow> \<not> blank (header_get h' ''Content-Security-Policy''))
    \<and> (untouched cfg ''Strict-Transport-Security'' \<longrightarrow> header_get h' ''Strict-Transport-Security''
        = (if isSecureRequest pip (sec_normalize cfg) req \<and> se_STSSeconds (sec_normalize cfg) > 0 then sts_value (sec_normalize cfg)
           else header_get h ''Strict-Transport-Security''))"
proof -
  let ?cfg = "sec_normalize cfg"
  have a: "se_AllowedHosts ?cfg = Some (case se_AllowedHosts cfg of None \<Rightarrow> [] | Some a \<Rightarrow> a)"
    by (simp add: sec_normalize_def Let_def sec_DefaultConfig_def split: option.splits)
  have p: "checkAllowedHosts req (case se_AllowedHosts cfg of None \<Rightarrow> [] | Some a \<Rightarrow> a)" "se_SSLRedirect cfg \<longrightarrow> isSecureRequest pip ?cfg req"
    "h' = fold set_custom (case se_CustomHeaders cfg of None \<Rightarrow> [] | Some m \<Rightarrow> m) (fixed_headers ?cfg (isSecureRequest pip ?cfg req) h)"
    using assms by (auto simp: sec_Middleware_def Let_def normalize_not_blank a sec_applyHeaders_def split: if_splits)
  have g: "header_get h' k = header_get (fixed_headers ?cfg (isSecureRequest pip ?cfg req) h) k" if "untouched cfg k" for k
    using that unfolding p(3) by (intro fold_set_custom) (auto simp: untouched_def split: option.splits)
  show ?thesis using p(1,2) by (simp add: g fixed_headers_get normalize_not_blank)
qed

text \<open>
  A request over plain HTTP whose host is an address of four bytes counts as secure: it is not redirected and its answer fixes the transport, although
  the comment says that the field is for secure requests only.
\<close>

lemma ipv4_host_counts_as_secure:
  assumes "pip (stripPort (sr_Host req)) = Some [10, 0, 0, 1]" and "se_DontRedirectIPV4Hostnames cfg"
  shows "isSecureRequest pip cfg req"
  using assms by (simp add: isSecureRequest_def isIPv4_def ip_To4_def)

text \<open>A proxy field configured in another case than the canonical one is never found.\<close>

lemma lower_case_proxy_field_ignored:
  assumes "se_SSLProxyHeaders cfg = Some [(''x-forwarded-proto'', ''https'')]" and "sr_Header req = [''X-Forwarded-Proto'' \<mapsto> [''https'']]"
    and "\<not> se_DontRedirectIPV4Hostnames cfg" and "sr_Scheme req = []" and "\<not> sr_TLS req"
  shows "\<not> isSecureRequest pip cfg req"
  using assms by (simp add: isSecureRequest_def equal_fold_def to_lower_def)

section \<open>Static files\<close>

text \<open>\<^verbatim>\<open>path.Clean\<close> of a path that begins with a slash, by its segments.\<close>

definition clean_step :: "string \<Rightarrow> string list \<Rightarrow> string list" where
  "clean_step seg stack = (if seg = [] \<or> seg = ''.'' then stack else if seg = ''..'' then tl stack else seg # stack)"

definition clean_segs :: "string \<Rightarrow> string list" where
  "clean_segs s = rev (fold clean_step (split_on CHR ''/'' s) [])"

definition clean_rooted :: "string \<Rightarrow> string" where
  "clean_rooted s = ''/'' @ join_with ''/'' (clean_segs s)"

definition normalizePrefix :: "string \<Rightarrow> string" where
  "normalizePrefix prefix0 =
     (let p = trim_space prefix0 in
      if p = [] then [] else let cleaned = clean_rooted (trim_slashes p) in if cleaned = ''/'' then [] else cleaned)"

definition sanitizeRequestPath :: "string \<Rightarrow> string \<Rightarrow> string option" where
  "sanitizeRequestPath prefix0 requestPath =
     (let cleaned = clean_rooted requestPath; np = normalizePrefix prefix0 in
      if np = [] then Some cleaned
      else if cleaned = np then Some ''/''
      else if has_prefix cleaned (np @ ''/'')
      then (let relative = drop (length np) cleaned in if relative = [] then Some ''/'' else Some relative)
      else None)"

text \<open>
  A file system gives a node for a path that can be opened, looked at and closed again.  \<open>Serve\<close> is the middleware, with the file server of the
  standard library as \<open>serve\<close>.
\<close>

datatype node = FileNode | DirNode

definition local_Exists :: "(string \<Rightarrow> node option) \<Rightarrow> bool \<Rightarrow> string \<Rightarrow> string \<Rightarrow> bool" where
  "local_Exists fs allowIndexes prefix0 requestPath =
     (case sanitizeRequestPath prefix0 requestPath of
        None \<Rightarrow> False
      | Some relative \<Rightarrow>
          (case fs relative of
             None \<Rightarrow> False
           | Some FileNode \<Rightarrow> True
           | Some DirNode \<Rightarrow> allowIndexes \<and> fs (clean_rooted (relative @ ''/index.html'')) \<noteq> None))"

definition embed_Exists :: "(string \<Rightarrow> node option) \<Rightarrow> string \<Rightarrow> string \<Rightarrow> bool" where
  "embed_Exists fs prefix0 requestPath =
     (case sanitizeRequestPath prefix0 requestPath of None \<Rightarrow> False | Some relative \<Rightarrow> fs relative \<noteq> None)"

definition static_Serve :: "(string \<Rightarrow> string \<Rightarrow> bool) \<Rightarrow> (string \<Rightarrow> rcontext \<Rightarrow> rcontext) \<Rightarrow> string \<Rightarrow> rhandler \<Rightarrow> rhandler" where
  "static_Serve exists_at serve urlPrefix next c =
     (let pre = normalizePrefix urlPrefix in
      if exists_at pre (hr_Path (rc_request c)) then (None, serve pre c) else next c)"

text \<open>Segments of clean paths.\<close>

definition plain_seg :: "string \<Rightarrow> bool" where
  "plain_seg w \<longleftrightarrow> w \<noteq> [] \<and> w \<noteq> ''.'' \<and> w \<noteq> ''..'' \<and> CHR ''/'' \<notin> set w"

lemma split_no_sep: "w \<in> set (split_on d s) \<Longrightarrow> d \<notin> set w"
  by (induction s arbitrary: w) (auto split: list.splits if_splits)

lemma clean_segs_plain: "list_all plain_seg (clean_segs s)"
proof -
  have "list_all plain_seg (fold clean_step ws st)" if "\<forall>w\<in>set ws. CHR ''/'' \<notin> set w" "list_all plain_seg st" for ws st
    using that
  proof (induction ws arbitrary: st)
    case (Cons w ws)
    have "w = [] \<or> w = ''.'' \<or> w = ''..'' \<or> plain_seg w" using Cons.prems(1) by (auto simp: plain_seg_def)
    then have "list_all plain_seg (clean_step w st)" using Cons.prems(2) by (cases st) (auto simp: clean_step_def)
    then show ?case using Cons by simp
  qed simp
  then show ?thesis using split_no_sep [of _ "CHR ''/''" s] by (auto simp: clean_segs_def)
qed

lemma split_join_append: "ps \<noteq> [] \<Longrightarrow> \<forall>w\<in>set ps. d \<notin> set w \<Longrightarrow> split_on d (join_with [d] ps @ d # r) = ps @ split_on d r"
proof (induction ps)
  case (Cons w ws)
  then show ?case by (cases ws) (simp_all add: split_on_append)
qed simp

lemma join_append: "ps \<noteq> [] \<Longrightarrow> qs \<noteq> [] \<Longrightarrow> join_with d (ps @ qs) = join_with d ps @ d @ join_with d qs"
proof (induction ps)
  case (Cons w ws)
  then show ?case by (cases ws; cases qs) simp_all
qed simp

lemma join_empty: "list_all plain_seg ws \<Longrightarrow> join_with d ws = [] \<longleftrightarrow> ws = []"
  by (cases ws rule: list.exhaust; cases "tl ws") (auto simp: plain_seg_def)

definition prefix_segs :: "string \<Rightarrow> string list" where
  "prefix_segs prefix0 = clean_segs (trim_slashes (trim_space prefix0))"

lemma normalizePrefix_segs: "normalizePrefix p = (if prefix_segs p = [] then [] else ''/'' @ join_with ''/'' (prefix_segs p))"
proof -
  have e: "clean_segs (trim_slashes []) = []" by code_simp
  have "clean_rooted (trim_slashes (trim_space p)) = ''/'' \<longleftrightarrow> prefix_segs p = []"
    using join_empty [OF clean_segs_plain] by (simp add: clean_rooted_def prefix_segs_def)
  then show ?thesis using e by (auto simp: normalizePrefix_def Let_def prefix_segs_def clean_rooted_def)
qed

definition slashed :: "string list \<Rightarrow> string" where
  "slashed ws = ''/'' @ join_with ''/'' ws"

lemma slashed_inj: "list_all plain_seg cs \<Longrightarrow> list_all plain_seg ps \<Longrightarrow> slashed cs = slashed ps \<longleftrightarrow> cs = ps"
proof -
  assume p: "list_all plain_seg cs" "list_all plain_seg ps"
  have n: "\<forall>w\<in>set cs. CHR ''/'' \<notin> set w" "\<forall>w\<in>set ps. CHR ''/'' \<notin> set w" using p by (auto simp: list_all_iff plain_seg_def)
  have j: "slashed cs = slashed ps \<longleftrightarrow> join_with ''/'' cs = join_with ''/'' ps" by (simp add: slashed_def)
  show ?thesis
  proof (cases "cs = [] \<or> ps = []")
    case True
    then show ?thesis using join_empty [OF p(1), of "''/''"] join_empty [OF p(2), of "''/''"] unfolding j by (metis join_with.simps(1))
  next
    case False
    then show ?thesis using split_join [OF _ n(1)] split_join [OF _ n(2)] unfolding j by metis
  qed
qed

lemma slashed_append: "ps \<noteq> [] \<Longrightarrow> segs \<noteq> [] \<Longrightarrow> slashed (ps @ segs) = slashed ps @ slashed segs"
  by (simp add: slashed_def join_append)

lemma slashed_below:
  assumes "list_all plain_seg cs" and "list_all plain_seg ps" and "ps \<noteq> []"
  shows "has_prefix (slashed cs) (slashed ps @ ''/'') \<longleftrightarrow> (\<exists>segs. segs \<noteq> [] \<and> cs = ps @ segs)"
proof
  have n: "\<forall>w\<in>set cs. CHR ''/'' \<notin> set w" "\<forall>w\<in>set ps. CHR ''/'' \<notin> set w" using assms(1,2) by (auto simp: list_all_iff plain_seg_def)
  assume "has_prefix (slashed cs) (slashed ps @ ''/'')"
  then obtain r where r: "join_with ''/'' cs = join_with ''/'' ps @ CHR ''/'' # r" by (auto simp: has_prefix_iff slashed_def)
  then have "cs \<noteq> []" by auto
  then have "cs = ps @ split_on CHR ''/'' r" using split_join [OF _ n(1)] split_join_append [OF assms(3) n(2), of r] r by simp
  then show "\<exists>segs. segs \<noteq> [] \<and> cs = ps @ segs" using split_on_nonempty by blast
next
  assume "\<exists>segs. segs \<noteq> [] \<and> cs = ps @ segs"
  then obtain segs where s: "segs \<noteq> []" "cs = ps @ segs" by blast
  then have "slashed cs = slashed ps @ slashed segs" using assms(3) by (simp add: slashed_append)
  then show "has_prefix (slashed cs) (slashed ps @ ''/'')" by (auto simp: has_prefix_iff slashed_def)
qed

lemma sanitize_slashed:
  assumes "prefix_segs p \<noteq> []"
  shows "sanitizeRequestPath p r = (if clean_segs r = prefix_segs p then Some ''/''
    else if has_prefix (slashed (clean_segs r)) (slashed (prefix_segs p) @ ''/'') then Some (drop (length (slashed (prefix_segs p))) (slashed (clean_segs r))) else None)"
proof -
  have np: "normalizePrefix p = slashed (prefix_segs p)" "slashed (prefix_segs p) \<noteq> []" using assms by (simp_all add: normalizePrefix_segs slashed_def)
  have c: "clean_rooted r = slashed (clean_segs r)" by (simp add: clean_rooted_def slashed_def)
  have e: "slashed (clean_segs r) = slashed (prefix_segs p) \<longleftrightarrow> clean_segs r = prefix_segs p"
    by (rule slashed_inj) (simp_all add: clean_segs_plain prefix_segs_def)
  have d: "drop (length (slashed (prefix_segs p))) (slashed (clean_segs r)) \<noteq> []" if "has_prefix (slashed (clean_segs r)) (slashed (prefix_segs p) @ ''/'')"
    using that by (auto simp: has_prefix_iff)
  show ?thesis unfolding sanitizeRequestPath_def Let_def np(1) if_not_P [OF np(2)] c e using d by (simp split del: if_split cong: if_cong)
qed

text \<open>
  C37. A static path stays below its prefix and its root: the path that is looked up is the part of the requested one after the segments of the
  prefix, once dots are resolved; it has no segment that is empty or goes up, and other paths are not looked up at all.
\<close>

theorem static_stays_below:
  "sanitizeRequestPath prefix0 requestPath = Some rel
    \<longleftrightarrow> (\<exists>segs. clean_segs requestPath = prefix_segs prefix0 @ segs \<and> list_all plain_seg segs \<and> rel = ''/'' @ join_with ''/'' segs)"
proof (cases "prefix_segs prefix0 = []")
  case True
  then show ?thesis using clean_segs_plain [of requestPath] by (auto simp: sanitizeRequestPath_def Let_def normalizePrefix_segs clean_rooted_def)
next
  case False
  let ?cs = "clean_segs requestPath" and ?ps = "prefix_segs prefix0"
  have p: "list_all plain_seg ?cs" "list_all plain_seg ?ps" by (simp_all add: clean_segs_plain prefix_segs_def)
  consider "?cs = ?ps" | segs where "segs \<noteq> []" "?cs = ?ps @ segs" | "?cs \<noteq> ?ps" "\<not> (\<exists>segs. segs \<noteq> [] \<and> ?cs = ?ps @ segs)" by blast
  then show ?thesis
  proof cases
    case 1
    then show ?thesis by (auto simp: sanitize_slashed [OF False])
  next
    case 2
    then have "has_prefix (slashed ?cs) (slashed ?ps @ ''/'')" "?cs \<noteq> ?ps" using slashed_below [OF p False] by auto
    then have "sanitizeRequestPath prefix0 requestPath = Some (slashed segs)" using 2 False by (simp add: sanitize_slashed slashed_append)
    then show ?thesis using 2 p(1) by (auto simp: slashed_def)
  next
    case 3
    then have "sanitizeRequestPath prefix0 requestPath = None" using slashed_below [OF p False] by (simp add: sanitize_slashed [OF False])
    moreover have "?cs \<noteq> ?ps @ segs" for segs using 3 by (cases "segs = []") auto
    ultimately show ?thesis by simp
  qed
qed

text \<open>No directory is listed: without indexes only files are served, with them only directories that have one.\<close>

lemma no_listing: "local_Exists fs False p r \<Longrightarrow> \<exists>rel. sanitizeRequestPath p r = Some rel \<and> fs rel = Some FileNode"
  by (auto simp: local_Exists_def split: option.splits node.splits)

text \<open>
  The file server gets the path as it was requested and strips the prefix from its text: a path with a doubled slash exists for the check
  and not for the server, which answers 404 instead of the next handler.
\<close>

lemma checked_path_not_served: "sanitizeRequestPath ''/static'' ''//static/a'' = Some ''/a''" "\<not> has_prefix ''//static/a'' (normalizePrefix ''/static'')"
  by code_simp+

end
