(* ===== verification/Spec2Isabelle.thy ===== *)
theory Spec2Isabelle
  imports EventBus Once Outbox Saga JobsRedis JobsRuntime Worker Scheduler HttpSession SemVer Access Csrf Cors
    App Crud HttpCache Migrations Memcached Signature RateLimit Sse Router AuditTrail Jwks Guards
begin

text \<open>
  Nimburion: a verification development.

  Nimburion is a Go framework for services. Its own logic, as opposed to its adapters of client
  libraries, lies in the parts that make asynchronous work reliable: retries, dead letters, outbox
  and inbox, idempotency, sagas, job queues, workers and distributed locks. This development models
  those parts from their sources under \<^verbatim>\<open>src/pkg\<close> and proves what they promise.

  \<^bold>\<open>Conventions.\<close>  Durations are nanoseconds and instants are nanoseconds since the zero time, both
  \<^typ>\<open>int\<close>; where the code computes with a Go \<^verbatim>\<open>int\<close> or \<^verbatim>\<open>time.Duration\<close> and a bound matters, the
  result is wrapped to 64 bits by \<^term>\<open>i64\<close> (theory Prelude). Errors are values of the type \<^verbatim>\<open>err\<close>, the
  tree that \<^verbatim>\<open>errors.New\<close>, \<^verbatim>\<open>fmt.Errorf\<close>, \<^verbatim>\<open>errors.Join\<close> and \<^verbatim>\<open>AppError\<close> build, so \<^verbatim>\<open>errors.Is\<close> is a
  function on it. A function that may fail returns an \<^verbatim>\<open>err option\<close> (\<^term>\<open>None\<close> is nil) or a sum. A nil
  pointer or interface is \<^term>\<open>None\<close>, or \<^term>\<open>False\<close> of a flag where only its presence matters. The clock,
  random tokens, contexts and network failures are arguments: a theorem that does not constrain
  them holds for every timing. Loops that wait for a context are recursions over the list of
  what each iteration finds.

  \<^bold>\<open>External code\<close> is a parameter with laws, stated as a locale and interpreted on a concrete
  instance, so that every assumption can hold: the Redis server (locale \<^verbatim>\<open>redis_server\<close>, commands
  and expiry), SQL transactions (\<^verbatim>\<open>sql_contract\<close>: rollback restores the state, commit keeps it), the
  lock table of PostgreSQL (\<^verbatim>\<open>lock_table_server\<close>), the stores behind inbox, idempotency and outbox, the
  JSON and RFC 3339 codecs (decoding inverts encoding). A call to a server is atomic, as the Lua
  scripts and single statements are.

  \<^bold>\<open>Theories, in the order of their dependencies.\<close>

  \<^item> Prelude: 64-bit wrap-around, durations, trimming, decimal numbers, headers.
  \<^item> Errors (\<^verbatim>\<open>core/errors\<close>, the \<^verbatim>\<open>errors.go\<close> of jobs, scheduler and coordination): the error tree, the
    AppError builders and canonicalisation.
  \<^item> Retry (\<^verbatim>\<open>reliability/retry\<close>): classification, \<^verbatim>\<open>Decide\<close>, the capped exponential backoff; closed
    form, monotonicity and bounds of the backoff, the exact decision table.
  \<^item> Breaker (\<^verbatim>\<open>resilience\<close>): the circuit breaker with its interleavings as a step relation; its
    invariant and the threshold behaviour.
  \<^item> Message, EventBus (\<^verbatim>\<open>eventbus\<close>): consumption with retry and dead letters as a function that returns
    the error and the list of its external effects; aggregate versioning; the event envelope and
    its round trip.
  \<^item> Transactions (\<^verbatim>\<open>persistence/relational\<close>): \<^verbatim>\<open>WithTransaction\<close> of the two SQL adapters, panics included,
    and the atomicity contract they give.
  \<^item> Once (\<^verbatim>\<open>reliability/idempotency, inbox, dedup\<close>): at most one committed execution per key over every
    sequence of calls, proved once in locale \<^verbatim>\<open>once_guard\<close>.
  \<^item> Outbox (\<^verbatim>\<open>reliability/outbox\<close>): atomic write, relay without loss, backoff.
  \<^item> Saga (\<^verbatim>\<open>reliability/saga\<close>): order of execution and compensation, atomicity.
  \<^item> Jobs, Redis, JobsRedis, Worker (\<^verbatim>\<open>jobs\<close>): the job contract and its message round trip, the Redis
    server's laws, the Redis backend (scripts and all operations), the worker's handling of a job.
  \<^item> JobsRuntime (\<^verbatim>\<open>jobs/runtime_backend.go\<close>): leases over an event bus, with the calls of all goroutines
    as a step relation; every delivery is settled at most once.
  \<^item> Locks (\<^verbatim>\<open>coordination\<close>): both lock providers refine one contract, locale \<^verbatim>\<open>lock_provider\<close>, that
    gives mutual exclusion until the deadline.
  \<^item> Cron, Scheduler (\<^verbatim>\<open>scheduler\<close>): cron fields and the search for the next run, over the Gregorian
    calendar; the registry, the task loop and the dispatch of a run under a lock, which is a client of
    \<^verbatim>\<open>lock_provider\<close>.
  \<^item> Stores (\<^verbatim>\<open>session\<close>, \<^verbatim>\<open>cache\<close>): the abstract store of entries with deadlines, the locales
    \<^verbatim>\<open>expiring_store\<close> and \<^verbatim>\<open>touch_store\<close> that simulate it call by call, and the in-memory and Redis stores as
    their instances; every ordered sequence of calls gives the replies of the abstract store.
  \<^item> HttpSession (\<^verbatim>\<open>http/session\<close>): the session middleware as a client of the stores (locale
    \<^verbatim>\<open>session_backend\<close>): what a request leaves in the session is what the client's next request finds, and
    when it is not.
  \<^item> HttpCache (\<^verbatim>\<open>http/cache\<close>): the response cache as a client of the stores (locale \<^verbatim>\<open>http_cache\<close>), with its concurrent
    requests as a step relation: whose responses are served, how old they are, and that one request
    computes at a time.
  \<^item> SemVer (\<^verbatim>\<open>version\<close>): parsing, printing and comparing versions; the round trip and the agreement with
    the precedence of the specification, an instance of \<^verbatim>\<open>linorder\<close>.
  \<^item> Http, Access (\<^verbatim>\<open>auth/jwt.go\<close>, \<^verbatim>\<open>policy\<close>, \<^verbatim>\<open>http/authentication\<close>, \<^verbatim>\<open>http/authorization\<close>): claims, scopes, claim
    rules; exactly which requests reach a protected handler.
  \<^item> Jwks (\<^verbatim>\<open>auth/jwks.go\<close>, \<^verbatim>\<open>auth/oauth2.go\<close>): the cache of an identity provider's keys, the addresses its client may
    dial, base64, and the OAuth2 exchanges; no private address is dialled and no key outlives the cache.
  \<^item> Csrf, Cors (\<^verbatim>\<open>http/csrf\<close>, \<^verbatim>\<open>http/cors\<close>): which requests the token check lets through, as a client of the
    session operations, and what a response tells a browser about origins and credentials.
  \<^item> Signature (\<^verbatim>\<open>http/httpsignature\<close>): signed requests over a nonce store (locale \<^verbatim>\<open>nonce_store\<close>): which are accepted, what a
    signature covers, and when none is accepted twice.
  \<^item> RateLimit (\<^verbatim>\<open>http/ratelimit\<close>): token buckets (locale \<^verbatim>\<open>token_bucket\<close>) with the interleavings of their users, and
    counters on a server (locale \<^verbatim>\<open>counter_server\<close>); how many requests of a key pass in a span of time.
  \<^item> Sse (\<^verbatim>\<open>http/sse\<close>): replay stores (locale \<^verbatim>\<open>replay_store\<close>), the manager's clients and queues, the handler and its
    format; whom an event reaches, that a client that resumes misses nothing, and that a browser reads what is
    written.
  \<^item> Compression, Router (\<^verbatim>\<open>http/middleware/compression\<close>, \<^verbatim>\<open>http/router/nethttp\<close>): response writers over the wire; a compressed
    response is the response for a client that undoes the encoding; matching, groups with their shared
    slices, and how the error of a handler is answered.
  \<^item> Guards (\<^verbatim>\<open>http/middleware/timeout\<close>, \<^verbatim>\<open>requestsize\<close>, \<^verbatim>\<open>requestid\<close>, \<^verbatim>\<open>recovery\<close>, \<^verbatim>\<open>http/securityheaders\<close>, \<^verbatim>\<open>http/static\<close>): the
    small middlewares: which time-out applies, what a handler can read, how a panic is answered, which fields a
    response has, and that static paths stay below their root.
  \<^item> Health (\<^verbatim>\<open>health\<close>, \<^verbatim>\<open>featureflag/posture.go\<close>) and FeatureFlags (\<^verbatim>\<open>featureflag\<close>): the aggregate of concurrent checks
    over the runtime posture; typed flags with safe defaults.
  \<^item> App (\<^verbatim>\<open>core/app\<close>): the life cycle of an application over arbitrary hooks, with the posture its health checks
    expose; which hooks run, in which order, and what a failed start leaves.
  \<^item> AuditTrail (\<^verbatim>\<open>audit\<close>): records chained by digests and the redaction of settings; a verified chain is fixed by its
    last digest, and what a mask covers does not show.
  \<^item> Crud (\<^verbatim>\<open>persistence/relational/generic_crud.go\<close>): the generic repository over an SQL executor; optimistic updates
    lose nothing (locale \<^verbatim>\<open>versioned_table\<close>), and only allowlisted columns reach a query's text.
  \<^item> Migrations (\<^verbatim>\<open>persistence/relational/migrate\<close>): the reading of migration files, \<^verbatim>\<open>Up\<close> as a refinement of the plain
    execution of the pending scripts, \<^verbatim>\<open>Down\<close> as its inverse, and the command over them.
  \<^item> Memcached (\<^verbatim>\<open>internal/memcachedkit\<close> and the Memcached stores of \<^verbatim>\<open>session\<close> and \<^verbatim>\<open>cache\<close>): the client down to the bytes
    of the text protocol, servers by their documented answers (locale \<^verbatim>\<open>memcached_server\<close>), and the stores over
    several of them as the abstract store of Stores.

  \<^bold>\<open>Bounds and fuel.\<close>  The retry loop of \<^verbatim>\<open>ConsumeWithRetry\<close> recurses over the number of attempts it still
  has, which is the loop's own bound, so no fuel can run out. The loop that
  collects the values of a cron segment has a bound of 200 iterations, shown to be enough for every
  segment within the bounds of the fields, also when the step makes the 64-bit sum wrap around. The polling loop of \<^verbatim>\<open>Reserve\<close> and
  the relay's loop recurse over a list of iterations given from outside, since they end only when
  their context does.

  \<^bold>\<open>Not modelled:\<close> logging, metrics registration and tracing; goroutine scheduling beyond the
  interleavings of the breaker, of the leases of the event bus backend and of the response cache; panics except
  where a theory says so (transactions, worker, response cache, Memcached, server-sent events, compression);
  failures of the network after a server has applied a command; the buses of server-sent events; the gRPC, email,
  search and object store adapters and the gin and gorilla routers, which call client libraries; command line, descriptor and
  configuration loading, which are wiring and reflection.
\<close>

end
